(* ===== verification/Prelude.thy ===== *)
theory Prelude
  imports Main "HOL-Library.Word"
begin

text \<open>
  What every component of the development shares: the ways a C++ operation of the program can
  fail, computations that may fail or not return, the loop combinator used for every unbounded
  loop of the code with its rules, the bounds of the C++ \<open>int\<close>, and the collections of rewrite
  rules the component proofs use.
\<close>

section \<open>Collections of facts\<close>

named_theorems comp_simps \<open>evaluation of computations\<close>
named_theorems model_defs \<open>definitions of small operations (getters, setters, constructors)\<close>

section \<open>How an operation can fail\<close>

text \<open>
  \<open>Throw0\<close> is the code's \<open>throw 0\<close>, \<open>OutOfRange\<close> and \<open>InvalidArgument\<close> the standard library's
  exceptions of these names, \<open>TmgException\<close> the tuning model's own exception,
  \<open>PluginError\<close> the plugins' error codes thrown as such, \<open>Abort\<close> a call of
  \<open>abort()\<close> or \<open>psc_abort()\<close>, \<open>ExitFailure\<close> a call of \<open>exit( EXIT_FAILURE )\<close>, \<open>Deadlock\<close> a
  \<open>pthread_mutex_lock\<close> on a mutex the same thread already holds, and \<open>UB\<close> behaviour the C++
  standard leaves undefined (a null or end iterator dereferenced, a read past the end, signed
  overflow).
\<close>

datatype cxx_error =
    Throw0
  | OutOfRange
  | InvalidArgument
  | TmgException
  | PluginError
  | Abort
  | ExitFailure
  | Deadlock
  | UB

text \<open>
  A computation returns \<open>None\<close> when it does not return, \<open>Some (Inl e)\<close> when it fails with \<open>e\<close>,
  and \<open>Some (Inr x)\<close> when it returns \<open>x\<close>.
\<close>

type_synonym 'a result = "cxx_error + 'a"
type_synonym 'a comp = "(cxx_error + 'a) option"

definition ret :: "'a \<Rightarrow> 'a comp" where
  "ret x = Some (Inr x)"

definition fail :: "cxx_error \<Rightarrow> 'a comp" where
  "fail e = Some (Inl e)"

definition cbind :: "'a comp \<Rightarrow> ('a \<Rightarrow> 'b comp) \<Rightarrow> 'b comp" where
  "cbind c f = (case c of None \<Rightarrow> None | Some (Inl e) \<Rightarrow> Some (Inl e) | Some (Inr x) \<Rightarrow> f x)"

definition check :: "bool \<Rightarrow> cxx_error \<Rightarrow> 'a comp \<Rightarrow> 'a comp" where
  "check b e c = (if b then c else fail e)"

lemma cbind_ret [simp, comp_simps]: "cbind (ret x) f = f x"
  by (simp add: cbind_def ret_def)

lemma cbind_fail [simp, comp_simps]: "cbind (fail e) f = fail e"
  by (simp add: cbind_def fail_def)

lemma cbind_None [simp, comp_simps]: "cbind None f = None"
  by (simp add: cbind_def)

lemma cbind_ret_right [simp]: "cbind c ret = c"
  by (simp add: cbind_def ret_def split: option.split sum.split)

lemma cbind_assoc: "cbind (cbind c f) g = cbind c (\<lambda>x. cbind (f x) g)"
  by (simp add: cbind_def split: option.split sum.split)

lemma ret_inject [simp]: "ret x = ret y \<longleftrightarrow> x = y"
  by (simp add: ret_def)

lemma fail_inject [simp]: "fail d = fail e \<longleftrightarrow> d = e"
  by (simp add: fail_def)

lemma ret_neq_fail [simp]: "ret x \<noteq> fail e" "fail e \<noteq> ret x"
  by (simp_all add: ret_def fail_def)

lemma ret_neq_None [simp]: "ret x \<noteq> None" "None \<noteq> ret x" "fail e \<noteq> None" "None \<noteq> fail e"
  by (simp_all add: ret_def fail_def)

lemma cbind_eq_ret: "cbind c f = ret y \<longleftrightarrow> (\<exists>x. c = ret x \<and> f x = ret y)"
  by (auto simp: cbind_def ret_def split: option.splits sum.splits)

lemma cbind_eq_fail: "cbind c f = fail e \<longleftrightarrow> c = fail e \<or> (\<exists>x. c = ret x \<and> f x = fail e)"
  by (auto simp: cbind_def ret_def fail_def split: option.splits sum.splits)

lemma check_True [simp, comp_simps]: "check True e c = c"
  by (simp add: check_def)

lemma check_False [simp, comp_simps]: "check False e c = fail e"
  by (simp add: check_def)

lemma check_eq_ret [simp]: "check b e c = ret x \<longleftrightarrow> b \<and> c = ret x"
  by (simp add: check_def)

lemma comp_cases [case_names Diverges Fails Returns]:
  assumes "c = None \<Longrightarrow> P" and "\<And>e. c = fail e \<Longrightarrow> P" and "\<And>x. c = ret x \<Longrightarrow> P"
  shows P
  using assms unfolding fail_def ret_def by (metis not_None_eq sum.exhaust)

text \<open>The error of a computation, for evaluating it when its values have no decidable equality.\<close>

definition failed_with :: "'a comp \<Rightarrow> cxx_error option" where
  "failed_with c = (case c of Some (Inl e) \<Rightarrow> Some e | _ \<Rightarrow> None)"

lemma failed_with_iff: "failed_with c = Some e \<longleftrightarrow> c = fail e"
  by (auto simp: failed_with_def fail_def split: option.split sum.split)

section \<open>Folding over a container, and loops\<close>

text \<open>\<open>cfold f xs s\<close> is the loop \<open>for( x : xs ) s = f( x, s )\<close>, left at the first failure.\<close>

primrec cfold :: "('a \<Rightarrow> 's \<Rightarrow> 's comp) \<Rightarrow> 'a list \<Rightarrow> 's \<Rightarrow> 's comp" where
  "cfold f [] = (\<lambda>s. ret s)"
| "cfold f (x # xs) = (\<lambda>s. cbind (f x s) (cfold f xs))"

lemma cfold_code [code]: "cfold f [] s = ret s" "cfold f (x # xs) s = cbind (f x s) (cfold f xs)"
  by simp_all

lemma cfold_append: "cfold f (xs @ ys) s = cbind (cfold f xs s) (cfold f ys)"
proof (induction xs arbitrary: s)
  case (Cons x xs)
  then have "cfold f (xs @ ys) = (\<lambda>s. cbind (cfold f xs s) (cfold f ys))" by (intro ext)
  then show ?case by (simp add: cbind_assoc)
qed simp

lemma cfold_ret: "(\<And>x s. x \<in> set xs \<Longrightarrow> f x s = ret (g x s)) \<Longrightarrow> cfold f xs s = ret (fold g xs s)"
  by (induction xs arbitrary: s) simp_all

lemma cfold_cong [fundef_cong]:
  "xs = ys \<Longrightarrow> s = t \<Longrightarrow> (\<And>x s. x \<in> set ys \<Longrightarrow> f x s = g x s) \<Longrightarrow> cfold f xs s = cfold g ys t"
proof (induction xs arbitrary: ys s t)
  case (Cons x xs)
  then have "cfold f xs = cfold g xs" by (intro ext) auto
  with Cons.prems show ?case by auto
qed auto

text \<open>
  \<open>loop body s\<close> runs the body until it answers \<open>False\<close>: the code's \<open>do ... while( ... )\<close> with the
  condition evaluated at the end of the body, and \<open>while\<close> loops with the condition at its start.
\<close>

partial_function (option) loop :: "('s \<Rightarrow> (bool \<times> 's) comp) \<Rightarrow> 's \<Rightarrow> 's comp" where
  "loop body s = Option.bind (body s)
     (\<lambda>r. case r of Inl e \<Rightarrow> Some (Inl e)
          | Inr (again, t) \<Rightarrow> if again then loop body t else Some (Inr t))"

declare loop.simps [code]

lemma loop_unfold:
  "loop body s = cbind (body s) (\<lambda>(again, t). if again then loop body t else ret t)"
  by (subst loop.simps) (auto simp: cbind_def ret_def split: option.split sum.split)

subsection \<open>Partial correctness\<close>

text \<open>\<open>post c Q E\<close>: if \<open>c\<close> returns then with a \<open>Q\<close> value, if it fails then with an \<open>E\<close> error.\<close>

definition post :: "'a comp \<Rightarrow> ('a \<Rightarrow> bool) \<Rightarrow> (cxx_error \<Rightarrow> bool) \<Rightarrow> bool" where
  "post c Q E \<longleftrightarrow> (\<forall>x. c = ret x \<longrightarrow> Q x) \<and> (\<forall>e. c = fail e \<longrightarrow> E e)"

lemma post_ret [simp]: "post (ret x) Q E \<longleftrightarrow> Q x"
  by (auto simp: post_def)

lemma post_fail [simp]: "post (fail e) Q E \<longleftrightarrow> E e"
  by (auto simp: post_def)

lemma post_None [simp]: "post None Q E"
  by (auto simp: post_def)

lemma post_cbind: "post c (\<lambda>x. post (f x) Q E) E \<Longrightarrow> post (cbind c f) Q E"
  by (cases c rule: comp_cases) auto

lemma post_bind: "post c I E \<Longrightarrow> (\<And>x. I x \<Longrightarrow> post (f x) Q E) \<Longrightarrow> post (cbind c f) Q E"
  by (cases c rule: comp_cases) auto

lemma post_conseq:
  "post c Q E \<Longrightarrow> (\<And>x. Q x \<Longrightarrow> Q' x) \<Longrightarrow> (\<And>e. E e \<Longrightarrow> E' e) \<Longrightarrow> post c Q' E'"
  by (auto simp: post_def)

lemma post_retD: "post c Q E \<Longrightarrow> c = ret x \<Longrightarrow> Q x"
  by (simp add: post_def)

lemma post_failD: "post c Q E \<Longrightarrow> c = fail e \<Longrightarrow> E e"
  by (simp add: post_def)

lemma post_cfold:
  assumes "I s" and "\<And>x s. x \<in> set xs \<Longrightarrow> I s \<Longrightarrow> post (f x s) I E"
  shows "post (cfold f xs s) I E"
  using assms
proof (induction xs arbitrary: s)
  case (Cons x xs)
  have "post (f x s) I E" by (rule Cons.prems(2)) (simp_all add: Cons.prems(1))
  moreover have "post (cfold f xs t) I E" if "I t" for t
    using that by (rule Cons.IH) (simp add: Cons.prems(2))
  ultimately show ?case by (simp add: post_bind)
qed simp

lemma post_loop:
  assumes I: "I s"
    and body: "\<And>s. I s \<Longrightarrow> post (body s) (\<lambda>(again, t). if again then I t else Q t) E"
  shows "post (loop body s) Q E"
proof -
  define R where "R s r \<longleftrightarrow> (I s \<longrightarrow> (case r of Inl e \<Rightarrow> E e | Inr t \<Rightarrow> Q t))" for s r
  have main: "R s r" if "loop body s = Some r" for r
  proof (rule loop.raw_induct [where P = "\<lambda>b s r. b = body \<longrightarrow> R s r", THEN mp, OF _ that refl])
    fix lp b s r
    assume IH: "\<And>b s r. lp b s = Some r \<Longrightarrow> b = body \<longrightarrow> R s r"
      and eq: "Option.bind (b s)
        (\<lambda>r. case r of Inl e \<Rightarrow> Some (Inl e)
          | Inr (again, t) \<Rightarrow> if again then lp b t else Some (Inr t)) = Some r"
    show "b = body \<longrightarrow> R s r"
    proof (intro impI)
      assume b: "b = body"
      show "R s r"
        using eq IH body [of s] unfolding b R_def
        by (cases "body s" rule: comp_cases) (auto simp: fail_def ret_def post_def split: if_splits prod.splits)
    qed
  qed
  show ?thesis
  proof (cases "loop body s" rule: comp_cases)
    case (Fails e)
    then have "R s (Inl e)" by (intro main) (simp add: fail_def)
    with Fails I show ?thesis by (simp add: R_def)
  next
    case (Returns x)
    then have "R s (Inr x)" by (intro main) (simp add: ret_def)
    with Returns I show ?thesis by (simp add: R_def)
  qed simp
qed

subsection \<open>Total correctness\<close>

text \<open>\<open>total c Q\<close>: \<open>c\<close> returns, and what it returns satisfies \<open>Q\<close>.\<close>

definition total :: "'a comp \<Rightarrow> ('a \<Rightarrow> bool) \<Rightarrow> bool" where
  "total c Q \<longleftrightarrow> (\<exists>x. c = ret x \<and> Q x)"

lemma total_ret [simp]: "total (ret x) Q \<longleftrightarrow> Q x"
  by (simp add: total_def)

lemma total_fail [simp]: "\<not> total (fail e) Q"
  by (simp add: total_def)

lemma total_None [simp]: "\<not> total None Q"
  by (simp add: total_def)

lemma total_cbind: "total c (\<lambda>x. total (f x) Q) \<Longrightarrow> total (cbind c f) Q"
  by (auto simp: total_def)

lemma total_bind: "total c I \<Longrightarrow> (\<And>x. I x \<Longrightarrow> total (f x) Q) \<Longrightarrow> total (cbind c f) Q"
  by (auto simp: total_def)

lemma total_conseq: "total c Q \<Longrightarrow> (\<And>x. Q x \<Longrightarrow> Q' x) \<Longrightarrow> total c Q'"
  by (auto simp: total_def)

lemma total_cfold:
  assumes "I s" and "\<And>x s. x \<in> set xs \<Longrightarrow> I s \<Longrightarrow> total (f x s) I"
  shows "total (cfold f xs s) I"
  using assms
proof (induction xs arbitrary: s)
  case (Cons x xs)
  have "total (f x s) I" by (rule Cons.prems(2)) (simp_all add: Cons.prems(1))
  moreover have "total (cfold f xs t) I" if "I t" for t
    using that by (rule Cons.IH) (simp add: Cons.prems(2))
  ultimately show ?case by (simp add: total_bind)
qed simp

lemma total_loop:
  assumes I: "I s"
    and body: "\<And>s. I s \<Longrightarrow> total (body s) (\<lambda>(again, t). if again then I t \<and> (t, s) \<in> r else Q t)"
    and wf: "wf r"
  shows "total (loop body s) Q"
  using wf I
proof (induction s rule: wf_induct_rule)
  case (less s)
  from body [OF less.prems] obtain again t where b: "body s = ret (again, t)"
    and t: "if again then I t \<and> (t, s) \<in> r else Q t"
    by (auto simp: total_def)
  show ?case
    using less.IH [of t] t by (subst loop_unfold) (auto simp: b)
qed

subsection \<open>Correctness of computations that may fail but always end\<close>

text \<open>\<open>ends c Q E\<close>: \<open>c\<close> returns a \<open>Q\<close> value or fails with an \<open>E\<close> error, it does not run for ever.\<close>

definition ends :: "'a comp \<Rightarrow> ('a \<Rightarrow> bool) \<Rightarrow> (cxx_error \<Rightarrow> bool) \<Rightarrow> bool" where
  "ends c Q E \<longleftrightarrow> c \<noteq> None \<and> post c Q E"

lemma ends_ret [simp]: "ends (ret x) Q E \<longleftrightarrow> Q x"
  by (simp add: ends_def)

lemma ends_fail [simp]: "ends (fail e) Q E \<longleftrightarrow> E e"
  by (simp add: ends_def)

lemma ends_None [simp]: "\<not> ends None Q E"
  by (simp add: ends_def)

lemma ends_bind: "ends c I E \<Longrightarrow> (\<And>x. I x \<Longrightarrow> ends (f x) Q E) \<Longrightarrow> ends (cbind c f) Q E"
  by (cases c rule: comp_cases) auto

lemma ends_total: "ends c Q (\<lambda>_. False) \<longleftrightarrow> total c Q"
  by (cases c rule: comp_cases) auto

lemma total_ends: "total c Q \<Longrightarrow> ends c Q E"
  by (auto simp: total_def)

lemma ends_conseq:
  "ends c Q E \<Longrightarrow> (\<And>x. Q x \<Longrightarrow> Q' x) \<Longrightarrow> (\<And>e. E e \<Longrightarrow> E' e) \<Longrightarrow> ends c Q' E'"
  unfolding ends_def using post_conseq by blast

lemma ends_loop:
  assumes I: "I s"
    and body: "\<And>s. I s \<Longrightarrow> ends (body s) (\<lambda>(again, t). if again then I t \<and> (t, s) \<in> r else Q t) E"
    and wf: "wf r"
  shows "ends (loop body s) Q E"
  using wf I
proof (induction s rule: wf_induct_rule)
  case (less s)
  show ?case
  proof (cases "body s" rule: comp_cases)
    case (Returns x)
    with body [OF less.prems] less.IH show ?thesis
      by (cases x) (subst loop_unfold, auto split: if_splits)
  qed (use body [OF less.prems] in \<open>subst loop_unfold, simp\<close>)+
qed

section \<open>C++ integers\<close>

text \<open>\<open>int\<close> is 32 bits wide: its values are HOL's \<open>int\<close> within these bounds; overflow is \<open>UB\<close>.\<close>

definition INT_MAX :: int where "INT_MAX = 2147483647"
definition INT_MIN :: int where "INT_MIN = -2147483648"

definition in_int :: "int \<Rightarrow> bool" where
  "in_int i \<longleftrightarrow> INT_MIN \<le> i \<and> i \<le> INT_MAX"

text \<open>Integer division truncates towards zero; division by zero is undefined.\<close>

definition cdiv :: "int \<Rightarrow> int \<Rightarrow> int comp" where
  "cdiv a b = (if b = 0 then fail UB else ret (sgn a * sgn b * (\<bar>a\<bar> div \<bar>b\<bar>)))"

lemma cdiv_pos: "0 \<le> a \<Longrightarrow> 0 < b \<Longrightarrow> cdiv a b = ret (a div b)"
  by (cases "a = 0") (simp_all add: cdiv_def)

end
