(* ===== verification/Binary64.thy ===== *)
theory Binary64
  imports Complex_Main Prelude
begin

text \<open>
  The C++ type \<open>double\<close> as IEEE 754 binary64, concretely enough to evaluate: not-a-number, the two
  infinities, and finite values \<open>(-1)^s * m * 2^e\<close>. Arithmetic is exact integer arithmetic followed
  by rounding to nearest, ties to even, with gradual underflow and overflow to infinity.
  Comparisons are those of the standard: false as soon as one operand is not-a-number. The lemmas
  show that \<open><\<close> is a strict weak order away from not-a-number, which is what the searches, the
  sorting and the matrix minimum of the program depend on, and that conversion of small integers is
  exact.
\<close>

section \<open>Values\<close>

datatype dbl = NaN | Inf bool | Fin bool int int

definition smant :: "bool \<Rightarrow> int \<Rightarrow> int" where
  "smant s m = (if s then - m else m)"

definition is_nan :: "dbl \<Rightarrow> bool" where
  "is_nan d \<longleftrightarrow> d = NaN"

text \<open>The number of binary digits of a positive integer.\<close>

function blen :: "int \<Rightarrow> int" where
  "blen n = (if n \<le> 0 then 0 else 1 + blen (n div 2))"
  by pat_completeness auto
termination
  by (relation "measure nat") auto

declare blen.simps [simp del]

section \<open>Rounding\<close>

text \<open>
  \<open>n / d\<close> lies strictly between \<open>2^(blen n - blen d - 1)\<close> and \<open>2^(blen n - blen d + 1)\<close>, so the
  exponent that puts the quotient into \<open>[2^52, 2^53)\<close> is one of two neighbours.
\<close>

definition scaled_ge :: "int \<Rightarrow> int \<Rightarrow> int \<Rightarrow> bool" where
  "scaled_ge n d e \<longleftrightarrow> d * 2 ^ nat e * 2 ^ 52 \<le> n * 2 ^ nat (- e)"

definition round_exp :: "int \<Rightarrow> int \<Rightarrow> int" where
  "round_exp n d =
     (let e0 = blen n - blen d - 53; e1 = (if scaled_ge n d (e0 + 1) then e0 + 1 else e0)
      in max e1 (- 1074))"

definition round_half_even :: "int \<Rightarrow> int \<Rightarrow> int" where
  "round_half_even n d =
     (let q = n div d; r = n mod d
      in if d < 2 * r \<or> (2 * r = d \<and> odd q) then q + 1 else q)"

definition pack :: "bool \<Rightarrow> int \<Rightarrow> int \<Rightarrow> dbl" where
  "pack s q e =
     (if q = 2 ^ 53 then (if 971 < e + 1 then Inf s else Fin s (2 ^ 52) (e + 1))
      else if 971 < e then Inf s else Fin s q e)"

definition round_ratio :: "bool \<Rightarrow> int \<Rightarrow> int \<Rightarrow> dbl" where
  "round_ratio s n d =
     (if n = 0 then Fin s 0 (- 1074)
      else let e = round_exp n d
           in pack s (round_half_even (n * 2 ^ nat (- e)) (d * 2 ^ nat e)) e)"

text \<open>\<open>k * 2^g\<close>, rounded; a zero gets the given sign.\<close>

definition round_scaled :: "bool \<Rightarrow> int \<Rightarrow> int \<Rightarrow> dbl" where
  "round_scaled zs k g =
     (if k = 0 then Fin zs 0 (- 1074)
      else round_ratio (k < 0) (\<bar>k\<bar> * 2 ^ nat g) (2 ^ nat (- g)))"

definition dbl_of_int :: "int \<Rightarrow> dbl" where
  "dbl_of_int k = round_scaled False k 0"

definition DBL_MAX :: dbl where "DBL_MAX = Fin False (2 ^ 53 - 1) 971"
definition DBL_MIN :: dbl where "DBL_MIN = Fin False (2 ^ 52) (- 1074)"

section \<open>Arithmetic\<close>

fun dneg :: "dbl \<Rightarrow> dbl" where
  "dneg NaN = NaN"
| "dneg (Inf s) = Inf (\<not> s)"
| "dneg (Fin s m e) = Fin (\<not> s) m e"

fun dadd :: "dbl \<Rightarrow> dbl \<Rightarrow> dbl" where
  "dadd NaN b = NaN"
| "dadd a NaN = NaN"
| "dadd (Inf s) (Inf t) = (if s = t then Inf s else NaN)"
| "dadd (Inf s) (Fin t n f) = Inf s"
| "dadd (Fin s m e) (Inf t) = Inf t"
| "dadd (Fin s m e) (Fin t n f) =
     (let g = min e f
      in round_scaled (s \<and> t) (smant s m * 2 ^ nat (e - g) + smant t n * 2 ^ nat (f - g)) g)"

definition dsub :: "dbl \<Rightarrow> dbl \<Rightarrow> dbl" where
  "dsub a b = dadd a (dneg b)"

fun dmul :: "dbl \<Rightarrow> dbl \<Rightarrow> dbl" where
  "dmul NaN b = NaN"
| "dmul a NaN = NaN"
| "dmul (Inf s) (Inf t) = Inf (s \<noteq> t)"
| "dmul (Inf s) (Fin t n f) = (if n = 0 then NaN else Inf (s \<noteq> t))"
| "dmul (Fin s m e) (Inf t) = (if m = 0 then NaN else Inf (s \<noteq> t))"
| "dmul (Fin s m e) (Fin t n f) = round_scaled (s \<noteq> t) (smant s m * smant t n) (e + f)"

text \<open>Division by zero gives an infinity, or not-a-number for a zero or not-a-number dividend.\<close>

fun ddiv :: "dbl \<Rightarrow> dbl \<Rightarrow> dbl" where
  "ddiv NaN b = NaN"
| "ddiv a NaN = NaN"
| "ddiv (Inf s) (Inf t) = NaN"
| "ddiv (Inf s) (Fin t n f) = Inf (s \<noteq> t)"
| "ddiv (Fin s m e) (Inf t) = Fin (s \<noteq> t) 0 (- 1074)"
| "ddiv (Fin s m e) (Fin t n f) =
     (if n = 0 then (if m = 0 then NaN else Inf (s \<noteq> t))
      else round_ratio (s \<noteq> t) (m * 2 ^ nat (e - f)) (n * 2 ^ nat (f - e)))"

fun dabs :: "dbl \<Rightarrow> dbl" where
  "dabs NaN = NaN"
| "dabs (Inf s) = Inf False"
| "dabs (Fin s m e) = Fin False m e"

text \<open>Conversion to a 64 bit integer truncates; a value that does not fit is undefined.\<close>

fun dbl_to_int64 :: "dbl \<Rightarrow> int comp" where
  "dbl_to_int64 NaN = fail UB"
| "dbl_to_int64 (Inf s) = fail UB"
| "dbl_to_int64 (Fin s m e) =
     (let k = smant s (m * 2 ^ nat e div 2 ^ nat (- e))
      in if - (2 ^ 63) \<le> k \<and> k < 2 ^ 63 then ret k else fail UB)"

section \<open>Comparison\<close>

fun dlt :: "dbl \<Rightarrow> dbl \<Rightarrow> bool" where
  "dlt NaN b = False"
| "dlt a NaN = False"
| "dlt (Inf s) (Inf t) = (s \<and> \<not> t)"
| "dlt (Inf s) (Fin t n f) = s"
| "dlt (Fin s m e) (Inf t) = (\<not> t)"
| "dlt (Fin s m e) (Fin t n f) =
     (let g = min e f in smant s m * 2 ^ nat (e - g) < smant t n * 2 ^ nat (f - g))"

definition dle :: "dbl \<Rightarrow> dbl \<Rightarrow> bool" where
  "dle a b \<longleftrightarrow> \<not> is_nan a \<and> \<not> is_nan b \<and> \<not> dlt b a"

definition deq :: "dbl \<Rightarrow> dbl \<Rightarrow> bool" where
  "deq a b \<longleftrightarrow> dle a b \<and> dle b a"

text \<open>The real number a finite value stands for, and a linear key for the others.\<close>

fun dval :: "dbl \<Rightarrow> real" where
  "dval (Fin s m e) = real_of_int (smant s m) * 2 powr real_of_int e"
| "dval _ = 0"

fun drank :: "dbl \<Rightarrow> int" where
  "drank (Inf s) = (if s then - 1 else 1)"
| "drank _ = 0"

lemma scale_less:
  fixes a b e f :: int
  defines "g \<equiv> min e f"
  shows "a * 2 ^ nat (e - g) < b * 2 ^ nat (f - g) \<longleftrightarrow>
    real_of_int a * 2 powr e < real_of_int b * 2 powr f"
proof -
  have pw: "2 powr real_of_int h = (2 ^ nat (h - g)) * (2 powr real_of_int g)" if "g \<le> h" for h :: int
  proof -
    have "2 powr real_of_int h = 2 powr (real (nat (h - g)) + real_of_int g)" using that by simp
    also have "\<dots> = (2 ^ nat (h - g)) * (2 powr real_of_int g)" by (simp add: powr_add powr_realpow)
    finally show ?thesis .
  qed
  have e: "2 powr real_of_int e = (2 ^ nat (e - g)) * (2 powr real_of_int g)"
    and f: "2 powr real_of_int f = (2 ^ nat (f - g)) * (2 powr real_of_int g)"
    by (rule pw; simp add: g_def)+
  have "real_of_int a * 2 powr e < real_of_int b * 2 powr f \<longleftrightarrow>
      (real_of_int a * 2 ^ nat (e - g)) * 2 powr real_of_int g
      < (real_of_int b * 2 ^ nat (f - g)) * 2 powr real_of_int g"
    unfolding e f by (simp only: mult.assoc)
  also have "\<dots> \<longleftrightarrow> real_of_int (a * 2 ^ nat (e - g)) < real_of_int (b * 2 ^ nat (f - g))"
    by (simp add: mult_less_cancel_right)
  finally show ?thesis by (simp only: of_int_less_iff)
qed

lemma dlt_iff:
  "dlt a b \<longleftrightarrow> \<not> is_nan a \<and> \<not> is_nan b \<and>
     (drank a < drank b \<or> drank a = drank b \<and> dval a < dval b)"
  by (cases "(a, b)" rule: dlt.cases)
     (auto simp: is_nan_def Let_def scale_less simp del: of_int_mult)

lemma dlt_irrefl [simp]: "\<not> dlt a a"
  by (simp add: dlt_iff)

lemma dlt_trans [trans]: "dlt a b \<Longrightarrow> dlt b c \<Longrightarrow> dlt a c"
  by (auto simp: dlt_iff)

lemma dlt_asym: "dlt a b \<Longrightarrow> \<not> dlt b a"
  by (auto simp: dlt_iff)

lemma not_dlt_trans:
  "\<not> dlt b a \<Longrightarrow> \<not> dlt c b \<Longrightarrow> \<not> is_nan b \<Longrightarrow> \<not> dlt c a"
  by (auto simp: dlt_iff)

lemma dle_iff:
  "dle a b \<longleftrightarrow> \<not> is_nan a \<and> \<not> is_nan b \<and>
     (drank a < drank b \<or> drank a = drank b \<and> dval a \<le> dval b)"
  by (auto simp: dle_def dlt_iff)

lemma dle_trans [trans]: "dle a b \<Longrightarrow> dle b c \<Longrightarrow> dle a c"
  by (auto simp: dle_iff)

lemma dle_refl: "\<not> is_nan a \<Longrightarrow> dle a a"
  by (simp add: dle_iff)

lemma dle_linear: "\<not> is_nan a \<Longrightarrow> \<not> is_nan b \<Longrightarrow> dle a b \<or> dle b a"
  by (auto simp: dle_iff)

lemma dlt_imp_dle: "dlt a b \<Longrightarrow> dle a b"
  by (auto simp: dlt_iff dle_iff)

lemma dlt_dle_trans [trans]: "dlt a b \<Longrightarrow> dle b c \<Longrightarrow> dlt a c"
  by (auto simp: dlt_iff dle_iff)

lemma dle_dlt_trans [trans]: "dle a b \<Longrightarrow> dlt b c \<Longrightarrow> dlt a c"
  by (auto simp: dlt_iff dle_iff)

lemma not_dlt_dle: "\<not> is_nan a \<Longrightarrow> \<not> is_nan b \<Longrightarrow> \<not> dlt a b \<longleftrightarrow> dle b a"
  by (auto simp: dlt_iff dle_iff)

section \<open>Rounding depends on the value only\<close>

lemma blen_shift: "0 < n \<Longrightarrow> blen (n * 2 ^ j) = blen n + int j"
proof (induction j)
  case (Suc j)
  have "blen (n * 2 ^ Suc j) = 1 + blen (n * 2 ^ j)"
    using Suc.prems by (subst blen.simps) (simp add: mult_le_0_iff not_le)
  with Suc show ?case by simp
qed simp

lemma scaled_ge_shift: "scaled_ge (n * 2 ^ j) (d * 2 ^ j) e = scaled_ge n d e"
proof -
  have "scaled_ge (n * 2 ^ j) (d * 2 ^ j) e \<longleftrightarrow> (d * 2 ^ nat e * 2 ^ 52) * 2 ^ j \<le> (n * 2 ^ nat (- e)) * 2 ^ j"
    by (simp only: scaled_ge_def ac_simps)
  also have "\<dots> \<longleftrightarrow> scaled_ge n d e" unfolding scaled_ge_def by (rule mult_le_cancel_right_pos) simp
  finally show ?thesis .
qed

lemma round_half_even_shift:
  assumes "0 < (c :: int)"
  shows "round_half_even (n * c) (d * c) = round_half_even n d"
proof -
  have "d * c < 2 * (n mod d * c) \<longleftrightarrow> d < 2 * (n mod d)" "2 * (n mod d * c) = d * c \<longleftrightarrow> 2 * (n mod d) = d"
    using assms by (simp_all add: mult.assoc [symmetric])
  then show ?thesis using assms by (simp add: round_half_even_def Let_def)
qed

lemma round_ratio_shift:
  assumes "0 < n" "0 < d"
  shows "round_ratio s (n * 2 ^ j) (d * 2 ^ j) = round_ratio s n d"
proof -
  have e: "round_exp (n * 2 ^ j) (d * 2 ^ j) = round_exp n d"
    using assms by (simp add: round_exp_def blen_shift scaled_ge_shift)
  have "round_half_even (n * 2 ^ j * 2 ^ nat (- e)) (d * 2 ^ j * 2 ^ nat e) =
      round_half_even (n * 2 ^ nat (- e)) (d * 2 ^ nat e)" for e
    using round_half_even_shift [of "2 ^ j" "n * 2 ^ nat (- e)" "d * 2 ^ nat e"] by (simp only: ac_simps) simp
  with e assms show ?thesis by (simp add: round_ratio_def)
qed

lemma round_scaled_shift: "round_scaled z (k * 2 ^ j) g = round_scaled z k (g + int j)"
proof (cases "k = 0")
  case False
  define i where "i = nat (- g) - nat (- (g + int j))"
  have "nat g + j = nat (g + int j) + i" "nat (- g) = nat (- (g + int j)) + i" by (auto simp: i_def)
  then have "2 ^ j * 2 ^ nat g = (2 ^ nat (g + int j) * 2 ^ i :: int)" "2 ^ nat (- g) = (2 ^ nat (- (g + int j)) * 2 ^ i :: int)"
    by (simp_all add: power_add [symmetric] add.commute)
  then have "round_ratio s (\<bar>k\<bar> * (2 ^ j * 2 ^ nat g)) (2 ^ nat (- g)) =
      round_ratio s (\<bar>k\<bar> * 2 ^ nat (g + int j) * 2 ^ i) (2 ^ nat (- (g + int j)) * 2 ^ i)" for s
    by (simp add: mult.assoc)
  also have "\<dots> s = round_ratio s (\<bar>k\<bar> * 2 ^ nat (g + int j)) (2 ^ nat (- (g + int j)))" for s
    using False by (intro round_ratio_shift) simp_all
  finally show ?thesis using False by (simp add: round_scaled_def abs_mult mult.assoc mult_less_0_iff)
qed (simp add: round_scaled_def)

text \<open>Adding a zero needs no alignment: the equations \<open>dadd\<close> is evaluated with.\<close>

lemma dadd_finite:
  "dadd (Fin s m e) (Fin t n f) =
     (if m = 0 then round_scaled (s \<and> t) (smant t n) f
      else if n = 0 then round_scaled (s \<and> t) (smant s m) e
      else let g = min e f
      in round_scaled (s \<and> t) (smant s m * 2 ^ nat (e - g) + smant t n * 2 ^ nat (f - g)) g)"
proof -
  have align: "round_scaled z (k * 2 ^ nat (a - b)) b = round_scaled z k a" if "b \<le> a" for z k a b
    using that by (simp add: round_scaled_shift)
  have zero: "smant s 0 = 0" for s by (simp add: smant_def)
  show ?thesis by (simp add: Let_def zero align)
qed

lemma dadd_code [code]:
  "dadd NaN b = NaN"
  "dadd (Inf s) NaN = NaN"
  "dadd (Fin s m e) NaN = NaN"
  "dadd (Inf s) (Inf t) = (if s = t then Inf s else NaN)"
  "dadd (Inf s) (Fin t n f) = Inf s"
  "dadd (Fin s m e) (Inf t) = Inf t"
  "dadd (Fin s m e) (Fin t n f) =
     (if m = 0 then round_scaled (s \<and> t) (smant t n) f
      else if n = 0 then round_scaled (s \<and> t) (smant s m) e
      else let g = min e f
      in round_scaled (s \<and> t) (smant s m * 2 ^ nat (e - g) + smant t n * 2 ^ nat (f - g)) g)"
  by (rule dadd.simps dadd_finite)+

end
