(* ===== verification/StdMap.thy ===== *)
theory StdMap
  imports Prelude "HOL-Library.List_Lexorder" "HOL-Library.Char_ord"
begin

text \<open>
  \<open>std::map\<close>, the container nearly every component of the program keeps its state in: a list of
  pairs strictly sorted by key, so that iteration is by ascending key as the standard requires.
  The operations are the ones the code uses: \<open>find\<close>, \<open>at\<close>, \<open>insert\<close> (which never overwrites),
  assignment through \<open>operator[]\<close>, \<open>erase\<close>. The locale \<open>ordered_map\<close> is what the components rely
  on; it is interpreted on this implementation below.
\<close>

section \<open>The container\<close>

type_synonym ('k, 'v) smap = "('k \<times> 'v) list"

definition sm_wf :: "('k::linorder, 'v) smap \<Rightarrow> bool" where
  "sm_wf m \<longleftrightarrow> sorted_wrt (<) (map fst m)"

text \<open>\<open>find\<close>: \<open>None\<close> is the end iterator.\<close>

definition sm_find :: "('k, 'v) smap \<Rightarrow> 'k \<Rightarrow> 'v option" where
  "sm_find m k = map_of m k"

definition sm_has :: "('k, 'v) smap \<Rightarrow> 'k \<Rightarrow> bool" where
  "sm_has m k \<longleftrightarrow> sm_find m k \<noteq> None"

text \<open>\<open>at\<close> throws \<open>std::out_of_range\<close> on a missing key.\<close>

definition sm_at :: "('k, 'v) smap \<Rightarrow> 'k \<Rightarrow> 'v comp" where
  "sm_at m k = (case sm_find m k of None \<Rightarrow> fail OutOfRange | Some v \<Rightarrow> ret v)"

text \<open>\<open>m[ k ] = v\<close>.\<close>

fun sm_put :: "'k::linorder \<Rightarrow> 'v \<Rightarrow> ('k, 'v) smap \<Rightarrow> ('k, 'v) smap" where
  "sm_put k v [] = [(k, v)]"
| "sm_put k v ((k', v') # m) =
     (if k < k' then (k, v) # (k', v') # m
      else if k = k' then (k, v) # m
      else (k', v') # sm_put k v m)"

text \<open>\<open>m.insert( make_pair( k, v ) )\<close>: nothing happens when the key is present.\<close>

definition sm_insert :: "'k::linorder \<Rightarrow> 'v \<Rightarrow> ('k, 'v) smap \<Rightarrow> ('k, 'v) smap" where
  "sm_insert k v m = (if sm_has m k then m else sm_put k v m)"

text \<open>\<open>m.insert( first, last )\<close> of another map's range.\<close>

definition sm_insert_range :: "('k::linorder, 'v) smap \<Rightarrow> ('k, 'v) smap \<Rightarrow> ('k, 'v) smap" where
  "sm_insert_range other m = fold (\<lambda>(k, v). sm_insert k v) other m"

text \<open>\<open>m[ k ]\<close> read: a missing key is inserted with the default value first.\<close>

definition sm_index :: "'v \<Rightarrow> 'k::linorder \<Rightarrow> ('k, 'v) smap \<Rightarrow> 'v \<times> ('k, 'v) smap" where
  "sm_index d k m = (case sm_find m k of Some v \<Rightarrow> (v, m) | None \<Rightarrow> (d, sm_put k d m))"

definition sm_erase :: "'k \<Rightarrow> ('k, 'v) smap \<Rightarrow> ('k, 'v) smap" where
  "sm_erase k m = filter (\<lambda>(k', v). k' \<noteq> k) m"

lemmas sm_defs = sm_find_def sm_has_def sm_at_def sm_insert_def sm_index_def sm_erase_def

section \<open>Laws\<close>

lemma sm_find_Nil [simp]: "sm_find [] k = None"
  by (simp add: sm_find_def)

lemma sm_find_Cons: "sm_find ((k', v) # m) k = (if k = k' then Some v else sm_find m k)"
  by (simp add: sm_find_def)

lemma sm_find_put [simp]: "sm_find (sm_put k v m) = (sm_find m)(k \<mapsto> v)"
  by (induction k v m rule: sm_put.induct) (auto simp: sm_find_def fun_eq_iff)

lemma sm_find_erase [simp]: "sm_find (sm_erase k m) = (sm_find m)(k := None)"
  by (induction m) (auto simp: sm_find_def sm_erase_def fun_eq_iff)

lemma sm_find_insert [simp]:
  "sm_find (sm_insert k v m) = (case sm_find m k of None \<Rightarrow> (sm_find m)(k \<mapsto> v) | Some _ \<Rightarrow> sm_find m)"
  by (simp add: sm_insert_def sm_has_def split: option.split)

lemma sm_find_index [simp]:
  "sm_find (snd (sm_index d k m)) = (case sm_find m k of None \<Rightarrow> (sm_find m)(k \<mapsto> d) | Some _ \<Rightarrow> sm_find m)"
  by (simp add: sm_index_def split: option.split)

lemma fst_sm_index [simp]: "fst (sm_index d k m) = (case sm_find m k of None \<Rightarrow> d | Some v \<Rightarrow> v)"
  by (simp add: sm_index_def split: option.split)

lemma keys_sm_put: "fst ` set (sm_put k v m) = insert k (fst ` set m)"
  by (induction k v m rule: sm_put.induct) auto

lemma keys_sm_find: "fst ` set m = dom (sm_find m)"
  by (simp add: sm_find_def dom_map_of_conv_image_fst [symmetric] dom_def)

lemma sm_wf_Nil [simp]: "sm_wf []"
  by (simp add: sm_wf_def)

lemma sm_wf_Cons: "sm_wf ((k, v) # m) \<longleftrightarrow> (\<forall>k' \<in> fst ` set m. k < k') \<and> sm_wf m"
  by (auto simp: sm_wf_def)

lemma sm_wf_put [simp]: "sm_wf m \<Longrightarrow> sm_wf (sm_put k v m)"
proof (induction k v m rule: sm_put.induct)
  case (2 k v k' v' m)
  then show ?case by (auto simp: sm_wf_Cons keys_sm_put)
qed (simp add: sm_wf_Cons)

lemma sm_wf_insert [simp]: "sm_wf m \<Longrightarrow> sm_wf (sm_insert k v m)"
  by (simp add: sm_insert_def)

lemma sm_wf_index [simp]: "sm_wf m \<Longrightarrow> sm_wf (snd (sm_index d k m))"
  by (simp add: sm_index_def split: option.split)

lemma sm_wf_erase [simp]: "sm_wf m \<Longrightarrow> sm_wf (sm_erase k m)"
  by (auto simp: sm_wf_def sm_erase_def sorted_wrt_map sorted_wrt_filter)

lemma sm_wf_distinct: "sm_wf m \<Longrightarrow> distinct (map fst m)"
  by (simp add: sm_wf_def strict_sorted_iff)

text \<open>Two well-formed maps with the same bindings are the same container.\<close>

lemma sm_wf_eqI:
  assumes "sm_wf m" and "sm_wf n" and "sm_find m = sm_find n"
  shows "m = n"
proof -
  have dist: "distinct (map fst m)" "distinct (map fst n)"
    using assms(1,2) by (simp_all add: sm_wf_distinct)
  have "map_of m = map_of n" using assms(3) by (simp add: sm_find_def fun_eq_iff)
  then have eq: "set m = set n" using map_of_inject_set [OF dist] by simp
  have "inj_on fst (set m \<union> set n)" using dist eq by (simp add: distinct_map)
  then show ?thesis
    using assms(1,2) dist eq
    by (intro map_sorted_distinct_set_unique [of fst]) (simp_all add: sm_wf_def strict_sorted_iff)
qed

section \<open>The interface\<close>

locale ordered_map =
  fixes empty :: "'m"
    and put :: "'k::linorder \<Rightarrow> 'v \<Rightarrow> 'm \<Rightarrow> 'm"
    and ins :: "'k \<Rightarrow> 'v \<Rightarrow> 'm \<Rightarrow> 'm"
    and era :: "'k \<Rightarrow> 'm \<Rightarrow> 'm"
    and look :: "'m \<Rightarrow> 'k \<Rightarrow> 'v option"
    and items :: "'m \<Rightarrow> ('k \<times> 'v) list"
    and wf :: "'m \<Rightarrow> bool"
  assumes look_empty: "look empty k = None"
    and look_put: "look (put k v m) = (look m)(k \<mapsto> v)"
    and look_ins: "look (ins k v m) = (if look m k = None then (look m)(k \<mapsto> v) else look m)"
    and look_era: "look (era k m) = (look m)(k := None)"
    and wf_empty: "wf empty"
    and wf_put: "wf m \<Longrightarrow> wf (put k v m)"
    and wf_ins: "wf m \<Longrightarrow> wf (ins k v m)"
    and wf_era: "wf m \<Longrightarrow> wf (era k m)"
    and items_look: "wf m \<Longrightarrow> (k, v) \<in> set (items m) \<longleftrightarrow> look m k = Some v"
    and items_sorted: "wf m \<Longrightarrow> sorted_wrt (<) (map fst (items m))"
begin

lemma first_is_least:
  assumes "wf m" and "items m = (k, v) # rest" and "look m k' \<noteq> None"
  shows "k \<le> k'"
proof -
  from assms(3) obtain v' where "look m k' = Some v'" by auto
  then have "(k', v') \<in> set ((k, v) # rest)" using items_look [OF assms(1)] assms(2) by auto
  moreover have "\<forall>x \<in> set (map fst rest). k < x" using items_sorted [OF assms(1)] assms(2) by simp
  ultimately show ?thesis by fastforce
qed

lemma ins_keeps: "look m k = Some w \<Longrightarrow> look (ins k v m) = look m"
  by (simp add: look_ins)

lemma era_ins: "look m k = None \<Longrightarrow> look (era k (ins k v m)) = look m"
  by (auto simp: look_era look_ins fun_eq_iff)

lemma size_ins:
  assumes "wf m"
  shows "fst ` set (items (ins k v m)) = insert k (fst ` set (items m))"
proof -
  have keys: "fst ` set (items n) = {x. look n x \<noteq> None}" if "wf n" for n
    using items_look [OF that] by (force simp: image_iff)
  show ?thesis using assms wf_ins keys by (auto simp: look_ins)
qed

end

interpretation sm: ordered_map "[]" sm_put sm_insert sm_erase sm_find "\<lambda>m. m" sm_wf
proof unfold_locales
  fix m :: "('k::linorder, 'v) smap" and k v
  assume "sm_wf m"
  then show "((k, v) \<in> set m) = (sm_find m k = Some v)"
    by (simp add: sm_find_def sm_wf_distinct)
next
  fix m :: "('k::linorder, 'v) smap"
  assume "sm_wf m"
  then show "sorted_wrt (<) (map fst m)" by (simp add: sm_wf_def)
qed (auto split: option.split)

end
