(* ===== verification/CString.thy ===== *)
theory CString
  imports Binary64 StdMap
begin

text \<open>
  The conversions between text and numbers the program uses: \<open>std::stoi\<close>, \<open>atoi\<close>, \<open>std::stod\<close> for
  the decimal notations, and printing of an integer (\<open>operator<<\<close>, \<open>boost::lexical_cast<string>\<close>,
  \<open>%d\<close>). The round trip at the end is what ties a scenario's measurements to its identifier: the
  frontend writes the identifier as text and the results pool reads it back with \<open>atoi\<close>.
\<close>

section \<open>Characters\<close>

definition is_space :: "char \<Rightarrow> bool" where
  "is_space c \<longleftrightarrow> c \<in> {CHR '' '', CHR 0x09, CHR 0x0A, CHR 0x0B, CHR 0x0C, CHR 0x0D}"

definition decimal_digits :: string where
  "decimal_digits = ''0123456789''"

definition digit_value :: "char \<Rightarrow> int option" where
  "digit_value c =
     (if c \<in> set decimal_digits then Some (int (length (takeWhile ((\<noteq>) c) decimal_digits))) else None)"

definition digit_char :: "int \<Rightarrow> char" where
  "digit_char d = decimal_digits ! (if d < 0 \<or> 9 < d then 9 else nat d)"

lemma digit_value_char: "0 \<le> d \<Longrightarrow> d < 10 \<Longrightarrow> digit_value (digit_char d) = Some d"
proof -
  assume "0 \<le> d" "d < 10"
  then have "d = 0 \<or> d = 1 \<or> d = 2 \<or> d = 3 \<or> d = 4 \<or> d = 5 \<or> d = 6 \<or> d = 7 \<or> d = 8 \<or> d = 9"
    by arith
  then show ?thesis by (auto simp: digit_value_def digit_char_def decimal_digits_def)
qed

lemma digit_char_digit: "digit_char d \<in> set decimal_digits"
  unfolding digit_char_def by (rule nth_mem) (auto simp: decimal_digits_def)

lemma digit_char_other: "c \<notin> set decimal_digits \<Longrightarrow> c \<noteq> digit_char d \<and> digit_char d \<noteq> c"
  using digit_char_digit [of d] by auto

lemma digit_char_not_space: "\<not> is_space (digit_char d)"
  using digit_char_digit [of d] by (auto simp: decimal_digits_def is_space_def)

lemma digit_char_not_sign: "digit_char d \<noteq> CHR ''-''" "digit_char d \<noteq> CHR ''+''"
  using digit_char_digit [of d] by (auto simp: decimal_digits_def)

section \<open>Reading integers\<close>

text \<open>The digits at the front of a string, as a number, how many there were, and what follows.\<close>

fun read_digits :: "string \<Rightarrow> int \<Rightarrow> int \<Rightarrow> int \<times> int \<times> string" where
  "read_digits [] acc n = (acc, n, [])"
| "read_digits (c # cs) acc n =
     (case digit_value c of None \<Rightarrow> (acc, n, c # cs)
      | Some d \<Rightarrow> read_digits cs (10 * acc + d) (n + 1))"

fun read_sign :: "string \<Rightarrow> bool \<times> string" where
  "read_sign [] = (False, [])"
| "read_sign (c # cs) =
     (if c = CHR ''-'' then (True, cs) else if c = CHR ''+'' then (False, cs) else (False, c # cs))"

text \<open>\<open>strtol( s, &end, 10 )\<close>: the value and whether any digit was read.\<close>

definition strtol10 :: "string \<Rightarrow> int \<times> bool" where
  "strtol10 s =
     (let (neg, t) = read_sign (dropWhile is_space s); (v, n, _) = read_digits t 0 0
      in (if neg then - v else v, 0 < n))"

definition std_stoi :: "string \<Rightarrow> int comp" where
  "std_stoi s =
     (let (v, any) = strtol10 s
      in if \<not> any then fail InvalidArgument else if \<not> in_int v then fail OutOfRange else ret v)"

text \<open>\<open>atoi\<close> answers 0 when there is no number; a value that does not fit is undefined.\<close>

definition c_atoi :: "string \<Rightarrow> int comp" where
  "c_atoi s = (let (v, any) = strtol10 s in if in_int v then ret v else fail UB)"

section \<open>Reading doubles\<close>

text \<open>
  \<open>std::stod\<close> on decimal notation: white space, sign, digits with an optional fraction, optional
  exponent. It throws when there is no number, and when the number over- or underflows. The values
  the program parses are printed by its own agents in this notation; the hexadecimal, infinity and
  not-a-number notations are not modelled and are read as far as the decimal grammar goes.
\<close>

definition read_fraction :: "string \<Rightarrow> int \<Rightarrow> int \<Rightarrow> int \<times> int \<times> string" where
  "read_fraction s acc n =
     (case s of c # cs \<Rightarrow> if c = CHR ''.'' then read_digits cs acc n else (acc, n, s)
      | [] \<Rightarrow> (acc, n, s))"

definition read_exponent :: "string \<Rightarrow> int" where
  "read_exponent s =
     (case s of
        c # cs \<Rightarrow>
          if c = CHR ''e'' \<or> c = CHR ''E''
          then (let (neg, t) = read_sign cs; (v, n, _) = read_digits t 0 0 in if neg then - v else v)
          else 0
      | [] \<Rightarrow> 0)"

definition std_stod :: "string \<Rightarrow> dbl comp" where
  "std_stod s =
     (let (neg, t) = read_sign (dropWhile is_space s);
          (ip, ni, r) = read_digits t 0 0;
          (m, n, r') = read_fraction r ip ni;
          ex = read_exponent r' - (n - ni)
      in if n = 0 then fail InvalidArgument
         else (case round_ratio neg (m * 10 ^ nat ex) (10 ^ nat (- ex)) of
                 Inf _ \<Rightarrow> fail OutOfRange
               | NaN \<Rightarrow> fail OutOfRange
               | Fin sg k e \<Rightarrow>
                   if m \<noteq> 0 \<and> k < 2 ^ 52 \<and> k * 2 ^ nat e * 10 ^ nat (- ex) \<noteq> m * 10 ^ nat ex * 2 ^ nat (- e)
                   then fail OutOfRange else ret (Fin sg k e)))"

section \<open>Printing integers\<close>

fun print_nat :: "nat \<Rightarrow> string" where
  "print_nat n = (if n < 10 then [digit_char (int n)] else print_nat (n div 10) @ [digit_char (int (n mod 10))])"

declare print_nat.simps [simp del]

definition print_int :: "int \<Rightarrow> string" where
  "print_int i = (if i < 0 then CHR ''-'' # print_nat (nat (- i)) else print_nat (nat i))"

section \<open>Round trip\<close>

lemma read_digits_append:
  "read_digits s acc n = (v, k, []) \<Longrightarrow> read_digits (s @ t) acc n = read_digits t v k"
  by (induction s acc n arbitrary: v k rule: read_digits.induct) (auto split: option.splits)

lemma read_digits_print_nat:
  "\<exists>k > 0. read_digits (print_nat n) 0 0 = (int n, k, [])"
proof (induction n rule: print_nat.induct)
  case (1 n)
  show ?case
  proof (cases "n < 10")
    case True
    then show ?thesis by (subst print_nat.simps) (simp add: digit_value_char)
  next
    case False
    with 1 obtain k where k: "k > 0" "read_digits (print_nat (n div 10)) 0 0 = (int (n div 10), k, [])"
      by auto
    have "digit_value (digit_char (int (n mod 10))) = Some (int (n mod 10))"
      by (rule digit_value_char) auto
    then have "read_digits (print_nat n) 0 0 = (10 * int (n div 10) + int (n mod 10), k + 1, [])"
      using False by (subst print_nat.simps) (simp add: read_digits_append [OF k(2)])
    moreover have "10 * int (n div 10) + int (n mod 10) = int n" by presburger
    ultimately show ?thesis using k(1) by (intro exI [of _ "k + 1"]) auto
  qed
qed

lemma print_nat_first: "\<exists>d cs. print_nat n = digit_char d # cs"
proof (induction n rule: print_nat.induct)
  case (1 n)
  then show ?case by (subst print_nat.simps) (auto, metis append_Cons)
qed

lemma strtol10_print_int: "strtol10 (print_int i) = (i, True)"
proof -
  obtain d cs where f: "print_nat (nat \<bar>i\<bar>) = digit_char d # cs" using print_nat_first by blast
  obtain k where k: "k > 0" "read_digits (print_nat (nat \<bar>i\<bar>)) 0 0 = (\<bar>i\<bar>, k, [])"
    using read_digits_print_nat [of "nat \<bar>i\<bar>"] by auto
  have "read_sign (print_nat (nat \<bar>i\<bar>)) = (False, print_nat (nat \<bar>i\<bar>))"
    by (simp add: f digit_char_not_sign)
  moreover have "dropWhile is_space (print_nat (nat \<bar>i\<bar>)) = print_nat (nat \<bar>i\<bar>)"
    by (simp add: f digit_char_not_space)
  ultimately show ?thesis
    using k by (auto simp: strtol10_def print_int_def is_space_def)
qed

lemma stoi_print_int: "in_int i \<Longrightarrow> std_stoi (print_int i) = ret i"
  by (simp add: std_stoi_def strtol10_print_int)

lemma atoi_print_int: "in_int i \<Longrightarrow> c_atoi (print_int i) = ret i"
  by (simp add: c_atoi_def strtol10_print_int)

lemma print_int_inject: "print_int i = print_int j \<longleftrightarrow> i = j"
  by (metis fst_conv strtol10_print_int)

end
