(* ===== verification/DataModel.thy ===== *)
theory DataModel
  imports CString
begin

text \<open>
  The tuning data of \<open>autotune/datamodel\<close>: restrictions, tuning parameters, search spaces,
  variants, ranks, variant contexts, tuning specifications, property requests and scenarios.
  Tuning parameters are shared by pointer between the plugin, the search spaces and the variants
  (a search replaces the restriction of a parameter that other objects already point to), so they
  live in a store indexed by address; the other objects have one owner and are values. Lists the
  code holds by pointer are held by content, so the pointer comparisons of the \<open>operator==\<close> of
  \<open>Ranks\<close> and \<open>VariantContext\<close> are not modelled. The \<open>print\<close> and \<open>toString\<close> members are output
  only and are left out.
\<close>

section \<open>Regions and runtime situations, as far as the data model reads them\<close>

text \<open>Of a region the data model uses its identifier, of an rts its call path.\<close>

record region = regionID :: string
record rts_ref = callPath :: string

section \<open>Restrictions\<close>

record restriction =
  regionDefined :: bool
  restr_region :: string
  restr_type :: int
  elements :: "int list"

definition new_Restriction :: restriction where
  "new_Restriction = \<lparr>regionDefined = False, restr_region = '''', restr_type = 1, elements = []\<rparr>"

definition Restriction_setType :: "int \<Rightarrow> restriction \<Rightarrow> restriction" where
  "Restriction_setType i r = r\<lparr>restr_type := i\<rparr>"

definition Restriction_addElement :: "int \<Rightarrow> restriction \<Rightarrow> restriction" where
  "Restriction_addElement e r = r\<lparr>elements := elements r @ [e]\<rparr>"

definition Restriction_setRegionDefined :: "bool \<Rightarrow> restriction \<Rightarrow> restriction" where
  "Restriction_setRegionDefined b r = r\<lparr>regionDefined := b\<rparr>"

definition Restriction_setRegion :: "region option \<Rightarrow> restriction \<Rightarrow> restriction" where
  "Restriction_setRegion reg r =
     r\<lparr>restr_region := (case reg of Some g \<Rightarrow> regionID g | None \<Rightarrow> '''')\<rparr>"

text \<open>\<open>lookup\<close> stands for \<open>Application::getRegionByID\<close>.\<close>

definition Restriction_getRegion ::
  "(string \<Rightarrow> region option) \<Rightarrow> restriction \<Rightarrow> region option comp" where
  "Restriction_getRegion lookup r =
     (if \<not> regionDefined r then fail Abort else ret (lookup (restr_region r)))"

text \<open>\<open>operator==\<close> looks at the region only, not at the type or the elements.\<close>

definition Restriction_eq :: "restriction \<Rightarrow> restriction \<Rightarrow> bool" where
  "Restriction_eq r s \<longleftrightarrow> \<not> (regionDefined r \<noteq> regionDefined s \<or> restr_region r \<noteq> restr_region s)"

section \<open>Tuning parameters\<close>

record tuning_parameter =
  tp_ID :: int
  pluginType :: int
  runtimeActionType :: int
  tp_name :: string
  rangeFrom :: int
  rangeTo :: int
  rangeStep :: int
  default_val :: int
  stringValues :: "string list"
  tp_restriction :: "restriction option"

text \<open>The constructor sets the restriction only; \<open>junk\<close> is whatever the other members hold.\<close>

definition new_TuningParameter :: "tuning_parameter \<Rightarrow> tuning_parameter" where
  "new_TuningParameter junk = junk\<lparr>tp_name := '''', stringValues := [], tp_restriction := None\<rparr>"

definition setRange :: "int \<Rightarrow> int \<Rightarrow> int \<Rightarrow> tuning_parameter \<Rightarrow> tuning_parameter" where
  "setRange start stop incr p = p\<lparr>rangeFrom := start, rangeTo := stop, rangeStep := incr\<rparr>"

definition setRangeTo :: "int \<Rightarrow> int \<Rightarrow> tuning_parameter \<Rightarrow> tuning_parameter" where
  "setRangeTo stop incr p = p\<lparr>rangeTo := stop, rangeStep := incr\<rparr>"

definition addStringValue :: "string \<Rightarrow> tuning_parameter \<Rightarrow> tuning_parameter" where
  "addStringValue v p = p\<lparr>stringValues := stringValues p @ [v]\<rparr>"

definition setRestriction :: "restriction option \<Rightarrow> tuning_parameter \<Rightarrow> tuning_parameter" where
  "setRestriction r p = p\<lparr>tp_restriction := r\<rparr>"

text \<open>
  \<open>operator==\<close> compares the members in order and dereferences the two restrictions last; the
  default value and the string values do not count.
\<close>

definition TuningParameter_eq :: "tuning_parameter \<Rightarrow> tuning_parameter \<Rightarrow> bool comp" where
  "TuningParameter_eq p q =
     (if tp_ID p \<noteq> tp_ID q \<or> pluginType p \<noteq> pluginType q
         \<or> runtimeActionType p \<noteq> runtimeActionType q \<or> tp_name p \<noteq> tp_name q
         \<or> rangeFrom p \<noteq> rangeFrom q \<or> rangeTo p \<noteq> rangeTo q \<or> rangeStep p \<noteq> rangeStep q
      then ret False
      else case (tp_restriction p, tp_restriction q) of
             (Some r, Some s) \<Rightarrow> ret (Restriction_eq r s)
           | _ \<Rightarrow> fail UB)"

text \<open>Tuning parameters are reached through pointers.\<close>

type_synonym tp_ptr = nat
type_synonym tp_store = "tp_ptr \<Rightarrow> tuning_parameter"

section \<open>Variant spaces, search spaces, variants\<close>

record variant_space = tuningParameters :: "tp_ptr list"

definition addTuningParameter :: "tp_ptr \<Rightarrow> variant_space \<Rightarrow> variant_space" where
  "addTuningParameter p vs = vs\<lparr>tuningParameters := tuningParameters vs @ [p]\<rparr>"

definition VariantSpace_clear :: "variant_space \<Rightarrow> variant_space" where
  "VariantSpace_clear vs = vs\<lparr>tuningParameters := []\<rparr>"

record search_space =
  regions :: "region list"
  rtsVector :: "rts_ref list"
  variantSpace :: variant_space
  domainName :: string

definition new_SearchSpace :: "variant_space \<Rightarrow> search_space" where
  "new_SearchSpace vs = \<lparr>regions = [], rtsVector = [], variantSpace = vs, domainName = ''''\<rparr>"

definition addRegion :: "region option \<Rightarrow> search_space \<Rightarrow> search_space comp" where
  "addRegion reg ss =
     (case reg of None \<Rightarrow> fail Abort | Some r \<Rightarrow> ret (ss\<lparr>regions := regions ss @ [r]\<rparr>))"

definition addRts :: "rts_ref option \<Rightarrow> search_space \<Rightarrow> search_space comp" where
  "addRts rts ss =
     (case rts of None \<Rightarrow> fail Abort | Some r \<Rightarrow> ret (ss\<lparr>rtsVector := rtsVector ss @ [r]\<rparr>))"

definition setVariantSpace :: "variant_space \<Rightarrow> search_space \<Rightarrow> search_space" where
  "setVariantSpace vs ss = ss\<lparr>variantSpace := vs\<rparr>"

definition addDomain :: "string \<Rightarrow> search_space \<Rightarrow> search_space" where
  "addDomain name ss = ss\<lparr>domainName := name\<rparr>"

text \<open>A variant is a \<open>map<TuningParameter*, int>\<close>, ordered by address.\<close>

type_synonym variant = "(tp_ptr, int) smap"

definition Variant_eq :: "variant \<Rightarrow> variant \<Rightarrow> bool" where
  "Variant_eq v w \<longleftrightarrow> v = w"

section \<open>Ranks and variant contexts\<close>

record range =
  range_start :: "32 word"
  range_end :: "32 word"

datatype ranks = ALL_RANKS | RANK_LIST "32 word list" | RANGE_LIST "range list"

text \<open>A process number is converted to \<open>unsigned int\<close> before it is compared.\<close>

primrec rank_in_list :: "32 word list \<Rightarrow> int \<Rightarrow> bool" where
  "rank_in_list [] p = False"
| "rank_in_list (r # rs) p = (if r = word_of_int p then True else rank_in_list rs p)"

primrec rank_in_ranges :: "range list \<Rightarrow> int \<Rightarrow> bool" where
  "rank_in_ranges [] p = False"
| "rank_in_ranges (r # rs) p =
     (if range_start r \<le> word_of_int p \<and> word_of_int p \<le> range_end r then True
      else rank_in_ranges rs p)"

definition processInRanks :: "ranks \<Rightarrow> int \<Rightarrow> bool" where
  "processInRanks rk p =
     (case rk of ALL_RANKS \<Rightarrow> True | RANK_LIST rs \<Rightarrow> rank_in_list rs p | RANGE_LIST rs \<Rightarrow> rank_in_ranges rs p)"

datatype variant_context =
    PROGRAM
  | REGION_LIST "string list"
  | RTS_LIST "string list"
  | FILE_LIST "string list"

section \<open>Tuning specifications\<close>

record tuning_specification =
  ts_variant :: variant
  ts_ranks :: ranks
  ts_context :: variant_context
  is_rts :: bool

text \<open>
  The constructors, one per overload. \<open>is_rts\<close> is not set by those for the whole program and for
  processes: the last argument is the value it happens to have.
\<close>

definition TuningSpecification_program :: "variant \<Rightarrow> bool \<Rightarrow> tuning_specification" where
  "TuningSpecification_program v junk = \<lparr>ts_variant = v, ts_ranks = ALL_RANKS, ts_context = PROGRAM, is_rts = junk\<rparr>"

definition TuningSpecification_ranks :: "variant \<Rightarrow> 32 word list \<Rightarrow> bool \<Rightarrow> tuning_specification" where
  "TuningSpecification_ranks v rs junk =
     \<lparr>ts_variant = v, ts_ranks = RANK_LIST rs, ts_context = PROGRAM, is_rts = junk\<rparr>"

definition TuningSpecification_ranges :: "variant \<Rightarrow> range list \<Rightarrow> bool \<Rightarrow> tuning_specification" where
  "TuningSpecification_ranges v rs junk =
     \<lparr>ts_variant = v, ts_ranks = RANGE_LIST rs, ts_context = PROGRAM, is_rts = junk\<rparr>"

fun region_ids :: "region option list \<Rightarrow> string list comp" where
  "region_ids [] = ret []"
| "region_ids (None # rs) = fail Abort"
| "region_ids (Some r # rs) = cbind (region_ids rs) (\<lambda>ids. ret (regionID r # ids))"

definition TuningSpecification_regions ::
  "variant \<Rightarrow> region option list \<Rightarrow> tuning_specification comp" where
  "TuningSpecification_regions v rs =
     cbind (region_ids rs) (\<lambda>ids.
       ret \<lparr>ts_variant = v, ts_ranks = ALL_RANKS, ts_context = REGION_LIST ids, is_rts = False\<rparr>)"

fun rts_paths :: "rts_ref option list \<Rightarrow> string list comp" where
  "rts_paths [] = ret []"
| "rts_paths (None # rs) = fail Abort"
| "rts_paths (Some r # rs) = cbind (rts_paths rs) (\<lambda>ps. ret (callPath r # ps))"

definition TuningSpecification_rtss ::
  "variant \<Rightarrow> rts_ref option list \<Rightarrow> tuning_specification comp" where
  "TuningSpecification_rtss v rs =
     cbind (rts_paths rs) (\<lambda>ps.
       ret \<lparr>ts_variant = v, ts_ranks = ALL_RANKS, ts_context = RTS_LIST ps, is_rts = True\<rparr>)"

text \<open>The overload for a list of entity names asks \<open>withRtsSupport()\<close> what the names are.\<close>

definition TuningSpecification_entities ::
  "bool \<Rightarrow> variant \<Rightarrow> string list \<Rightarrow> bool \<Rightarrow> tuning_specification" where
  "TuningSpecification_entities with_rts v es junk =
     (if with_rts
      then \<lparr>ts_variant = v, ts_ranks = ALL_RANKS, ts_context = RTS_LIST es, is_rts = True\<rparr>
      else \<lparr>ts_variant = v, ts_ranks = ALL_RANKS, ts_context = REGION_LIST es, is_rts = junk\<rparr>)"

definition TuningSpecification_setSingleRank :: "int \<Rightarrow> tuning_specification \<Rightarrow> tuning_specification" where
  "TuningSpecification_setSingleRank r t = t\<lparr>ts_ranks := RANK_LIST [word_of_int r]\<rparr>"

definition TuningSpecification_setALLRanks :: "tuning_specification \<Rightarrow> tuning_specification" where
  "TuningSpecification_setALLRanks t = t\<lparr>ts_ranks := ALL_RANKS\<rparr>"

section \<open>Property requests\<close>

record property_request =
  property_ids :: "int list"
  pr_ranks :: ranks
  entities :: "string list"
  pr_rtsBased :: bool

definition PropertyRequest_ranks :: "int list \<Rightarrow> 32 word list \<Rightarrow> property_request" where
  "PropertyRequest_ranks ids rs =
     \<lparr>property_ids = ids, pr_ranks = RANK_LIST rs, entities = [], pr_rtsBased = False\<rparr>"

definition PropertyRequest_ranges :: "int list \<Rightarrow> range list \<Rightarrow> property_request" where
  "PropertyRequest_ranges ids rs =
     \<lparr>property_ids = ids, pr_ranks = RANGE_LIST rs, entities = [], pr_rtsBased = False\<rparr>"

definition PropertyRequest_all :: "int list \<Rightarrow> property_request" where
  "PropertyRequest_all ids = \<lparr>property_ids = ids, pr_ranks = ALL_RANKS, entities = [], pr_rtsBased = False\<rparr>"

definition addPropertyID :: "int \<Rightarrow> property_request \<Rightarrow> property_request comp" where
  "addPropertyID i p =
     (if i < 0 then fail Abort else ret (p\<lparr>property_ids := property_ids p @ [i]\<rparr>))"

definition PropertyRequest_addRegion :: "region option \<Rightarrow> property_request \<Rightarrow> property_request comp" where
  "PropertyRequest_addRegion reg p =
     (case reg of None \<Rightarrow> fail Abort
      | Some r \<Rightarrow> ret (p\<lparr>pr_rtsBased := False, entities := entities p @ [regionID r]\<rparr>))"

definition PropertyRequest_addRts :: "rts_ref option \<Rightarrow> property_request \<Rightarrow> property_request comp" where
  "PropertyRequest_addRts rts p =
     (case rts of None \<Rightarrow> fail Abort
      | Some r \<Rightarrow> ret (p\<lparr>pr_rtsBased := True, entities := entities p @ [callPath r]\<rparr>))"

definition addSingleProcess :: "int \<Rightarrow> property_request \<Rightarrow> property_request comp" where
  "addSingleProcess q p =
     (if q < 0 then fail Throw0
      else case pr_ranks p of
             RANK_LIST rs \<Rightarrow> ret (p\<lparr>pr_ranks := RANK_LIST (rs @ [word_of_int q])\<rparr>)
           | _ \<Rightarrow> ret (p\<lparr>pr_ranks := RANK_LIST [word_of_int q]\<rparr>))"

definition addProcessRange :: "int \<Rightarrow> int \<Rightarrow> property_request \<Rightarrow> property_request comp" where
  "addProcessRange from to p =
     (let r = \<lparr>range_start = word_of_int from, range_end = word_of_int to\<rparr>
      in if from > to then fail Throw0
         else case pr_ranks p of
                RANGE_LIST rs \<Rightarrow> ret (p\<lparr>pr_ranks := RANGE_LIST (rs @ [r])\<rparr>)
              | _ \<Rightarrow> ret (p\<lparr>pr_ranks := RANGE_LIST [r]\<rparr>))"

definition addAllProcesses :: "property_request \<Rightarrow> property_request" where
  "addAllProcesses p = (if pr_ranks p \<noteq> ALL_RANKS then p\<lparr>pr_ranks := ALL_RANKS\<rparr> else p)"

definition PropertyRequest_setSingleRank :: "int \<Rightarrow> property_request \<Rightarrow> property_request" where
  "PropertyRequest_setSingleRank r p = p\<lparr>pr_ranks := RANK_LIST [word_of_int r]\<rparr>"

text \<open>
  Whether a request makes the agents profile MPI: it asks for an MPI property or names an MPI call
  region. \<open>is_mpi_call\<close> looks a region up by its identifier (\<open>Application::getRegionByID\<close>) and asks
  for its type; an unknown region is a null pointer the code dereferences.
\<close>

definition MPIPROP :: int where "MPIPROP = 7"
definition MPITIME :: int where "MPITIME = 143"
definition OVERLOADEDMASTER :: int where "OVERLOADEDMASTER = 145"

primrec any_mpi_entity :: "(string \<Rightarrow> bool option) \<Rightarrow> string list \<Rightarrow> bool comp" where
  "any_mpi_entity is_mpi_call [] = ret False"
| "any_mpi_entity is_mpi_call (e # es) =
     (case is_mpi_call e of None \<Rightarrow> fail UB
      | Some b \<Rightarrow> if b then ret True else any_mpi_entity is_mpi_call es)"

primrec any_mpi_property :: "(string \<Rightarrow> bool option) \<Rightarrow> string list \<Rightarrow> int list \<Rightarrow> bool comp" where
  "any_mpi_property is_mpi_call es [] = ret False"
| "any_mpi_property is_mpi_call es (i # is) =
     (if i = MPIPROP then ret True
      else if i = MPITIME then ret True
      else if i = OVERLOADEDMASTER then ret True
      else cbind (any_mpi_entity is_mpi_call es)
             (\<lambda>b. if b then ret True else any_mpi_property is_mpi_call es is))"

primrec mpiProfilingRequired :: "(string \<Rightarrow> bool option) \<Rightarrow> property_request list \<Rightarrow> bool comp" where
  "mpiProfilingRequired is_mpi_call [] = ret False"
| "mpiProfilingRequired is_mpi_call (r # rs) =
     cbind (any_mpi_property is_mpi_call (entities r) (property_ids r))
       (\<lambda>b. if b then ret True else mpiProfilingRequired is_mpi_call rs)"

end
