(* ===== verification/Scenario.thy ===== *)
theory Scenario
  imports DataModel
begin

text \<open>
  Scenarios of \<open>autotune/datamodel\<close>: one experiment to run, made of tuning specifications and
  property requests. A scenario's identifier comes from a class-wide \<open>unsigned int\<close> counter, which
  is part of the state the constructors take and return. The lists a scenario holds by pointer are
  options here, \<open>None\<close> for a null pointer. The mutex around the counter is not modelled: every use
  takes and releases it.
\<close>

section \<open>The record and its constructors\<close>

record scenario =
  sc_id :: "32 word"
  description :: string
  tuned_entity :: string
  sc_ts :: "tuning_specification list option"
  sc_pr :: "property_request list option"
  sc_results :: "(string, dbl) smap"
  rtsBased :: bool

type_synonym scenario_counter = "32 word"

definition new_Scenario ::
  "tuning_specification list option \<Rightarrow> scenario_counter \<Rightarrow> scenario \<times> scenario_counter" where
  "new_Scenario ts n =
     (\<lparr>sc_id = n, description = '''', tuned_entity = '''', sc_ts = ts, sc_pr = None,
       sc_results = [], rtsBased = False\<rparr>, n + 1)"

definition new_Scenario_region ::
  "region option \<Rightarrow> tuning_specification list option \<Rightarrow> property_request list option
     \<Rightarrow> scenario_counter \<Rightarrow> scenario \<times> scenario_counter" where
  "new_Scenario_region reg ts pr n =
     (\<lparr>sc_id = n, description = '''',
       tuned_entity = (case reg of Some r \<Rightarrow> regionID r | None \<Rightarrow> ''''),
       sc_ts = ts, sc_pr = pr, sc_results = [], rtsBased = False\<rparr>, n + 1)"

definition new_Scenario_rts ::
  "rts_ref option \<Rightarrow> tuning_specification list option \<Rightarrow> property_request list option
     \<Rightarrow> scenario_counter \<Rightarrow> scenario \<times> scenario_counter" where
  "new_Scenario_rts rts ts pr n =
     (\<lparr>sc_id = n, description = '''',
       tuned_entity = (case rts of Some r \<Rightarrow> callPath r | None \<Rightarrow> ''''),
       sc_ts = ts, sc_pr = pr, sc_results = [], rtsBased = True\<rparr>, n + 1)"

definition resetScenarioIds :: "scenario_counter \<Rightarrow> scenario_counter" where
  "resetScenarioIds n = 0"

section \<open>Accessors\<close>

text \<open>
  \<open>lookup\<close> stands for \<open>Application::getRegionByID\<close> and \<open>Rts::getRtsByCallpath\<close> on the call-tree
  root; \<open>None\<close> is a null pointer.
\<close>

definition Scenario_getRegion :: "(string \<Rightarrow> region option) \<Rightarrow> scenario \<Rightarrow> region option comp" where
  "Scenario_getRegion lookup s =
     (if rtsBased s then fail Abort
      else if tuned_entity s = '''' then ret None else ret (lookup (tuned_entity s)))"

definition Scenario_getRts :: "(string \<Rightarrow> rts_ref option) \<Rightarrow> scenario \<Rightarrow> rts_ref option comp" where
  "Scenario_getRts lookup s =
     (if \<not> rtsBased s then fail Abort
      else if tuned_entity s = '''' then ret None else ret (lookup (tuned_entity s)))"

definition setTunedRegion :: "region option \<Rightarrow> scenario \<Rightarrow> scenario" where
  "setTunedRegion reg s =
     s\<lparr>tuned_entity := (case reg of Some r \<Rightarrow> regionID r | None \<Rightarrow> ''''), rtsBased := False\<rparr>"

definition setTunedRts :: "rts_ref option \<Rightarrow> scenario \<Rightarrow> scenario" where
  "setTunedRts rts s =
     s\<lparr>tuned_entity := (case rts of Some r \<Rightarrow> callPath r | None \<Rightarrow> ''''), rtsBased := True\<rparr>"

definition setPropertyRequests :: "property_request list option \<Rightarrow> scenario \<Rightarrow> scenario" where
  "setPropertyRequests prs s = s\<lparr>sc_pr := prs\<rparr>"

definition setTuningSpecifications :: "tuning_specification list option \<Rightarrow> scenario \<Rightarrow> scenario" where
  "setTuningSpecifications ts s = s\<lparr>sc_ts := ts\<rparr>"

definition setSingleTunedRegionWithPropertyRank ::
  "region option \<Rightarrow> int \<Rightarrow> 32 word \<Rightarrow> scenario \<Rightarrow> scenario" where
  "setSingleTunedRegionWithPropertyRank reg propertyId rank s =
     (let s1 = s\<lparr>rtsBased := False\<rparr>;
          s2 = setPropertyRequests (Some [PropertyRequest_ranks [propertyId] [rank]]) s1
      in setTunedRegion reg s2)"

definition setSingleTunedRtsWithPropertyRank ::
  "rts_ref option \<Rightarrow> int \<Rightarrow> 32 word \<Rightarrow> scenario \<Rightarrow> scenario" where
  "setSingleTunedRtsWithPropertyRank rts propertyId rank s =
     (let s1 = s\<lparr>rtsBased := True\<rparr>;
          s2 = setPropertyRequests (Some [PropertyRequest_ranks [propertyId] [rank]]) s1
      in setTunedRts rts s2)"

definition setSingleTunedRegionWithPropertyALLRanks ::
  "region option \<Rightarrow> int \<Rightarrow> scenario \<Rightarrow> scenario" where
  "setSingleTunedRegionWithPropertyALLRanks reg propertyId s =
     (let s1 = s\<lparr>rtsBased := False\<rparr>;
          s2 = setPropertyRequests (Some [PropertyRequest_all [propertyId]]) s1
      in setTunedRegion reg s2)"

text \<open>The rts variant keeps the requests a scenario already has and adds to them.\<close>

definition setSingleTunedRtsWithPropertyALLRanks ::
  "rts_ref option \<Rightarrow> int \<Rightarrow> scenario \<Rightarrow> scenario" where
  "setSingleTunedRtsWithPropertyALLRanks rts propertyId s =
     (let s1 = s\<lparr>rtsBased := True\<rparr>;
          new = PropertyRequest_all [propertyId];
          s2 = (case sc_pr s1 of
                  None \<Rightarrow> setPropertyRequests (Some [new]) s1
                | Some prs \<Rightarrow> s1\<lparr>sc_pr := Some (prs @ [new])\<rparr>)
      in setTunedRts rts s2)"

definition addResult :: "string \<Rightarrow> dbl \<Rightarrow> scenario \<Rightarrow> scenario" where
  "addResult name v s = s\<lparr>sc_results := sm_put name v (sc_results s)\<rparr>"

definition getResult :: "string \<Rightarrow> scenario \<Rightarrow> dbl option" where
  "getResult name s = sm_find (sc_results s) name"

section \<open>Which ranks a scenario affects\<close>

text \<open>The body of the two loops: a flag that is only ever raised.\<close>

primrec raise_if_listed :: "int \<Rightarrow> 32 word list \<Rightarrow> bool \<Rightarrow> bool" where
  "raise_if_listed rank [] flag = flag"
| "raise_if_listed rank (r # rs) flag =
     raise_if_listed rank rs (if word_of_int rank = r then True else flag)"

primrec raise_if_in_range :: "int \<Rightarrow> range list \<Rightarrow> bool \<Rightarrow> bool" where
  "raise_if_in_range rank [] flag = flag"
| "raise_if_in_range rank (r # rs) flag =
     raise_if_in_range rank rs
       (if word_of_int rank \<le> range_end r \<and> range_start r \<le> word_of_int rank then True else flag)"

definition raise_if_affected :: "int \<Rightarrow> ranks \<Rightarrow> bool \<Rightarrow> bool" where
  "raise_if_affected rank rk flag =
     (case rk of
        ALL_RANKS \<Rightarrow> True
      | RANK_LIST rs \<Rightarrow> raise_if_listed rank rs flag
      | RANGE_LIST rs \<Rightarrow> raise_if_in_range rank rs flag)"

primrec affected_loop :: "('a \<Rightarrow> ranks) \<Rightarrow> int \<Rightarrow> 'a list \<Rightarrow> bool \<Rightarrow> bool" where
  "affected_loop ranks_of rank [] flag = flag"
| "affected_loop ranks_of rank (x # xs) flag =
     (let flag' = raise_if_affected rank (ranks_of x) flag
      in if flag' then flag' else affected_loop ranks_of rank xs flag')"

definition getRankAffectedBySceanrioTS :: "int \<Rightarrow> scenario \<Rightarrow> bool" where
  "getRankAffectedBySceanrioTS rank s =
     (case sc_ts s of Some ts \<Rightarrow> affected_loop ts_ranks rank ts False | None \<Rightarrow> True)"

definition getRankAffectedBySceanrioPR :: "int \<Rightarrow> scenario \<Rightarrow> bool" where
  "getRankAffectedBySceanrioPR rank s =
     (case sc_pr s of Some prs \<Rightarrow> affected_loop pr_ranks rank prs False | None \<Rightarrow> True)"

lemma rank_in_list_iff [simp]: "rank_in_list rs p \<longleftrightarrow> word_of_int p \<in> set rs"
  by (induction rs) auto

lemma rank_in_ranges_iff [simp]:
  "rank_in_ranges rs p \<longleftrightarrow> (\<exists>r \<in> set rs. range_start r \<le> word_of_int p \<and> word_of_int p \<le> range_end r)"
  by (induction rs) auto

lemma raise_if_listed_iff: "raise_if_listed rank rs flag \<longleftrightarrow> flag \<or> word_of_int rank \<in> set rs"
  by (induction rs arbitrary: flag) auto

lemma raise_if_in_range_iff: "raise_if_in_range rank rs flag \<longleftrightarrow> flag \<or> rank_in_ranges rs rank"
  by (induction rs arbitrary: flag) auto

lemma raise_if_affected_iff: "raise_if_affected rank rk flag \<longleftrightarrow> flag \<or> processInRanks rk rank"
  by (cases rk) (auto simp: raise_if_affected_def processInRanks_def raise_if_listed_iff raise_if_in_range_iff)

lemma affected_loop_iff:
  "affected_loop f rank xs flag \<longleftrightarrow> flag \<or> (\<exists>x \<in> set xs. processInRanks (f x) rank)"
  by (induction xs arbitrary: flag) (auto simp: raise_if_affected_iff)

text \<open>
  The two membership loops of a scenario (over its tuning specifications and over its property
  requests) decide exactly whether some specification, respectively request, covers the rank in the
  sense of \<open>processInRanks\<close>, the routine the agents use; a missing list covers every rank.
\<close>

theorem affected_iff_processInRanks:
  "getRankAffectedBySceanrioTS rank s = (case sc_ts s of None \<Rightarrow> True
       | Some ts \<Rightarrow> \<exists>t \<in> set ts. processInRanks (ts_ranks t) rank) \<and>
   getRankAffectedBySceanrioPR rank s = (case sc_pr s of None \<Rightarrow> True
       | Some prs \<Rightarrow> \<exists>p \<in> set prs. processInRanks (pr_ranks p) rank)"
  by (simp add: getRankAffectedBySceanrioTS_def getRankAffectedBySceanrioPR_def affected_loop_iff
      split: option.split)

section \<open>Identifiers\<close>

text \<open>Scenarios created one after another get consecutive identifiers.\<close>

lemma new_Scenario_id [simp]:
  "sc_id (fst (new_Scenario ts n)) = n" "snd (new_Scenario ts n) = n + 1"
  "sc_ts (fst (new_Scenario ts n)) = ts"
  by (simp_all add: new_Scenario_def)

end
