(* ===== verification/MetaProperty.thy ===== *)
theory MetaProperty
  imports CString
begin

text \<open>
  \<open>MetaProperty\<close> of \<open>util\<close>: one measurement an agent reports, with the region or call path it was
  taken for, its severity and the additional name/value pairs (\<open>addInfo\<close>) the objective functions
  and the results pool read. Modelled are the constructor and every accessor that does more than
  return a member, the tokenizer of \<open>stringutil.cc\<close> it uses and the region identifier
  \<open>file*name*line\<close> it takes apart. The XML conversions go through the Boost property tree and are
  left out.
\<close>

section \<open>The record\<close>

record exec_obj =
  process :: int
  thread :: int

record meta_property =
  cluster :: bool
  mp_id :: string
  mp_name :: string
  fileId :: int
  fileName :: string
  startLine :: int
  maxProcs :: int
  maxThreads :: int
  regionType :: int
  regionId :: string
  confidence :: dbl
  severity :: dbl
  purpose :: int
  addInfo :: "(string, string) smap"
  execObjs :: "exec_obj list"
  mp_rtsBased :: bool
  callpath :: string

text \<open>\<open>unknown\<close> is the region type \<open>UNKNOWN\<close>.\<close>

definition new_MetaProperty :: "int \<Rightarrow> meta_property" where
  "new_MetaProperty unknown =
     \<lparr>cluster = False, mp_id = '''', mp_name = '''', fileId = 0, fileName = '''', startLine = 0,
      maxProcs = 1, maxThreads = 1, regionType = unknown, regionId = '''',
      confidence = dbl_of_int 0, severity = dbl_of_int 0, purpose = 0, addInfo = [], execObjs = [],
      mp_rtsBased = False, callpath = ''''\<rparr>"

definition setSeverity :: "dbl \<Rightarrow> meta_property \<Rightarrow> meta_property" where
  "setSeverity d mp = mp\<lparr>severity := d\<rparr>"

text \<open>Additional information is inserted, never overwritten.\<close>

definition addExtraInfo :: "string \<Rightarrow> string \<Rightarrow> meta_property \<Rightarrow> meta_property" where
  "addExtraInfo param value mp = mp\<lparr>addInfo := sm_insert param value (addInfo mp)\<rparr>"

text \<open>
  \<open>setProcess\<close> and \<open>setThread\<close> keep the other half of the first execution object, or \<open>junk\<close> when
  there is none yet, and leave exactly one object.
\<close>

definition setProcess :: "exec_obj \<Rightarrow> int \<Rightarrow> meta_property \<Rightarrow> meta_property" where
  "setProcess junk p mp =
     (let obj = (case execObjs mp of [] \<Rightarrow> junk | o1 # _ \<Rightarrow> o1) in mp\<lparr>execObjs := [obj\<lparr>process := p\<rparr>]\<rparr>)"

definition setThread :: "exec_obj \<Rightarrow> int \<Rightarrow> meta_property \<Rightarrow> meta_property" where
  "setThread junk t mp =
     (let obj = (case execObjs mp of [] \<Rightarrow> junk | o1 # _ \<Rightarrow> o1) in mp\<lparr>execObjs := [obj\<lparr>thread := t\<rparr>]\<rparr>)"

definition getProcess :: "meta_property \<Rightarrow> int comp" where
  "getProcess mp = (case execObjs mp of [] \<Rightarrow> fail OutOfRange | o1 # _ \<Rightarrow> ret (process o1))"

definition getThread :: "meta_property \<Rightarrow> int comp" where
  "getThread mp = (case execObjs mp of [] \<Rightarrow> fail OutOfRange | o1 # _ \<Rightarrow> ret (thread o1))"

definition addExecObj :: "int \<Rightarrow> int \<Rightarrow> meta_property \<Rightarrow> meta_property" where
  "addExecObj p t mp = mp\<lparr>execObjs := execObjs mp @ [\<lparr>process = p, thread = t\<rparr>]\<rparr>"

definition addExecObjs :: "exec_obj list \<Rightarrow> meta_property \<Rightarrow> meta_property" where
  "addExecObjs objs mp = mp\<lparr>execObjs := execObjs mp @ objs\<rparr>"

text \<open>An empty region identifier is replaced by the file number and the line.\<close>

definition setRegionId :: "string \<Rightarrow> meta_property \<Rightarrow> meta_property" where
  "setRegionId rid mp =
     mp\<lparr>regionId := (if length rid = 0 then print_int (fileId mp) @ ''-'' @ print_int (startLine mp) else rid)\<rparr>"

section \<open>The configuration string\<close>

text \<open>One call of \<open>strtok\<close> with a single delimiter: the token and what is left after it.\<close>

definition c_strtok :: "char \<Rightarrow> string \<Rightarrow> (string \<times> string) option" where
  "c_strtok d s =
     (case dropWhile (\<lambda>c. c = d) s of [] \<Rightarrow> None
      | c # cs \<Rightarrow> Some (takeWhile (\<lambda>c. c \<noteq> d) (c # cs), tl (dropWhile (\<lambda>c. c \<noteq> d) (c # cs))))"

definition setConfiguration :: "string \<Rightarrow> meta_property \<Rightarrow> meta_property comp" where
  "setConfiguration config mp =
     (case c_strtok (CHR ''x'') config of
        None \<Rightarrow> fail UB
      | Some (procs, rest) \<Rightarrow>
          cbind (c_atoi procs) (\<lambda>p.
            case c_strtok (CHR ''x'') rest of
              None \<Rightarrow> ret (mp\<lparr>maxProcs := p\<rparr>)
            | Some (threads, _) \<Rightarrow>
                cbind (c_atoi threads) (\<lambda>t. ret (mp\<lparr>maxProcs := p, maxThreads := t\<rparr>))))"

definition getConfiguration :: "meta_property \<Rightarrow> string" where
  "getConfiguration mp = print_int (maxProcs mp) @ ''x'' @ print_int (maxThreads mp)"

section \<open>Region identifiers\<close>

text \<open>
  \<open>get_token\<close> of \<open>stringutil.cc\<close>. A position into the string is the suffix that starts there;
  \<open>None\<close> is \<open>npos\<close>.
\<close>

definition get_token :: "string \<Rightarrow> string \<Rightarrow> string \<times> string option" where
  "get_token delim s =
     (case dropWhile (\<lambda>c. c \<in> set delim) s of
        [] \<Rightarrow> ('''', None)
      | c # cs \<Rightarrow>
          (case dropWhile (\<lambda>c. c \<notin> set delim) (c # cs) of
             [] \<Rightarrow> (c # cs, None)
           | rest \<Rightarrow> (takeWhile (\<lambda>c. c \<notin> set delim) (c # cs), Some rest)))"

lemma get_token_shorter: "get_token delim s = (tok, Some r) \<Longrightarrow> length r < length s"
proof -
  assume a: "get_token delim s = (tok, Some r)"
  then obtain c cs where d: "dropWhile (\<lambda>c. c \<in> set delim) s = c # cs"
    and r: "r = dropWhile (\<lambda>c. c \<notin> set delim) (c # cs)"
    by (auto simp: get_token_def split: list.splits)
  from d have "c \<notin> set delim" by (simp add: dropWhile_eq_Cons_conv)
  with r have "length r \<le> length cs" by (simp add: length_dropWhile_le)
  moreover have "length (c # cs) \<le> length s" using d by (metis length_dropWhile_le)
  ultimately show ?thesis by simp
qed

text \<open>The tokenizing loop of \<open>getRegionName\<close>.\<close>

function region_tokens :: "string \<Rightarrow> string list" where
  "region_tokens s =
     (case get_token ''*'' s of (tok, None) \<Rightarrow> [tok] | (tok, Some r) \<Rightarrow> tok # region_tokens r)"
  by pat_completeness auto
termination
  by (relation "measure length") (auto dest: get_token_shorter [OF sym])

declare region_tokens.simps [simp del]

text \<open>
  A name with stars in it was split too: everything between the first and the last token is glued
  together again with one star each. With fewer than three tokens the code builds a string from a
  null pointer.
\<close>

fun glue :: "string list \<Rightarrow> string" where
  "glue [] = ''''"
| "glue [t] = t"
| "glue (t # ts) = t @ ''*'' @ glue ts"

definition getRegionName :: "meta_property \<Rightarrow> string comp" where
  "getRegionName mp =
     (let tokens = region_tokens (regionId mp)
      in if length tokens < 3 then fail UB else ret (glue (butlast (tl tokens))))"

text \<open>\<open>Region::getRegionID\<close>.\<close>

definition Region_getRegionID :: "string \<Rightarrow> string \<Rightarrow> int \<Rightarrow> string" where
  "Region_getRegionID file name rfl = file @ ''*'' @ name @ ''*'' @ print_int rfl"

section \<open>Printed numbers contain digits and a sign only\<close>

lemma print_nat_digits: "c \<in> set (print_nat n) \<Longrightarrow> \<exists>d. c = digit_char d"
  by (induction n rule: print_nat.induct) (subst (asm) (2) print_nat.simps, auto split: if_splits)

lemma print_int_chars: "c \<in> set (print_int i) \<Longrightarrow> c = CHR ''-'' \<or> (\<exists>d. c = digit_char d)"
  by (auto simp: print_int_def dest: print_nat_digits split: if_splits)

lemma print_int_no_star: "CHR ''*'' \<notin> set (print_int i)"
  by (auto dest!: print_int_chars simp: digit_char_other [unfolded decimal_digits_def])

lemma print_int_no_x: "CHR ''x'' \<notin> set (print_int i)"
  by (auto dest!: print_int_chars simp: digit_char_other [unfolded decimal_digits_def])

lemma print_int_nonempty: "print_int i \<noteq> []"
  using print_nat_first by (auto simp: print_int_def) (metis list.distinct(1))+

lemma dropWhile_none: "t \<noteq> [] \<Longrightarrow> \<forall>c \<in> set t. \<not> P c \<Longrightarrow> dropWhile P (t @ r) = t @ r"
  by (cases t) auto

section \<open>The configuration string can be read back\<close>

lemma c_strtok_token:
  assumes "t \<noteq> []" and "d \<notin> set t"
  shows "c_strtok d (t @ d # r) = Some (t, r)" and "c_strtok d t = Some (t, [])"
proof -
  obtain c cs where t: "t = c # cs" using assms(1) by (cases t) auto
  with assms(2) have c: "c \<noteq> d" and cs: "\<forall>x \<in> set cs. x \<noteq> d" by auto
  from cs have tw: "takeWhile (\<lambda>x. x \<noteq> d) (cs @ d # r) = cs" "takeWhile (\<lambda>x. x \<noteq> d) cs = cs"
    "dropWhile (\<lambda>x. x \<noteq> d) (cs @ d # r) = d # r" "dropWhile (\<lambda>x. x \<noteq> d) cs = []"
    by (induction cs) auto
  show "c_strtok d (t @ d # r) = Some (t, r)" and "c_strtok d t = Some (t, [])"
    using c by (simp_all add: tw t c_strtok_def)
qed

section \<open>Region identifiers and region names\<close>

lemma get_token_star: "get_token ''*'' (CHR ''*'' # r) = get_token ''*'' r"
  by (simp add: get_token_def)

lemma region_tokens_star: "region_tokens (CHR ''*'' # r) = region_tokens r"
  by (simp add: region_tokens.simps [of "CHR ''*'' # r"] region_tokens.simps [of r] get_token_star)

lemma region_tokens_token:
  assumes "t \<noteq> []" and "CHR ''*'' \<notin> set t"
  shows "region_tokens (t @ CHR ''*'' # r) = t # region_tokens r" and "region_tokens t = [t]"
proof -
  obtain c cs where t: "t = c # cs" using assms(1) by (cases t) auto
  with assms(2) have c: "c \<noteq> CHR ''*''" and cs: "\<forall>x \<in> set cs. x \<noteq> CHR ''*''" by auto
  from cs have tw: "takeWhile (\<lambda>x. x \<noteq> CHR ''*'') (cs @ CHR ''*'' # r) = cs"
    "dropWhile (\<lambda>x. x \<noteq> CHR ''*'') (cs @ CHR ''*'' # r) = CHR ''*'' # r"
    "dropWhile (\<lambda>x. x \<noteq> CHR ''*'') cs = []"
    by (induction cs) auto
  show "region_tokens (t @ CHR ''*'' # r) = t # region_tokens r" and "region_tokens t = [t]"
    using c by (simp_all add: tw t region_tokens.simps [of "c # cs @ CHR ''*'' # r"]
        region_tokens.simps [of "c # cs"] get_token_def region_tokens_star)
qed

definition plain_tokens :: "string list \<Rightarrow> bool" where
  "plain_tokens ts \<longleftrightarrow> (\<forall>t \<in> set ts. t \<noteq> [] \<and> CHR ''*'' \<notin> set t)"

lemma region_tokens_glue:
  "ts \<noteq> [] \<Longrightarrow> plain_tokens ts \<Longrightarrow> region_tokens (glue ts @ CHR ''*'' # r) = ts @ region_tokens r"
  by (induction ts rule: glue.induct) (auto simp: plain_tokens_def region_tokens_token)

text \<open>
  C16: The region name the frontend extracts from a property's region identifier is the name the
  agent's region put into it, whenever the stars in the name stand alone inside it (each between two
  non-empty pieces), for every file name without a star and every line.
\<close>

theorem getRegionName_roundtrip:
  assumes "regionId mp = Region_getRegionID file (glue ts) rfl"
    and "file \<noteq> []" and "CHR ''*'' \<notin> set file" and "ts \<noteq> []" and "plain_tokens ts"
  shows "getRegionName mp = ret (glue ts)"
proof -
  have "region_tokens (regionId mp) = file # ts @ [print_int rfl]"
    using assms by (simp add: Region_getRegionID_def region_tokens_token region_tokens_glue
        print_int_nonempty print_int_no_star)
  then show ?thesis using assms(4) by (cases ts) (auto simp: getRegionName_def)
qed

lemma glue_example: "glue [''f(int'', '')''] = ''f(int*)''"
  by simp

theorem getRegionName_roundtrip_witness:
  "getRegionName ((new_MetaProperty 0)\<lparr>regionId := ''a.c*f(int*)*12''\<rparr>) = ret ''f(int*)''"
proof -
  have "print_int 12 = ''12''" by (simp add: print_int_def print_nat.simps digit_char_def decimal_digits_def)
  then have "regionId ((new_MetaProperty 0)\<lparr>regionId := ''a.c*f(int*)*12''\<rparr>)
      = Region_getRegionID ''a.c'' (glue [''f(int'', '')'']) 12"
    by (simp add: Region_getRegionID_def)
  then have "getRegionName ((new_MetaProperty 0)\<lparr>regionId := ''a.c*f(int*)*12''\<rparr>)
      = ret (glue [''f(int'', '')''])"
    by (rule getRegionName_roundtrip) (simp_all add: plain_tokens_def)
  then show ?thesis by simp
qed

text \<open>Two stars in a row lose one: a pointer to pointer in a C++ region name is not recovered.\<close>

lemma getRegionName_double_star:
  "getRegionName ((new_MetaProperty 0)\<lparr>regionId := Region_getRegionID ''a.c'' ''f(char**)'' 7\<rparr>)
     = ret ''f(char*)''"
  by code_simp

text \<open>
  The configuration string (processes x threads) printed for a property and read back into
  any other property sets exactly the two numbers it was printed from.
\<close>

theorem configuration_roundtrip:
  assumes "in_int (maxProcs mp)" and "in_int (maxThreads mp)"
  shows "setConfiguration (getConfiguration mp) other
    = ret (other\<lparr>maxProcs := maxProcs mp, maxThreads := maxThreads mp\<rparr>)"
  using assms by (simp add: setConfiguration_def getConfiguration_def c_strtok_token
      print_int_nonempty print_int_no_x atoi_print_int)

theorem configuration_roundtrip_witness:
  "setConfiguration (getConfiguration ((new_MetaProperty 0)\<lparr>maxProcs := 16, maxThreads := 4\<rparr>)) (new_MetaProperty 0)
    = ret ((new_MetaProperty 0)\<lparr>maxProcs := 16, maxThreads := 4\<rparr>)"
proof -
  let ?mp = "(new_MetaProperty 0)\<lparr>maxProcs := 16, maxThreads := 4\<rparr>"
  have "in_int (maxProcs ?mp)" "in_int (maxThreads ?mp)"
    by (simp_all add: in_int_def INT_MIN_def INT_MAX_def)
  from configuration_roundtrip [OF this, of "new_MetaProperty 0"] show ?thesis by simp
qed

end
