(* ===== verification/Pools.thy ===== *)
theory Pools
  imports Scenario MetaProperty
begin

text \<open>
  The pools of \<open>autotune/datamodel\<close> through which plugin, searches and frontend exchange work: the
  four scenario pools (created, prepared, experiment, finished), the scenario results pool and the
  analysis results pool. A scenario pool is a \<open>map<int, Scenario*>\<close>; a null pointer can get into it,
  because looking a scenario up by identifier goes through \<open>operator[]\<close>. The scenario pools' mutex
  is released on every path and is not modelled; that of the results pool is not released when
  \<open>push\<close> throws, so it is part of the state.
\<close>

section \<open>Scenario pools\<close>

type_synonym scenario_pool = "(int, scenario option) smap"

text \<open>The key of a scenario: its \<open>unsigned\<close> identifier converted to \<open>int\<close>.\<close>

definition sc_key :: "scenario \<Rightarrow> int" where
  "sc_key s = sint (sc_id s)"

definition ScenarioPool_empty :: "scenario_pool \<Rightarrow> bool" where
  "ScenarioPool_empty p \<longleftrightarrow> p = []"

definition ScenarioPool_size :: "scenario_pool \<Rightarrow> int" where
  "ScenarioPool_size p = int (length p)"

definition ScenarioPool_clear :: "scenario_pool \<Rightarrow> scenario_pool" where
  "ScenarioPool_clear p = []"

definition ScenarioPool_push :: "scenario \<Rightarrow> scenario_pool \<Rightarrow> scenario_pool" where
  "ScenarioPool_push s p = sm_insert (sc_key s) (Some s) p"

text \<open>\<open>pop()\<close> reads the begin iterator, which an empty pool does not have.\<close>

definition ScenarioPool_pop :: "scenario_pool \<Rightarrow> (scenario option \<times> scenario_pool) comp" where
  "ScenarioPool_pop p =
     (case p of [] \<Rightarrow> fail UB | (k, s) # _ \<Rightarrow> ret (s, sm_erase k p))"

text \<open>\<open>pop( id )\<close> asks every scenario for its identifier, null pointers included.\<close>

fun pop_id_loop :: "int \<Rightarrow> scenario_pool \<Rightarrow> scenario_pool \<Rightarrow> (scenario option \<times> scenario_pool) comp" where
  "pop_id_loop i [] p = ret (None, p)"
| "pop_id_loop i ((k, None) # rest) p = fail UB"
| "pop_id_loop i ((k, Some s) # rest) p =
     (if sc_id s = word_of_int i then ret (Some s, sm_erase k p) else pop_id_loop i rest p)"

definition ScenarioPool_pop_id :: "int \<Rightarrow> scenario_pool \<Rightarrow> (scenario option \<times> scenario_pool) comp" where
  "ScenarioPool_pop_id i p = pop_id_loop i p p"

definition getScenarioByScenarioID :: "int \<Rightarrow> scenario_pool \<Rightarrow> scenario option \<times> scenario_pool" where
  "getScenarioByScenarioID i p = sm_index None i p"

definition getTuningSpecificationByScenarioID ::
  "int \<Rightarrow> scenario_pool \<Rightarrow> (tuning_specification list option \<times> scenario_pool) comp" where
  "getTuningSpecificationByScenarioID i p =
     (case sm_index None i p of (None, q) \<Rightarrow> fail UB | (Some s, q) \<Rightarrow> ret (sc_ts s, q))"

text \<open>What the code relies on: every entry is a scenario stored under its own identifier.\<close>

definition pool_ok :: "scenario_pool \<Rightarrow> bool" where
  "pool_ok p \<longleftrightarrow> sm_wf p \<and> (\<forall>k v. sm_find p k = Some v \<longrightarrow> (\<exists>s. v = Some s \<and> sc_key s = k))"

lemma pool_ok_Nil [simp]: "pool_ok []"
  by (simp add: pool_ok_def)

lemma pool_ok_push [simp]: "pool_ok p \<Longrightarrow> pool_ok (ScenarioPool_push s p)"
  by (auto simp: pool_ok_def ScenarioPool_push_def split: option.splits if_splits)

lemma pool_ok_erase: "pool_ok p \<Longrightarrow> pool_ok (sm_erase k p)"
  by (auto simp: pool_ok_def split: if_splits)

lemma pool_ok_Cons: "pool_ok ((k, v) # p) \<Longrightarrow> \<exists>s. v = Some s \<and> sc_key s = k"
  by (auto simp: pool_ok_def sm_find_Cons)

lemma pool_ok_tail: "pool_ok ((k, v) # p) \<Longrightarrow> pool_ok p"
  unfolding pool_ok_def sm_wf_Cons
  by (auto simp: sm_find_Cons keys_sm_find split: if_splits) (metis domI less_irrefl)

lemma erase_head: "sm_wf ((k, v) # p) \<Longrightarrow> sm_erase k ((k, v) # p) = p"
  by (induction p) (auto simp: sm_erase_def sm_wf_Cons)

lemma pop_ret:
  assumes "pool_ok p" and "p \<noteq> []"
  obtains s rest where "p = (sc_key s, Some s) # rest" and "ScenarioPool_pop p = ret (Some s, rest)"
    and "pool_ok rest"
proof -
  obtain k v rest where p: "p = (k, v) # rest" using assms(2) by (cases p) auto
  with pool_ok_Cons assms(1) obtain s where s: "v = Some s" "sc_key s = k" by blast
  have "sm_wf p" using assms(1) by (simp add: pool_ok_def)
  then have "ScenarioPool_pop p = ret (Some s, rest)"
    using p s by (simp add: ScenarioPool_pop_def erase_head)
  with p s that pool_ok_tail assms(1) show ?thesis by blast
qed

section \<open>Scenario results\<close>

text \<open>
  A \<open>ScenarioResult\<close> is the list of the properties reported for one scenario; the pool keeps one per
  scenario and a copy of the whole result for every property pushed in a search step.
\<close>

type_synonym scenario_result = "meta_property list"

record scenario_results_pool =
  results_per_scenario_id :: "(int, scenario_result) smap"
  results_per_search_step :: "(int, scenario_result list) smap"
  srp_locked :: bool

definition new_ScenarioResultsPool :: scenario_results_pool where
  "new_ScenarioResultsPool =
     \<lparr>results_per_scenario_id = [], results_per_search_step = [], srp_locked = False\<rparr>"

definition srp_empty :: "scenario_results_pool \<Rightarrow> bool comp" where
  "srp_empty p = (if srp_locked p then fail Deadlock else ret (results_per_scenario_id p = []))"

definition srp_size :: "scenario_results_pool \<Rightarrow> int comp" where
  "srp_size p = (if srp_locked p then fail Deadlock else ret (int (length (results_per_scenario_id p))))"

text \<open>
  \<open>push\<close> answers what happened and the pool as it is afterwards: a property without a scenario
  identifier makes it throw with the mutex held.
\<close>

definition srp_push :: "meta_property \<Rightarrow> int \<Rightarrow> scenario_results_pool \<Rightarrow> unit comp \<times> scenario_results_pool" where
  "srp_push mp search_step p =
     (if srp_locked p then (fail Deadlock, p)
      else let q = p\<lparr>srp_locked := True\<rparr>
        in (case sm_find (addInfo mp) ''ScenarioID'' of
              None \<Rightarrow> (fail Throw0, q)
            | Some text \<Rightarrow>
               (case c_atoi text of
                  Some (Inr i) \<Rightarrow>
                    (let (old, m1) = sm_index [] i (results_per_scenario_id q);
                         result = old @ [mp];
                         m2 = sm_put i result m1;
                         (steps, n1) = sm_index [] search_step (results_per_search_step q);
                         n2 = sm_put search_step (steps @ [result]) n1
                     in (ret (), q\<lparr>results_per_scenario_id := m2, results_per_search_step := n2,
                                   srp_locked := False\<rparr>))
                | _ \<Rightarrow> (fail UB, q))))"

definition getScenarioResultsByID :: "int \<Rightarrow> scenario_results_pool \<Rightarrow> meta_property list comp" where
  "getScenarioResultsByID i p =
     (case sm_find (results_per_scenario_id p) i of Some r \<Rightarrow> ret r | None \<Rightarrow> fail Throw0)"

definition getScenarioResultsPerSearchStep :: "int \<Rightarrow> scenario_results_pool \<Rightarrow> scenario_result list comp" where
  "getScenarioResultsPerSearchStep step p =
     (case sm_find (results_per_search_step p) step of Some r \<Rightarrow> ret r | None \<Rightarrow> fail Throw0)"

definition srp_clear :: "scenario_results_pool \<Rightarrow> scenario_results_pool" where
  "srp_clear p = p\<lparr>results_per_search_step := [], results_per_scenario_id := []\<rparr>"

section \<open>Analysis results\<close>

record analysis_results_pool =
  results_per_tuning_step :: "(int, meta_property list) smap"
  results_per_experiment :: "(int, meta_property list) smap"

definition new_AnalysisResultsPool :: analysis_results_pool where
  "new_AnalysisResultsPool = \<lparr>results_per_tuning_step = [], results_per_experiment = []\<rparr>"

definition arp_empty :: "analysis_results_pool \<Rightarrow> bool" where
  "arp_empty p \<longleftrightarrow> results_per_tuning_step p = []"

definition arp_size :: "analysis_results_pool \<Rightarrow> int" where
  "arp_size p = int (length (results_per_tuning_step p))"

definition pushPreAnalysisProperty :: "meta_property \<Rightarrow> int \<Rightarrow> analysis_results_pool \<Rightarrow> analysis_results_pool" where
  "pushPreAnalysisProperty mp step p =
     (let (old, m) = sm_index [] step (results_per_tuning_step p)
      in p\<lparr>results_per_tuning_step := sm_put step (old @ [mp]) m\<rparr>)"

definition pushExperimentProperty :: "meta_property \<Rightarrow> int \<Rightarrow> analysis_results_pool \<Rightarrow> analysis_results_pool" where
  "pushExperimentProperty mp n p =
     (let (old, m) = sm_index [] n (results_per_experiment p)
      in p\<lparr>results_per_experiment := sm_put n (old @ [mp]) m\<rparr>)"

text \<open>Both getters go through \<open>operator[]\<close> and leave an empty list behind for a new key.\<close>

definition getPreAnalysisProperties :: "int \<Rightarrow> analysis_results_pool \<Rightarrow> meta_property list \<times> analysis_results_pool" where
  "getPreAnalysisProperties step p =
     (let (r, m) = sm_index [] step (results_per_tuning_step p)
      in (r, p\<lparr>results_per_tuning_step := m\<rparr>))"

definition getExperimentProperties :: "int \<Rightarrow> analysis_results_pool \<Rightarrow> meta_property list \<times> analysis_results_pool" where
  "getExperimentProperties n p =
     (let (r, m) = sm_index [] n (results_per_experiment p)
      in (r, p\<lparr>results_per_experiment := m\<rparr>))"

text \<open>
  The properties of one scenario and entity. The bound of the outer loop is the size of the map,
  which the loop itself grows when an experiment number is missing.
\<close>

definition entity_of :: "meta_property \<Rightarrow> string" where
  "entity_of mp = (if mp_rtsBased mp then callpath mp else regionId mp)"

fun select_properties :: "int \<Rightarrow> string \<Rightarrow> meta_property list \<Rightarrow> meta_property list \<Rightarrow> meta_property list comp" where
  "select_properties i entity [] props = ret props"
| "select_properties i entity (mp # mps) props =
     cbind (sm_at (addInfo mp) ''ScenarioID'') (\<lambda>text.
     cbind (c_atoi text) (\<lambda>sid.
       select_properties i entity mps
         (if sid = i \<and> entity = entity_of mp then props @ [mp] else props)))"

definition collect_body ::
  "int \<Rightarrow> string \<Rightarrow> int \<times> analysis_results_pool \<times> meta_property list
     \<Rightarrow> (bool \<times> int \<times> analysis_results_pool \<times> meta_property list) comp" where
  "collect_body i entity = (\<lambda>(n, q, props).
     if n < int (length (results_per_experiment q))
     then (let (mps, q') = getExperimentProperties n q
           in cbind (select_properties i entity mps props) (\<lambda>props'. ret (True, (n + 1, q', props'))))
     else ret (False, (n, q, props)))"

definition getPropertiesForScenarioIDandEntity ::
  "int \<Rightarrow> string \<Rightarrow> analysis_results_pool \<Rightarrow> (meta_property list \<times> analysis_results_pool) comp" where
  "getPropertiesForScenarioIDandEntity i entity p =
     cbind (loop (collect_body i entity) (0, p, [])) (\<lambda>(n, q, props). ret (props, q))"

section \<open>The pool set\<close>

record scenario_pool_set =
  csp :: scenario_pool
  psp :: scenario_pool
  esp :: scenario_pool
  fsp :: scenario_pool
  srp :: scenario_results_pool
  arp :: analysis_results_pool

definition new_ScenarioPoolSet :: scenario_pool_set where
  "new_ScenarioPoolSet =
     \<lparr>csp = [], psp = [], esp = [], fsp = [], srp = new_ScenarioResultsPool, arp = new_AnalysisResultsPool\<rparr>"

section \<open>The queue discipline of the scenario pools\<close>

text \<open>
  A scenario pool hands out the scenario with the smallest identifier, exactly once: popping a
  non-empty well-formed pool returns a scenario of it, no scenario left in the pool has a smaller or
  equal key, everything else stays, and the pool stays well formed.
\<close>

theorem pop_least:
  assumes "pool_ok p" and "p \<noteq> []"
  shows "\<exists>s rest. ScenarioPool_pop p = ret (Some s, rest) \<and> sm_find p (sc_key s) = Some (Some s)
    \<and> sm_find rest = (sm_find p)(sc_key s := None)
    \<and> (\<forall>k. sm_find rest k \<noteq> None \<longrightarrow> sc_key s < k) \<and> pool_ok rest"
proof -
  obtain s rest where p: "p = (sc_key s, Some s) # rest"
    and pop: "ScenarioPool_pop p = ret (Some s, rest)" and ok: "pool_ok rest"
    using pop_ret [OF assms] .
  have wf: "sm_wf p" using assms(1) by (simp add: pool_ok_def)
  have "sm_find rest = (sm_find p)(sc_key s := None)"
    using sm_find_erase [of "sc_key s" p] erase_head wf p by metis
  moreover have "\<forall>k. sm_find rest k \<noteq> None \<longrightarrow> sc_key s < k"
    using wf p by (auto simp: sm_wf_Cons keys_sm_find)
  ultimately show ?thesis using p pop ok by (auto simp: sm_find_Cons)
qed

definition example_pool :: scenario_pool where
  "example_pool = ScenarioPool_push (fst (new_Scenario None 5))
     (ScenarioPool_push (fst (new_Scenario None 3)) [])"

theorem pop_least_witness:
  "\<exists>s rest. ScenarioPool_pop example_pool = ret (Some s, rest) \<and> sc_key s = 3"
proof -
  have ok: "pool_ok example_pool" by (simp add: example_pool_def)
  have e: "example_pool = [(3, Some (fst (new_Scenario None 3))), (5, Some (fst (new_Scenario None 5)))]"
    by (simp add: example_pool_def ScenarioPool_push_def sm_insert_def sm_has_def sc_key_def
        new_Scenario_def sm_find_Cons)
  have "example_pool \<noteq> []" by (simp add: e)
  from pop_least [OF ok this] obtain s rest where pop: "ScenarioPool_pop example_pool = ret (Some s, rest)"
    and rest: "sm_find rest = (sm_find example_pool)(sc_key s := None)"
    and least: "\<forall>k. sm_find rest k \<noteq> None \<longrightarrow> sc_key s < k"
    and mem: "sm_find example_pool (sc_key s) = Some (Some s)" by blast
  from mem have "sc_key s = 3 \<or> sc_key s = 5" by (auto simp: e sm_find_Cons split: if_splits)
  moreover have "sc_key s \<noteq> 5" using spec [OF least, of 3] by (auto simp: rest e sm_find_Cons)
  ultimately show ?thesis using pop by blast
qed

lemma word_of_sc_key [simp]: "word_of_int (sc_key s) = sc_id s"
  by (simp add: sc_key_def)

lemma pop_id_loop_push:
  assumes "pool_ok q" and "sm_find q (sc_key s) = Some (Some s)"
  shows "pop_id_loop (sc_key s) q p = ret (Some s, sm_erase (sc_key s) p)"
  using assms
proof (induction q)
  case (Cons kv q)
  obtain k v where kv: "kv = (k, v)" by (cases kv)
  with Cons.prems(1) pool_ok_Cons obtain t where t: "v = Some t" "sc_key t = k" by blast
  have inj: "sc_id t = word_of_int (sc_key s) \<longleftrightarrow> k = sc_key s"
    unfolding t(2) [symmetric] by (auto simp: sc_key_def signed_word_eqI)
  show ?case
  proof (cases "k = sc_key s")
    case True
    with Cons.prems(2) kv t inj show ?thesis by (auto simp: sm_find_Cons)
  next
    case False
    then have "sm_find q (sc_key s) = Some (Some s)"
      using Cons.prems(2) kv by (simp add: sm_find_Cons)
    moreover have "pool_ok q" using Cons.prems(1) kv pool_ok_tail by blast
    ultimately show ?thesis using False Cons.IH kv t inj by auto
  qed
qed simp

text \<open>
  Pushing a scenario and popping it by its identifier gives back that scenario and the pool as it was, provided its
  identifier was not in use; if it was in use the push changes nothing.
\<close>

theorem push_pop_id:
  assumes "pool_ok p"
  shows "(if sm_find p (sc_key s) = None
    then ScenarioPool_pop_id (sc_key s) (ScenarioPool_push s p) = ret (Some s, p)
    else ScenarioPool_push s p = p)"
proof (cases "sm_find p (sc_key s)")
  case None
  let ?q = "ScenarioPool_push s p"
  have ok: "pool_ok ?q" using assms by simp
  have f: "sm_find ?q (sc_key s) = Some (Some s)" using None by (simp add: ScenarioPool_push_def)
  have "ScenarioPool_pop_id (sc_key s) ?q = ret (Some s, sm_erase (sc_key s) ?q)"
    unfolding ScenarioPool_pop_id_def by (rule pop_id_loop_push [OF ok f])
  moreover have "sm_erase (sc_key s) ?q = p"
  proof (rule sm_wf_eqI)
    show "sm_wf (sm_erase (sc_key s) ?q)" using ok by (simp add: pool_ok_def)
    show "sm_wf p" using assms by (simp add: pool_ok_def)
    show "sm_find (sm_erase (sc_key s) ?q) = sm_find p"
      unfolding ScenarioPool_push_def by (rule sm.era_ins [OF None])
  qed
  ultimately show ?thesis using None by simp
next
  case (Some v)
  then show ?thesis by (simp add: ScenarioPool_push_def sm_insert_def sm_has_def)
qed

theorem push_pop_id_witness:
  "ScenarioPool_pop_id 5 (ScenarioPool_push (fst (new_Scenario None 5)) []) = ret (Some (fst (new_Scenario None 5)), [])"
proof -
  have k: "sc_key (fst (new_Scenario None 5)) = 5" by (simp add: sc_key_def)
  show ?thesis using push_pop_id [OF pool_ok_Nil, of "fst (new_Scenario None 5)"] by (simp add: k)
qed

section \<open>Storing and finding results\<close>

lemma atoi_print: "in_int i \<Longrightarrow> c_atoi (print_int i) = Some (Inr i)"
  by (simp add: atoi_print_int ret_def)

lemma srp_push_ret:
  assumes "\<not> srp_locked p" and "sm_find (addInfo mp) ''ScenarioID'' = Some (print_int i)" and "in_int i"
  shows "\<exists>q. srp_push mp step p = (ret (), q) \<and> \<not> srp_locked q \<and>
    sm_find (results_per_scenario_id q) = (sm_find (results_per_scenario_id p))
      (i \<mapsto> (case sm_find (results_per_scenario_id p) i of None \<Rightarrow> [] | Some r \<Rightarrow> r) @ [mp])"
  using assms
  by (cases "sm_find (results_per_scenario_id p) i")
    (simp_all add: srp_push_def atoi_print Let_def split_beta)

text \<open>
  A property pushed for a scenario is found again: when the pool's mutex is free and the property
  carries the identifier of the scenario as text, the push succeeds and leaves the mutex free, the
  results of that scenario are the old ones followed by the property, and those of every other
  scenario are unchanged.
\<close>

theorem push_result_found:
  assumes "\<not> srp_locked p" and "sm_find (addInfo mp) ''ScenarioID'' = Some (print_int i)" and "in_int i"
  shows "\<exists>q. srp_push mp step p = (ret (), q) \<and> \<not> srp_locked q \<and>
    getScenarioResultsByID i q = ret ((case getScenarioResultsByID i p of Some (Inr old) \<Rightarrow> old | _ \<Rightarrow> []) @ [mp]) \<and>
    (\<forall>j. j \<noteq> i \<longrightarrow> getScenarioResultsByID j q = getScenarioResultsByID j p)"
proof -
  from srp_push_ret [OF assms] obtain q where q: "srp_push mp step p = (ret (), q)" "\<not> srp_locked q"
    "sm_find (results_per_scenario_id q) = (sm_find (results_per_scenario_id p))
      (i \<mapsto> (case sm_find (results_per_scenario_id p) i of None \<Rightarrow> [] | Some r \<Rightarrow> r) @ [mp])" by blast
  then show ?thesis
    by (intro exI [of _ q]) (simp add: getScenarioResultsByID_def ret_def fail_def split: option.split)
qed

definition example_measurement :: "int \<Rightarrow> meta_property" where
  "example_measurement i = addExtraInfo ''ScenarioID'' (print_int i) (new_MetaProperty 0)"

theorem push_result_found_witness:
  "\<exists>q. srp_push (example_measurement 7) 0 new_ScenarioResultsPool = (ret (), q) \<and> \<not> srp_locked q \<and>
     getScenarioResultsByID 7 q = ret [example_measurement 7]"
proof -
  have "sm_find (addInfo (example_measurement 7)) ''ScenarioID'' = Some (print_int 7)"
    by (simp add: example_measurement_def addExtraInfo_def new_MetaProperty_def)
  then show ?thesis
    using push_result_found [of new_ScenarioResultsPool "example_measurement 7" 7 0]
    by (auto simp: new_ScenarioResultsPool_def in_int_def INT_MIN_def INT_MAX_def getScenarioResultsByID_def fail_def)
qed

text \<open>
  A property without a scenario identifier breaks the results pool for good: the push throws with
  the mutex held, and every later push, \<open>empty\<close> or \<open>size\<close> of the same thread blocks forever.
\<close>

theorem failed_push_deadlocks:
  assumes "\<not> srp_locked p" and "sm_find (addInfo mp) ''ScenarioID'' = None"
  shows "\<exists>q. srp_push mp step p = (fail Throw0, q) \<and>
    results_per_scenario_id q = results_per_scenario_id p \<and>
    fst (srp_push mp2 step2 q) = fail Deadlock \<and> srp_empty q = fail Deadlock \<and> srp_size q = fail Deadlock"
  using assms by (simp add: srp_push_def srp_empty_def srp_size_def)

theorem failed_push_deadlocks_witness:
  "\<exists>q. srp_push (new_MetaProperty 0) 0 new_ScenarioResultsPool = (fail Throw0, q) \<and>
     fst (srp_push (example_measurement 7) 0 q) = fail Deadlock"
  using failed_push_deadlocks [of new_ScenarioResultsPool "new_MetaProperty 0" 0 "example_measurement 7" 0]
  by (auto simp: new_ScenarioResultsPool_def new_MetaProperty_def)

section \<open>Collecting the results of a scenario\<close>

definition scenario_of :: "meta_property \<Rightarrow> int" where
  "scenario_of mp = (case sm_find (addInfo mp) ''ScenarioID'' of
     Some t \<Rightarrow> (case c_atoi t of Some (Inr i) \<Rightarrow> i | _ \<Rightarrow> 0) | None \<Rightarrow> 0)"

definition measured :: "meta_property \<Rightarrow> bool" where
  "measured mp \<longleftrightarrow> (case sm_find (addInfo mp) ''ScenarioID'' of
     Some t \<Rightarrow> c_atoi t = ret (scenario_of mp) | None \<Rightarrow> False)"

definition experiment_results :: "analysis_results_pool \<Rightarrow> int \<Rightarrow> meta_property list" where
  "experiment_results p n = (case sm_find (results_per_experiment p) n of None \<Rightarrow> [] | Some r \<Rightarrow> r)"

lemma select_properties_ret:
  "\<forall>mp \<in> set mps. measured mp \<Longrightarrow> select_properties i entity mps props =
     ret (props @ filter (\<lambda>mp. scenario_of mp = i \<and> entity_of mp = entity) mps)"
  by (induction mps arbitrary: props)
    (auto simp: measured_def sm_at_def ret_def cbind_def split: option.splits)

lemma getExperimentProperties_eq:
  "getExperimentProperties n q = (experiment_results q n,
     q\<lparr>results_per_experiment := snd (sm_index [] n (results_per_experiment q))\<rparr>)"
  by (simp add: getExperimentProperties_def experiment_results_def split_beta)

lemma length_sm_wf: "sm_wf m \<Longrightarrow> length m = card (dom (sm_find m))"
  using sm_wf_distinct [of m] distinct_card [of "map fst m"] keys_sm_find [of m] by simp

text \<open>
  The invariant of the loop: entries from 0 up to the counter exist, none but these and the original
  ones do, the results of every experiment are the original ones, and the properties collected are
  those of the experiments passed.
\<close>

definition selected :: "int \<Rightarrow> string \<Rightarrow> analysis_results_pool \<Rightarrow> int \<Rightarrow> meta_property list" where
  "selected i entity p k = filter (\<lambda>mp. scenario_of mp = i \<and> entity_of mp = entity) (experiment_results p k)"

abbreviation experiments :: "analysis_results_pool \<Rightarrow> int set" where
  "experiments p \<equiv> dom (sm_find (results_per_experiment p))"

definition collect_inv ::
  "int \<Rightarrow> string \<Rightarrow> analysis_results_pool \<Rightarrow> int \<times> analysis_results_pool \<times> meta_property list \<Rightarrow> bool" where
  "collect_inv i entity p = (\<lambda>(n, q, props). 0 \<le> n \<and> sm_wf (results_per_experiment q) \<and>
     {0..<n} \<subseteq> experiments q \<and> experiments q \<subseteq> experiments p \<union> {0..<n} \<and> experiments p \<subseteq> experiments q \<and>
     (\<forall>k. experiment_results q k = experiment_results p k) \<and>
     props = concat (map (\<lambda>k. selected i entity p (int k)) [0..<nat n]))"

lemma collect_invD:
  assumes "collect_inv i entity p (n, q, props)"
  shows "sm_wf (results_per_experiment q)" "{0..<n} \<subseteq> experiments q" "experiments q \<subseteq> experiments p \<union> {0..<n}"
    "experiments p \<subseteq> experiments q" "props = concat (map (\<lambda>k. selected i entity p (int k)) [0..<nat n])"
  using assms by (simp_all add: collect_inv_def)

text \<open>One round: it looks at experiment \<open>n\<close>, adding an empty entry when there is none.\<close>

lemma collect_step:
  assumes inv: "collect_inv i entity p (n, q, props)" and more: "n < int (length (results_per_experiment q))"
    and measured: "\<forall>k. \<forall>mp \<in> set (experiment_results p k). measured mp"
  shows "\<exists>q'. collect_body i entity (n, q, props) = ret (True, (n + 1, q', props @ selected i entity p n)) \<and>
    collect_inv i entity p (n + 1, q', props @ selected i entity p n)"
proof -
  let ?q' = "q\<lparr>results_per_experiment := snd (sm_index [] n (results_per_experiment q))\<rparr>"
  have n: "0 \<le> n" and same: "\<And>k. experiment_results q k = experiment_results p k"
    using inv by (auto simp: collect_inv_def)
  have res: "experiment_results ?q' k = experiment_results p k" for k
    using same [of k] same [of n] by (auto simp: experiment_results_def split: option.splits)
  have keys: "experiments ?q' = insert n (experiments q)" by (auto split: option.splits)
  have range: "{0..<n + 1} = insert n {0..<n}" using n by auto
  have "nat (n + 1) = Suc (nat n)" using n by simp
  then have "concat (map (\<lambda>k. selected i entity p (int k)) [0..<nat (n + 1)]) =
      concat (map (\<lambda>k. selected i entity p (int k)) [0..<nat n]) @ selected i entity p n" using n by simp
  then have props: "props @ selected i entity p n = concat (map (\<lambda>k. selected i entity p (int k)) [0..<nat (n + 1)])"
    using collect_invD(5) [OF inv] by simp
  have wf: "sm_wf (results_per_experiment ?q')" using collect_invD(1) [OF inv] by simp
  have dom: "insert n {0..<n} \<subseteq> insert n (experiments q)" "insert n (experiments q) \<subseteq> experiments p \<union> insert n {0..<n}"
    "experiments p \<subseteq> insert n (experiments q)"
    using collect_invD(2,3,4) [OF inv] by blast+
  have "collect_inv i entity p (n + 1, ?q', props @ selected i entity p n)"
    unfolding collect_inv_def prod.case keys range using n by (intro conjI allI wf dom res props) simp
  moreover have "select_properties i entity (experiment_results q n) props = ret (props @ selected i entity p n)"
    unfolding selected_def same using measured by (simp add: select_properties_ret)
  ultimately show ?thesis using more by (simp add: collect_body_def getExperimentProperties_eq)
qed

text \<open>Counting the entries: the loop is done no later than at the bound, and not before the last entry.\<close>

lemma collect_bounds:
  assumes inv: "collect_inv i entity p (n, q, props)" and pos: "\<forall>k \<in> experiments p. 0 \<le> k \<and> k < M"
  shows "n < int (length (results_per_experiment q)) \<Longrightarrow> n < M"
    and "\<not> n < int (length (results_per_experiment q)) \<Longrightarrow> experiments p \<subseteq> {0..<n}"
proof -
  note lo = collect_invD(2) [OF inv] and hi = collect_invD(3) [OF inv] and up = collect_invD(4) [OF inv]
  have n: "0 \<le> n" using inv by (simp add: collect_inv_def)
  note size = length_sm_wf [OF collect_invD(1) [OF inv]]
  have fin: "finite (experiments q)" unfolding keys_sm_find [symmetric] by simp
  show "n < M" if more: "n < int (length (results_per_experiment q))"
  proof (rule ccontr)
    assume "\<not> n < M"
    then have "0 \<le> k \<and> k < n" if "k \<in> experiments p" for k using pos that by (meson less_le_trans not_less)
    then have "experiments p \<subseteq> {0..<n}" by (meson atLeastLessThan_iff subsetI)
    then have "experiments q \<subseteq> {0..<n}" using hi by (meson Un_least order_refl subset_trans)
    then have "card (experiments q) \<le> nat n" using card_mono [of "{0..<n}" "experiments q"] by simp
    then show False using more size n by simp
  qed
  show "experiments p \<subseteq> {0..<n}" if "\<not> n < int (length (results_per_experiment q))"
  proof -
    have "card (experiments q) \<le> card {0..<n}" using that size n by simp
    then have "{0..<n} = experiments q" using card_subset_eq [OF fin lo] card_mono [OF fin lo] by simp
    then show ?thesis using up by simp
  qed
qed

lemma properties_collected:
  assumes "sm_wf (results_per_experiment p)"
    and "\<forall>k \<in> dom (sm_find (results_per_experiment p)). 0 \<le> k \<and> k < M"
    and "\<forall>k. \<forall>mp \<in> set (experiment_results p k). measured mp"
  shows "\<exists>n q. getPropertiesForScenarioIDandEntity i entity p =
      ret (concat (map (\<lambda>k. filter (\<lambda>mp. scenario_of mp = i \<and> entity_of mp = entity) (experiment_results p (int k))) [0..<n]), q) \<and>
    dom (sm_find (results_per_experiment p)) \<subseteq> {0..<int n} \<and> (\<forall>k. experiment_results q k = experiment_results p k) \<and>
    sm_wf (results_per_experiment q) \<and> dom (sm_find (results_per_experiment q)) \<subseteq> dom (sm_find (results_per_experiment p)) \<union> {0..<int n}"
proof -
  let ?I = "collect_inv i entity p"
  have body: "total (collect_body i entity s)
      (\<lambda>(again, t). if again then ?I t \<and> (t, s) \<in> measure (\<lambda>(n, q, props). nat (M - n))
                    else ?I t \<and> experiments p \<subseteq> {0..<fst t})" if "?I s" for s
  proof -
    obtain n q props where s: "s = (n, q, props)" by (cases s)
    show ?thesis
      using collect_step [of i entity p n q props] collect_bounds [of i entity p n q props M] that assms
      by (cases "n < int (length (results_per_experiment q))") (auto simp: s total_def, auto simp: collect_body_def)
  qed
  have "?I (0, p, [])" using assms(1) by (simp add: collect_inv_def)
  then have "total (loop (collect_body i entity) (0, p, [])) (\<lambda>t. ?I t \<and> experiments p \<subseteq> {0..<fst t})"
    by (rule total_loop [where r = "measure (\<lambda>(n, q, props). nat (M - n))"]) (rule body, simp_all)
  then obtain n q props where l: "loop (collect_body i entity) (0, p, []) = ret (n, q, props)"
    and r: "?I (n, q, props)" "experiments p \<subseteq> {0..<n}" by (auto simp: total_def)
  then show ?thesis
    unfolding getPropertiesForScenarioIDandEntity_def
    by (intro exI [of _ "nat n"] exI [of _ q]) (auto simp: collect_inv_def selected_def)
qed

text \<open>
  C18: Collecting the properties of one scenario and entity always ends when experiments are numbered
  from 0 up and every stored property names its scenario: although the loop's bound grows with the
  empty entries the loop itself inserts, the result is exactly the properties of that scenario and
  entity in the order of the experiments, and no experiment's results change.
\<close>

theorem getProperties_collects:
  assumes "sm_wf (results_per_experiment p)"
    and "\<forall>k \<in> dom (sm_find (results_per_experiment p)). 0 \<le> k \<and> k < M"
    and "\<forall>k. \<forall>mp \<in> set (experiment_results p k). measured mp"
  shows "\<exists>n q. getPropertiesForScenarioIDandEntity i entity p =
      ret (concat (map (\<lambda>k. filter (\<lambda>mp. scenario_of mp = i \<and> entity_of mp = entity) (experiment_results p (int k))) [0..<n]), q) \<and>
    dom (sm_find (results_per_experiment p)) \<subseteq> {0..<int n} \<and> (\<forall>k. experiment_results q k = experiment_results p k)"
  using properties_collected [OF assms] by blast

definition example_collection :: analysis_results_pool where
  "example_collection = pushExperimentProperty (example_measurement 7) 2
     (pushExperimentProperty (example_measurement 3) 2
       (pushExperimentProperty (example_measurement 7) 0 new_AnalysisResultsPool))"

theorem getProperties_collects_witness:
  "\<exists>q. getPropertiesForScenarioIDandEntity 7 '''' example_collection =
     ret ([example_measurement 7, example_measurement 7], q)"
proof -
  have r: "results_per_experiment example_collection =
      [(0, [example_measurement 7]), (2, [example_measurement 3, example_measurement 7])]"
    by (simp add: example_collection_def pushExperimentProperty_def new_AnalysisResultsPool_def sm_index_def sm_find_Cons)
  have m: "measured (example_measurement i) \<and> scenario_of (example_measurement i) = i \<and> entity_of (example_measurement i) = ''''"
    if "in_int i" for i
    using that by (simp add: measured_def scenario_of_def example_measurement_def addExtraInfo_def new_MetaProperty_def
        atoi_print_int entity_of_def sm_insert_def sm_has_def sm_find_Cons)
      (simp add: ret_def)
  have m3: "measured (example_measurement 3)" "scenario_of (example_measurement 3) = 3" "entity_of (example_measurement 3) = ''''"
    and m7: "measured (example_measurement 7)" "scenario_of (example_measurement 7) = 7" "entity_of (example_measurement 7) = ''''"
    using m [of 3] m [of 7] by (simp_all add: in_int_def INT_MIN_def INT_MAX_def)
  have wf: "sm_wf (results_per_experiment example_collection)" by (simp add: r sm_wf_Cons)
  have d: "\<forall>k \<in> dom (sm_find (results_per_experiment example_collection)). 0 \<le> k \<and> k < 3"
    by (auto simp: r sm_find_Cons dom_def split: if_splits)
  have ms: "\<forall>k. \<forall>mp \<in> set (experiment_results example_collection k). measured mp"
    by (auto simp: experiment_results_def r sm_find_Cons m3 m7 split: if_splits)
  have dom: "dom (sm_find (results_per_experiment example_collection)) = {0, 2}"
    by (auto simp: r sm_find_Cons dom_def)
  from getProperties_collects [OF wf d ms, of 7 "''''"] obtain n q where
    g: "getPropertiesForScenarioIDandEntity 7 '''' example_collection = ret (concat (map (\<lambda>k. filter
      (\<lambda>mp. scenario_of mp = 7 \<and> entity_of mp = '''') (experiment_results example_collection (int k))) [0..<n]), q)"
    and n: "{0, 2} \<subseteq> {0..<int n}" unfolding dom by blast
  from n obtain k where k: "n = 3 + k" using le_Suc_ex [of 3 n] by auto
  have rest: "concat (map (\<lambda>k. filter (\<lambda>mp. scenario_of mp = 7 \<and> entity_of mp = '''')
      (experiment_results example_collection (int k))) [3..<3 + k]) = []"
    by (auto simp: experiment_results_def r sm_find_Cons)
  have "[0..<n] = [0, 1, 2] @ [3..<3 + k]" unfolding k using upt_add_eq_append [of 0 3 k] by (simp add: upt_rec)
  with g rest show ?thesis by (simp add: experiment_results_def r sm_find_Cons m3 m7)
qed

end
