(* ===== verification/Objectives.thy ===== *)
theory Objectives
  imports Pools
begin

text \<open>
  The objective functions of \<open>autotune/services/src/search_common.cc\<close>, one definition per class, on
  binary64 numbers. Each class is a loop over the properties reported for a scenario. A property's
  kind is its identifier read with \<open>std::stoi\<close>; measured values are text in its additional
  information, read with \<open>std::stod\<close>.

  The code looks such a value up in a copy of the additional information and compares the iterator
  with the end iterator of another copy that no longer exists, so the branch for a missing value is
  never taken reliably: a missing value makes the code read through an end iterator, which is \<open>UB\<close>
  here.
\<close>

section \<open>Reading a property\<close>

definition ENERGY_CONSUMPTION :: int where "ENERGY_CONSUMPTION = 131"
definition INTERPHASE_PROPS :: int where "INTERPHASE_PROPS = 137"
definition EXECTIMEIMPORTANCE :: int where "EXECTIMEIMPORTANCE = 146"

definition NANOSEC_PER_SEC_DOUBLE :: dbl where "NANOSEC_PER_SEC_DOUBLE = dbl_of_int 1000000000"

definition info_value :: "string \<Rightarrow> meta_property \<Rightarrow> dbl comp" where
  "info_value key mp =
     (case sm_find (addInfo mp) key of None \<Rightarrow> fail UB | Some text \<Rightarrow> std_stod text)"

text \<open>The kinds of property that carry energy and time.\<close>

definition is_measurement :: "int \<Rightarrow> bool" where
  "is_measurement i \<longleftrightarrow> i = ENERGY_CONSUMPTION \<or> i = INTERPHASE_PROPS \<or> i = EXECTIMEIMPORTANCE"

text \<open>The fragments the classes repeat: the energy of a property and its execution time in seconds.\<close>

definition add_energy :: "int \<Rightarrow> meta_property \<Rightarrow> dbl \<Rightarrow> dbl comp" where
  "add_energy i mp energy =
     (if i = EXECTIMEIMPORTANCE
      then cbind (info_value ''NodeEnergy'' mp) (\<lambda>v. ret (dadd energy v))
      else ret (dadd energy (severity mp)))"

definition add_energy_per_instr :: "int \<Rightarrow> meta_property \<Rightarrow> dbl \<Rightarrow> dbl \<Rightarrow> dbl comp" where
  "add_energy_per_instr i mp totInstr energy =
     (if i = EXECTIMEIMPORTANCE
      then cbind (info_value ''NodeEnergy'' mp) (\<lambda>v. ret (dadd energy (ddiv v totInstr)))
      else ret (dadd energy (ddiv (severity mp) totInstr)))"

definition time_value :: "int \<Rightarrow> meta_property \<Rightarrow> dbl comp" where
  "time_value i mp =
     (if i = EXECTIMEIMPORTANCE
      then cbind (info_value ''cycles'' mp) (\<lambda>v. ret (ddiv v NANOSEC_PER_SEC_DOUBLE))
      else info_value ''ExecTime'' mp)"

definition time_per_instr :: "int \<Rightarrow> meta_property \<Rightarrow> dbl \<Rightarrow> dbl comp" where
  "time_per_instr i mp totInstr =
     (if i = EXECTIMEIMPORTANCE
      then cbind (info_value ''cycles'' mp) (\<lambda>v. ret (ddiv (ddiv v totInstr) NANOSEC_PER_SEC_DOUBLE))
      else cbind (info_value ''ExecTime'' mp) (\<lambda>v. ret (ddiv v totInstr)))"

definition dmax :: "dbl \<Rightarrow> dbl \<Rightarrow> dbl" where
  "dmax time time1 = (if dlt time time1 then time1 else time)"

section \<open>The classes\<close>

definition EnergyObjective :: "meta_property list \<Rightarrow> dbl comp" where
  "EnergyObjective props = cfold (\<lambda>mp energy.
     cbind (std_stoi (mp_id mp)) (\<lambda>i.
       let energy1 = (if i = ENERGY_CONSUMPTION \<or> i = INTERPHASE_PROPS
                      then dadd energy (severity mp) else energy)
       in if i = EXECTIMEIMPORTANCE
          then cbind (info_value ''NodeEnergy'' mp) (\<lambda>v. ret (dadd energy1 v))
          else ret energy1)) props (dbl_of_int 0)"

definition NormalizedEnergyObjective :: "meta_property list \<Rightarrow> dbl comp" where
  "NormalizedEnergyObjective props = cbind (cfold (\<lambda>mp (energy, totInstr).
     cbind (std_stoi (mp_id mp)) (\<lambda>i.
       if is_measurement i
       then cbind (info_value ''TotalInstr'' mp) (\<lambda>instr.
            cbind (add_energy_per_instr i mp instr energy) (\<lambda>energy'. ret (energy', instr)))
       else ret (energy, totInstr))) props (dbl_of_int 0, dbl_of_int 0))
     (\<lambda>(energy, _). ret energy)"

text \<open>The CPU energy goes through a 64 bit integer before it is added.\<close>

definition CPUEnergyObjective :: "meta_property list \<Rightarrow> dbl comp" where
  "CPUEnergyObjective props = cfold (\<lambda>mp energy.
     cbind (std_stoi (mp_id mp)) (\<lambda>i.
       if is_measurement i
       then cbind (info_value ''CPUEnergy'' mp) (\<lambda>v.
            cbind (dbl_to_int64 v) (\<lambda>k. ret (dadd energy (dbl_of_int k))))
       else ret energy)) props (dbl_of_int 0)"

definition NormalizedCPUEnergyObjective :: "meta_property list \<Rightarrow> dbl comp" where
  "NormalizedCPUEnergyObjective props = cbind (cfold (\<lambda>mp (energy, totInstr).
     cbind (std_stoi (mp_id mp)) (\<lambda>i.
       if is_measurement i
       then cbind (info_value ''TotalInstr'' mp) (\<lambda>instr.
            cbind (info_value ''CPUEnergy'' mp) (\<lambda>v. ret (dadd energy (ddiv v instr), instr)))
       else ret (energy, totInstr))) props (dbl_of_int 0, dbl_of_int 0))
     (\<lambda>(energy, _). ret energy)"

text \<open>The loop EDP, ED2P and TCO share: summed energy and longest time.\<close>

definition energy_time :: "dbl \<Rightarrow> meta_property list \<Rightarrow> (dbl \<times> dbl) comp" where
  "energy_time time0 props = cfold (\<lambda>mp (energy, time).
     cbind (std_stoi (mp_id mp)) (\<lambda>i.
       if is_measurement i
       then cbind (add_energy i mp energy) (\<lambda>energy'.
            cbind (time_value i mp) (\<lambda>time1. ret (energy', dmax time time1)))
       else ret (energy, time))) props (dbl_of_int 0, time0)"

definition energy_time_per_instr :: "dbl \<Rightarrow> meta_property list \<Rightarrow> (dbl \<times> dbl) comp" where
  "energy_time_per_instr time0 props = cbind (cfold (\<lambda>mp (energy, time, totInstr).
     cbind (std_stoi (mp_id mp)) (\<lambda>i.
       if is_measurement i
       then cbind (info_value ''TotalInstr'' mp) (\<lambda>instr.
            cbind (time_per_instr i mp instr) (\<lambda>time1.
            cbind (add_energy_per_instr i mp instr energy) (\<lambda>energy'.
              ret (energy', dmax time time1, instr))))
       else ret (energy, time, totInstr))) props (dbl_of_int 0, time0, dbl_of_int 0))
     (\<lambda>(energy, time, _). ret (energy, time))"

definition EDPObjective :: "meta_property list \<Rightarrow> dbl comp" where
  "EDPObjective props =
     cbind (energy_time (dbl_of_int (- 1)) props) (\<lambda>(energy, time). ret (dmul energy time))"

definition NormalizedEDPObjective :: "meta_property list \<Rightarrow> dbl comp" where
  "NormalizedEDPObjective props =
     cbind (energy_time_per_instr (dbl_of_int (- 1)) props) (\<lambda>(energy, time). ret (dmul energy time))"

definition ED2PObjective :: "meta_property list \<Rightarrow> dbl comp" where
  "ED2PObjective props =
     cbind (energy_time (dbl_of_int (- 1)) props) (\<lambda>(energy, time). ret (dmul (dmul energy time) time))"

definition NormalizedED2PObjective :: "meta_property list \<Rightarrow> dbl comp" where
  "NormalizedED2PObjective props =
     cbind (energy_time_per_instr (dbl_of_int (- 1)) props)
       (\<lambda>(energy, time). ret (dmul (dmul energy time) time))"

text \<open>
  The plain time compares the longest time so far, in seconds, with the text of the property, which
  for \<open>EXECTIMEIMPORTANCE\<close> is a number of nanoseconds.
\<close>

definition TimeObjective :: "meta_property list \<Rightarrow> dbl comp" where
  "TimeObjective props = cfold (\<lambda>mp time.
     cbind (std_stoi (mp_id mp)) (\<lambda>i.
       if is_measurement i
       then cbind (info_value (if i = EXECTIMEIMPORTANCE then ''cycles'' else ''ExecTime'') mp) (\<lambda>v.
              if dlt time v
              then ret (if i = EXECTIMEIMPORTANCE then ddiv v NANOSEC_PER_SEC_DOUBLE else v)
              else ret time)
       else ret time)) props (dbl_of_int 0)"

text \<open>With no instructions counted the property is skipped (\<open>totInstr != 0.0\<close>).\<close>

definition dis_zero :: "dbl \<Rightarrow> bool" where
  "dis_zero d = (case d of Fin _ m _ \<Rightarrow> m = 0 | _ \<Rightarrow> False)"

definition NormalizedTimeObjective :: "meta_property list \<Rightarrow> dbl comp" where
  "NormalizedTimeObjective props = cbind (cfold (\<lambda>mp (time, totInstr).
     cbind (std_stoi (mp_id mp)) (\<lambda>i.
       if is_measurement i
       then cbind (info_value ''TotalInstr'' mp) (\<lambda>instr.
              if \<not> dis_zero instr
              then cbind (time_per_instr i mp instr) (\<lambda>time1. ret (dmax time time1, instr))
              else ret (time, instr))
       else ret (time, totInstr))) props (dbl_of_int 0, dbl_of_int 0))
     (\<lambda>(time, _). ret time)"

text \<open>The cost model: core hours of all processes and threads, and energy, at configured prices.\<close>

record cost_model =
  ompnumthreads :: int
  mpinumprocs :: int
  costJoule :: dbl
  costCoreHour :: dbl

definition total_cost :: "cost_model \<Rightarrow> dbl \<Rightarrow> dbl \<Rightarrow> dbl" where
  "total_cost c energy time =
     dadd (ddiv (dmul (dmul (dmul time (dbl_of_int (ompnumthreads c))) (dbl_of_int (mpinumprocs c)))
                      (costCoreHour c)) (dbl_of_int 3600))
          (dmul energy (costJoule c))"

definition TCOObjective :: "cost_model \<Rightarrow> meta_property list \<Rightarrow> dbl comp" where
  "TCOObjective c props =
     cbind (energy_time (dbl_of_int 0) props) (\<lambda>(energy, time). ret (total_cost c energy time))"

definition NormalizedTCOObjective :: "cost_model \<Rightarrow> meta_property list \<Rightarrow> dbl comp" where
  "NormalizedTCOObjective c props =
     cbind (energy_time_per_instr (dbl_of_int 0) props) (\<lambda>(energy, time). ret (total_cost c energy time))"

text \<open>
  The extremes of the severities. Both read \<open>front()\<close> of the list first, which an empty list does not
  have; the handler for \<open>std::out_of_range\<close> around it never runs.
\<close>

definition PTF_minObjective :: "meta_property list \<Rightarrow> dbl comp" where
  "PTF_minObjective props =
     (case props of [] \<Rightarrow> fail UB
      | mp # _ \<Rightarrow> ret (fold (\<lambda>mp minimum. if dlt (severity mp) minimum then severity mp else minimum)
                         props (severity mp)))"

definition PTF_maxObjective :: "meta_property list \<Rightarrow> dbl comp" where
  "PTF_maxObjective props =
     (case props of [] \<Rightarrow> fail UB
      | mp # _ \<Rightarrow> ret (fold (\<lambda>mp maximum. if dlt maximum (severity mp) then severity mp else maximum)
                         props (severity mp)))"

text \<open>The base times are the severities reported for scenario 0, one per process.\<close>

definition Inverse_speedupObjective :: "meta_property list \<Rightarrow> meta_property list \<Rightarrow> dbl comp" where
  "Inverse_speedupObjective base_properties props =
     (case props of [] \<Rightarrow> fail UB
      | mp # _ \<Rightarrow>
         cbind (sm_at (addInfo mp) ''ScenarioID'') (\<lambda>text.
         cbind (std_stoi text) (\<lambda>scenario_id.
           if scenario_id = 0 then ret (dbl_of_int 1)
           else let base_ExecTime = map severity base_properties;
                    ExecTime = fold (\<lambda>q _. severity q) props (dbl_of_int 1)
                in cbind (getProcess mp) (\<lambda>p.
                     if 0 \<le> p \<and> p < int (length base_ExecTime)
                     then ret (ddiv ExecTime (base_ExecTime ! nat p)) else fail UB))))"

section \<open>Dispatch\<close>

text \<open>The virtual call \<open>objective( scenario_id, srp )\<close> of a search.\<close>

datatype objective_function =
    Energy
  | NormalizedEnergy
  | CPUEnergy
  | NormalizedCPUEnergy
  | EDP
  | NormalizedEDP
  | ED2P
  | NormalizedED2P
  | Time
  | NormalizedTime
  | TCO cost_model
  | NormalizedTCO cost_model
  | PTF_min
  | PTF_max
  | Inverse_speedup

fun objective_props :: "objective_function \<Rightarrow> meta_property list \<Rightarrow> meta_property list \<Rightarrow> dbl comp" where
  "objective_props Energy base = EnergyObjective"
| "objective_props NormalizedEnergy base = NormalizedEnergyObjective"
| "objective_props CPUEnergy base = CPUEnergyObjective"
| "objective_props NormalizedCPUEnergy base = NormalizedCPUEnergyObjective"
| "objective_props EDP base = EDPObjective"
| "objective_props NormalizedEDP base = NormalizedEDPObjective"
| "objective_props ED2P base = ED2PObjective"
| "objective_props NormalizedED2P base = NormalizedED2PObjective"
| "objective_props Time base = TimeObjective"
| "objective_props NormalizedTime base = NormalizedTimeObjective"
| "objective_props (TCO c) base = TCOObjective c"
| "objective_props (NormalizedTCO c) base = NormalizedTCOObjective c"
| "objective_props PTF_min base = PTF_minObjective"
| "objective_props PTF_max base = PTF_maxObjective"
| "objective_props Inverse_speedup base = Inverse_speedupObjective base"

definition objective :: "objective_function \<Rightarrow> int \<Rightarrow> scenario_results_pool \<Rightarrow> dbl comp" where
  "objective f scenario_id pool =
     cbind (getScenarioResultsByID scenario_id pool) (\<lambda>props.
       if f = Inverse_speedup
       then cbind (getScenarioResultsByID 0 pool) (\<lambda>base. objective_props f base props)
       else objective_props f [] props)"

text \<open>\<open>getName\<close> of each class.\<close>

fun objective_name :: "objective_function \<Rightarrow> string" where
  "objective_name Energy = ''Energy''"
| "objective_name NormalizedEnergy = ''NormalizedEnergy''"
| "objective_name CPUEnergy = ''CPUEnergy''"
| "objective_name NormalizedCPUEnergy = ''NormalizedCPUEnergy''"
| "objective_name EDP = ''EDP''"
| "objective_name NormalizedEDP = ''NormalizedEDP''"
| "objective_name ED2P = ''ED2P''"
| "objective_name NormalizedED2P = ''NormalizedED2P''"
| "objective_name Time = ''Time''"
| "objective_name NormalizedTime = ''NormalizedTime''"
| "objective_name (TCO c) = ''TCO''"
| "objective_name (NormalizedTCO c) = ''NormalizedTCO''"
| "objective_name PTF_min = ''ptf_min''"
| "objective_name PTF_max = ''ptf_max''"
| "objective_name Inverse_speedup = ''inverse_speedup''"

section \<open>Keeping the best value seen so far\<close>

text \<open>
  The loops of the extremes and of the longest time keep a value and replace it by a better one. For
  a strict order that is linear away from not-a-number the value kept is a best one.
\<close>

locale better_order =
  fixes better :: "dbl \<Rightarrow> dbl \<Rightarrow> bool"
  assumes irrefl: "\<not> better a a"
    and not_better_trans: "\<not> better b a \<Longrightarrow> \<not> better c b \<Longrightarrow> \<not> is_nan b \<Longrightarrow> \<not> better c a"
    and asym: "better a b \<Longrightarrow> \<not> better b a"
begin

lemma fold_best:
  assumes "\<not> is_nan b" and "\<forall>x \<in> set xs. \<not> is_nan x"
  shows "fold (\<lambda>x kept. if better x kept then x else kept) xs b \<in> insert b (set xs) \<and>
    (\<forall>y \<in> insert b (set xs). \<not> better y (fold (\<lambda>x kept. if better x kept then x else kept) xs b))"
  using assms
proof (induction xs arbitrary: b)
  case Nil
  then show ?case by (simp add: irrefl)
next
  case (Cons x xs)
  let ?b = "if better x b then x else b"
  let ?r = "fold (\<lambda>x kept. if better x kept then x else kept) xs ?b"
  have IH: "?r \<in> insert ?b (set xs)" "\<forall>y \<in> insert ?b (set xs). \<not> better y ?r"
    using Cons.IH [of ?b] Cons.prems by auto
  have "\<not> better x ?b" "\<not> better b ?b" using irrefl asym by auto
  moreover have "\<not> is_nan ?b" "\<not> better ?b ?r" using Cons.prems IH(2) by auto
  ultimately have "\<not> better x ?r" "\<not> better b ?r" using not_better_trans by blast+
  with IH show ?case by auto
qed

end

interpretation smaller: better_order dlt
  by unfold_locales (auto simp: dlt_iff)

interpretation larger: better_order "\<lambda>a b. dlt b a"
  by unfold_locales (auto simp: dlt_iff)

lemma fold_map_severity: "fold (\<lambda>mp. g (severity mp)) props = fold g (map severity props)"
  by (simp add: fold_map comp_def)

text \<open>
  The extreme objectives are the extremes: for a non-empty list of properties without a
  not-a-number severity both return, with severities of the list that no severity is below and above
  respectively.
\<close>

theorem extremes_of_severities:
  assumes "props \<noteq> []" and "\<forall>mp \<in> set props. \<not> is_nan (severity mp)"
  shows "\<exists>lo hi. PTF_minObjective props = ret lo \<and> PTF_maxObjective props = ret hi \<and>
    lo \<in> severity ` set props \<and> hi \<in> severity ` set props \<and>
    (\<forall>mp \<in> set props. \<not> dlt (severity mp) lo \<and> \<not> dlt hi (severity mp))"
proof -
  obtain p ps where props: "props = p # ps" using assms(1) by (cases props) auto
  have nan: "\<not> is_nan (severity p)" "\<forall>x \<in> set (map severity props). \<not> is_nan x" using assms(2) props by auto
  have ins: "insert (severity p) (set (map severity props)) = severity ` set props" using props by auto
  have "PTF_minObjective props = ret (fold (\<lambda>x kept. if dlt x kept then x else kept) (map severity props) (severity p))"
    by (simp add: PTF_minObjective_def props fold_map comp_def)
  moreover have "PTF_maxObjective props = ret (fold (\<lambda>x kept. if dlt kept x then x else kept) (map severity props) (severity p))"
    by (simp add: PTF_maxObjective_def props fold_map comp_def)
  ultimately show ?thesis
    using smaller.fold_best [OF nan] larger.fold_best [OF nan] unfolding ins by blast
qed

definition example_severities :: "meta_property list" where
  "example_severities = map (\<lambda>k. setSeverity (dbl_of_int k) (new_MetaProperty 0)) [4, 9, 2, 7]"

theorem extremes_of_severities_witness:
  "\<exists>lo hi. PTF_minObjective example_severities = ret lo \<and> PTF_maxObjective example_severities = ret hi \<and>
     lo \<in> severity ` set example_severities \<and> dlt lo hi"
proof -
  have "example_severities \<noteq> []" by (simp add: example_severities_def)
  moreover have "\<forall>mp \<in> set example_severities. \<not> is_nan (severity mp)" by code_simp
  ultimately obtain lo hi where r: "PTF_minObjective example_severities = ret lo" "PTF_maxObjective example_severities = ret hi"
    "lo \<in> severity ` set example_severities"
    using extremes_of_severities [of example_severities] by blast
  have "PTF_minObjective example_severities = ret (dbl_of_int 2)" "PTF_maxObjective example_severities = ret (dbl_of_int 9)"
    by code_simp+
  moreover have "dlt (dbl_of_int 2) (dbl_of_int 9)" by code_simp
  ultimately show ?thesis using r by auto
qed

section \<open>Summed energy and longest time\<close>

text \<open>
  What one property contributes: nothing when it is of another kind, otherwise its energy and its
  time in seconds. Against this the loop of EDP, ED2P and TCO is a sum and a maximum.
\<close>

definition energy_value :: "int \<Rightarrow> meta_property \<Rightarrow> dbl comp" where
  "energy_value i mp = (if i = EXECTIMEIMPORTANCE then info_value ''NodeEnergy'' mp else ret (severity mp))"

definition measurement :: "meta_property \<Rightarrow> (dbl \<times> dbl) option comp" where
  "measurement mp = cbind (std_stoi (mp_id mp)) (\<lambda>i.
     if is_measurement i
     then cbind (energy_value i mp) (\<lambda>e. cbind (time_value i mp) (\<lambda>t. ret (Some (e, t))))
     else ret None)"

lemma add_energy_value: "add_energy i mp x = cbind (energy_value i mp) (\<lambda>e. ret (dadd x e))"
  by (simp add: add_energy_def energy_value_def)

lemma energy_time_step:
  assumes "measurement mp = ret m"
  shows "cbind (std_stoi (mp_id mp)) (\<lambda>i.
       if is_measurement i
       then cbind (add_energy i mp energy) (\<lambda>energy'. cbind (time_value i mp) (\<lambda>time1. ret (energy', dmax time time1)))
       else ret (energy, time)) =
     ret (case m of None \<Rightarrow> (energy, time) | Some (e, t) \<Rightarrow> (dadd energy e, dmax time t))"
proof -
  from assms obtain i where i: "std_stoi (mp_id mp) = ret i"
    and m: "(if is_measurement i
      then cbind (energy_value i mp) (\<lambda>e. cbind (time_value i mp) (\<lambda>t. ret (Some (e, t)))) else ret None) = ret m"
    by (auto simp: measurement_def cbind_eq_ret)
  then show ?thesis by (cases "is_measurement i") (auto simp: add_energy_value cbind_eq_ret)
qed

lemma energy_time_fold:
  assumes "map measurement props = map ret ms"
  shows "energy_time time0 props = ret
    (foldl dadd (dbl_of_int 0) (map fst (List.map_filter id ms)), fold (\<lambda>t T. dmax T t) (map snd (List.map_filter id ms)) time0)"
proof -
  let ?f = "\<lambda>mp (energy, time).
     cbind (std_stoi (mp_id mp)) (\<lambda>i.
       if is_measurement i
       then cbind (add_energy i mp energy) (\<lambda>energy'.
            cbind (time_value i mp) (\<lambda>time1. ret (energy', dmax time time1)))
       else ret (energy, time))"
  have "cfold ?f props (energy, time) = ret
    (foldl dadd energy (map fst (List.map_filter id ms)), fold (\<lambda>t T. dmax T t) (map snd (List.map_filter id ms)) time)" for energy time
    using assms
  proof (induction props arbitrary: ms energy time)
    case Nil
    then show ?case by (simp add: map_filter_def)
  next
    case (Cons mp props)
    then obtain m ms' where ms: "ms = m # ms'" and m: "measurement mp = ret m"
      and rest: "map measurement props = map ret ms'" by (cases ms) auto
    have "cfold ?f (mp # props) (energy, time) =
        cfold ?f props (case m of None \<Rightarrow> (energy, time) | Some (e, t) \<Rightarrow> (dadd energy e, dmax time t))"
      by (simp only: cfold.simps prod.case energy_time_step [OF m] cbind_ret)
    then show ?case
      using Cons.IH [OF rest] by (cases m) (auto simp: ms map_filter_def split: prod.splits)
  qed
  then show ?thesis by (simp add: energy_time_def)
qed

text \<open>
  C19: The energy-delay products multiply the summed energy with the longest time: when every property
  can be read and at least one is a measurement, with times of at least zero, EDP is the energy sum
  times the longest of the times, and ED2P that times it again.
\<close>

theorem energy_delay_products:
  assumes "map measurement props = map ret ms" and "List.map_filter id ms \<noteq> []"
    and "\<forall>(e, t) \<in> set (List.map_filter id ms). dle (dbl_of_int 0) t"
  shows "\<exists>T. T \<in> snd ` set (List.map_filter id ms) \<and> (\<forall>(e, t) \<in> set (List.map_filter id ms). \<not> dlt T t) \<and>
    (let E = foldl dadd (dbl_of_int 0) (map fst (List.map_filter id ms))
     in EDPObjective props = ret (dmul E T) \<and> ED2PObjective props = ret (dmul (dmul E T) T))"
proof -
  let ?ts = "map snd (List.map_filter id ms)"
  have pos: "\<forall>t \<in> set ?ts. dle (dbl_of_int 0) t" using assms(3) by auto
  obtain t ts where ts: "?ts = t # ts" using assms(2) by (cases ?ts) auto
  have "dlt (dbl_of_int (- 1)) (dbl_of_int 0)" by code_simp
  then have first: "dmax (dbl_of_int (- 1)) t = t" using pos ts by (auto simp: dmax_def intro: dlt_dle_trans)
  have eta: "(\<lambda>t T. dmax T t) = (\<lambda>x kept. if dlt kept x then x else kept)" by (simp add: dmax_def fun_eq_iff)
  have nan: "\<not> is_nan t" "\<forall>x \<in> set ts. \<not> is_nan x" using pos ts by (auto simp: dle_def)
  define T where "T = fold (\<lambda>t T. dmax T t) ?ts (dbl_of_int (- 1))"
  have "T = fold (\<lambda>t T. dmax T t) ts t" unfolding T_def ts by (simp add: first)
  then have "T = fold (\<lambda>x kept. if dlt kept x then x else kept) ts t" unfolding eta .
  with larger.fold_best [OF nan] have T: "T \<in> set ?ts" "\<forall>y \<in> set ?ts. \<not> dlt T y" unfolding ts by simp_all
  have "EDPObjective props = ret (dmul (foldl dadd (dbl_of_int 0) (map fst (List.map_filter id ms))) T)"
    "ED2PObjective props = ret (dmul (dmul (foldl dadd (dbl_of_int 0) (map fst (List.map_filter id ms))) T) T)"
    by (simp_all add: EDPObjective_def ED2PObjective_def energy_time_fold [OF assms(1)] T_def)
  with T show ?thesis by (intro exI [of _ T]) (auto simp: Let_def)
qed

text \<open>Two processes that report energies 30 and 12 and times of 4 and 5 seconds, and another property.\<close>

definition example_energy :: "int \<Rightarrow> string \<Rightarrow> meta_property" where
  "example_energy e t = (addExtraInfo ''ExecTime'' t (setSeverity (dbl_of_int e) (new_MetaProperty 0)))\<lparr>mp_id := ''137''\<rparr>"

definition example_energies :: "meta_property list" where
  "example_energies = [example_energy 30 ''4'', (new_MetaProperty 0)\<lparr>mp_id := ''7''\<rparr>, example_energy 12 ''5'']"

theorem energy_delay_products_witness:
  "EDPObjective example_energies = ret (dbl_of_int 210) \<and> ED2PObjective example_energies = ret (dbl_of_int 1050)"
proof -
  let ?ms = "[Some (dbl_of_int 30, dbl_of_int 4), None, Some (dbl_of_int 12, dbl_of_int 5)]"
  have m: "map measurement example_energies = map ret ?ms" by code_simp
  have "List.map_filter id ?ms \<noteq> []" by code_simp
  moreover have "\<forall>(e, t) \<in> set (List.map_filter id ?ms). dle (dbl_of_int 0) t" by code_simp
  ultimately obtain T where "T \<in> snd ` set (List.map_filter id ?ms)"
    and all: "\<forall>(e, t) \<in> set (List.map_filter id ?ms). \<not> dlt T t"
    and r: "EDPObjective example_energies = ret (dmul (foldl dadd (dbl_of_int 0) (map fst (List.map_filter id ?ms))) T)"
      "ED2PObjective example_energies = ret (dmul (dmul (foldl dadd (dbl_of_int 0) (map fst (List.map_filter id ?ms))) T) T)"
    using energy_delay_products [OF m] unfolding Let_def by blast
  moreover have "dlt (dbl_of_int 4) (dbl_of_int 5)" by code_simp
  ultimately have T: "T = dbl_of_int 5" by (auto simp: map_filter_def)
  have "dmul (foldl dadd (dbl_of_int 0) (map fst (List.map_filter id ?ms))) (dbl_of_int 5) = dbl_of_int 210"
    "dmul (dbl_of_int 210) (dbl_of_int 5) = dbl_of_int 1050" by code_simp+
  with r show ?thesis unfolding T by simp
qed

section \<open>The plain time\<close>

text \<open>
  The time objective does not report the longest time: for properties of kind
  \<open>EXECTIMEIMPORTANCE\<close> the time kept is in seconds and compared with a new one in nanoseconds, so when
  each time in seconds is below each in nanoseconds the last property's time is reported, however short.
\<close>

theorem time_of_last_property:
  assumes "props \<noteq> []"
    and "\<forall>mp \<in> set props. std_stoi (mp_id mp) = ret EXECTIMEIMPORTANCE \<and> info_value ''cycles'' mp = ret (cycles mp)"
    and "\<forall>mp \<in> set props. dlt (dbl_of_int 0) (cycles mp)"
    and "\<forall>mp \<in> set props. \<forall>mp' \<in> set props. dlt (ddiv (cycles mp) NANOSEC_PER_SEC_DOUBLE) (cycles mp')"
  shows "TimeObjective props = ret (ddiv (cycles (last props)) NANOSEC_PER_SEC_DOUBLE)"
proof -
  let ?f = "\<lambda>mp time. cbind (std_stoi (mp_id mp)) (\<lambda>i.
       if is_measurement i
       then cbind (info_value (if i = EXECTIMEIMPORTANCE then ''cycles'' else ''ExecTime'') mp) (\<lambda>v.
              if dlt time v then ret (if i = EXECTIMEIMPORTANCE then ddiv v NANOSEC_PER_SEC_DOUBLE else v) else ret time)
       else ret time)"
  have step: "?f mp time = ret (ddiv (cycles mp) NANOSEC_PER_SEC_DOUBLE)" if "mp \<in> set props" "dlt time (cycles mp)" for mp time
    using assms(2) that by (simp add: is_measurement_def)
  have run: "cfold ?f ps time = ret (ddiv (cycles (last ps)) NANOSEC_PER_SEC_DOUBLE)"
    if "ps \<noteq> []" "set ps \<subseteq> set props" "\<forall>mp \<in> set ps. dlt time (cycles mp)" for ps time
    using that
  proof (induction ps arbitrary: time)
    case (Cons mp ps)
    let ?t = "ddiv (cycles mp) NANOSEC_PER_SEC_DOUBLE"
    have mem: "mp \<in> set props" "dlt time (cycles mp)" using Cons.prems by auto
    have head: "cfold ?f (mp # ps) time = cfold ?f ps ?t"
      by (simp only: cfold.simps step [OF mem] cbind_ret)
    show ?case
    proof (cases "ps = []")
      case False
      have "\<forall>mp' \<in> set ps. dlt ?t (cycles mp')" using assms(4) Cons.prems(2) by auto
      with Cons.IH [OF False] Cons.prems(2) head False show ?thesis by simp
    qed (use head in simp)
  qed simp
  show ?thesis using run [OF assms(1), of "dbl_of_int 0"] assms(3) by (simp add: TimeObjective_def)
qed

text \<open>Five seconds, then three: the objective says three.\<close>

definition example_cycles :: "string \<Rightarrow> meta_property" where
  "example_cycles t = (addExtraInfo ''cycles'' t (new_MetaProperty 0))\<lparr>mp_id := ''146''\<rparr>"

definition cycles_of :: "meta_property \<Rightarrow> dbl" where
  "cycles_of mp = (case info_value ''cycles'' mp of Some (Inr d) \<Rightarrow> d | _ \<Rightarrow> NaN)"

theorem time_of_last_property_witness:
  "TimeObjective [example_cycles ''5000000000'', example_cycles ''3000000000''] = ret (dbl_of_int 3)"
proof -
  let ?props = "[example_cycles ''5000000000'', example_cycles ''3000000000'']"
  have "?props \<noteq> []" by simp
  moreover have "\<forall>mp \<in> set ?props. std_stoi (mp_id mp) = ret EXECTIMEIMPORTANCE \<and> info_value ''cycles'' mp = ret (cycles_of mp)"
    by code_simp
  moreover have "\<forall>mp \<in> set ?props. dlt (dbl_of_int 0) (cycles_of mp)" by code_simp
  moreover have "\<forall>mp \<in> set ?props. \<forall>mp' \<in> set ?props. dlt (ddiv (cycles_of mp) NANOSEC_PER_SEC_DOUBLE) (cycles_of mp')"
    by code_simp
  ultimately have "TimeObjective ?props = ret (ddiv (cycles_of (last ?props)) NANOSEC_PER_SEC_DOUBLE)"
    by (rule time_of_last_property)
  also have "ddiv (cycles_of (last ?props)) NANOSEC_PER_SEC_DOUBLE = dbl_of_int 3" by code_simp
  finally show ?thesis .
qed

end
