(* ===== verification/SearchCommon.thy ===== *)
theory SearchCommon
  imports Objectives
begin

text \<open>
  What the search algorithms of \<open>autotune/searchalgorithms\<close> share: the process-wide state they work
  on, the bookkeeping of best and worst scenario, and the interface \<open>ISearchAlgorithm\<close> as a locale
  with its contract.
\<close>

section \<open>Process-wide state\<close>

text \<open>
  The pool set, the scenario counter of the class \<open>Scenario\<close> and the heap of tuning parameters.
  \<open>build_env\<close> is fixed at start: whether instrumentation supports rts's (\<open>withRtsSupport()\<close>), and
  the value an uninitialised \<open>bool\<close> happens to have.
\<close>

record world =
  pool_set :: scenario_pool_set
  next_scenario_id :: scenario_counter
  tp_heap :: tp_store

record build_env =
  withRtsSupport :: bool
  uninit_bool :: bool

text \<open>\<open>scenario = new Scenario( ts ); scenarioIds.push( scenario->getID() ); csp->push( scenario )\<close>.\<close>

definition add_scenario :: "tuning_specification list \<Rightarrow> int list \<times> world \<Rightarrow> int list \<times> world" where
  "add_scenario ts qw = (case qw of (queue, w) \<Rightarrow>
     (let (sc, n) = new_Scenario (Some ts) (next_scenario_id w);
          pools = pool_set w
      in (queue @ [sc_key sc],
          w\<lparr>next_scenario_id := n, pool_set := pools\<lparr>csp := ScenarioPool_push sc (csp pools)\<rparr>\<rparr>)))"

section \<open>Best and worst scenario so far\<close>

record search_results =
  path :: "(int, dbl) smap"
  optimum :: int
  optimumValue :: dbl
  worst :: int
  worstValue :: dbl

definition no_results :: search_results where
  "no_results = \<lparr>path = [], optimum = - 1, optimumValue = DBL_MAX, worst = - 1, worstValue = DBL_MIN\<rparr>"

text \<open>The body of the loop of \<open>searchFinished\<close>, once the objective value is known.\<close>

definition record_value :: "int \<Rightarrow> dbl \<Rightarrow> search_results \<Rightarrow> search_results" where
  "record_value scenario_id objValue s =
     (let s1 = s\<lparr>path := sm_put scenario_id objValue (path s)\<rparr>;
          s2 = (if optimum s1 = - 1 \<or> dlt objValue (optimumValue s1)
                then s1\<lparr>optimum := scenario_id, optimumValue := objValue\<rparr> else s1)
      in if worst s2 = - 1 \<or> dlt (worstValue s2) objValue
         then s2\<lparr>worst := scenario_id, worstValue := objValue\<rparr> else s2)"

text \<open>
  The invariant: nothing recorded, or optimum and worst are recorded scenarios, no recorded value is
  below the optimum's and none is above the worst's.
\<close>

definition results_inv :: "search_results \<Rightarrow> bool" where
  "results_inv s \<longleftrightarrow>
     (optimum s = - 1 \<and> worst s = - 1 \<and> path s = [] \<or>
      sm_find (path s) (optimum s) = Some (optimumValue s) \<and>
      sm_find (path s) (worst s) = Some (worstValue s) \<and>
      (\<forall>i v. sm_find (path s) i = Some v \<longrightarrow> \<not> dlt v (optimumValue s) \<and> \<not> dlt (worstValue s) v)) \<and>
     (\<forall>i v. sm_find (path s) i = Some v \<longrightarrow> 0 \<le> i)"

lemma results_inv_none [simp]: "results_inv no_results"
  by (simp add: results_inv_def no_results_def)

lemma path_no_results [simp]: "path no_results = []"
  by (simp add: no_results_def)

lemma path_record_value [simp]: "path (record_value i v s) = sm_put i v (path s)"
  by (simp add: record_value_def Let_def)

lemma results_inv_record:
  assumes inv: "results_inv s" and i: "0 \<le> i" and fresh: "sm_find (path s) i = None"
  shows "results_inv (record_value i v s)"
proof (cases "path s = []")
  case True
  then have "optimum s = - 1 \<and> worst s = - 1" using inv by (auto simp: results_inv_def)
  then show ?thesis using True i by (simp add: results_inv_def record_value_def sm_find_Cons)
next
  case False
  with inv have o: "sm_find (path s) (optimum s) = Some (optimumValue s)"
    and w: "sm_find (path s) (worst s) = Some (worstValue s)"
    and all: "\<And>j u. sm_find (path s) j = Some u \<Longrightarrow> \<not> dlt u (optimumValue s) \<and> \<not> dlt (worstValue s) u"
    and pos: "\<And>j u. sm_find (path s) j = Some u \<Longrightarrow> 0 \<le> j"
    unfolding results_inv_def by blast+
  have ne: "optimum s \<noteq> - 1" "worst s \<noteq> - 1" using pos o w by force+
  have ni: "optimum s \<noteq> i" "worst s \<noteq> i" using o w fresh by auto
  let ?t = "record_value i v s"
  have t: "optimum ?t = (if dlt v (optimumValue s) then i else optimum s)"
    "optimumValue ?t = (if dlt v (optimumValue s) then v else optimumValue s)"
    "worst ?t = (if dlt (worstValue s) v then i else worst s)"
    "worstValue ?t = (if dlt (worstValue s) v then v else worstValue s)"
    using ne by (simp_all add: record_value_def Let_def)
  have f: "sm_find (path ?t) j = (if j = i then Some v else sm_find (path s) j)" for j by simp
  have "sm_find (path ?t) (optimum ?t) = Some (optimumValue ?t)" using o ni by (simp add: t f)
  moreover have "sm_find (path ?t) (worst ?t) = Some (worstValue ?t)" using w ni by (simp add: t f)
  moreover have "\<not> dlt u (optimumValue ?t)" if "sm_find (path ?t) j = Some u" for j u
    using that all [of j u] dlt_trans [of u v "optimumValue s"] by (auto simp: t f split: if_splits)
  moreover have "\<not> dlt (worstValue ?t) u" if "sm_find (path ?t) j = Some u" for j u
    using that all [of j u] dlt_trans [of "worstValue s" v u] by (auto simp: t f split: if_splits)
  moreover have "0 \<le> j" if "sm_find (path ?t) j = Some u" for j u
    using that pos i by (auto simp: f split: if_splits)
  ultimately show ?thesis unfolding results_inv_def by blast
qed

text \<open>
  The reader of the results: when the invariant holds and something is recorded, the optimum is on
  the search path and no scenario on it is better; likewise for the worst.
\<close>

lemma results_inv_optimum:
  assumes "results_inv s" and "optimum s \<noteq> - 1"
  shows "sm_find (path s) (optimum s) = Some (optimumValue s) \<and>
    (\<forall>i v. sm_find (path s) i = Some v \<longrightarrow> \<not> dlt v (optimumValue s))"
  using assms by (auto simp: results_inv_def)

lemma results_inv_worst:
  assumes "results_inv s" and "worst s \<noteq> - 1"
  shows "sm_find (path s) (worst s) = Some (worstValue s) \<and>
    (\<forall>i v. sm_find (path s) i = Some v \<longrightarrow> \<not> dlt (worstValue s) v)"
  using assms by (auto simp: results_inv_def)

lemma optimum_record_first: "path s = [] \<Longrightarrow> results_inv s \<Longrightarrow> optimum (record_value i v s) = i"
  by (auto simp: results_inv_def record_value_def Let_def)

lemma record_value_nonneg: "results_inv s \<Longrightarrow> 0 \<le> i \<Longrightarrow> optimum (record_value i v s) \<noteq> - 1"
  by (auto simp: results_inv_def record_value_def Let_def dest!: spec [of _ "optimum s"])

section \<open>The interface of a search algorithm\<close>

text \<open>
  \<open>ISearchAlgorithm\<close> as the plugins and the driver use it: \<open>finished\<close> evaluates the scenarios the
  search is waiting for, \<open>best\<close> names the best one. The contract: evaluating keeps the invariant,
  adds exactly the pending scenarios to the search path and leaves none pending, provided the
  measurements in the pools are usable for the search, and the scenario named best is on the path
  with no better one beside it.
\<close>

locale search_algorithm =
  fixes finished :: "'s \<Rightarrow> world \<Rightarrow> (bool \<times> 's \<times> world) comp"
    and best :: "'s \<Rightarrow> int comp"
    and steps :: "'s \<Rightarrow> (int, dbl) smap"
    and pending :: "'s \<Rightarrow> int list"
    and inv :: "'s \<Rightarrow> bool"
    and usable :: "'s \<Rightarrow> world \<Rightarrow> bool"
  assumes finished_law:
      "inv s \<Longrightarrow> usable s w \<Longrightarrow> finished s w = ret (b, t, w') \<Longrightarrow>
         inv t \<and> pending t = [] \<and> dom (sm_find (steps t)) = dom (sm_find (steps s)) \<union> set (pending s)"
    and best_law:
      "inv s \<Longrightarrow> best s = ret i \<Longrightarrow> sm_find (steps s) i = Some v \<Longrightarrow>
         sm_find (steps s) j = Some u \<Longrightarrow> \<not> dlt u v"
    and best_on_path: "inv s \<Longrightarrow> best s = ret i \<Longrightarrow> steps s \<noteq> [] \<Longrightarrow> sm_find (steps s) i \<noteq> None"
begin

lemma best_of_finished:
  assumes "inv s" and "usable s w" and "finished s w = ret (b, t, w')" and "best t = ret i" and "pending s \<noteq> []"
  obtains v where "sm_find (steps t) i = Some v" and "\<forall>u \<in> ran (sm_find (steps t)). \<not> dlt u v"
proof -
  from finished_law [OF assms(1,2,3)] have t: "inv t"
    and d: "dom (sm_find (steps t)) = dom (sm_find (steps s)) \<union> set (pending s)" by auto
  obtain j0 where "j0 \<in> set (pending s)" using assms(5) by (cases "pending s") auto
  then have "steps t \<noteq> []" using d by auto
  with best_on_path [OF t assms(4)] obtain v where v: "sm_find (steps t) i = Some v" by auto
  have "\<not> dlt u v" if "u \<in> ran (sm_find (steps t))" for u
    using that best_law [OF t assms(4) v] by (auto simp: ran_def)
  with v that show ?thesis by blast
qed

text \<open>Over several search steps the best scenario stays best among everything evaluated.\<close>

lemma path_grows:
  assumes "inv s" and "usable s w" and "finished s w = ret (b, t, w')" and "sm_find (steps s) j \<noteq> None"
  shows "sm_find (steps t) j \<noteq> None"
  using finished_law [OF assms(1,2,3)] assms(4) by auto

end

text \<open>A plain parameter with a range, for the examples.\<close>

definition example_tp :: "int \<Rightarrow> int \<Rightarrow> int \<Rightarrow> tuning_parameter" where
  "example_tp from to step = \<lparr>tp_ID = 0, pluginType = 0, runtimeActionType = 0, tp_name = ''p'', rangeFrom = from,
     rangeTo = to, rangeStep = step, default_val = from, stringValues = [], tp_restriction = None\<rparr>"

end
