(* ===== verification/AutotuneMSM.thy ===== *)
theory AutotuneMSM
  imports SearchCommon
begin

text \<open>
  The autotune state machine of the frontend: \<open>frontend/include/frontend_statemachine.h\<close> (states,
  events, transition table) and the actions of \<open>frontend/src/frontend_statemachine.cc\<close>. The actions
  work on the frontend's state and on three things outside it that are parameters: the tuning plugin
  behind the interface \<open>IPlugin\<close>, the agents and the application reached through the communication
  phases, and the clock.
\<close>

section \<open>The transition table\<close>

datatype autotune_state =
    InitialState | InitializingPlugin | StartingTuningStep | PerformingAnalysis | CreatingScenarios
  | PreparingScenarios | DefiningExperiments | ConsideringApplicationRestart | RunningPhaseExperiments
  | FinishingTuningStep | CreatingTuningAdvice | FinalState

datatype autotune_event =
    initialize_plugin | start_tuning_step | perform_analysis | create_scenarios | prepare_scenarios
  | define_experiment | consider_restart | run_phase_experiments | finish_tuning_step
  | create_tuning_advice | finalize_autotuning

definition transition_rows :: "(autotune_state \<times> autotune_event \<times> autotune_state) list" where
  "transition_rows =
    [(InitialState, initialize_plugin, InitializingPlugin),
     (InitializingPlugin, start_tuning_step, StartingTuningStep),
     (StartingTuningStep, create_scenarios, CreatingScenarios),
     (StartingTuningStep, perform_analysis, PerformingAnalysis),
     (PerformingAnalysis, create_scenarios, CreatingScenarios),
     (CreatingScenarios, prepare_scenarios, PreparingScenarios),
     (CreatingScenarios, finish_tuning_step, FinishingTuningStep),
     (PreparingScenarios, define_experiment, DefiningExperiments),
     (DefiningExperiments, consider_restart, ConsideringApplicationRestart),
     (ConsideringApplicationRestart, run_phase_experiments, RunningPhaseExperiments),
     (RunningPhaseExperiments, run_phase_experiments, RunningPhaseExperiments),
     (RunningPhaseExperiments, define_experiment, DefiningExperiments),
     (RunningPhaseExperiments, prepare_scenarios, PreparingScenarios),
     (RunningPhaseExperiments, create_scenarios, CreatingScenarios),
     (RunningPhaseExperiments, finish_tuning_step, FinishingTuningStep),
     (FinishingTuningStep, start_tuning_step, StartingTuningStep),
     (FinishingTuningStep, create_tuning_advice, CreatingTuningAdvice),
     (CreatingTuningAdvice, finalize_autotuning, FinalState)]"

definition transition_table :: "autotune_state \<Rightarrow> autotune_event \<Rightarrow> autotune_state option" where
  "transition_table s e = map_of (map (\<lambda>(s, e, t). ((s, e), t)) transition_rows) (s, e)"

section \<open>Strategy requests\<close>

record strategy_info =
  strategy_name :: string
  pedantic :: bool
  delay_phases :: int
  delay_seconds :: int
  analysis_duration :: int

datatype strategy_configuration =
    ANALYSIS
  | TUNE "scenario list"
  | PERSYST "int list"
  | CONFIG "property_request list"
  | PRECONFIGURATION "tuning_specification list"

datatype strategy_request =
  StrategyRequest (sr_configuration: strategy_configuration) (general_info: strategy_info)
    (sub_strategy_request: "strategy_request option")

definition new_StrategyRequest :: "strategy_configuration \<Rightarrow> strategy_info \<Rightarrow> strategy_request" where
  "new_StrategyRequest c i = StrategyRequest c i None"

definition setSubStrategyRequest :: "strategy_request option \<Rightarrow> strategy_request \<Rightarrow> strategy_request" where
  "setSubStrategyRequest sub r = StrategyRequest (sr_configuration r) (general_info r) sub"

section \<open>What is outside the frontend\<close>

text \<open>
  What a plugin's operations can reach: its own state, the pools, counter and parameters, and the
  timers it registers with the driver context (callback, delay and initial time).
\<close>

record 'p side =
  plugin_state :: 'p
  tuning_world :: world
  timers :: "(nat, dbl \<times> dbl) smap"

text \<open>\<open>IPlugin\<close>. Reference and pointer parameters are passed in and returned.\<close>

record 'p plugin =
  pl_initialize :: "'p side \<Rightarrow> 'p side comp"
  pl_startTuningStep :: "'p side \<Rightarrow> 'p side comp"
  pl_analysisRequired :: "'p side \<Rightarrow> (bool \<times> strategy_request option \<times> 'p side) comp"
  pl_createScenarios :: "'p side \<Rightarrow> 'p side comp"
  pl_prepareScenarios :: "'p side \<Rightarrow> 'p side comp"
  pl_defineExperiment :: "int \<Rightarrow> bool \<times> strategy_request option \<times> 'p side
                             \<Rightarrow> (bool \<times> strategy_request option \<times> 'p side) comp"
  pl_restartRequired :: "string \<times> int \<times> string \<times> bool \<Rightarrow> 'p side
                             \<Rightarrow> (bool \<times> (string \<times> int \<times> string \<times> bool) \<times> 'p side) comp"
  pl_searchFinished :: "'p side \<Rightarrow> (bool \<times> 'p side) comp"
  pl_finishTuningStep :: "'p side \<Rightarrow> 'p side comp"
  pl_tuningFinished :: "'p side \<Rightarrow> (bool \<times> 'p side) comp"
  pl_getAdvice :: "'p side \<Rightarrow> (bool option \<times> 'p side) comp"
  pl_finalize :: "'p side \<Rightarrow> 'p side comp"

text \<open>
  \<open>pl_getAdvice\<close> answers whether there is an advice and, if so, whether its property tree has the
  entries the frontend reads.

  A communication phase runs the reactor until the agents have answered. It can bring properties,
  the request for a restart and the news that the agent hierarchy is up; \<open>call\<close> is any other order
  to starter, agents, reactor or application.
\<close>

datatype timer_action =
    STARTUP | STARTUP_REINIT | CHECK | SHUTDOWN | AGENT_STARTUP | APPLICATION_TERMINATION | REQUESTCALLTREE

record report =
  received :: "meta_property list"
  restart_needed :: bool
  hierarchy_up :: bool

datatype fe_call =
    RunAgents | RunApplication | RerunApplication | WaitApplication | StartAgents
  | TerminateApplication | TerminateHierarchy | RegisterHandlers
  | SerializeRequest strategy_request | AddRegions "meta_property list"
  | MarkSignificantRegions | SetValidRtss | InsertDefaultObjectives "meta_property list"

record ('p, 'e) outside =
  plug :: "'p plugin"
  communicate :: "timer_action \<Rightarrow> bool \<Rightarrow> 'e \<Rightarrow> (report \<times> 'e) comp"
  call :: "fe_call \<Rightarrow> 'e \<Rightarrow> 'e comp"
  psc_wall_time :: "'e \<Rightarrow> dbl \<times> 'e"
  timer_callback :: "nat \<Rightarrow> dbl \<Rightarrow> 'p side \<Rightarrow> 'p side comp"

record options =
  fastmode :: bool
  timeout_delta :: int
  has_plugin :: bool
  applUninstrumented :: bool
  with_rts_support :: bool
  mpinumprocs_string :: string
  delay_string :: "string option"
  config_objectives :: "string list option"

section \<open>The frontend's state\<close>

record ('p, 'e) frontend =
  side :: "'p side"
  ext :: 'e
  msm :: autotune_state
  tuning_step :: int
  search_step :: int
  experiment_count :: int
  executed :: bool
  just_started :: bool
  is_instrumented :: bool
  scenarios_executed :: bool
  analysis_per_experiment :: bool
  prepared_request :: "strategy_request option"
  analysis_request :: "strategy_request option"
  new_properties_index :: nat
  metaproperties :: "meta_property list"
  need_restart :: bool
  agent_hierarchy_started :: bool
  shutdown_allowed :: bool
  mpinumprocs_val :: int
  app_run_string :: string
  user_specified_environment :: string
  global_timeout :: int
  strategy_opt :: string
  tuning_plugin_executed :: bool

definition fe_pools :: "('p, 'e) frontend \<Rightarrow> scenario_pool_set" where
  "fe_pools d = pool_set (tuning_world (side d))"

definition set_pools :: "scenario_pool_set \<Rightarrow> ('p, 'e) frontend \<Rightarrow> ('p, 'e) frontend" where
  "set_pools ps d = d\<lparr>side := (side d)\<lparr>tuning_world := (tuning_world (side d))\<lparr>pool_set := ps\<rparr>\<rparr>\<rparr>"

section \<open>Talking to the outside\<close>

type_synonym ('p, 'e) fe_step = "('p, 'e) frontend \<Rightarrow> ('p, 'e) frontend comp"

definition fe_call :: "('p, 'e) outside \<Rightarrow> fe_call \<Rightarrow> ('p, 'e) fe_step" where
  "fe_call out c d = cbind (call out c (ext d)) (\<lambda>e. ret (d\<lparr>ext := e\<rparr>))"

definition ace_communication_phase ::
  "('p, 'e) outside \<Rightarrow> options \<Rightarrow> timer_action \<Rightarrow> ('p, 'e) fe_step" where
  "ace_communication_phase out opts action d =
     cbind (communicate out action (fastmode opts) (ext d)) (\<lambda>(r, e).
       ret (d\<lparr>ext := e,
             metaproperties := metaproperties d @ received r,
             need_restart := (need_restart d \<or> restart_needed r),
             agent_hierarchy_started := (agent_hierarchy_started d \<or> hierarchy_up r)\<rparr>))"

text \<open>A timer that has expired is erased from the map while the loop's iterator stands on it.\<close>

fun first_expired :: "dbl \<Rightarrow> (nat, dbl \<times> dbl) smap \<Rightarrow> nat option" where
  "first_expired now [] = None"
| "first_expired now ((k, delay, initial_time) # ts) =
     (if dlt delay (dsub now initial_time) then Some k else first_expired now ts)"

definition handle_timers :: "('p, 'e) outside \<Rightarrow> ('p, 'e) fe_step" where
  "handle_timers out d =
     (let (now, e) = psc_wall_time out (ext d)
      in case first_expired now (timers (side d)) of
           None \<Rightarrow> ret (d\<lparr>ext := e\<rparr>)
         | Some k \<Rightarrow> cbind (timer_callback out k now (side d)) (\<lambda>s. fail UB))"

definition increment_global_timeout :: "options \<Rightarrow> ('p, 'e) fe_step" where
  "increment_global_timeout opts d =
     check (in_int (global_timeout d + timeout_delta opts)) UB
       (ret (d\<lparr>global_timeout := global_timeout d + timeout_delta opts\<rparr>))"

definition pushStrategyRequest ::
  "('p, 'e) outside \<Rightarrow> options \<Rightarrow> strategy_request option \<Rightarrow> ('p, 'e) fe_step" where
  "pushStrategyRequest out opts r d =
     (case r of None \<Rightarrow> fail InvalidArgument
      | Some req \<Rightarrow> cbind (fe_call out (SerializeRequest req) d) (\<lambda>d.
          if fastmode opts \<and> agent_hierarchy_started d then fe_call out StartAgents d else ret d))"

definition restart_sequence ::
  "('p, 'e) outside \<Rightarrow> options \<Rightarrow> bool \<Rightarrow> bool \<Rightarrow> ('p, 'e) fe_step" where
  "restart_sequence out opts push_request reinit d =
     cbind (fe_call out TerminateApplication d) (\<lambda>d.
     cbind (fe_call out RegisterHandlers d) (\<lambda>d.
     cbind (ace_communication_phase out opts APPLICATION_TERMINATION d) (\<lambda>d.
     cbind (fe_call out WaitApplication d) (\<lambda>d.
     cbind (increment_global_timeout opts d) (\<lambda>d.
     cbind (fe_call out RerunApplication d) (\<lambda>d.
     cbind ((if push_request then pushStrategyRequest out opts (prepared_request d) else ret)
              (d\<lparr>need_restart := False\<rparr>)) (\<lambda>d.
     cbind (increment_global_timeout opts d) (\<lambda>d.
     cbind (fe_call out RegisterHandlers d) (\<lambda>d.
       if reinit
       then cbind (ace_communication_phase out opts STARTUP_REINIT d) (\<lambda>d.
              if fastmode opts then ace_communication_phase out opts STARTUP_REINIT d else ret d)
       else ace_communication_phase out opts STARTUP d)))))))))"

definition agents_then_application_start :: "('p, 'e) outside \<Rightarrow> options \<Rightarrow> ('p, 'e) fe_step" where
  "agents_then_application_start out opts d =
     cbind (fe_call out RunAgents (d\<lparr>shutdown_allowed := False\<rparr>)) (\<lambda>d.
     cbind (loop (\<lambda>d. if \<not> agent_hierarchy_started d
                      then cbind (ace_communication_phase out opts STARTUP d) (\<lambda>d. ret (True, d))
                      else ret (False, d)) d) (\<lambda>d.
       fe_call out RunApplication d))"

definition application_then_agents_start :: "('p, 'e) outside \<Rightarrow> ('p, 'e) fe_step" where
  "application_then_agents_start out d =
     cbind (fe_call out RunApplication (d\<lparr>shutdown_allowed := False\<rparr>)) (\<lambda>d. fe_call out RunAgents d)"

text \<open>
  The objective functions of the configuration file: the code reads the first of the list even when
  the list is empty, and of an unknown name it makes no objective but uses the first one later.
\<close>

definition known_objectives :: "string list" where
  "known_objectives = [''Energy'', ''NormalizedEnergy'', ''CPUEnergy'', ''NormalizedCPUEnergy'', ''EDP'',
     ''NormalizedEDP'', ''ED2P'', ''NormalizedED2P'', ''Time'', ''NormalizedTime'', ''TCO'', ''NormalizedTCO'']"

definition setup_call_tree :: "('p, 'e) outside \<Rightarrow> options \<Rightarrow> ('p, 'e) fe_step" where
  "setup_call_tree out opts d =
     cbind (case config_objectives opts of None \<Rightarrow> ret d
            | Some objs \<Rightarrow> cbind (fe_call out MarkSignificantRegions d) (\<lambda>d. check (objs \<noteq> []) UB (ret d))) (\<lambda>d.
     cbind (fe_call out RegisterHandlers d) (\<lambda>d.
     cbind (ace_communication_phase out opts REQUESTCALLTREE d) (\<lambda>d.
     cbind (fe_call out SetValidRtss d) (\<lambda>d.
       case config_objectives opts of None \<Rightarrow> ret d
       | Some objs \<Rightarrow> check (hd objs \<in> set known_objectives) UB
           (fe_call out (InsertDefaultObjectives (metaproperties d)) d)))))"

definition importance_info :: "int \<Rightarrow> strategy_info" where
  "importance_info delay = \<lparr>strategy_name = ''Importance'', pedantic = False, delay_phases = delay,
     delay_seconds = 0, analysis_duration = 1\<rparr>"

definition gather_regions :: "('p, 'e) outside \<Rightarrow> options \<Rightarrow> ('p, 'e) fe_step" where
  "gather_regions out opts d =
     cbind (case delay_string opts of None \<Rightarrow> ret 0 | Some t \<Rightarrow> c_atoi t) (\<lambda>delay.
     cbind (pushStrategyRequest out opts (Some (new_StrategyRequest ANALYSIS (importance_info delay))) d) (\<lambda>d.
     cbind (ace_communication_phase out opts STARTUP d) (\<lambda>d.
     cbind (if need_restart d then restart_sequence out opts False True d else ret d) (\<lambda>d.
     cbind (fe_call out (AddRegions (metaproperties d)) d) (\<lambda>d.
     cbind (if with_rts_support opts then setup_call_tree out opts d else ret d) (\<lambda>d.
       ret (d\<lparr>metaproperties := [], new_properties_index := 0\<rparr>)))))))"

definition start_application_and_agent_network :: "('p, 'e) outside \<Rightarrow> options \<Rightarrow> ('p, 'e) fe_step" where
  "start_application_and_agent_network out opts d =
     cbind (handle_timers out d) (\<lambda>d.
     check (just_started d) Abort
      (cbind (if fastmode opts then agents_then_application_start out opts d
              else application_then_agents_start out d) (\<lambda>d.
       cbind (fe_call out RegisterHandlers (d\<lparr>just_started := False\<rparr>)) (\<lambda>d.
       cbind (if fastmode opts \<and> agent_hierarchy_started d then fe_call out StartAgents d else ret d) (\<lambda>d.
         if \<not> is_instrumented d then ret d else gather_regions out opts d)))))"

section \<open>The actions\<close>

definition on_side :: "('p side \<Rightarrow> 'p side comp) \<Rightarrow> ('p, 'e) fe_step" where
  "on_side f d = cbind (f (side d)) (\<lambda>s. ret (d\<lparr>side := s\<rparr>))"

definition initialize_plugin_action :: "('p, 'e) outside \<Rightarrow> options \<Rightarrow> ('p, 'e) fe_step" where
  "initialize_plugin_action out opts d =
     cbind (if \<not> applUninstrumented opts then start_application_and_agent_network out opts d else ret d) (\<lambda>d.
       if has_plugin opts then on_side (pl_initialize (plug out)) d else fail Throw0)"

definition start_tuning_step_action :: "('p, 'e) outside \<Rightarrow> ('p, 'e) fe_step" where
  "start_tuning_step_action out d = cbind (handle_timers out d) (on_side (pl_startTuningStep (plug out)))"

text \<open>The properties received since the last time go to the results of the tuning step.\<close>

definition drain_preanalysis :: "int \<Rightarrow> ('p, 'e) frontend \<Rightarrow> ('p, 'e) frontend" where
  "drain_preanalysis step d =
     (let a = fold (\<lambda>mp. pushPreAnalysisProperty mp step) (drop (new_properties_index d) (metaproperties d))
                (arp (fe_pools d))
      in (set_pools ((fe_pools d)\<lparr>arp := a\<rparr>) d)
           \<lparr>new_properties_index := max (new_properties_index d) (length (metaproperties d))\<rparr>)"

definition perform_analysis_action ::
  "('p, 'e) outside \<Rightarrow> options \<Rightarrow> strategy_request \<Rightarrow> int \<Rightarrow> ('p, 'e) fe_step" where
  "perform_analysis_action out opts strategy step d =
     cbind (handle_timers out d) (\<lambda>d.
     cbind (pushStrategyRequest out opts (Some strategy) d) (\<lambda>d.
       if is_instrumented d
       then
         cbind (if just_started d then start_application_and_agent_network out opts d
                else cbind (fe_call out RegisterHandlers d) (ace_communication_phase out opts STARTUP)) (\<lambda>d.
         cbind (if need_restart d then restart_sequence out opts False True d else ret d) (\<lambda>d.
           ret (drain_preanalysis step d)))
       else ret d))"

definition create_scenarios_action :: "('p, 'e) outside \<Rightarrow> ('p, 'e) fe_step" where
  "create_scenarios_action out d = cbind (handle_timers out d) (on_side (pl_createScenarios (plug out)))"

definition prepare_scenarios_action :: "('p, 'e) outside \<Rightarrow> ('p, 'e) fe_step" where
  "prepare_scenarios_action out d = cbind (handle_timers out d) (on_side (pl_prepareScenarios (plug out)))"

definition define_experiment_action :: "('p, 'e) outside \<Rightarrow> options \<Rightarrow> ('p, 'e) fe_step" where
  "define_experiment_action out opts d =
     cbind (handle_timers out d) (\<lambda>d.
     cbind (c_atoi (mpinumprocs_string opts)) (\<lambda>n.
     cbind (pl_defineExperiment (plug out) n (analysis_per_experiment d, analysis_request d, side d))
       (\<lambda>(required, strategy, s).
       ret (d\<lparr>analysis_per_experiment := required, analysis_request := strategy, side := s\<rparr>))))"

text \<open>
  The run of a non-instrumented application is the experiment itself: its run time becomes the
  property of one scenario.
\<close>

definition run_uninstrumented :: "('p, 'e) outside \<Rightarrow> int \<Rightarrow> ('p, 'e) fe_step" where
  "run_uninstrumented out step d =
     (let (start_time, e) = psc_wall_time out (ext d)
      in cbind (fe_call out RunApplication (d\<lparr>ext := e\<rparr>)) (\<lambda>d.
         let (stop_time, e) = psc_wall_time out (ext d); d = d\<lparr>ext := e\<rparr>;
             mp = (new_MetaProperty 0)\<lparr>severity := dsub stop_time start_time\<rparr>
         in cbind (ScenarioPool_pop (esp (fe_pools d))) (\<lambda>(scenario, esp').
              case scenario of None \<Rightarrow> fail UB
              | Some s \<Rightarrow>
                  (let mp = addExtraInfo ''ScenarioID'' (print_int (uint (sc_id s))) mp;
                       ps = (fe_pools d)\<lparr>esp := esp', fsp := ScenarioPool_push s (fsp (fe_pools d))\<rparr>;
                       (r, srp') = srp_push mp step (srp ps)
                   in cbind r (\<lambda>_. ret (set_pools (ps\<lparr>srp := srp'\<rparr>) d))))))"

definition restart_application ::
  "('p, 'e) outside \<Rightarrow> options \<Rightarrow> bool \<Rightarrow> bool \<Rightarrow> ('p, 'e) fe_step" where
  "restart_application out opts restart_required process_count_changed d =
     cbind (if just_started d then start_application_and_agent_network out opts d
            else if restart_required then
              if process_count_changed
              then cbind (fe_call out TerminateHierarchy d) (\<lambda>d.
                     start_application_and_agent_network out opts
                       (d\<lparr>just_started := True, agent_hierarchy_started := False\<rparr>))
              else cbind (fe_call out RegisterHandlers (d\<lparr>need_restart := True\<rparr>)) (\<lambda>d.
                   cbind (if \<not> fastmode opts then ace_communication_phase out opts AGENT_STARTUP d
                          else ret d) (\<lambda>d.
                     restart_sequence out opts False False d))
            else ret d)
       (fe_call out RegisterHandlers)"

definition consider_restart_action ::
  "('p, 'e) outside \<Rightarrow> options \<Rightarrow> int \<Rightarrow> ('p, 'e) fe_step" where
  "consider_restart_action out opts step d =
     cbind (handle_timers out d) (\<lambda>d.
     cbind (pl_restartRequired (plug out) ('''', mpinumprocs_val d, app_run_string d, True)
              (side d)) (\<lambda>(restart_required, (env, numprocs, command, instrumented), s).
       if numprocs \<le> 0 then fail Throw0
       else if command \<noteq> app_run_string d \<and> command = '''' then fail Throw0
       else
         let d' = d\<lparr>side := s, is_instrumented := instrumented, mpinumprocs_val := numprocs,
                    app_run_string := command, user_specified_environment := env\<rparr>
         in if instrumented
            then restart_application out opts restart_required (numprocs \<noteq> mpinumprocs_val d) d'
            else run_uninstrumented out step d'))"

text \<open>\<open>createStrategyRequest\<close>: the experiment pool is emptied into the request and the finished pool.\<close>

definition experiment_body ::
  "scenario list \<times> scenario_pool \<times> scenario_pool \<Rightarrow> (bool \<times> scenario list \<times> scenario_pool \<times> scenario_pool) comp" where
  "experiment_body = (\<lambda>(scenarios, e, f).
     if ScenarioPool_empty e then ret (False, (scenarios, e, f))
     else cbind (ScenarioPool_pop e) (\<lambda>(scenario, e').
       case scenario of None \<Rightarrow> fail UB
       | Some s \<Rightarrow> ret (True, (scenarios @ [s], e', ScenarioPool_push s f))))"

definition createStrategyRequest :: "('p, 'e) frontend \<Rightarrow> (strategy_request \<times> ('p, 'e) frontend) comp" where
  "createStrategyRequest d =
     cbind (loop experiment_body ([], esp (fe_pools d), fsp (fe_pools d))) (\<lambda>(scenarios, e, f).
       ret (new_StrategyRequest (TUNE scenarios)
              \<lparr>strategy_name = ''Autotune'', pedantic = False, delay_phases = 0, delay_seconds = 0,
               analysis_duration = 1\<rparr>,
            set_pools ((fe_pools d)\<lparr>esp := e, fsp := f\<rparr>) d))"

text \<open>New properties go to the scenario results or to the results of the experiment.\<close>

definition PSC_PROPERTY_PURPOSE_TUNING :: int where "PSC_PROPERTY_PURPOSE_TUNING = 100"

definition store_property :: "int \<Rightarrow> int \<Rightarrow> meta_property \<Rightarrow> scenario_pool_set \<Rightarrow> scenario_pool_set comp" where
  "store_property step experiment mp ps =
     (if purpose mp = PSC_PROPERTY_PURPOSE_TUNING
      then (let (r, srp') = srp_push mp step (srp ps) in cbind r (\<lambda>_. ret (ps\<lparr>srp := srp'\<rparr>)))
      else ret (ps\<lparr>arp := pushExperimentProperty mp experiment (arp ps)\<rparr>))"

definition drain_experiment :: "int \<Rightarrow> int \<Rightarrow> ('p, 'e) fe_step" where
  "drain_experiment step experiment d =
     cbind (cfold (store_property step experiment) (drop (new_properties_index d) (metaproperties d)) (fe_pools d))
       (\<lambda>ps. ret ((set_pools ps d)
         \<lparr>new_properties_index := max (new_properties_index d) (length (metaproperties d))\<rparr>))"

definition prepare_request :: "('p, 'e) outside \<Rightarrow> options \<Rightarrow> ('p, 'e) fe_step" where
  "prepare_request out opts d =
     cbind (createStrategyRequest d) (\<lambda>(r, d).
       let r = (if analysis_per_experiment d \<and> analysis_request d \<noteq> None
                then setSubStrategyRequest (analysis_request d) r else r)
       in pushStrategyRequest out opts (Some r) (d\<lparr>prepared_request := Some r\<rparr>))"

definition run_phase_experiments_action ::
  "('p, 'e) outside \<Rightarrow> options \<Rightarrow> int \<Rightarrow> int \<Rightarrow> ('p, 'e) fe_step" where
  "run_phase_experiments_action out opts step experiment d =
     cbind (handle_timers out d) (\<lambda>d.
       if \<not> is_instrumented d then ret d
       else
     cbind (if scenarios_executed d then prepare_request out opts d else ret d) (\<lambda>d.
     cbind (fe_call out RegisterHandlers d) (\<lambda>d.
     cbind (ace_communication_phase out opts STARTUP d) (\<lambda>d.
     cbind (if need_restart d
            then restart_sequence out opts True False (d\<lparr>scenarios_executed := False, executed := False\<rparr>)
            else ret (d\<lparr>scenarios_executed := True, executed := True\<rparr>)) (\<lambda>d.
     cbind (drain_experiment step experiment d) (\<lambda>d.
       if with_rts_support opts
       then cbind (fe_call out RegisterHandlers d) (\<lambda>d.
            cbind (ace_communication_phase out opts REQUESTCALLTREE d) (\<lambda>d.
            cbind (fe_call out SetValidRtss d) (\<lambda>d.
              if config_objectives opts \<noteq> None then fe_call out MarkSignificantRegions d else ret d)))
       else ret d))))))"

definition finish_tuning_step_action :: "('p, 'e) outside \<Rightarrow> ('p, 'e) fe_step" where
  "finish_tuning_step_action out d = cbind (handle_timers out d) (on_side (pl_finishTuningStep (plug out)))"

definition create_tuning_advice_action :: "('p, 'e) outside \<Rightarrow> ('p, 'e) fe_step" where
  "create_tuning_advice_action out d =
     cbind (pl_getAdvice (plug out) (side d)) (\<lambda>(advice, s).
       if advice = Some False then fail Abort else ret (d\<lparr>side := s\<rparr>))"

definition finalize_autotuning_action :: "('p, 'e) outside \<Rightarrow> ('p, 'e) fe_step" where
  "finalize_autotuning_action out d = on_side (pl_finalize (plug out)) d"

text \<open>
  \<open>process_event\<close>: the action of the row runs in the old state, then the machine is in the new one;
  an event without a row ends the program (\<open>no_transition\<close>).
\<close>

definition process_event :: "autotune_event \<Rightarrow> ('p, 'e) fe_step \<Rightarrow> ('p, 'e) fe_step" where
  "process_event ev action d =
     (case transition_table (msm d) ev of
        None \<Rightarrow> fail ExitFailure
      | Some t \<Rightarrow> cbind (action d) (\<lambda>d'. ret (d'\<lparr>msm := t\<rparr>)))"

end
