(* ===== verification/Driver.thy ===== *)
theory Driver
  imports AutotuneMSM
begin

text \<open>
  \<open>PeriscopeFrontend::run_tuning_plugin\<close> (\<open>frontend/src/frontend.cc\<close>): the five nested loops that drive
  a plugin through the autotune state machine, and what they guarantee. The interface \<open>IPlugin\<close> is a
  locale with the contract the driver's loops silently rely on; the plugins interpret it.
\<close>

section \<open>The driver\<close>

definition incr :: "int \<Rightarrow> int comp" where
  "incr i = check (in_int (i + 1)) UB (ret (i + 1))"

definition analysis_phase :: "('p, 'e) outside \<Rightarrow> options \<Rightarrow> ('p, 'e) fe_step" where
  "analysis_phase out opts d =
     cbind (pl_analysisRequired (plug out) (side d)) (\<lambda>(required, strategy, s).
       if \<not> required then ret (d\<lparr>side := s\<rparr>)
       else case strategy of None \<Rightarrow> fail Abort
            | Some r \<Rightarrow>
                cbind (process_event perform_analysis (perform_analysis_action out opts r (tuning_step d))
                         (d\<lparr>side := s, strategy_opt := strategy_name (general_info r)\<rparr>)) (\<lambda>d.
                  ret (d\<lparr>strategy_opt := ''tune''\<rparr>)))"

definition run_body :: "('p, 'e) outside \<Rightarrow> options \<Rightarrow> ('p, 'e) frontend \<Rightarrow> (bool \<times> ('p, 'e) frontend) comp" where
  "run_body out opts d =
     cbind (process_event run_phase_experiments
              (run_phase_experiments_action out opts (search_step d) (experiment_count d)) d) (\<lambda>d.
       ret (\<not> executed d, d))"

definition experiment_step :: "('p, 'e) outside \<Rightarrow> options \<Rightarrow> ('p, 'e) frontend \<Rightarrow> (bool \<times> ('p, 'e) frontend) comp" where
  "experiment_step out opts d =
     cbind (process_event define_experiment (define_experiment_action out opts) d) (\<lambda>d.
     cbind (process_event consider_restart (consider_restart_action out opts (search_step d)) d) (\<lambda>d.
     cbind (loop (run_body out opts) d) (\<lambda>d.
     cbind (incr (experiment_count d)) (\<lambda>n.
       ret (\<not> ScenarioPool_empty (psp (fe_pools d)), d\<lparr>experiment_count := n\<rparr>)))))"

definition prepare_step :: "('p, 'e) outside \<Rightarrow> options \<Rightarrow> ('p, 'e) frontend \<Rightarrow> (bool \<times> ('p, 'e) frontend) comp" where
  "prepare_step out opts d =
     (if ScenarioPool_empty (csp (fe_pools d)) then ret (False, d)
      else cbind (process_event prepare_scenarios (prepare_scenarios_action out) d) (\<lambda>d.
           cbind (loop (experiment_step out opts) d) (\<lambda>d. ret (True, d))))"

definition search_body :: "('p, 'e) outside \<Rightarrow> options \<Rightarrow> ('p, 'e) frontend \<Rightarrow> (bool \<times> ('p, 'e) frontend) comp" where
  "search_body out opts d =
     cbind (analysis_phase out opts d) (\<lambda>d.
     cbind (process_event create_scenarios (create_scenarios_action out) d) (\<lambda>d.
     cbind (loop (prepare_step out opts) d) (\<lambda>d.
     cbind (incr (search_step d)) (\<lambda>n.
     cbind (pl_searchFinished (plug out) (side d)) (\<lambda>(finished, s).
       ret (\<not> finished, d\<lparr>search_step := n, side := s\<rparr>))))))"

definition tuning_body :: "('p, 'e) outside \<Rightarrow> options \<Rightarrow> ('p, 'e) frontend \<Rightarrow> (bool \<times> ('p, 'e) frontend) comp" where
  "tuning_body out opts d =
     cbind (process_event start_tuning_step (start_tuning_step_action out) d) (\<lambda>d.
     cbind (loop (search_body out opts) d) (\<lambda>d.
     cbind (process_event finish_tuning_step (finish_tuning_step_action out) d) (\<lambda>d.
     cbind (incr (tuning_step d)) (\<lambda>n.
     cbind (pl_tuningFinished (plug out) (side d)) (\<lambda>(finished, s).
       ret (\<not> finished, d\<lparr>tuning_step := n, side := s\<rparr>))))))"

text \<open>The standard library's exceptions are caught and end the program; \<open>throw 0\<close> is not caught.\<close>

definition catch_std :: "'a comp \<Rightarrow> 'a comp" where
  "catch_std c = (case c of
     Some (Inl e) \<Rightarrow> if e = OutOfRange \<or> e = InvalidArgument \<or> e = TmgException then fail Abort else fail e
   | _ \<Rightarrow> c)"

definition run_tuning_plugin :: "('p, 'e) outside \<Rightarrow> options \<Rightarrow> ('p, 'e) fe_step" where
  "run_tuning_plugin out opts d =
     catch_std
      (cbind (process_event initialize_plugin (initialize_plugin_action out opts)
                (d\<lparr>msm := InitialState, tuning_step := 0, search_step := 0, experiment_count := 0,
                   executed := True\<rparr>)) (\<lambda>d.
       cbind (loop (tuning_body out opts) d) (\<lambda>d.
       cbind (process_event create_tuning_advice (create_tuning_advice_action out) d) (\<lambda>d.
       cbind (process_event finalize_autotuning (finalize_autotuning_action out) d) (\<lambda>d.
         ret (d\<lparr>tuning_plugin_executed := True\<rparr>))))))"

section \<open>The actions do not disturb the machine\<close>

text \<open>
  \<open>calm out\<close>: nothing outside calls \<open>exit( EXIT_FAILURE )\<close> itself. \<open>stays m c\<close>: if \<open>c\<close> returns, the
  state machine is in \<open>m\<close>, and if it fails, not by an invalid event.
\<close>

definition no_exit :: "'a comp \<Rightarrow> bool" where
  "no_exit c \<longleftrightarrow> c \<noteq> fail ExitFailure"

definition calm :: "('p, 'e) outside \<Rightarrow> bool" where
  "calm out \<longleftrightarrow>
     (\<forall>s. no_exit (pl_initialize (plug out) s)) \<and> (\<forall>s. no_exit (pl_startTuningStep (plug out) s)) \<and>
     (\<forall>s. no_exit (pl_analysisRequired (plug out) s)) \<and> (\<forall>s. no_exit (pl_createScenarios (plug out) s)) \<and>
     (\<forall>s. no_exit (pl_prepareScenarios (plug out) s)) \<and> (\<forall>n s. no_exit (pl_defineExperiment (plug out) n s)) \<and>
     (\<forall>r s. no_exit (pl_restartRequired (plug out) r s)) \<and> (\<forall>s. no_exit (pl_searchFinished (plug out) s)) \<and>
     (\<forall>s. no_exit (pl_finishTuningStep (plug out) s)) \<and> (\<forall>s. no_exit (pl_tuningFinished (plug out) s)) \<and>
     (\<forall>s. no_exit (pl_getAdvice (plug out) s)) \<and> (\<forall>s. no_exit (pl_finalize (plug out) s)) \<and>
     (\<forall>a f e. no_exit (communicate out a f e)) \<and> (\<forall>c e. no_exit (call out c e)) \<and>
     (\<forall>k t s. no_exit (timer_callback out k t s))"

definition stays :: "autotune_state \<Rightarrow> ('p, 'e) frontend comp \<Rightarrow> bool" where
  "stays m c \<longleftrightarrow> post c (\<lambda>d. msm d = m) (\<lambda>e. e \<noteq> ExitFailure)"

named_theorems stays_intros

lemma post_no_exit: "no_exit c \<Longrightarrow> post c (\<lambda>_. True) (\<lambda>e. e \<noteq> ExitFailure)"
  by (auto simp: no_exit_def post_def)

lemma stays_ret [stays_intros]: "msm d = m \<Longrightarrow> stays m (ret d)"
  by (simp add: stays_def)

lemma stays_fail [stays_intros]: "e \<noteq> ExitFailure \<Longrightarrow> stays m (fail e)"
  by (simp add: stays_def)

lemma stays_bind [stays_intros]: "stays m c \<Longrightarrow> (\<And>d. msm d = m \<Longrightarrow> stays m (f d)) \<Longrightarrow> stays m (cbind c f)"
  unfolding stays_def by (rule post_bind)

lemma stays_bind_other: "no_exit c \<Longrightarrow> (\<And>x. stays m (f x)) \<Longrightarrow> stays m (cbind c f)"
  unfolding stays_def by (rule post_bind [OF post_no_exit]) auto

text \<open>The same rule at the types of the other computations the actions run.\<close>

lemmas stays_bind_others [stays_intros] =
  stays_bind_other [where c = "c :: ('x \<times> 'y) comp" for c]
  stays_bind_other [where c = "c :: int comp" for c]
  stays_bind_other [where c = "c :: unit comp" for c]
  stays_bind_other [where c = "c :: scenario_pool_set comp" for c]
  stays_bind_other [where c = "c :: 'p side comp" for c]

lemma stays_check [stays_intros]: "e \<noteq> ExitFailure \<Longrightarrow> (b \<Longrightarrow> stays m c) \<Longrightarrow> stays m (check b e c)"
  by (simp add: check_def stays_def)

lemma stays_if [stays_intros]: "(b \<Longrightarrow> stays m c) \<Longrightarrow> (\<not> b \<Longrightarrow> stays m d) \<Longrightarrow> stays m (if b then c else d)"
  by simp

lemma stays_case_option [stays_intros]:
  "(x = None \<Longrightarrow> stays m c) \<Longrightarrow> (\<And>y. x = Some y \<Longrightarrow> stays m (f y)) \<Longrightarrow> stays m (case x of None \<Rightarrow> c | Some y \<Rightarrow> f y)"
  by (cases x) auto

lemma no_exit_atoi [simp]: "no_exit (c_atoi s)"
  by (simp add: no_exit_def c_atoi_def Let_def split: option.split if_split prod.split)

lemma no_exit_stoi [simp]: "no_exit (std_stoi s)"
  by (simp add: no_exit_def std_stoi_def Let_def split: option.split if_split prod.split)

lemma stays_fe_call [stays_intros]: "calm out \<Longrightarrow> msm d = m \<Longrightarrow> stays m (fe_call out c d)"
  unfolding fe_call_def by (rule stays_bind_other) (auto simp: calm_def intro: stays_ret)

lemma stays_comm [stays_intros]: "calm out \<Longrightarrow> msm d = m \<Longrightarrow> stays m (ace_communication_phase out opts a d)"
  unfolding ace_communication_phase_def by (rule stays_bind_other) (auto simp: calm_def intro: stays_ret)

lemma stays_timers [stays_intros]: "calm out \<Longrightarrow> msm d = m \<Longrightarrow> stays m (handle_timers out d)"
  by (auto simp: handle_timers_def calm_def split: prod.split intro!: stays_intros stays_bind_other)

lemma stays_timeout [stays_intros]: "msm d = m \<Longrightarrow> stays m (increment_global_timeout opts d)"
  by (auto simp: increment_global_timeout_def intro!: stays_intros)

lemma stays_push [stays_intros]: "calm out \<Longrightarrow> msm d = m \<Longrightarrow> stays m (pushStrategyRequest out opts r d)"
  by (auto simp: pushStrategyRequest_def intro!: stays_intros)

lemma stays_restart [stays_intros]: "calm out \<Longrightarrow> msm d = m \<Longrightarrow> stays m (restart_sequence out opts p r d)"
  unfolding restart_sequence_def
  by (intro stays_intros; simp add: stays_ret split: if_split; intro stays_intros impI; simp)

lemma stays_loop [stays_intros]:
  assumes "msm d = m"
    and "\<And>d. msm d = m \<Longrightarrow> post (body d) (\<lambda>(again, d'). msm d' = m) (\<lambda>e. e \<noteq> ExitFailure)"
  shows "stays m (loop body d)"
  unfolding stays_def by (rule post_loop [where I = "\<lambda>d. msm d = m"]) (use assms in auto)

lemma stays_agents_then [stays_intros]:
  "calm out \<Longrightarrow> msm d = m \<Longrightarrow> stays m (agents_then_application_start out opts d)"
  unfolding agents_then_application_start_def
  by (auto intro!: stays_intros)
    (auto intro!: post_bind [OF stays_comm [unfolded stays_def]])

lemma stays_application_then [stays_intros]:
  "calm out \<Longrightarrow> msm d = m \<Longrightarrow> stays m (application_then_agents_start out d)"
  unfolding application_then_agents_start_def by (auto intro!: stays_intros)

lemma stays_call_tree [stays_intros]: "calm out \<Longrightarrow> msm d = m \<Longrightarrow> stays m (setup_call_tree out opts d)"
  unfolding setup_call_tree_def by (auto intro!: stays_intros)

lemma stays_gather [stays_intros]: "calm out \<Longrightarrow> msm d = m \<Longrightarrow> stays m (gather_regions out opts d)"
  unfolding gather_regions_def
  by (rule stays_bind_other) (auto intro!: stays_intros simp: no_exit_def [of "ret _"] split: option.split)

lemma stays_start [stays_intros]:
  "calm out \<Longrightarrow> msm d = m \<Longrightarrow> stays m (start_application_and_agent_network out opts d)"
  unfolding start_application_and_agent_network_def by (auto intro!: stays_intros)

lemma stays_on_side [stays_intros]: "(\<And>s. no_exit (f s)) \<Longrightarrow> msm d = m \<Longrightarrow> stays m (on_side f d)"
  unfolding on_side_def by (rule stays_bind_other) (auto intro: stays_intros)

lemma msm_set_pools [simp]: "msm (set_pools ps d) = msm d"
  by (simp add: set_pools_def)

lemma calm_plugin:
  assumes "calm out"
  shows "no_exit (pl_initialize (plug out) s)" "no_exit (pl_startTuningStep (plug out) s)"
    "no_exit (pl_analysisRequired (plug out) s)" "no_exit (pl_createScenarios (plug out) s)"
    "no_exit (pl_prepareScenarios (plug out) s)" "no_exit (pl_defineExperiment (plug out) n r)"
    "no_exit (pl_restartRequired (plug out) q s)" "no_exit (pl_searchFinished (plug out) s)"
    "no_exit (pl_finishTuningStep (plug out) s)" "no_exit (pl_tuningFinished (plug out) s)"
    "no_exit (pl_getAdvice (plug out) s)" "no_exit (pl_finalize (plug out) s)"
  using assms by (simp_all only: calm_def simp_thms)

lemma stays_initialize [stays_intros]: "calm out \<Longrightarrow> msm d = m \<Longrightarrow> stays m (initialize_plugin_action out opts d)"
  unfolding initialize_plugin_action_def by (auto intro!: stays_intros calm_plugin)

lemma stays_start_step [stays_intros]: "calm out \<Longrightarrow> msm d = m \<Longrightarrow> stays m (start_tuning_step_action out d)"
  unfolding start_tuning_step_action_def by (auto intro!: stays_intros calm_plugin)

lemma stays_analysis [stays_intros]: "calm out \<Longrightarrow> msm d = m \<Longrightarrow> stays m (perform_analysis_action out opts r n d)"
  unfolding perform_analysis_action_def by (auto intro!: stays_intros simp: drain_preanalysis_def Let_def)

lemma stays_create [stays_intros]: "calm out \<Longrightarrow> msm d = m \<Longrightarrow> stays m (create_scenarios_action out d)"
  unfolding create_scenarios_action_def by (auto intro!: stays_intros calm_plugin)

lemma stays_prepare [stays_intros]: "calm out \<Longrightarrow> msm d = m \<Longrightarrow> stays m (prepare_scenarios_action out d)"
  unfolding prepare_scenarios_action_def by (auto intro!: stays_intros calm_plugin)

lemma stays_define [stays_intros]: "calm out \<Longrightarrow> msm d = m \<Longrightarrow> stays m (define_experiment_action out opts d)"
  unfolding define_experiment_action_def
  by (auto intro!: stays_intros calm_plugin split: prod.split)

lemma no_exit_simps [simp]: "no_exit (ret x)" "no_exit None" "no_exit (fail e) \<longleftrightarrow> e \<noteq> ExitFailure"
  by (simp_all add: no_exit_def)

lemma no_exit_pop [simp]: "no_exit (ScenarioPool_pop p)"
  by (simp add: ScenarioPool_pop_def split: list.split)

lemma no_exit_srp_push [simp]: "no_exit (fst (srp_push mp n p))"
  by (simp add: srp_push_def Let_def split: option.split prod.split sum.split)

lemma stays_uninstrumented [stays_intros]: "calm out \<Longrightarrow> msm d = m \<Longrightarrow> stays m (run_uninstrumented out n d)"
  unfolding run_uninstrumented_def
  by (auto simp: Let_def split_beta intro!: stays_intros)

lemma stays_restart_application [stays_intros]:
  "calm out \<Longrightarrow> msm d = m \<Longrightarrow> stays m (restart_application out opts r p d)"
  unfolding restart_application_def by (intro stays_intros) simp_all

lemma stays_consider [stays_intros]:
  assumes "calm out" and "msm d = m"
  shows "stays m (consider_restart_action out opts n d)"
  unfolding consider_restart_action_def
proof (rule stays_bind)
  show "stays m (handle_timers out d)" using assms by (rule stays_timers)
  fix d :: "('a, 'b) frontend"
  assume d: "msm d = m"
  show "stays m (cbind (pl_restartRequired (plug out) ('''', mpinumprocs_val d, app_run_string d, True) (side d))
      (\<lambda>(restart_required, (env, numprocs, command, instrumented), s).
       if numprocs \<le> 0 then fail Throw0
       else if command \<noteq> app_run_string d \<and> command = '''' then fail Throw0
       else
         let d' = d\<lparr>side := s, is_instrumented := instrumented, mpinumprocs_val := numprocs,
                    app_run_string := command, user_specified_environment := env\<rparr>
         in if instrumented
            then restart_application out opts restart_required (numprocs \<noteq> mpinumprocs_val d) d'
            else run_uninstrumented out n d'))"
    by (rule stays_bind_other [OF calm_plugin(7) [OF assms(1)]])
      (use assms d in \<open>auto simp: Let_def intro!: stays_intros\<close>)
qed

lemma no_exit_cbind: "no_exit c \<Longrightarrow> (\<And>x. no_exit (f x)) \<Longrightarrow> no_exit (cbind c f)"
  by (auto simp: no_exit_def cbind_eq_fail)

lemma no_exit_loop:
  assumes "\<And>s. no_exit (body s)"
  shows "no_exit (loop body s)"
proof -
  have "post (loop body s) (\<lambda>_. True) (\<lambda>e. e \<noteq> ExitFailure)"
    by (rule post_loop [where I = "\<lambda>_. True"])
      (use assms in \<open>auto simp: no_exit_def post_def split: prod.split\<close>)
  then show ?thesis by (auto simp: no_exit_def post_def)
qed

lemma stays_prepare_request [stays_intros]:
  assumes "calm out" and "msm d = m"
  shows "stays m (prepare_request out opts d)"
  unfolding prepare_request_def createStrategyRequest_def cbind_assoc
  by (rule stays_bind_other)
    (use assms in \<open>auto simp: experiment_body_def split_beta Let_def split: option.split
      intro!: no_exit_loop no_exit_cbind stays_intros\<close>)

lemma no_exit_cfold: "(\<And>x s. no_exit (f x s)) \<Longrightarrow> no_exit (cfold f xs s)"
  by (induction xs arbitrary: s) (auto intro: no_exit_cbind)

lemma stays_drain [stays_intros]: "msm d = m \<Longrightarrow> stays m (drain_experiment n k d)"
  unfolding drain_experiment_def
  by (rule stays_bind_other)
    (auto intro!: no_exit_cfold no_exit_cbind stays_intros simp: store_property_def Let_def split_beta)

lemma stays_run [stays_intros]: "calm out \<Longrightarrow> msm d = m \<Longrightarrow> stays m (run_phase_experiments_action out opts n k d)"
  unfolding run_phase_experiments_action_def
  by (auto intro!: stays_intros)

lemma stays_finish [stays_intros]: "calm out \<Longrightarrow> msm d = m \<Longrightarrow> stays m (finish_tuning_step_action out d)"
  unfolding finish_tuning_step_action_def by (auto intro!: stays_intros calm_plugin)

lemma stays_advice [stays_intros]: "calm out \<Longrightarrow> msm d = m \<Longrightarrow> stays m (create_tuning_advice_action out d)"
  unfolding create_tuning_advice_action_def
  by (auto intro!: stays_intros stays_bind_other calm_plugin split: prod.split)

lemma stays_finalize [stays_intros]: "calm out \<Longrightarrow> msm d = m \<Longrightarrow> stays m (finalize_autotuning_action out d)"
  unfolding finalize_autotuning_action_def by (auto intro!: stays_intros calm_plugin)

section \<open>The contract of a plugin\<close>

text \<open>
  What the loops of the driver need of a plugin so that no invalid event arises: it does not exit by
  itself; when it creates no scenario then it is \<open>done\<close> and says so at the next \<open>searchFinished\<close>; and
  after a search step that was not the last one it is \<open>going on\<close>, where it asks for no analysis.
\<close>

locale tuning_plugin =
  fixes P :: "'p plugin"
    and is_done :: "'p side \<Rightarrow> bool"
    and going_on :: "'p side \<Rightarrow> bool"
  assumes create_law: "pl_createScenarios P s = ret s' \<Longrightarrow> csp (pool_set (tuning_world s')) = [] \<Longrightarrow> is_done s'"
    and done_law: "is_done s \<Longrightarrow> pl_searchFinished P s = ret (b, s') \<Longrightarrow> b"
    and going_on_law: "pl_searchFinished P s = ret (False, s') \<Longrightarrow> going_on s'"
    and analysis_law: "going_on s \<Longrightarrow> pl_analysisRequired P s = ret (b, r, s') \<Longrightarrow> \<not> b"

lemmas transition_simps = transition_table_def transition_rows_def

abbreviation no_invalid :: "cxx_error \<Rightarrow> bool" where
  "no_invalid \<equiv> (\<lambda>e. e \<noteq> ExitFailure)"

lemma post_event:
  assumes "transition_table (msm d) ev = Some t" and "stays (msm d) (action d)"
  shows "post (process_event ev action d) (\<lambda>d'. msm d' = t) no_invalid"
  unfolding process_event_def
  using assms by (auto simp: stays_def intro!: post_bind [where I = "\<lambda>_. True"] elim: post_conseq)

lemma post_other: "no_exit c \<Longrightarrow> (\<And>x. c = ret x \<Longrightarrow> post (f x) Q no_invalid) \<Longrightarrow> post (cbind c f) Q no_invalid"
  by (cases c rule: comp_cases) auto

lemma no_exit_incr [simp]: "no_exit (incr i)"
  by (simp add: incr_def check_def)

lemma post_runs:
  assumes "calm out" and "msm d = ConsideringApplicationRestart \<or> msm d = RunningPhaseExperiments"
  shows "post (loop (run_body out opts) d) (\<lambda>d. msm d = RunningPhaseExperiments) no_invalid"
proof (rule post_loop [where I = "\<lambda>d. msm d = ConsideringApplicationRestart \<or> msm d = RunningPhaseExperiments"])
  show "msm d = ConsideringApplicationRestart \<or> msm d = RunningPhaseExperiments" by (rule assms(2))
  fix d :: "('a, 'b) frontend"
  assume "msm d = ConsideringApplicationRestart \<or> msm d = RunningPhaseExperiments"
  then have "post (process_event run_phase_experiments
      (run_phase_experiments_action out opts (search_step d) (experiment_count d)) d)
      (\<lambda>d. msm d = RunningPhaseExperiments) no_invalid"
    by (intro post_event stays_run [OF assms(1)]) (auto simp: transition_simps)
  then show "post (run_body out opts d) (\<lambda>(again, d). if again
      then msm d = ConsideringApplicationRestart \<or> msm d = RunningPhaseExperiments
      else msm d = RunningPhaseExperiments) no_invalid"
    unfolding run_body_def by (rule post_bind) auto
qed

lemma post_experiments:
  assumes "calm out" and "msm d = PreparingScenarios \<or> msm d = RunningPhaseExperiments"
  shows "post (loop (experiment_step out opts) d) (\<lambda>d. msm d = RunningPhaseExperiments) no_invalid"
proof (rule post_loop [where I = "\<lambda>d. msm d = PreparingScenarios \<or> msm d = RunningPhaseExperiments"])
  show "msm d = PreparingScenarios \<or> msm d = RunningPhaseExperiments" by (rule assms(2))
  fix d :: "('a, 'b) frontend"
  assume d: "msm d = PreparingScenarios \<or> msm d = RunningPhaseExperiments"
  show "post (experiment_step out opts d) (\<lambda>(again, d). if again
      then msm d = PreparingScenarios \<or> msm d = RunningPhaseExperiments
      else msm d = RunningPhaseExperiments) no_invalid"
    unfolding experiment_step_def
  proof (rule post_bind)
    show "post (process_event define_experiment (define_experiment_action out opts) d)
        (\<lambda>d. msm d = DefiningExperiments) no_invalid"
      by (intro post_event stays_define [OF assms(1)]) (use d in \<open>auto simp: transition_simps\<close>)
    fix d :: "('a, 'b) frontend"
    assume d: "msm d = DefiningExperiments"
    have "post (process_event consider_restart (consider_restart_action out opts (search_step d)) d)
        (\<lambda>d. msm d = ConsideringApplicationRestart) no_invalid"
      by (intro post_event stays_consider [OF assms(1)]) (use d in \<open>auto simp: transition_simps\<close>)
    then show "post (cbind (process_event consider_restart (consider_restart_action out opts (search_step d)) d)
        (\<lambda>d. cbind (loop (run_body out opts) d) (\<lambda>d. cbind (incr (experiment_count d)) (\<lambda>n.
          ret (\<not> ScenarioPool_empty (psp (fe_pools d)), d\<lparr>experiment_count := n\<rparr>)))))
        (\<lambda>(again, d). if again then msm d = PreparingScenarios \<or> msm d = RunningPhaseExperiments
          else msm d = RunningPhaseExperiments) no_invalid"
      by (rule post_bind, intro post_bind [OF post_runs [OF assms(1)]]) (auto intro!: post_other)
  qed
qed

lemma post_prepare:
  assumes "calm out" and "msm d = CreatingScenarios \<and> D d \<or> msm d = RunningPhaseExperiments"
    and D: "\<And>d. D d \<Longrightarrow> csp (fe_pools d) = [] \<longrightarrow> is_done (side d)"
  shows "post (loop (prepare_step out opts) d)
    (\<lambda>d. msm d = CreatingScenarios \<and> is_done (side d) \<or> msm d = RunningPhaseExperiments) no_invalid"
proof (rule post_loop [where I = "\<lambda>d. msm d = CreatingScenarios \<and> D d \<or> msm d = RunningPhaseExperiments"])
  show "msm d = CreatingScenarios \<and> D d \<or> msm d = RunningPhaseExperiments" by (rule assms(2))
  fix d :: "('a, 'b) frontend"
  assume d: "msm d = CreatingScenarios \<and> D d \<or> msm d = RunningPhaseExperiments"
  have "post (process_event prepare_scenarios (prepare_scenarios_action out) d)
      (\<lambda>d. msm d = PreparingScenarios) no_invalid"
    by (intro post_event stays_prepare [OF assms(1)]) (use d in \<open>auto simp: transition_simps\<close>)
  then have "post (cbind (process_event prepare_scenarios (prepare_scenarios_action out) d)
      (\<lambda>d. cbind (loop (experiment_step out opts) d) (\<lambda>d. ret (True, d))))
      (\<lambda>(again, d). again \<and> msm d = RunningPhaseExperiments) no_invalid"
    by (rule post_bind) (auto intro!: post_bind [OF post_experiments [OF assms(1)]])
  then show "post (prepare_step out opts d) (\<lambda>(again, d). if again
      then msm d = CreatingScenarios \<and> D d \<or> msm d = RunningPhaseExperiments
      else msm d = CreatingScenarios \<and> is_done (side d) \<or> msm d = RunningPhaseExperiments) no_invalid"
    unfolding prepare_step_def using d D
    by (auto simp: ScenarioPool_empty_def elim!: post_conseq split: if_splits)
qed

context tuning_plugin
begin

text \<open>The state in which a search step may begin.\<close>

definition step_ready :: "('p, 'e) frontend \<Rightarrow> bool" where
  "step_ready d \<longleftrightarrow> msm d = StartingTuningStep \<or> msm d = RunningPhaseExperiments \<and> going_on (side d)"

lemma post_analysis:
  fixes out :: "('p, 'e) outside"
  assumes "calm out" and "plug out = P" and "step_ready d"
  shows "post (analysis_phase out opts d)
    (\<lambda>d. msm d \<in> {StartingTuningStep, PerformingAnalysis, RunningPhaseExperiments}) no_invalid"
proof -
  have "post (case strategy of None \<Rightarrow> fail Abort
      | Some r \<Rightarrow> cbind (process_event perform_analysis (perform_analysis_action out opts r (tuning_step d))
                       (d\<lparr>side := s, strategy_opt := strategy_name (general_info r)\<rparr>)) (\<lambda>d.
                ret (d\<lparr>strategy_opt := ''tune''\<rparr>)))
      (\<lambda>d. msm d \<in> {StartingTuningStep, PerformingAnalysis, RunningPhaseExperiments}) no_invalid"
    if "pl_analysisRequired P (side d) = ret (True, strategy, s)" for strategy s
  proof (cases strategy)
    case (Some r)
    have "msm d = StartingTuningStep" using assms(3) that analysis_law by (fastforce simp: step_ready_def)
    then have "post (process_event perform_analysis (perform_analysis_action out opts r (tuning_step d))
        (d\<lparr>side := s, strategy_opt := strategy_name (general_info r)\<rparr>)) (\<lambda>d. msm d = PerformingAnalysis) no_invalid"
      by (intro post_event stays_analysis [OF assms(1)]) (auto simp: transition_simps)
    then show ?thesis unfolding Some option.case by (rule post_bind) simp
  qed simp
  then show ?thesis
    unfolding analysis_phase_def
    by (intro post_other calm_plugin assms(1))
      (use assms(2,3) in \<open>auto simp: step_ready_def\<close>)
qed

lemma post_search:
  fixes out :: "('p, 'e) outside"
  assumes "calm out" and "plug out = P" and "step_ready d"
  shows "post (search_body out opts d) (\<lambda>(again, d). if again then step_ready d
    else msm d = CreatingScenarios \<or> msm d = RunningPhaseExperiments) no_invalid"
  unfolding search_body_def
proof (rule post_bind [OF post_analysis [OF assms]])
  fix d :: "('p, 'e) frontend"
  assume d: "msm d \<in> {StartingTuningStep, PerformingAnalysis, RunningPhaseExperiments}"
  let ?D = "\<lambda>d :: ('p, 'e) frontend. csp (fe_pools d) = [] \<longrightarrow> is_done (side d)"
  have "post (create_scenarios_action out d) ?D no_invalid"
    unfolding create_scenarios_action_def on_side_def
    by (rule post_bind [where I = "\<lambda>_. True"])
      (use assms(1,2) stays_timers [OF assms(1) refl, of d] create_law in
        \<open>auto simp: stays_def calm_plugin fe_pools_def intro!: post_other elim: post_conseq\<close>)
  then have create: "post (process_event create_scenarios (create_scenarios_action out) d)
      (\<lambda>d. msm d = CreatingScenarios \<and> ?D d) no_invalid"
    unfolding process_event_def using d
    by (auto simp: transition_simps fe_pools_def intro!: post_bind [where I = ?D])
  have finish: "post (cbind (incr (search_step d)) (\<lambda>n. cbind (pl_searchFinished (plug out) (side d))
      (\<lambda>(finished, s). ret (\<not> finished, d\<lparr>search_step := n, side := s\<rparr>))))
      (\<lambda>(again, d). if again then step_ready d else msm d = CreatingScenarios \<or> msm d = RunningPhaseExperiments) no_invalid"
    if "msm d = CreatingScenarios \<and> is_done (side d) \<or> msm d = RunningPhaseExperiments" for d :: "('p, 'e) frontend"
    by (intro post_other no_exit_incr calm_plugin assms(1))
      (use that assms(2) done_law going_on_law in \<open>fastforce simp: step_ready_def\<close>)
  show "post (cbind (process_event create_scenarios (create_scenarios_action out) d) (\<lambda>d.
      cbind (loop (prepare_step out opts) d) (\<lambda>d. cbind (incr (search_step d)) (\<lambda>n.
      cbind (pl_searchFinished (plug out) (side d)) (\<lambda>(finished, s).
      ret (\<not> finished, d\<lparr>search_step := n, side := s\<rparr>))))))
      (\<lambda>(again, d). if again then step_ready d else msm d = CreatingScenarios \<or> msm d = RunningPhaseExperiments) no_invalid"
    by (rule post_bind [OF create], rule post_bind [OF post_prepare [OF assms(1), where D = ?D and is_done = is_done]],
        blast, blast, rule finish)
qed

lemma post_tuning:
  fixes out :: "('p, 'e) outside"
  assumes "calm out" and "plug out = P" and "msm d = InitializingPlugin \<or> msm d = FinishingTuningStep"
  shows "post (tuning_body out opts d) (\<lambda>(again, d). msm d = FinishingTuningStep) no_invalid"
  unfolding tuning_body_def
proof (rule post_bind)
  show "post (process_event start_tuning_step (start_tuning_step_action out) d)
      (\<lambda>d. msm d = StartingTuningStep) no_invalid"
    by (intro post_event stays_start_step [OF assms(1)]) (use assms(3) in \<open>auto simp: transition_simps\<close>)
  fix d :: "('p, 'e) frontend"
  assume "msm d = StartingTuningStep"
  then have "post (loop (search_body out opts) d)
      (\<lambda>d. msm d = CreatingScenarios \<or> msm d = RunningPhaseExperiments) no_invalid"
    by (intro post_loop [where I = step_ready] post_search [OF assms(1,2)]) (auto simp: step_ready_def)
  then show "post (cbind (loop (search_body out opts) d) (\<lambda>d.
      cbind (process_event finish_tuning_step (finish_tuning_step_action out) d) (\<lambda>d.
      cbind (incr (tuning_step d)) (\<lambda>n. cbind (pl_tuningFinished (plug out) (side d)) (\<lambda>(finished, s).
        ret (\<not> finished, d\<lparr>tuning_step := n, side := s\<rparr>))))))
      (\<lambda>(again, d). msm d = FinishingTuningStep) no_invalid"
  proof (rule post_bind)
    fix d :: "('p, 'e) frontend"
    assume "msm d = CreatingScenarios \<or> msm d = RunningPhaseExperiments"
    then have "post (process_event finish_tuning_step (finish_tuning_step_action out) d)
        (\<lambda>d. msm d = FinishingTuningStep) no_invalid"
      by (intro post_event stays_finish [OF assms(1)]) (auto simp: transition_simps)
    then show "post (cbind (process_event finish_tuning_step (finish_tuning_step_action out) d) (\<lambda>d.
        cbind (incr (tuning_step d)) (\<lambda>n. cbind (pl_tuningFinished (plug out) (side d)) (\<lambda>(finished, s).
          ret (\<not> finished, d\<lparr>tuning_step := n, side := s\<rparr>)))))
        (\<lambda>(again, d). msm d = FinishingTuningStep) no_invalid"
      by (rule post_bind) (auto intro!: post_other calm_plugin assms(1))
  qed
qed

theorem driver_follows_machine:
  fixes out :: "('p, 'e) outside"
  assumes "calm out" and "plug out = P"
  shows "post (run_tuning_plugin out opts d)
    (\<lambda>d'. msm d' = FinalState \<and> tuning_plugin_executed d') no_invalid"
proof -
  let ?d = "d\<lparr>msm := InitialState, tuning_step := 0, search_step := 0, experiment_count := 0, executed := True\<rparr>"
  have init: "post (process_event initialize_plugin (initialize_plugin_action out opts) ?d)
      (\<lambda>d. msm d = InitializingPlugin) no_invalid"
    by (intro post_event stays_initialize [OF assms(1)]) (simp_all add: transition_simps)
  have tune: "post (loop (tuning_body out opts) d) (\<lambda>d. msm d = FinishingTuningStep) no_invalid"
    if "msm d = InitializingPlugin" for d :: "('p, 'e) frontend"
    by (rule post_loop [where I = "\<lambda>d. msm d = InitializingPlugin \<or> msm d = FinishingTuningStep"])
      (use that in \<open>auto intro!: post_conseq [OF post_tuning [OF assms]]\<close>)
  have advice: "post (process_event create_tuning_advice (create_tuning_advice_action out) d)
      (\<lambda>d. msm d = CreatingTuningAdvice) no_invalid" if "msm d = FinishingTuningStep" for d :: "('p, 'e) frontend"
    by (intro post_event stays_advice [OF assms(1)]) (use that in \<open>simp_all add: transition_simps\<close>)
  have final: "post (process_event finalize_autotuning (finalize_autotuning_action out) d)
      (\<lambda>d. msm d = FinalState) no_invalid" if "msm d = CreatingTuningAdvice" for d :: "('p, 'e) frontend"
    by (intro post_event stays_finalize [OF assms(1)]) (use that in \<open>simp_all add: transition_simps\<close>)
  have "post (cbind (process_event initialize_plugin (initialize_plugin_action out opts) ?d) (\<lambda>d.
       cbind (loop (tuning_body out opts) d) (\<lambda>d.
       cbind (process_event create_tuning_advice (create_tuning_advice_action out) d) (\<lambda>d.
       cbind (process_event finalize_autotuning (finalize_autotuning_action out) d) (\<lambda>d.
         ret (d\<lparr>tuning_plugin_executed := True\<rparr>))))))
       (\<lambda>d'. msm d' = FinalState \<and> tuning_plugin_executed d') no_invalid" (is "post ?c _ _")
    by (rule post_bind [OF init], rule post_bind [OF tune], assumption, rule post_bind [OF advice], assumption,
        rule post_bind [OF final]) auto
  then show ?thesis
    unfolding run_tuning_plugin_def
    by (cases ?c rule: comp_cases) (auto simp: catch_std_def fail_def ret_def post_def)
qed

end

section \<open>Where the contract is needed\<close>

text \<open>A frontend that has just been built, around a plugin's side and an outside state.\<close>

definition fresh_frontend :: "'p side \<Rightarrow> 'e \<Rightarrow> ('p, 'e) frontend" where
  "fresh_frontend s e =
    \<lparr>side = s, ext = e, msm = InitialState, tuning_step = 0, search_step = 0, experiment_count = 0,
     executed = True, just_started = True, is_instrumented = True, scenarios_executed = True,
     analysis_per_experiment = False, prepared_request = None, analysis_request = None,
     new_properties_index = 0, metaproperties = [], need_restart = False, agent_hierarchy_started = False,
     shutdown_allowed = True, mpinumprocs_val = 1, app_run_string = ''./app'',
     user_specified_environment = '''', global_timeout = 0, strategy_opt = ''tune'', tuning_plugin_executed = False\<rparr>"

text \<open>A plugin that does nothing but ask, or not ask, for an analysis.\<close>

definition idle_plugin :: "bool \<Rightarrow> unit plugin" where
  "idle_plugin ask =
     \<lparr>pl_initialize = ret, pl_startTuningStep = ret,
      pl_analysisRequired = (\<lambda>s. ret (ask, Some (new_StrategyRequest ANALYSIS (importance_info 0)), s)),
      pl_createScenarios = ret, pl_prepareScenarios = ret, pl_defineExperiment = (\<lambda>n. ret),
      pl_restartRequired = (\<lambda>q s. ret (False, q, s)), pl_searchFinished = (\<lambda>s. ret (False, s)),
      pl_finishTuningStep = ret, pl_tuningFinished = (\<lambda>s. ret (True, s)),
      pl_getAdvice = (\<lambda>s. ret (None, s)), pl_finalize = ret\<rparr>"

definition silent_outside :: "'p plugin \<Rightarrow> ('p, unit) outside" where
  "silent_outside P =
     \<lparr>plug = P,
      communicate = (\<lambda>a f e. ret (\<lparr>received = [], restart_needed = False, hierarchy_up = True\<rparr>, e)),
      call = (\<lambda>c e. ret e), psc_wall_time = (\<lambda>e. (dbl_of_int 0, e)), timer_callback = (\<lambda>k t s. ret s)\<rparr>"

definition example_opts :: options where
  "example_opts = \<lparr>fastmode = False, timeout_delta = 1, has_plugin = True, applUninstrumented = False,
     with_rts_support = True, mpinumprocs_string = ''1'', delay_string = None, config_objectives = None\<rparr>"

definition idle_side :: "unit side" where
  "idle_side = \<lparr>plugin_state = (), tuning_world = \<lparr>pool_set = new_ScenarioPoolSet, next_scenario_id = 0,
     tp_heap = (\<lambda>_. example_tp 0 0 1)\<rparr>, timers = []\<rparr>"

text \<open>
  C15: The driver's search loop and the transition table disagree on a schedule that \<open>IPlugin\<close> allows:
  when a plugin asks for an analysis again in a later search step of the same tuning step, the
  search step ends the program with an invalid event.
\<close>

theorem later_analysis_is_invalid:
  assumes "msm d = RunningPhaseExperiments" and "pl_analysisRequired (plug out) (side d) = ret (True, Some r, s)"
  shows "search_body out opts d = fail ExitFailure"
  using assms by (simp add: search_body_def analysis_phase_def process_event_def transition_simps)

theorem later_analysis_is_invalid_witness:
  "search_body (silent_outside (idle_plugin True)) example_opts
     ((fresh_frontend idle_side ())\<lparr>msm := RunningPhaseExperiments\<rparr>) = fail ExitFailure"
  by (rule later_analysis_is_invalid) (simp_all add: silent_outside_def idle_plugin_def)

text \<open>
  A plugin that created no scenario in one search step but is not finished: the next search step
  ends the program with an invalid event.
\<close>

theorem empty_search_step_is_invalid:
  assumes "msm d = CreatingScenarios" and "pl_analysisRequired (plug out) (side d) = ret (False, r, s)"
  shows "search_body out opts d = fail ExitFailure"
  using assms by (simp add: search_body_def analysis_phase_def process_event_def transition_simps)

theorem empty_search_step_is_invalid_witness:
  "run_tuning_plugin (silent_outside (idle_plugin False)) example_opts (fresh_frontend idle_side ()) = fail ExitFailure \<and>
   search_body (silent_outside (idle_plugin False)) example_opts
     ((fresh_frontend idle_side ())\<lparr>msm := CreatingScenarios\<rparr>) = fail ExitFailure"
proof
  show "run_tuning_plugin (silent_outside (idle_plugin False)) example_opts (fresh_frontend idle_side ()) = fail ExitFailure"
    unfolding failed_with_iff [symmetric] by code_simp
  show "search_body (silent_outside (idle_plugin False)) example_opts
     ((fresh_frontend idle_side ())\<lparr>msm := CreatingScenarios\<rparr>) = fail ExitFailure"
    by (rule empty_search_step_is_invalid) (simp_all add: silent_outside_def idle_plugin_def)
qed

end
