(* ===== verification/Exhaustive.thy ===== *)
theory Exhaustive
  imports SearchCommon
begin

text \<open>
  The exhaustive search (\<open>autotune/searchalgorithms/exhaustive\<close>): it walks through every setting of
  every tuning parameter of every search space, makes one scenario of each combination, and when the
  experiments are done picks the best and the worst by the first objective function.

  The walk is two mutually recursive functions in the code; \<open>iterate_TP\<close> takes the continuation of
  its innermost level (the rest of the search spaces) as an argument here. The map \<open>VariantSS\<close> is
  shared by all levels of \<open>iterate_TP\<close> and overwritten in place, so it is threaded; the list \<open>ts\<close> is
  pushed and popped around the recursive call, so the callee's argument is the extended list and the
  caller keeps the old one.
\<close>

section \<open>State\<close>

record exhaustive =
  searchSpaces :: "search_space list"
  results :: search_results
  scenarioIds :: "int list"
  objectiveFunctions :: "objective_function list"

definition new_ExhaustiveSearch :: exhaustive where
  "new_ExhaustiveSearch =
     \<lparr>searchSpaces = [], results = no_results, scenarioIds = [], objectiveFunctions = []\<rparr>"

definition ex_addObjectiveFunction :: "objective_function \<Rightarrow> exhaustive \<Rightarrow> exhaustive" where
  "ex_addObjectiveFunction f s = s\<lparr>objectiveFunctions := objectiveFunctions s @ [f]\<rparr>"

definition ex_addSearchSpace :: "search_space \<Rightarrow> exhaustive \<Rightarrow> exhaustive" where
  "ex_addSearchSpace ss s = s\<lparr>searchSpaces := searchSpaces s @ [ss]\<rparr>"

text \<open>\<open>clear\<close> leaves the queue of scenarios alone.\<close>

definition ex_clear :: "exhaustive \<Rightarrow> exhaustive" where
  "ex_clear s = s\<lparr>results := no_results, searchSpaces := [], objectiveFunctions := []\<rparr>"

definition ex_getSearchPath :: "exhaustive \<Rightarrow> (int, dbl) smap" where
  "ex_getSearchPath s = path (results s)"

definition ex_getOptimum :: "exhaustive \<Rightarrow> int comp" where
  "ex_getOptimum s =
     (if optimum (results s) = - 1 then fail Abort
      else check (sm_has (path (results s)) (optimum (results s))) Abort (ret (optimum (results s))))"

definition ex_getWorst :: "exhaustive \<Rightarrow> int comp" where
  "ex_getWorst s =
     (if worst (results s) = - 1 then fail Abort
      else check (sm_has (path (results s)) (worst (results s))) Abort (ret (worst (results s))))"

section \<open>Creating the scenarios\<close>

text \<open>\<open>for( int i = from; i <= to; i += step )\<close>, with the overflow of \<open>i += step\<close>.\<close>

definition range_body :: "int \<Rightarrow> int \<Rightarrow> (int \<Rightarrow> 's \<Rightarrow> 's comp) \<Rightarrow> int \<times> 's \<Rightarrow> (bool \<times> int \<times> 's) comp" where
  "range_body to step body = (\<lambda>(i, s).
     if i \<le> to
     then cbind (body i s) (\<lambda>s'. check (in_int (i + step)) UB (ret (True, (i + step, s'))))
     else ret (False, (i, s)))"

definition for_range :: "int \<Rightarrow> int \<Rightarrow> int \<Rightarrow> (int \<Rightarrow> 's \<Rightarrow> 's comp) \<Rightarrow> 's \<Rightarrow> 's comp" where
  "for_range from to step body s = cbind (loop (range_body to step body) (from, s)) (\<lambda>(_, s'). ret s')"

text \<open>The values a tuning parameter runs through, in a loop over its range or over its restriction.\<close>

definition is_vector :: "tuning_parameter \<Rightarrow> bool" where
  "is_vector tp = (case tp_restriction tp of None \<Rightarrow> False | Some r \<Rightarrow> restr_type r = 2)"

definition for_values :: "tuning_parameter \<Rightarrow> (int \<Rightarrow> 's \<Rightarrow> 's comp) \<Rightarrow> 's \<Rightarrow> 's comp" where
  "for_values tp body s =
     (case tp_restriction tp of
        Some r \<Rightarrow> if restr_type r = 2 then cfold body (elements r) s
                  else for_range (rangeFrom tp) (rangeTo tp) (rangeStep tp) body s
      | None \<Rightarrow> for_range (rangeFrom tp) (rangeTo tp) (rangeStep tp) body s)"

definition context_entities :: "variant_context \<Rightarrow> string list comp" where
  "context_entities c =
     (case c of PROGRAM \<Rightarrow> fail UB | REGION_LIST es \<Rightarrow> ret es | RTS_LIST es \<Rightarrow> ret es | FILE_LIST es \<Rightarrow> fail UB)"

primrec copy_specifications ::
  "build_env \<Rightarrow> tuning_specification list \<Rightarrow> tuning_specification list comp" where
  "copy_specifications env [] = ret []"
| "copy_specifications env (t # ts) =
     cbind (context_entities (ts_context t)) (\<lambda>es.
     cbind (copy_specifications env ts) (\<lambda>rest.
       ret (TuningSpecification_entities (withRtsSupport env) (ts_variant t) es (uninit_bool env) # rest)))"

definition generatescenario ::
  "build_env \<Rightarrow> tuning_specification list \<Rightarrow> int list \<times> world \<Rightarrow> (int list \<times> world) comp" where
  "generatescenario env ts qw = cbind (copy_specifications env ts) (\<lambda>ts1. ret (add_scenario ts1 qw))"

text \<open>The tuning specification of one variant: for the first rts or the first region of the space.\<close>

definition space_specification :: "build_env \<Rightarrow> search_space \<Rightarrow> variant \<Rightarrow> tuning_specification comp" where
  "space_specification env ss v =
     (if withRtsSupport env
      then TuningSpecification_rtss v (case rtsVector ss of [] \<Rightarrow> [] | r # _ \<Rightarrow> [Some r])
      else case regions ss of [] \<Rightarrow> fail UB | r # _ \<Rightarrow> TuningSpecification_regions v [Some r])"

primrec iterate_TP ::
  "tp_store \<Rightarrow> (variant \<Rightarrow> 's \<Rightarrow> 's comp) \<Rightarrow> tp_ptr list \<Rightarrow> variant \<times> 's \<Rightarrow> (variant \<times> 's) comp" where
  "iterate_TP heap leaf [] = (\<lambda>(VariantSS, s). cbind (leaf VariantSS s) (\<lambda>s'. ret (VariantSS, s')))"
| "iterate_TP heap leaf (tp # tps) =
     for_values (heap tp) (\<lambda>i (VariantSS, s). iterate_TP heap leaf tps (sm_put tp i VariantSS, s))"

primrec iterate_SS ::
  "build_env \<Rightarrow> tp_store \<Rightarrow> search_space list \<Rightarrow> tuning_specification list
     \<Rightarrow> int list \<times> world \<Rightarrow> (int list \<times> world) comp" where
  "iterate_SS env heap [] ts = generatescenario env ts"
| "iterate_SS env heap (ss # sss) ts = (\<lambda>qw.
     cbind (iterate_TP heap
              (\<lambda>variant qw. cbind (space_specification env ss variant) (\<lambda>t. iterate_SS env heap sss (ts @ [t]) qw))
              (tuningParameters (variantSpace ss)) ([], qw))
       (\<lambda>(_, qw'). ret qw'))"

definition ex_createScenarios :: "build_env \<Rightarrow> exhaustive \<Rightarrow> world \<Rightarrow> (exhaustive \<times> world) comp" where
  "ex_createScenarios env s w =
     (let s1 = (if objectiveFunctions s = [] then ex_addObjectiveFunction PTF_min s else s)
      in if searchSpaces s1 = [] then fail Abort
         else cbind (iterate_SS env (tp_heap w) (searchSpaces s1) [] (scenarioIds s1, w)) (\<lambda>(queue, w').
                ret (s1\<lparr>scenarioIds := queue\<rparr>, w')))"

section \<open>Evaluating them\<close>

text \<open>
  One scenario of the queue. Looking the scenario up in the finished pool has no use, but an effect:
  an identifier that is not there is inserted with a null pointer.
\<close>

definition ex_evaluate ::
  "objective_function list \<Rightarrow> int \<Rightarrow> search_results \<times> world \<Rightarrow> (search_results \<times> world) comp" where
  "ex_evaluate fs scenario_id rw = (case rw of (res, w) \<Rightarrow>
     (case fs of [] \<Rightarrow> fail UB
      | f # _ \<Rightarrow>
         cbind (objective f scenario_id (srp (pool_set w))) (\<lambda>objValue.
           let (sc, fsp') = getScenarioByScenarioID scenario_id (fsp (pool_set w))
           in ret (record_value scenario_id objValue res,
                   w\<lparr>pool_set := (pool_set w)\<lparr>fsp := fsp'\<rparr>\<rparr>))))"

definition ex_searchFinished :: "exhaustive \<Rightarrow> world \<Rightarrow> (bool \<times> exhaustive \<times> world) comp" where
  "ex_searchFinished s w =
     cbind (cfold (ex_evaluate (objectiveFunctions s)) (scenarioIds s) (results s, w)) (\<lambda>(res, w').
       ret (True, s\<lparr>results := res, scenarioIds := []\<rparr>, w'))"

section \<open>The loops\<close>

definition range_list :: "int \<Rightarrow> int \<Rightarrow> int \<Rightarrow> int list" where
  "range_list from to step = (if from \<le> to then map (\<lambda>k. from + int k * step) [0..<nat ((to - from) div step) + 1] else [])"

lemma range_list_empty [simp]: "to < from \<Longrightarrow> range_list from to step = []"
  by (simp add: range_list_def)

lemma upt_zero_Suc: "[0..<Suc n] = 0 # map Suc [0..<n]"
  by (metis map_Suc_upt upt_conv_Cons zero_less_Suc)

lemma range_list_step:
  assumes "from \<le> to" and "0 < step"
  shows "range_list from to step = from # range_list (from + step) to step"
proof (cases "from + step \<le> to")
  case True
  let ?n = "nat ((to - (from + step)) div step)"
  have "(to - from) div step = (to - (from + step)) div step + 1"
    using assms(2) div_add_self2 [of step "to - (from + step)"] by simp
  moreover have "0 \<le> (to - (from + step)) div step" using True assms(2) by (simp add: pos_imp_zdiv_nonneg_iff)
  ultimately have n: "nat ((to - from) div step) + 1 = Suc (?n + 1)" by simp
  have "[0..<Suc (?n + 1)] = 0 # map Suc [0..<?n + 1]" by (rule upt_zero_Suc)
  then show ?thesis using True assms
    unfolding range_list_def n by (simp del: upt_Suc add: algebra_simps)
next
  case False
  then have "(to - from) div step = 0" using assms by (simp add: div_pos_pos_trivial)
  then show ?thesis using False assms by (simp add: range_list_def)
qed

lemma set_range_list:
  assumes step: "0 < step"
  shows "i \<in> set (range_list from to step) \<longleftrightarrow> from \<le> i \<and> i \<le> to \<and> step dvd (i - from)"
proof (induction "nat (to - from + 1)" arbitrary: "from" rule: less_induct)
  case less
  show ?case
  proof (cases "from \<le> to")
    case True
    have "i \<in> set (range_list (from + step) to step)
        \<longleftrightarrow> from + step \<le> i \<and> i \<le> to \<and> step dvd (i - (from + step))"
      by (rule less) (use True step in simp)
    moreover have "step dvd (i - (from + step)) \<longleftrightarrow> step dvd (i - from)"
      using dvd_add_left_iff [of step step "i - (from + step)"] by (simp add: algebra_simps)
    moreover have "from + step \<le> i" if "step dvd (i - from)" "from < i"
      using zdvd_imp_le [OF that(1)] that(2) by simp
    ultimately show ?thesis using True step by (auto simp: range_list_step)
  qed auto
qed

text \<open>\<open>R done s\<close> relates the values gone through to the state.\<close>

lemma total_for_range:
  assumes step: "0 < step" and bound: "to + step \<le> INT_MAX" "INT_MIN \<le> from"
    and body: "\<And>done i s. i \<in> set (range_list from to step) \<Longrightarrow> R done s \<Longrightarrow> total (body i s) (R (done @ [i]))"
    and R: "R done s"
  shows "total (for_range from to step body s) (R (done @ range_list from to step))"
  using bound(2) body R
proof (induction "nat (to - from + 1)" arbitrary: "from" s "done" rule: less_induct)
  case less
  show ?case
  proof (cases "from \<le> to")
    case True
    obtain t where b: "body from s = ret t" "R (done @ [from]) t"
      using less.prems(2) [of "from" "done" s] less.prems(3) True step
      by (auto simp: range_list_step total_def)
    have inb: "in_int (from + step)" using True step bound(1) less.prems(1) by (simp add: in_int_def)
    have "total (for_range (from + step) to step body t) (R ((done @ [from]) @ range_list (from + step) to step))"
      by (rule less.hyps) (use True step less.prems b in \<open>auto simp: range_list_step\<close>)
    moreover have "for_range from to step body s = for_range (from + step) to step body t"
      unfolding for_range_def by (subst loop_unfold) (simp add: range_body_def True b inb)
    ultimately show ?thesis using True step by (simp add: range_list_step)
  next
    case False
    have "for_range from to step body s = ret s"
      unfolding for_range_def by (subst loop_unfold) (simp add: range_body_def False)
    then show ?thesis using False less.prems(3) by simp
  qed
qed

lemma total_cfold_list:
  assumes "\<And>done x s. x \<in> set xs \<Longrightarrow> R done s \<Longrightarrow> total (body x s) (R (done @ [x]))" and "R done s"
  shows "total (cfold body xs s) (R (done @ xs))"
  using assms
proof (induction xs arbitrary: "done" s)
  case (Cons x xs)
  have "total (body x s) (R (done @ [x]))" using Cons.prems by simp
  moreover have "total (cfold body xs t) (R (done @ x # xs))" if "R (done @ [x]) t" for t
    using Cons.IH [of "done @ [x]" t] Cons.prems(1) that by simp
  ultimately show ?case by (simp add: total_bind)
qed simp

definition tp_values :: "tuning_parameter \<Rightarrow> int list" where
  "tp_values tp = (if is_vector tp then elements (the (tp_restriction tp))
                   else range_list (rangeFrom tp) (rangeTo tp) (rangeStep tp))"

text \<open>What the code relies on: a positive step, and no overflow when the range is left.\<close>

definition tp_ok :: "tuning_parameter \<Rightarrow> bool" where
  "tp_ok tp \<longleftrightarrow> is_vector tp \<or> 0 < rangeStep tp \<and> rangeTo tp + rangeStep tp \<le> INT_MAX \<and> INT_MIN \<le> rangeFrom tp"

lemma for_values_range:
  "\<not> is_vector tp \<Longrightarrow> for_values tp body s = for_range (rangeFrom tp) (rangeTo tp) (rangeStep tp) body s"
  by (auto simp: for_values_def is_vector_def split: option.splits)

lemma total_for_values:
  assumes ok: "tp_ok tp"
    and body: "\<And>done i s. i \<in> set (tp_values tp) \<Longrightarrow> R done s \<Longrightarrow> total (body i s) (R (done @ [i]))"
    and R: "R [] s"
  shows "total (for_values tp body s) (R (tp_values tp))"
proof (cases "is_vector tp")
  case True
  then have "for_values tp body s = cfold body (tp_values tp) s"
    by (auto simp: for_values_def is_vector_def tp_values_def split: option.splits)
  with total_cfold_list [of "tp_values tp" R body "[]" s] body R show ?thesis by simp
next
  case False
  then have f: "for_values tp body s = for_range (rangeFrom tp) (rangeTo tp) (rangeStep tp) body s"
    and v: "tp_values tp = range_list (rangeFrom tp) (rangeTo tp) (rangeStep tp)"
    by (simp_all add: for_values_range tp_values_def)
  have o: "0 < rangeStep tp" "rangeTo tp + rangeStep tp \<le> INT_MAX" "INT_MIN \<le> rangeFrom tp"
    using ok False by (auto simp: tp_ok_def)
  have "total (for_range (rangeFrom tp) (rangeTo tp) (rangeStep tp) body s) (R ([] @ range_list (rangeFrom tp) (rangeTo tp) (rangeStep tp)))"
    by (rule total_for_range [OF o]) (use body R v in auto)
  then show ?thesis by (simp add: f v)
qed

text \<open>With a step of zero the loop never ends, whatever its body does short of failing.\<close>

lemma for_range_zero:
  assumes "from \<le> to" and "in_int from" and "\<And>s. post (body from s) (\<lambda>_. True) (\<lambda>_. False)"
  shows "for_range from to 0 body s = None"
proof -
  have "post (loop (range_body to 0 body) (from, s)) (\<lambda>_. False) (\<lambda>_. False)"
    by (rule post_loop [where I = "\<lambda>(i, s). i = from"])
      (use assms in \<open>auto simp: range_body_def intro!: post_bind [OF assms(3)]\<close>)
  then have "loop (range_body to 0 body) (from, s) = None"
    by (cases "loop (range_body to 0 body) (from, s)" rule: comp_cases) auto
  then show ?thesis by (simp add: for_range_def)
qed

section \<open>The walk is the cartesian product\<close>

text \<open>All settings of the parameters of one space, the last parameter varying fastest.\<close>

primrec assignments :: "tp_store \<Rightarrow> tp_ptr list \<Rightarrow> variant \<Rightarrow> variant list" where
  "assignments heap [] v = [v]"
| "assignments heap (tp # tps) v =
     concat (map (\<lambda>i. assignments heap tps (sm_put tp i v)) (tp_values (heap tp)))"

text \<open>Entries left over from an earlier round do not matter: they are overwritten before use.\<close>

lemma assignments_stale:
  assumes "sm_wf v" and "sm_wf w" and "\<And>k. k \<notin> set tps \<Longrightarrow> sm_find v k = sm_find w k"
  shows "assignments heap tps v = assignments heap tps w"
  using assms
proof (induction tps arbitrary: v w)
  case Nil
  then have "sm_find v = sm_find w" by (intro ext) simp
  with Nil show ?case by (simp add: sm_wf_eqI)
next
  case (Cons tp tps)
  have "assignments heap tps (sm_put tp i v) = assignments heap tps (sm_put tp i w)" for i
    by (rule Cons.IH) (use Cons.prems in auto)
  then show ?case by simp
qed

lemma total_iterate_TP:
  assumes ok: "\<And>tp. tp \<in> set tps \<Longrightarrow> tp_ok (heap tp)" and v: "sm_wf v"
    and leaf: "\<And>done u s. L done s \<Longrightarrow> total (leaf u s) (L (done @ [u]))"
    and L: "L done s"
  shows "total (iterate_TP heap leaf tps (v, s)) (\<lambda>(v', s').
    sm_wf v' \<and> (\<forall>k. k \<notin> set tps \<longrightarrow> sm_find v' k = sm_find v k) \<and> L (done @ assignments heap tps v) s')"
  using ok v L
proof (induction tps arbitrary: v s "done")
  case Nil
  have "total (leaf v s) (L (done @ [v]))" using leaf Nil by blast
  with Nil show ?case by (auto simp: total_def)
next
  case (Cons tp tps)
  define R where "R gone = (\<lambda>(v', s'). sm_wf v' \<and> (\<forall>k. k \<notin> set (tp # tps) \<longrightarrow> sm_find v' k = sm_find v k) \<and>
    L (done @ concat (map (\<lambda>i. assignments heap tps (sm_put tp i v)) gone)) s')" for gone
  have "total (for_values (heap tp) (\<lambda>i (w, s). iterate_TP heap leaf tps (sm_put tp i w, s)) (v, s))
    (R (tp_values (heap tp)))"
  proof (rule total_for_values)
    show "tp_ok (heap tp)" using Cons.prems by simp
    show "R [] (v, s)" using Cons.prems by (simp add: R_def)
    fix gone i ws
    assume R: "R gone ws"
    obtain w s where ws: "ws = (w, s)" by (cases ws)
    have w: "sm_wf w" "\<And>k. k \<notin> set (tp # tps) \<Longrightarrow> sm_find w k = sm_find v k"
      and L: "L (done @ concat (map (\<lambda>i. assignments heap tps (sm_put tp i v)) gone)) s"
      using R by (auto simp: R_def ws)
    have stale: "assignments heap tps (sm_put tp i w) = assignments heap tps (sm_put tp i v)"
      by (rule assignments_stale) (use w Cons.prems in auto)
    have "total (iterate_TP heap leaf tps (sm_put tp i w, s)) (\<lambda>(v', s').
        sm_wf v' \<and> (\<forall>k. k \<notin> set tps \<longrightarrow> sm_find v' k = sm_find (sm_put tp i w) k) \<and>
        L ((done @ concat (map (\<lambda>i. assignments heap tps (sm_put tp i v)) gone)) @ assignments heap tps (sm_put tp i w)) s')"
      by (rule Cons.IH) (use Cons.prems w L in auto)
    then show "total (case ws of (w, s) \<Rightarrow> iterate_TP heap leaf tps (sm_put tp i w, s)) (R (gone @ [i]))"
      by (simp add: ws, elim total_conseq) (use w in \<open>auto simp: R_def stale\<close>)
  qed
  then show ?case by (simp add: R_def)
qed

text \<open>The specification a scenario carries for one variant of one search space.\<close>

definition space_entities :: "build_env \<Rightarrow> search_space \<Rightarrow> string list" where
  "space_entities env ss =
     (if withRtsSupport env then map callPath (take 1 (rtsVector ss)) else map regionID (take 1 (regions ss)))"

definition scenario_specification :: "build_env \<Rightarrow> search_space \<Rightarrow> variant \<Rightarrow> tuning_specification" where
  "scenario_specification env ss v =
     TuningSpecification_entities (withRtsSupport env) v (space_entities env ss) (uninit_bool env)"

definition space_ok :: "build_env \<Rightarrow> tp_store \<Rightarrow> search_space \<Rightarrow> bool" where
  "space_ok env heap ss \<longleftrightarrow> (withRtsSupport env \<or> regions ss \<noteq> []) \<and>
     list_all (\<lambda>tp. tp_ok (heap tp)) (tuningParameters (variantSpace ss))"

definition space_variants :: "tp_store \<Rightarrow> search_space \<Rightarrow> variant list" where
  "space_variants heap ss = assignments heap (tuningParameters (variantSpace ss)) []"

primrec combinations :: "build_env \<Rightarrow> tp_store \<Rightarrow> search_space list \<Rightarrow> tuning_specification list list" where
  "combinations env heap [] = [[]]"
| "combinations env heap (ss # sss) =
     concat (map (\<lambda>v. map ((#) (scenario_specification env ss v)) (combinations env heap sss)) (space_variants heap ss))"

lemma copy_append:
  "copy_specifications env ts = ret cs \<Longrightarrow> copy_specifications env us = ret ds \<Longrightarrow>
   copy_specifications env (ts @ us) = ret (cs @ ds)"
  by (induction ts arbitrary: cs) (auto simp: cbind_eq_ret)

lemma space_specification_copy:
  assumes "withRtsSupport env \<or> regions ss \<noteq> []"
  obtains t where "space_specification env ss v = ret t"
    and "copy_specifications env [t] = ret [scenario_specification env ss v]"
proof (cases "withRtsSupport env")
  case True
  with that show ?thesis
    by (cases "rtsVector ss") (auto simp: space_specification_def TuningSpecification_rtss_def
        scenario_specification_def space_entities_def context_entities_def)
next
  case False
  with assms that show ?thesis
    by (cases "regions ss") (auto simp: space_specification_def TuningSpecification_regions_def
        scenario_specification_def space_entities_def context_entities_def)
qed

lemma iterate_SS_ret:
  assumes "list_all (space_ok env heap) sss" and "copy_specifications env ts = ret cs"
  shows "iterate_SS env heap sss ts qw = ret (fold add_scenario (map ((@) cs) (combinations env heap sss)) qw)"
  using assms
proof (induction sss arbitrary: ts cs qw)
  case Nil
  then show ?case by (simp add: generatescenario_def)
next
  case (Cons ss sss)
  let ?leaf = "\<lambda>variant qw. cbind (space_specification env ss variant) (\<lambda>t. iterate_SS env heap sss (ts @ [t]) qw)"
  let ?of = "\<lambda>v. map ((@) (cs @ [scenario_specification env ss v])) (combinations env heap sss)"
  define L where "L gone q \<longleftrightarrow> q = fold add_scenario (concat (map ?of gone)) qw" for gone q
  have ok: "space_ok env heap ss" and oks: "list_all (space_ok env heap) sss" using Cons.prems by simp_all
  have entity: "withRtsSupport env \<or> regions ss \<noteq> []" using ok by (simp add: space_ok_def)
  have leaf: "?leaf v q = ret (fold add_scenario (?of v) q)" for v q
  proof -
    obtain t where t: "space_specification env ss v = ret t"
      and c: "copy_specifications env [t] = ret [scenario_specification env ss v]"
      using space_specification_copy [OF entity] .
    from Cons.IH [OF oks copy_append [OF Cons.prems(2) c]] t show ?thesis by (simp only: cbind_ret)
  qed
  have "total (iterate_TP heap ?leaf (tuningParameters (variantSpace ss)) ([], qw)) (\<lambda>(v', q').
      sm_wf v' \<and> (\<forall>k. k \<notin> set (tuningParameters (variantSpace ss)) \<longrightarrow> sm_find v' k = sm_find [] k) \<and>
      L ([] @ assignments heap (tuningParameters (variantSpace ss)) []) q')"
    by (rule total_iterate_TP) (use ok in \<open>auto simp: space_ok_def list_all_iff L_def leaf\<close>)
  moreover have "concat (map ?of xs) = map ((@) cs) (concat (map (\<lambda>v. map ((#) (scenario_specification env ss v)) (combinations env heap sss)) xs))" for xs
    by (induction xs) (simp_all add: comp_def)
  ultimately show ?case by (auto simp: total_def L_def space_variants_def)
qed

text \<open>The size of the walk, and what is in it.\<close>

lemma length_assignments:
  "length (assignments heap tps v) = prod_list (map (\<lambda>tp. length (tp_values (heap tp))) tps)"
proof (induction tps arbitrary: v)
  case (Cons tp tps)
  have "length (assignments heap (tp # tps) v) =
      sum_list (map (\<lambda>i. length (assignments heap tps (sm_put tp i v))) (tp_values (heap tp)))"
    by (simp add: length_concat comp_def)
  also have "\<dots> = length (tp_values (heap tp)) * prod_list (map (\<lambda>tp. length (tp_values (heap tp))) tps)"
    by (simp add: Cons.IH sum_list_triv)
  finally show ?case by simp
qed simp

lemma length_combinations:
  "length (combinations env heap sss) = prod_list (map (\<lambda>ss. length (space_variants heap ss)) sss)"
  by (induction sss) (simp_all add: length_concat comp_def sum_list_triv)

lemma mem_assignments:
  assumes "distinct tps" and "sm_wf v"
  shows "u \<in> set (assignments heap tps v) \<longleftrightarrow> sm_wf u \<and>
    (\<forall>k. k \<notin> set tps \<longrightarrow> sm_find u k = sm_find v k) \<and>
    (\<forall>k \<in> set tps. \<exists>i \<in> set (tp_values (heap k)). sm_find u k = Some i)"
  using assms
proof (induction tps arbitrary: v)
  case Nil
  then show ?case using sm_wf_eqI [of u v] by auto
next
  case (Cons tp tps)
  have IH: "u \<in> set (assignments heap tps (sm_put tp i v)) \<longleftrightarrow> sm_wf u \<and>
    (\<forall>k. k \<notin> set tps \<longrightarrow> sm_find u k = sm_find (sm_put tp i v) k) \<and>
    (\<forall>k \<in> set tps. \<exists>i \<in> set (tp_values (heap k)). sm_find u k = Some i)" for i
    by (rule Cons.IH) (use Cons.prems in auto)
  have "u \<in> set (assignments heap (tp # tps) v) \<longleftrightarrow>
      (\<exists>i \<in> set (tp_values (heap tp)). u \<in> set (assignments heap tps (sm_put tp i v)))" by auto
  also have "\<dots> \<longleftrightarrow> (\<exists>i \<in> set (tp_values (heap tp)). sm_wf u \<and>
    (\<forall>k. k \<notin> set tps \<longrightarrow> sm_find u k = ((sm_find v)(tp \<mapsto> i)) k) \<and>
    (\<forall>k \<in> set tps. \<exists>i \<in> set (tp_values (heap k)). sm_find u k = Some i))"
    by (simp only: IH sm_find_put)
  also have "\<dots> \<longleftrightarrow> sm_wf u \<and> (\<forall>k. k \<notin> set (tp # tps) \<longrightarrow> sm_find u k = sm_find v k) \<and>
    (\<forall>k \<in> set (tp # tps). \<exists>i \<in> set (tp_values (heap k)). sm_find u k = Some i)"
    using Cons.prems(1) by auto
  finally show ?case .
qed

lemma mem_combinations:
  "c \<in> set (combinations env heap sss) \<longleftrightarrow>
     list_all2 (\<lambda>t ss. \<exists>v \<in> set (space_variants heap ss). t = scenario_specification env ss v) c sss"
  by (induction sss arbitrary: c) (auto simp: list_all2_Cons2)

text \<open>Adding scenarios gives them consecutive identifiers, as long as the counter does not wrap.\<close>

definition ids_from :: "scenario_counter \<Rightarrow> nat \<Rightarrow> int list" where
  "ids_from n k = map (\<lambda>i. uint n + int i) [0..<k]"

definition pool_below :: "world \<Rightarrow> bool" where
  "pool_below w \<longleftrightarrow> (\<forall>k. uint (next_scenario_id w) \<le> k \<longrightarrow> sm_find (csp (pool_set w)) k = None)"

lemma sint_small: "uint (n :: 32 word) < 2 ^ 31 \<Longrightarrow> sint n = uint n"
  using signed_take_bit_int_eq_self [of 31 "uint n"] uint_nonnegative [of n] by (simp add: sint_uint)

lemma uint_next: "uint (n :: 32 word) + 1 < 2 ^ 32 \<Longrightarrow> uint (n + 1) = uint n + 1"
  by (simp add: uint_word_ariths)

lemma add_scenario_step:
  assumes n: "uint (next_scenario_id w) < 2 ^ 31" and below: "pool_below w"
    and r: "add_scenario c (queue, w) = (queue', w')"
  shows "queue' = queue @ [uint (next_scenario_id w)] \<and> uint (next_scenario_id w') = uint (next_scenario_id w) + 1 \<and>
    tp_heap w' = tp_heap w \<and> pool_below w' \<and>
    (\<exists>sc. sc_ts sc = Some c \<and> sc_key sc = uint (next_scenario_id w) \<and>
       sm_find (csp (pool_set w')) = (sm_find (csp (pool_set w)))(uint (next_scenario_id w) \<mapsto> Some sc)) \<and>
    pool_set w' = (pool_set w)\<lparr>csp := csp (pool_set w')\<rparr>"
proof -
  define sc where "sc = fst (new_Scenario (Some c) (next_scenario_id w))"
  have key: "sc_key sc = uint (next_scenario_id w)"
    using n by (simp add: sc_def new_Scenario_def sc_key_def sint_small)
  have q: "queue' = queue @ [sc_key sc]"
    and w': "w' = w\<lparr>next_scenario_id := next_scenario_id w + 1,
      pool_set := (pool_set w)\<lparr>csp := ScenarioPool_push sc (csp (pool_set w))\<rparr>\<rparr>"
    using r by (simp_all add: add_scenario_def sc_def new_Scenario_def Let_def)
  have nxt: "uint (next_scenario_id w') = uint (next_scenario_id w) + 1"
    using n by (simp add: w' uint_next)
  have find: "sm_find (csp (pool_set w')) = (sm_find (csp (pool_set w)))(uint (next_scenario_id w) \<mapsto> Some sc)"
    using below by (simp add: w' ScenarioPool_push_def key pool_below_def)
  have "pool_below w'" using below by (auto simp: pool_below_def nxt find)
  moreover have "sc_ts sc = Some c" by (simp add: sc_def new_Scenario_def)
  ultimately show ?thesis using q key nxt find w' by auto
qed

lemma fold_add_scenario:
  assumes "uint (next_scenario_id w) + int (length cs) \<le> 2 ^ 31" and "pool_below w"
    and "fold add_scenario cs (queue, w) = (queue', w')"
  shows "queue' = queue @ ids_from (next_scenario_id w) (length cs) \<and>
    uint (next_scenario_id w') = uint (next_scenario_id w) + int (length cs) \<and> tp_heap w' = tp_heap w \<and>
    pool_below w' \<and> pool_set w' = (pool_set w)\<lparr>csp := csp (pool_set w')\<rparr> \<and>
    (\<forall>k < uint (next_scenario_id w). sm_find (csp (pool_set w')) k = sm_find (csp (pool_set w)) k) \<and>
    (\<forall>i < length cs. \<exists>sc. sm_find (csp (pool_set w')) (uint (next_scenario_id w) + int i) = Some (Some sc) \<and>
       sc_ts sc = Some (cs ! i))"
  using assms
proof (induction cs arbitrary: queue w)
  case Nil
  then show ?case by (simp add: ids_from_def)
next
  case (Cons c cs)
  obtain q1 w1 where qw: "add_scenario c (queue, w) = (q1, w1)" by fastforce
  let ?n = "uint (next_scenario_id w)"
  have n: "?n < 2 ^ 31" using Cons.prems(1) by simp
  from add_scenario_step [OF n Cons.prems(2) qw]
  obtain sc where one: "q1 = queue @ [?n]" "uint (next_scenario_id w1) = ?n + 1" "tp_heap w1 = tp_heap w"
    "pool_below w1" "sc_ts sc = Some c" "sm_find (csp (pool_set w1)) = (sm_find (csp (pool_set w)))(?n \<mapsto> Some sc)"
    "pool_set w1 = (pool_set w)\<lparr>csp := csp (pool_set w1)\<rparr>" by blast
  have "fold add_scenario cs (q1, w1) = (queue', w')" using Cons.prems(3) qw by simp
  note rest = Cons.IH [OF _ one(4) this]
  have len: "uint (next_scenario_id w1) + int (length cs) \<le> 2 ^ 31" using Cons.prems(1) one(2) by simp
  note rest = rest [OF len]
  have "ids_from (next_scenario_id w) (length (c # cs)) = ?n # ids_from (next_scenario_id w1) (length cs)"
    unfolding ids_from_def length_Cons upt_zero_Suc by (simp add: one(2) add.assoc)
  moreover have "\<exists>sc. sm_find (csp (pool_set w')) (?n + int i) = Some (Some sc) \<and> sc_ts sc = Some ((c # cs) ! i)"
    if i: "i < length (c # cs)" for i
  proof (cases i)
    case 0
    have "sm_find (csp (pool_set w')) ?n = sm_find (csp (pool_set w1)) ?n" using rest one(2) by auto
    then show ?thesis using 0 one(5,6) by simp
  next
    case (Suc j)
    then have "\<exists>sc. sm_find (csp (pool_set w')) (uint (next_scenario_id w1) + int j) = Some (Some sc) \<and> sc_ts sc = Some (cs ! j)"
      using rest i by simp
    then show ?thesis using Suc one(2) by (simp add: algebra_simps)
  qed
  moreover have "pool_set w' = (pool_set w)\<lparr>csp := csp (pool_set w')\<rparr>" using rest one(7)
    by (metis scenario_pool_set.update_convs(1) scenario_pool_set.surjective)
  ultimately show ?case using rest one by auto
qed

lemma createScenarios_fold:
  assumes "searchSpaces s \<noteq> []" and "list_all (space_ok env (tp_heap w)) (searchSpaces s)"
  shows "ex_createScenarios env s w =
    (case fold add_scenario (combinations env (tp_heap w) (searchSpaces s)) (scenarioIds s, w) of
       (queue, w') \<Rightarrow> ret ((if objectiveFunctions s = [] then ex_addObjectiveFunction PTF_min s else s)
                           \<lparr>scenarioIds := queue\<rparr>, w'))"
  using assms
  by (simp add: ex_createScenarios_def Let_def ex_addObjectiveFunction_def iterate_SS_ret [where cs = "[]"]
      map_idI split: prod.split)

section \<open>What is created\<close>

text \<open>
  C13: Creating the scenarios of an exhaustive search always returns when every parameter has a
  positive step, and puts exactly one scenario for every combination of the search spaces' variants
  into the created pool, in order, under consecutive identifiers that it also queues for evaluation;
  the number of scenarios is the product of the numbers of values of all tuning parameters.
\<close>

theorem exhaustive_creates_product:
  assumes "searchSpaces s \<noteq> []" and "list_all (space_ok env (tp_heap w)) (searchSpaces s)"
    and "uint (next_scenario_id w) + int (length (combinations env (tp_heap w) (searchSpaces s))) \<le> 2 ^ 31"
    and "pool_below w"
  shows "\<exists>s' w'. ex_createScenarios env s w = ret (s', w') \<and>
    (let cs = combinations env (tp_heap w) (searchSpaces s)
     in length cs = prod_list (map (\<lambda>ss. prod_list (map (\<lambda>tp. length (tp_values (tp_heap w tp)))
                                  (tuningParameters (variantSpace ss)))) (searchSpaces s)) \<and>
        scenarioIds s' = scenarioIds s @ ids_from (next_scenario_id w) (length cs) \<and>
        uint (next_scenario_id w') = uint (next_scenario_id w) + int (length cs) \<and>
        (\<forall>i < length cs. \<exists>sc. sm_find (csp (pool_set w')) (uint (next_scenario_id w) + int i) = Some (Some sc) \<and>
           sc_ts sc = Some (cs ! i)) \<and>
        (\<forall>k < uint (next_scenario_id w). sm_find (csp (pool_set w')) k = sm_find (csp (pool_set w)) k))"
proof -
  let ?cs = "combinations env (tp_heap w) (searchSpaces s)"
  obtain queue w' where f: "fold add_scenario ?cs (scenarioIds s, w) = (queue, w')" by fastforce
  have len: "length ?cs = prod_list (map (\<lambda>ss. prod_list (map (\<lambda>tp. length (tp_values (tp_heap w tp)))
      (tuningParameters (variantSpace ss)))) (searchSpaces s))"
    by (simp add: length_combinations space_variants_def length_assignments)
  from fold_add_scenario [OF assms(3,4) f] len show ?thesis
    unfolding createScenarios_fold [OF assms(1,2)] f by (simp only: prod.case) (fastforce simp: Let_def)
qed

text \<open>A search space with two parameters, of three and two values.\<close>

definition example_world :: world where
  "example_world = \<lparr>pool_set = new_ScenarioPoolSet, next_scenario_id = 0,
     tp_heap = (\<lambda>p. if p = 0 then example_tp 1 9 4 else example_tp 0 1 1)\<rparr>"

definition example_search :: exhaustive where
  "example_search = ex_addSearchSpace
     (new_SearchSpace \<lparr>tuningParameters = [0, 1]\<rparr>) new_ExhaustiveSearch"

definition example_env :: build_env where
  "example_env = \<lparr>withRtsSupport = True, uninit_bool = False\<rparr>"

theorem exhaustive_creates_product_witness:
  "\<exists>s' w'. ex_createScenarios example_env example_search example_world = ret (s', w') \<and>
     scenarioIds s' = [0, 1, 2, 3, 4, 5]"
proof -
  have ss: "searchSpaces example_search = [new_SearchSpace \<lparr>tuningParameters = [0, 1]\<rparr>]" by code_simp
  have len: "length (combinations example_env (tp_heap example_world) (searchSpaces example_search)) = 6" by code_simp
  have "searchSpaces example_search \<noteq> []" by (simp add: ss)
  moreover have "list_all (space_ok example_env (tp_heap example_world)) (searchSpaces example_search)" by code_simp
  moreover have "uint (next_scenario_id example_world)
      + int (length (combinations example_env (tp_heap example_world) (searchSpaces example_search))) \<le> 2 ^ 31"
    unfolding len by (simp add: example_world_def)
  moreover have "pool_below example_world" by (simp add: pool_below_def example_world_def new_ScenarioPoolSet_def)
  ultimately have "\<exists>s' w'. ex_createScenarios example_env example_search example_world = ret (s', w') \<and>
      scenarioIds s' = scenarioIds example_search @ ids_from (next_scenario_id example_world) 6"
    using exhaustive_creates_product [of example_search example_env example_world] unfolding Let_def len by blast
  moreover have "scenarioIds example_search @ ids_from (next_scenario_id example_world) 6 = [0, 1, 2, 3, 4, 5]"
    by code_simp
  ultimately show ?thesis by simp
qed

text \<open>A value the code may give a parameter, and the specification it gives a space, read off the source's data.\<close>

definition legal_value :: "tuning_parameter \<Rightarrow> int \<Rightarrow> bool" where
  "legal_value tp i = (case tp_restriction tp of
     Some r \<Rightarrow> if restr_type r = 2 then i \<in> set (elements r)
               else rangeFrom tp \<le> i \<and> i \<le> rangeTo tp \<and> rangeStep tp dvd (i - rangeFrom tp)
   | None \<Rightarrow> rangeFrom tp \<le> i \<and> i \<le> rangeTo tp \<and> rangeStep tp dvd (i - rangeFrom tp))"

definition legal_specification ::
  "build_env \<Rightarrow> tp_store \<Rightarrow> search_space \<Rightarrow> tuning_specification \<Rightarrow> bool" where
  "legal_specification env heap ss t \<longleftrightarrow>
     ts_ranks t = ALL_RANKS \<and> is_rts t = (withRtsSupport env \<or> uninit_bool env) \<and>
     ts_context t = (if withRtsSupport env then RTS_LIST (map callPath (take 1 (rtsVector ss)))
                     else REGION_LIST (map regionID (take 1 (regions ss)))) \<and>
     sm_wf (ts_variant t) \<and> dom (sm_find (ts_variant t)) = set (tuningParameters (variantSpace ss)) \<and>
     (\<forall>tp \<in> set (tuningParameters (variantSpace ss)). legal_value (heap tp) (the (sm_find (ts_variant t) tp)))"

lemma legal_value_vector: "is_vector tp \<Longrightarrow> legal_value tp i \<longleftrightarrow> i \<in> set (elements (the (tp_restriction tp)))"
  by (auto simp: legal_value_def is_vector_def split: option.splits)

lemma legal_value_range: "\<not> is_vector tp \<Longrightarrow> legal_value tp i \<longleftrightarrow>
    rangeFrom tp \<le> i \<and> i \<le> rangeTo tp \<and> rangeStep tp dvd (i - rangeFrom tp)"
  by (auto simp: legal_value_def is_vector_def split: option.splits)

lemma set_tp_values: "tp_ok tp \<Longrightarrow> i \<in> set (tp_values tp) \<longleftrightarrow> legal_value tp i"
  by (cases "is_vector tp") (auto simp: legal_value_vector legal_value_range tp_values_def tp_ok_def set_range_list)

lemma distinct_tp_values:
  "tp_ok tp \<Longrightarrow> (is_vector tp \<longrightarrow> distinct (elements (the (tp_restriction tp)))) \<Longrightarrow> distinct (tp_values tp)"
  by (auto simp: tp_values_def tp_ok_def range_list_def distinct_map inj_on_def)

lemma distinct_concat_by:
  assumes "distinct xs" and "\<And>x. x \<in> set xs \<Longrightarrow> distinct (f x)"
    and "\<And>x y z. x \<in> set xs \<Longrightarrow> y \<in> set xs \<Longrightarrow> z \<in> set (f x) \<Longrightarrow> z \<in> set (f y) \<Longrightarrow> x = y"
  shows "distinct (concat (map f xs))"
  using assms
proof (induction xs)
  case (Cons a xs)
  have "distinct (concat (map f xs))" by (rule Cons.IH) (use Cons.prems in auto)
  moreover have "set (f a) \<inter> set (f x) = {}" if "x \<in> set xs" for x
    using Cons.prems(1,3) that by fastforce
  ultimately show ?case using Cons.prems(2) by auto
qed simp

lemma distinct_assignments:
  assumes "distinct tps" and "sm_wf v" and "\<And>tp. tp \<in> set tps \<Longrightarrow> distinct (tp_values (heap tp))"
  shows "distinct (assignments heap tps v)"
  using assms
proof (induction tps arbitrary: v)
  case (Cons tp tps)
  have at: "sm_find u tp = Some i" if "u \<in> set (assignments heap tps (sm_put tp i v))" for u i
    using mem_assignments [of tps "sm_put tp i v" u heap] that Cons.prems(1,2) by simp
  show ?case unfolding assignments.simps
  proof (rule distinct_concat_by)
    fix i j u
    assume "u \<in> set (assignments heap tps (sm_put tp i v))" "u \<in> set (assignments heap tps (sm_put tp j v))"
    from at [OF this(1)] at [OF this(2)] show "i = j" by simp
  qed (use Cons in auto)
qed simp

lemma scenario_specification_inj:
  "scenario_specification env ss u = scenario_specification env ss v \<Longrightarrow> u = v"
  by (auto simp: scenario_specification_def TuningSpecification_entities_def split: if_splits)

lemma distinct_combinations:
  assumes "\<And>ss. ss \<in> set sss \<Longrightarrow> distinct (space_variants heap ss)"
  shows "distinct (combinations env heap sss)"
  using assms
proof (induction sss)
  case (Cons ss sss)
  show ?case unfolding combinations.simps
    by (rule distinct_concat_by) (use Cons in \<open>auto simp: distinct_map dest: scenario_specification_inj\<close>)
qed simp

lemma space_variants_legal:
  assumes ok: "list_all (\<lambda>tp. tp_ok (heap tp)) (tuningParameters (variantSpace ss))"
    and dist: "distinct (tuningParameters (variantSpace ss))"
  shows "(\<exists>v \<in> set (space_variants heap ss). t = scenario_specification env ss v) \<longleftrightarrow> legal_specification env heap ss t"
proof -
  let ?tps = "tuningParameters (variantSpace ss)"
  have mem: "v \<in> set (space_variants heap ss) \<longleftrightarrow> sm_wf v \<and> dom (sm_find v) = set ?tps \<and>
      (\<forall>tp \<in> set ?tps. legal_value (heap tp) (the (sm_find v tp)))" for v
  proof -
    have "v \<in> set (space_variants heap ss) \<longleftrightarrow> sm_wf v \<and> (\<forall>k. k \<notin> set ?tps \<longrightarrow> sm_find v k = None) \<and>
      (\<forall>k \<in> set ?tps. \<exists>i \<in> set (tp_values (heap k)). sm_find v k = Some i)"
      using dist unfolding space_variants_def by (subst mem_assignments) auto
    also have "\<dots> \<longleftrightarrow> sm_wf v \<and> (\<forall>k. k \<notin> set ?tps \<longrightarrow> sm_find v k = None) \<and>
      (\<forall>k \<in> set ?tps. \<exists>i. legal_value (heap k) i \<and> sm_find v k = Some i)"
      using ok by (auto simp: list_all_iff set_tp_values)
    also have "\<dots> \<longleftrightarrow> sm_wf v \<and> dom (sm_find v) = set ?tps \<and>
      (\<forall>tp \<in> set ?tps. legal_value (heap tp) (the (sm_find v tp)))" by (force simp: dom_def)
    finally show ?thesis .
  qed
  have "t = scenario_specification env ss v \<longleftrightarrow> ts_variant t = v \<and> ts_ranks t = ALL_RANKS \<and>
      is_rts t = (withRtsSupport env \<or> uninit_bool env) \<and>
      ts_context t = (if withRtsSupport env then RTS_LIST (map callPath (take 1 (rtsVector ss)))
                     else REGION_LIST (map regionID (take 1 (regions ss))))" for v
    by (cases t) (auto simp: scenario_specification_def TuningSpecification_entities_def space_entities_def)
  then show ?thesis unfolding legal_specification_def by (auto simp: mem)
qed

lemma combinations_legal:
  assumes "list_all (space_ok env heap) sss"
    and "\<And>ss. ss \<in> set sss \<Longrightarrow> distinct (tuningParameters (variantSpace ss))"
  shows "c \<in> set (combinations env heap sss) \<longleftrightarrow> list_all2 (legal_specification env heap) sss c"
proof -
  have "(\<exists>v \<in> set (space_variants heap ss). t = scenario_specification env ss v)
      \<longleftrightarrow> legal_specification env heap ss t" if "ss \<in> set sss" for ss t
    by (rule space_variants_legal) (use assms that in \<open>auto simp: list_all_iff space_ok_def\<close>)
  then show ?thesis unfolding mem_combinations list_all2_conv_all_nth by (metis (no_types, lifting) nth_mem)
qed

lemma card_legal_values:
  assumes "tp_ok tp" and "is_vector tp \<longrightarrow> distinct (elements (the (tp_restriction tp)))"
  shows "card {i. legal_value tp i} = length (tp_values tp)"
proof -
  have "{i. legal_value tp i} = set (tp_values tp)" using set_tp_values [OF assms(1)] by auto
  with distinct_card [OF distinct_tp_values [OF assms]] show ?thesis by simp
qed

lemma ids_from_nth: "i < k \<Longrightarrow> ids_from n k ! i = uint n + int i"
  by (simp add: ids_from_def)

lemma set_ids_from: "set (ids_from n k) = {uint n + int i |i. i < k}"
  by (auto simp: ids_from_def)

text \<open>
  C14: Creating the scenarios covers the combinations exactly. When every range is walked upwards without
  overflow, the counter of scenarios does not wrap and is above what the created pool holds, no space names a
  parameter twice and no list restriction repeats a value, creation returns, every identifier it queues stands in the
  created pool for a scenario with one legal specification per search space, and every list of legal
  specifications (one per space, for that space's first region or runtime situation, on all ranks,
  giving each parameter of the space and nothing else a value of its restriction, or one the step
  reaches inside its range) stands there under exactly one of the queued identifiers.
\<close>

theorem exhaustive_covers_all_combinations:
  assumes "searchSpaces s \<noteq> []" and "list_all (space_ok env (tp_heap w)) (searchSpaces s)"
    and dist: "\<forall>ss \<in> set (searchSpaces s). distinct (tuningParameters (variantSpace ss)) \<and>
      (\<forall>tp \<in> set (tuningParameters (variantSpace ss)). is_vector (tp_heap w tp) \<longrightarrow>
         distinct (elements (the (tp_restriction (tp_heap w tp)))))"
    and count: "uint (next_scenario_id w) + int (prod_list (map (\<lambda>ss. prod_list (map
      (\<lambda>tp. card {i. legal_value (tp_heap w tp) i}) (tuningParameters (variantSpace ss)))) (searchSpaces s))) \<le> 2 ^ 31"
    and "pool_below w"
  shows "\<exists>s' w' new. ex_createScenarios env s w = ret (s', w') \<and> scenarioIds s' = scenarioIds s @ new \<and> distinct new \<and>
    (\<forall>k \<in> set new. \<exists>sc c. sm_find (csp (pool_set w')) k = Some (Some sc) \<and> sc_ts sc = Some c \<and>
       list_all2 (legal_specification env (tp_heap w)) (searchSpaces s) c) \<and>
    (\<forall>c. list_all2 (legal_specification env (tp_heap w)) (searchSpaces s) c \<longrightarrow>
       (\<exists>!k. k \<in> set new \<and> (\<exists>sc. sm_find (csp (pool_set w')) k = Some (Some sc) \<and> sc_ts sc = Some c)))"
proof -
  let ?cs = "combinations env (tp_heap w) (searchSpaces s)"
  let ?new = "ids_from (next_scenario_id w) (length ?cs)"
  have ok: "tp_ok (tp_heap w tp)" if "ss \<in> set (searchSpaces s)" "tp \<in> set (tuningParameters (variantSpace ss))" for ss tp
    using assms(2) that by (auto simp: list_all_iff space_ok_def)
  have "length ?cs = prod_list (map (\<lambda>ss. prod_list (map
      (\<lambda>tp. card {i. legal_value (tp_heap w tp) i}) (tuningParameters (variantSpace ss)))) (searchSpaces s))"
    unfolding length_combinations space_variants_def length_assignments
    by (intro arg_cong [where f = prod_list] map_cong refl) (use card_legal_values ok dist in simp)
  with count have len: "uint (next_scenario_id w) + int (length ?cs) \<le> 2 ^ 31" by simp
  obtain queue w' where f: "fold add_scenario ?cs (scenarioIds s, w) = (queue, w')" by fastforce
  from fold_add_scenario [OF len assms(5) f] have queue: "queue = scenarioIds s @ ?new"
    and at: "\<And>i. i < length ?cs \<Longrightarrow> \<exists>sc. sm_find (csp (pool_set w')) (uint (next_scenario_id w) + int i) = Some (Some sc) \<and>
       sc_ts sc = Some (?cs ! i)" by blast+
  have mem: "c \<in> set ?cs \<longleftrightarrow> list_all2 (legal_specification env (tp_heap w)) (searchSpaces s) c" for c
    by (rule combinations_legal) (use assms(2) dist in auto)
  have once: "distinct ?cs"
    by (rule distinct_combinations) (unfold space_variants_def,
        intro distinct_assignments distinct_tp_values, use dist ok in auto)
  have "\<exists>!k. k \<in> set ?new \<and> (\<exists>sc. sm_find (csp (pool_set w')) k = Some (Some sc) \<and> sc_ts sc = Some c)"
    if c: "c \<in> set ?cs" for c
  proof -
    obtain i where i: "i < length ?cs" "?cs ! i = c" using c by (auto simp: in_set_conv_nth)
    have "j = i" if "j < length ?cs" "sm_find (csp (pool_set w')) (uint (next_scenario_id w) + int j) = Some (Some sc)"
      "sc_ts sc = Some c" for j sc
      using at [OF that(1)] that i nth_eq_iff_index_eq [OF once] by auto
    with at [OF i(1)] i show ?thesis
      by (intro ex1I [of _ "uint (next_scenario_id w) + int i"]) (auto simp: set_ids_from)
  qed
  moreover have "distinct ?new" by (auto simp: ids_from_def distinct_map inj_on_def)
  moreover have "\<forall>k \<in> set ?new. \<exists>sc c. sm_find (csp (pool_set w')) k = Some (Some sc) \<and> sc_ts sc = Some c \<and>
      list_all2 (legal_specification env (tp_heap w)) (searchSpaces s) c"
    using at mem nth_mem unfolding set_ids_from by fastforce
  moreover let ?s' = "(if objectiveFunctions s = [] then ex_addObjectiveFunction PTF_min s else s)\<lparr>scenarioIds := queue\<rparr>"
  have "ex_createScenarios env s w = ret (?s', w')" by (simp add: createScenarios_fold [OF assms(1,2)] f)
  moreover have "scenarioIds ?s' = scenarioIds s @ ?new" by (simp add: queue)
  ultimately show ?thesis unfolding mem by blast
qed

text \<open>In the example the setting 5 of the first and 0 of the second parameter is run by one scenario.\<close>

definition example_specification :: "int \<Rightarrow> int \<Rightarrow> tuning_specification" where
  "example_specification i j =
     \<lparr>ts_variant = [(0, i), (1, j)], ts_ranks = ALL_RANKS, ts_context = RTS_LIST [], is_rts = True\<rparr>"

theorem exhaustive_covers_all_combinations_witness:
  "\<exists>s' w'. ex_createScenarios example_env example_search example_world = ret (s', w') \<and>
     (\<exists>!k. k \<in> set (scenarioIds s') \<and> (\<exists>sc. sm_find (csp (pool_set w')) k = Some (Some sc) \<and>
        sc_ts sc = Some [example_specification 5 0]))"
proof -
  have ss: "searchSpaces example_search = [new_SearchSpace \<lparr>tuningParameters = [0, 1]\<rparr>]" by code_simp
  have ids: "scenarioIds example_search = []" by code_simp
  have legal: "legal_value (tp_heap example_world 0) i \<longleftrightarrow> i \<in> {1, 5, 9}"
    "legal_value (tp_heap example_world (Suc 0)) i \<longleftrightarrow> i \<in> {0, 1}" for i
  proof -
    have "set (tp_values (tp_heap example_world 0)) = {1, 5, 9}"
      "set (tp_values (tp_heap example_world (Suc 0))) = {0, 1}" by code_simp+
    moreover have "tp_ok (tp_heap example_world 0)" "tp_ok (tp_heap example_world (Suc 0))" by code_simp+
    ultimately show "legal_value (tp_heap example_world 0) i \<longleftrightarrow> i \<in> {1, 5, 9}"
      "legal_value (tp_heap example_world (Suc 0)) i \<longleftrightarrow> i \<in> {0, 1}"
      using set_tp_values by blast+
  qed
  have cards: "Collect (legal_value (tp_heap example_world 0)) = {1, 5, 9}"
    "Collect (legal_value (tp_heap example_world (Suc 0))) = {0, 1}" using legal by auto
  have "searchSpaces example_search \<noteq> []" by (simp add: ss)
  moreover have "list_all (space_ok example_env (tp_heap example_world)) (searchSpaces example_search)" by code_simp
  moreover have "\<forall>ss \<in> set (searchSpaces example_search). distinct (tuningParameters (variantSpace ss)) \<and>
      (\<forall>tp \<in> set (tuningParameters (variantSpace ss)). is_vector (tp_heap example_world tp) \<longrightarrow>
         distinct (elements (the (tp_restriction (tp_heap example_world tp)))))"
    by (simp add: ss new_SearchSpace_def example_world_def example_tp_def is_vector_def)
  moreover have "uint (next_scenario_id example_world) + int (prod_list (map (\<lambda>ss. prod_list (map
      (\<lambda>tp. card {i. legal_value (tp_heap example_world tp) i}) (tuningParameters (variantSpace ss))))
        (searchSpaces example_search))) \<le> 2 ^ 31"
    by (simp add: ss new_SearchSpace_def cards) (simp add: example_world_def)
  moreover have "pool_below example_world" by (simp add: pool_below_def example_world_def new_ScenarioPoolSet_def)
  moreover have "list_all2 (legal_specification example_env (tp_heap example_world)) (searchSpaces example_search)
      [example_specification 5 0]"
    by (auto simp: ss legal_specification_def example_specification_def example_env_def new_SearchSpace_def
        sm_wf_Cons sm_find_Cons legal dom_def)
  ultimately show ?thesis
    using exhaustive_covers_all_combinations [of example_search example_env example_world] unfolding ids append_Nil by blast
qed

text \<open>
  A zero step in the middle of the walk: every parameter before it only needs one value, so that the
  walk reaches it, and everything after it returns, so that its loop goes on forever.
\<close>

lemma for_values_hang:
  assumes "legal_value tp j" and "\<And>i s. body i s = None"
  shows "for_values tp body s = None"
proof (cases "is_vector tp")
  case True
  then obtain x xs where "elements (the (tp_restriction tp)) = x # xs"
    using assms(1) by (cases "elements (the (tp_restriction tp))") (auto simp: legal_value_vector)
  with True assms(2) show ?thesis by (auto simp: for_values_def is_vector_def split: option.splits)
next
  case False
  then have "rangeFrom tp \<le> rangeTo tp" using assms(1) by (auto simp: legal_value_range)
  then have "for_range (rangeFrom tp) (rangeTo tp) (rangeStep tp) body s = None"
    unfolding for_range_def by (subst loop_unfold) (simp add: range_body_def assms(2))
  with False show ?thesis by (simp add: for_values_range)
qed

lemma iterate_TP_hang:
  assumes "\<forall>p \<in> set tps. \<exists>i. legal_value (heap p) i" and "\<And>V q. iterate_TP heap leaf us (V, q) = None"
  shows "iterate_TP heap leaf (tps @ us) (V, q) = None"
  using assms(1)
proof (induction tps arbitrary: V q)
  case (Cons p tps)
  then obtain j where "legal_value (heap p) j" by auto
  moreover have "iterate_TP heap leaf (tps @ us) (V, q) = None" for V q using Cons by simp
  ultimately show ?case by (simp only: append_Cons iterate_TP.simps) (rule for_values_hang, auto)
qed (use assms(2) in simp)

lemma iterate_TP_returns:
  assumes "\<forall>p \<in> set tps. tp_ok (heap p)" and "\<And>v q. total (leaf v q) (\<lambda>_. True)"
  shows "total (iterate_TP heap leaf tps q) (\<lambda>_. True)"
  using assms(1)
proof (induction tps arbitrary: q)
  case Nil
  obtain V s where "q = (V, s)" by (cases q)
  with assms(2) [of V s] show ?case by (auto simp: total_def)
next
  case (Cons p tps)
  show ?case unfolding iterate_TP.simps
    by (rule total_for_values [where R = "\<lambda>_ _. True"]) (use Cons in \<open>auto split: prod.split\<close>)
qed

lemma iterate_TP_zero_step:
  assumes "\<not> is_vector (heap tp)" and "rangeStep (heap tp) = 0" and "rangeFrom (heap tp) \<le> rangeTo (heap tp)"
    and "in_int (rangeFrom (heap tp))" and "\<forall>p \<in> set inner. tp_ok (heap p)"
    and "\<And>v q. total (leaf v q) (\<lambda>_. True)"
  shows "iterate_TP heap leaf (tp # inner) q = None"
proof -
  have "post (case r of (V, s) \<Rightarrow> iterate_TP heap leaf inner (sm_put tp i V, s)) (\<lambda>_. True) (\<lambda>_. False)" for i r
  proof -
    have "total (iterate_TP heap leaf inner (sm_put tp i (fst r), snd r)) (\<lambda>_. True)"
      by (rule iterate_TP_returns) (use assms(5,6) in auto)
    then show ?thesis by (auto simp: total_def split: prod.split)
  qed
  then show ?thesis unfolding iterate_TP.simps for_values_range [OF assms(1)] assms(2)
    by (intro for_range_zero assms(3,4))
qed

lemma iterate_SS_hang:
  assumes "\<forall>ss \<in> set earlier. (withRtsSupport env \<or> regions ss \<noteq> []) \<and>
      (\<forall>p \<in> set (tuningParameters (variantSpace ss)). \<exists>i. legal_value (heap p) i)"
    and "\<And>ts cs q. copy_specifications env ts = ret cs \<Longrightarrow> iterate_SS env heap rest ts q = None"
    and "copy_specifications env ts = ret cs"
  shows "iterate_SS env heap (earlier @ rest) ts q = None"
  using assms(1,3)
proof (induction earlier arbitrary: ts cs q)
  case (Cons ss sss)
  let ?leaf = "\<lambda>variant qw. cbind (space_specification env ss variant) (\<lambda>t. iterate_SS env heap (sss @ rest) (ts @ [t]) qw)"
  have entity: "withRtsSupport env \<or> regions ss \<noteq> []" using Cons.prems by simp
  have leaf: "?leaf v q = None" for v q
  proof -
    obtain t where t: "space_specification env ss v = ret t"
      and c: "copy_specifications env [t] = ret [scenario_specification env ss v]"
      using space_specification_copy [OF entity] .
    have "iterate_SS env heap (sss @ rest) (ts @ [t]) q = None"
      by (rule Cons.IH [OF _ copy_append [OF Cons.prems(2) c]]) (use Cons.prems(1) in simp)
    with t show ?thesis by (simp only: cbind_ret)
  qed
  have "iterate_TP heap ?leaf (tuningParameters (variantSpace ss) @ []) ([], q) = None"
    by (rule iterate_TP_hang) (use Cons.prems(1) leaf in simp_all)
  then show ?case by (simp only: append_Cons append_Nil2 iterate_SS.simps cbind_None)
qed (use assms(2) in simp)

text \<open>
  C17: A step of zero hangs the search: when a parameter with a range that is not empty has step zero,
  every parameter walked through before it (in the earlier spaces, and earlier in its own) has a value,
  the parameters walked through after it have a list of values or a range that ends without overflow, and without
  runtime situations every space has a region, creating the scenarios does not return.
\<close>

theorem exhaustive_zero_step_hangs:
  assumes spaces: "searchSpaces s = earlier @ ss # later"
    and params: "tuningParameters (variantSpace ss) = outer @ tp # inner"
    and "\<not> is_vector (tp_heap w tp)" and "rangeStep (tp_heap w tp) = 0"
    and "rangeFrom (tp_heap w tp) \<le> rangeTo (tp_heap w tp)" and "in_int (rangeFrom (tp_heap w tp))"
    and reached: "\<forall>p \<in> set (concat (map (\<lambda>t. tuningParameters (variantSpace t)) earlier) @ outer).
      \<exists>i. legal_value (tp_heap w p) i"
    and rest: "\<forall>p \<in> set (inner @ concat (map (\<lambda>t. tuningParameters (variantSpace t)) later)). tp_ok (tp_heap w p)"
    and entity: "withRtsSupport env \<or> (\<forall>t \<in> set (searchSpaces s). regions t \<noteq> [])"
  shows "ex_createScenarios env s w = None"
proof -
  let ?heap = "tp_heap w"
  have "iterate_SS env ?heap (ss # later) ts q = None" if ts: "copy_specifications env ts = ret cs" for ts cs q
  proof -
    let ?leaf = "\<lambda>variant qw. cbind (space_specification env ss variant) (\<lambda>t. iterate_SS env ?heap later (ts @ [t]) qw)"
    have ss: "withRtsSupport env \<or> regions ss \<noteq> []" using entity spaces by auto
    have after: "list_all (space_ok env ?heap) later" using entity rest spaces by (auto simp: list_all_iff space_ok_def)
    have leaf: "total (?leaf v q) (\<lambda>_. True)" for v q
    proof -
      obtain t where t: "space_specification env ss v = ret t"
        and c: "copy_specifications env [t] = ret [scenario_specification env ss v]"
        using space_specification_copy [OF ss] .
      from iterate_SS_ret [OF after copy_append [OF ts c]] t show ?thesis by (simp add: total_def)
    qed
    have "iterate_TP ?heap ?leaf (outer @ tp # inner) ([], q) = None"
    proof (rule iterate_TP_hang)
      show "iterate_TP ?heap ?leaf (tp # inner) (V, q) = None" for V q
        by (intro iterate_TP_zero_step assms(3-6) leaf) (use rest in auto)
    qed (use reached in auto)
    then show ?thesis by (simp only: iterate_SS.simps params cbind_None)
  qed
  then have "iterate_SS env ?heap (earlier @ ss # later) [] q = None" for q
    by (rule iterate_SS_hang [rotated]) (use entity reached spaces in auto)
  then show ?thesis
    by (simp add: ex_createScenarios_def Let_def ex_addObjectiveFunction_def spaces del: iterate_SS.simps)
qed

text \<open>The zero step comes second, after a parameter of a space and one of its own space, and before another.\<close>

theorem exhaustive_zero_step_hangs_witness:
  "ex_createScenarios example_env
     (new_ExhaustiveSearch\<lparr>searchSpaces := [new_SearchSpace \<lparr>tuningParameters = [0]\<rparr>,
        new_SearchSpace \<lparr>tuningParameters = [1, 2, 3]\<rparr>, new_SearchSpace \<lparr>tuningParameters = [4]\<rparr>]\<rparr>)
     (example_world\<lparr>tp_heap := \<lambda>p. example_tp 1 9 (if p = 2 then 0 else 4)\<rparr>) = None"
proof (rule exhaustive_zero_step_hangs [where ss = "new_SearchSpace \<lparr>tuningParameters = [1, 2, 3]\<rparr>"
      and earlier = "[new_SearchSpace \<lparr>tuningParameters = [0]\<rparr>]" and later = "[new_SearchSpace \<lparr>tuningParameters = [4]\<rparr>]"
      and outer = "[1]" and tp = 2 and inner = "[3]"])
  have "legal_value (example_tp 1 9 4) 1"
    by (simp add: legal_value_def example_tp_def)
  then show "\<forall>p \<in> set (concat (map (\<lambda>t. tuningParameters (variantSpace t)) [new_SearchSpace \<lparr>tuningParameters = [0]\<rparr>]) @ [1]).
      \<exists>i. legal_value (tp_heap (example_world\<lparr>tp_heap := \<lambda>p. example_tp 1 9 (if p = 2 then 0 else 4)\<rparr>) p) i"
    by (auto simp: new_SearchSpace_def)
qed (simp_all add: new_SearchSpace_def example_tp_def is_vector_def example_env_def in_int_def INT_MIN_def INT_MAX_def
    tp_ok_def)

section \<open>What is found\<close>

definition record_all :: "(int \<Rightarrow> dbl) \<Rightarrow> int list \<Rightarrow> search_results \<Rightarrow> search_results" where
  "record_all val ids = fold (\<lambda>i. record_value i (val i)) ids"

lemma find_record_all:
  "sm_find (path (record_all val ids s)) i = (if i \<in> set ids then Some (val i) else sm_find (path s) i)"
  unfolding record_all_def by (induction ids arbitrary: s) auto

lemma results_inv_record_all:
  assumes "results_inv s" and "distinct ids" and "\<forall>i \<in> set ids. 0 \<le> i \<and> sm_find (path s) i = None"
  shows "results_inv (record_all val ids s)"
  using assms
proof (induction ids arbitrary: s)
  case (Cons i ids)
  have "results_inv (record_all val ids (record_value i (val i) s))"
    by (rule Cons.IH) (use Cons.prems results_inv_record in auto)
  then show ?case by (simp add: record_all_def)
qed (simp add: record_all_def)

lemma recorded_optimum:
  assumes "results_inv s" and "path s \<noteq> []"
  shows "optimum s \<noteq> - 1 \<and> worst s \<noteq> - 1"
  using assms by (auto simp: results_inv_def dest!: spec [of _ "- 1"])

lemma evaluate_ret:
  assumes "ex_evaluate fs i (res, w) = ret (res', w')"
  shows "\<exists>v f fs'. fs = f # fs' \<and> objective f i (srp (pool_set w)) = ret v \<and> res' = record_value i v res \<and>
    srp (pool_set w') = srp (pool_set w) \<and> tp_heap w' = tp_heap w"
  using assms
  by (cases fs; cases "getScenarioByScenarioID i (fsp (pool_set w))") (auto simp: ex_evaluate_def cbind_eq_ret)

lemma evaluate_total:
  assumes "objective f i (srp (pool_set w)) = ret v"
  shows "\<exists>w'. ex_evaluate (f # fs) i (res, w) = ret (record_value i v res, w') \<and> srp (pool_set w') = srp (pool_set w)"
  using assms by (simp add: ex_evaluate_def Let_def split: prod.split)

lemma cfold_evaluate_total:
  assumes "\<forall>i \<in> set ids. objective f i (srp (pool_set w)) = ret (val i)"
  shows "\<exists>w'. cfold (ex_evaluate (f # fs)) ids (res, w) = ret (record_all val ids res, w')"
  using assms
proof (induction ids arbitrary: res w)
  case Nil
  then show ?case by (simp add: record_all_def)
next
  case (Cons i ids)
  obtain w1 where w1: "ex_evaluate (f # fs) i (res, w) = ret (record_value i (val i) res, w1)"
    and srp: "srp (pool_set w1) = srp (pool_set w)"
    using evaluate_total Cons.prems by fastforce
  from Cons.IH [of w1 "record_value i (val i) res"] Cons.prems srp w1 show ?case
    by (auto simp: record_all_def)
qed

lemma cfold_evaluate_ret:
  assumes "cfold (ex_evaluate fs) ids (res, w) = ret (res', w')" and "distinct ids"
  shows "\<exists>val. res' = record_all val ids res \<and> tp_heap w' = tp_heap w \<and>
    (\<forall>i \<in> set ids. \<exists>f fs'. fs = f # fs' \<and> objective f i (srp (pool_set w)) = ret (val i))"
  using assms
proof (induction ids arbitrary: res w)
  case Nil
  then show ?case by (simp add: record_all_def)
next
  case (Cons i ids)
  then obtain res1 w1 where one: "ex_evaluate fs i (res, w) = ret (res1, w1)"
    and rest: "cfold (ex_evaluate fs) ids (res1, w1) = ret (res', w')"
    by (auto simp: cbind_eq_ret)
  from evaluate_ret [OF one] obtain v f fs' where v: "res1 = record_value i v res" "fs = f # fs'"
    "objective f i (srp (pool_set w)) = ret v" "srp (pool_set w1) = srp (pool_set w)" "tp_heap w1 = tp_heap w" by blast
  from Cons.IH [OF rest] Cons.prems(2) obtain val where val: "res' = record_all val ids res1" "tp_heap w' = tp_heap w1"
    "\<forall>j \<in> set ids. \<exists>f fs'. fs = f # fs' \<and> objective f j (srp (pool_set w1)) = ret (val j)" by auto
  have "record_all (val(i := v)) (i # ids) res = record_all val ids res1"
    using Cons.prems(2) unfolding record_all_def v by (auto intro: fold_cong)
  then obtain g where "record_all g (i # ids) res = record_all val ids res1" "g i = v" "\<forall>j \<in> set ids. g j = val j"
    using Cons.prems(2) by (metis (mono_tags, lifting) distinct.simps(2) fun_upd_apply)
  with val v show ?case by (intro exI [of _ g]) auto
qed

text \<open>The invariant between search steps.\<close>

definition ex_inv :: "exhaustive \<Rightarrow> bool" where
  "ex_inv s \<longleftrightarrow> results_inv (results s) \<and> distinct (scenarioIds s) \<and>
     (\<forall>i \<in> set (scenarioIds s). 0 \<le> i \<and> sm_find (path (results s)) i = None)"

lemma ex_getOptimum_ret: "ex_getOptimum s = ret i \<Longrightarrow> i = optimum (results s) \<and> i \<noteq> - 1"
  by (auto simp: ex_getOptimum_def check_def split: if_splits)

text \<open>What a successful evaluation does, for the searches built on this one.\<close>

lemma ex_searchFinished_ret:
  assumes fin: "ex_searchFinished s w = ret (b, t, w')" and inv: "ex_inv s"
  shows "\<exists>val. results t = record_all val (scenarioIds s) (results s) \<and> scenarioIds t = [] \<and>
    ex_inv t \<and> tp_heap w' = tp_heap w \<and> b \<and>
    (\<forall>i \<in> set (scenarioIds s). \<exists>f fs. objectiveFunctions s = f # fs \<and> objective f i (srp (pool_set w)) = ret (val i))"
proof -
  from fin obtain res where c: "cfold (ex_evaluate (objectiveFunctions s)) (scenarioIds s) (results s, w) = ret (res, w')"
    and t: "t = s\<lparr>results := res, scenarioIds := []\<rparr>" "b"
    by (auto simp: ex_searchFinished_def cbind_eq_ret)
  from cfold_evaluate_ret [OF c] inv obtain val where res: "res = record_all val (scenarioIds s) (results s)"
    and val: "tp_heap w' = tp_heap w" "\<forall>i \<in> set (scenarioIds s). \<exists>f fs. objectiveFunctions s = f # fs \<and>
      objective f i (srp (pool_set w)) = ret (val i)" by (auto simp: ex_inv_def)
  have "results_inv res" unfolding res by (rule results_inv_record_all) (use inv in \<open>auto simp: ex_inv_def\<close>)
  with t res val show ?thesis by (auto simp: ex_inv_def)
qed

interpretation exh: search_algorithm ex_searchFinished ex_getOptimum "\<lambda>s. path (results s)" scenarioIds ex_inv "\<lambda>_ _. True"
proof unfold_locales
  fix s w b t w'
  assume inv: "ex_inv s" and fin: "ex_searchFinished s w = ret (b, t, w')"
  from ex_searchFinished_ret [OF fin inv] show "ex_inv t \<and> scenarioIds t = [] \<and>
      dom (sm_find (path (results t))) = dom (sm_find (path (results s))) \<union> set (scenarioIds s)"
    by (auto simp: dom_def find_record_all)
next
  fix s i j u v
  assume inv: "ex_inv s" and best: "ex_getOptimum s = ret i"
    and v: "sm_find (path (results s)) i = Some v" and u: "sm_find (path (results s)) j = Some u"
  have "i = optimum (results s)" "i \<noteq> - 1" using ex_getOptimum_ret [OF best] by auto
  then show "\<not> dlt u v" using results_inv_optimum [of "results s"] inv u v by (auto simp: ex_inv_def)
next
  fix s i
  assume inv: "ex_inv s" and best: "ex_getOptimum s = ret i"
  then show "sm_find (path (results s)) i \<noteq> None"
    using ex_getOptimum_ret [OF best] results_inv_optimum [of "results s"] by (auto simp: ex_inv_def)
qed

text \<open>
  Over several search steps the exhaustive search keeps its best: evaluating a step's queue in a
  state it can be in keeps the invariant and adds exactly the queue to the search path, and the
  scenario then named as the optimum is on the path with none of this or an earlier step better.
\<close>

theorem exhaustive_step_optimum:
  assumes "ex_inv s" and "ex_searchFinished s w = ret (b, t, w')" and "ex_getOptimum t = ret i" and "scenarioIds s \<noteq> []"
  shows "ex_inv t \<and> dom (sm_find (ex_getSearchPath t)) = dom (sm_find (ex_getSearchPath s)) \<union> set (scenarioIds s) \<and>
    (\<exists>v. sm_find (ex_getSearchPath t) i = Some v \<and> (\<forall>u \<in> ran (sm_find (ex_getSearchPath t)). \<not> dlt u v))"
proof -
  obtain v where "sm_find (path (results t)) i = Some v" "\<forall>u \<in> ran (sm_find (path (results t))). \<not> dlt u v"
    using exh.best_of_finished [OF assms(1) TrueI assms(2-4)] by blast
  with exh.finished_law [OF assms(1) TrueI assms(2)] show ?thesis by (auto simp: ex_getSearchPath_def)
qed

text \<open>
  C12: The exhaustive search finds the optimum: when the objective can be evaluated for every queued
  scenario, the search finishes, its path holds exactly their values, the scenario it reports as the
  optimum is one of them and no other has a smaller value, and none has a larger value than the one
  it reports as the worst.
\<close>

theorem exhaustive_finds_optimum:
  assumes "results s = no_results" and "scenarioIds s \<noteq> []" and "distinct (scenarioIds s)"
    and "objectiveFunctions s = f # fs"
    and "\<forall>i \<in> set (scenarioIds s). 0 \<le> i \<and> objective f i (srp (pool_set w)) = ret (val i)"
  shows "\<exists>t w' best bad. ex_searchFinished s w = ret (True, t, w') \<and> scenarioIds t = [] \<and>
    sm_find (path (results t)) = (\<lambda>i. if i \<in> set (scenarioIds s) then Some (val i) else None) \<and>
    ex_getOptimum t = ret best \<and> best \<in> set (scenarioIds s) \<and>
    (\<forall>i \<in> set (scenarioIds s). \<not> dlt (val i) (val best)) \<and>
    ex_getWorst t = ret bad \<and> bad \<in> set (scenarioIds s) \<and>
    (\<forall>i \<in> set (scenarioIds s). \<not> dlt (val bad) (val i))"
proof -
  let ?res = "record_all val (scenarioIds s) (results s)"
  obtain w' where "cfold (ex_evaluate (f # fs)) (scenarioIds s) (results s, w) = ret (?res, w')"
    using cfold_evaluate_total assms(5) by blast
  then have fin: "ex_searchFinished s w = ret (True, s\<lparr>results := ?res, scenarioIds := []\<rparr>, w')"
    by (simp add: ex_searchFinished_def assms(4))
  have find: "sm_find (path ?res) = (\<lambda>i. if i \<in> set (scenarioIds s) then Some (val i) else None)"
    by (simp add: fun_eq_iff find_record_all assms(1) no_results_def)
  have inv: "results_inv ?res"
    by (rule results_inv_record_all) (use assms in auto)
  have "path ?res \<noteq> []" using find assms(2) by (metis list.set_intros(1) list.exhaust option.distinct(1) sm_find_Nil)
  from recorded_optimum [OF inv this] have ne: "optimum ?res \<noteq> - 1" "worst ?res \<noteq> - 1" by auto
  note o = results_inv_optimum [OF inv ne(1), unfolded find]
  note w = results_inv_worst [OF inv ne(2), unfolded find]
  from o w ne have "ex_getOptimum (s\<lparr>results := ?res, scenarioIds := []\<rparr>) = ret (optimum ?res)"
    "ex_getWorst (s\<lparr>results := ?res, scenarioIds := []\<rparr>) = ret (worst ?res)"
    by (auto simp: ex_getOptimum_def ex_getWorst_def sm_has_def find)
  with fin find o w show ?thesis by (intro exI) (auto split: if_splits)
qed

text \<open>Three measured scenarios, of times 5, 3 and 4.\<close>

definition example_results :: "(int \<Rightarrow> dbl) \<Rightarrow> world" where
  "example_results val = example_world\<lparr>pool_set := new_ScenarioPoolSet\<lparr>srp := new_ScenarioResultsPool
     \<lparr>results_per_scenario_id := map (\<lambda>i. (i, [(new_MetaProperty 0)\<lparr>severity := val i\<rparr>])) [0, 1, 2]\<rparr>\<rparr>\<rparr>"

definition example_queue :: exhaustive where
  "example_queue = new_ExhaustiveSearch\<lparr>scenarioIds := [0, 1, 2], objectiveFunctions := [PTF_min]\<rparr>"

lemma example_objective:
  "i \<in> {0, 1, 2} \<Longrightarrow> objective PTF_min i (srp (pool_set (example_results val))) = ret (val i)"
  by (auto simp: objective_def getScenarioResultsByID_def example_results_def PTF_minObjective_def sm_find_Cons)

definition example_times :: "int \<Rightarrow> dbl" where
  "example_times i = (if i = 0 then dbl_of_int 5 else if i = 1 then dbl_of_int 3 else dbl_of_int 4)"

theorem exhaustive_finds_optimum_witness:
  "\<exists>t w'. ex_searchFinished example_queue (example_results example_times) = ret (True, t, w') \<and> ex_getOptimum t = ret 1"
proof -
  have q: "results example_queue = no_results" "scenarioIds example_queue = [0, 1, 2]"
    "objectiveFunctions example_queue = [PTF_min]"
    by (simp_all add: example_queue_def new_ExhaustiveSearch_def)
  have obj: "\<forall>i \<in> set (scenarioIds example_queue). 0 \<le> i \<and>
      objective PTF_min i (srp (pool_set (example_results example_times))) = ret (example_times i)"
    using example_objective by (simp add: q)
  have "scenarioIds example_queue \<noteq> []" "distinct (scenarioIds example_queue)" by (simp_all add: q)
  from exhaustive_finds_optimum [OF q(1) this q(3) obj]
  obtain t w' best where t: "ex_searchFinished example_queue (example_results example_times) = ret (True, t, w')"
    and b: "ex_getOptimum t = ret best" "best \<in> {0, 1, 2}"
    and least: "\<forall>i \<in> {0, 1, 2}. \<not> dlt (example_times i) (example_times best)"
    unfolding q by auto
  have "dlt (example_times 1) (example_times 0)" "dlt (example_times 1) (example_times 2)" by code_simp+
  with b(2) least have "best = 1" by auto
  with t b(1) show ?thesis by blast
qed

theorem exhaustive_step_optimum_witness:
  "\<exists>t w'. ex_searchFinished example_queue (example_results example_times) = ret (True, t, w') \<and> ex_getOptimum t = ret 1 \<and>
     dom (sm_find (ex_getSearchPath t)) = {0, 1, 2}"
proof -
  have "(case ex_searchFinished example_queue (example_results example_times) of
      Some (Inr (b, t, w)) \<Rightarrow> (b, ex_getOptimum t) | _ \<Rightarrow> (False, None)) = (True, ret 1)" by code_simp
  then obtain t w' where t: "ex_searchFinished example_queue (example_results example_times) = ret (True, t, w')"
    "ex_getOptimum t = ret 1" by (auto simp: ret_def split: option.splits sum.splits)
  have q: "scenarioIds example_queue = [0, 1, 2]" "results example_queue = no_results"
    by (simp_all add: example_queue_def new_ExhaustiveSearch_def)
  have "ex_inv example_queue" "scenarioIds example_queue \<noteq> []" by (simp_all add: ex_inv_def q)
  from exhaustive_step_optimum [OF this(1) t this(2)] t show ?thesis by (auto simp: q ex_getSearchPath_def dom_def)
qed

lemma record_all_nan:
  assumes "optimum s \<noteq> - 1" and "worst s \<noteq> - 1" and "is_nan (optimumValue s)" and "is_nan (worstValue s)"
  shows "optimum (record_all val ids s) = optimum s \<and> worst (record_all val ids s) = worst s"
  using assms unfolding record_all_def
proof (induction ids arbitrary: s)
  case (Cons i ids)
  let ?t = "record_value i (val i) s"
  have "optimum ?t = optimum s" "worst ?t = worst s" "optimumValue ?t = optimumValue s" "worstValue ?t = worstValue s"
    using Cons.prems by (simp_all add: record_value_def Let_def dlt_iff)
  with Cons.IH [of ?t] Cons.prems show ?case by simp
qed simp

text \<open>
  A not-a-number value poisons the search when it comes first: if the first queued scenario's
  objective is not-a-number, that scenario is reported both as the optimum and as the worst, whatever
  the values of the others are.
\<close>

theorem exhaustive_nan_first:
  assumes "results s = no_results" and "scenarioIds s = i # ids" and "objectiveFunctions s = f # fs"
    and "\<forall>j \<in> set (scenarioIds s). objective f j (srp (pool_set w)) = ret (val j)"
    and "0 \<le> i" and "is_nan (val i)" and "i \<notin> set ids"
  shows "\<exists>t w'. ex_searchFinished s w = ret (True, t, w') \<and> ex_getOptimum t = ret i \<and> ex_getWorst t = ret i"
proof -
  let ?first = "record_value i (val i) no_results"
  let ?res = "record_all val (scenarioIds s) (results s)"
  obtain w' where "cfold (ex_evaluate (f # fs)) (scenarioIds s) (results s, w) = ret (?res, w')"
    using cfold_evaluate_total assms(4) by blast
  then have fin: "ex_searchFinished s w = ret (True, s\<lparr>results := ?res, scenarioIds := []\<rparr>, w')"
    by (simp add: ex_searchFinished_def assms(3))
  have "?res = record_all val ids ?first" by (simp add: record_all_def assms(1,2))
  moreover have "optimum ?first = i" "worst ?first = i" "optimumValue ?first = val i" "worstValue ?first = val i"
    by (simp_all add: record_value_def no_results_def)
  ultimately have r: "optimum ?res = i" "worst ?res = i"
    using record_all_nan [of ?first val ids] assms(5,6) by auto
  moreover have "sm_find (path ?res) i = Some (val i)" by (simp add: find_record_all assms(2))
  ultimately show ?thesis using fin assms(5) by (simp add: ex_getOptimum_def ex_getWorst_def sm_has_def)
qed

theorem exhaustive_nan_first_witness:
  "\<exists>t w'. ex_searchFinished example_queue (example_results (\<lambda>i. if i = 0 then NaN else example_times i)) = ret (True, t, w') \<and>
     ex_getOptimum t = ret 0 \<and> ex_getWorst t = ret 0"
proof (rule exhaustive_nan_first)
  let ?val = "\<lambda>i. if i = 0 then NaN else example_times i"
  show "results example_queue = no_results" "scenarioIds example_queue = 0 # [1, 2]"
    "objectiveFunctions example_queue = PTF_min # []"
    by (simp_all add: example_queue_def new_ExhaustiveSearch_def)
  then show "\<forall>j \<in> set (scenarioIds example_queue). objective PTF_min j (srp (pool_set (example_results ?val))) = ret (?val j)"
    using example_objective [of _ ?val] by simp
qed (simp_all add: is_nan_def)

end
