(* ===== verification/DemoPlugin.thy ===== *)
theory DemoPlugin
  imports Driver Exhaustive
begin

text \<open>
  The demonstration plugin (\<open>autotune/plugins/demo\<close>) with the exhaustive search it loads by default,
  and the whole frontend run with it. What the plugin reads from its surroundings is a parameter:
  the tuning parameters extracted from the configuration, the phase region of the application, and
  the environment variables. A search algorithm selected by \<open>PSC_SEARCH_ALGORITHM\<close> is not modelled.
\<close>

section \<open>State and surroundings\<close>

record demo_env =
  extracted :: "tp_ptr list"
  lookup_region :: "string \<Rightarrow> region option"
  phase_region :: "region option"
  PSC_FORCE_RESTART :: bool
  PSC_RESTART_COMMAND :: "string option"
  PSC_PROCESS_COUNT :: "string option"
  PSC_NOT_INSTRUMENTED :: bool
  advice_ok :: bool
  demo_build :: build_env

record demo =
  demo_tps :: "tp_ptr list"
  demo_variantSpace :: variant_space
  demo_searchSpace :: search_space
  searchAlgorithm :: exhaustive

definition new_DemoPlugin :: demo where
  "new_DemoPlugin = \<lparr>demo_tps = [], demo_variantSpace = \<lparr>tuningParameters = []\<rparr>,
     demo_searchSpace = new_SearchSpace \<lparr>tuningParameters = []\<rparr>, searchAlgorithm = new_ExhaustiveSearch\<rparr>"

definition EXECTIME :: int where "EXECTIME = 116"

definition set_demo :: "demo \<Rightarrow> world \<Rightarrow> demo side \<Rightarrow> demo side" where
  "set_demo p w s = s\<lparr>plugin_state := p, tuning_world := w\<rparr>"

section \<open>The operations\<close>

definition demo_initialize :: "demo_env \<Rightarrow> demo side \<Rightarrow> demo side comp" where
  "demo_initialize denv s =
     (if extracted denv = [] then fail PluginError
      else ret (s\<lparr>plugin_state := (plugin_state s)\<lparr>demo_tps := extracted denv,
                                  searchAlgorithm := new_ExhaustiveSearch\<rparr>\<rparr>))"

text \<open>
  The region to tune is the one the first parameter is restricted to; a parameter without a
  restriction is a null pointer the code dereferences.
\<close>

definition demo_startTuningStep :: "demo_env \<Rightarrow> demo side \<Rightarrow> demo side comp" where
  "demo_startTuningStep denv s =
     (let p = plugin_state s;
          vs = fold addTuningParameter (demo_tps p) (demo_variantSpace p);
          ss = setVariantSpace vs (demo_searchSpace p)
      in case demo_tps p of [] \<Rightarrow> fail UB
         | tp # _ \<Rightarrow>
            (case tp_restriction (tp_heap (tuning_world s) tp) of None \<Rightarrow> fail UB
             | Some r \<Rightarrow>
                 cbind (Restriction_getRegion (lookup_region denv) r) (\<lambda>reg.
                 cbind (addRegion reg ss) (\<lambda>ss'.
                   ret (s\<lparr>plugin_state := p\<lparr>demo_variantSpace := vs, demo_searchSpace := ss',
                            searchAlgorithm := ex_addSearchSpace ss' (searchAlgorithm p)\<rparr>\<rparr>)))))"

definition demo_analysisRequired ::
  "demo side \<Rightarrow> (bool \<times> strategy_request option \<times> demo side) comp" where
  "demo_analysisRequired s = ret (False, None, s)"

definition demo_createScenarios :: "demo_env \<Rightarrow> demo side \<Rightarrow> demo side comp" where
  "demo_createScenarios denv s =
     cbind (ex_createScenarios (demo_build denv) (searchAlgorithm (plugin_state s)) (tuning_world s)) (\<lambda>(a, w).
       ret (set_demo ((plugin_state s)\<lparr>searchAlgorithm := a\<rparr>) w s))"

text \<open>Moving all scenarios from one pool to the next.\<close>

definition move_body :: "scenario_pool \<times> scenario_pool \<Rightarrow> (bool \<times> scenario_pool \<times> scenario_pool) comp" where
  "move_body = (\<lambda>(c, p).
     if ScenarioPool_empty c then ret (False, (c, p))
     else cbind (ScenarioPool_pop c) (\<lambda>(scenario, c').
       case scenario of None \<Rightarrow> fail UB | Some sc \<Rightarrow> ret (True, (c', ScenarioPool_push sc p))))"

definition set_side_pools :: "scenario_pool_set \<Rightarrow> 'p side \<Rightarrow> 'p side" where
  "set_side_pools ps s = s\<lparr>tuning_world := (tuning_world s)\<lparr>pool_set := ps\<rparr>\<rparr>"

definition demo_prepareScenarios :: "demo side \<Rightarrow> demo side comp" where
  "demo_prepareScenarios s =
     (let ps = pool_set (tuning_world s)
      in cbind (loop move_body (csp ps, psp ps)) (\<lambda>(c, p). ret (set_side_pools (ps\<lparr>csp := c, psp := p\<rparr>) s)))"

text \<open>One scenario per process: rank \<open>i\<close> runs the \<open>i\<close>-th scenario of the experiment.\<close>

definition define_body ::
  "demo_env \<Rightarrow> int \<Rightarrow> int \<times> scenario_pool \<times> scenario_pool \<Rightarrow> (bool \<times> int \<times> scenario_pool \<times> scenario_pool) comp" where
  "define_body denv numprocs = (\<lambda>(i, p, e).
     if ScenarioPool_empty p \<or> \<not> i < numprocs then ret (False, (i, p, e))
     else cbind (ScenarioPool_pop p) (\<lambda>(scenario, p').
       case scenario of None \<Rightarrow> fail UB
       | Some sc \<Rightarrow>
          (case sc_ts sc of None \<Rightarrow> fail UB
           | Some ts \<Rightarrow>
              if length ts \<noteq> 1 then fail Throw0
              else let sc1 = sc\<lparr>sc_ts := Some [TuningSpecification_setSingleRank i (hd ts)]\<rparr>;
                       sc2 = setSingleTunedRegionWithPropertyRank (phase_region denv) EXECTIME (word_of_int i) sc1
                   in ret (True, (i + 1, p', ScenarioPool_push sc2 e)))))"

definition demo_info :: strategy_info where
  "demo_info = \<lparr>strategy_name = ''ConfigAnalysis'', pedantic = True, delay_phases = 0, delay_seconds = 0,
     analysis_duration = 1\<rparr>"

definition demo_defineExperiment ::
  "demo_env \<Rightarrow> int \<Rightarrow> bool \<times> strategy_request option \<times> demo side
     \<Rightarrow> (bool \<times> strategy_request option \<times> demo side) comp" where
  "demo_defineExperiment denv numprocs = (\<lambda>(required, strategy, s).
     let ps = pool_set (tuning_world s)
     in cbind (loop (define_body denv numprocs) (0, psp ps, esp ps)) (\<lambda>(i, p, e).
        cbind (PropertyRequest_addRegion (phase_region denv) (PropertyRequest_all [])) (\<lambda>req1.
        cbind (addPropertyID EXECTIME req1) (\<lambda>req2.
          ret (True, Some (new_StrategyRequest (CONFIG [addAllProcesses req2]) demo_info),
               set_side_pools (ps\<lparr>psp := p, esp := e\<rparr>) s)))))"

definition demo_restartRequired ::
  "demo_env \<Rightarrow> string \<times> int \<times> string \<times> bool \<Rightarrow> demo side
     \<Rightarrow> (bool \<times> (string \<times> int \<times> string \<times> bool) \<times> demo side) comp" where
  "demo_restartRequired denv = (\<lambda>(env, numprocs, command, instrumented) s.
     if PSC_FORCE_RESTART denv
     then cbind (case PSC_PROCESS_COUNT denv of None \<Rightarrow> ret numprocs | Some t \<Rightarrow> c_atoi t) (\<lambda>n.
            ret (True, (env, n, command @ (case PSC_RESTART_COMMAND denv of None \<Rightarrow> '''' | Some c \<Rightarrow> c),
                        instrumented \<and> \<not> PSC_NOT_INSTRUMENTED denv), s))
     else ret (False, (env, numprocs, command, instrumented), s))"

definition demo_searchFinished :: "demo side \<Rightarrow> (bool \<times> demo side) comp" where
  "demo_searchFinished s =
     cbind (ex_searchFinished (searchAlgorithm (plugin_state s)) (tuning_world s)) (\<lambda>(b, a, w).
       ret (b, set_demo ((plugin_state s)\<lparr>searchAlgorithm := a\<rparr>) w s))"

definition demo_tuningFinished :: "demo side \<Rightarrow> (bool \<times> demo side) comp" where
  "demo_tuningFinished s = ret (True, s)"

text \<open>
  The advice: the report reads the results of scenarios 0 up to the number of finished ones, and
  throws when one of them has none; the optimum is looked up in the finished pool by \<open>operator[]\<close>.
\<close>

definition demo_getAdvice :: "demo_env \<Rightarrow> demo side \<Rightarrow> (bool option \<times> demo side) comp" where
  "demo_getAdvice denv s =
     cbind (ex_getOptimum (searchAlgorithm (plugin_state s))) (\<lambda>best.
       let ps = pool_set (tuning_world s)
       in cbind (cfold (\<lambda>i _. cbind (getScenarioResultsByID i (srp ps)) (\<lambda>_. ret ()))
                   (map int [0..<length (fsp ps)]) ()) (\<lambda>_.
          ret (Some (advice_ok denv), set_side_pools (ps\<lparr>fsp := snd (sm_index None best (fsp ps))\<rparr>) s)))"

definition demo_finishTuningStep :: "demo side \<Rightarrow> demo side comp" where
  "demo_finishTuningStep s = ret s"

definition demo_finalize :: "demo side \<Rightarrow> demo side comp" where
  "demo_finalize s = ret s"

definition demo_plugin :: "demo_env \<Rightarrow> demo plugin" where
  "demo_plugin denv =
     \<lparr>pl_initialize = demo_initialize denv,
      pl_startTuningStep = demo_startTuningStep denv,
      pl_analysisRequired = demo_analysisRequired,
      pl_createScenarios = demo_createScenarios denv,
      pl_prepareScenarios = demo_prepareScenarios,
      pl_defineExperiment = demo_defineExperiment denv,
      pl_restartRequired = demo_restartRequired denv,
      pl_searchFinished = demo_searchFinished,
      pl_finishTuningStep = demo_finishTuningStep,
      pl_tuningFinished = demo_tuningFinished,
      pl_getAdvice = demo_getAdvice denv,
      pl_finalize = demo_finalize\<rparr>"

section \<open>The plugin keeps the driver's contract\<close>

lemma searchFinished_True: "ex_searchFinished s w = ret (b, t, w') \<Longrightarrow> b"
  by (auto simp: ex_searchFinished_def cbind_eq_ret)

interpretation demo: tuning_plugin "demo_plugin denv" "\<lambda>_. True" "\<lambda>_. True" for denv
  by unfold_locales
    (auto simp: demo_plugin_def demo_searchFinished_def demo_analysisRequired_def cbind_eq_ret
      dest!: searchFinished_True)

section \<open>Nothing of it exits the program\<close>

lemma no_exit_if [intro!]: "(b \<Longrightarrow> no_exit c) \<Longrightarrow> (\<not> b \<Longrightarrow> no_exit d) \<Longrightarrow> no_exit (if b then c else d)"
  by simp

lemma no_exit_check [intro!]: "e \<noteq> ExitFailure \<Longrightarrow> no_exit c \<Longrightarrow> no_exit (check b e c)"
  by (simp add: check_def)

lemma no_exit_sm_at [simp]: "no_exit (sm_at m k)"
  by (simp add: sm_at_def split: option.split)

lemma no_exit_stod [simp]: "no_exit (std_stod s)"
  by (simp add: no_exit_def std_stod_def Let_def split: option.split if_split prod.split dbl.split)

lemma no_exit_info [simp]: "no_exit (info_value k mp)"
  by (simp add: info_value_def split: option.split)

lemmas no_exit_rules = no_exit_cbind no_exit_cfold

lemma no_exit_measures [simp]:
  "no_exit (add_energy i mp e)" "no_exit (add_energy_per_instr i mp n e)" "no_exit (time_value i mp)"
  "no_exit (time_per_instr i mp n)"
  by (auto simp: add_energy_def add_energy_per_instr_def time_value_def time_per_instr_def intro!: no_exit_rules)

lemma no_exit_int64 [simp]: "no_exit (dbl_to_int64 d)"
  by (cases d) (auto simp: Let_def)

lemma no_exit_energy_time [simp]: "no_exit (energy_time t props)" "no_exit (energy_time_per_instr t props)"
  unfolding energy_time_def energy_time_per_instr_def
  by (auto intro!: no_exit_rules split: prod.split)

lemma no_exit_process [simp]: "no_exit (getProcess mp)"
  by (auto simp: no_exit_def getProcess_def split: list.split)

lemma no_exit_speedup [simp]: "no_exit (Inverse_speedupObjective base props)"
  by (auto simp: Inverse_speedupObjective_def Let_def intro!: no_exit_rules split: list.split)

lemma no_exit_objective_props [simp]: "no_exit (objective_props f base props)"
  by (cases f)
    (auto simp: EnergyObjective_def NormalizedEnergyObjective_def CPUEnergyObjective_def
      NormalizedCPUEnergyObjective_def EDPObjective_def NormalizedEDPObjective_def ED2PObjective_def
      NormalizedED2PObjective_def TimeObjective_def NormalizedTimeObjective_def TCOObjective_def
      NormalizedTCOObjective_def PTF_minObjective_def PTF_maxObjective_def
      Let_def split: list.split prod.split intro!: no_exit_rules)

lemma no_exit_results [simp]: "no_exit (getScenarioResultsByID i p)"
  by (simp add: getScenarioResultsByID_def split: option.split)

lemma no_exit_objective [simp]: "no_exit (objective f i p)"
  by (auto simp: objective_def simp del: objective_props.simps intro!: no_exit_rules)

lemma no_exit_search [simp]: "no_exit (ex_searchFinished s w)"
  unfolding ex_searchFinished_def ex_evaluate_def
  by (auto intro!: no_exit_rules split: list.split prod.split simp: Let_def)

lemma no_exit_for_range:
  assumes "\<And>i s. no_exit (body i s)"
  shows "no_exit (for_range from to step body s)"
  unfolding for_range_def range_body_def
  by (auto intro!: no_exit_rules no_exit_loop assms split: prod.split)

lemma no_exit_for_values: "(\<And>i s. no_exit (body i s)) \<Longrightarrow> no_exit (for_values tp body s)"
  unfolding for_values_def by (auto intro!: no_exit_rules no_exit_for_range split: option.split)

lemma no_exit_iterate_TP: "(\<And>v s. no_exit (leaf v s)) \<Longrightarrow> no_exit (iterate_TP heap leaf tps vs)"
  by (induction tps arbitrary: vs) (auto intro!: no_exit_rules no_exit_for_values split: prod.split)

lemma no_exit_copy: "no_exit (copy_specifications env ts)"
  by (induction ts) (auto intro!: no_exit_rules simp: context_entities_def split: variant_context.split)

lemma no_exit_region_ids [simp]: "no_exit (region_ids rs)"
  by (induction rs rule: region_ids.induct) (auto intro!: no_exit_rules)

lemma no_exit_rts_paths [simp]: "no_exit (rts_paths ps)"
  by (induction ps rule: rts_paths.induct) (auto intro!: no_exit_rules)

lemma no_exit_iterate_SS: "no_exit (iterate_SS env heap sss ts qw)"
proof (induction sss arbitrary: ts qw)
  case Nil
  then show ?case by (auto simp: generatescenario_def intro!: no_exit_rules no_exit_copy)
next
  case (Cons ss sss)
  then show ?case
    by (auto intro!: no_exit_rules no_exit_iterate_TP split: prod.split list.split
        simp: space_specification_def TuningSpecification_rtss_def TuningSpecification_regions_def)
qed

lemma no_exit_create [simp]: "no_exit (ex_createScenarios env s w)"
  by (auto simp: ex_createScenarios_def Let_def intro!: no_exit_rules no_exit_iterate_SS split: prod.split)

lemma no_exit_move [simp]: "no_exit (loop move_body s)" "no_exit (loop (define_body denv n) t)"
  by (auto intro!: no_exit_loop no_exit_rules simp: move_body_def define_body_def Let_def
      split: prod.split option.split)

definition calm_surroundings :: "('p, 'e) outside \<Rightarrow> bool" where
  "calm_surroundings out \<longleftrightarrow> (\<forall>a f e. no_exit (communicate out a f e)) \<and> (\<forall>c e. no_exit (call out c e)) \<and>
     (\<forall>k t s. no_exit (timer_callback out k t s))"

lemma calm_demo:
  assumes "calm_surroundings out" and "plug out = demo_plugin denv"
  shows "calm out"
  unfolding calm_def assms(2)
proof (intro conjI allI)
  fix n r q and s :: "demo side" and a f e c k t
  show "no_exit (pl_initialize (demo_plugin denv) s)" by (simp add: demo_plugin_def demo_initialize_def)
  show "no_exit (pl_startTuningStep (demo_plugin denv) s)"
    by (auto simp: demo_plugin_def demo_startTuningStep_def Let_def Restriction_getRegion_def addRegion_def
        intro!: no_exit_rules split: list.split option.split)
  show "no_exit (pl_analysisRequired (demo_plugin denv) s)" by (simp add: demo_plugin_def demo_analysisRequired_def)
  show "no_exit (pl_createScenarios (demo_plugin denv) s)"
    by (auto simp: demo_plugin_def demo_createScenarios_def intro!: no_exit_rules split: prod.split)
  show "no_exit (pl_prepareScenarios (demo_plugin denv) s)"
    by (auto simp: demo_plugin_def demo_prepareScenarios_def Let_def intro!: no_exit_rules split: prod.split)
  show "no_exit (pl_defineExperiment (demo_plugin denv) n r)"
    by (auto simp: demo_plugin_def demo_defineExperiment_def Let_def PropertyRequest_addRegion_def addPropertyID_def
        intro!: no_exit_rules split: prod.split option.split)
  show "no_exit (pl_restartRequired (demo_plugin denv) q s)"
    by (auto simp: demo_plugin_def demo_restartRequired_def intro!: no_exit_rules split: prod.split option.split)
  show "no_exit (pl_searchFinished (demo_plugin denv) s)"
    by (auto simp: demo_plugin_def demo_searchFinished_def intro!: no_exit_rules split: prod.split)
  show "no_exit (pl_finishTuningStep (demo_plugin denv) s)" by (simp add: demo_plugin_def demo_finishTuningStep_def)
  show "no_exit (pl_tuningFinished (demo_plugin denv) s)" by (simp add: demo_plugin_def demo_tuningFinished_def)
  show "no_exit (pl_getAdvice (demo_plugin denv) s)"
    by (auto simp: demo_plugin_def demo_getAdvice_def ex_getOptimum_def Let_def intro!: no_exit_rules)
  show "no_exit (pl_finalize (demo_plugin denv) s)" by (simp add: demo_plugin_def demo_finalize_def)
qed (use assms(1) in \<open>auto simp: calm_surroundings_def\<close>)

section \<open>The whole run\<close>

text \<open>
  The frontend run with the demonstration plugin follows the autotune state machine: whatever the
  agents, the application and the clock do, as long as they do not end the program themselves, no
  event arises that the current state has no transition for, and if the run returns the machine is
  in its final state and the plugin is marked as executed.
\<close>

theorem demo_run_follows_machine:
  assumes "calm_surroundings out" and "plug out = demo_plugin denv"
  shows "run_tuning_plugin out opts d \<noteq> fail ExitFailure \<and>
    (\<forall>d'. run_tuning_plugin out opts d = ret d' \<longrightarrow> msm d' = FinalState \<and> tuning_plugin_executed d')"
  using demo.driver_follows_machine [OF calm_demo [OF assms] assms(2)] unfolding post_def by blast

text \<open>
  A small complete run: agents that answer every scenario of a request with its value, one parameter
  with the settings 0, 1 and 2, one process. It returns after three experiments with the optimum.
\<close>

definition answer :: "(int \<Rightarrow> dbl) \<Rightarrow> scenario \<Rightarrow> meta_property" where
  "answer val sc = addExtraInfo ''ScenarioID'' (print_int (uint (sc_id sc)))
     ((new_MetaProperty 0)\<lparr>severity := val (sc_key sc), purpose := PSC_PROPERTY_PURPOSE_TUNING\<rparr>)"

definition prompt_outside :: "'p plugin \<Rightarrow> (int \<Rightarrow> dbl) \<Rightarrow> ('p, scenario list) outside" where
  "prompt_outside P val =
     \<lparr>plug = P,
      communicate = (\<lambda>a f e. ret (\<lparr>received = (if a = STARTUP then map (answer val) e else []),
                                  restart_needed = False, hierarchy_up = True\<rparr>,
                                 if a = STARTUP then [] else e)),
      call = (\<lambda>c e. ret (case c of SerializeRequest r \<Rightarrow> (case sr_configuration r of TUNE s \<Rightarrow> s | _ \<Rightarrow> []) | _ \<Rightarrow> e)),
      psc_wall_time = (\<lambda>e. (dbl_of_int 0, e)),
      timer_callback = (\<lambda>k t s. ret s)\<rparr>"

definition demo_surroundings :: demo_env where
  "demo_surroundings = \<lparr>extracted = [0], lookup_region = (\<lambda>r. Some \<lparr>regionID = r\<rparr>), phase_region = Some \<lparr>regionID = ''main''\<rparr>,
     PSC_FORCE_RESTART = False, PSC_RESTART_COMMAND = None, PSC_PROCESS_COUNT = None, PSC_NOT_INSTRUMENTED = False,
     advice_ok = True, demo_build = \<lparr>withRtsSupport = False, uninit_bool = False\<rparr>\<rparr>"

definition example_frontend :: "(demo, scenario list) frontend" where
  "example_frontend = fresh_frontend
     \<lparr>plugin_state = new_DemoPlugin,
      tuning_world = \<lparr>pool_set = new_ScenarioPoolSet, next_scenario_id = 0,
        tp_heap = (\<lambda>p. (example_tp 0 2 1)\<lparr>tp_restriction :=
          Some (new_Restriction\<lparr>regionDefined := True, restr_region := ''main''\<rparr>)\<rparr>)\<rparr>,
      timers = []\<rparr> []"

definition run_example :: "(demo, scenario list) frontend comp" where
  "run_example = run_tuning_plugin (prompt_outside (demo_plugin demo_surroundings) example_times) example_opts example_frontend"

definition run_summary ::
  "(demo, 'e) frontend comp \<Rightarrow> (autotune_state \<times> int \<times> int \<times> int \<times> int comp \<times> int list) option" where
  "run_summary c = (case c of
     Some (Inr d) \<Rightarrow> Some (msm d, tuning_step d, search_step d, experiment_count d,
       ex_getOptimum (searchAlgorithm (plugin_state (side d))), map fst (fsp (fe_pools d)))
   | _ \<Rightarrow> None)"

lemma run_summary_ret: "run_summary c = Some x \<Longrightarrow> \<exists>d. c = ret d"
  by (auto simp: run_summary_def ret_def split: option.splits sum.splits)

lemma run_example_result: "run_summary run_example = Some (FinalState, 1, 1, 3, ret 1, [0, 1, 2])"
  by code_simp

theorem demo_run_follows_machine_witness:
  "\<exists>d'. run_example = ret d' \<and> msm d' = FinalState \<and> tuning_plugin_executed d'"
proof -
  have c: "calm_surroundings (prompt_outside (demo_plugin demo_surroundings) example_times)"
    by (auto simp: calm_surroundings_def prompt_outside_def)
  obtain d' where d': "run_example = ret d'"
    using run_summary_ret run_example_result by blast
  have "plug (prompt_outside (demo_plugin demo_surroundings) example_times) = demo_plugin demo_surroundings"
    by (simp add: prompt_outside_def)
  from demo_run_follows_machine [OF c this, of example_opts example_frontend] d' show ?thesis
    unfolding run_example_def by blast
qed

end
