(* ===== verification/Individual.thy ===== *)
theory Individual
  imports Exhaustive
begin

text \<open>
  The individual search (\<open>autotune/searchalgorithms/individual\<close>): it tunes one parameter per search
  step. A step hands an inner exhaustive search the parameters explored so far, each restricted to its
  best value, together with the next one; when the step is evaluated the next parameter is restricted
  to the value of the best scenario if that improves on all earlier steps, and dropped otherwise.
\<close>

section \<open>State\<close>

text \<open>
  The inner search is the exhaustive one \<open>initialize\<close> loads. The lists of parameters, regions and
  rts's are the search's own copies of those of its one search space.
\<close>

record individual =
  searchAlgorithm :: exhaustive
  ind_variantSpace :: variant_space
  searchStepCount :: int
  ind_tuningParameters :: "tp_ptr list"
  ind_regions :: "region list"
  ind_rtsVector :: "rts_ref list"
  ind_searchSpaces :: "search_space list"
  ind_objectiveFunctions :: "objective_function list"
  selection :: "(int, int) smap"
  ind_results :: "(int \<times> dbl) list"
  individualSearchPath :: "(int, dbl) smap"
  bestScenario :: int
  bestTime :: dbl
  tpEliminated :: int
  individual_keep :: int
  worstScenario :: int
  worstTime :: dbl

text \<open>
  The constructor sets none of the numbers; \<open>junk\<close> is what they hold. \<open>initialize\<close> sets all but the
  two times, which are read only once a scenario has been recorded. \<open>loaded\<close> tells whether the
  exhaustive search could be loaded.
\<close>

definition new_IndividualSearch :: "individual \<Rightarrow> individual" where
  "new_IndividualSearch junk = junk\<lparr>ind_variantSpace := \<lparr>tuningParameters = []\<rparr>, ind_tuningParameters := [],
     ind_regions := [], ind_rtsVector := [], ind_searchSpaces := [], ind_objectiveFunctions := [],
     selection := [], ind_results := [], individualSearchPath := []\<rparr>"

definition ind_initialize :: "bool \<Rightarrow> individual \<Rightarrow> individual comp" where
  "ind_initialize loaded s =
     check loaded Throw0 (ret (s\<lparr>individual_keep := 1, bestScenario := - 1, worstScenario := - 1,
       searchStepCount := 0, tpEliminated := 0, searchAlgorithm := new_ExhaustiveSearch\<rparr>))"

definition ind_addObjectiveFunction :: "objective_function \<Rightarrow> individual \<Rightarrow> individual" where
  "ind_addObjectiveFunction f s = s\<lparr>ind_objectiveFunctions := ind_objectiveFunctions s @ [f]\<rparr>"

definition setScenariosToKeep :: "int \<Rightarrow> individual \<Rightarrow> individual" where
  "setScenariosToKeep k s = s\<lparr>individual_keep := k\<rparr>"

definition ind_addSearchSpace :: "search_space \<Rightarrow> individual \<Rightarrow> individual comp" where
  "ind_addSearchSpace ss s =
     (if ind_searchSpaces s = []
      then ret (s\<lparr>ind_searchSpaces := [ss], ind_tuningParameters := tuningParameters (variantSpace ss),
                  ind_regions := regions ss, ind_rtsVector := rtsVector ss\<rparr>)
      else fail Throw0)"

definition ind_getOptimum :: "individual \<Rightarrow> int" where
  "ind_getOptimum s = bestScenario s"

definition ind_getWorst :: "individual \<Rightarrow> int" where
  "ind_getWorst s = worstScenario s"

definition ind_getSearchPath :: "individual \<Rightarrow> (int, dbl) smap" where
  "ind_getSearchPath s = individualSearchPath s"

text \<open>\<open>clear\<close> forgets the search space, but neither its parameters nor any result.\<close>

definition ind_clear :: "individual \<Rightarrow> individual" where
  "ind_clear s = s\<lparr>ind_searchSpaces := []\<rparr>"

section \<open>One search step\<close>

text \<open>The position of the parameter under exploration.\<close>

definition current :: "individual \<Rightarrow> int" where
  "current s = searchStepCount s - 1 - tpEliminated s"

definition vector_at :: "'a list \<Rightarrow> int \<Rightarrow> 'a comp" where
  "vector_at xs i = (if 0 \<le> i \<and> i < int (length xs) then ret (xs ! nat i) else fail UB)"

text \<open>The step's search space; without a region or rts one made by the default constructor is added.\<close>

definition default_region :: region where
  "default_region = \<lparr>regionID = Region_getRegionID '''' '''' 0\<rparr>"

definition step_space :: "build_env \<Rightarrow> variant_space \<Rightarrow> individual \<Rightarrow> search_space comp" where
  "step_space env vs s =
     (let ss = setVariantSpace vs (new_SearchSpace \<lparr>tuningParameters = []\<rparr>)
      in if withRtsSupport env
         then if ind_rtsVector s = [] then addRts (Some \<lparr>callPath = ''''\<rparr>) ss
              else cfold (\<lambda>r. addRts (Some r)) (ind_rtsVector s) ss
         else if ind_regions s = [] then addRegion (Some default_region) ss
              else cfold (\<lambda>r. addRegion (Some r)) (ind_regions s) ss)"

text \<open>
  The value the current parameter has in a scenario of the created pool. The code reads it from a copy
  of the variant with \<open>operator[]\<close>, so a missing parameter counts as 0.
\<close>

definition select_value ::
  "tp_ptr list \<Rightarrow> int \<Rightarrow> int \<times> scenario option \<Rightarrow> (int, int) smap \<Rightarrow> (int, int) smap comp" where
  "select_value tps i entry sel = (case entry of (_, sc) \<Rightarrow>
     (case sc of None \<Rightarrow> ret sel
      | Some scenario \<Rightarrow>
         (case sc_ts scenario of
            Some (t # _) \<Rightarrow>
              cbind (vector_at tps i) (\<lambda>tp.
                ret (sm_put (sc_key scenario) (fst (sm_index 0 tp (ts_variant t))) sel))
          | _ \<Rightarrow> fail UB)))"

definition ind_createScenarios :: "build_env \<Rightarrow> individual \<Rightarrow> world \<Rightarrow> (individual \<times> world) comp" where
  "ind_createScenarios env s w =
     (let inner = ex_clear (searchAlgorithm s);
          s1 = (if ind_objectiveFunctions s = [] then ind_addObjectiveFunction PTF_min s else s);
          inner1 = fold ex_addObjectiveFunction (ind_objectiveFunctions s1) inner;
          count = searchStepCount s1 + 1;
          vs = fold addTuningParameter (take (nat (count - tpEliminated s1)) (ind_tuningParameters s1))
                 (VariantSpace_clear (ind_variantSpace s1))
      in check (in_int count) UB
         (cbind (step_space env vs s1) (\<lambda>ss.
          cbind (ex_createScenarios env (ex_addSearchSpace ss inner1) w) (\<lambda>(inner2, w').
          cbind (cfold (select_value (ind_tuningParameters s1) (count - 1 - tpEliminated s1)) (csp (pool_set w')) []) (\<lambda>sel.
            ret (s1\<lparr>searchAlgorithm := inner2, ind_variantSpace := vs, searchStepCount := count, selection := sel\<rparr>, w'))))))"

text \<open>
  \<open>std::sort\<close> on pairs compared by value. It needs \<open><\<close> to be a strict weak order on the elements,
  which a not-a-number can break, and promises a sorted permutation; which one is up to the library
  when values are equal, so the function is an argument.
\<close>

definition weak_order_on :: "dbl list \<Rightarrow> bool" where
  "weak_order_on vs \<longleftrightarrow> (\<forall>a \<in> set vs. \<forall>b \<in> set vs. \<forall>c \<in> set vs.
     \<not> dlt a b \<and> \<not> dlt b a \<and> \<not> dlt b c \<and> \<not> dlt c b \<longrightarrow> \<not> dlt a c \<and> \<not> dlt c a)"

type_synonym result_sort = "(int \<times> dbl) list \<Rightarrow> (int \<times> dbl) list"

definition sort_results :: "result_sort \<Rightarrow> (int \<times> dbl) list \<Rightarrow> (int \<times> dbl) list comp" where
  "sort_results std_sort rs = check (weak_order_on (map snd rs)) UB (ret (std_sort rs))"

definition sorts :: "result_sort \<Rightarrow> bool" where
  "sorts std_sort \<longleftrightarrow> (\<forall>rs. weak_order_on (map snd rs) \<longrightarrow>
     set (std_sort rs) = set rs \<and> length (std_sort rs) = length rs \<and>
     sorted_wrt (\<lambda>a b. \<not> dlt (snd b) (snd a)) (std_sort rs))"

text \<open>
  The loop that collects the values worth keeping: the \<open>i\<close>-th best scenario's value of the parameter,
  unless it is there already. \<open>selection[ ... ]\<close> inserts 0 for a scenario it does not know.
\<close>

definition keep_value ::
  "(int \<times> dbl) list \<Rightarrow> int \<Rightarrow> restriction \<times> (int, int) smap \<Rightarrow> (restriction \<times> (int, int) smap) comp" where
  "keep_value rs i kept = (case kept of (r, sel) \<Rightarrow>
     cbind (vector_at rs i) (\<lambda>(scenario_id, _).
       let (v, sel') = sm_index 0 scenario_id sel
       in ret (if v \<in> set (elements r) then r else Restriction_addElement v r, sel')))"

text \<open>\<open>( to - from ) / step + 1\<close> in \<open>int\<close> arithmetic.\<close>

definition range_size :: "tuning_parameter \<Rightarrow> int comp" where
  "range_size tp = check (in_int (rangeTo tp - rangeFrom tp)) UB
     (cbind (cdiv (rangeTo tp - rangeFrom tp) (rangeStep tp)) (\<lambda>q. check (in_int (q + 1)) UB (ret (q + 1))))"

definition keep_best ::
  "int \<Rightarrow> tuning_parameter \<Rightarrow> (int \<times> dbl) list \<Rightarrow> (int, int) smap \<Rightarrow> (restriction \<times> (int, int) smap) comp" where
  "keep_best keep tp rs sel =
     cbind (range_size tp) (\<lambda>sizeRange.
       cfold (keep_value rs) (map int [0..<nat (min sizeRange keep)]) (Restriction_setType 2 new_Restriction, sel))"

text \<open>\<open>results.begin()\<close> and \<open>results.back()\<close> need an element.\<close>

definition note_worst :: "individual \<Rightarrow> individual" where
  "note_worst s =
     (if worstScenario s = - 1 \<or> dlt (worstTime s) (snd (last (ind_results s)))
      then s\<lparr>worstScenario := fst (last (ind_results s)), worstTime := snd (last (ind_results s))\<rparr> else s)"

definition note_best :: "individual \<Rightarrow> world \<Rightarrow> (individual \<times> world) comp" where
  "note_best s w =
     (if bestScenario s = - 1 \<or> dlt (snd (hd (ind_results s))) (bestTime s)
      then cbind (vector_at (ind_tuningParameters s) (current s)) (\<lambda>tp.
           cbind (keep_best (individual_keep s) (tp_heap w tp) (ind_results s) (selection s)) (\<lambda>(r, sel).
             ret (s\<lparr>bestScenario := fst (hd (ind_results s)), bestTime := snd (hd (ind_results s)), selection := sel\<rparr>,
                  w\<lparr>tp_heap := (tp_heap w)(tp := setRestriction (Some r) (tp_heap w tp))\<rparr>)))
      else cbind (vector_at (ind_tuningParameters s) (current s)) (\<lambda>_.
             ret (s\<lparr>ind_tuningParameters := take (nat (current s)) (ind_tuningParameters s)
                      @ drop (Suc (nat (current s))) (ind_tuningParameters s),
                    tpEliminated := tpEliminated s + 1\<rparr>, w)))"

definition ind_searchFinished :: "result_sort \<Rightarrow> individual \<Rightarrow> world \<Rightarrow> (bool \<times> individual \<times> world) comp" where
  "ind_searchFinished std_sort s w =
     cbind (ex_searchFinished (searchAlgorithm s) w) (\<lambda>(flag, inner, w1).
     cbind (sort_results std_sort (ex_getSearchPath inner)) (\<lambda>rs.
       check (rs \<noteq> []) UB
       (cbind (note_best (note_worst (s\<lparr>searchAlgorithm := inner, ind_results := rs,
            individualSearchPath := sm_insert_range (ex_getSearchPath inner) (individualSearchPath s)\<rparr>)) w1) (\<lambda>(t, w2).
          ret (searchStepCount t - tpEliminated t = int (length (ind_tuningParameters t)), t, w2)))))"

section \<open>Progress\<close>

text \<open>The parameters that are still to be explored.\<close>

definition remaining :: "individual \<Rightarrow> int" where
  "remaining s = int (length (ind_tuningParameters s)) - (searchStepCount s - tpEliminated s)"

lemma vector_at_ret [simp]: "vector_at xs i = ret x \<longleftrightarrow> 0 \<le> i \<and> i < int (length xs) \<and> x = xs ! nat i"
  by (auto simp: vector_at_def)

lemma note_worst_keeps [simp]:
  "ind_results (note_worst s) = ind_results s" "individualSearchPath (note_worst s) = individualSearchPath s"
  "bestScenario (note_worst s) = bestScenario s" "bestTime (note_worst s) = bestTime s"
  "searchStepCount (note_worst s) = searchStepCount s" "tpEliminated (note_worst s) = tpEliminated s"
  "ind_tuningParameters (note_worst s) = ind_tuningParameters s" "searchAlgorithm (note_worst s) = searchAlgorithm s"
  "selection (note_worst s) = selection s" "individual_keep (note_worst s) = individual_keep s"
  "current (note_worst s) = current s"
  by (simp_all add: note_worst_def current_def)

lemma note_best_ret:
  assumes "note_best s w = ret (t, w')"
  shows "remaining t = remaining s \<and> 0 \<le> remaining s \<and> 0 \<le> current s \<and> individualSearchPath t = individualSearchPath s \<and>
    searchAlgorithm t = searchAlgorithm s \<and>
    (if bestScenario s = - 1 \<or> dlt (snd (hd (ind_results s))) (bestTime s)
     then bestScenario t = fst (hd (ind_results s)) \<and> bestTime t = snd (hd (ind_results s))
     else bestScenario t = bestScenario s \<and> bestTime t = bestTime s)"
  using assms
  by (auto simp: note_best_def cbind_eq_ret remaining_def current_def split: if_splits)

lemma searchFinished_parts:
  assumes "ind_searchFinished std_sort s w = ret (b, t, w')"
  obtains flag inner w1 rs where "ex_searchFinished (searchAlgorithm s) w = ret (flag, inner, w1)"
    and "weak_order_on (map snd (path (results inner)))" and "rs = std_sort (path (results inner))" and "rs \<noteq> []"
    and "note_best (note_worst (s\<lparr>searchAlgorithm := inner, ind_results := rs,
      individualSearchPath := sm_insert_range (path (results inner)) (individualSearchPath s)\<rparr>)) w1 = ret (t, w')"
    and "b \<longleftrightarrow> searchStepCount t - tpEliminated t = int (length (ind_tuningParameters t))"
  using assms by (auto simp: ind_searchFinished_def cbind_eq_ret sort_results_def ex_getSearchPath_def)

lemma createScenarios_remaining:
  assumes "ind_createScenarios env s w = ret (t, w')"
  shows "remaining t = remaining s - 1"
  using assms
  by (auto simp: ind_createScenarios_def Let_def cbind_eq_ret remaining_def ind_addObjectiveFunction_def)

text \<open>
  C21: The individual search ends after as many search steps as there are parameters: creating the
  scenarios of a step and evaluating them, whatever the measurements say, leaves exactly one parameter
  fewer to explore, and the search says it is finished exactly when none is left.
\<close>

theorem individual_step_progress:
  assumes "ind_createScenarios env s w = ret (s1, w1)" and "ind_searchFinished std_sort s1 w2 = ret (b, t, w3)"
  shows "remaining t = remaining s - 1 \<and> 0 \<le> remaining t \<and> (b \<longleftrightarrow> remaining t = 0)"
proof -
  from assms(2) obtain inner rs v w4 where
    n: "note_best (note_worst (s1\<lparr>searchAlgorithm := inner, ind_results := rs, individualSearchPath := v\<rparr>)) w4 = ret (t, w3)"
    and b: "b \<longleftrightarrow> searchStepCount t - tpEliminated t = int (length (ind_tuningParameters t))"
    by (elim searchFinished_parts) blast
  from note_best_ret [OF n] have "remaining t = remaining s1" "0 \<le> remaining t" by (auto simp: remaining_def)
  with createScenarios_remaining [OF assms(1)] b show ?thesis by (auto simp: remaining_def)
qed

section \<open>The best scenario of all steps\<close>

lemma sm_find_insert_range:
  "sm_find (sm_insert_range other m) k = (case sm_find m k of None \<Rightarrow> sm_find other k | Some v \<Rightarrow> Some v)"
  unfolding sm_insert_range_def
proof (induction other arbitrary: m)
  case (Cons kv other)
  then show ?case
    by (cases "sm_find m (fst kv)") (auto simp: sm_find_Cons split: option.splits prod.split)
qed (simp split: option.split)

lemma set_sm_wf: "sm_wf m \<Longrightarrow> (k, v) \<in> set m \<longleftrightarrow> sm_find m k = Some v"
  by (rule sm.items_look)

lemma sm_wf_record_all: "sm_wf (path s) \<Longrightarrow> sm_wf (path (record_all val ids s))"
  unfolding record_all_def by (induction ids arbitrary: s) auto

text \<open>
  The invariant: what the inner search has on its path is on the whole path too, no value is
  not-a-number, no identifier negative, the pending scenarios are new, and the best scenario is best on the whole path.
\<close>

definition ind_inv :: "individual \<Rightarrow> bool" where
  "ind_inv s \<longleftrightarrow> ex_inv (searchAlgorithm s) \<and> sm_wf (path (results (searchAlgorithm s))) \<and>
     sm_find (path (results (searchAlgorithm s))) \<subseteq>\<^sub>m sm_find (individualSearchPath s) \<and>
     (\<forall>i \<in> set (scenarioIds (searchAlgorithm s)). sm_find (individualSearchPath s) i = None) \<and>
     (\<forall>i \<in> dom (sm_find (individualSearchPath s)). 0 \<le> i) \<and>
     (\<forall>v \<in> ran (sm_find (individualSearchPath s)). \<not> is_nan v) \<and>
     (bestScenario s = - 1 \<and> individualSearchPath s = [] \<or>
      sm_find (individualSearchPath s) (bestScenario s) = Some (bestTime s) \<and>
      (\<forall>v \<in> ran (sm_find (individualSearchPath s)). \<not> dlt v (bestTime s)))"

text \<open>Usable measurements: the objective of every pending scenario is a number.\<close>

definition ind_usable :: "individual \<Rightarrow> world \<Rightarrow> bool" where
  "ind_usable s w \<longleftrightarrow> (\<forall>i \<in> set (scenarioIds (searchAlgorithm s)). \<forall>f \<in> set (objectiveFunctions (searchAlgorithm s)).
     objective f i (srp (pool_set w)) \<noteq> ret NaN)"

text \<open>What the inner search recorded in the step.\<close>

lemma inner_values:
  assumes inv: "ind_inv s" and ok: "ind_usable s w"
    and fin: "ex_searchFinished (searchAlgorithm s) w = ret (flag, inner, w1)"
  obtains val where
    "sm_find (path (results inner)) = (\<lambda>i. if i \<in> set (scenarioIds (searchAlgorithm s)) then Some (val i)
       else sm_find (path (results (searchAlgorithm s))) i)"
    and "\<forall>i \<in> set (scenarioIds (searchAlgorithm s)). \<not> is_nan (val i)"
    and "scenarioIds inner = []" and "ex_inv inner" and "sm_wf (path (results inner))" and "tp_heap w1 = tp_heap w"
proof -
  from inv have ex: "ex_inv (searchAlgorithm s)" and wf: "sm_wf (path (results (searchAlgorithm s)))"
    by (auto simp: ind_inv_def)
  from ex_searchFinished_ret [OF fin ex] obtain val where
    r: "results inner = record_all val (scenarioIds (searchAlgorithm s)) (results (searchAlgorithm s))"
    and t: "scenarioIds inner = []" "ex_inv inner" "tp_heap w1 = tp_heap w"
    and v: "\<forall>i \<in> set (scenarioIds (searchAlgorithm s)). \<exists>f fs. objectiveFunctions (searchAlgorithm s) = f # fs \<and>
      objective f i (srp (pool_set w)) = ret (val i)" by blast
  have "\<not> is_nan (val i)" if "i \<in> set (scenarioIds (searchAlgorithm s))" for i
    using v ok that unfolding ind_usable_def is_nan_def by (metis list.set_intros(1))
  moreover have "sm_wf (path (results inner))" unfolding r by (rule sm_wf_record_all [OF wf])
  ultimately show ?thesis
    by (intro that [of val]) (auto simp: r t find_record_all fun_eq_iff intro: t)
qed

text \<open>The first of the sorted results is a best one.\<close>

lemma sorted_first:
  assumes "sorts std_sort" and "weak_order_on (map snd rs)" and "std_sort rs \<noteq> []" and "sm_wf rs"
  shows "sm_find rs (fst (hd (std_sort rs))) = Some (snd (hd (std_sort rs)))"
    and "v \<in> ran (sm_find rs) \<Longrightarrow> \<not> dlt v (snd (hd (std_sort rs)))"
proof -
  from assms(1,2) have s: "set (std_sort rs) = set rs" "sorted_wrt (\<lambda>a b. \<not> dlt (snd b) (snd a)) (std_sort rs)"
    by (auto simp: sorts_def)
  obtain x xs where x: "std_sort rs = x # xs" using assms(3) by (cases "std_sort rs") auto
  then have "x \<in> set rs" using s(1) by auto
  then show "sm_find rs (fst (hd (std_sort rs))) = Some (snd (hd (std_sort rs)))"
    using set_sm_wf [OF assms(4), of "fst x" "snd x"] by (simp add: x)
  assume "v \<in> ran (sm_find rs)"
  then obtain k where "(k, v) \<in> set rs" using set_sm_wf [OF assms(4)] by (auto simp: ran_def)
  then have "(k, v) \<in> set (x # xs)" using s(1) x by auto
  then show "\<not> dlt v (snd (hd (std_sort rs)))" using s(2) by (auto simp: x)
qed

text \<open>Whether the step improves on the best so far or not, the best of old and new values is kept.\<close>

lemma best_of_both:
  assumes new: "sm_find new i = Some x" "\<forall>v \<in> ran (sm_find new). \<not> dlt v x" "\<not> is_nan x"
    and old: "best = - 1 \<and> old = [] \<or> sm_find old best = Some y \<and> (\<forall>v \<in> ran (sm_find old). \<not> dlt v y)"
    and all: "sm_find all = (\<lambda>k. case sm_find old k of None \<Rightarrow> sm_find new k | Some v \<Rightarrow> Some v)"
    and agree: "\<forall>k u v. sm_find old k = Some u \<longrightarrow> sm_find new k = Some v \<longrightarrow> u = v"
    and pick: "if best = - 1 \<or> dlt x y then best' = i \<and> y' = x else best' = best \<and> y' = y"
    and pos: "sm_find old (- 1) = None"
  shows "sm_find all best' = Some y' \<and> (\<forall>v \<in> ran (sm_find all). \<not> dlt v y')"
proof -
  have from_all: "v \<in> ran (sm_find old) \<or> v \<in> ran (sm_find new)" if "v \<in> ran (sm_find all)" for v
    using that by (auto simp: ran_def all split: option.splits)
  have at_new: "sm_find all i = Some x" using new(1) agree by (auto simp: all split: option.split)
  show ?thesis
  proof (cases "best = - 1 \<or> dlt x y")
    case True
    have "\<not> dlt v x" if "v \<in> ran (sm_find old)" for v
      using old that True dlt_trans [of v x y] pos by (auto simp: ran_def)
    then show ?thesis using True pick at_new new(2) from_all by auto
  next
    case False
    then have o: "sm_find old best = Some y" "\<forall>v \<in> ran (sm_find old). \<not> dlt v y" using old by auto
    have "\<not> dlt v y" if "v \<in> ran (sm_find new)" for v
      using not_dlt_trans [of x y v] False new(2,3) that by blast
    then show ?thesis using False pick o from_all by (auto simp: all)
  qed
qed

lemma ind_finished:
  assumes inv: "ind_inv s" and ok: "ind_usable s w" and sort: "sorts std_sort"
    and fin: "ind_searchFinished std_sort s w = ret (b, t, w')"
  shows "ind_inv t \<and> scenarioIds (searchAlgorithm t) = [] \<and> dom (sm_find (individualSearchPath t)) =
    dom (sm_find (individualSearchPath s)) \<union> set (scenarioIds (searchAlgorithm s))"
proof -
  from fin obtain flag inner w1 rs where ex: "ex_searchFinished (searchAlgorithm s) w = ret (flag, inner, w1)"
    and weak: "weak_order_on (map snd (path (results inner)))" and rs: "rs = std_sort (path (results inner))" "rs \<noteq> []"
    and best_noted: "note_best (note_worst (s\<lparr>searchAlgorithm := inner, ind_results := rs,
      individualSearchPath := sm_insert_range (path (results inner)) (individualSearchPath s)\<rparr>)) w1 = ret (t, w')"
    by (elim searchFinished_parts) blast
  let ?new = "path (results inner)" and ?old = "individualSearchPath s" and ?in = "path (results (searchAlgorithm s))"
  let ?all = "sm_insert_range ?new ?old"
  from note_best_ret [OF best_noted] have t: "individualSearchPath t = ?all" "searchAlgorithm t = inner"
    and pick: "if bestScenario s = - 1 \<or> dlt (snd (hd rs)) (bestTime s)
      then bestScenario t = fst (hd rs) \<and> bestTime t = snd (hd rs)
      else bestScenario t = bestScenario s \<and> bestTime t = bestTime s" by simp_all
  obtain val where new: "sm_find ?new = (\<lambda>i. if i \<in> set (scenarioIds (searchAlgorithm s)) then Some (val i) else sm_find ?in i)"
    and nan: "\<forall>i \<in> set (scenarioIds (searchAlgorithm s)). \<not> is_nan (val i)"
    and i: "scenarioIds inner = []" "ex_inv inner" "sm_wf ?new"
    using inner_values [OF inv ok ex] .
  from inv have sub: "sm_find ?in \<subseteq>\<^sub>m sm_find ?old"
    and fresh: "\<forall>i \<in> set (scenarioIds (searchAlgorithm s)). sm_find ?old i = None"
    and nan_old: "\<forall>v \<in> ran (sm_find ?old). \<not> is_nan v"
    and best: "bestScenario s = - 1 \<and> ?old = [] \<or> sm_find ?old (bestScenario s) = Some (bestTime s) \<and>
      (\<forall>v \<in> ran (sm_find ?old). \<not> dlt v (bestTime s))"
    by (auto simp: ind_inv_def)
  have all: "sm_find ?all = (\<lambda>k. case sm_find ?old k of None \<Rightarrow> sm_find ?new k | Some v \<Rightarrow> Some v)"
    by (simp add: fun_eq_iff sm_find_insert_range)
  have agree: "u = v" if "sm_find ?old k = Some u" "sm_find ?new k = Some v" for k u v
    using that fresh sub by (auto simp: new map_le_def dom_def split: if_splits)
  have dom: "dom (sm_find ?all) = dom (sm_find ?old) \<union> set (scenarioIds (searchAlgorithm s))"
    using sub by (auto simp: all new map_le_def dom_def split: option.splits if_splits)
  have pos: "0 \<le> k" if "k \<in> dom (sm_find ?all)" for k
    using that inv unfolding dom by (auto simp: ind_inv_def ex_inv_def)
  have nan_new: "\<not> is_nan v" if "v \<in> ran (sm_find ?new)" for v
  proof -
    from that obtain k where "sm_find ?new k = Some v" by (auto simp: ran_def)
    then show ?thesis using nan nan_old sub unfolding new map_le_def
      by (metis domI option.inject ranI)
  qed
  have nan_all: "\<not> is_nan v" if "v \<in> ran (sm_find ?all)" for v
    using that nan_new nan_old by (auto simp: ran_def all split: option.splits)
  have first: "sm_find ?new (fst (hd rs)) = Some (snd (hd rs))" "\<forall>v \<in> ran (sm_find ?new). \<not> dlt v (snd (hd rs))"
    using sorted_first [OF sort weak _ i(3)] rs by simp_all
  have "sm_find ?old (- 1) = None" using pos [of "- 1"] dom by fastforce
  from best_of_both [OF first nan_new best all _ pick this] first agree
  have "sm_find ?all (bestScenario t) = Some (bestTime t) \<and> (\<forall>v \<in> ran (sm_find ?all). \<not> dlt v (bestTime t))"
    by (metis ranI)
  moreover have "sm_find ?new \<subseteq>\<^sub>m sm_find ?all"
    using agree by (auto simp: map_le_def all split: option.split)
  ultimately show ?thesis using i pos nan_all dom by (auto simp: ind_inv_def t)
qed

interpretation ind: search_algorithm "ind_searchFinished std_sort" "\<lambda>s. ret (ind_getOptimum s)"
    individualSearchPath "\<lambda>s. scenarioIds (searchAlgorithm s)" ind_inv
    "\<lambda>s w. sorts std_sort \<and> ind_usable s w" for std_sort
proof unfold_locales
  fix s w b t w'
  assume "ind_inv s" and "sorts std_sort \<and> ind_usable s w" and "ind_searchFinished std_sort s w = ret (b, t, w')"
  then show "ind_inv t \<and> scenarioIds (searchAlgorithm t) = [] \<and> dom (sm_find (individualSearchPath t)) =
      dom (sm_find (individualSearchPath s)) \<union> set (scenarioIds (searchAlgorithm s))"
    using ind_finished by blast
next
  fix s i j u v
  assume "ind_inv s" and "ret (ind_getOptimum s) = ret i" and "sm_find (individualSearchPath s) i = Some v"
    and "sm_find (individualSearchPath s) j = Some u"
  then show "\<not> dlt u v" by (auto simp: ind_inv_def ind_getOptimum_def ran_def)
next
  fix s i
  assume "ind_inv s" and "ret (ind_getOptimum s) = ret i" and "individualSearchPath s \<noteq> []"
  then show "sm_find (individualSearchPath s) i \<noteq> None" by (auto simp: ind_inv_def ind_getOptimum_def)
qed

text \<open>
  C20: Every evaluated step of the individual search keeps its invariant, adds exactly the scenarios of
  the step to the search path, and the scenario it then reports as the optimum is one on the path that
  no scenario of this or an earlier step beats, provided the objective of each is a number and the
  library's sort sorts.
\<close>

theorem individual_step_optimum:
  assumes "ind_inv s" and "ind_usable s w" and "sorts std_sort"
    and "ind_searchFinished std_sort s w = ret (b, t, w')" and "scenarioIds (searchAlgorithm s) \<noteq> []"
  shows "ind_inv t \<and>
    dom (sm_find (ind_getSearchPath t)) = dom (sm_find (ind_getSearchPath s)) \<union> set (scenarioIds (searchAlgorithm s)) \<and>
    (\<exists>v. sm_find (ind_getSearchPath t) (ind_getOptimum t) = Some v \<and>
      (\<forall>u \<in> ran (sm_find (ind_getSearchPath t)). \<not> dlt u v))"
proof -
  have ok: "sorts std_sort \<and> ind_usable s w" using assms by blast
  obtain v where "sm_find (individualSearchPath t) (ind_getOptimum t) = Some v"
    "\<forall>u \<in> ran (sm_find (individualSearchPath t)). \<not> dlt u v"
    using ind.best_of_finished [OF assms(1) ok assms(4) refl assms(5)] by blast
  with ind.finished_law [OF assms(1) ok assms(4)] show ?thesis by (auto simp: ind_getSearchPath_def)
qed

section \<open>An insertion sort, and a run of one step\<close>

fun insort_result :: "int \<times> dbl \<Rightarrow> (int \<times> dbl) list \<Rightarrow> (int \<times> dbl) list" where
  "insort_result x [] = [x]"
| "insort_result x (y # ys) = (if dlt (snd x) (snd y) then x # y # ys else y # insort_result x ys)"

definition insertion_sort :: result_sort where
  "insertion_sort rs = fold insort_result rs []"

lemma set_insort_result [simp]: "set (insort_result x ys) = insert x (set ys)"
  by (induction ys) auto

lemma length_insort_result [simp]: "length (insort_result x ys) = Suc (length ys)"
  by (induction ys) auto

text \<open>What a weak order gives: not being less is transitive.\<close>

lemma weak_order_trans:
  assumes "weak_order_on vs" and "{a, b, c} \<subseteq> set vs" and "\<not> dlt b a" and "\<not> dlt c b"
  shows "\<not> dlt c a"
proof
  assume ca: "dlt c a"
  then have "\<not> dlt a b \<or> \<not> dlt b c" using assms(3,4) by (metis dlt_asym dlt_trans)
  moreover have "dlt c b" if "dlt a b" using ca that by (rule dlt_trans)
  moreover have "dlt b a" if "dlt b c" using that ca by (rule dlt_trans)
  ultimately have "\<not> dlt a b" "\<not> dlt b c" using assms(3,4) by auto
  then show False using assms ca unfolding weak_order_on_def by fastforce
qed

lemma sorted_insort_result:
  assumes "sorted_wrt (\<lambda>a b. \<not> dlt (snd b) (snd a)) ys" and "weak_order_on vs"
    and "snd ` insert x (set ys) \<subseteq> set vs"
  shows "sorted_wrt (\<lambda>a b. \<not> dlt (snd b) (snd a)) (insort_result x ys)"
  using assms
proof (induction ys)
  case (Cons y ys)
  have "\<not> dlt (snd z) (snd x)" if "z \<in> set ys" "dlt (snd x) (snd y)" for z
    using weak_order_trans [OF Cons.prems(2), of "snd x" "snd y" "snd z"] Cons.prems that by (auto simp: dlt_asym)
  with Cons show ?case by (auto simp: dlt_asym)
qed simp

lemma sorts_insertion: "sorts insertion_sort"
proof -
  have "set (fold insort_result rs acc) = set rs \<union> set acc \<and> length (fold insort_result rs acc) = length rs + length acc \<and>
      sorted_wrt (\<lambda>a b. \<not> dlt (snd b) (snd a)) (fold insort_result rs acc)"
    if "weak_order_on vs" "snd ` (set rs \<union> set acc) \<subseteq> set vs" "sorted_wrt (\<lambda>a b. \<not> dlt (snd b) (snd a)) acc" for vs rs acc
    using that
  proof (induction rs arbitrary: acc)
    case (Cons r rs)
    have "sorted_wrt (\<lambda>a b. \<not> dlt (snd b) (snd a)) (insort_result r acc)"
      by (rule sorted_insort_result [OF Cons.prems(3,1)]) (use Cons.prems in auto)
    from Cons.IH [OF Cons.prems(1) _ this] Cons.prems(2) show ?case by auto
  qed simp
  from this [of _ _ "[]"] show ?thesis by (fastforce simp: sorts_def insertion_sort_def)
qed

section \<open>A step explores one parameter\<close>

text \<open>
  Explored parameters are fixed: restricted to a single value. Then a step's search space has one
  variant for each value of the parameter under exploration.
\<close>

definition fixed_tp :: "tuning_parameter \<Rightarrow> bool" where
  "fixed_tp tp \<longleftrightarrow> (case tp_restriction tp of None \<Rightarrow> False | Some r \<Rightarrow> restr_type r = 2 \<and> length (elements r) = 1)"

definition explored :: "individual \<Rightarrow> nat" where
  "explored s = nat (searchStepCount s - tpEliminated s)"

definition prefix_fixed :: "individual \<Rightarrow> tp_store \<Rightarrow> bool" where
  "prefix_fixed s heap \<longleftrightarrow> (\<forall>tp \<in> set (take (explored s) (ind_tuningParameters s)). fixed_tp (heap tp))"

lemma fixed_tp_values: "fixed_tp tp \<Longrightarrow> tp_ok tp \<and> (\<exists>v. tp_values tp = [v])"
  by (auto simp: fixed_tp_def tp_ok_def is_vector_def tp_values_def length_Suc_conv split: option.splits)

lemma concat_map_concat: "concat (map (\<lambda>i. concat (f i)) xs) = concat (concat (map f xs))"
  by (induction xs) simp_all

lemma assignments_append: "assignments heap (xs @ ys) v = concat (map (assignments heap ys) (assignments heap xs v))"
  by (induction xs arbitrary: v) (simp_all add: map_concat comp_def concat_map_concat)

definition fix_all :: "tp_store \<Rightarrow> tp_ptr list \<Rightarrow> variant \<Rightarrow> variant" where
  "fix_all heap = fold (\<lambda>tp. sm_put tp (hd (tp_values (heap tp))))"

lemma assignments_fixed: "\<forall>tp \<in> set tps. fixed_tp (heap tp) \<Longrightarrow> assignments heap tps v = [fix_all heap tps v]"
  by (induction tps arbitrary: v) (auto simp: fix_all_def dest!: fixed_tp_values)

lemma assignments_step:
  assumes "\<forall>tp \<in> set ps. fixed_tp (heap tp)"
  shows "assignments heap (ps @ [tp]) [] = map (\<lambda>i. sm_put tp i (fix_all heap ps [])) (tp_values (heap tp))"
  by (simp add: assignments_append assignments_fixed [OF assms])

lemma step_space_ret:
  "\<exists>ss. step_space env vs s = ret ss \<and> variantSpace ss = vs \<and> (withRtsSupport env \<or> regions ss \<noteq> [])"
proof -
  let ?new = "setVariantSpace vs (new_SearchSpace \<lparr>tuningParameters = []\<rparr>)"
  have g: "cfold (\<lambda>r. addRegion (Some r)) rs ss = ret (ss\<lparr>regions := regions ss @ rs\<rparr>)" for rs ss
    by (induction rs arbitrary: ss) (simp_all add: addRegion_def)
  have r: "cfold (\<lambda>r. addRts (Some r)) rs ss = ret (ss\<lparr>rtsVector := rtsVector ss @ rs\<rparr>)" for rs ss
    by (induction rs arbitrary: ss) (simp_all add: addRts_def)
  show ?thesis
    by (simp add: step_space_def g r Let_def addRts_def addRegion_def setVariantSpace_def new_SearchSpace_def)
qed

lemma fold_addTuningParameter: "fold addTuningParameter tps vs = vs\<lparr>tuningParameters := tuningParameters vs @ tps\<rparr>"
  by (induction tps arbitrary: vs) (simp_all add: addTuningParameter_def)

lemma fold_ex_addObjectiveFunction:
  "fold ex_addObjectiveFunction fs s = s\<lparr>objectiveFunctions := objectiveFunctions s @ fs\<rparr>"
  by (induction fs arbitrary: s) (simp_all add: ex_addObjectiveFunction_def)

text \<open>The created pool after adding scenarios to an empty one.\<close>

lemma add_scenario_pool_ok:
  "add_scenario c (queue, w) = (queue', w') \<Longrightarrow> pool_ok (csp (pool_set w)) \<Longrightarrow> pool_ok (csp (pool_set w'))"
  by (auto simp: add_scenario_def Let_def new_Scenario_def)

lemma fold_add_scenario_pool_ok:
  "fold add_scenario cs (queue, w) = (queue', w') \<Longrightarrow> pool_ok (csp (pool_set w)) \<Longrightarrow> pool_ok (csp (pool_set w'))"
proof (induction cs arbitrary: queue w)
  case (Cons c cs)
  obtain q1 w1 where "add_scenario c (queue, w) = (q1, w1)" by fastforce
  with Cons add_scenario_pool_ok show ?case by auto
qed simp

lemma created_pool:
  assumes "uint (next_scenario_id w) + int (length cs) \<le> 2 ^ 31" and empty: "csp (pool_set w) = []"
    and f: "fold add_scenario cs (queue, w) = (queue', w')" and mem: "(k, v) \<in> set (csp (pool_set w'))"
  shows "\<exists>j sc. j < length cs \<and> k = uint (next_scenario_id w) + int j \<and> v = Some sc \<and> sc_ts sc = Some (cs ! j) \<and> sc_key sc = k"
proof -
  let ?n = "uint (next_scenario_id w)"
  have below: "pool_below w" by (simp add: pool_below_def empty)
  have len: "?n + int (length cs) \<le> 2 ^ 31" by (rule assms(1))
  note facts = fold_add_scenario [OF len below f]
  have ok: "pool_ok (csp (pool_set w'))" using fold_add_scenario_pool_ok [OF f] by (simp add: empty)
  then have wf: "sm_wf (csp (pool_set w'))" by (simp add: pool_ok_def)
  have find: "sm_find (csp (pool_set w')) k = Some v" using mem set_sm_wf [OF wf] by simp
  with ok obtain sc where sc: "v = Some sc" "sc_key sc = k" by (auto simp: pool_ok_def)
  have "?n \<le> k" using facts find empty by (metis linorder_not_less option.distinct(1) sm_find_Nil)
  moreover have "k < ?n + int (length cs)"
  proof (rule ccontr)
    assume "\<not> k < ?n + int (length cs)"
    then have "sm_find (csp (pool_set w')) k = None" using facts by (auto simp: pool_below_def)
    then show False using find by simp
  qed
  ultimately obtain j where j: "k = ?n + int j" "j < length cs" by (metis add_less_cancel_left of_nat_less_iff zle_iff_zadd)
  with facts have "\<exists>sc. sm_find (csp (pool_set w')) k = Some (Some sc) \<and> sc_ts sc = Some (cs ! j)" by blast
  then show ?thesis using find sc j by auto
qed

text \<open>The loop over the created pool.\<close>

lemma select_value_fold:
  assumes "sm_wf pool" and "0 \<le> i" "i < int (length tps)"
    and "\<forall>(k, v) \<in> set pool. \<exists>sc t ts. v = Some sc \<and> sc_ts sc = Some (t # ts) \<and> sc_key sc = k \<and> fst (sm_index 0 (tps ! nat i) (ts_variant t)) = value k"
  shows "\<exists>sel. cfold (select_value tps i) pool [] = ret sel \<and> (\<forall>k \<in> fst ` set pool. sm_find sel k = Some (value k))"
proof -
  have "\<exists>sel'. cfold (select_value tps i) es sel = ret sel' \<and>
      sm_find sel' = (\<lambda>k. if k \<in> fst ` set es then Some (value k) else sm_find sel k)"
    if "set es \<subseteq> set pool" for es sel
    using that
  proof (induction es arbitrary: sel)
    case (Cons e es)
    obtain k v where e: "e = (k, v)" by (cases e)
    with Cons.prems assms(4) have "\<exists>sc t ts. v = Some sc \<and> sc_ts sc = Some (t # ts) \<and> sc_key sc = k \<and>
      fst (sm_index 0 (tps ! nat i) (ts_variant t)) = value k" by auto
    then have "select_value tps i e sel = ret (sm_put k (value k) sel)"
      using assms(2,3) by (auto simp: select_value_def e vector_at_def simp del: fst_sm_index)
    with Cons show ?case by (fastforce simp: e)
  qed (simp add: fun_eq_iff)
  from this [of pool "[]"] show ?thesis by auto
qed

lemma ts_variant_specification [simp]: "ts_variant (scenario_specification env ss v) = v"
  by (simp add: scenario_specification_def TuningSpecification_entities_def)

definition step_variants :: "individual \<Rightarrow> tp_store \<Rightarrow> variant list" where
  "step_variants s heap = (let tp = ind_tuningParameters s ! explored s
     in map (\<lambda>i. sm_put tp i (fix_all heap (take (explored s) (ind_tuningParameters s)) [])) (tp_values (heap tp)))"

lemma space_variants_step:
  assumes "explored s < length (ind_tuningParameters s)" and "prefix_fixed s heap"
    and "tuningParameters (variantSpace ss) = take (Suc (explored s)) (ind_tuningParameters s)"
  shows "space_variants heap ss = step_variants s heap"
  using assms assignments_step [of "take (explored s) (ind_tuningParameters s)" heap]
  by (simp add: space_variants_def take_Suc_conv_app_nth prefix_fixed_def step_variants_def Let_def)

lemma space_ok_step:
  assumes "explored s < length (ind_tuningParameters s)" and "prefix_fixed s heap"
    and "tuningParameters (variantSpace ss) = take (Suc (explored s)) (ind_tuningParameters s)"
    and "tp_ok (heap (ind_tuningParameters s ! explored s))" and "withRtsSupport env \<or> regions ss \<noteq> []"
  shows "space_ok env heap ss"
  using assms by (auto simp: space_ok_def list_all_iff take_Suc_conv_app_nth prefix_fixed_def dest: fixed_tp_values)

text \<open>Creating a step's scenarios, with what the inner search and the created pool hold afterwards.\<close>

lemma createScenarios_step:
  assumes at: "0 \<le> searchStepCount s - tpEliminated s" "explored s < length (ind_tuningParameters s)" "in_int (searchStepCount s + 1)"
    and fixed: "prefix_fixed s (tp_heap w)" and tp: "tp = ind_tuningParameters s ! explored s" "tp_ok (tp_heap w tp)"
    and idle: "scenarioIds (searchAlgorithm s) = []" and csp: "csp (pool_set w) = []"
    and ids: "uint (next_scenario_id w) + int (length (tp_values (tp_heap w tp))) \<le> 2 ^ 31"
  shows "\<exists>t w'. ind_createScenarios env s w = ret (t, w') \<and>
    scenarioIds (searchAlgorithm t) = ids_from (next_scenario_id w) (length (tp_values (tp_heap w tp))) \<and>
    path (results (searchAlgorithm t)) = [] \<and> tp_heap w' = tp_heap w \<and>
    (\<forall>j < length (tp_values (tp_heap w tp)).
       sm_find (selection t) (uint (next_scenario_id w) + int j) = Some (tp_values (tp_heap w tp) ! j))"
proof -
  let ?n = "uint (next_scenario_id w)" and ?vals = "tp_values (tp_heap w tp)" and ?tps = "ind_tuningParameters s"
  define s1 where "s1 = (if ind_objectiveFunctions s = [] then ind_addObjectiveFunction PTF_min s else s)"
  define vs where "vs = fold addTuningParameter (take (nat (searchStepCount s + 1 - tpEliminated s)) ?tps)
                 (VariantSpace_clear (ind_variantSpace s1))"
  have s1: "ind_objectiveFunctions s1 \<noteq> []" "searchStepCount s1 = searchStepCount s" "tpEliminated s1 = tpEliminated s"
    "ind_tuningParameters s1 = ?tps" "searchAlgorithm s1 = searchAlgorithm s"
    by (simp_all add: s1_def ind_addObjectiveFunction_def)
  have suc: "nat (searchStepCount s + 1 - tpEliminated s) = Suc (explored s)" using at(1) by (simp add: explored_def)
  have vs: "tuningParameters vs = take (Suc (explored s)) ?tps"
    by (simp add: vs_def fold_addTuningParameter s1 suc VariantSpace_clear_def)
  obtain ss where ss: "step_space env vs s1 = ret ss" "variantSpace ss = vs" "withRtsSupport env \<or> regions ss \<noteq> []"
    using step_space_ret [of env vs s1] by blast
  define inner where "inner = ex_addSearchSpace ss (fold ex_addObjectiveFunction (ind_objectiveFunctions s1) (ex_clear (searchAlgorithm s)))"
  have inner: "searchSpaces inner = [ss]" "scenarioIds inner = []" "objectiveFunctions inner \<noteq> []" "results inner = no_results"
    by (simp_all add: inner_def ex_addSearchSpace_def fold_ex_addObjectiveFunction ex_clear_def idle s1)
  let ?cs = "map (\<lambda>v. [scenario_specification env ss v]) (step_variants s (tp_heap w))"
  have cs: "space_variants (tp_heap w) ss = step_variants s (tp_heap w)"
    by (rule space_variants_step) (use at fixed ss vs in auto)
  have len: "length ?cs = length ?vals" by (simp add: step_variants_def Let_def tp)
  have val: "fst (sm_index 0 tp (ts_variant (hd (?cs ! j)))) = ?vals ! j" if "j < length ?vals" for j
    using that by (simp add: step_variants_def Let_def tp)
  obtain queue w' where f: "fold add_scenario ?cs ([], w) = (queue, w')" by fastforce
  have "space_ok env (tp_heap w) ss" by (rule space_ok_step) (use at fixed ss vs tp in auto)
  then have create: "ex_createScenarios env inner w = ret (inner\<lparr>scenarioIds := queue\<rparr>, w')"
    using createScenarios_fold [of inner env w] f by (simp add: cs inner)
  have ids': "?n + int (length ?cs) \<le> 2 ^ 31" using ids len by simp
  note facts = fold_add_scenario [OF ids' _ f]
  have below: "pool_below w" by (simp add: pool_below_def csp)
  have queue: "queue = ids_from (next_scenario_id w) (length ?vals)" "tp_heap w' = tp_heap w"
    using facts [OF below] len by simp_all
  have wf: "sm_wf (csp (pool_set w'))"
    using fold_add_scenario_pool_ok [OF f] by (simp add: csp pool_ok_def)
  have "\<exists>sc t ts. v = Some sc \<and> sc_ts sc = Some (t # ts) \<and> sc_key sc = k \<and>
      fst (sm_index 0 (?tps ! nat (int (explored s))) (ts_variant t)) = ?vals ! nat (k - ?n)"
    if mem: "(k, v) \<in> set (csp (pool_set w'))" for k v
  proof -
    from created_pool [OF ids' csp f mem] obtain j sc where j: "j < length ?cs" "k = ?n + int j" "v = Some sc"
      "sc_ts sc = Some (?cs ! j)" "sc_key sc = k" by blast
    then show ?thesis using val [of j] len tp(1) by (auto simp del: fst_sm_index)
  qed
  then have entries: "\<forall>(k, v) \<in> set (csp (pool_set w')). \<exists>sc t ts. v = Some sc \<and> sc_ts sc = Some (t # ts) \<and> sc_key sc = k \<and>
      fst (sm_index 0 (?tps ! nat (int (explored s))) (ts_variant t)) = ?vals ! nat (k - ?n)" by blast
  have at': "0 \<le> int (explored s)" "int (explored s) < int (length ?tps)" using at(2) by simp_all
  from select_value_fold [OF wf at' entries]
  obtain sel where sel: "cfold (select_value ?tps (int (explored s))) (csp (pool_set w')) [] = ret sel"
    "\<forall>k \<in> fst ` set (csp (pool_set w')). sm_find sel k = Some (?vals ! nat (k - ?n))" by blast
  have "sm_find sel (?n + int j) = Some (?vals ! j)" if "j < length ?vals" for j
  proof -
    have "sm_find (csp (pool_set w')) (?n + int j) \<noteq> None" using facts [OF below] that len by fastforce
    then have "?n + int j \<in> fst ` set (csp (pool_set w'))" unfolding keys_sm_find by blast
    with sel(2) show ?thesis by fastforce
  qed
  moreover have "int (explored s) = searchStepCount s + 1 - 1 - tpEliminated s" using at(1) by (simp add: explored_def)
  ultimately show ?thesis
    using create ss(1) sel(1) queue at(3) inner(4)
    unfolding ind_createScenarios_def s1_def [symmetric] Let_def
    by (simp add: vs_def [symmetric] inner_def [symmetric] s1)
qed

text \<open>
  A step of the individual search costs as many scenarios as the parameter under exploration has
  values, however many parameters were explored before: with the explored ones fixed, creating the
  scenarios returns, queues one scenario per value under consecutive identifiers, and remembers for
  each which value it tries.
\<close>

theorem individual_step_scenarios:
  assumes "0 \<le> searchStepCount s - tpEliminated s" and "explored s < length (ind_tuningParameters s)"
    and "in_int (searchStepCount s + 1)" and "prefix_fixed s (tp_heap w)"
    and "tp_ok (tp_heap w (ind_tuningParameters s ! explored s))"
    and "scenarioIds (searchAlgorithm s) = []" and "csp (pool_set w) = []"
    and "uint (next_scenario_id w) + int (length (tp_values (tp_heap w (ind_tuningParameters s ! explored s)))) \<le> 2 ^ 31"
  shows "\<exists>t w'. ind_createScenarios env s w = ret (t, w') \<and>
    (let vals = tp_values (tp_heap w (ind_tuningParameters s ! explored s))
     in scenarioIds (searchAlgorithm t) = ids_from (next_scenario_id w) (length vals) \<and>
        (\<forall>j < length vals. sm_find (selection t) (uint (next_scenario_id w) + int j) = Some (vals ! j)))"
  using createScenarios_step [OF assms(1-4) refl assms(5-8)] unfolding Let_def by blast

section \<open>What a step leaves for the next\<close>







section \<open>Examples\<close>

text \<open>Two parameters, of the values 1, 5, 9 and 0, 1; before, and after creating the first step's scenarios.\<close>

definition example_individual :: individual where
  "example_individual = \<lparr>searchAlgorithm = new_ExhaustiveSearch, ind_variantSpace = \<lparr>tuningParameters = []\<rparr>,
     searchStepCount = 0, ind_tuningParameters = [0, 1], ind_regions = [], ind_rtsVector = [],
     ind_searchSpaces = [new_SearchSpace \<lparr>tuningParameters = [0, 1]\<rparr>], ind_objectiveFunctions = [PTF_min],
     selection = [], ind_results = [], individualSearchPath = [], bestScenario = - 1, bestTime = dbl_of_int 0,
     tpEliminated = 0, individual_keep = 1, worstScenario = - 1, worstTime = dbl_of_int 0\<rparr>"

definition example_step :: individual where
  "example_step = example_individual\<lparr>searchAlgorithm := example_queue, searchStepCount := 1,
     selection := [(0, 1), (1, 5), (2, 9)]\<rparr>"

definition measured_world :: "world \<Rightarrow> world" where
  "measured_world w = w\<lparr>pool_set := (pool_set w)\<lparr>srp := srp (pool_set (example_results example_times))\<rparr>\<rparr>"

definition step_outcome :: "(bool \<times> individual \<times> world) comp \<Rightarrow> (bool \<times> int \<times> int) option" where
  "step_outcome c = (case c of Some (Inr (b, t, w)) \<Rightarrow> Some (b, bestScenario t, tpEliminated t) | _ \<Rightarrow> None)"

lemma step_outcome_ret:
  "step_outcome c = Some (b, i, k) \<Longrightarrow> \<exists>t w. c = ret (b, t, w) \<and> bestScenario t = i \<and> tpEliminated t = k"
  by (auto simp: step_outcome_def ret_def split: option.splits sum.splits)

lemma example_step_outcome:
  "step_outcome (ind_searchFinished insertion_sort example_step (example_results example_times)) = Some (False, 1, 0)"
  by code_simp

lemma example_step_inv: "ind_inv example_step"
  by (auto simp: ind_inv_def example_step_def example_individual_def example_queue_def new_ExhaustiveSearch_def ex_inv_def
      map_le_def ran_def)

lemma example_step_usable: "ind_usable example_step (example_results example_times)"
proof -
  have pending: "scenarioIds (searchAlgorithm example_step) = [0, 1, 2]" "objectiveFunctions (searchAlgorithm example_step) = [PTF_min]"
    by (simp_all add: example_step_def example_individual_def example_queue_def)
  have "\<not> is_nan (example_times i)" for i by (simp add: example_times_def) code_simp
  then show ?thesis using example_objective [of _ example_times] by (auto simp: ind_usable_def pending is_nan_def)
qed

theorem individual_step_progress_witness:
  "\<exists>s1 w1 t w3. ind_createScenarios example_env example_individual example_world = ret (s1, w1) \<and>
     ind_searchFinished insertion_sort s1 (measured_world w1) = ret (False, t, w3) \<and> remaining t = 1"
proof -
  have "step_outcome (cbind (ind_createScenarios example_env example_individual example_world)
      (\<lambda>(s1, w1). ind_searchFinished insertion_sort s1 (measured_world w1))) = Some (False, 1, 0)" by code_simp
  from step_outcome_ret [OF this] obtain s1 w1 t w3 where
    create: "ind_createScenarios example_env example_individual example_world = ret (s1, w1)"
    and fin: "ind_searchFinished insertion_sort s1 (measured_world w1) = ret (False, t, w3)"
    by (auto simp: cbind_eq_ret)
  have "remaining example_individual = 2" by code_simp
  with individual_step_progress [OF create fin] create fin show ?thesis by auto
qed

theorem individual_step_optimum_witness:
  "\<exists>t w'. ind_searchFinished insertion_sort example_step (example_results example_times) = ret (False, t, w') \<and>
     ind_getOptimum t = 1 \<and> dom (sm_find (ind_getSearchPath t)) = {0, 1, 2}"
proof -
  have pending: "scenarioIds (searchAlgorithm example_step) = [0, 1, 2]" "individualSearchPath example_step = []"
    by (simp_all add: example_step_def example_individual_def example_queue_def)
  obtain t w' where t: "ind_searchFinished insertion_sort example_step (example_results example_times) = ret (False, t, w')"
    "bestScenario t = 1" using step_outcome_ret [OF example_step_outcome] by blast
  then have "dom (sm_find (ind_getSearchPath t)) = {0, 1, 2}"
    using individual_step_optimum [OF example_step_inv example_step_usable sorts_insertion t(1)] by (auto simp: pending ind_getSearchPath_def)
  with t show ?thesis by (auto simp: ind_getOptimum_def)
qed

theorem individual_step_scenarios_witness:
  "\<exists>t w'. ind_createScenarios example_env example_individual example_world = ret (t, w') \<and>
     scenarioIds (searchAlgorithm t) = [0, 1, 2] \<and> sm_find (selection t) 1 = Some 5"
proof -
  have e: "explored example_individual = 0" by code_simp
  have v: "tp_values (tp_heap example_world (ind_tuningParameters example_individual ! explored example_individual)) = [1, 5, 9]"
    by code_simp
  have n: "next_scenario_id example_world = 0" by (simp add: example_world_def)
  have ids: "ids_from 0 (length [1, 5, 9 :: int]) = [0, 1, 2]" by code_simp
  have "\<exists>t w'. ind_createScenarios example_env example_individual example_world = ret (t, w') \<and>
    scenarioIds (searchAlgorithm t) = [0, 1, 2] \<and>
    (\<forall>j < length [1, 5, 9 :: int]. sm_find (selection t) (uint (0 :: 32 word) + int j) = Some ([1, 5, 9] ! j))"
    using individual_step_scenarios [of example_individual example_world example_env, unfolded Let_def v n ids]
    by (simp add: e prefix_fixed_def)
      (simp add: example_individual_def example_world_def example_tp_def new_ScenarioPoolSet_def new_ExhaustiveSearch_def
        in_int_def INT_MIN_def INT_MAX_def tp_ok_def)
  then show ?thesis by (force dest: spec [of _ "1 :: nat"])
qed


end
