(* ===== verification/AppRegions.thy ===== *)
theory AppRegions
  imports MetaProperty
begin

text \<open>
  What the framework knows of the application it tunes (\<open>aagent/src/application.cc\<close>, \<open>aagent/src/Region.cc\<close>,
  used by the agents and by the frontend): the code regions, found by their identifier text or by a number
  computed from the numbers of their file and name, the numbers given to strings, the significant regions, the
  energies of an untuned run. Regions are shared by pointer, so they live in a store that only grows; a
  pointer is a place in it. The singleton is the state passed along. Printing is left out.
\<close>

section \<open>Regions\<close>

datatype region_type =
    REGION_NONE | MAIN_REGION | SUB_REGION | LOOP_REGION | NESTEDLOOP_REGION | VECTOR_REGION | FORALL_REGION
  | CALL_REGION | IO_REGION | BARRIER_REGION | PARALLEL_REGION | PARALLEL_REGION_BODY | DO_REGION
  | SECTIONS_REGION | SECTION_REGION | SECTION_REGION_BODY | SINGLE_REGION | SINGLE_REGION_BODY
  | CRITICAL_REGION | CRITICAL_REGION_BODY | WORKSHARE_REGION | WORKSHARE_REGION_BODY | ATOMIC_REGION
  | ORDERED_REGION | ORDERED_REGION_BODY | MASTER_REGION_BODY | IMPLICIT_BARRIER_REGION | USER_REGION
  | WORKSHARE | WORKSHARE_SECTIONS | WORKSHARE_DO | MPI_CALL | TASK_REGION | TASK_REGION_BODY | TUNE_REGION
  | OPENCL_MEM_CMD_REGION | OPENCL_KERNEL_CALL_REGION | CUDA_MEM_TRANSFER_REGION | CUDA_KERNEL_CALL_REGION
  | VIE_PIPE_INBUFFER_REGION | VIE_PIPE_OUTBUFFER_REGION | VIE_PIPE_STAGE_REGION | VIE_PIPELINE_REGION
  | UNSPECIFIED | UNKNOWN | OMP_FLASH_REGION | DATA_STRUCTURE

datatype region_runs_as = RUNS_AS_SERIAL | RUNS_AS_THREADED

record region_ident =
  ri_type :: region_type
  ri_file_id :: int
  ri_rfl :: int
  ri_start_position :: int
  ri_end_position :: int
  ri_file_name :: string
  ri_local_region_id :: "64 word"

type_synonym region_ptr = nat

record region_object =
  ro_name :: string
  ro_ident :: region_ident
  ro_runs_as :: region_runs_as
  ro_subregions :: "region_ptr list"
  ro_parent :: "region_ptr option"
  ro_is_significant :: bool

definition new_Region_key ::
  "64 word \<Rightarrow> region_type \<Rightarrow> int \<Rightarrow> int \<Rightarrow> int \<Rightarrow> int \<Rightarrow> string \<Rightarrow> string \<Rightarrow> bool \<Rightarrow> region_object" where
  "new_Region_key key t file_id line start_pos end_pos file_name reg_name is_sig =
     \<lparr>ro_name = reg_name,
      ro_ident = \<lparr>ri_type = t, ri_file_id = file_id, ri_rfl = line, ri_start_position = start_pos,
        ri_end_position = end_pos, ri_file_name = file_name, ri_local_region_id = key\<rparr>,
      ro_runs_as = RUNS_AS_SERIAL, ro_subregions = [], ro_parent = None, ro_is_significant = is_sig\<rparr>"

definition new_Region :: "region_type \<Rightarrow> int \<Rightarrow> int \<Rightarrow> int \<Rightarrow> int \<Rightarrow> string \<Rightarrow> string \<Rightarrow> bool \<Rightarrow> region_object" where
  "new_Region t file_id line start_pos end_pos file_name reg_name is_sig =
     new_Region_key 0 t file_id line start_pos end_pos file_name reg_name is_sig"

definition getRegionID :: "region_object \<Rightarrow> string" where
  "getRegionID r = Region_getRegionID (ri_file_name (ro_ident r)) (ro_name r) (ri_rfl (ro_ident r))"

section \<open>The application\<close>

text \<open>The constructor leaves \<open>calltree_root\<close> as it finds it (\<open>junk\<close>).\<close>

record application =
  region_store :: "region_object list"
  app_name :: string
  app_param :: string
  code_regions :: "(string, region_ptr) smap"
  strings_by_id :: "(int, string) smap"
  ids_by_string :: "(string, int) smap"
  last_string_id :: int
  region_by_regionKey :: "(64 word, region_ptr) smap"
  sig_regions :: "region_ptr list"
  phase_region :: "region_ptr option"
  main_region :: "region_ptr option"
  mpiprocs :: int
  ompthreads :: int
  calltree_root :: "nat option"
  default_energy_mapping :: "(string, (string, dbl) smap) smap"
  input_identifiers :: "(string, string list) smap"

definition new_Application :: "nat option \<Rightarrow> application" where
  "new_Application junk =
     \<lparr>region_store = [], app_name = '''', app_param = '''', code_regions = [], strings_by_id = [], ids_by_string = [],
      last_string_id = 1, region_by_regionKey = [], sig_regions = [], phase_region = None, main_region = None,
      mpiprocs = 0, ompthreads = 0, calltree_root = junk, default_energy_mapping = [], input_identifiers = []\<rparr>"

definition DEFAULT_REGION_NAME :: string where "DEFAULT_REGION_NAME = ''psc_reg_name_none''"
definition DEFAULT_FILE_NAME :: string where "DEFAULT_FILE_NAME = ''psc_file_name_none''"

definition region_at :: "application \<Rightarrow> region_ptr \<Rightarrow> region_object comp" where
  "region_at a r = check (r < length (region_store a)) UB (ret (region_store a ! r))"

text \<open>\<open>new Region( ... )\<close>: the pointer and the state with the object.\<close>

definition alloc_region :: "region_object \<Rightarrow> application \<Rightarrow> region_ptr \<times> application" where
  "alloc_region r a = (length (region_store a), a\<lparr>region_store := region_store a @ [r]\<rparr>)"

definition get_regions :: "application \<Rightarrow> region_ptr list" where
  "get_regions a = map snd (code_regions a)"

definition get_significant_regions :: "application \<Rightarrow> region_ptr list comp" where
  "get_significant_regions a =
     cfold (\<lambda>(_, r) rs. cbind (region_at a r) (\<lambda>obj. ret (if ro_is_significant obj then rs @ [r] else rs))) (code_regions a) []"

text \<open>The first region of the map the test finds.\<close>

fun find_region :: "application \<Rightarrow> (region_object \<Rightarrow> bool) \<Rightarrow> (string \<times> region_ptr) list \<Rightarrow> region_ptr option comp" where
  "find_region a test [] = ret None"
| "find_region a test ((_, r) # rs) =
     cbind (region_at a r) (\<lambda>obj. if test obj then ret (Some r) else find_region a test rs)"

definition searchRegion_position :: "int \<Rightarrow> int \<Rightarrow> application \<Rightarrow> region_ptr option comp" where
  "searchRegion_position file_id line a =
     find_region a (\<lambda>obj. ri_file_id (ro_ident obj) = file_id \<and> ri_rfl (ro_ident obj) = line) (code_regions a)"

definition searchRegion :: "string \<Rightarrow> application \<Rightarrow> region_ptr option" where
  "searchRegion rid a = sm_find (code_regions a) rid"

definition get_subroutine :: "string \<Rightarrow> application \<Rightarrow> region_ptr option comp" where
  "get_subroutine sub_nm a =
     find_region a (\<lambda>obj. ro_name obj = sub_nm \<and> ri_type (ro_ident obj) = SUB_REGION) (code_regions a)"

definition get_subroutines :: "application \<Rightarrow> region_ptr option list comp" where
  "get_subroutines a =
     cfold (\<lambda>(_, r) rs. cbind (region_at a r) (\<lambda>obj.
         ret (if ri_type (ro_ident obj) = SUB_REGION then rs @ [Some r] else rs))) (code_regions a) [main_region a]"

text \<open>\<open>strcasecmp\<close> compares up to the first zero byte, letters without their case.\<close>

definition c_str :: "string \<Rightarrow> string" where
  "c_str s = takeWhile (\<lambda>c. c \<noteq> CHR 0x00) s"

definition to_lower :: "char \<Rightarrow> char" where
  "to_lower c = (if CHR ''A'' \<le> c \<and> c \<le> CHR ''Z'' then char_of ((of_char c :: nat) + 32) else c)"

definition strcasecmp_equal :: "string \<Rightarrow> string \<Rightarrow> bool" where
  "strcasecmp_equal s t \<longleftrightarrow> map to_lower (c_str s) = map to_lower (c_str t)"

definition mark_region :: "string \<Rightarrow> region_ptr \<Rightarrow> application \<Rightarrow> application comp" where
  "mark_region n r a =
     cbind (region_at a r) (\<lambda>obj.
       ret (if strcasecmp_equal (ro_name obj) n
            then a\<lparr>region_store := (region_store a)[r := obj\<lparr>ro_is_significant := True\<rparr>], sig_regions := sig_regions a @ [r]\<rparr>
            else a))"

definition markSignificantRegions :: "string list \<Rightarrow> application \<Rightarrow> application comp" where
  "markSignificantRegions names a =
     cfold (\<lambda>n a. cfold (\<lambda>(_, r). mark_region n r) (code_regions a) a) names (a\<lparr>sig_regions := []\<rparr>)"

subsection \<open>Numbers for strings\<close>

definition getIDbyString :: "string \<Rightarrow> application \<Rightarrow> int" where
  "getIDbyString str a = (case sm_find (ids_by_string a) str of Some i \<Rightarrow> i | None \<Rightarrow> - 1)"

definition getStringByID :: "int \<Rightarrow> application \<Rightarrow> string" where
  "getStringByID i a = (case sm_find (strings_by_id a) i of Some s \<Rightarrow> s | None \<Rightarrow> '''')"

definition incr_string_id :: "application \<Rightarrow> application comp" where
  "incr_string_id a =
     check (last_string_id a < INT_MAX) UB (ret (a\<lparr>last_string_id := last_string_id a + 1\<rparr>))"

text \<open>The empty loop ends at once or never: its body changes nothing.\<close>

definition addString :: "string \<Rightarrow> application \<Rightarrow> (int \<times> application) comp" where
  "addString str a =
     (let string_id = getIDbyString str a
      in if string_id \<noteq> - 1 then ret (string_id, a)
         else cbind (incr_string_id a) (\<lambda>a.
              cbind (loop (\<lambda>_. ret (c_str (getStringByID (last_string_id a) a) \<noteq> '''', ())) ()) (\<lambda>_.
              cbind (incr_string_id a) (\<lambda>a.
                ret (last_string_id a,
                     a\<lparr>strings_by_id := sm_put (last_string_id a) str (strings_by_id a),
                       ids_by_string := sm_put str (last_string_id a) (ids_by_string a)\<rparr>)))))"

subsection \<open>Finding and adding regions\<close>

definition hash_region_ident :: "int \<Rightarrow> int \<Rightarrow> int \<Rightarrow> 64 word" where
  "hash_region_ident name_id file_id rfl =
     word_of_int file_id * 10000000 + word_of_int name_id * 10000 + word_of_int rfl"

definition getRegionByKey :: "64 word \<Rightarrow> application \<Rightarrow> region_ptr option" where
  "getRegionByKey region_id a = sm_find (region_by_regionKey a) region_id"

definition file_or_default :: "string \<Rightarrow> string" where
  "file_or_default s = (if s = [] then DEFAULT_FILE_NAME else s)"

definition name_or_default :: "string \<Rightarrow> string" where
  "name_or_default s = (if s = [] then DEFAULT_REGION_NAME else s)"

definition getRegionKeyByDescr :: "string \<Rightarrow> string \<Rightarrow> int \<Rightarrow> application \<Rightarrow> 64 word" where
  "getRegionKeyByDescr region_name file_name rfl a =
     (let file_id = getIDbyString (file_or_default file_name) a
      in if file_id = - 1 then 0
         else let name_id = getIDbyString (name_or_default region_name) a
              in if name_id = - 1 then 0 else hash_region_ident name_id file_id rfl)"

definition getRegionByDescr :: "string \<Rightarrow> string \<Rightarrow> int \<Rightarrow> application \<Rightarrow> region_ptr option" where
  "getRegionByDescr region_name file_name rfl a =
     getRegionByKey (getRegionKeyByDescr (name_or_default region_name) (file_or_default file_name) rfl a) a"

definition getRegionByID :: "string \<Rightarrow> bool \<Rightarrow> application \<Rightarrow> region_ptr option comp" where
  "getRegionByID rid allowNull a =
     (let result = sm_find (code_regions a) rid
      in if result = None \<and> \<not> allowNull then fail Abort else ret result)"

definition addSCOREPRegion ::
  "int \<Rightarrow> string \<Rightarrow> string \<Rightarrow> region_type \<Rightarrow> int \<Rightarrow> int \<Rightarrow> application \<Rightarrow> (region_ptr \<times> application) comp" where
  "addSCOREPRegion rfl file reg_name region_type start_position end_position a =
     (let file_name = file_or_default file; reg_name = name_or_default reg_name
      in case getRegionByDescr reg_name file_name rfl a of
           Some existing \<Rightarrow> ret (existing, a)
         | None \<Rightarrow>
             cbind (addString reg_name a) (\<lambda>(name_id, a).
             cbind (addString file_name a) (\<lambda>(file_id, a).
             let new_region_key = hash_region_ident name_id file_id rfl;
                 obj = new_Region_key new_region_key region_type file_id rfl start_position end_position file_name reg_name False;
                 (new_region, a) = alloc_region obj a;
                 a = a\<lparr>code_regions := sm_insert (getRegionID obj) new_region (code_regions a),
                       region_by_regionKey := sm_put new_region_key new_region (region_by_regionKey a)\<rparr>
             in cbind (getRegionByID (getRegionID obj) True a) (\<lambda>test.
                  check (test = Some new_region) Abort (ret (new_region, a))))))"

definition set_phase_region :: "region_ptr option \<Rightarrow> application \<Rightarrow> application comp" where
  "set_phase_region region a =
     (case region of None \<Rightarrow> ret (a\<lparr>phase_region := None\<rparr>)
      | Some r \<Rightarrow> cbind (region_at a r) (\<lambda>obj. cbind (getRegionByID (getRegionID obj) True a) (\<lambda>found.
          check (found \<noteq> None) Abort (ret (a\<lparr>phase_region := Some r\<rparr>)))))"

definition Application_addRegion :: "string \<Rightarrow> int \<Rightarrow> string \<Rightarrow> region_type \<Rightarrow> int \<Rightarrow> int \<Rightarrow> application \<Rightarrow> application comp" where
  "Application_addRegion region_name rfl file_name t start end_pos a =
     (let the_name = name_or_default region_name; the_file = file_or_default file_name
      in cbind (addString the_file a) (\<lambda>(file_id, a).
         let obj = new_Region t file_id rfl start end_pos the_file the_name False;
             (region, a) = alloc_region obj a;
             a = a\<lparr>code_regions := sm_insert (getRegionID obj) region (code_regions a)\<rparr>
         in if t = USER_REGION \<and> phase_region a = None then set_phase_region (Some region) a else ret a))"

subsection \<open>Energies and input identifiers\<close>

definition add_to :: "string \<Rightarrow> string \<Rightarrow> dbl \<Rightarrow> (string, (string, dbl) smap) smap \<Rightarrow> (string, (string, dbl) smap) smap comp" where
  "add_to kind call_path x m =
     cbind (sm_at m kind) (\<lambda>energies. cbind (sm_at energies call_path) (\<lambda>old.
       ret (sm_put kind (sm_put call_path (dadd old x) energies) m)))"

definition insert_at :: "string \<Rightarrow> string \<Rightarrow> dbl \<Rightarrow> (string, (string, dbl) smap) smap \<Rightarrow> (string, (string, dbl) smap) smap" where
  "insert_at kind call_path x m =
     (let (energies, m) = sm_index [] kind m in sm_put kind (sm_insert call_path x energies) m)"

definition generateDefaultEnergyMapping :: "string \<Rightarrow> dbl \<Rightarrow> dbl \<Rightarrow> application \<Rightarrow> application comp" where
  "generateDefaultEnergyMapping call_path defaultEnergy totalInstr a =
     (let m = default_energy_mapping a
      in case (sm_find m ''Energy'', sm_find m ''TotalInstr'') of
           (Some energies, Some instrs) \<Rightarrow>
             if sm_has energies call_path \<and> sm_has instrs call_path
             then cbind (add_to ''Energy'' call_path defaultEnergy m) (\<lambda>m.
                  cbind (add_to ''TotalInstr'' call_path totalInstr m) (\<lambda>m. ret (a\<lparr>default_energy_mapping := m\<rparr>)))
             else ret (a\<lparr>default_energy_mapping :=
                    insert_at ''TotalInstr'' call_path totalInstr (insert_at ''Energy'' call_path defaultEnergy m)\<rparr>)
         | _ \<Rightarrow> ret (a\<lparr>default_energy_mapping :=
                    insert_at ''TotalInstr'' call_path totalInstr (insert_at ''Energy'' call_path defaultEnergy m)\<rparr>))"

text \<open>The first value of every identifier; \<open>front()\<close> of one without values is undefined.\<close>

definition fillBestInputIdentifiers :: "application \<Rightarrow> (string, string) smap \<Rightarrow> (string, string) smap comp" where
  "fillBestInputIdentifiers a best =
     cfold (\<lambda>(k, vs) best. case vs of [] \<Rightarrow> fail UB | v # _ \<Rightarrow> ret (sm_put k v best)) (input_identifiers a) best"

end
