(* ===== verification/AppRegionsCorrect.thy ===== *)
theory AppRegionsCorrect
  imports AppRegions
begin

text \<open>
  What the application's tables promise: a string gets one number and keeps it, and a region added is found
  again by its description and by its identifier, as long as lines and numbers stay below the places the key
  gives them; beyond, two regions share a key and one is taken for the other.
\<close>

section \<open>Strings and their numbers\<close>

text \<open>Registered numbers are odd: every registration advances the counter twice.\<close>

definition strings_ok :: "application \<Rightarrow> bool" where
  "strings_ok a \<longleftrightarrow> odd (last_string_id a) \<and> 1 \<le> last_string_id a \<and>
     (\<forall>s i. sm_find (ids_by_string a) s = Some i \<longleftrightarrow> sm_find (strings_by_id a) i = Some s) \<and>
     (\<forall>s i. sm_find (ids_by_string a) s = Some i \<longrightarrow> odd i \<and> 3 \<le> i \<and> i \<le> last_string_id a)"

lemma strings_ok_new: "strings_ok (new_Application junk)"
  by (simp add: strings_ok_def new_Application_def)

lemma strings_ok_iff: "strings_ok a \<Longrightarrow> sm_find (ids_by_string a) s = Some i \<longleftrightarrow> sm_find (strings_by_id a) i = Some s"
  by (simp add: strings_ok_def)

lemma free_string_id:
  assumes "strings_ok a" "last_string_id a < i"
  shows "sm_find (strings_by_id a) i = None"
proof (rule ccontr)
  assume "sm_find (strings_by_id a) i \<noteq> None"
  then obtain t where "sm_find (strings_by_id a) i = Some t" by auto
  then have "sm_find (ids_by_string a) t = Some i" using assms(1) by (simp add: strings_ok_def)
  then have "i \<le> last_string_id a" using assms(1) unfolding strings_ok_def by blast
  with assms(2) show False by simp
qed

lemma getIDbyString_known: "strings_ok a \<Longrightarrow> getIDbyString s a = i \<Longrightarrow> i \<noteq> - 1 \<Longrightarrow> sm_find (ids_by_string a) s = Some i"
  by (auto simp: getIDbyString_def split: option.splits)

lemma getIDbyString_unknown: "strings_ok a \<Longrightarrow> getIDbyString s a = - 1 \<longleftrightarrow> sm_find (ids_by_string a) s = None"
  by (force simp: getIDbyString_def strings_ok_def split: option.splits)

lemma addString_known: "strings_ok a \<Longrightarrow> sm_find (ids_by_string a) s = Some i \<Longrightarrow> addString s a = ret (i, a)"
  using getIDbyString_unknown [of a s] by (auto simp: addString_def getIDbyString_def)

lemma addString_new:
  assumes ok: "strings_ok a" and new: "sm_find (ids_by_string a) s = None" and room: "last_string_id a + 2 \<le> INT_MAX"
  shows "addString s a = ret (last_string_id a + 2, a\<lparr>last_string_id := last_string_id a + 2,
    strings_by_id := sm_put (last_string_id a + 2) s (strings_by_id a), ids_by_string := sm_put s (last_string_id a + 2) (ids_by_string a)\<rparr>)"
proof -
  have "sm_find (strings_by_id a) (last_string_id a + 1) = None" by (rule free_string_id [OF ok]) simp
  then have "getStringByID (last_string_id a + 1) (a\<lparr>last_string_id := last_string_id a + 1\<rparr>) = ''''"
    by (simp add: getStringByID_def)
  moreover have "getIDbyString s a = - 1" using ok new by (simp add: getIDbyString_unknown)
  ultimately show ?thesis using room
    by (simp add: addString_def incr_string_id_def loop_unfold c_str_def Let_def add.commute [of 2])
qed

definition with_strings :: "application \<Rightarrow> application \<Rightarrow> application" where
  "with_strings b a = a\<lparr>last_string_id := last_string_id b, strings_by_id := strings_by_id b, ids_by_string := ids_by_string b\<rparr>"

lemma with_strings_same [simp]:
  "region_store (with_strings b a) = region_store a" "code_regions (with_strings b a) = code_regions a"
  "region_by_regionKey (with_strings b a) = region_by_regionKey a"
  "strings_by_id (with_strings b a) = strings_by_id b" "ids_by_string (with_strings b a) = ids_by_string b"
  "last_string_id (with_strings b a) = last_string_id b" "with_strings a a = a"
  "with_strings c (with_strings b a) = with_strings c a"
  by (simp_all add: with_strings_def)

text \<open>Registering a string: it has its number now, and every number given before stays.\<close>

lemma addString_total:
  assumes ok: "strings_ok a" and room: "last_string_id a + 2 \<le> INT_MAX"
  shows "total (addString s a) (\<lambda>(i, b). b = with_strings b a \<and> strings_ok b \<and> last_string_id b \<le> last_string_id a + 2 \<and>
    sm_find (ids_by_string b) s = Some i \<and> (\<forall>t j. sm_find (ids_by_string a) t = Some j \<longrightarrow> sm_find (ids_by_string b) t = Some j))"
proof (cases "sm_find (ids_by_string a) s")
  case (Some i)
  then show ?thesis using addString_known [OF ok Some] ok by simp
next
  case None
  let ?i = "last_string_id a + 2"
  have "sm_find (strings_by_id a) ?i = None" by (rule free_string_id [OF ok]) simp
  moreover have "sm_find (strings_by_id a) j \<noteq> Some s" for j using strings_ok_iff [OF ok, of s j] None by simp
  moreover have "odd ?i" "3 \<le> ?i" using ok by (simp_all add: strings_ok_def)
  moreover have "odd j \<and> 3 \<le> j \<and> j \<le> ?i" if "sm_find (ids_by_string a) t = Some j" for t j
    using ok that unfolding strings_ok_def by force
  ultimately have "strings_ok (a\<lparr>last_string_id := ?i, strings_by_id := sm_put ?i s (strings_by_id a), ids_by_string := sm_put s ?i (ids_by_string a)\<rparr>)"
    using None by (auto simp: strings_ok_def [of "a\<lparr>last_string_id := _, strings_by_id := _, ids_by_string := _\<rparr>"] strings_ok_iff [OF ok])
  then show ?thesis using addString_new [OF ok None room] None by (auto simp: with_strings_def)
qed

section \<open>Keys\<close>

lemma hash_injective:
  assumes eq: "hash_region_ident n f l = hash_region_ident n' f' l'"
    and n: "0 \<le> n" "n < 1000" "0 \<le> n'" "n' < 1000" and f: "0 \<le> f" "f < 1000" "0 \<le> f'" "f' < 1000"
    and l: "0 \<le> l" "l < 10000" "0 \<le> l'" "l' < 10000"
  shows "n = n' \<and> f = f' \<and> l = l'"
proof -
  have val: "uint (hash_region_ident a b c) = b * 10000000 + a * 10000 + c"
    if "0 \<le> a" "a < 1000" "0 \<le> b" "b < 1000" "0 \<le> c" "c < 10000" for a b c
  proof -
    have "hash_region_ident a b c = word_of_int (b * 10000000 + a * 10000 + c)"
      by (simp add: hash_region_ident_def)
    then have "uint (hash_region_ident a b c) = (b * 10000000 + a * 10000 + c) mod 2 ^ 64"
      by (simp only: uint_word_of_int) simp
    also have "\<dots> = b * 10000000 + a * 10000 + c" by (rule mod_pos_pos_trivial) (use that in simp_all)
    finally show ?thesis .
  qed
  have eqn: "f * 10000000 + n * 10000 + l = f' * 10000000 + n' * 10000 + l'"
    using eq val [of n f l] val [of n' f' l'] n f l by simp
  have f_eq: "f = f'"
  proof (rule linorder_cases [of f f'])
    assume "f < f'" then show ?thesis using eqn n l by linarith
  next
    assume "f' < f" then show ?thesis using eqn n l by linarith
  qed
  have n_eq: "n = n'"
  proof (rule linorder_cases [of n n'])
    assume "n < n'" then show ?thesis using eqn f_eq l by linarith
  next
    assume "n' < n" then show ?thesis using eqn f_eq l by linarith
  qed
  show ?thesis using eqn f_eq n_eq by simp
qed

lemma hash_positive:
  assumes "3 \<le> n" "n < 1000" "3 \<le> f" "f < 1000" "0 \<le> l" "l < 10000"
  shows "hash_region_ident n f l \<noteq> 0"
proof
  assume "hash_region_ident n f l = 0"
  then have "hash_region_ident n f l = hash_region_ident 0 0 0" by (simp add: hash_region_ident_def)
  from hash_injective [OF this] assms show False by auto
qed

section \<open>Regions found again\<close>

definition file_of :: "region_object \<Rightarrow> string" where
  "file_of r = ri_file_name (ro_ident r)"

definition line_of :: "region_object \<Rightarrow> int" where
  "line_of r = ri_rfl (ro_ident r)"

text \<open>A region the tables know: its strings have numbers, its line fits, and both tables lead to it.\<close>

definition key_of :: "application \<Rightarrow> region_object \<Rightarrow> 64 word" where
  "key_of a r = hash_region_ident (getIDbyString (ro_name r) a) (getIDbyString (file_of r) a) (line_of r)"

definition known :: "application \<Rightarrow> region_ptr \<Rightarrow> bool" where
  "known a p \<longleftrightarrow> p < length (region_store a) \<and>
     (let r = region_store a ! p
      in getIDbyString (ro_name r) a \<noteq> - 1 \<and> getIDbyString (file_of r) a \<noteq> - 1 \<and> 0 \<le> line_of r \<and> line_of r < 10000 \<and>
         CHR ''*'' \<notin> set (file_of r) \<and> file_of r \<noteq> [] \<and> ro_name r \<noteq> [] \<and>
         sm_find (region_by_regionKey a) (key_of a r) = Some p \<and> sm_find (code_regions a) (getRegionID r) = Some p)"

definition app_ok :: "application \<Rightarrow> bool" where
  "app_ok a \<longleftrightarrow> strings_ok a \<and>
     (\<forall>k p. sm_find (region_by_regionKey a) k = Some p \<longrightarrow> known a p \<and> k = key_of a (region_store a ! p)) \<and>
     (\<forall>i p. sm_find (code_regions a) i = Some p \<longrightarrow> known a p \<and> i = getRegionID (region_store a ! p))"

lemma app_ok_new: "app_ok (new_Application junk)"
  using strings_ok_new by (simp add: app_ok_def) (simp add: new_Application_def)

lemma app_ok_strings: "app_ok a \<Longrightarrow> strings_ok a"
  by (simp add: app_ok_def)

lemma id_range:
  assumes "strings_ok a" "getIDbyString s a \<noteq> - 1"
  shows "3 \<le> getIDbyString s a" "getIDbyString s a \<le> last_string_id a"
  using getIDbyString_known [OF assms(1) refl assms(2)] assms(1) unfolding strings_ok_def by blast+

lemma id_injective:
  assumes "strings_ok a" "getIDbyString s a = getIDbyString t a" "getIDbyString s a \<noteq> - 1"
  shows "s = t"
proof -
  have "sm_find (ids_by_string a) s = Some (getIDbyString s a)" "sm_find (ids_by_string a) t = Some (getIDbyString s a)"
    using getIDbyString_known [OF assms(1)] assms(2,3) by metis+
  then show ?thesis by (simp add: strings_ok_iff [OF assms(1)])
qed

text \<open>Two descriptions with numbers and lines in place have the same key only when they are the same.\<close>

lemma key_injective:
  assumes "strings_ok a" "last_string_id a < 1000"
    and "getIDbyString n a \<noteq> - 1" "getIDbyString f a \<noteq> - 1" "getIDbyString n' a \<noteq> - 1" "getIDbyString f' a \<noteq> - 1"
    and "0 \<le> l" "l < 10000" "0 \<le> l'" "l' < 10000"
    and "hash_region_ident (getIDbyString n a) (getIDbyString f a) l = hash_region_ident (getIDbyString n' a) (getIDbyString f' a) l'"
  shows "n = n' \<and> f = f' \<and> l = l'"
proof -
  note r = id_range [OF assms(1,3)] id_range [OF assms(1,4)] id_range [OF assms(1,5)] id_range [OF assms(1,6)]
  from hash_injective [OF assms(11)] r assms(2,7-10)
  have "getIDbyString n a = getIDbyString n' a" "getIDbyString f a = getIDbyString f' a" "l = l'" by simp_all
  then show ?thesis using id_injective [OF assms(1)] assms(3,4) by blast
qed

text \<open>The text identifier determines the region when file names have no star.\<close>

lemma append_star:
  assumes "xs @ CHR ''*'' # ys = xs' @ CHR ''*'' # ys'" "CHR ''*'' \<notin> set xs" "CHR ''*'' \<notin> set xs'"
  shows "xs = xs' \<and> ys = ys'"
  using assms
proof (induction xs arbitrary: xs')
  case Nil then show ?case by (cases xs') auto
next
  case (Cons x xs) then show ?case by (cases xs') auto
qed

lemma region_id_injective:
  assumes "Region_getRegionID f n l = Region_getRegionID f' n' l'" "CHR ''*'' \<notin> set f" "CHR ''*'' \<notin> set f'"
  shows "f = f' \<and> n = n' \<and> l = l'"
proof -
  from assms(1) have "f @ CHR ''*'' # n @ CHR ''*'' # print_int l = f' @ CHR ''*'' # n' @ CHR ''*'' # print_int l'"
    by (simp add: Region_getRegionID_def)
  from append_star [OF this assms(2,3)] have f: "f = f'" and "n @ CHR ''*'' # print_int l = n' @ CHR ''*'' # print_int l'" by auto
  then have "rev (print_int l) @ CHR ''*'' # rev n = rev (print_int l') @ CHR ''*'' # rev n'" by (metis append_Cons append_assoc append_Nil rev.simps(2) rev_append)
  from append_star [OF this] print_int_no_star have "rev (print_int l) = rev (print_int l')" "rev n = rev n'" by auto
  with f show ?thesis by (simp add: print_int_inject)
qed

lemma lookup_known:
  assumes "app_ok a" "getRegionByDescr n f l a = Some p"
  shows "known a p"
  using assms by (auto simp: getRegionByDescr_def getRegionByKey_def app_ok_def)

lemma defaults: "name_or_default (name_or_default n) = name_or_default n" "file_or_default (file_or_default n) = file_or_default n"
    "name_or_default n \<noteq> []" "file_or_default n \<noteq> []"
  by (simp_all add: name_or_default_def file_or_default_def DEFAULT_REGION_NAME_def DEFAULT_FILE_NAME_def)

lemma star_default: "CHR ''*'' \<notin> set f \<Longrightarrow> CHR ''*'' \<notin> set (file_or_default f)"
  by (simp add: file_or_default_def DEFAULT_FILE_NAME_def)

lemma getRegionByDescr_default:
  "getRegionByDescr (name_or_default n) (file_or_default f) l a = getRegionByDescr n f l a"
  by (simp add: getRegionByDescr_def defaults)

definition small :: "application \<Rightarrow> bool" where
  "small a \<longleftrightarrow> last_string_id a < 1000"

lemma lookup_describes:
  assumes ok: "app_ok a" and small: "small a" and l: "0 \<le> l" "l < 10000" and p: "getRegionByDescr n f l a = Some p"
  shows "known a p \<and> ro_name (region_store a ! p) = name_or_default n \<and> file_of (region_store a ! p) = file_or_default f \<and>
    line_of (region_store a ! p) = l \<and> getIDbyString (name_or_default n) a \<noteq> - 1 \<and> getIDbyString (file_or_default f) a \<noteq> - 1"
proof -
  let ?r = "region_store a ! p" and ?n = "name_or_default n" and ?f = "file_or_default f"
  have idem: "name_or_default ?n = ?n" "file_or_default ?f = ?f"
    by (simp_all add: name_or_default_def file_or_default_def DEFAULT_REGION_NAME_def DEFAULT_FILE_NAME_def)
  from p have key: "sm_find (region_by_regionKey a) (getRegionKeyByDescr ?n ?f l a) = Some p"
    by (simp add: getRegionByDescr_def getRegionByKey_def)
  with ok have kn: "known a p" and eq: "getRegionKeyByDescr ?n ?f l a = key_of a ?r" by (auto simp: app_ok_def)
  from kn have r: "getIDbyString (ro_name ?r) a \<noteq> - 1" "getIDbyString (file_of ?r) a \<noteq> - 1" "0 \<le> line_of ?r" "line_of ?r < 10000"
    by (auto simp: known_def Let_def)
  note S = app_ok_strings [OF ok]
  have "key_of a ?r \<noteq> 0" unfolding key_of_def
    using id_range [OF S r(1)] id_range [OF S r(2)] small r(3,4) by (intro hash_positive) (simp_all add: small_def)
  with eq have ids: "getIDbyString ?n a \<noteq> - 1" "getIDbyString ?f a \<noteq> - 1"
    by (auto simp: getRegionKeyByDescr_def Let_def idem split: if_splits)
  with eq have "hash_region_ident (getIDbyString (ro_name ?r) a) (getIDbyString (file_of ?r) a) (line_of ?r) =
      hash_region_ident (getIDbyString ?n a) (getIDbyString ?f a) l"
    by (simp add: getRegionKeyByDescr_def Let_def idem key_of_def)
  from key_injective [OF S _ r(1,2) ids r(3,4) l this] small kn ids show ?thesis by (simp add: small_def)
qed

lemma known_found:
  assumes "known a p" and "region_store a ! p = r"
  shows "getRegionByDescr (ro_name r) (file_of r) (line_of r) a = Some p"
  using assms by (auto simp: known_def Let_def getRegionByDescr_def getRegionByKey_def getRegionKeyByDescr_def
      name_or_default_def file_or_default_def key_of_def)

text \<open>Registering strings keeps everything known.\<close>

definition numbers_more :: "application \<Rightarrow> application \<Rightarrow> bool" where
  "numbers_more a b \<longleftrightarrow> b = with_strings b a \<and> strings_ok b \<and>
     (\<forall>t j. sm_find (ids_by_string a) t = Some j \<longrightarrow> sm_find (ids_by_string b) t = Some j)"

lemma numbers_more_trans:
  assumes "numbers_more a b" "numbers_more b c"
  shows "numbers_more a c"
proof -
  have "c = with_strings c a" using assms by (metis numbers_more_def with_strings_same(8))
  with assms show ?thesis by (simp add: numbers_more_def)
qed

lemma numbers_more_same:
  assumes "numbers_more a b"
  shows "region_store b = region_store a" "region_by_regionKey b = region_by_regionKey a" "code_regions b = code_regions a"
proof -
  have "b = with_strings b a" using assms by (simp add: numbers_more_def)
  from arg_cong [OF this, of region_store] arg_cong [OF this, of region_by_regionKey] arg_cong [OF this, of code_regions]
  show "region_store b = region_store a" "region_by_regionKey b = region_by_regionKey a" "code_regions b = code_regions a" by simp_all
qed

lemma addString_numbers:
  assumes "strings_ok a" "last_string_id a + 2 \<le> INT_MAX"
  shows "\<exists>i b. addString s a = ret (i, b) \<and> numbers_more a b \<and> last_string_id b \<le> last_string_id a + 2 \<and>
    sm_find (ids_by_string b) s = Some i"
  using addString_total [OF assms, of s] unfolding numbers_more_def total_def by auto

lemma known_numbers:
  assumes "known a p" "numbers_more a b" "strings_ok a"
  shows "known b p \<and> key_of b (region_store a ! p) = key_of a (region_store a ! p)"
proof -
  let ?r = "region_store a ! p"
  have same: "getIDbyString s b = getIDbyString s a" if "getIDbyString s a \<noteq> - 1" for s
  proof -
    have "sm_find (ids_by_string a) s = Some (getIDbyString s a)" by (rule getIDbyString_known [OF assms(3) refl that])
    with assms(2) show ?thesis by (simp add: numbers_more_def getIDbyString_def)
  qed
  have "getIDbyString (ro_name ?r) a \<noteq> - 1" "getIDbyString (file_of ?r) a \<noteq> - 1" using assms(1) by (auto simp: known_def Let_def)
  then have "key_of b ?r = key_of a ?r" "getIDbyString (ro_name ?r) b \<noteq> - 1" "getIDbyString (file_of ?r) b \<noteq> - 1"
    by (simp_all add: key_of_def same)
  with assms(1) show ?thesis by (simp add: known_def Let_def numbers_more_same [OF assms(2)])
qed

lemma app_ok_numbers:
  assumes "app_ok a" "numbers_more a b"
  shows "app_ok b"
proof -
  have "known b p \<and> key_of b (region_store a ! p) = key_of a (region_store a ! p)" if "known a p" for p
    using known_numbers [OF that assms(2) app_ok_strings [OF assms(1)]] .
  moreover have "strings_ok b" using assms(2) by (simp add: numbers_more_def)
  ultimately show ?thesis using assms(1) by (auto simp: app_ok_def numbers_more_same [OF assms(2)])
qed

text \<open>What is stored under a key or an identifier was known before the strings were registered.\<close>

lemma stored_known:
  assumes "app_ok a" "numbers_more a b" "sm_find (region_by_regionKey b) k = Some p \<or> sm_find (code_regions b) i = Some p"
  shows "known a p"
  using assms(1,3) unfolding app_ok_def numbers_more_same [OF assms(2)] by blast

lemma description_free:
  assumes ok: "app_ok a" and more: "numbers_more a b" and small: "small b"
    and ids: "getIDbyString (ro_name obj) b \<noteq> - 1" "getIDbyString (file_of obj) b \<noteq> - 1"
    and l: "0 \<le> line_of obj" "line_of obj < 10000" and star: "CHR ''*'' \<notin> set (file_of obj)"
    and none: "getRegionByDescr (ro_name obj) (file_of obj) (line_of obj) a = None"
  shows "sm_find (region_by_regionKey b) (key_of b obj) = None \<and> sm_find (code_regions b) (getRegionID obj) = None"
proof -
  note okb = app_ok_numbers [OF ok more]
  note st = numbers_more_same(1) [OF more]
  have absent: "\<not> (ro_name (region_store a ! p) = ro_name obj \<and> file_of (region_store a ! p) = file_of obj \<and>
      line_of (region_store a ! p) = line_of obj)" if "known a p" for p
    using known_found [OF that refl] none by auto
  have "sm_find (region_by_regionKey b) (key_of b obj) \<noteq> Some p" for p
  proof
    assume p: "sm_find (region_by_regionKey b) (key_of b obj) = Some p"
    let ?r = "region_store a ! p"
    have kb: "known b p" and key: "key_of b obj = key_of b ?r" using okb p unfolding app_ok_def st by blast+
    from kb have r: "getIDbyString (ro_name ?r) b \<noteq> - 1" "getIDbyString (file_of ?r) b \<noteq> - 1" "0 \<le> line_of ?r" "line_of ?r < 10000"
      by (auto simp: known_def Let_def st)
    from key_injective [OF app_ok_strings [OF okb] _ ids r(1,2) l r(3,4)] key small absent [OF stored_known [OF ok more disjI1 [OF p]]]
    show False by (auto simp: key_of_def small_def)
  qed
  moreover have "sm_find (code_regions b) (getRegionID obj) \<noteq> Some p" for p
  proof
    assume p: "sm_find (code_regions b) (getRegionID obj) = Some p"
    let ?r = "region_store a ! p"
    have "known b p" and same: "getRegionID obj = getRegionID ?r" using okb p unfolding app_ok_def st by blast+
    then have "CHR ''*'' \<notin> set (file_of ?r)" by (auto simp: known_def Let_def st)
    from region_id_injective [OF same [unfolded getRegionID_def], folded file_of_def line_of_def, OF star this]
      absent [OF stored_known [OF ok more disjI2 [OF p]]] show False by auto
  qed
  ultimately show ?thesis by (cases "sm_find (region_by_regionKey b) (key_of b obj)"; cases "sm_find (code_regions b) (getRegionID obj)") auto
qed

text \<open>Storing a new region under a key and an identifier that are free.\<close>

definition store_region :: "region_object \<Rightarrow> application \<Rightarrow> application" where
  "store_region obj a =
     a\<lparr>region_store := region_store a @ [obj],
       code_regions := sm_insert (getRegionID obj) (length (region_store a)) (code_regions a),
       region_by_regionKey := sm_put (key_of a obj) (length (region_store a)) (region_by_regionKey a)\<rparr>"

lemma getIDbyString_store [simp]: "getIDbyString s (store_region obj a) = getIDbyString s a"
  by (simp add: getIDbyString_def store_region_def)

lemma key_of_store [simp]: "key_of (store_region obj a) r = key_of a r"
  by (simp add: key_of_def)

lemma app_ok_store:
  assumes ok: "app_ok a" and ids: "getIDbyString (ro_name obj) a \<noteq> - 1" "getIDbyString (file_of obj) a \<noteq> - 1"
    and l: "0 \<le> line_of obj" "line_of obj < 10000" and names: "CHR ''*'' \<notin> set (file_of obj)" "file_of obj \<noteq> []" "ro_name obj \<noteq> []"
    and free: "sm_find (region_by_regionKey a) (key_of a obj) = None" "sm_find (code_regions a) (getRegionID obj) = None"
  shows "app_ok (store_region obj a) \<and> known (store_region obj a) (length (region_store a)) \<and>
    (\<forall>p. known a p \<longrightarrow> known (store_region obj a) p \<and> region_store (store_region obj a) ! p = region_store a ! p)"
proof -
  let ?b = "store_region obj a" and ?p = "length (region_store a)"
  have store: "region_store ?b = region_store a @ [obj]" by (simp add: store_region_def)
  have keys: "sm_find (region_by_regionKey ?b) = (sm_find (region_by_regionKey a))(key_of a obj \<mapsto> ?p)"
    and names': "sm_find (code_regions ?b) = (sm_find (code_regions a))(getRegionID obj \<mapsto> ?p)"
    using free(2) by (simp_all add: store_region_def)
  have new: "known ?b ?p" using ids l names by (simp add: known_def store keys names')
  have old: "known ?b p \<and> region_store ?b ! p = region_store a ! p" if "known a p" for p
    using that free by (auto simp: known_def Let_def store keys names' nth_append)
  have "strings_ok ?b" using app_ok_strings [OF ok] by (simp add: strings_ok_def store_region_def)
  moreover have "known ?b q \<and> k = key_of ?b (region_store ?b ! q)" if "sm_find (region_by_regionKey ?b) k = Some q" for k q
  proof (cases "k = key_of a obj")
    case False
    with that have "sm_find (region_by_regionKey a) k = Some q" by (simp add: keys)
    then have "known a q" "k = key_of a (region_store a ! q)" using ok unfolding app_ok_def by blast+
    with old show ?thesis by simp
  qed (use that new in \<open>auto simp: keys store\<close>)
  moreover have "known ?b q \<and> i = getRegionID (region_store ?b ! q)" if "sm_find (code_regions ?b) i = Some q" for i q
  proof (cases "i = getRegionID obj")
    case False
    with that have "sm_find (code_regions a) i = Some q" by (simp add: names')
    then have "known a q" "i = getRegionID (region_store a ! q)" using ok unfolding app_ok_def by blast+
    with old show ?thesis by simp
  qed (use that new in \<open>auto simp: names' store\<close>)
  ultimately show ?thesis using new old by (simp add: app_ok_def)
qed

text \<open>Lookups that succeed go on to succeed when known regions stay.\<close>

lemma lookups_stay:
  assumes "app_ok a" "small a" "0 \<le> l" "l < 10000" "getRegionByDescr n f l a = Some q"
    and "\<And>p. known a p \<Longrightarrow> known b p \<and> region_store b ! p = region_store a ! p"
  shows "getRegionByDescr n f l b = Some q"
proof -
  from lookup_describes [OF assms(1-5)] have "known a q" and r: "ro_name (region_store a ! q) = name_or_default n"
    "file_of (region_store a ! q) = file_or_default f" "line_of (region_store a ! q) = l" by auto
  from assms(6) [OF this(1)] have "known b q" "region_store b ! q = region_store a ! q" by auto
  from known_found [OF this] have "getRegionByDescr (name_or_default n) (file_or_default f) l b = Some q" by (simp add: r)
  then show ?thesis by (simp add: getRegionByDescr_default)
qed

text \<open>A description that is not known, its strings numbered: a region is made.\<close>

lemma addSCOREPRegion_new:
  assumes "getRegionByDescr name file line a = None" "addString (name_or_default name) a = ret (ni, a1)"
    and "addString (file_or_default file) a1 = ret (fi, a2)"
    and "obj = new_Region_key (hash_region_ident ni fi line) t fi line start_pos end_pos (file_or_default file) (name_or_default name) False"
    and "sm_find (code_regions a2) (getRegionID obj) = None"
  shows "addSCOREPRegion line file name t start_pos end_pos a = ret (length (region_store a2),
    a2\<lparr>region_store := region_store a2 @ [obj],
       code_regions := sm_insert (getRegionID obj) (length (region_store a2)) (code_regions a2),
       region_by_regionKey := sm_put (hash_region_ident ni fi line) (length (region_store a2)) (region_by_regionKey a2)\<rparr>)"
  using assms(1-3,5)
  by (simp add: addSCOREPRegion_def Let_def getRegionByDescr_default alloc_region_def assms(4) [symmetric] getRegionByID_def)

text \<open>
  C34: A region added is found again. While fewer than 1000 numbers are given to strings and for lines below
  10000 (the places the key has for them), adding a region returns without abort and gives a region with that
  name, file and line, new or known; afterwards it is found by its description and by its identifier, the
  tables are as consistent as before, and every description looked up successfully before still gives the
  same region.
\<close>

theorem regions_found_again:
  assumes "app_ok a" "last_string_id a + 4 < 1000" "0 \<le> line" "line < 10000" "CHR ''*'' \<notin> set file"
  shows "total (addSCOREPRegion line file name t start_pos end_pos a) (\<lambda>(p, b). app_ok b \<and>
    (let r = region_store b ! p
     in ro_name r = name_or_default name \<and> file_of r = file_or_default file \<and> line_of r = line \<and>
        getRegionByDescr name file line b = Some p \<and> searchRegion (getRegionID r) b = Some p) \<and>
    (\<forall>n f l q. 0 \<le> l \<longrightarrow> l < 10000 \<longrightarrow> getRegionByDescr n f l a = Some q \<longrightarrow> getRegionByDescr n f l b = Some q))"
proof (cases "getRegionByDescr name file line a")
  case (Some p)
  have small: "small a" using assms(2) by (simp add: small_def)
  note d = lookup_describes [OF assms(1) small assms(3,4) Some]
  then have "searchRegion (getRegionID (region_store a ! p)) a = Some p" by (simp add: searchRegion_def known_def Let_def)
  with d Some assms(1) show ?thesis by (simp add: addSCOREPRegion_def Let_def getRegionByDescr_default)
next
  case None
  let ?n = "name_or_default name" and ?f = "file_or_default file" and ?p = "length (region_store a)"
  note S = app_ok_strings [OF assms(1)]
  have small: "small a" using assms(2) by (simp add: small_def)
  from addString_numbers [OF S, of ?n] assms(2) obtain ni b1 where b1: "addString ?n a = ret (ni, b1)" "numbers_more a b1"
    "last_string_id b1 \<le> last_string_id a + 2" "sm_find (ids_by_string b1) ?n = Some ni" by (auto simp: INT_MAX_def)
  then have S1: "strings_ok b1" by (simp add: numbers_more_def)
  from addString_numbers [OF S1, of ?f] assms(2) b1(3) obtain fi b2 where b2: "addString ?f b1 = ret (fi, b2)" "numbers_more b1 b2"
    "last_string_id b2 \<le> last_string_id b1 + 2" "sm_find (ids_by_string b2) ?f = Some fi" by (auto simp: INT_MAX_def)
  have more: "numbers_more a b2" by (rule numbers_more_trans [OF b1(2) b2(2)])
  have ok2: "app_ok b2" by (rule app_ok_numbers [OF assms(1) more])
  have ids: "getIDbyString ?n b2 = ni" "getIDbyString ?f b2 = fi" using b1(4) b2(2,4) by (auto simp: getIDbyString_def numbers_more_def)
  have pos: "ni \<noteq> - 1" "fi \<noteq> - 1" using b1(4) b2(2,4) unfolding numbers_more_def strings_ok_def by force+
  define obj where "obj = new_Region_key (hash_region_ident ni fi line) t fi line start_pos end_pos ?f ?n False"
  have obj: "ro_name obj = ?n" "file_of obj = ?f" "line_of obj = line" "key_of b2 obj = hash_region_ident ni fi line"
    by (simp_all add: obj_def new_Region_key_def file_of_def line_of_def key_of_def ids)
  note o = ids pos obj defaults [of name] defaults [of "file"] assms(3-5)
  have known_ids: "getIDbyString (ro_name obj) b2 \<noteq> - 1" "getIDbyString (file_of obj) b2 \<noteq> - 1" by (simp_all add: o)
  have free: "sm_find (region_by_regionKey b2) (key_of b2 obj) = None" "sm_find (code_regions b2) (getRegionID obj) = None"
    using description_free [OF assms(1) more _ known_ids] None b1(3) b2(3) assms(2)
    by (auto simp: o small_def getRegionByDescr_default star_default)
  have st: "app_ok (store_region obj b2)" "known (store_region obj b2) ?p"
    "\<And>p. known b2 p \<Longrightarrow> known (store_region obj b2) p \<and> region_store (store_region obj b2) ! p = region_store b2 ! p"
    using app_ok_store [OF ok2 known_ids _ _ _ _ _ free] by (simp_all add: o star_default numbers_more_same [OF more])
  have at: "region_store (store_region obj b2) ! ?p = obj" by (simp add: store_region_def numbers_more_same [OF more])
  have "addSCOREPRegion line file name t start_pos end_pos a = ret (?p, store_region obj b2)"
    using addSCOREPRegion_new [OF None b1(1) b2(1) obj_def free(2)]
    by (simp add: store_region_def obj(4) numbers_more_same [OF more])
  moreover have "getRegionByDescr name file line (store_region obj b2) = Some ?p"
    using known_found [OF st(2) at] by (simp add: obj getRegionByDescr_default)
  moreover have "searchRegion (getRegionID obj) (store_region obj b2) = Some ?p"
    using st(2) by (simp add: known_def Let_def searchRegion_def at)
  moreover have "getRegionByDescr n f l (store_region obj b2) = Some q"
    if "0 \<le> l" "l < 10000" "getRegionByDescr n f l a = Some q" for n f l q
    using lookups_stay [OF assms(1) small that] st(3) known_numbers [OF _ more S] numbers_more_same(1) [OF more] by metis
  ultimately show ?thesis using st(1) at obj by simp
qed

theorem regions_found_again_witness:
  "\<exists>p b. addSCOREPRegion 12 ''a.c'' ''main'' USER_REGION 12 20 (new_Application None) = ret (p, b) \<and>
     getRegionByDescr ''main'' ''a.c'' 12 b = Some p \<and> ro_name (region_store b ! p) = ''main''"
  using regions_found_again [OF app_ok_new, of None 12 "''a.c''" "''main''" USER_REGION 12 20]
  by (auto simp: total_def new_Application_def name_or_default_def Let_def)

text \<open>
  Beyond these places regions are mixed up: of two regions of a file whose names were numbered one after
  the other, the first on a line 40000 below the second's, both are added without complaint, and looking up
  the first by its description gives the second.
\<close>

theorem regions_share_key:
  assumes "distinct [n, n', f]" "n \<noteq> ''''" "n' \<noteq> ''''" "f \<noteq> ''''" "CHR ''*'' \<notin> set f"
    and "0 \<le> l" "l + 40000 \<le> INT_MAX"
  shows "\<exists>b c. addSCOREPRegion (l + 40000) f n t s e (new_Application junk) = ret (0, b) \<and>
    addSCOREPRegion l f n' t s e b = ret (1, c) \<and>
    getRegionByDescr n f (l + 40000) c = Some 1 \<and> ro_name (region_store c ! 1) = n' \<and> line_of (region_store c ! 1) = l"
proof -
  define a1 where "a1 = (new_Application junk)\<lparr>last_string_id := 3, strings_by_id := [(3, n)], ids_by_string := [(n, 3)]\<rparr>"
  define a2 where "a2 = a1\<lparr>last_string_id := 5, strings_by_id := sm_put 5 f [(3, n)], ids_by_string := sm_put f 5 [(n, 3)]\<rparr>"
  define first where "first = new_Region_key (hash_region_ident 3 5 (l + 40000)) t 5 (l + 40000) s e f n False"
  define b where "b = a2\<lparr>region_store := [first], code_regions := [(getRegionID first, 0)],
    region_by_regionKey := [(hash_region_ident 3 5 (l + 40000), 0)]\<rparr>"
  define b1 where "b1 = b\<lparr>last_string_id := 7, strings_by_id := sm_put 7 n' (strings_by_id b), ids_by_string := sm_put n' 7 (ids_by_string b)\<rparr>"
  define second where "second = new_Region_key (hash_region_ident 7 5 l) t 5 l s e f n' False"
  define c where "c = b1\<lparr>region_store := [first, second], code_regions := sm_put (getRegionID second) 1 (code_regions b),
    region_by_regionKey := [(hash_region_ident 7 5 l, 1)]\<rparr>"
  have ne: "n \<noteq> f" "f \<noteq> n" "n' \<noteq> f" "f \<noteq> n'" "n \<noteq> n'" "n' \<noteq> n" using assms(1) by auto
  note apps = a1_def a2_def new_Application_def
  have key: "hash_region_ident 3 5 (l + 40000) = hash_region_ident 7 5 l" by (simp add: hash_region_ident_def)
  have id: "getRegionID second \<noteq> getRegionID first"
    using region_id_injective [OF _ assms(5) assms(5)] assms(1)
    by (auto simp: getRegionID_def first_def second_def new_Region_key_def)
  have names: "name_or_default n = n" "name_or_default n' = n'" "file_or_default f = f"
    using assms(2-4) by (simp_all add: name_or_default_def file_or_default_def)
  have "addString n (new_Application junk) = ret (3, a1)" "addString f a1 = ret (5, a2)"
    using ne by (simp_all add: addString_def getIDbyString_def getStringByID_def incr_string_id_def apps loop_unfold
        c_str_def Let_def INT_MAX_def sm_find_Cons)
  moreover have "getRegionByDescr n f (l + 40000) (new_Application junk) = None" "code_regions a2 = []" "region_by_regionKey a2 = []" "region_store a2 = []"
    by (simp_all add: getRegionByDescr_def getRegionByKey_def apps)
  ultimately have one: "addSCOREPRegion (l + 40000) f n t s e (new_Application junk) = ret (0, b)"
    using addSCOREPRegion_new [of n f "l + 40000" "new_Application junk" 3 a1 5 a2 first t s e]
    by (simp add: names first_def [symmetric] b_def sm_insert_def sm_has_def)
  have "hash_region_ident 3 5 (l + 40000) \<noteq> 0"
  proof
    assume z: "hash_region_ident 3 5 (l + 40000) = 0"
    have "hash_region_ident 3 5 (l + 40000) = word_of_int (50070000 + l)" by (simp add: hash_region_ident_def)
    then have "uint (hash_region_ident 3 5 (l + 40000)) = (50070000 + l) mod 2 ^ 64" by (simp only: uint_word_of_int) simp
    also have "\<dots> = 50070000 + l" by (rule mod_pos_pos_trivial) (use assms(6,7) in \<open>simp_all add: INT_MAX_def\<close>)
    finally show False using z assms(6) by simp
  qed
  then have "getRegionByDescr n' f l b = None"
    using ne by (simp add: getRegionByDescr_def getRegionByKey_def getRegionKeyByDescr_def names Let_def getIDbyString_def b_def apps sm_find_Cons)
  moreover have "addString n' b = ret (7, b1)" "addString f b1 = ret (5, b1)"
    using ne by (simp_all add: addString_def getIDbyString_def getStringByID_def incr_string_id_def b1_def b_def apps loop_unfold
        c_str_def Let_def INT_MAX_def sm_find_Cons)
  moreover have "sm_find (code_regions b1) (getRegionID second) = None" using id by (simp add: b1_def b_def sm_find_Cons)
  ultimately have "addSCOREPRegion l f n' t s e b = ret (1, c)"
    using addSCOREPRegion_new [of n' f l b 7 b1 5 b1 second t s e] id
    by (simp add: names second_def [symmetric]) (simp add: b1_def b_def c_def sm_insert_def sm_has_def sm_find_Cons key)
  moreover have "getRegionByDescr n f (l + 40000) c = Some 1"
    using ne by (simp add: getRegionByDescr_def getRegionByKey_def getRegionKeyByDescr_def names Let_def getIDbyString_def c_def b1_def b_def apps
        sm_find_Cons key)
  moreover have "ro_name (region_store c ! 1) = n'" "line_of (region_store c ! 1) = l"
    by (simp_all add: c_def b1_def b_def second_def new_Region_key_def line_of_def)
  ultimately show ?thesis using one by blast
qed

theorem regions_share_key_witness:
  "\<exists>b c. addSCOREPRegion 40012 ''a.c'' ''solve'' SUB_REGION 1 2 (new_Application None) = ret (0, b) \<and>
     addSCOREPRegion 12 ''a.c'' ''main'' SUB_REGION 1 2 b = ret (1, c) \<and>
     getRegionByDescr ''solve'' ''a.c'' 40012 c = Some 1 \<and> ro_name (region_store c ! 1) = ''main''"
  using regions_share_key [of "''solve''" "''main''" "''a.c''" 12 SUB_REGION 1 2 None] by (auto simp: INT_MAX_def)

end
