(* ===== verification/Unordered.thy ===== *)
theory Unordered
  imports StdMap "HOL-Library.Multiset"
begin

text \<open>
  \<open>std::unordered_set\<close> and \<open>std::unordered_map\<close>, the containers of the tuning model generator. The order
  in which they are iterated is not specified: a container is the list of its elements in that order, and
  every insertion of a new element reorders it by a function that is a parameter of the model, so that what
  is proved holds for every order. All the parameter is known to do is to permute.
\<close>

type_synonym 'a uset = "'a list"
type_synonym ('k, 'v) umap = "('k \<times> 'v) list"

definition order_ok :: "('a list \<Rightarrow> 'a list) \<Rightarrow> bool" where
  "order_ok ord \<longleftrightarrow> (\<forall>xs. mset (ord xs) = mset xs)"

section \<open>Sets\<close>

definition us_insert :: "('a list \<Rightarrow> 'a list) \<Rightarrow> 'a \<Rightarrow> 'a uset \<Rightarrow> 'a uset" where
  "us_insert ord x s = (if x \<in> set s then s else ord (x # s))"

definition us_insert_range :: "('a list \<Rightarrow> 'a list) \<Rightarrow> 'a list \<Rightarrow> 'a uset \<Rightarrow> 'a uset" where
  "us_insert_range ord xs s = fold (us_insert ord) xs s"

definition us_erase :: "'a \<Rightarrow> 'a uset \<Rightarrow> 'a uset" where
  "us_erase x s = filter (\<lambda>y. y \<noteq> x) s"

lemma order_set [simp]: "order_ok ord \<Longrightarrow> set (ord xs) = set xs"
  unfolding order_ok_def using mset_eq_setD by blast

lemma order_mset [simp]: "order_ok ord \<Longrightarrow> mset (ord xs) = mset xs"
  by (simp add: order_ok_def)

lemma order_distinct [simp]: "order_ok ord \<Longrightarrow> distinct (ord xs) = distinct xs"
  unfolding order_ok_def using mset_eq_imp_distinct_iff by blast

lemma order_id [simp]: "order_ok (\<lambda>xs. xs)"
  by (simp add: order_ok_def)

lemma set_us_insert [simp]: "order_ok ord \<Longrightarrow> set (us_insert ord x s) = insert x (set s)"
  by (auto simp: us_insert_def)

lemma distinct_us_insert [simp]: "order_ok ord \<Longrightarrow> distinct s \<Longrightarrow> distinct (us_insert ord x s)"
  by (simp add: us_insert_def)

lemma mset_us_insert: "order_ok ord \<Longrightarrow> x \<notin> set s \<Longrightarrow> mset (us_insert ord x s) = add_mset x (mset s)"
  by (simp add: us_insert_def)

lemma set_us_insert_range [simp]: "order_ok ord \<Longrightarrow> set (us_insert_range ord xs s) = set xs \<union> set s"
  by (induction xs arbitrary: s) (auto simp: us_insert_range_def)

lemma distinct_us_insert_range [simp]:
  "order_ok ord \<Longrightarrow> distinct s \<Longrightarrow> distinct (us_insert_range ord xs s)"
  by (induction xs arbitrary: s) (auto simp: us_insert_range_def)

lemma mset_us_insert_range:
  "order_ok ord \<Longrightarrow> distinct xs \<Longrightarrow> set xs \<inter> set s = {} \<Longrightarrow> mset (us_insert_range ord xs s) = mset xs + mset s"
proof (induction xs arbitrary: s)
  case (Cons x xs)
  then have "mset (us_insert_range ord xs (us_insert ord x s)) = mset xs + mset (us_insert ord x s)"
    by (intro Cons.IH) auto
  with Cons.prems show ?case by (simp add: us_insert_range_def mset_us_insert)
qed (simp add: us_insert_range_def)

lemma set_us_erase [simp]: "set (us_erase x s) = set s - {x}"
  by (auto simp: us_erase_def)

lemma distinct_us_erase [simp]: "distinct s \<Longrightarrow> distinct (us_erase x s)"
  by (simp add: us_erase_def)

lemma mset_us_erase: "distinct s \<Longrightarrow> x \<in> set s \<Longrightarrow> add_mset x (mset (us_erase x s)) = mset s"
proof (induction s)
  case (Cons y s)
  show ?case
  proof (cases "x = y")
    case True
    with Cons.prems have "us_erase x (y # s) = s" by (auto simp: us_erase_def filter_id_conv)
    with True show ?thesis by simp
  next
    case False
    with Cons have "add_mset x (mset (us_erase x s)) = mset s" by simp
    with False show ?thesis by (simp add: us_erase_def add_mset_commute)
  qed
qed simp

section \<open>Maps\<close>

text \<open>\<open>m[ k ] = v\<close>; looking up and erasing are those of \<open>std::map\<close>.\<close>

definition um_put :: "('k list \<Rightarrow> 'k list) \<Rightarrow> 'k \<Rightarrow> 'v \<Rightarrow> ('k, 'v) umap \<Rightarrow> ('k, 'v) umap" where
  "um_put ord k v m =
     (if sm_has m k then map (\<lambda>(k', w). (k', if k' = k then v else w)) m
      else map (\<lambda>x. (x, the (map_of ((k, v) # m) x))) (ord (k # map fst m)))"

lemma sm_find_um_put [simp]:
  assumes "order_ok ord"
  shows "sm_find (um_put ord k v m) = (sm_find m)(k \<mapsto> v)"
proof (cases "sm_has m k")
  case True
  have "map_of (map (\<lambda>(k', w). (k', if k' = k then v else w)) m) x = (if x = k \<and> map_of m k \<noteq> None then Some v else map_of m x)" for x
    by (induction m) auto
  with True show ?thesis by (auto simp: um_put_def sm_find_def sm_has_def)
next
  case False
  let ?f = "\<lambda>x. the (map_of ((k, v) # m) x)"
  have "map_of (map (\<lambda>x. (x, ?f x)) (ord (k # map fst m))) x = ((map_of m)(k \<mapsto> v)) x" for x
  proof (cases "x = k \<or> x \<in> fst ` set m")
    case True
    then have "x \<in> set (ord (k # map fst m))" using assms by auto
    moreover have "map_of ((k, v) # m) x \<noteq> None" unfolding map_of_eq_None_iff using True by auto
    ultimately show ?thesis unfolding map_of_map_restrict by (auto simp: restrict_map_def)
  next
    case False
    then have "x \<notin> set (ord (k # map fst m))" using assms by auto
    moreover have "map_of m x = None" using False by (simp add: map_of_eq_None_iff)
    ultimately show ?thesis unfolding map_of_map_restrict using False by (simp add: restrict_map_def)
  qed
  with False show ?thesis unfolding um_put_def sm_find_def by (simp add: fun_eq_iff)
qed

lemma set_um_put_subset:
  assumes "order_ok ord"
  shows "set (um_put ord k v m) \<subseteq> insert (k, v) (set m)"
proof (cases "sm_has m k")
  case True
  then show ?thesis by (auto simp: um_put_def split: if_splits)
next
  case False
  have "(x, the (map_of ((k, v) # m) x)) \<in> insert (k, v) (set m)" if "x \<in> set (k # map fst m)" for x
  proof -
    from that have "x \<in> fst ` set ((k, v) # m)" by auto
    then have "map_of ((k, v) # m) x \<noteq> None" unfolding map_of_eq_None_iff by simp
    then obtain w where "map_of ((k, v) # m) x = Some w" by blast
    then have "(x, w) \<in> set ((k, v) # m)" by (rule map_of_SomeD)
    with \<open>map_of ((k, v) # m) x = Some w\<close> show ?thesis by simp
  qed
  then show ?thesis using False assms by (auto simp: um_put_def)
qed

lemma keys_um_put: "order_ok ord \<Longrightarrow> distinct (map fst m) \<Longrightarrow> distinct (map fst (um_put ord k v m))"
proof (cases "sm_has m k")
  case True
  moreover assume "distinct (map fst m)"
  moreover have "map fst (map (\<lambda>(k', w). (k', if k' = k then v else w)) m) = map fst m" by (induction m) auto
  ultimately show ?thesis by (simp add: um_put_def del: map_map)
next
  case False
  moreover assume "order_ok ord" "distinct (map fst m)"
  ultimately show ?thesis by (simp add: um_put_def comp_def sm_has_def sm_find_def map_of_eq_None_iff)
qed

end
