(* ===== verification/Dendrogram.thy ===== *)
theory Dendrogram
  imports Unordered Binary64
begin

text \<open>
  The dendrogram of the tuning model generator: \<open>clustering/dendrogram.h\<close>, \<open>dendrogram.cc\<close>,
  \<open>matrix.h\<close>, \<open>distance.h\<close> and \<open>vector.h\<close> under \<open>frontend/src/tuning_model\<close>. The nodes are owned by
  one tree, so a node is a value of a datatype and a pointer to it is the node itself; a leaf holds the
  pointer to its runtime situation. Two things the standard leaves open are in a parameter \<open>layout\<close>:
  which of two nodes has the smaller address, and the order the hash containers are iterated in. The
  debug assertions are compiled out, as in every build that does not define \<open>TUNING_MODEL_DEBUG\<close>.
\<close>

section \<open>Nodes\<close>

type_synonym rts_id = nat

datatype dnode = leaf rts_id | branch dbl nat dnode dnode

primrec nelements :: "dnode \<Rightarrow> nat" where
  "nelements (leaf r) = 1"
| "nelements (branch d n l r) = n"

primrec distance :: "dnode \<Rightarrow> dbl" where
  "distance (leaf r) = dbl_of_int 0"
| "distance (branch d n l r) = d"

definition new_branch :: "dbl \<Rightarrow> dnode \<Rightarrow> dnode \<Rightarrow> dnode" where
  "new_branch d l r = branch d (nelements l + nelements r) l r"

record layout =
  below :: "dnode \<Rightarrow> dnode \<Rightarrow> bool"
  node_order :: "dnode list \<Rightarrow> dnode list"

text \<open>Distinct nodes have distinct addresses, and iteration reaches every element once.\<close>

definition layout_ok :: "layout \<Rightarrow> bool" where
  "layout_ok L \<longleftrightarrow> (\<forall>x y. below L x y \<longrightarrow> \<not> below L y x) \<and>
     (\<forall>x y. x \<noteq> y \<longrightarrow> below L x y \<or> below L y x) \<and> order_ok (node_order L)"

section \<open>Vectors\<close>

text \<open>\<open>v2[n]\<close> past the end of a shorter vector is undefined.\<close>

definition vec_zip :: "(dbl \<Rightarrow> dbl \<Rightarrow> dbl) \<Rightarrow> dbl list \<Rightarrow> dbl list \<Rightarrow> dbl list comp" where
  "vec_zip f v1 v2 = check (length v1 \<le> length v2) UB (ret (map2 f v1 v2))"

definition vec_add :: "dbl list \<Rightarrow> dbl list \<Rightarrow> dbl list comp" where
  "vec_add v1 v2 = vec_zip dadd v1 v2"

definition vec_mul :: "dbl list \<Rightarrow> dbl list \<Rightarrow> dbl list comp" where
  "vec_mul v1 v2 = vec_zip dmul v1 v2"

definition vec_scale :: "dbl list \<Rightarrow> dbl \<Rightarrow> dbl list comp" where
  "vec_scale v1 f = vec_mul v1 (replicate (length v1) f)"

text \<open>The square root, rounded to nearest: an integer root of 54 digits and one that says whether it is exact.\<close>

function isqrt :: "int \<Rightarrow> int" where
  "isqrt n = (if n \<le> 0 then 0 else let r = 2 * isqrt (n div 4) in if (r + 1) * (r + 1) \<le> n then r + 1 else r)"
  by pat_completeness auto
termination
  by (relation "measure nat") auto

declare isqrt.simps [simp del]

fun dsqrt :: "dbl \<Rightarrow> dbl" where
  "dsqrt NaN = NaN"
| "dsqrt (Inf s) = (if s then NaN else Inf False)"
| "dsqrt (Fin s m e) =
     (if m = 0 then Fin s m e else if s then NaN
      else (let m' = (if odd e then 2 * m else m) * 2 ^ 108; k = (if odd e then e - 1 else e) - 108;
                r = isqrt m'; n = 2 * r + (if r * r = m' then 0 else 1)
            in round_scaled False n (k div 2 - 1)))"

definition euclidean_distance :: "dbl list \<Rightarrow> dbl list \<Rightarrow> dbl comp" where
  "euclidean_distance v1 v2 =
     check (length v1 \<le> length v2) UB
       (ret (dsqrt (fold (\<lambda>(a, b) d. dadd d (dmul (dsub a b) (dsub a b))) (zip v1 v2) (dbl_of_int 0))))"

type_synonym vector_distance = "dbl list \<Rightarrow> dbl list \<Rightarrow> dbl comp"

section \<open>Distances between clusters\<close>

type_synonym cluster_distance = "nat \<Rightarrow> nat \<Rightarrow> nat \<Rightarrow> dbl \<Rightarrow> dbl \<Rightarrow> dbl \<Rightarrow> dbl"
type_synonym coefficient = "nat \<Rightarrow> nat \<Rightarrow> nat \<Rightarrow> dbl"

definition size_dbl :: "nat \<Rightarrow> dbl" where
  "size_dbl n = dbl_of_int (int n mod 2 ^ 64)"

definition f00 :: coefficient where "f00 ni nj nk = dbl_of_int 0"
definition f05 :: coefficient where "f05 ni nj nk = Fin False (2 ^ 52) (- 53)"
definition fm05 :: coefficient where "fm05 ni nj nk = dneg (f05 ni nj nk)"

definition avgi :: coefficient where
  "avgi ni nj nk = ddiv (size_dbl ni) (size_dbl (ni + nj))"

definition avgj :: coefficient where
  "avgj ni nj nk = avgi nj ni nk"

definition centroid_beta :: coefficient where
  "centroid_beta ni nj nk =
     (let nij = ni + nj in dmul (dbl_of_int (- 1)) (ddiv (size_dbl (ni * nj)) (size_dbl (nij * nij))))"

definition ward_alphai :: coefficient where
  "ward_alphai ni nj nk = (let nik = ni + nk in ddiv (size_dbl nik) (size_dbl (nik + nj)))"

definition ward_alphaj :: coefficient where
  "ward_alphaj ni nj nk = ward_alphai nj ni nk"

definition ward_beta :: coefficient where
  "ward_beta ni nj nk = dmul (dbl_of_int (- 1)) (ddiv (size_dbl nk) (size_dbl (ni + nj + nk)))"

text \<open>The update formula of Lance and Williams as it is written: \<open>alphaj\<close> is given \<open>nj\<close> twice.\<close>

definition lance_williams :: "coefficient \<Rightarrow> coefficient \<Rightarrow> coefficient \<Rightarrow> coefficient \<Rightarrow> cluster_distance" where
  "lance_williams alphai alphaj beta gamma ni nj nk dik djk dij =
     dadd (dadd (dadd (dmul (alphai ni nj nk) dik) (dmul (alphaj nj nj nk) djk)) (dmul (beta ni nj nk) dij))
       (dmul (gamma ni nj nk) (dabs (dsub dik djk)))"

definition single_linkage :: cluster_distance where "single_linkage = lance_williams f05 f05 f00 fm05"
definition complete_linkage :: cluster_distance where "complete_linkage = lance_williams f05 f05 f00 f05"
definition group_average :: cluster_distance where "group_average = lance_williams avgi avgj f00 f00"
definition weighted_group_average :: cluster_distance where "weighted_group_average = lance_williams f05 f05 f00 f00"
definition centroid :: cluster_distance where "centroid = lance_williams avgi avgj centroid_beta f00"
definition ward :: cluster_distance where "ward = lance_williams ward_alphai ward_alphaj ward_beta f00"

section \<open>The distance matrix\<close>

type_synonym matrix = "(dnode, (dnode, dbl) umap) umap"

definition get_row_clm :: "layout \<Rightarrow> dnode \<Rightarrow> dnode \<Rightarrow> dnode \<times> dnode" where
  "get_row_clm L c1 c2 = (if below L c2 c1 then (c2, c1) else (c1, c2))"

definition matrix_set :: "layout \<Rightarrow> dnode \<Rightarrow> dnode \<Rightarrow> dbl \<Rightarrow> matrix \<Rightarrow> matrix" where
  "matrix_set L c1 c2 d D =
     (let (row, clm) = get_row_clm L c1 c2;
          r = (case sm_find D row of None \<Rightarrow> [] | Some r \<Rightarrow> r)
      in um_put (node_order L) row (um_put (node_order L) clm d r) D)"

definition matrix_get :: "layout \<Rightarrow> dnode \<Rightarrow> dnode \<Rightarrow> matrix \<Rightarrow> dbl comp" where
  "matrix_get L c1 c2 D =
     (let (row, clm) = get_row_clm L c1 c2 in cbind (sm_at D row) (\<lambda>r. sm_at r clm))"

definition matrix_has :: "layout \<Rightarrow> dnode \<Rightarrow> dnode \<Rightarrow> matrix \<Rightarrow> bool" where
  "matrix_has L c1 c2 D =
     (let (row, clm) = get_row_clm L c1 c2
      in (case sm_find D row of None \<Rightarrow> False | Some r \<Rightarrow> sm_has r clm))"

definition matrix_remove :: "dnode \<Rightarrow> matrix \<Rightarrow> matrix" where
  "matrix_remove c D = map (\<lambda>(k, r). (k, sm_erase c r)) (sm_erase c D)"

definition minimum_step :: "dnode \<Rightarrow> dnode \<times> dbl \<Rightarrow> (dnode \<times> dnode) option \<times> dbl \<Rightarrow> (dnode \<times> dnode) option \<times> dbl" where
  "minimum_step c1 p2 s =
     (if c1 = fst p2 then s else if dlt (snd p2) (snd s) then (Some (c1, fst p2), snd p2) else s)"

text \<open>Both nodes are null when no entry is below the largest double.\<close>

definition matrix_minimum :: "matrix \<Rightarrow> (dnode \<times> dnode) option \<times> dbl" where
  "matrix_minimum D = fold (\<lambda>(c1, row). fold (minimum_step c1) row) D (None, DBL_MAX)"

section \<open>Agglomeration\<close>

text \<open>\<open>vec\<close> gives the vector of the configuration of a runtime situation.\<close>

definition leaf_vector :: "(rts_id \<Rightarrow> dbl list) \<Rightarrow> dnode \<Rightarrow> dbl list comp" where
  "leaf_vector vec c = (case c of leaf r \<Rightarrow> ret (vec r) | branch _ _ _ _ \<Rightarrow> fail UB)"

definition generate_distance_matrix ::
  "layout \<Rightarrow> vector_distance \<Rightarrow> (rts_id \<Rightarrow> dbl list) \<Rightarrow> dnode uset \<Rightarrow> matrix comp" where
  "generate_distance_matrix L d vec clusters =
     cfold (\<lambda>c1. cfold (\<lambda>c2 D.
         cbind (leaf_vector vec c1) (\<lambda>v1. cbind (leaf_vector vec c2) (\<lambda>v2.
           cbind (d v1 v2) (\<lambda>d12. ret (matrix_set L c1 c2 d12 D))))) clusters) clusters []"

definition merge_row :: "layout \<Rightarrow> cluster_distance \<Rightarrow> dnode \<Rightarrow> dnode \<Rightarrow> dbl \<Rightarrow> dnode \<Rightarrow> matrix \<Rightarrow> matrix comp" where
  "merge_row L clstd ci cj dij ck D =
     cbind (matrix_get L ci ck D) (\<lambda>dik. cbind (matrix_get L cj ck D) (\<lambda>djk.
       ret (matrix_set L ck (new_branch dij ci cj) (clstd (nelements ci) (nelements cj) (nelements ck) dik djk dij) D)))"

definition merge_body ::
  "layout \<Rightarrow> cluster_distance \<Rightarrow> dnode uset \<times> matrix \<Rightarrow> (bool \<times> dnode uset \<times> matrix) comp" where
  "merge_body L clstd = (\<lambda>(clusters, D).
     if length clusters = 1 then ret (False, (clusters, D))
     else case matrix_minimum D of
         (None, _) \<Rightarrow> fail UB
       | (Some (ci, cj), dij) \<Rightarrow>
           (let rest = us_erase cj (us_erase ci clusters)
            in cbind (cfold (merge_row L clstd ci cj dij) rest D) (\<lambda>D'.
                 ret (True, (us_insert (node_order L) (new_branch dij ci cj) rest,
                             matrix_remove cj (matrix_remove ci D'))))))"

definition generate_dendrogram ::
  "layout \<Rightarrow> (rts_id \<Rightarrow> dbl list) \<Rightarrow> rts_id uset \<Rightarrow> vector_distance \<Rightarrow> cluster_distance \<Rightarrow> dnode comp" where
  "generate_dendrogram L vec rtss vector_d clstd =
     (let clusters = us_insert_range (node_order L) (map leaf rtss) []
      in cbind (generate_distance_matrix L vector_d vec clusters) (\<lambda>D.
         cbind (loop (merge_body L clstd) (clusters, D)) (\<lambda>(clusters', D').
           case clusters' of [] \<Rightarrow> fail UB | c # _ \<Rightarrow> ret c)))"

section \<open>Laws of the matrix\<close>

definition mfind :: "layout \<Rightarrow> matrix \<Rightarrow> dnode \<Rightarrow> dnode \<Rightarrow> dbl option" where
  "mfind L D c1 c2 =
     (let (row, clm) = get_row_clm L c1 c2 in case sm_find D row of None \<Rightarrow> None | Some r \<Rightarrow> sm_find r clm)"

definition entries :: "matrix \<Rightarrow> (dnode \<times> dnode \<times> dbl) list" where
  "entries D = concat (map (\<lambda>(r, row). map (\<lambda>(c, v). (r, c, v)) row) D)"

lemma set_entries: "(r, c, v) \<in> set (entries D) \<longleftrightarrow> (\<exists>row. (r, row) \<in> set D \<and> (c, v) \<in> set row)"
  by (force simp: entries_def)

lemma layout_order: "layout_ok L \<Longrightarrow> order_ok (node_order L)"
  by (simp add: layout_ok_def)

lemma get_row_clm_sym: "layout_ok L \<Longrightarrow> get_row_clm L c1 c2 = get_row_clm L c2 c1"
  unfolding layout_ok_def get_row_clm_def by (cases "c1 = c2") auto

lemma get_row_clm_cases: "get_row_clm L c1 c2 = (c1, c2) \<or> get_row_clm L c1 c2 = (c2, c1)"
  by (simp add: get_row_clm_def)

lemma get_row_clm_eq: "layout_ok L \<Longrightarrow> get_row_clm L a b = get_row_clm L c d \<longleftrightarrow> {a, b} = {c, d}"
proof
  assume "get_row_clm L a b = get_row_clm L c d"
  then have "(a, b) = (c, d) \<or> (a, b) = (d, c)"
    using get_row_clm_cases [of L a b] get_row_clm_cases [of L c d] by (elim disjE) simp_all
  then show "{a, b} = {c, d}" by (auto simp: doubleton_eq_iff)
qed (auto simp: doubleton_eq_iff get_row_clm_sym)

lemma mfind_sym: "layout_ok L \<Longrightarrow> mfind L D c1 c2 = mfind L D c2 c1"
  by (simp add: mfind_def get_row_clm_sym)

lemma matrix_get_mfind: "matrix_get L c1 c2 D = (case mfind L D c1 c2 of None \<Rightarrow> fail OutOfRange | Some v \<Rightarrow> ret v)"
  by (simp add: matrix_get_def mfind_def sm_at_def split: prod.split option.split)

lemma mfind_set:
  assumes "layout_ok L"
  shows "mfind L (matrix_set L a b d D) c1 c2 = (if {a, b} = {c1, c2} then Some d else mfind L D c1 c2)"
proof -
  obtain row clm where ab: "get_row_clm L a b = (row, clm)" by force
  obtain r c where cc: "get_row_clm L c1 c2 = (r, c)" by force
  have iff: "{a, b} = {c1, c2} \<longleftrightarrow> row = r \<and> clm = c"
    unfolding get_row_clm_eq [OF assms, symmetric] ab cc by simp
  show ?thesis unfolding iff mfind_def matrix_set_def ab cc Let_def prod.case
    by (simp add: layout_order [OF assms] split: option.split)
qed

lemma entries_set:
  assumes "layout_ok L"
  shows "set (entries (matrix_set L a b d D)) \<subseteq> insert (fst (get_row_clm L a b), snd (get_row_clm L a b), d) (set (entries D))"
proof
  fix x assume "x \<in> set (entries (matrix_set L a b d D))"
  then obtain r c v where x: "x = (r, c, v)" "(r, c, v) \<in> set (entries (matrix_set L a b d D))" by (metis prod.exhaust)
  obtain row clm where rc: "get_row_clm L a b = (row, clm)" by force
  let ?old = "case sm_find D row of None \<Rightarrow> [] | Some r \<Rightarrow> r"
  from x(2) obtain line where line: "(r, line) \<in> set (matrix_set L a b d D)" "(c, v) \<in> set line" by (auto simp: set_entries)
  have "set (matrix_set L a b d D) \<subseteq> insert (row, um_put (node_order L) clm d ?old) (set D)"
    unfolding matrix_set_def rc prod.case Let_def by (rule set_um_put_subset [OF layout_order [OF assms]])
  with line(1) consider "(r, line) \<in> set D" | "r = row" "line = um_put (node_order L) clm d ?old" by auto
  then show "x \<in> insert (fst (get_row_clm L a b), snd (get_row_clm L a b), d) (set (entries D))"
  proof cases
    case 1
    with line(2) show ?thesis by (auto simp: x(1) set_entries)
  next
    case 2
    with line(2) set_um_put_subset [OF layout_order [OF assms], of clm d ?old]
    have "(c, v) = (clm, d) \<or> (c, v) \<in> set ?old" by auto
    then show ?thesis
    proof
      assume "(c, v) \<in> set ?old"
      then obtain old where "sm_find D row = Some old" "(c, v) \<in> set old" by (cases "sm_find D row") auto
      then show ?thesis using 2 by (auto simp: x(1) set_entries sm_find_def dest: map_of_SomeD)
    qed (simp add: x(1) rc 2)
  qed
qed

lemma mfind_entry:
  assumes "mfind L D c1 c2 = Some v"
  shows "(c1, c2, v) \<in> set (entries D) \<or> (c2, c1, v) \<in> set (entries D)"
  using assms get_row_clm_cases [of L c1 c2]
  by (auto simp: mfind_def set_entries sm_find_def dest!: map_of_SomeD split: option.splits)

lemma mfind_remove: "mfind L (matrix_remove c D) c1 c2 = (if c = c1 \<or> c = c2 then None else mfind L D c1 c2)"
proof -
  have "sm_find (matrix_remove c D) k = (if k = c then None else map_option (sm_erase c) (sm_find D k))" for k
  proof -
    have "sm_find (matrix_remove c D) k = map_option (sm_erase c) (sm_find (sm_erase c D) k)"
      unfolding matrix_remove_def sm_find_def by (simp add: map_of_map)
    then show ?thesis by simp
  qed
  then show ?thesis using get_row_clm_cases [of L c1 c2]
    by (auto simp: mfind_def split: option.splits)
qed

lemma entries_remove: "set (entries (matrix_remove c D)) = {(r, k, v) \<in> set (entries D). r \<noteq> c \<and> k \<noteq> c}"
  by (auto simp: set_entries matrix_remove_def sm_erase_def) (fastforce+)

subsection \<open>The minimum\<close>

lemma fold_concat_map: "fold (\<lambda>(c1, row). fold (f c1) row) D s = fold (\<lambda>(c1, c2, v). f c1 (c2, v)) (entries D) s"
proof (induction D arbitrary: s)
  case (Cons p D)
  obtain c1 row where p: "p = (c1, row)" by force
  have "fold (f c1) row t = fold (\<lambda>(c1, c2, v). f c1 (c2, v)) (map (\<lambda>(c, v). (c1, c, v)) row) t" for t
    by (induction row arbitrary: t) auto
  with Cons show ?case by (simp add: p entries_def)
qed (simp add: entries_def)

definition least_of :: "(dnode \<times> dnode \<times> dbl) set \<Rightarrow> (dnode \<times> dnode) option \<times> dbl \<Rightarrow> bool" where
  "least_of E s \<longleftrightarrow> \<not> is_nan (snd s) \<and> (\<forall>(r, c, v) \<in> E. r \<noteq> c \<longrightarrow> \<not> dlt v (snd s)) \<and>
     (case fst s of None \<Rightarrow> snd s = DBL_MAX
      | Some (r, c) \<Rightarrow> r \<noteq> c \<and> (r, c, snd s) \<in> E \<and> dlt (snd s) DBL_MAX)"

lemma not_dlt_dlt: "\<not> dlt a b \<Longrightarrow> dlt c b \<Longrightarrow> \<not> dlt a c"
  using dlt_trans by blast

lemma least_of_step:
  assumes "least_of E s"
  shows "least_of (insert (c1, c2, v) E) (minimum_step c1 (c2, v) s)"
proof (cases "c1 \<noteq> c2 \<and> dlt v (snd s)")
  case True
  then have "dlt v DBL_MAX" using assms dlt_trans unfolding least_of_def by (auto split: option.splits)
  moreover have "\<not> is_nan v" using True by (simp add: dlt_iff)
  moreover have "\<forall>(r, c, w) \<in> E. r \<noteq> c \<longrightarrow> \<not> dlt w v" using assms not_dlt_dlt True unfolding least_of_def by blast
  ultimately show ?thesis using True by (simp add: least_of_def minimum_step_def)
next
  case False
  then have "minimum_step c1 (c2, v) s = s" by (auto simp: minimum_step_def)
  with assms False show ?thesis unfolding least_of_def by (auto split: option.splits)
qed

lemma least_of_fold: "least_of E s \<Longrightarrow> least_of (set xs \<union> E) (fold (\<lambda>(c1, c2, v). minimum_step c1 (c2, v)) xs s)"
proof (induction xs arbitrary: E s)
  case (Cons x xs)
  obtain c1 c2 v where x: "x = (c1, c2, v)" by (cases x) auto
  from Cons.IH [OF least_of_step [OF Cons.prems, of c1 c2 v]] show ?case by (simp add: x)
qed simp

lemma minimum_least: "least_of (set (entries D)) (matrix_minimum D)"
proof -
  have "least_of {} (None, DBL_MAX)" by (simp add: least_of_def DBL_MAX_def is_nan_def)
  from least_of_fold [OF this, of "entries D"] show ?thesis
    by (simp add: matrix_minimum_def fold_concat_map)
qed

section \<open>Agglomeration ends in one tree of all runtime situations\<close>

primrec leaf_ids :: "dnode \<Rightarrow> rts_id list" where
  "leaf_ids (leaf r) = [r]"
| "leaf_ids (branch d n l r) = leaf_ids l @ leaf_ids r"

primrec heights :: "dnode \<Rightarrow> dbl list" where
  "heights (leaf r) = []"
| "heights (branch d n l r) = d # heights l @ heights r"

primrec counted :: "dnode \<Rightarrow> bool" where
  "counted (leaf r) \<longleftrightarrow> True"
| "counted (branch d n l r) \<longleftrightarrow> n = length (leaf_ids l) + length (leaf_ids r) \<and> counted l \<and> counted r"

abbreviation all_leaf_ids :: "dnode list \<Rightarrow> rts_id list" where
  "all_leaf_ids cs \<equiv> concat (map leaf_ids cs)"

lemma leaf_ids_nonempty [simp]: "leaf_ids t \<noteq> []"
  by (induction t) auto

lemma nelements_leaf_ids: "counted t \<Longrightarrow> nelements t = length (leaf_ids t)"
  by (cases t) auto

lemma size_new_branch: "size l < size (new_branch d l r)" "size r < size (new_branch d l r)"
  by (simp_all add: new_branch_def)

lemma leaf_ids_new_branch [simp]: "leaf_ids (new_branch d l r) = leaf_ids l @ leaf_ids r"
  by (simp add: new_branch_def)

lemma shared_leaf:
  assumes "distinct (all_leaf_ids cs)" "a \<in> set cs" "b \<in> set cs" "x \<in> set (leaf_ids a)" "x \<in> set (leaf_ids b)"
  shows "a = b"
  using assms by (induction cs) auto

lemma distinct_forest: "distinct (all_leaf_ids cs) \<Longrightarrow> distinct cs"
proof (induction cs)
  case (Cons c cs)
  have "c \<notin> set cs"
  proof
    assume "c \<in> set cs"
    then have "set (leaf_ids c) \<subseteq> set (all_leaf_ids cs)" by auto
    moreover have "hd (leaf_ids c) \<in> set (leaf_ids c)" by simp
    ultimately have "set (leaf_ids c) \<inter> set (all_leaf_ids cs) \<noteq> {}" by blast
    with Cons.prems show False by auto
  qed
  with Cons show ?case by simp
qed simp

lemma all_leaf_ids_mset: "mset cs = mset ds \<Longrightarrow> mset (all_leaf_ids cs) = mset (all_leaf_ids ds)"
proof -
  assume eq: "mset cs = mset ds"
  have "mset (all_leaf_ids es) = sum_mset (image_mset (\<lambda>t. mset (leaf_ids t)) (mset es))" for es
    by (induction es) simp_all
  with eq show ?thesis by simp
qed

text \<open>The distances the linkage computes stay in a set of values.\<close>

definition closed_under :: "dbl set \<Rightarrow> cluster_distance \<Rightarrow> bool" where
  "closed_under V clstd \<longleftrightarrow> (\<forall>ni nj nk. \<forall>x \<in> V. \<forall>y \<in> V. \<forall>z \<in> V. clstd ni nj nk x y z \<in> V)"

definition distances_in :: "dbl set \<Rightarrow> dnode list \<Rightarrow> matrix \<Rightarrow> bool" where
  "distances_in V cs D \<longleftrightarrow> (\<forall>(r, c, v) \<in> set (entries D). r \<in> set cs \<and> c \<in> set cs \<and> v \<in> V)"

definition all_pairs :: "layout \<Rightarrow> dnode list \<Rightarrow> matrix \<Rightarrow> bool" where
  "all_pairs L cs D \<longleftrightarrow> (\<forall>c1 \<in> set cs. \<forall>c2 \<in> set cs. c1 \<noteq> c2 \<longrightarrow> mfind L D c1 c2 \<noteq> None)"

definition good_tree :: "dbl set \<Rightarrow> dnode \<Rightarrow> bool" where
  "good_tree V t \<longleftrightarrow> counted t \<and> (\<forall>h \<in> set (heights t). h \<in> V \<and> dlt h DBL_MAX)"

definition agglomerating :: "layout \<Rightarrow> dbl set \<Rightarrow> rts_id list \<Rightarrow> dnode uset \<times> matrix \<Rightarrow> bool" where
  "agglomerating L V rtss s \<longleftrightarrow> mset (all_leaf_ids (fst s)) = mset rtss \<and> (\<forall>c \<in> set (fst s). good_tree V c) \<and>
     distances_in V (fst s) (snd s) \<and> all_pairs L (fst s) (snd s)"

lemma mfind_in: "distances_in V cs D \<Longrightarrow> mfind L D c1 c2 = Some v \<Longrightarrow> v \<in> V"
  using mfind_entry [of L D c1 c2 v] by (auto simp: distances_in_def)

lemma distances_in_set:
  assumes "layout_ok L" "distances_in V cs D" "a \<in> set cs" "b \<in> set cs" "v \<in> V"
  shows "distances_in V cs (matrix_set L a b v D)"
  using assms(2-5) entries_set [OF assms(1), of a b v D] get_row_clm_cases [of L a b]
  unfolding distances_in_def by fastforce

lemma distances_in_mono: "distances_in V cs D \<Longrightarrow> set cs \<subseteq> set ds \<Longrightarrow> distances_in V ds D"
  unfolding distances_in_def by fastforce

lemma distances_in_remove: "distances_in V cs D \<Longrightarrow> distances_in V (us_erase c cs) (matrix_remove c D)"
  unfolding distances_in_def by (auto simp: entries_remove)

text \<open>A loop that sets one entry in every round keeps what it has and ends up with all it sets.\<close>

definition grows :: "layout \<Rightarrow> matrix \<Rightarrow> matrix \<Rightarrow> bool" where
  "grows L D D' \<longleftrightarrow> (\<forall>a b. mfind L D a b \<noteq> None \<longrightarrow> mfind L D' a b \<noteq> None)"

lemma grows_refl [simp]: "grows L D D"
  by (simp add: grows_def)

lemma grows_trans: "grows L D D' \<Longrightarrow> grows L D' D'' \<Longrightarrow> grows L D D''"
  by (simp add: grows_def)

lemma grows_set: "layout_ok L \<Longrightarrow> grows L D (matrix_set L a b v D)"
  by (simp add: grows_def mfind_set)

lemma fill:
  assumes L: "layout_ok L" and ab: "\<And>k. k \<in> set ks \<Longrightarrow> a k \<in> set cs \<and> b k \<in> set cs"
    and f: "\<And>k D'. k \<in> set ks \<Longrightarrow> distances_in V cs D' \<Longrightarrow> grows L D D' \<Longrightarrow> \<exists>v \<in> V. f k D' = ret (matrix_set L (a k) (b k) v D')"
    and D: "distances_in V cs D"
  shows "\<exists>D'. cfold f ks D = ret D' \<and> distances_in V cs D' \<and> grows L D D' \<and> (\<forall>k \<in> set ks. mfind L D' (a k) (b k) \<noteq> None)"
  using ab f D
proof (induction ks arbitrary: D)
  case (Cons k ks)
  from Cons.prems(2) [of k D] Cons.prems(3) obtain v where v: "v \<in> V" "f k D = ret (matrix_set L (a k) (b k) v D)" by auto
  let ?D = "matrix_set L (a k) (b k) v D"
  have D: "distances_in V cs ?D" using distances_in_set [OF L Cons.prems(3)] Cons.prems(1) v(1) by simp
  have "\<exists>D'. cfold f ks ?D = ret D' \<and> distances_in V cs D' \<and> grows L ?D D' \<and> (\<forall>k \<in> set ks. mfind L D' (a k) (b k) \<noteq> None)"
    using Cons.prems(1) by (intro Cons.IH Cons.prems(2) D) (auto intro: grows_trans [OF grows_set [OF L]])
  then obtain D' where D': "cfold f ks ?D = ret D'" "distances_in V cs D'" "grows L ?D D'"
    "\<forall>k \<in> set ks. mfind L D' (a k) (b k) \<noteq> None" by blast
  then have "mfind L D' (a k) (b k) \<noteq> None" by (simp add: grows_def mfind_set [OF L])
  with D' v(2) grows_trans [OF grows_set [OF L] D'(3)] show ?case by (intro exI [of _ D']) simp
qed simp

lemma merge_rows:
  assumes L: "layout_ok L" and cl: "closed_under V clstd" and dij: "dij \<in> V" and D: "distances_in V cs D"
    and ks: "set ks \<subseteq> set cs" "new_branch dij ci cj \<in> set cs"
    and found: "\<And>ck. ck \<in> set ks \<Longrightarrow> mfind L D ci ck \<noteq> None \<and> mfind L D cj ck \<noteq> None"
  shows "\<exists>D'. cfold (merge_row L clstd ci cj dij) ks D = ret D' \<and> distances_in V cs D' \<and> grows L D D' \<and>
      (\<forall>ck \<in> set ks. mfind L D' ck (new_branch dij ci cj) \<noteq> None)"
proof (rule fill [OF L _ _ D])
  fix k D' assume k: "k \<in> set ks" and D': "distances_in V cs D'" "grows L D D'"
  with found obtain x y where xy: "mfind L D' ci k = Some x" "mfind L D' cj k = Some y" by (fastforce simp: grows_def)
  then have "x \<in> V" "y \<in> V" using mfind_in [OF D'(1)] by blast+
  then have "clstd (nelements ci) (nelements cj) (nelements k) x y dij \<in> V" using cl dij by (simp add: closed_under_def)
  then show "\<exists>v \<in> V. merge_row L clstd ci cj dij k D' = ret (matrix_set L k (new_branch dij ci cj) v D')"
    by (auto simp: merge_row_def matrix_get_mfind xy)
qed (use ks in auto)

lemma two_clusters: "distinct cs \<Longrightarrow> length cs \<noteq> 1 \<Longrightarrow> cs \<noteq> [] \<Longrightarrow> \<exists>a \<in> set cs. \<exists>b \<in> set cs. a \<noteq> b"
  by (cases cs; cases "tl cs") auto

lemma good_tree_new:
  "good_tree V ci \<Longrightarrow> good_tree V cj \<Longrightarrow> dij \<in> V \<Longrightarrow> dlt dij DBL_MAX \<Longrightarrow> good_tree V (new_branch dij ci cj)"
  by (auto simp: good_tree_def new_branch_def nelements_leaf_ids)

lemma merge_two:
  assumes L: "layout_ok L" and cl: "closed_under V clstd" and dist: "distinct rtss"
    and inv: "agglomerating L V rtss (cs, D)" and many: "length cs \<noteq> 1"
    and min: "matrix_minimum D = (Some (ci, cj), dij)"
  shows "\<exists>t. merge_body L clstd (cs, D) = ret (True, t) \<and> agglomerating L V rtss t \<and> length (fst t) < length cs"
proof -
  have leaves: "mset (all_leaf_ids cs) = mset rtss" and good: "\<forall>c \<in> set cs. good_tree V c"
    and D: "distances_in V cs D" and pairs: "all_pairs L cs D" using inv by (simp_all add: agglomerating_def)
  have dl: "distinct (all_leaf_ids cs)" using leaves dist mset_eq_imp_distinct_iff by blast
  have dc: "distinct cs" using dl by (rule distinct_forest)
  from minimum_least [of D] have e: "ci \<noteq> cj" "(ci, cj, dij) \<in> set (entries D)" "dlt dij DBL_MAX"
    by (simp_all add: min least_of_def)
  with D have cc: "ci \<in> set cs" "cj \<in> set cs" "dij \<in> V" by (auto simp: distances_in_def)
  let ?n = "new_branch dij ci cj" and ?rest = "us_erase cj (us_erase ci cs)"
  have sizes: "ci \<noteq> ?n" "cj \<noteq> ?n" using size_new_branch by (metis less_irrefl)+
  have fresh: "?n \<notin> set cs"
    using shared_leaf [OF dl _ cc(1), of ?n "hd (leaf_ids ci)"] sizes by auto
  have msr: "mset cs = add_mset ci (add_mset cj (mset ?rest))"
    using mset_us_erase [OF dc cc(1)] mset_us_erase [of "us_erase ci cs" cj] dc cc e(1) by simp
  let ?cs = "us_insert (node_order L) ?n ?rest"
  have ord: "order_ok (node_order L)" using L by (rule layout_order)
  have msn: "mset ?cs = add_mset ?n (mset ?rest)" using fresh by (intro mset_us_insert [OF ord]) simp
  have "\<exists>D'. cfold (merge_row L clstd ci cj dij) ?rest D = ret D' \<and> distances_in V (?n # cs) D' \<and> grows L D D' \<and>
      (\<forall>ck \<in> set ?rest. mfind L D' ck ?n \<noteq> None)"
    using pairs cc by (intro merge_rows [OF L cl cc(3) distances_in_mono [OF D]]) (auto simp: all_pairs_def)
  then obtain D' where D': "cfold (merge_row L clstd ci cj dij) ?rest D = ret D'" "distances_in V (?n # cs) D'"
      "\<forall>ck \<in> set ?rest. mfind L D' ck ?n \<noteq> None" "\<forall>a b. mfind L D a b \<noteq> None \<longrightarrow> mfind L D' a b \<noteq> None"
    unfolding grows_def by blast
  let ?D = "matrix_remove cj (matrix_remove ci D')"
  have "distances_in V ?cs ?D"
    by (rule distances_in_mono [OF distances_in_remove [OF distances_in_remove [OF D'(2)]]]) (auto simp: ord)
  moreover have "all_pairs L ?cs ?D"
    using pairs D'(3,4) mfind_sym [OF L] sizes by (auto simp: all_pairs_def mfind_remove ord)
  moreover have "mset (all_leaf_ids ?cs) = mset rtss"
    unfolding leaves [symmetric] using all_leaf_ids_mset [of ?cs "?n # ?rest"] all_leaf_ids_mset [of cs "ci # cj # ?rest"]
    by (simp add: msn msr)
  moreover have "\<forall>c \<in> set ?cs. good_tree V c"
    using good good_tree_new [OF _ _ cc(3) e(3)] cc by (auto simp: ord)
  moreover have "length ?cs < length cs"
    using arg_cong [OF msn, of size] arg_cong [OF msr, of size] by simp
  ultimately show ?thesis using D'(1) many
    by (intro exI [of _ "(?cs, ?D)"]) (simp add: merge_body_def min agglomerating_def Let_def)
qed

text \<open>One round merges two clusters into one, or fails because no distance is below the largest double.\<close>

lemma merge_body_ends:
  assumes L: "layout_ok L" and cl: "closed_under V clstd" and dist: "distinct rtss" and ne: "rtss \<noteq> []"
    and inv: "agglomerating L V rtss s"
  shows "ends (merge_body L clstd s)
    (\<lambda>(again, t). if again then agglomerating L V rtss t \<and> (t, s) \<in> measure (\<lambda>s. length (fst s))
                  else agglomerating L V rtss t \<and> length (fst t) = 1)
    (\<lambda>e. e = UB \<and> \<not> (\<forall>v \<in> V. dlt v DBL_MAX))"
proof -
  obtain cs D where s: "s = (cs, D)" by force
  have leaves: "mset (all_leaf_ids cs) = mset rtss" and good: "\<forall>c \<in> set cs. good_tree V c"
    and D: "distances_in V cs D" and pairs: "all_pairs L cs D"
    using inv by (simp_all add: agglomerating_def s)
  have dl: "distinct (all_leaf_ids cs)" using leaves dist mset_eq_imp_distinct_iff by blast
  then have dc: "distinct cs" by (rule distinct_forest)
  have "cs \<noteq> []" using leaves ne by auto
  obtain p dij where min: "matrix_minimum D = (p, dij)" by force
  from minimum_least [of D] have least: "least_of (set (entries D)) (p, dij)" by (simp add: min)
  show ?thesis
  proof (cases "length cs = 1")
    case True
    then show ?thesis using inv by (simp add: merge_body_def s)
  next
    case False
    from two_clusters [OF dc this \<open>cs \<noteq> []\<close>] obtain a b where ab: "a \<in> set cs" "b \<in> set cs" "a \<noteq> b" by blast
    show ?thesis
    proof (cases p)
      case None
      from pairs ab obtain v where "mfind L D a b = Some v" by (auto simp: all_pairs_def)
      then have "v \<in> V" and "(a, b, v) \<in> set (entries D) \<or> (b, a, v) \<in> set (entries D)"
        using mfind_in [OF D] mfind_entry by blast+
      with least None ab have "v \<in> V \<and> \<not> dlt v DBL_MAX" by (auto simp: least_of_def)
      then show ?thesis using False None by (auto simp: merge_body_def s min)
    next
      case (Some q)
      then have "matrix_minimum D = (Some (fst q, snd q), dij)" by (simp add: min)
      from merge_two [OF L cl dist inv [unfolded s] False this] show ?thesis by (auto simp: s)
    qed
  qed
qed

lemma distance_matrix:
  assumes L: "layout_ok L" and d: "\<And>c1 c2. c1 \<in> set cs \<Longrightarrow> c2 \<in> set cs \<Longrightarrow>
      \<exists>v1 v2. \<exists>v \<in> V. leaf_vector vec c1 = ret v1 \<and> leaf_vector vec c2 = ret v2 \<and> d v1 v2 = ret v"
  shows "\<exists>D. generate_distance_matrix L d vec cs = ret D \<and> distances_in V cs D \<and> all_pairs L cs D"
proof -
  let ?row = "\<lambda>c1. cfold (\<lambda>c2 D. cbind (leaf_vector vec c1) (\<lambda>v1. cbind (leaf_vector vec c2) (\<lambda>v2.
           cbind (d v1 v2) (\<lambda>d12. ret (matrix_set L c1 c2 d12 D))))) cs"
  have row: "\<exists>D'. ?row c1 D = ret D' \<and> distances_in V cs D' \<and> grows L D D' \<and> (\<forall>c2 \<in> set cs. mfind L D' c1 c2 \<noteq> None)"
    if "c1 \<in> set cs" "distances_in V cs D" for c1 D
    using that d by (intro fill [OF L]) (fastforce+)
  have "\<exists>D'. cfold ?row ks D = ret D' \<and> distances_in V cs D' \<and> grows L D D' \<and>
      (\<forall>c1 \<in> set ks. \<forall>c2 \<in> set cs. mfind L D' c1 c2 \<noteq> None)" if "set ks \<subseteq> set cs" "distances_in V cs D" for ks D
    using that
  proof (induction ks arbitrary: D)
    case (Cons k ks)
    from row [of k D] Cons.prems obtain D1 where D1: "?row k D = ret D1" "distances_in V cs D1" "grows L D D1"
      "\<forall>c2 \<in> set cs. mfind L D1 k c2 \<noteq> None" by auto
    from Cons.IH [OF _ D1(2)] Cons.prems(1) obtain D2 where D2: "cfold ?row ks D1 = ret D2" "distances_in V cs D2" "grows L D1 D2"
      "\<forall>c1 \<in> set ks. \<forall>c2 \<in> set cs. mfind L D2 c1 c2 \<noteq> None" by auto
    with D1 grows_trans [OF D1(3) D2(3)] show ?case by (intro exI [of _ D2]) (simp add: grows_def)
  qed simp
  from this [of cs "[]"] show ?thesis
    unfolding generate_distance_matrix_def by (auto simp: distances_in_def all_pairs_def entries_def)
qed

lemma generate_dendrogram_ends:
  assumes "layout_ok L" "distinct rtss" "rtss \<noteq> []" "closed_under V clstd"
    and "\<forall>r1 \<in> set rtss. \<forall>r2 \<in> set rtss. \<exists>v \<in> V. d (vec r1) (vec r2) = ret v"
  shows "ends (generate_dendrogram L vec rtss d clstd) (\<lambda>t. mset (leaf_ids t) = mset rtss \<and> good_tree V t)
     (\<lambda>e. e = UB \<and> \<not> (\<forall>v \<in> V. dlt v DBL_MAX))"
proof -
  let ?cs = "us_insert_range (node_order L) (map leaf rtss) []"
  have ord: "order_ok (node_order L)" using assms(1) by (rule layout_order)
  have ms: "mset ?cs = mset (map leaf rtss)"
    using assms(2) by (subst mset_us_insert_range [OF ord]) (auto simp: distinct_map inj_on_def)
  have "mset (all_leaf_ids ?cs) = mset (all_leaf_ids (map leaf rtss))" using ms by (rule all_leaf_ids_mset)
  also have "\<dots> = mset rtss" by (induction rtss) simp_all
  finally have leaves: "mset (all_leaf_ids ?cs) = mset rtss" .
  have "\<exists>D. generate_distance_matrix L d vec ?cs = ret D \<and> distances_in V ?cs D \<and> all_pairs L ?cs D"
    using assms(5) by (intro distance_matrix [OF assms(1)]) (fastforce simp: ord leaf_vector_def)
  then obtain D where D: "generate_distance_matrix L d vec ?cs = ret D" "distances_in V ?cs D" "all_pairs L ?cs D" by blast
  have start: "agglomerating L V rtss (?cs, D)"
    using D leaves by (auto simp: agglomerating_def ord good_tree_def)
  have "ends (loop (merge_body L clstd) (?cs, D)) (\<lambda>t. agglomerating L V rtss t \<and> length (fst t) = 1)
      (\<lambda>e. e = UB \<and> \<not> (\<forall>v \<in> V. dlt v DBL_MAX))"
    by (rule ends_loop [where I = "agglomerating L V rtss", OF start merge_body_ends [OF assms(1,4,2,3)] wf_measure])
  then show ?thesis unfolding generate_dendrogram_def Let_def D(1) cbind_ret
  proof (rule ends_bind)
    fix s assume "agglomerating L V rtss s \<and> length (fst s) = 1"
    then show "ends (case s of (clusters', D') \<Rightarrow> case clusters' of [] \<Rightarrow> fail UB | c # _ \<Rightarrow> ret c)
        (\<lambda>t. mset (leaf_ids t) = mset rtss \<and> good_tree V t) (\<lambda>e. e = UB \<and> \<not> (\<forall>v \<in> V. dlt v DBL_MAX))"
      by (cases s; cases "fst s") (auto simp: agglomerating_def)
  qed
qed

text \<open>
  C30: Agglomeration ends. For every iteration order of the containers and every addresses of the nodes, from
  one or more runtime situations whose pairwise distances exist: generating the dendrogram either returns one
  tree in which every runtime situation is exactly one leaf, every inner node counts the leaves below it and
  has a distance below the largest double, or it dereferences a null pointer, and that only when some
  distance is not below the largest double.
\<close>

theorem dendrogram_of_all:
  assumes "layout_ok L" "distinct rtss" "rtss \<noteq> []" "closed_under V clstd"
    and "\<forall>r1 \<in> set rtss. \<forall>r2 \<in> set rtss. \<exists>v \<in> V. d (vec r1) (vec r2) = ret v"
  shows "ends (generate_dendrogram L vec rtss d clstd) (\<lambda>t. mset (leaf_ids t) = mset rtss \<and> good_tree V t)
     (\<lambda>e. e = UB \<and> \<not> (\<forall>v \<in> V. dlt v DBL_MAX))"
  using assms by (rule generate_dendrogram_ends)

subsection \<open>A layout\<close>

text \<open>Nodes ordered by a code of their contents: one of the orders addresses may have.\<close>

primrec dbl_code :: "dbl \<Rightarrow> int list" where
  "dbl_code NaN = [0]"
| "dbl_code (Inf s) = [1, of_bool s]"
| "dbl_code (Fin s m e) = [2, of_bool s, m, e]"

primrec node_code :: "dnode \<Rightarrow> int list" where
  "node_code (leaf r) = [0, int r]"
| "node_code (branch d n l r) = 1 # dbl_code d @ int n # node_code l @ node_code r"

lemma dbl_code_append: "dbl_code x @ xs = dbl_code y @ ys \<longleftrightarrow> x = y \<and> xs = ys"
  by (cases x; cases y) (auto simp: of_bool_def)

lemma node_code_append: "node_code x @ xs = node_code y @ ys \<longleftrightarrow> x = y \<and> xs = ys"
proof (induction x arbitrary: y xs ys)
  case (leaf r)
  then show ?case by (cases y) auto
next
  case (branch d n l r)
  then show ?case by (cases y) (auto simp: dbl_code_append)
qed

lemma node_code_inject: "node_code x = node_code y \<longleftrightarrow> x = y"
  using node_code_append [of x "[]" y "[]"] by simp

instantiation dnode :: linorder
begin

definition less_eq_dnode :: "dnode \<Rightarrow> dnode \<Rightarrow> bool" where
  "less_eq_dnode x y \<longleftrightarrow> node_code x \<le> node_code y"

definition less_dnode :: "dnode \<Rightarrow> dnode \<Rightarrow> bool" where
  "less_dnode x y \<longleftrightarrow> node_code x < node_code y"

instance
  by standard (auto simp: less_eq_dnode_def less_dnode_def node_code_inject [symmetric])

end

definition front_layout :: layout where
  "front_layout = \<lparr>below = (<), node_order = (\<lambda>xs. xs)\<rparr>"

lemma front_layout_ok: "layout_ok front_layout"
  by (auto simp: layout_ok_def front_layout_def)

text \<open>Three runtime situations, two of them with the same configuration.\<close>

definition example_vectors :: "rts_id \<Rightarrow> dbl list" where
  "example_vectors r = [dbl_of_int (if r = 0 then 0 else 1)]"

abbreviation unit_distances :: "dbl set" where
  "unit_distances \<equiv> {dbl_of_int 0, dbl_of_int 1}"

lemma complete_linkage_unit: "closed_under unit_distances complete_linkage"
proof -
  have eq: "complete_linkage ni nj nk x y z = complete_linkage 1 1 1 x y z" for ni nj nk x y z
    by (simp add: complete_linkage_def lance_williams_def f05_def f00_def)
  have vals: "list_all (\<lambda>x. list_all (\<lambda>y. list_all (\<lambda>z. complete_linkage 1 1 1 x y z \<in> set [dbl_of_int 0, dbl_of_int 1])
      [dbl_of_int 0, dbl_of_int 1]) [dbl_of_int 0, dbl_of_int 1]) [dbl_of_int 0, dbl_of_int 1]"
    by code_simp
  have "complete_linkage ni nj nk x y z \<in> unit_distances"
    if "x \<in> unit_distances" "y \<in> unit_distances" "z \<in> unit_distances" for ni nj nk x y z
    unfolding eq [of ni nj nk x y z] using vals that by auto
  then show ?thesis unfolding closed_under_def by blast
qed

lemma euclidean_unit: "\<exists>v \<in> unit_distances. euclidean_distance (example_vectors r1) (example_vectors r2) = ret v"
proof -
  have "list_all (\<lambda>a. list_all (\<lambda>b. euclidean_distance [a] [b] \<in> set [ret (dbl_of_int 0), ret (dbl_of_int 1)])
      [dbl_of_int 0, dbl_of_int 1]) [dbl_of_int 0, dbl_of_int 1]" by code_simp
  then show ?thesis unfolding example_vectors_def by auto
qed

lemma unit_below_max: "\<forall>v \<in> unit_distances. dlt v DBL_MAX"
proof -
  have "list_all (\<lambda>v. dlt v DBL_MAX) [dbl_of_int 0, dbl_of_int 1]" by code_simp
  then show ?thesis by simp
qed

theorem dendrogram_of_all_witness:
  "\<exists>t. generate_dendrogram front_layout example_vectors [0, 1, 2] euclidean_distance complete_linkage = ret t \<and>
     mset (leaf_ids t) = {#0, 1, 2#} \<and> counted t"
proof -
  have "ends (generate_dendrogram front_layout example_vectors [0, 1, 2] euclidean_distance complete_linkage)
      (\<lambda>t. mset (leaf_ids t) = mset [0, 1, 2] \<and> good_tree unit_distances t) (\<lambda>e. e = UB \<and> \<not> (\<forall>v \<in> unit_distances. dlt v DBL_MAX))"
    using euclidean_unit by (intro dendrogram_of_all [OF front_layout_ok _ _ complete_linkage_unit]) simp_all
  then have "total (generate_dendrogram front_layout example_vectors [0, 1, 2] euclidean_distance complete_linkage)
      (\<lambda>t. mset (leaf_ids t) = mset [0, 1, 2] \<and> good_tree unit_distances t)" using unit_below_max by (simp add: ends_total)
  then show ?thesis unfolding total_def good_tree_def by (elim ex_forward) simp
qed

end
