(* ===== verification/DendrogramCut.thy ===== *)
theory DendrogramCut
  imports Dendrogram
begin

text \<open>
  Cutting a dendrogram into clusters (\<open>clustering/dendrogram.cc\<close> from line 207): at a distance, into a
  given number of clusters, and into the number with the best Calinski and Harabasz index.
\<close>

section \<open>The leaves and the cut at a distance\<close>

primrec leaves :: "layout \<Rightarrow> dnode \<Rightarrow> dnode uset" where
  "leaves L (leaf r) = us_insert (node_order L) (leaf r) []"
| "leaves L (branch d n l r) = us_insert_range (node_order L) (leaves L r) (leaves L l)"

primrec cut_value :: "layout \<Rightarrow> dnode \<Rightarrow> dbl \<Rightarrow> dnode uset" where
  "cut_value L (leaf r) v = us_insert (node_order L) (leaf r) []"
| "cut_value L (branch d n l r) v =
     (if dle d v then us_insert (node_order L) (branch d n l r) []
      else us_insert_range (node_order L) (cut_value L r v) (us_insert_range (node_order L) (cut_value L l v) []))"

section \<open>The cut into a number of clusters\<close>

text \<open>
  \<open>std::set<const node*, node_compare>\<close>: kept by ascending distance. A node is not inserted when one of
  the same distance is there, and erasing removes the one of the same distance.
\<close>

fun ns_insert :: "dnode \<Rightarrow> dnode list \<Rightarrow> dnode list" where
  "ns_insert x [] = [x]"
| "ns_insert x (y # ys) =
     (if dlt (distance x) (distance y) then x # y # ys
      else if dlt (distance y) (distance x) then y # ns_insert x ys else y # ys)"

definition ns_erase :: "dnode \<Rightarrow> dnode list \<Rightarrow> dnode list" where
  "ns_erase x xs = filter (\<lambda>y. dlt (distance x) (distance y) \<or> dlt (distance y) (distance x)) xs"

text \<open>A child that is a leaf is a cluster, another one is visited later.\<close>

definition visit :: "layout \<Rightarrow> dnode \<Rightarrow> dnode list \<times> dnode uset \<Rightarrow> dnode list \<times> dnode uset" where
  "visit L c s = (case c of leaf _ \<Rightarrow> (fst s, us_insert (node_order L) c (snd s))
     | branch _ _ _ _ \<Rightarrow> (ns_insert c (fst s), snd s))"

text \<open>
  \<open>*to_visit.rbegin()\<close> of an empty set is undefined. A leaf is never in the set of nodes to visit: its
  children are null pointers.
\<close>

definition cut_body ::
  "layout \<Rightarrow> nat \<Rightarrow> dnode list \<times> dnode uset \<Rightarrow> (bool \<times> dnode list \<times> dnode uset) comp" where
  "cut_body L nclusters = (\<lambda>(to_visit, clusters).
     if length to_visit + length clusters = nclusters then ret (False, (to_visit, clusters))
     else if to_visit = [] then fail UB
     else case last to_visit of
         leaf _ \<Rightarrow> fail UB
       | branch d n l r \<Rightarrow> ret (True, visit L r (visit L l (ns_erase (last to_visit) to_visit, clusters))))"

definition cut_count :: "layout \<Rightarrow> dnode \<Rightarrow> nat \<Rightarrow> dnode uset comp" where
  "cut_count L tree nclusters =
     (if nclusters = 0 then ret []
      else if nelements tree \<le> nclusters then ret (leaves L tree)
      else cbind (loop (cut_body L nclusters) ([tree], [])) (\<lambda>(to_visit, clusters).
             ret (us_insert_range (node_order L) to_visit clusters)))"

section \<open>The best number of clusters\<close>

definition average_of :: "(rts_id \<Rightarrow> dbl list) \<Rightarrow> dnode uset \<Rightarrow> dbl list comp" where
  "average_of vec elements =
     (case elements of [] \<Rightarrow> fail UB
      | e # es \<Rightarrow> cbind (leaf_vector vec e) (\<lambda>v.
          cbind (cfold (\<lambda>e v. cbind (leaf_vector vec e) (\<lambda>w. vec_add v w)) es v) (\<lambda>s.
            vec_scale s (ddiv (dbl_of_int 1) (size_dbl (length elements))))))"

definition average :: "layout \<Rightarrow> (rts_id \<Rightarrow> dbl list) \<Rightarrow> dnode \<Rightarrow> dbl list comp" where
  "average L vec c = average_of vec (leaves L c)"

definition average_all :: "layout \<Rightarrow> (rts_id \<Rightarrow> dbl list) \<Rightarrow> dnode uset \<Rightarrow> dbl list comp" where
  "average_all L vec clusters =
     average_of vec (fold (\<lambda>c all. us_insert_range (node_order L) (leaves L c) all) clusters [])"

definition wcv :: "layout \<Rightarrow> (rts_id \<Rightarrow> dbl list) \<Rightarrow> vector_distance \<Rightarrow> dnode uset \<Rightarrow> dbl comp" where
  "wcv L vec d clusters =
     cfold (\<lambda>c sum. cbind (average L vec c) (\<lambda>avg.
         cfold (\<lambda>e sum. cbind (leaf_vector vec e) (\<lambda>v. cbind (d v avg) (\<lambda>x. ret (dadd sum (dmul x x)))))
           (leaves L c) sum)) clusters (dbl_of_int 0)"

definition bcv :: "layout \<Rightarrow> (rts_id \<Rightarrow> dbl list) \<Rightarrow> vector_distance \<Rightarrow> dnode uset \<Rightarrow> dbl comp" where
  "bcv L vec d clusters =
     cbind (average_all L vec clusters) (\<lambda>overall_avg.
       cfold (\<lambda>c sum. cbind (average L vec c) (\<lambda>avg. cbind (d avg overall_avg) (\<lambda>x.
           ret (dadd sum (dmul (size_dbl (nelements c)) (dmul x x)))))) clusters (dbl_of_int 0))"

text \<open>The index of Calinski and Harabasz for a cut into \<open>K\<close> of \<open>n\<close> clusters.\<close>

definition ch_index ::
  "layout \<Rightarrow> (rts_id \<Rightarrow> dbl list) \<Rightarrow> vector_distance \<Rightarrow> dnode \<Rightarrow> nat \<Rightarrow> nat \<Rightarrow> dbl comp" where
  "ch_index L vec d tree n K =
     cbind (cut_count L tree K) (\<lambda>clusters. cbind (bcv L vec d clusters) (\<lambda>b. cbind (wcv L vec d clusters) (\<lambda>w.
       ret (ddiv (ddiv b (size_dbl (K - 1))) (ddiv w (size_dbl (n - K)))))))"

definition cut_ch ::
  "layout \<Rightarrow> (rts_id \<Rightarrow> dbl list) \<Rightarrow> dnode \<Rightarrow> nat \<Rightarrow> vector_distance \<Rightarrow> dnode uset comp" where
  "cut_ch L vec tree n d =
     (if n = 0 then ret []
      else if n = 1 then ret (us_insert (node_order L) tree [])
      else cbind (cfold (\<lambda>K (max, nclusters).
               cbind (ch_index L vec d tree n K) (\<lambda>ch.
                 ret (if dlt max ch then (ch, K) else (max, nclusters)))) [2..<Suc n] (DBL_MIN, 0))
             (\<lambda>(_, nclusters). cut_count L tree nclusters))"

definition cut_best :: "layout \<Rightarrow> (rts_id \<Rightarrow> dbl list) \<Rightarrow> dnode \<Rightarrow> vector_distance \<Rightarrow> dnode uset comp" where
  "cut_best L vec tree d = cut_ch L vec tree (nelements tree) d"

section \<open>What a cut keeps\<close>

lemma us_insert_single [simp]: "order_ok ord \<Longrightarrow> us_insert ord x [] = [x]"
proof -
  assume "order_ok ord"
  then have "mset (ord [x]) = {#x#}" by simp
  then show ?thesis by (simp add: us_insert_def mset_single_iff)
qed

lemma mset_leaves:
  assumes "layout_ok L" "distinct (leaf_ids t)"
  shows "mset (leaves L t) = mset (map leaf (leaf_ids t))"
  using assms(2)
proof (induction t)
  case (leaf r)
  then show ?case by (simp add: layout_order [OF assms(1)])
next
  case (branch d n l r)
  then have l: "mset (leaves L l) = mset (map leaf (leaf_ids l))" and r: "mset (leaves L r) = mset (map leaf (leaf_ids r))" by simp_all
  have dl: "distinct (leaves L r)"
    using mset_eq_imp_distinct_iff [OF r] branch.prems by (simp add: distinct_map inj_on_def)
  have sets: "set (leaves L l) = leaf ` set (leaf_ids l)" "set (leaves L r) = leaf ` set (leaf_ids r)"
    using l r by (metis mset_eq_setD set_map)+
  have "set (leaves L r) \<inter> set (leaves L l) = {}" using sets branch.prems by auto
  from mset_us_insert_range [OF layout_order [OF assms(1)] dl this] show ?case
    using l r by (simp add: add.commute)
qed

lemma all_leaf_ids_leaves: "all_leaf_ids (map leaf rs) = rs"
  by (induction rs) simp_all

lemma disjoint_forests:
  assumes "set (all_leaf_ids cs) \<inter> set (all_leaf_ids ds) = {}"
  shows "set cs \<inter> set ds = {}"
proof -
  have "False" if "c \<in> set cs" "c \<in> set ds" for c
  proof -
    have "hd (leaf_ids c) \<in> set (leaf_ids c)" by simp
    with that have "hd (leaf_ids c) \<in> set (all_leaf_ids cs) \<inter> set (all_leaf_ids ds)" unfolding set_concat set_map by blast
    with assms show False by blast
  qed
  then show ?thesis by blast
qed

text \<open>
  Cutting a dendrogram at a distance divides its runtime situations: every leaf of the tree is in
  exactly one of the clusters, and every cluster is a single leaf or has at most that distance.
\<close>

theorem cut_value_divides:
  assumes "layout_ok L" "distinct (leaf_ids t)"
  shows "mset (all_leaf_ids (cut_value L t v)) = mset (leaf_ids t) \<and>
    (\<forall>c \<in> set (cut_value L t v). nelements c = 1 \<or> dle (distance c) v)"
  using assms(2)
proof (induction t)
  case (leaf r)
  then show ?case by (simp add: layout_order [OF assms(1)])
next
  case (branch d n l r)
  note ord = layout_order [OF assms(1)]
  show ?case
  proof (cases "dle d v")
    case True
    then show ?thesis by (simp add: ord)
  next
    case False
    from branch have l: "mset (all_leaf_ids (cut_value L l v)) = mset (leaf_ids l)"
      and r: "mset (all_leaf_ids (cut_value L r v)) = mset (leaf_ids r)" by simp_all
    have "distinct (all_leaf_ids (cut_value L l v))" "distinct (all_leaf_ids (cut_value L r v))"
      using mset_eq_imp_distinct_iff [OF l] mset_eq_imp_distinct_iff [OF r] branch.prems by simp_all
    then have dist: "distinct (cut_value L l v)" "distinct (cut_value L r v)" by (blast intro: distinct_forest)+
    have "set (all_leaf_ids (cut_value L r v)) \<inter> set (all_leaf_ids (cut_value L l v)) = {}"
      using mset_eq_setD [OF l] mset_eq_setD [OF r] branch.prems by auto
    then have disj: "set (cut_value L r v) \<inter> set (cut_value L l v) = {}" by (rule disjoint_forests)
    have "mset (cut_value L (branch d n l r) v) = mset (cut_value L r v @ cut_value L l v)"
      using False disj mset_us_insert_range [OF ord dist(2), of "us_insert_range (node_order L) (cut_value L l v) []"]
        mset_us_insert_range [OF ord dist(1), of "[]"] by (simp add: ord)
    from all_leaf_ids_mset [OF this] have "mset (all_leaf_ids (cut_value L (branch d n l r) v)) = mset (leaf_ids r) + mset (leaf_ids l)"
      using l r by simp
    then show ?thesis using branch False by (auto simp: ord add.commute)
  qed
qed

section \<open>The cut into a number of clusters\<close>

text \<open>Distances that are numbers and pairwise different.\<close>

definition dkey :: "dbl \<Rightarrow> int \<times> real" where
  "dkey x = (drank x, dval x)"

definition apart :: "dbl list \<Rightarrow> bool" where
  "apart xs \<longleftrightarrow> (\<forall>x \<in> set xs. \<not> is_nan x) \<and> distinct (map dkey xs)"

lemma dkey_dlt: "\<not> is_nan x \<Longrightarrow> \<not> is_nan y \<Longrightarrow> dkey x \<noteq> dkey y \<Longrightarrow> dlt x y \<or> dlt y x"
  by (auto simp: dkey_def dlt_iff)

lemma apart_mset:
  assumes "apart xs" "mset ys \<subseteq># mset xs"
  shows "apart ys"
proof -
  obtain zs where zs: "mset xs = mset (ys @ zs)"
    using assms(2) by (metis ex_mset mset_append subset_mset.add_diff_inverse)
  then have "mset (map dkey xs) = mset (map dkey (ys @ zs))" by (simp only: mset_map)
  then have "distinct (map dkey (ys @ zs))" using assms(1) mset_eq_imp_distinct_iff unfolding apart_def by blast
  moreover have "set (ys @ zs) = set xs" using mset_eq_setD [OF zs] by simp
  ultimately show ?thesis using assms(1) unfolding apart_def by auto
qed

abbreviation all_heights :: "dnode list \<Rightarrow> dbl list" where
  "all_heights cs \<equiv> concat (map heights cs)"

abbreviation ascending :: "dnode list \<Rightarrow> bool" where
  "ascending xs \<equiv> sorted_wrt (\<lambda>x y. dlt (distance x) (distance y)) xs"

definition is_branch :: "dnode \<Rightarrow> bool" where
  "is_branch t \<longleftrightarrow> heights t \<noteq> []"

lemma is_branch_cases: "is_branch t \<longleftrightarrow> (\<exists>d n l r. t = branch d n l r)"
  by (cases t) (auto simp: is_branch_def)

lemma ns_insert_new:
  assumes "ascending xs" "\<forall>y \<in> set xs. dlt (distance x) (distance y) \<or> dlt (distance y) (distance x)"
  shows "mset (ns_insert x xs) = add_mset x (mset xs) \<and> ascending (ns_insert x xs)"
  using assms
proof (induction xs)
  case (Cons y ys)
  then have IH: "mset (ns_insert x ys) = add_mset x (mset ys)" "ascending (ns_insert x ys)" by simp_all
  show ?case
  proof (cases "dlt (distance x) (distance y)")
    case True
    then show ?thesis using Cons.prems(1) dlt_trans by fastforce
  next
    case False
    moreover have "set (ns_insert x ys) = insert x (set ys)" using mset_eq_setD [of "ns_insert x ys" "x # ys"] IH(1) by simp
    ultimately show ?thesis using IH Cons.prems by auto
  qed
qed simp

lemma ns_erase_last:
  assumes "ascending (xs @ [x])"
  shows "ns_erase x (xs @ [x]) = xs"
  using assms by (auto simp: ns_erase_def sorted_wrt_append filter_id_conv)

lemma all_heights_apart:
  assumes "apart (all_heights (x # xs))" "y \<in> set xs" "is_branch x" "is_branch y"
  shows "dlt (distance x) (distance y) \<or> dlt (distance y) (distance x)"
proof (rule dkey_dlt)
  have hx: "distance x \<in> set (heights x)" and "distance y \<in> set (heights y)"
    using assms(3,4) by (auto simp: is_branch_cases)
  then have hy: "distance y \<in> set (all_heights xs)" using assms(2) unfolding set_concat set_map by blast
  then have "distance x \<in> set (all_heights (x # xs))" "distance y \<in> set (all_heights (x # xs))" by (simp_all add: hx)
  then show "\<not> is_nan (distance x)" "\<not> is_nan (distance y)" using assms(1) unfolding apart_def by blast+
  have "dkey (distance x) \<in> dkey ` set (heights x)" "dkey (distance y) \<in> dkey ` set (all_heights xs)" using hx hy by blast+
  moreover have "dkey ` set (heights x) \<inter> dkey ` set (all_heights xs) = {}" using assms(1) by (simp add: apart_def)
  ultimately show "dkey (distance x) \<noteq> dkey (distance y)" by (simp only: disjoint_iff) metis
qed

text \<open>The loop's invariant: what is to be visited and what is a cluster divide the tree.\<close>

definition cutting :: "dnode \<Rightarrow> nat \<Rightarrow> dnode list \<times> dnode uset \<Rightarrow> bool" where
  "cutting t K s \<longleftrightarrow> ascending (fst s) \<and> (\<forall>x \<in> set (fst s). is_branch x) \<and> (\<forall>x \<in> set (snd s). \<not> is_branch x) \<and>
     apart (all_heights (fst s @ snd s)) \<and> mset (all_leaf_ids (fst s @ snd s)) = mset (leaf_ids t) \<and>
     length (fst s) + length (snd s) \<le> K"

lemma visit_child:
  assumes "order_ok (node_order L)" "ascending tv" "\<forall>x \<in> set tv. is_branch x" "\<forall>x \<in> set cl. \<not> is_branch x"
    and "apart (all_heights (c # tv @ cl))" "c \<notin> set cl"
  shows "\<exists>tv' cl'. visit L c (tv, cl) = (tv', cl') \<and> ascending tv' \<and> (\<forall>x \<in> set tv'. is_branch x) \<and>
    (\<forall>x \<in> set cl'. \<not> is_branch x) \<and> mset (tv' @ cl') = mset (c # tv @ cl)"
proof (cases "is_branch c")
  case True
  then have visit: "visit L c (tv, cl) = (ns_insert c tv, cl)" by (auto simp: visit_def is_branch_cases)
  have "\<forall>y \<in> set tv. dlt (distance c) (distance y) \<or> dlt (distance y) (distance c)"
    using all_heights_apart [OF assms(5)] True assms(3) by auto
  from ns_insert_new [OF assms(2) this] have new: "mset (ns_insert c tv) = add_mset c (mset tv)" "ascending (ns_insert c tv)" by simp_all
  have "set (ns_insert c tv) = insert c (set tv)" using mset_eq_setD [of "ns_insert c tv" "c # tv"] new(1) by simp
  then show ?thesis using visit new True assms(3,4) by simp
next
  case False
  then have "visit L c (tv, cl) = (tv, us_insert (node_order L) c cl)"
    by (cases c) (auto simp: visit_def is_branch_def)
  with False assms show ?thesis by (simp add: mset_us_insert)
qed

lemma mset_all_heights: "mset cs = mset ds \<Longrightarrow> mset (all_heights cs) = mset (all_heights ds)"
proof -
  assume eq: "mset cs = mset ds"
  have "mset (all_heights es) = sum_mset (image_mset (\<lambda>t. mset (heights t)) (mset es))" for es
    by (induction es) simp_all
  with eq show ?thesis by simp
qed

lemma cut_step:
  assumes L: "layout_ok L" and t: "distinct (leaf_ids t)" and inv: "cutting t K (tv, cl)"
    and less: "length tv + length cl < K" and many: "K < length (leaf_ids t)"
  shows "\<exists>s. cut_body L K (tv, cl) = ret (True, s) \<and> cutting t K s \<and>
    length (fst s) + length (snd s) = Suc (length tv + length cl)"
proof -
  note ord = layout_order [OF L]
  have inv': "ascending tv" "\<forall>x \<in> set tv. is_branch x" "\<forall>x \<in> set cl. \<not> is_branch x"
    "apart (all_heights (tv @ cl))" "mset (all_leaf_ids (tv @ cl)) = mset (leaf_ids t)"
    using inv by (simp_all add: cutting_def)
  have "tv \<noteq> []"
  proof
    assume "tv = []"
    have "length (all_leaf_ids cl) = length cl" using inv'(3)
    proof (induction cl)
      case (Cons c cl)
      then show ?case by (cases c) (simp_all add: is_branch_def)
    qed simp
    moreover have "length (all_leaf_ids cl) = length (leaf_ids t)" using inv'(5) \<open>tv = []\<close> mset_eq_length by fastforce
    ultimately show False using less many by simp
  qed
  then obtain us x where tv: "tv = us @ [x]" using rev_exhaust by blast
  then obtain d n l r where x: "x = branch d n l r" using inv'(2) is_branch_cases by auto
  have erase: "ns_erase x tv = us" unfolding tv using inv'(1) by (intro ns_erase_last) (simp add: tv)
  have us: "ascending us" "\<forall>x \<in> set us. is_branch x" using inv'(1,2) by (simp_all add: tv sorted_wrt_append)
  have ms: "mset (all_heights (tv @ cl)) = add_mset d (mset (all_heights (r # l # us @ cl)))"
    by (simp add: tv x)
  have apart: "apart (all_heights (r # l # us @ cl))"
    using apart_mset [OF inv'(4)] ms by (metis mset_subset_eq_add_right add_mset_add_single union_commute)
  have ids: "mset (all_leaf_ids (r # l # us @ cl)) = mset (leaf_ids t)"
    unfolding inv'(5) [symmetric] by (simp add: tv x)
  then have dist: "distinct (all_leaf_ids (r # l # us @ cl))" using t mset_eq_imp_distinct_iff by blast
  from distinct_forest [OF this] have fresh: "l \<notin> set cl" "r \<notin> insert l (set us \<union> set cl)" by auto
  have "apart (all_heights (l # us @ cl))" by (rule apart_mset [OF apart]) simp
  from visit_child [OF ord us inv'(3) this fresh(1)] obtain tv1 cl1 where
    one: "visit L l (us, cl) = (tv1, cl1)" "ascending tv1" "\<forall>x \<in> set tv1. is_branch x"
    "\<forall>x \<in> set cl1. \<not> is_branch x" "mset (tv1 @ cl1) = mset (l # us @ cl)" by blast
  have ms1: "mset (r # tv1 @ cl1) = mset (r # l # us @ cl)" using one(5) by simp
  have "apart (all_heights (r # tv1 @ cl1))"
    using apart_mset [OF apart] mset_all_heights [OF ms1] by (metis subset_mset.order_refl)
  moreover have "r \<notin> set cl1" using mset_eq_setD [OF one(5)] fresh(2) by auto
  ultimately obtain tv2 cl2 where
    two: "visit L r (tv1, cl1) = (tv2, cl2)" "ascending tv2" "\<forall>x \<in> set tv2. is_branch x"
    "\<forall>x \<in> set cl2. \<not> is_branch x" "mset (tv2 @ cl2) = mset (r # tv1 @ cl1)" using visit_child [OF ord one(2-4)] by blast
  have ms2: "mset (tv2 @ cl2) = mset (r # l # us @ cl)" using two(5) ms1 by simp
  have "cut_body L K (tv, cl) = ret (True, (tv2, cl2))"
    using less \<open>tv \<noteq> []\<close> by (simp add: cut_body_def tv x erase [unfolded tv x] one(1) two(1))
  moreover have len: "length tv2 + length cl2 = Suc (length tv + length cl)" using mset_eq_length [OF ms2] by (simp add: tv)
  moreover have "cutting t K (tv2, cl2)"
    using two(2-4) apart_mset [OF apart] mset_all_heights [OF ms2] all_leaf_ids_mset [OF ms2] ids len less
    by (simp add: cutting_def)
  ultimately show ?thesis by (intro exI [of _ "(tv2, cl2)"]) simp
qed

lemma cut_count_parts:
  assumes L: "layout_ok L" and t: "counted t" "distinct (leaf_ids t)" "apart (heights t)" and K: "0 < K"
  shows "total (cut_count L t K) (\<lambda>cs. length cs = min K (length (leaf_ids t)) \<and> mset (all_leaf_ids cs) = mset (leaf_ids t))"
proof (cases "nelements t \<le> K")
  case True
  have "mset (all_leaf_ids (leaves L t)) = mset (leaf_ids t)" "length (leaves L t) = length (leaf_ids t)"
    using all_leaf_ids_mset [OF mset_leaves [OF L t(2)]] mset_eq_length [OF mset_leaves [OF L t(2)]]
    by (simp_all only: all_leaf_ids_leaves length_map)
  with True K show ?thesis by (simp add: cut_count_def nelements_leaf_ids [OF t(1)])
next
  case False
  then have many: "K < length (leaf_ids t)" using nelements_leaf_ids [OF t(1)] by simp
  then have "is_branch t" using K by (cases t) (auto simp: is_branch_def)
  then have start: "cutting t K ([t], [])" using t(3) K by (simp add: cutting_def)
  have "total (loop (cut_body L K) ([t], [])) (\<lambda>s. cutting t K s \<and> length (fst s) + length (snd s) = K)"
  proof (rule total_loop [where I = "cutting t K", OF start _ wf_measure])
    fix s assume inv: "cutting t K s"
    obtain tv cl where s: "s = (tv, cl)" by force
    show "total (cut_body L K s) (\<lambda>(again, u). if again then cutting t K u \<and> (u, s) \<in> measure (\<lambda>s. K - (length (fst s) + length (snd s)))
        else cutting t K u \<and> length (fst u) + length (snd u) = K)"
    proof (cases "length tv + length cl = K")
      case True
      with inv show ?thesis by (simp add: cut_body_def s)
    next
      case False
      with inv have less: "length tv + length cl < K" by (simp add: cutting_def s)
      from cut_step [OF L t(2) inv [unfolded s] this many] obtain u where
        "cut_body L K (tv, cl) = ret (True, u)" "cutting t K u" "length (fst u) + length (snd u) = Suc (length tv + length cl)" by blast
      then show ?thesis using less by (simp add: s)
    qed
  qed
  moreover have "length cs = K \<and> mset (all_leaf_ids cs) = mset (leaf_ids t)"
    if s: "cutting t K (tv, cl)" "length tv + length cl = K" and cs: "cs = us_insert_range (node_order L) tv cl" for tv cl cs
  proof -
    have ids: "mset (all_leaf_ids (tv @ cl)) = mset (leaf_ids t)" using s(1) by (simp add: cutting_def)
    then have "distinct (tv @ cl)" using t(2) distinct_forest mset_eq_imp_distinct_iff by blast
    then have "mset cs = mset (tv @ cl)" unfolding cs by (subst mset_us_insert_range [OF layout_order [OF L]]) auto
    then show ?thesis using mset_eq_length all_leaf_ids_mset ids s(2) by (metis length_append)
  qed
  ultimately show ?thesis using False K many by (auto simp: cut_count_def total_def)
qed

text \<open>
  C31: Cutting a dendrogram into a number of clusters, when the distances of its inner nodes are numbers and
  pairwise different: the cut ends without touching an empty set, gives as many clusters as asked for (all
  single leaves when more are asked for than there are), and every runtime situation of the tree is in
  exactly one of them.
\<close>

theorem cut_count_divides:
  assumes "layout_ok L" and "counted t" "distinct (leaf_ids t)" "apart (heights t)" and "0 < K"
  shows "total (cut_count L t K) (\<lambda>cs. length cs = min K (length (leaf_ids t)) \<and> mset (all_leaf_ids cs) = mset (leaf_ids t))"
  using assms by (rule cut_count_parts)

text \<open>Three leaves at two different distances, cut into two.\<close>

definition example_tree :: dnode where
  "example_tree = branch (dbl_of_int 4) 3 (leaf 0) (branch (dbl_of_int 1) 2 (leaf 1) (leaf 2))"

theorem cut_value_divides_witness:
  "mset (all_leaf_ids (cut_value front_layout example_tree (dbl_of_int 2))) = {#0, 1, 2#}"
  using cut_value_divides [OF front_layout_ok, of example_tree "dbl_of_int 2"] by (simp add: example_tree_def)

theorem cut_count_divides_witness:
  "\<exists>cs. cut_count front_layout example_tree 2 = ret cs \<and> length cs = 2 \<and> mset (all_leaf_ids cs) = {#0, 1, 2#}"
proof -
  have "\<not> is_nan (dbl_of_int 4) \<and> \<not> is_nan (dbl_of_int 1) \<and> dlt (dbl_of_int 1) (dbl_of_int 4)" unfolding is_nan_def by code_simp
  then have "apart (heights example_tree)" by (auto simp: apart_def example_tree_def dkey_def dlt_iff)
  moreover have "counted example_tree" "leaf_ids example_tree = [0, 1, 2]" by (simp_all add: example_tree_def)
  ultimately show ?thesis
    using cut_count_divides [OF front_layout_ok, of example_tree 2] by (auto simp: total_def)
qed

section \<open>Where a cut goes wrong\<close>

text \<open>
  The set of nodes to visit is ordered by distance alone, so of two inner nodes of the same distance it
  keeps one. Four runtime situations in two pairs of the same distance: a cut into two clusters gives the two
  leaves of the first pair and loses the second pair, a cut into three reads the last element of an empty set.
\<close>

theorem equal_distances_lose_clusters:
  assumes "layout_ok L" and t: "t = branch d 4 (branch e 2 (leaf a) (leaf b)) (branch e 2 (leaf a') (leaf b'))"
    and "a \<noteq> b"
  shows "(\<exists>cs. cut_count L t 2 = ret cs \<and> set cs = {leaf a, leaf b}) \<and> cut_count L t 3 = fail UB"
proof
  note ord = layout_order [OF assms(1)]
  let ?l = "branch e 2 (leaf a) (leaf b)"
  let ?two = "us_insert (node_order L) (leaf b) [leaf a]"
  have "mset ?two = mset [leaf b, leaf a]" using assms(3) by (simp add: mset_us_insert [OF ord])
  from mset_eq_length [OF this] have len: "length ?two = 2" by simp
  have one: "cut_body L K ([t], []) = ret (True, ([?l], []))" if "K \<noteq> 1" for K
    using that by (simp add: cut_body_def t ns_erase_def visit_def)
  have two: "cut_body L K ([?l], []) = ret (True, ([], ?two))" if "K \<noteq> 1" for K
    using that by (simp add: cut_body_def ns_erase_def visit_def ord)
  have "cut_body L 2 ([], ?two) = ret (False, ([], ?two))" using len by (simp add: cut_body_def)
  then have "loop (cut_body L 2) ([t], []) = ret ([], ?two)"
    by (simp add: loop_unfold [of _ "([t], [])"] loop_unfold [of _ "([?l], [])"] loop_unfold [of _ "([], ?two)"] one two)
  then show "\<exists>cs. cut_count L t 2 = ret cs \<and> set cs = {leaf a, leaf b}"
    by (auto simp: cut_count_def t us_insert_range_def ord)
  have "cut_body L 3 ([], ?two) = fail UB" using len by (simp add: cut_body_def)
  then have "loop (cut_body L 3) ([t], []) = fail UB"
    by (simp add: loop_unfold [of _ "([t], [])"] loop_unfold [of _ "([?l], [])"] loop_unfold [of _ "([], ?two)"] one two)
  then show "cut_count L t 3 = fail UB" by (simp add: cut_count_def t)
qed

definition two_pairs :: dnode where
  "two_pairs = branch (dbl_of_int 9) 4 (branch (dbl_of_int 1) 2 (leaf 0) (leaf 1)) (branch (dbl_of_int 1) 2 (leaf 2) (leaf 3))"

theorem equal_distances_lose_clusters_witness:
  "(\<exists>cs. cut_count front_layout two_pairs 2 = ret cs \<and> set cs = {leaf 0, leaf 1}) \<and> cut_count front_layout two_pairs 3 = fail UB"
  by (rule equal_distances_lose_clusters [OF front_layout_ok two_pairs_def]) simp

text \<open>
  With two leaves the within-cluster variation is zero and divided by zero: the index is not a number, no
  number of clusters is the best one.
\<close>

lemma two_leaves_no_cluster:
  assumes L: "layout_ok L" and ab: "a \<noteq> b"
    and self: "\<forall>r \<in> {a, b}. d (vec r) (map (\<lambda>x. dmul x (ddiv (dbl_of_int 1) (size_dbl 1))) (vec r)) = ret (dbl_of_int 0)"
    and b: "bcv L vec d (leaves L (branch h 2 (leaf a) (leaf b))) = ret v"
  shows "cut_best L vec (branch h 2 (leaf a) (leaf b)) d = ret []"
proof -
  note ord = layout_order [OF L]
  let ?t = "branch h 2 (leaf a) (leaf b)"
  have ms: "mset (leaves L ?t) = {#leaf a, leaf b#}" using mset_leaves [OF L, of ?t] ab by simp
  have avg: "average L vec (leaf r) = ret (map (\<lambda>x. dmul x (ddiv (dbl_of_int 1) (size_dbl 1))) (vec r))" for r
  proof -
    have "map2 dmul xs (replicate (length xs) y) = map (\<lambda>x. dmul x y) xs" for xs y by (induction xs) simp_all
    then show ?thesis by (simp add: average_def average_of_def ord leaf_vector_def vec_scale_def vec_mul_def vec_zip_def)
  qed
  have zero: "dadd (dbl_of_int 0) (dmul (dbl_of_int 0) (dbl_of_int 0)) = dbl_of_int 0"
    and nan: "ddiv (dbl_of_int 0) (size_dbl 0) = NaN" by code_simp+
  have "cfold f cs s = ret s" if "\<forall>c \<in> set cs. f c s = ret s" for f and cs :: "dnode list" and s :: dbl
    using that by (induction cs) simp_all
  moreover have "set (leaves L ?t) = {leaf a, leaf b}" using mset_eq_setD [of "leaves L ?t" "[leaf a, leaf b]"] ms by simp
  ultimately have wcv: "wcv L vec d (leaves L ?t) = ret (dbl_of_int 0)"
    unfolding wcv_def using self by (simp add: avg ord leaf_vector_def zero)
  have "cut_count L ?t 2 = ret (leaves L ?t)" by (simp add: cut_count_def)
  then have "ch_index L vec d ?t 2 2 = ret (ddiv (ddiv v (size_dbl 1)) NaN)"
    unfolding ch_index_def by (simp only: cbind_ret b wcv) (simp add: nan)
  moreover have "ddiv x NaN = NaN" for x by (cases x) simp_all
  moreover have "\<not> dlt DBL_MIN NaN" by (simp add: dlt_iff is_nan_def)
  ultimately have "cfold (\<lambda>K (max, nclusters). cbind (ch_index L vec d ?t 2 K) (\<lambda>ch.
      ret (if dlt max ch then (ch, K) else (max, nclusters)))) [2..<Suc 2] (DBL_MIN, 0) = ret (DBL_MIN, 0)"
    by simp
  then show ?thesis by (simp add: cut_best_def cut_ch_def cut_count_def)
qed

text \<open>Whatever number is chosen: a cut by the index divides the tree or gives nothing.\<close>

lemma cut_best_divides:
  assumes "layout_ok L" "counted t" "distinct (leaf_ids t)" "apart (heights t)" and "cut_best L vec t d = ret cs"
  shows "cs = [] \<or> mset (all_leaf_ids cs) = mset (leaf_ids t)"
proof -
  have "cs = us_insert (node_order L) t [] \<or> (\<exists>K. cut_count L t K = ret cs) \<or> cs = []"
    using assms(5) by (auto simp: cut_best_def cut_ch_def cbind_eq_ret split: if_splits)
  moreover have "cs = [] \<or> mset (all_leaf_ids cs) = mset (leaf_ids t)" if "cut_count L t K = ret cs" for K
    using that cut_count_parts [OF assms(1-4), of K] by (cases "K = 0") (auto simp: cut_count_def total_def)
  ultimately show ?thesis using layout_order [OF assms(1)] by auto
qed

end
