(* ===== verification/TuningData.thy ===== *)
theory TuningData
  imports Unordered CString
begin

text \<open>
  The data of the tuning model generator (\<open>frontend/src/tuning_model/include\<close>): tuning parameters and
  values (\<open>tuning.h\<close>), configurations and the selectors that make one of several (\<open>configuration.h\<close>),
  identifiers, regions, call paths and runtime situations (\<open>identifiers.h\<close>, \<open>region.h\<close>, \<open>callpath.h\<close>,
  \<open>rts.h\<close>) and scenarios (\<open>scenario.h\<close>).
\<close>

section \<open>Tuning parameters\<close>

text \<open>The remainder has the sign of the dividend; \<open>abs\<close> of the least integer is undefined.\<close>

definition cmod :: "int \<Rightarrow> int \<Rightarrow> int comp" where
  "cmod a b = (if b = 0 \<or> a = INT_MIN \<and> b = - 1 then fail UB else ret (sgn a * (\<bar>a\<bar> mod \<bar>b\<bar>)))"

definition cabs :: "int \<Rightarrow> int comp" where
  "cabs a = check (a \<noteq> INT_MIN) UB (ret \<bar>a\<bar>)"

record tm_parameter =
  tmp_end :: int
  tmp_step :: int
  tmp_start :: int
  tmp_name :: string

definition new_tm_parameter :: "string \<Rightarrow> int \<Rightarrow> int \<Rightarrow> int \<Rightarrow> tm_parameter comp" where
  "new_tm_parameter name a step b =
     cbind (cabs step) (\<lambda>abs_step.
       let hi = max a b; lo = min a b
       in check (in_int (hi - lo)) UB (cbind (cmod (hi - lo) step) (\<lambda>rest.
            ret \<lparr>tmp_end = hi - rest, tmp_step = abs_step, tmp_start = lo, tmp_name = name\<rparr>)))"

record tm_value =
  tv_value :: int
  tv_parameter :: tm_parameter

text \<open>The constructor reports a value off the grid on the error stream and keeps it.\<close>

definition new_tm_value :: "tm_parameter \<Rightarrow> int \<Rightarrow> tm_value comp" where
  "new_tm_value p v =
     check (in_int (v - tmp_start p)) UB (cbind (cmod (v - tmp_start p) (tmp_step p)) (\<lambda>_.
       ret \<lparr>tv_value = v, tv_parameter = p\<rparr>))"

definition on_grid :: "tm_parameter \<Rightarrow> int \<Rightarrow> bool" where
  "on_grid p v \<longleftrightarrow> tmp_start p \<le> v \<and> v \<le> tmp_end p \<and> (v - tmp_start p) mod tmp_step p = 0"

definition tv_name :: "tm_value \<Rightarrow> string" where
  "tv_name tv = tmp_name (tv_parameter tv)"

text \<open>
  The constructor of a tuning parameter normalises its range, whichever way round and with whichever
  sign of the step it is given: when the step is not zero (and neither the step's magnitude nor the length of
  the range overflows), the start is the smaller bound, the step is positive, the end is the last point of the
  grid not beyond the larger bound; otherwise construction is undefined.
\<close>

theorem parameter_range_normalised:
  "(if step \<noteq> 0 \<and> step \<noteq> INT_MIN \<and> in_int (max a b - min a b)
    then \<exists>p. new_tm_parameter name a step b = ret p \<and> tmp_start p = min a b \<and> tmp_step p = \<bar>step\<bar> \<and>
      0 < tmp_step p \<and> on_grid p (tmp_start p) \<and> on_grid p (tmp_end p) \<and> tmp_end p \<le> max a b \<and>
      max a b < tmp_end p + tmp_step p
    else new_tm_parameter name a step b = fail UB)"
proof (cases "step \<noteq> 0 \<and> step \<noteq> INT_MIN \<and> in_int (max a b - min a b)")
  case True
  define r where "r = max a b - min a b"
  have r: "0 \<le> r" by (simp add: r_def)
  have "cmod r step = ret (r mod \<bar>step\<bar>)" using True r by (cases "r = 0") (auto simp: cmod_def INT_MIN_def)
  then have new: "new_tm_parameter name a step b = ret \<lparr>tmp_end = max a b - r mod \<bar>step\<bar>,
      tmp_step = \<bar>step\<bar>, tmp_start = min a b, tmp_name = name\<rparr>"
    using True by (simp add: new_tm_parameter_def cabs_def r_def Let_def)
  have "0 \<le> r mod \<bar>step\<bar>" "r mod \<bar>step\<bar> < \<bar>step\<bar>" "r mod \<bar>step\<bar> \<le> r"
    using True r by (simp_all add: zmod_le_nonneg_dividend)
  then have "min a b \<le> max a b - r mod \<bar>step\<bar>" "max a b - r mod \<bar>step\<bar> \<le> max a b"
    "max a b < max a b - r mod \<bar>step\<bar> + \<bar>step\<bar>" using r_def by linarith+
  moreover have "(max a b - r mod \<bar>step\<bar> - min a b) mod \<bar>step\<bar> = 0"
  proof -
    have "max a b - r mod \<bar>step\<bar> - min a b = r - r mod \<bar>step\<bar>" by (simp add: r_def)
    then show ?thesis by (simp add: minus_mod_eq_mult_div)
  qed
  ultimately have "\<exists>p. new_tm_parameter name a step b = ret p \<and> tmp_start p = min a b \<and> tmp_step p = \<bar>step\<bar> \<and>
      0 < tmp_step p \<and> on_grid p (tmp_start p) \<and> on_grid p (tmp_end p) \<and> tmp_end p \<le> max a b \<and>
      max a b < tmp_end p + tmp_step p"
    unfolding new on_grid_def using True by simp
  with True show ?thesis by simp
next
  case False
  then show ?thesis by (auto simp: new_tm_parameter_def cabs_def check_def cmod_def Let_def INT_MIN_def in_int_def INT_MAX_def)
qed

section \<open>Configurations\<close>

type_synonym configuration = "(string, tm_value) umap"

text \<open>How the hash containers of the generator iterate, and its hash functions.\<close>

record 'r hashing =
  names_order :: "string list \<Rightarrow> string list"
  params_order :: "tm_parameter list \<Rightarrow> tm_parameter list"
  configs_order :: "configuration list \<Rightarrow> configuration list"
  config_hash :: "(string \<times> int) list \<Rightarrow> nat"
  rts_order :: "'r list \<Rightarrow> 'r list"

definition add_tuning_value :: "'r hashing \<Rightarrow> tm_value \<Rightarrow> configuration \<Rightarrow> configuration" where
  "add_tuning_value H tv c = um_put (names_order H) (tv_name tv) tv c"

definition new_configuration :: "'r hashing \<Rightarrow> tm_value list \<Rightarrow> configuration" where
  "new_configuration H tvs = fold (add_tuning_value H) tvs []"

text \<open>The copy constructor and the assignment insert the values again, in the order of iteration.\<close>

definition copy_configuration :: "'r hashing \<Rightarrow> configuration \<Rightarrow> configuration" where
  "copy_configuration H c = fold (\<lambda>(_, tv). um_put (names_order H) (tv_name tv) tv) c []"

definition configuration_eq :: "configuration \<Rightarrow> configuration \<Rightarrow> bool" where
  "configuration_eq c other \<longleftrightarrow> length c = length other \<and>
     list_all (\<lambda>(_, tv). case sm_find c (tv_name tv) of None \<Rightarrow> False | Some w \<Rightarrow> tv_value w = tv_value tv) other"

definition tuning_value :: "configuration \<Rightarrow> string \<Rightarrow> tm_value option" where
  "tuning_value c name = sm_find c name"

definition to_vector :: "configuration \<Rightarrow> dbl list" where
  "to_vector c = map (\<lambda>(_, tv). dbl_of_int (tv_value tv)) c"

text \<open>\<open>std::hash<tmg::configuration>\<close> combines names and values in the order of iteration.\<close>

definition hash_configuration :: "'r hashing \<Rightarrow> configuration \<Rightarrow> nat" where
  "hash_configuration H c = config_hash H (map (\<lambda>(_, tv). (tv_name tv, tv_value tv)) c)"

type_synonym selector = "configuration list \<Rightarrow> configuration comp"

definition random_selector :: "'r hashing \<Rightarrow> selector" where
  "random_selector H cs = (case cs of [] \<Rightarrow> fail UB | c # _ \<Rightarrow> ret (copy_configuration H c))"

text \<open>A conversion of a \<open>double\<close> to \<open>int\<close> truncates; a value that does not fit is undefined.\<close>

definition dbl_to_int :: "dbl \<Rightarrow> int comp" where
  "dbl_to_int x = cbind (dbl_to_int64 x) (\<lambda>k. check (in_int k) UB (ret k))"

definition average_value :: "configuration list \<Rightarrow> tm_parameter \<Rightarrow> tm_value comp" where
  "average_value cs tp =
     cbind (cfold (\<lambda>c sum. case tuning_value c (tmp_name tp) of None \<Rightarrow> fail UB
                    | Some tv \<Rightarrow> ret (dadd sum (dbl_of_int (tv_value tv)))) cs (dbl_of_int 0)) (\<lambda>sum.
     cbind (dbl_to_int (ddiv (dmul sum (dbl_of_int 10)) (dbl_of_int (int (length cs))))) (\<lambda>avg.
     check (in_int (tmp_step tp * 10)) UB (
     cbind (cmod avg (tmp_step tp * 10)) (\<lambda>rest.
     let below = ddiv (dbl_of_int (avg - rest)) (dbl_of_int 10)
     in cbind (dbl_to_int (if dlt (dbl_of_int rest) (ddiv (dbl_of_int (tmp_step tp * 10)) (dbl_of_int 2))
                           then below else dadd below (dbl_of_int (tmp_step tp)))) (new_tm_value tp)))))"

definition average_selector :: "'r hashing \<Rightarrow> selector" where
  "average_selector H cs =
     (case cs of [] \<Rightarrow> fail UB
      | c # _ \<Rightarrow>
         (let tps = fold (\<lambda>(_, tv). us_insert (params_order H) (tv_parameter tv)) c []
          in cfold (\<lambda>tp d. cbind (average_value cs tp) (\<lambda>tv. ret (add_tuning_value H tv d))) tps []))"

subsection \<open>Configurations as maps from names to values\<close>

text \<open>Every value is under the name of its parameter, once.\<close>

definition configuration_ok :: "configuration \<Rightarrow> bool" where
  "configuration_ok c \<longleftrightarrow> distinct (map fst c) \<and> (\<forall>(k, tv) \<in> set c. k = tv_name tv)"

definition values_of :: "configuration \<Rightarrow> string \<Rightarrow> int option" where
  "values_of c k = map_option tv_value (sm_find c k)"

lemma values_of_Nil [simp]: "values_of [] = Map.empty"
  by (auto simp: values_of_def fun_eq_iff)

lemma configuration_ok_Nil [simp]: "configuration_ok []"
  by (simp add: configuration_ok_def)

lemma configuration_ok_put [simp]:
  assumes "order_ok ord" "configuration_ok c"
  shows "configuration_ok (um_put ord (tv_name tv) tv c)"
  using keys_um_put [OF assms(1), of c "tv_name tv" tv] set_um_put_subset [OF assms(1), of "tv_name tv" tv c] assms(2)
  unfolding configuration_ok_def by fastforce

lemma values_of_put [simp]:
  "order_ok ord \<Longrightarrow> values_of (um_put ord (tv_name tv) tv c) = (values_of c)(tv_name tv \<mapsto> tv_value tv)"
  by (auto simp: values_of_def)

lemma dom_values_of: "dom (values_of c) = fst ` set c"
  by (auto simp: values_of_def sm_find_def dom_def dom_map_of_conv_image_fst [symmetric])

lemma copy_fold:
  assumes "order_ok ord" "configuration_ok c"
  shows "configuration_ok (fold (\<lambda>(_, tv). um_put ord (tv_name tv) tv) d c) \<and>
    values_of (fold (\<lambda>(_, tv). um_put ord (tv_name tv) tv) d c) = fold (\<lambda>(_, tv) f. f(tv_name tv \<mapsto> tv_value tv)) d (values_of c)"
  using assms(2)
proof (induction d arbitrary: c)
  case (Cons p d)
  obtain k tv where p: "p = (k, tv)" by force
  from Cons.prems Cons.IH [of "um_put ord (tv_name tv) tv c"] assms(1) show ?case
    by (simp add: p values_of_put [OF assms(1)])
qed simp

lemma fold_updates:
  assumes "configuration_ok d"
  shows "fold (\<lambda>(_, tv) f. f(tv_name tv \<mapsto> tv_value tv)) d f = f ++ values_of d"
  using assms
proof (induction d arbitrary: f)
  case (Cons p d)
  obtain k tv where p: "p = (k, tv)" by force
  from Cons.prems have d: "configuration_ok d" "k = tv_name tv" "k \<notin> fst ` set d" by (auto simp: configuration_ok_def p)
  then have "values_of d k = None" using dom_values_of [of d] by (auto simp: domIff)
  moreover have "values_of (p # d) = (values_of d)(k \<mapsto> tv_value tv)" by (auto simp: values_of_def p sm_find_Cons)
  ultimately have "f(k \<mapsto> tv_value tv) ++ values_of d = f ++ values_of (p # d)"
    by (auto simp: map_add_def fun_eq_iff split: option.split)
  with Cons.IH [OF d(1)] d(2) show ?case by (simp add: p fun_upd_def)
qed simp

lemma copy_configuration_ok:
  assumes "order_ok (names_order H)" "configuration_ok c"
  shows "configuration_ok (copy_configuration H c) \<and> values_of (copy_configuration H c) = values_of c"
  using copy_fold [OF assms(1) configuration_ok_Nil, of c] fold_updates [OF assms(2)]
  by (simp add: copy_configuration_def)

lemma values_of_iff: "configuration_ok c \<Longrightarrow> values_of c k = Some v \<longleftrightarrow> (\<exists>tv. (k, tv) \<in> set c \<and> tv_value tv = v)"
  by (auto simp: values_of_def sm_find_def configuration_ok_def)

text \<open>Two configurations are equal for the code when they give the same names the same values.\<close>

lemma configuration_eq_values:
  assumes "configuration_ok c" "configuration_ok d"
  shows "configuration_eq c d \<longleftrightarrow> values_of c = values_of d"
proof -
  have len: "length e = card (dom (values_of e))" if "configuration_ok e" for e
    using that distinct_card [of "map fst e"] by (simp add: dom_values_of configuration_ok_def)
  have all: "list_all (\<lambda>(_, tv). case sm_find c (tv_name tv) of None \<Rightarrow> False | Some w \<Rightarrow> tv_value w = tv_value tv) d \<longleftrightarrow>
      values_of d \<subseteq>\<^sub>m values_of c"
  proof
    assume a: "list_all (\<lambda>(_, tv). case sm_find c (tv_name tv) of None \<Rightarrow> False | Some w \<Rightarrow> tv_value w = tv_value tv) d"
    show "values_of d \<subseteq>\<^sub>m values_of c" unfolding map_le_def
    proof
      fix k assume "k \<in> dom (values_of d)"
      then obtain v where v: "values_of d k = Some v" by auto
      then obtain tv where "(k, tv) \<in> set d" "tv_value tv = v" using values_of_iff [OF assms(2)] by blast
      then have "case sm_find c (tv_name tv) of None \<Rightarrow> False | Some w \<Rightarrow> tv_value w = v" "k = tv_name tv"
        using a assms(2) by (auto simp: list_all_iff configuration_ok_def)
      then show "values_of d k = values_of c k" unfolding v by (auto simp: values_of_def split: option.splits)
    qed
  next
    assume le: "values_of d \<subseteq>\<^sub>m values_of c"
    have "case sm_find c (tv_name tv) of None \<Rightarrow> False | Some w \<Rightarrow> tv_value w = tv_value tv" if "(k, tv) \<in> set d" for k tv
    proof -
      have "k = tv_name tv" using that assms(2) by (auto simp: configuration_ok_def)
      then have "values_of d (tv_name tv) = Some (tv_value tv)" using that values_of_iff [OF assms(2)] by blast
      with le have "values_of c (tv_name tv) = Some (tv_value tv)" by (metis domI map_le_def)
      then show ?thesis by (auto simp: values_of_def)
    qed
    then show "list_all (\<lambda>(_, tv). case sm_find c (tv_name tv) of None \<Rightarrow> False | Some w \<Rightarrow> tv_value w = tv_value tv) d"
      by (auto simp: list_all_iff)
  qed
  show ?thesis
  proof
    assume "configuration_eq c d"
    then have le: "values_of d \<subseteq>\<^sub>m values_of c" and "card (dom (values_of c)) = card (dom (values_of d))"
      using all len assms by (simp_all add: configuration_eq_def)
    moreover have "finite (dom (values_of c))" by (simp add: dom_values_of)
    ultimately have "dom (values_of d) = dom (values_of c)" using map_le_implies_dom_le card_subset_eq by metis
    with le show "values_of c = values_of d" by (metis map_le_antisym map_le_def)
  next
    assume "values_of c = values_of d"
    then show "configuration_eq c d" using all len assms by (simp add: configuration_eq_def)
  qed
qed

end
