(* ===== verification/Clusterer.thy ===== *)
theory Clusterer
  imports DendrogramCut TuningData
begin

text \<open>
  The clusterers of the tuning model generator (\<open>clustering/clusterer.h\<close>, \<open>clusterer.cc\<close>). Both group
  runtime situations by their configurations: \<open>equality_clusterer\<close> those with equal ones,
  \<open>hierarchical_clusterer\<close> through a dendrogram. A runtime situation is a pointer, its configuration is
  looked up with \<open>conf\<close>.
\<close>

type_synonym clusterer = "(rts_id \<Rightarrow> configuration) \<Rightarrow> rts_id uset \<Rightarrow> rts_id uset list comp"

section \<open>Equality\<close>

text \<open>
  \<open>std::unordered_map<configuration, std::unordered_set<rts*>>\<close>: an entry holds the hash code its key was
  inserted with, the key (a copy) and the set; two keys are the same when the codes agree and
  \<open>operator==\<close> says so.
\<close>

type_synonym bucket = "nat \<times> configuration \<times> rts_id uset"

definition same_key :: "nat \<Rightarrow> configuration \<Rightarrow> bucket \<Rightarrow> bool" where
  "same_key code c b = (case b of (code', key, _) \<Rightarrow> code' = code \<and> configuration_eq c key)"

primrec bucket_insert :: "rts_id hashing \<Rightarrow> nat \<Rightarrow> configuration \<Rightarrow> rts_id \<Rightarrow> bucket list \<Rightarrow> bucket list option" where
  "bucket_insert H code c r [] = None"
| "bucket_insert H code c r (b # bs) =
     (if same_key code c b then Some ((fst b, fst (snd b), us_insert (rts_order H) r (snd (snd b))) # bs)
      else map_option ((#) b) (bucket_insert H code c r bs))"

definition equality_step ::
  "rts_id hashing \<Rightarrow> (bucket list \<Rightarrow> bucket list) \<Rightarrow> (rts_id \<Rightarrow> configuration) \<Rightarrow> rts_id \<Rightarrow> bucket list \<Rightarrow> bucket list" where
  "equality_step H bucket_order conf r m =
     (case bucket_insert H (hash_configuration H (conf r)) (conf r) r m of
        Some m' \<Rightarrow> m'
      | None \<Rightarrow> bucket_order ((hash_configuration H (conf r), copy_configuration H (conf r),
                                us_insert (rts_order H) r []) # m))"

definition equality_cluster :: "rts_id hashing \<Rightarrow> (bucket list \<Rightarrow> bucket list) \<Rightarrow> clusterer" where
  "equality_cluster H bucket_order conf rtss =
     ret (map (\<lambda>(_, _, rs). rs) (fold (equality_step H bucket_order conf) rtss []))"

section \<open>Hierarchy\<close>

definition leaf_rts :: "dnode \<Rightarrow> rts_id comp" where
  "leaf_rts l = (case l of leaf r \<Rightarrow> ret r | branch _ _ _ _ \<Rightarrow> fail UB)"

definition hierarchical_cluster ::
  "layout \<Rightarrow> rts_id hashing \<Rightarrow> vector_distance \<Rightarrow> cluster_distance \<Rightarrow> clusterer" where
  "hierarchical_cluster L H vector_d cluster_d conf rtss =
     cbind (generate_dendrogram L (\<lambda>r. to_vector (conf r)) rtss vector_d cluster_d) (\<lambda>dgram.
     cbind (cut_best L (\<lambda>r. to_vector (conf r)) dgram vector_d) (\<lambda>nodes.
       cfold (\<lambda>node clusters.
           cbind (cfold (\<lambda>l cluster. cbind (leaf_rts l) (\<lambda>r. ret (us_insert (rts_order H) r cluster))) (leaves L node) [])
             (\<lambda>cluster. ret (clusters @ [cluster]))) nodes []))"

section \<open>Equality divides\<close>

definition hashing_ok :: "rts_id hashing \<Rightarrow> bool" where
  "hashing_ok H \<longleftrightarrow> order_ok (names_order H) \<and> order_ok (rts_order H)"

text \<open>What the entries say about the runtime situations of the sets.\<close>

definition bucket_ok :: "rts_id hashing \<Rightarrow> (rts_id \<Rightarrow> configuration) \<Rightarrow> bucket \<Rightarrow> bool" where
  "bucket_ok H conf b = (case b of (code, key, rs) \<Rightarrow> rs \<noteq> [] \<and> configuration_ok key \<and>
     (\<forall>r \<in> set rs. hash_configuration H (conf r) = code \<and> values_of (conf r) = values_of key))"

definition bucket_key :: "bucket \<Rightarrow> nat \<times> (string \<Rightarrow> int option)" where
  "bucket_key b = (fst b, values_of (fst (snd b)))"

definition grouping :: "rts_id hashing \<Rightarrow> (rts_id \<Rightarrow> configuration) \<Rightarrow> rts_id list \<Rightarrow> bucket list \<Rightarrow> bool" where
  "grouping H conf rtss m \<longleftrightarrow> (\<forall>b \<in> set m. bucket_ok H conf b) \<and> distinct (map bucket_key m) \<and>
     mset (concat (map (\<lambda>b. snd (snd b)) m)) = mset rtss"

lemma same_key_iff:
  assumes "bucket_ok H conf b" "configuration_ok c"
  shows "same_key code c b \<longleftrightarrow> bucket_key b = (code, values_of c)"
  using assms by (cases b) (auto simp: same_key_def bucket_key_def bucket_ok_def configuration_eq_values)

lemma bucket_insert_None:
  assumes "bucket_insert H code c r m = None"
  shows "\<forall>b \<in> set m. \<not> same_key code c b"
  using assms by (induction m) (auto split: if_splits)

lemma bucket_insert_Some:
  assumes "hashing_ok H" "\<forall>b \<in> set m. bucket_ok H conf b" "configuration_ok (conf r)" "code = hash_configuration H (conf r)"
    and "r \<notin> set (concat (map (\<lambda>b. snd (snd b)) m))" "bucket_insert H code (conf r) r m = Some m'"
  shows "(\<forall>b \<in> set m'. bucket_ok H conf b) \<and> map bucket_key m' = map bucket_key m \<and>
    mset (concat (map (\<lambda>b. snd (snd b)) m')) = add_mset r (mset (concat (map (\<lambda>b. snd (snd b)) m)))"
  using assms(2,5,6)
proof (induction m arbitrary: m')
  case (Cons b m)
  have ord: "order_ok (rts_order H)" using assms(1) by (simp add: hashing_ok_def)
  obtain co key s where b: "b = (co, key, s)" by (cases b) auto
  show ?case
  proof (cases "same_key code (conf r) b")
    case True
    with same_key_iff [of H conf b "conf r" code] Cons.prems(1) assms(3)
    have key: "co = code" "values_of key = values_of (conf r)" by (auto simp: b bucket_key_def)
    have m': "m' = (co, key, us_insert (rts_order H) r s) # m" using True Cons.prems(3) by (simp add: b)
    have "bucket_ok H conf (co, key, us_insert (rts_order H) r s)"
      using Cons.prems(1) key assms(4) ord by (auto simp: b bucket_ok_def) (metis empty_iff insert_iff set_empty set_us_insert)
    then show ?thesis using Cons.prems(1,2) ord by (simp add: m' b bucket_key_def mset_us_insert)
  next
    case False
    with Cons.prems(3) obtain m1 where m1: "bucket_insert H code (conf r) r m = Some m1" "m' = b # m1" by auto
    with Cons.IH [of m1] Cons.prems show ?thesis by simp
  qed
qed simp

lemma equality_step_grouping:
  assumes "hashing_ok H" "order_ok bo" "configuration_ok (conf r)" "r \<notin> set rs" "grouping H conf rs m"
  shows "grouping H conf (rs @ [r]) (equality_step H bo conf r m)"
proof (cases "bucket_insert H (hash_configuration H (conf r)) (conf r) r m")
  case (Some m')
  have "r \<notin> set (concat (map (\<lambda>b. snd (snd b)) m))" using assms(4,5) mset_eq_setD unfolding grouping_def by blast
  moreover have "\<forall>b \<in> set m. bucket_ok H conf b" using assms(5) by (simp add: grouping_def)
  ultimately show ?thesis using assms(5)
      bucket_insert_Some [where conf = conf and r = r and H = H and m = m and m' = m', OF assms(1) _ assms(3) refl _ Some]
    by (simp add: equality_step_def Some grouping_def)
next
  case None
  let ?b = "(hash_configuration H (conf r), copy_configuration H (conf r), us_insert (rts_order H) r [])"
  have ok: "order_ok (names_order H)" "order_ok (rts_order H)" using assms(1) by (simp_all add: hashing_ok_def)
  note copy = copy_configuration_ok [OF ok(1) assms(3)]
  have step: "equality_step H bo conf r m = bo (?b # m)" by (simp add: equality_step_def None)
  have b: "bucket_ok H conf ?b" using copy ok(2) by (simp add: bucket_ok_def)
  have "bucket_key e \<noteq> (hash_configuration H (conf r), values_of (conf r))" if "e \<in> set m" for e
    using that bucket_insert_None [OF None] same_key_iff [OF _ assms(3), of H conf e "hash_configuration H (conf r)"] assms(5)
    by (auto simp: grouping_def)
  moreover have "bucket_key ?b = (hash_configuration H (conf r), values_of (conf r))" using copy by (simp add: bucket_key_def)
  ultimately have "bucket_key ?b \<notin> set (map bucket_key m)" unfolding set_map by (metis imageE)
  then have "distinct (map bucket_key (?b # m))" using assms(5) by (simp add: grouping_def)
  moreover have "mset (map f (bo (?b # m))) = mset (map f (?b # m))" for f :: "bucket \<Rightarrow> 'x"
    using assms(2) by (simp only: mset_map order_mset)
  ultimately have "distinct (map bucket_key (bo (?b # m)))" using mset_eq_imp_distinct_iff by blast
  moreover have "mset (concat (map (\<lambda>b. snd (snd b)) (bo (?b # m)))) = mset (concat (map (\<lambda>b. snd (snd b)) (?b # m)))"
  proof -
    have "mset (concat (map f es)) = sum_mset (image_mset (\<lambda>e. mset (f e)) (mset es))" for f :: "bucket \<Rightarrow> rts_id list" and es
      by (induction es) simp_all
    then show ?thesis using assms(2) by simp
  qed
  moreover have "\<forall>e \<in> set (bo (?b # m)). bucket_ok H conf e"
    using b assms(2,5) unfolding grouping_def by simp
  ultimately show ?thesis using assms(5) ok(2) unfolding step grouping_def by simp
qed

lemma equality_grouping:
  assumes "hashing_ok H" "order_ok bo" "\<forall>r \<in> set rtss. configuration_ok (conf r)" "distinct rtss"
  shows "grouping H conf rtss (fold (equality_step H bo conf) rtss [])"
  using assms(3,4)
proof (induction rtss rule: rev_induct)
  case (snoc r rs)
  then show ?case using equality_step_grouping [OF assms(1,2), of conf r rs] by simp
qed (simp add: grouping_def)

lemma equality_cluster_parts:
  assumes "hashing_ok H" "order_ok bo" "\<forall>r \<in> set rtss. configuration_ok (conf r)" "distinct rtss"
  shows "total (equality_cluster H bo conf rtss) (\<lambda>cs. mset (concat cs) = mset rtss \<and>
    (\<forall>c \<in> set cs. c \<noteq> [] \<and> (\<forall>r \<in> set c. \<forall>s \<in> set c. configuration_eq (conf r) (conf s))) \<and>
    ((\<forall>r \<in> set rtss. \<forall>s \<in> set rtss. configuration_eq (conf r) (conf s) \<longrightarrow>
        hash_configuration H (conf r) = hash_configuration H (conf s)) \<longrightarrow>
     (\<forall>c \<in> set cs. \<forall>d \<in> set cs. \<forall>r \<in> set c. \<forall>s \<in> set d. configuration_eq (conf r) (conf s) \<longrightarrow> c = d)))"
proof -
  let ?m = "fold (equality_step H bo conf) rtss []"
  let ?cs = "map (\<lambda>b. snd (snd b)) ?m"
  have g: "grouping H conf rtss ?m" by (rule equality_grouping [OF assms])
  then have all: "mset (concat ?cs) = mset rtss" and bs: "\<forall>b \<in> set ?m. bucket_ok H conf b" and keys: "distinct (map bucket_key ?m)"
    by (simp_all add: grouping_def)
  have cs: "equality_cluster H bo conf rtss = ret ?cs" by (simp add: equality_cluster_def split_beta')
  have mem: "r \<in> set rtss" if "b \<in> set ?m" "r \<in> set (snd (snd b))" for b r
    using that mset_eq_setD [OF all] by auto
  have eq: "configuration_eq (conf r) (conf s) \<longleftrightarrow> values_of (conf r) = values_of (conf s)" if "r \<in> set rtss" "s \<in> set rtss" for r s
    using configuration_eq_values assms(3) that by blast
  have key: "bucket_key b = (hash_configuration H (conf r), values_of (conf r))" if "b \<in> set ?m" "r \<in> set (snd (snd b))" for b r
    using bs that by (auto simp: bucket_ok_def bucket_key_def split_beta')
  have "c \<noteq> [] \<and> (\<forall>r \<in> set c. \<forall>s \<in> set c. configuration_eq (conf r) (conf s))" if "c \<in> set ?cs" for c
  proof -
    from that obtain b where b: "b \<in> set ?m" "c = snd (snd b)" by auto
    with bs have "c \<noteq> []" by (auto simp: bucket_ok_def split_beta')
    moreover have "configuration_eq (conf r) (conf s)" if "r \<in> set c" "s \<in> set c" for r s
      using key [OF b(1), of r] key [OF b(1), of s] that mem [OF b(1)] eq by (simp add: b(2))
    ultimately show ?thesis by blast
  qed
  then have same: "\<forall>c \<in> set ?cs. c \<noteq> [] \<and> (\<forall>r \<in> set c. \<forall>s \<in> set c. configuration_eq (conf r) (conf s))" by (rule ballI)
  have "c = d" if codes: "\<forall>r \<in> set rtss. \<forall>s \<in> set rtss. configuration_eq (conf r) (conf s) \<longrightarrow>
        hash_configuration H (conf r) = hash_configuration H (conf s)"
      and cd: "c \<in> set ?cs" "d \<in> set ?cs" "r \<in> set c" "s \<in> set d" "configuration_eq (conf r) (conf s)" for c d r s
  proof -
    from cd obtain a b where ab: "a \<in> set ?m" "c = snd (snd a)" "b \<in> set ?m" "d = snd (snd b)" by auto
    with cd mem have rs: "r \<in> set rtss" "s \<in> set rtss" by auto
    with codes cd(5) have "hash_configuration H (conf r) = hash_configuration H (conf s)" by blast
    then have "bucket_key a = bucket_key b" using key [OF ab(1), of r] key [OF ab(3), of s] cd eq [OF rs] by (simp add: ab)
    with keys ab show ?thesis by (auto simp: distinct_map inj_on_def)
  qed
  then show ?thesis unfolding cs total_ret using all same by (intro conjI impI ballI) blast+
qed

text \<open>
  C29: Clustering by equality always returns, puts every runtime situation into exactly one cluster, makes no
  empty cluster and no cluster with two different configurations; and when equal configurations have equal
  hash codes (they do when they are iterated in the same order), runtime situations with equal configurations
  are in the same cluster.
\<close>

theorem equality_clusters:
  assumes "hashing_ok H" "order_ok bo" "\<forall>r \<in> set rtss. configuration_ok (conf r)" "distinct rtss"
  shows "total (equality_cluster H bo conf rtss) (\<lambda>cs. mset (concat cs) = mset rtss \<and>
    (\<forall>c \<in> set cs. c \<noteq> [] \<and> (\<forall>r \<in> set c. \<forall>s \<in> set c. configuration_eq (conf r) (conf s))) \<and>
    ((\<forall>r \<in> set rtss. \<forall>s \<in> set rtss. configuration_eq (conf r) (conf s) \<longrightarrow>
        hash_configuration H (conf r) = hash_configuration H (conf s)) \<longrightarrow>
     (\<forall>c \<in> set cs. \<forall>d \<in> set cs. \<forall>r \<in> set c. \<forall>s \<in> set d. configuration_eq (conf r) (conf s) \<longrightarrow> c = d)))"
  using assms by (rule equality_cluster_parts)

definition front_hashing :: "rts_id hashing" where
  "front_hashing = \<lparr>names_order = (\<lambda>xs. xs), params_order = (\<lambda>xs. xs), configs_order = (\<lambda>xs. xs),
     config_hash = (\<lambda>vs. length vs), rts_order = (\<lambda>xs. xs)\<rparr>"

definition unit_parameter :: tm_parameter where
  "unit_parameter = \<lparr>tmp_end = 9, tmp_step = 1, tmp_start = 0, tmp_name = ''threads''\<rparr>"

definition example_configuration :: "rts_id \<Rightarrow> configuration" where
  "example_configuration r = [(''threads'', \<lparr>tv_value = (if r = 0 then 0 else 1), tv_parameter = unit_parameter\<rparr>)]"

lemma example_configuration_ok [simp]: "configuration_ok (example_configuration r)"
  by (simp add: configuration_ok_def example_configuration_def tv_name_def unit_parameter_def)

lemma front_hashing_ok [simp]: "hashing_ok front_hashing"
  by (simp add: hashing_ok_def front_hashing_def)

theorem equality_clusters_witness:
  "\<exists>cs. equality_cluster front_hashing (\<lambda>bs. bs) example_configuration [0, 1, 2] = ret cs \<and> mset (concat cs) = {#0, 1, 2#} \<and>
     (\<forall>c \<in> set cs. \<forall>d \<in> set cs. 1 \<in> set c \<longrightarrow> 2 \<in> set d \<longrightarrow> c = d)"
proof -
  have eq: "configuration_eq (example_configuration 1) (example_configuration 2)" by code_simp
  have code: "hash_configuration front_hashing (example_configuration r) = 1" for r
    by (simp add: hash_configuration_def front_hashing_def example_configuration_def)
  have "distinct [0 :: rts_id, 1, 2]" by simp
  from equality_clusters [OF front_hashing_ok order_id _ this, of example_configuration] obtain cs where
    cs: "equality_cluster front_hashing (\<lambda>bs. bs) example_configuration [0, 1, 2] = ret cs" "mset (concat cs) = mset [0, 1, 2]"
    "\<forall>c \<in> set cs. \<forall>d \<in> set cs. \<forall>r \<in> set c. \<forall>s \<in> set d. configuration_eq (example_configuration r) (example_configuration s) \<longrightarrow> c = d"
    unfolding total_def code by auto
  then have "\<forall>c \<in> set cs. \<forall>d \<in> set cs. 1 \<in> set c \<longrightarrow> 2 \<in> set d \<longrightarrow> c = d" using eq by blast
  with cs(1,2) show ?thesis by (intro exI [of _ cs]) simp
qed

section \<open>Hierarchy divides or loses\<close>

lemma cluster_of_node:
  assumes "layout_ok L" "order_ok ord" "distinct (leaf_ids t)"
  shows "\<exists>c. cfold (\<lambda>l cluster. cbind (leaf_rts l) (\<lambda>r. ret (us_insert ord r cluster))) (leaves L t) [] = ret c \<and>
    mset c = mset (leaf_ids t)"
proof -
  have "\<exists>ids. leaves L t = map leaf ids \<and> mset ids = mset (leaf_ids t)"
  proof -
    have "set (leaves L t) = leaf ` set (leaf_ids t)" using mset_eq_setD [OF mset_leaves [OF assms(1,3)]] by simp
    then have "map leaf (map (hd \<circ> leaf_ids) (leaves L t)) = leaves L t" by (auto intro!: map_idI)
    moreover have "mset (map (hd \<circ> leaf_ids) (leaves L t)) = mset (map (hd \<circ> leaf_ids) (map leaf (leaf_ids t)))"
      using mset_leaves [OF assms(1,3)] by (simp only: mset_map)
    then have "mset (map (hd \<circ> leaf_ids) (leaves L t)) = mset (leaf_ids t)" by (simp add: comp_def)
    ultimately show ?thesis by metis
  qed
  then obtain ids where ids: "leaves L t = map leaf ids" "mset ids = mset (leaf_ids t)" by blast
  then have dist: "distinct ids" using assms(3) mset_eq_imp_distinct_iff by blast
  have "cfold (\<lambda>l cluster. cbind (leaf_rts l) (\<lambda>r. ret (us_insert ord r cluster))) (map leaf ids) s = ret (us_insert_range ord ids s)" for s
    by (induction ids arbitrary: s) (simp_all add: leaf_rts_def us_insert_range_def)
  moreover have "mset (us_insert_range ord ids []) = mset ids" using mset_us_insert_range [OF assms(2) dist, of "[]"] by simp
  ultimately show ?thesis using ids by simp
qed

lemma clusters_of_nodes:
  assumes "layout_ok L" "order_ok ord" "distinct (all_leaf_ids nodes)"
  shows "\<exists>cs. cfold (\<lambda>node clusters.
       cbind (cfold (\<lambda>l cluster. cbind (leaf_rts l) (\<lambda>r. ret (us_insert ord r cluster))) (leaves L node) [])
         (\<lambda>cluster. ret (clusters @ [cluster]))) nodes s = ret (s @ cs) \<and> mset (concat cs) = mset (all_leaf_ids nodes)"
  using assms(3)
proof (induction nodes arbitrary: s)
  case (Cons n nodes)
  from cluster_of_node [OF assms(1,2), of n] Cons.prems obtain c where
    c: "cfold (\<lambda>l cluster. cbind (leaf_rts l) (\<lambda>r. ret (us_insert ord r cluster))) (leaves L n) [] = ret c" "mset c = mset (leaf_ids n)" by auto
  from Cons.IH [of "s @ [c]"] Cons.prems obtain cs where
    "cfold (\<lambda>node clusters.
       cbind (cfold (\<lambda>l cluster. cbind (leaf_rts l) (\<lambda>r. ret (us_insert ord r cluster))) (leaves L node) [])
         (\<lambda>cluster. ret (clusters @ [cluster]))) nodes (s @ [c]) = ret ((s @ [c]) @ cs)" "mset (concat cs) = mset (all_leaf_ids nodes)"
    by auto
  with c show ?case by (intro exI [of _ "c # cs"]) simp
qed simp

text \<open>The situations a hierarchy is made of, and when its cuts are clean.\<close>

definition comparable :: "vector_distance \<Rightarrow> (rts_id \<Rightarrow> configuration) \<Rightarrow> rts_id list \<Rightarrow> dbl set \<Rightarrow> bool" where
  "comparable d conf rtss V \<longleftrightarrow> rtss \<noteq> [] \<and> distinct rtss \<and>
     (\<forall>r1 \<in> set rtss. \<forall>r2 \<in> set rtss. \<exists>v \<in> V. d (to_vector (conf r1)) (to_vector (conf r2)) = ret v)"

lemma hierarchical_cluster_parts:
  assumes L: "layout_ok L" and H: "order_ok (rts_order H)" and cmp: "comparable d conf rtss V" and cl: "closed_under V clstd"
    and apart: "\<And>t. generate_dendrogram L (\<lambda>r. to_vector (conf r)) rtss d clstd = ret t \<Longrightarrow> apart (heights t)"
    and cs: "hierarchical_cluster L H d clstd conf rtss = ret cs"
  shows "cs = [] \<or> mset (concat cs) = mset rtss"
proof -
  from cs obtain t nodes where t: "generate_dendrogram L (\<lambda>r. to_vector (conf r)) rtss d clstd = ret t"
    and nodes: "cut_best L (\<lambda>r. to_vector (conf r)) t d = ret nodes" and
    fold: "cfold (\<lambda>node clusters.
       cbind (cfold (\<lambda>l cluster. cbind (leaf_rts l) (\<lambda>r. ret (us_insert (rts_order H) r cluster))) (leaves L node) [])
         (\<lambda>cluster. ret (clusters @ [cluster]))) nodes [] = ret cs"
    by (auto simp: hierarchical_cluster_def cbind_eq_ret)
  have "ends (generate_dendrogram L (\<lambda>r. to_vector (conf r)) rtss d clstd) (\<lambda>t. mset (leaf_ids t) = mset rtss \<and> good_tree V t)
     (\<lambda>e. e = UB \<and> \<not> (\<forall>v \<in> V. dlt v DBL_MAX))"
    using cmp by (intro generate_dendrogram_ends [OF L _ _ cl]) (simp_all add: comparable_def)
  then have leaves: "mset (leaf_ids t) = mset rtss" and "counted t" by (simp_all add: t good_tree_def)
  then have dist: "distinct (leaf_ids t)" using cmp mset_eq_imp_distinct_iff unfolding comparable_def by blast
  from cut_best_divides [OF L \<open>counted t\<close> dist apart [OF t] nodes]
  show ?thesis
  proof
    assume "nodes = []"
    with fold show ?thesis by simp
  next
    assume ids: "mset (all_leaf_ids nodes) = mset (leaf_ids t)"
    then have "distinct (all_leaf_ids nodes)" using dist mset_eq_imp_distinct_iff by blast
    from clusters_of_nodes [OF L H this, of "[]"] fold ids leaves show ?thesis by auto
  qed
qed

text \<open>
  C32: When no two inner nodes of the dendrogram have the same distance, the hierarchical clusterer never
  splits or duplicates: what it returns is either no cluster at all or puts every runtime situation into
  exactly one cluster.
\<close>

theorem hierarchical_divides_or_loses:
  assumes "layout_ok L" and "order_ok (rts_order H)" and "comparable d conf rtss V" and "closed_under V clstd"
    and "\<And>t. generate_dendrogram L (\<lambda>r. to_vector (conf r)) rtss d clstd = ret t \<Longrightarrow> apart (heights t)"
    and "hierarchical_cluster L H d clstd conf rtss = ret cs"
  shows "cs = [] \<or> mset (concat cs) = mset rtss"
  using assms by (rule hierarchical_cluster_parts)

text \<open>Three runtime situations at the values 0, 1 and 4.\<close>

definition spread :: "rts_id \<Rightarrow> configuration" where
  "spread r = [(''threads'', \<lparr>tv_value = (if r = 0 then 0 else if r = 1 then 1 else 4), tv_parameter = unit_parameter\<rparr>)]"

theorem hierarchical_divides_or_loses_witness:
  "hierarchical_cluster front_layout front_hashing euclidean_distance complete_linkage spread [0, 1, 2] = ret [[0, 1], [2]] \<and>
   ([[0, 1], [2]] = ([] :: rts_id list list) \<or> mset (concat [[0, 1], [2]]) = mset [0 :: rts_id, 1, 2])"
proof
  show run: "hierarchical_cluster front_layout front_hashing euclidean_distance complete_linkage spread [0, 1, 2] = ret [[0, 1], [2]]"
    by code_simp
  have tree: "generate_dendrogram front_layout (\<lambda>r. to_vector (spread r)) [0, 1, 2] euclidean_distance complete_linkage =
      ret (branch (dbl_of_int 4) 3 (leaf 2) (branch (dbl_of_int 1) 2 (leaf 0) (leaf 1)))" by code_simp
  have "\<not> is_nan (dbl_of_int 4) \<and> \<not> is_nan (dbl_of_int 1) \<and> dlt (dbl_of_int 1) (dbl_of_int 4)" unfolding is_nan_def by code_simp
  then have heights: "apart (heights (branch (dbl_of_int 4) 3 (leaf 2) (branch (dbl_of_int 1) 2 (leaf 0) (leaf 1))))"
    by (auto simp: apart_def dkey_def dlt_iff)
  have apart: "apart (heights t)"
    if "generate_dendrogram front_layout (\<lambda>r. to_vector (spread r)) [0, 1, 2] euclidean_distance complete_linkage = ret t" for t
  proof -
    from that tree have "t = branch (dbl_of_int 4) 3 (leaf 2) (branch (dbl_of_int 1) 2 (leaf 0) (leaf 1))" by simp
    with heights show ?thesis by simp
  qed
  have "comparable euclidean_distance spread [0, 1, 2] UNIV"
    by (auto simp: comparable_def euclidean_distance_def to_vector_def spread_def)
  from hierarchical_divides_or_loses [OF front_layout_ok _ this _ apart run]
  show "[[0, 1], [2]] = ([] :: rts_id list list) \<or> mset (concat [[0, 1], [2]]) = mset [0 :: rts_id, 1, 2]"
    by (simp add: closed_under_def front_hashing_def)
qed

section \<open>Two runtime situations\<close>

lemma vec_add_length: "length v = n \<Longrightarrow> length w = n \<Longrightarrow> \<exists>s. vec_add v w = ret s \<and> length s = n"
  by (simp add: vec_add_def vec_zip_def)

lemma average_of_ret:
  assumes "es \<noteq> []" "\<forall>e \<in> set es. \<exists>r. e = leaf r \<and> length (vec r) = n"
  shows "total (average_of vec es) (\<lambda>v. length v = n)"
proof -
  obtain e fs where es: "es = e # fs" using assms(1) by (cases es) auto
  have leaf: "\<exists>v. leaf_vector vec f = ret v \<and> length v = n" if "f \<in> set es" for f
    using assms(2) that by (auto simp: leaf_vector_def)
  then obtain v where v: "leaf_vector vec e = ret v" "length v = n" by (auto simp: es)
  have "total (cfold (\<lambda>e v. cbind (leaf_vector vec e) (\<lambda>w. vec_add v w)) fs v) (\<lambda>v. length v = n)"
  proof (rule total_cfold)
    fix f and s :: "dbl list" assume "f \<in> set fs" "length s = n"
    moreover obtain w where "leaf_vector vec f = ret w" "length w = n" using leaf \<open>f \<in> set fs\<close> by (auto simp: es)
    ultimately show "total (cbind (leaf_vector vec f) (\<lambda>w. vec_add s w)) (\<lambda>v. length v = n)"
      using vec_add_length [of s n w] by (auto simp: total_def)
  qed (rule v(2))
  then show ?thesis by (auto simp: average_of_def es v total_def vec_scale_def vec_mul_def vec_zip_def)
qed

lemma bcv_of_leaves:
  assumes "order_ok (node_order L)" "clusters \<noteq> []" "\<forall>c \<in> set clusters. \<exists>r. c = leaf r \<and> length (vec r) = n"
    and "\<And>v w. length v = length w \<Longrightarrow> \<exists>x. d v w = ret x"
  shows "\<exists>x. bcv L vec d clusters = ret x"
proof -
  have "set (fold (\<lambda>c all. us_insert_range (node_order L) (leaves L c) all) cs s) = set cs \<union> set s"
    if "\<forall>c \<in> set cs. \<exists>r. c = leaf r" for cs s
    using that by (induction cs arbitrary: s) (auto simp: assms(1))
  from this [of clusters "[]"] assms(3)
  have all: "set (fold (\<lambda>c all. us_insert_range (node_order L) (leaves L c) all) clusters []) = set clusters" by auto
  then have "fold (\<lambda>c all. us_insert_range (node_order L) (leaves L c) all) clusters [] \<noteq> []" using assms(2) by (metis set_empty)
  then have "total (average_all L vec clusters) (\<lambda>v. length v = n)"
    unfolding average_all_def using assms(3) all by (intro average_of_ret) auto
  then obtain o' where o': "average_all L vec clusters = ret o'" "length o' = n" by (auto simp: total_def)
  have "total (cfold (\<lambda>c sum. cbind (average L vec c) (\<lambda>avg. cbind (d avg o') (\<lambda>x.
           ret (dadd sum (dmul (size_dbl (nelements c)) (dmul x x)))))) clusters (dbl_of_int 0)) (\<lambda>_. True)"
  proof (rule total_cfold)
    fix c s assume "c \<in> set clusters"
    with assms(3) obtain r where c: "c = leaf r" "length (vec r) = n" by auto
    then have "total (average L vec c) (\<lambda>v. length v = n)"
      unfolding average_def by (intro average_of_ret) (auto simp: assms(1))
    then obtain v where v: "average L vec c = ret v" "length v = n" by (auto simp: total_def)
    with assms(4) [of v o'] o'(2) obtain x where "d v o' = ret x" by auto
    with v(1) show "total (cbind (average L vec c) (\<lambda>avg. cbind (d avg o') (\<lambda>x.
           ret (dadd s (dmul (size_dbl (nelements c)) (dmul x x)))))) (\<lambda>_. True)" by simp
  qed simp
  then show ?thesis by (simp add: bcv_def o'(1) total_def)
qed

lemma two_leaf_tree:
  assumes "mset (leaf_ids t) = {#a, b#}" "counted t"
  shows "\<exists>h a' b'. t = branch h 2 (leaf a') (leaf b') \<and> {a', b'} = {a, b}"
proof -
  have "length (leaf_ids t) = 2" using mset_eq_length [of "leaf_ids t" "[a, b]"] assms(1) by simp
  then obtain h n l r where t: "t = branch h n l r" by (cases t) auto
  have "length (leaf_ids l) = 1 \<and> length (leaf_ids r) = 1"
    using \<open>length (leaf_ids t) = 2\<close> leaf_ids_nonempty [of l] leaf_ids_nonempty [of r] unfolding t
    by (cases "leaf_ids l"; cases "leaf_ids r") auto
  moreover have "\<exists>i. u = leaf i" if "length (leaf_ids u) = 1" for u
    using that leaf_ids_nonempty by (cases u) (auto simp: add_is_1)
  ultimately obtain a' b' where "l = leaf a'" "r = leaf b'" by blast
  moreover from this have "mset [a', b'] = mset [a, b]" using assms(1) by (simp add: t)
  then have "set [a', b'] = set [a, b]" by (rule mset_eq_setD)
  ultimately show ?thesis using assms(2) by (auto simp: t)
qed

text \<open>
  C33: With exactly two runtime situations the hierarchical clusterer finds no cluster and loses both: the
  index of the only cut is zero divided by zero. (The distance is any that is defined on vectors of the same
  length, and zero between a configuration and the average of it alone.)
\<close>

theorem hierarchical_loses_two:
  assumes L: "layout_ok L" and ab: "a \<noteq> b" and V: "closed_under V clstd" "\<forall>v \<in> V. dlt v DBL_MAX"
    and cmp: "comparable d conf [a, b] V" and len: "length (conf a) = length (conf b)"
    and d: "\<And>v w. length v = length w \<Longrightarrow> \<exists>x. d v w = ret x"
    and self: "\<forall>r \<in> {a, b}. d (to_vector (conf r)) (map (\<lambda>x. dmul x (ddiv (dbl_of_int 1) (size_dbl 1))) (to_vector (conf r))) = ret (dbl_of_int 0)"
  shows "hierarchical_cluster L H d clstd conf [a, b] = ret []"
proof -
  let ?vec = "\<lambda>r. to_vector (conf r)"
  have "ends (generate_dendrogram L ?vec [a, b] d clstd) (\<lambda>t. mset (leaf_ids t) = mset [a, b] \<and> good_tree V t)
     (\<lambda>e. e = UB \<and> \<not> (\<forall>v \<in> V. dlt v DBL_MAX))"
    using cmp by (intro generate_dendrogram_ends [OF L _ _ V(1)]) (simp_all add: comparable_def)
  then have "total (generate_dendrogram L ?vec [a, b] d clstd) (\<lambda>t. mset (leaf_ids t) = mset [a, b] \<and> good_tree V t)"
    using V(2) by (simp add: ends_total)
  then obtain t where t: "generate_dendrogram L ?vec [a, b] d clstd = ret t" "mset (leaf_ids t) = {#a, b#}" "counted t"
    by (auto simp: total_def good_tree_def)
  from two_leaf_tree [OF t(2,3)] obtain h a' b' where t': "t = branch h 2 (leaf a') (leaf b')" "{a', b'} = {a, b}" by blast
  then have ab': "a' \<noteq> b'" using ab by auto
  have "set (leaves L t) = {leaf a', leaf b'}"
    using mset_eq_setD [OF mset_leaves [OF L, of t]] ab' by (simp add: t')
  moreover from this have "leaves L t \<noteq> []" by (intro notI) simp
  moreover have "length (?vec r) = length (conf a)" if "r \<in> {a', b'}" for r
    using that len unfolding t'(2) by (auto simp: to_vector_def)
  ultimately have "\<exists>x. bcv L ?vec d (leaves L t) = ret x"
    using bcv_of_leaves [OF layout_order [OF L] _ _ d, of "leaves L t" ?vec "length (conf a)"] by simp
  then obtain x where "bcv L ?vec d (leaves L (branch h 2 (leaf a') (leaf b'))) = ret x" by (auto simp: t'(1))
  from two_leaves_no_cluster [OF L ab' _ this] self have "cut_best L ?vec t d = ret []" by (simp add: t')
  then show ?thesis by (simp add: hierarchical_cluster_def t(1))
qed

theorem hierarchical_loses_two_witness:
  "hierarchical_cluster front_layout front_hashing euclidean_distance complete_linkage example_configuration [0, 1] = ret []"
proof (rule hierarchical_loses_two [OF front_layout_ok _ complete_linkage_unit unit_below_max])
  have vec: "to_vector (example_configuration r) = example_vectors r" for r
    by (simp add: to_vector_def example_configuration_def example_vectors_def)
  show "comparable euclidean_distance example_configuration [0, 1] unit_distances"
    using euclidean_unit by (simp add: comparable_def vec)
  have "list_all (\<lambda>r. euclidean_distance (example_vectors r)
      (map (\<lambda>x. dmul x (ddiv (dbl_of_int 1) (size_dbl 1))) (example_vectors r)) = ret (dbl_of_int 0)) [0, 1]" by code_simp
  then show "\<forall>r \<in> {0, 1}. euclidean_distance (to_vector (example_configuration r))
      (map (\<lambda>x. dmul x (ddiv (dbl_of_int 1) (size_dbl 1))) (to_vector (example_configuration r))) = ret (dbl_of_int 0)"
    by (simp add: vec)
qed (simp_all add: example_configuration_def euclidean_distance_def)

end
