(* ===== verification/TuningModelGen.thy ===== *)
theory TuningModelGen
  imports Clusterer DataModel
begin

text \<open>
  Generating and merging tuning models (\<open>frontend/src/tuning_model/src\<close>: \<open>tuning_model.cc\<close>,
  \<open>conversion.cc\<close>, \<open>phase.cc\<close>, \<open>merge.cc\<close>, with \<open>identifiers.h\<close>, \<open>region.h\<close>, \<open>callpath.h\<close>, \<open>rts.h\<close>,
  \<open>scenario.h\<close>): the significant runtime situations of the call tree become runtime situations of the
  model with their best configuration, are clustered, and every cluster becomes a scenario. The text the
  model is written as (\<open>serialize\<close>) is a library's. The call tree (\<open>aagent/include/rts.h\<close>) is a tree
  of nodes; a pointer to a node is the path to it, so that following \<open>getParent()\<close> is walking back the path:
  this holds for every tree whose parent pointers are right (\<open>AgentTree\<close> shows it for the agent's), not after the
  split by clusters (\<open>ClusterSplit\<close>).
\<close>

section \<open>The call tree\<close>

datatype parameter_node_type = NODE_PARAMETER_STRING | NODE_PARAMETER_INTEGER | NODE_PARAMETER_UNSIGNEDINT

record parameter_t =
  param_name :: string
  param_value :: string
  param_type :: parameter_node_type

datatype config_type =
    STATIC_WORST | STATIC_BEST | RTS_BEST | STATIC_NORMALIZED_BEST | STATIC_NORMALIZED_WORST
  | RTS_NORMALIZED_BEST | TUNING_RESULT_STATIC | TUNING_RESULT_RTS

record tuning_result =
  tuning_parameter_value_mapping :: "(tp_ptr, int) smap"
  objective_value :: dbl
  objectives :: "(string, dbl) smap"
  extraInfo :: "(string, dbl) smap"
  phase_identifier_range :: "(string, dbl \<times> dbl) umap"
  phases_in_cluster :: "32 word list"

record code_region =
  fileName :: string
  firstLine :: int
  reg_name :: string
  is_significant :: bool

record rts_node =
  node_address :: nat
  isValidRts :: bool
  parent_scorep_id :: int
  reg :: "code_region option"
  parameter :: "parameter_t list"
  tuning_plugin_result :: "(string, (config_type, tuning_result option) smap) smap"

datatype rts_tree = RtsNode (rts_info: rts_node) (getChildren: "rts_tree list")

text \<open>The nodes from the root to the one pointed at.\<close>

type_synonym rts_pointer = "rts_node list"

section \<open>The runtime situations of the model\<close>

record 'v tm_identifier =
  id_name :: string
  id_value :: 'v

record identifiers =
  ints :: "int tm_identifier uset"
  uints :: "int tm_identifier uset"
  strings :: "string tm_identifier uset"

definition no_identifiers :: identifiers where
  "no_identifiers = \<lparr>ints = [], uints = [], strings = []\<rparr>"

text \<open>\<open>operator==\<close> of unordered sets: as many elements, each in the other.\<close>

definition us_eq :: "'a uset \<Rightarrow> 'a uset \<Rightarrow> bool" where
  "us_eq s t \<longleftrightarrow> length s = length t \<and> list_all (\<lambda>x. x \<in> set t) s"

definition identifiers_eq :: "identifiers \<Rightarrow> identifiers \<Rightarrow> bool" where
  "identifiers_eq i j \<longleftrightarrow> us_eq (ints i) (ints j) \<and> us_eq (uints i) (uints j) \<and> us_eq (strings i) (strings j)"

record region_id =
  rid_line :: int
  rid_file :: string
  rid_name :: string

record callpath_element =
  cpe_id :: region_id
  cpe_ids :: identifiers

type_synonym callpath = "callpath_element list"

definition callpath_element_eq :: "callpath_element \<Rightarrow> callpath_element \<Rightarrow> bool" where
  "callpath_element_eq a b \<longleftrightarrow> cpe_id a = cpe_id b \<and> identifiers_eq (cpe_ids a) (cpe_ids b)"

definition callpath_eq :: "callpath \<Rightarrow> callpath \<Rightarrow> bool" where
  "callpath_eq a b \<longleftrightarrow> list_all2 callpath_element_eq a b"

record rtsid =
  rtsid_callpath :: callpath
  rtsid_iid :: identifiers
  rtsid_region :: region_id

definition rtsid_eq :: "rtsid \<Rightarrow> rtsid \<Rightarrow> bool" where
  "rtsid_eq a b \<longleftrightarrow> identifiers_eq (rtsid_iid a) (rtsid_iid b) \<and> rtsid_region a = rtsid_region b \<and>
     callpath_eq (rtsid_callpath a) (rtsid_callpath b)"

record tm_rts =
  rts_rtsid :: rtsid
  rts_exectime :: dbl
  rts_configuration :: configuration

record tm_scenario =
  scenario_config :: configuration
  scenario_rtss :: "tm_rts uset"

text \<open>
  How the generator's hash containers iterate. \<open>rtsid_code\<close> is the hash of the debug strings of an
  \<open>rtsid\<close>, which list the identifiers in the order of iteration.
\<close>

record orders =
  hashing_of :: "rts_id hashing"
  ints_order :: "int tm_identifier list \<Rightarrow> int tm_identifier list"
  strings_order :: "string tm_identifier list \<Rightarrow> string tm_identifier list"
  pointers_order :: "rts_pointer list \<Rightarrow> rts_pointer list"
  rtss_order :: "tm_rts list \<Rightarrow> tm_rts list"
  scenarios_order :: "tm_scenario list \<Rightarrow> tm_scenario list"
  rtsid_code :: "rtsid \<Rightarrow> nat"

section \<open>Conversion\<close>

text \<open>
  \<open>convert<T>( s )\<close> reads a number from a stream: nothing to read leaves the result indeterminate, no number
  gives zero, one that does not fit the nearest bound; a negative one wraps for the unsigned type.
\<close>

definition convert_int64 :: "string \<Rightarrow> int comp" where
  "convert_int64 s = check (dropWhile is_space s \<noteq> []) UB
     (ret (max (- (2 ^ 63)) (min (2 ^ 63 - 1) (fst (strtol10 s)))))"

definition convert_uint64 :: "string \<Rightarrow> int comp" where
  "convert_uint64 s = check (dropWhile is_space s \<noteq> []) UB
     (let v = fst (strtol10 s) in ret (if 2 ^ 64 \<le> \<bar>v\<bar> then 2 ^ 64 - 1 else v mod 2 ^ 64))"

definition create_region_id :: "rts_node \<Rightarrow> region_id comp" where
  "create_region_id n =
     (case reg n of None \<Rightarrow> fail UB
      | Some r \<Rightarrow> ret \<lparr>rid_line = firstLine r mod 2 ^ 64, rid_file = fileName r, rid_name = reg_name r\<rparr>)"

definition add_identifier :: "orders \<Rightarrow> parameter_t \<Rightarrow> identifiers \<Rightarrow> identifiers comp" where
  "add_identifier E p ids =
     (case param_type p of
        NODE_PARAMETER_UNSIGNEDINT \<Rightarrow> cbind (convert_uint64 (param_value p)) (\<lambda>v.
          ret (ids\<lparr>uints := us_insert (ints_order E) \<lparr>id_name = param_name p, id_value = v\<rparr> (uints ids)\<rparr>))
      | NODE_PARAMETER_INTEGER \<Rightarrow> cbind (convert_int64 (param_value p)) (\<lambda>v.
          ret (ids\<lparr>ints := us_insert (ints_order E) \<lparr>id_name = param_name p, id_value = v\<rparr> (ints ids)\<rparr>))
      | NODE_PARAMETER_STRING \<Rightarrow>
          ret (ids\<lparr>strings := us_insert (strings_order E) \<lparr>id_name = param_name p, id_value = param_value p\<rparr> (strings ids)\<rparr>))"

definition create_identifiers :: "orders \<Rightarrow> parameter_t list \<Rightarrow> identifiers comp" where
  "create_identifiers E ps = cfold (add_identifier E) ps no_identifiers"

text \<open>The elements of the parents come first.\<close>

definition create_callpath :: "orders \<Rightarrow> rts_pointer \<Rightarrow> callpath comp" where
  "create_callpath E rts =
     cfold (\<lambda>n cp. cbind (create_region_id n) (\<lambda>id. cbind (create_identifiers E (parameter n)) (\<lambda>ids.
       ret (cp @ [\<lparr>cpe_id = id, cpe_ids = ids\<rparr>])))) rts []"

text \<open>\<open>at( RTS_BEST )\<close> and the object it points to.\<close>

definition best_result :: "config_type \<Rightarrow> (config_type, tuning_result option) smap \<Rightarrow> tuning_result comp" where
  "best_result t m = cbind (sm_at m t) (\<lambda>r. case r of None \<Rightarrow> fail UB | Some x \<Rightarrow> ret x)"

type_synonym parameters = "(string, tm_parameter) umap"

definition add_parameter :: "orders \<Rightarrow> tp_store \<Rightarrow> tp_ptr \<Rightarrow> parameters \<Rightarrow> parameters comp" where
  "add_parameter E heap p tps =
     (let tp = heap p
      in if sm_has tps (tp_name tp) then fail TmgException
         else cbind (new_tm_parameter (tp_name tp) (rangeFrom tp) (rangeStep tp) (rangeTo tp)) (\<lambda>q.
                ret (um_put (names_order (hashing_of E)) (tp_name tp) q tps)))"

definition create_tuning_parameters :: "orders \<Rightarrow> tp_store \<Rightarrow> rts_node \<Rightarrow> parameters comp" where
  "create_tuning_parameters E heap n =
     cfold (\<lambda>(_, results) tps. cbind (best_result RTS_BEST results) (\<lambda>best.
         cfold (\<lambda>(p, _). add_parameter E heap p) (tuning_parameter_value_mapping best) tps))
       (tuning_plugin_result n) []"

definition add_setting :: "orders \<Rightarrow> tp_store \<Rightarrow> parameters \<Rightarrow> tp_ptr \<times> int \<Rightarrow> configuration \<Rightarrow> configuration comp" where
  "add_setting E heap tps tr c =
     (case sm_find tps (tp_name (heap (fst tr))) of None \<Rightarrow> fail TmgException
      | Some q \<Rightarrow> cbind (new_tm_value q (snd tr)) (\<lambda>tv. ret (add_tuning_value (hashing_of E) tv c)))"

definition create_configuration :: "orders \<Rightarrow> tp_store \<Rightarrow> rts_node \<Rightarrow> parameters \<Rightarrow> configuration comp" where
  "create_configuration E heap n tps =
     cbind (cfold (\<lambda>(_, results) c. cbind (best_result RTS_BEST results) (\<lambda>best.
              cfold (add_setting E heap tps) (tuning_parameter_value_mapping best) c))
            (tuning_plugin_result n) []) (\<lambda>c.
       check (length tps = length c) TmgException (ret c))"

definition exectime :: "rts_node \<Rightarrow> dbl comp" where
  "exectime n =
     (case tuning_plugin_result n of
        [(_, results)] \<Rightarrow> cbind (best_result RTS_BEST results) (\<lambda>best.
          ret (case sm_find (extraInfo best) ''ExecTime'' of None \<Rightarrow> dbl_of_int 0 | Some t \<Rightarrow> t))
      | _ \<Rightarrow> ret (dbl_of_int 0))"

definition create_input_identifier :: "orders \<Rightarrow> (string, string) umap \<Rightarrow> identifiers" where
  "create_input_identifier E input_ids =
     fold (\<lambda>(k, v) ids. ids\<lparr>strings := us_insert (strings_order E) \<lparr>id_name = k, id_value = v\<rparr> (strings ids)\<rparr>)
       input_ids no_identifiers"

text \<open>The region objects differ by their identifiers only, so the map of them is the identifier itself.\<close>

definition convert_rts ::
  "orders \<Rightarrow> tp_store \<Rightarrow> identifiers \<Rightarrow> parameters \<Rightarrow> rts_pointer \<Rightarrow> tm_rts uset \<Rightarrow> tm_rts uset comp" where
  "convert_rts E heap iid tps rts new_rtss =
     check (rts \<noteq> []) UB
     (cbind (create_region_id (last rts)) (\<lambda>rid.
      cbind (create_callpath E rts) (\<lambda>cp.
      cbind (create_configuration E heap (last rts) tps) (\<lambda>c.
      cbind (exectime (last rts)) (\<lambda>t.
        ret (rtss_order E (\<lparr>rts_rtsid = \<lparr>rtsid_callpath = cp, rtsid_iid = iid, rtsid_region = rid\<rparr>,
          rts_exectime = t, rts_configuration = c\<rparr> # new_rtss)))))))"

definition convert_rtss :: "orders \<Rightarrow> tp_store \<Rightarrow> rts_pointer uset \<Rightarrow> (string, string) umap \<Rightarrow> tm_rts uset comp" where
  "convert_rtss E heap old_rtss input_ids =
     (let iid = create_input_identifier E input_ids
      in cbind (cfold (\<lambda>rts _. check (rts \<noteq> []) UB (cbind (create_region_id (last rts)) (\<lambda>_. ret ()))) old_rtss ()) (\<lambda>_.
         case old_rtss of [] \<Rightarrow> fail UB
         | rts # _ \<Rightarrow> cbind (create_tuning_parameters E heap (last rts)) (\<lambda>tps.
             cfold (convert_rts E heap iid tps) old_rtss [])))"

section \<open>Generation\<close>

text \<open>The guard dereferences the region of a node only when the other conditions leave it open.\<close>

definition keeps :: "rts_node \<Rightarrow> bool comp" where
  "keeps n =
     (if isValidRts n \<and> tuning_plugin_result n \<noteq> []
      then if parent_scorep_id n = 0 then ret True
           else case reg n of None \<Rightarrow> fail UB | Some r \<Rightarrow> ret (is_significant r)
      else ret False)"

fun filter_into :: "orders \<Rightarrow> rts_pointer \<Rightarrow> rts_tree \<Rightarrow> rts_pointer uset \<Rightarrow> rts_pointer uset comp" where
  "filter_into E up (RtsNode n children) rtss =
     cbind (keeps n) (\<lambda>k.
       cfold (filter_into E (up @ [n])) children (if k then us_insert (pointers_order E) (up @ [n]) rtss else rtss))"

definition filter_rtss :: "orders \<Rightarrow> rts_tree \<Rightarrow> rts_pointer uset comp" where
  "filter_rtss E tree = filter_into E [] tree []"

text \<open>A scenario copies its runtime situations and selects its configuration from theirs.\<close>

definition new_scenario :: "orders \<Rightarrow> selector \<Rightarrow> tm_rts uset \<Rightarrow> tm_scenario comp" where
  "new_scenario E select rtss =
     (let (cs, copies) = fold (\<lambda>r (cs, copies). (configs_order (hashing_of E) (rts_configuration r # cs), rtss_order E (r # copies)))
                            rtss ([], [])
      in cbind (select cs) (\<lambda>c. ret \<lparr>scenario_config = c, scenario_rtss = copies\<rparr>))"

definition create_scenarios :: "orders \<Rightarrow> (rts_id \<Rightarrow> tm_rts) \<Rightarrow> selector \<Rightarrow> rts_id uset list \<Rightarrow> tm_scenario uset comp" where
  "create_scenarios E heap select clusters =
     cfold (\<lambda>cluster scenarios. cbind (new_scenario E select (map heap cluster)) (\<lambda>s.
       ret (scenarios_order E (s # scenarios)))) clusters []"

text \<open>Clustering the runtime situations of a set: their pointers are their places in it.\<close>

definition cluster_rtss :: "clusterer \<Rightarrow> tm_rts uset \<Rightarrow> rts_id uset list comp" where
  "cluster_rtss cluster rtss = cluster (\<lambda>r. rts_configuration (rtss ! r)) [0..<length rtss]"

type_synonym phase_data = "32 word list \<times> (string, dbl \<times> dbl) umap"

definition create_phase_data :: "rts_node \<Rightarrow> phase_data comp" where
  "create_phase_data n =
     (case tuning_plugin_result n of [] \<Rightarrow> fail UB
      | (_, results) # _ \<Rightarrow> cbind (best_result STATIC_BEST results) (\<lambda>best.
          ret (phases_in_cluster best, phase_identifier_range best)))"

definition extract_cluster_phases :: "(int list \<Rightarrow> int list) \<Rightarrow> rts_tree \<Rightarrow> (int, phase_data) umap comp" where
  "extract_cluster_phases ord tree =
     cfold (\<lambda>child pd. case parameter (rts_info child) of
         [p] \<Rightarrow> cbind (std_stoi (param_value p)) (\<lambda>id. cbind (create_phase_data (rts_info child)) (\<lambda>d.
                  ret (um_put ord id d pd)))
       | _ \<Rightarrow> ret pd) (getChildren tree) []"

text \<open>Everything up to the call of \<open>serialize\<close>.\<close>

definition generate_tuning_model ::
  "orders \<Rightarrow> (int list \<Rightarrow> int list) \<Rightarrow> tp_store \<Rightarrow> rts_tree \<Rightarrow> (string, string) umap \<Rightarrow> clusterer \<Rightarrow> selector \<Rightarrow>
     (tm_scenario uset \<times> (int, phase_data) umap) comp" where
  "generate_tuning_model E ord heap tree input_ids cluster select =
     cbind (filter_rtss E tree) (\<lambda>old_rtss.
     cbind (convert_rtss E heap old_rtss input_ids) (\<lambda>new_rtss.
     cbind (cluster_rtss cluster new_rtss) (\<lambda>clusters.
     cbind (create_scenarios E ((!) new_rtss) select clusters) (\<lambda>scenarios.
     cbind (extract_cluster_phases ord tree) (\<lambda>cphases. ret (scenarios, cphases))))))"

section \<open>Merging\<close>

definition merge_step :: "orders \<Rightarrow> tm_rts \<Rightarrow> (nat \<times> rtsid) list \<times> tm_rts uset \<Rightarrow> (nat \<times> rtsid) list \<times> tm_rts uset" where
  "merge_step E r s =
     (if list_ex (\<lambda>(code, id). code = rtsid_code E (rts_rtsid r) \<and> rtsid_eq (rts_rtsid r) id) (fst s) then s
      else ((rtsid_code E (rts_rtsid r), rts_rtsid r) # fst s, rtss_order E (r # snd s)))"

definition rtss_of :: "orders \<Rightarrow> tm_scenario \<Rightarrow> tm_rts uset" where
  "rtss_of E scnr = fold (\<lambda>r s. rtss_order E (r # s)) (scenario_rtss scnr) []"

definition merge_models :: "orders \<Rightarrow> tm_scenario uset list \<Rightarrow> selector \<Rightarrow> clusterer \<Rightarrow> tm_scenario uset comp" where
  "merge_models E scnrvector select cluster =
     (let rtss = snd (fold (\<lambda>scnrset s. fold (\<lambda>scnr s. fold (merge_step E) (rtss_of E scnr) s) scnrset s)
                        scnrvector ([], []))
      in cbind (cluster_rtss cluster rtss) (\<lambda>clusters. create_scenarios E ((!) rtss) select clusters))"

end
