(* ===== verification/WireText.thy ===== *)
theory WireText
  imports CString "HOL-Library.Sublist"
begin

text \<open>
  How a name travels in the XML text of a call-tree node or a property (\<open>util/src/string_helper.cc\<close>,
  \<open>aagent/include/xml_psc_tags.h\<close>): the writer replaces blanks and markup by codes, the reader replaces the codes
  after the XML library has read the text. The library is an argument, with what XML says of its predefined
  entities as a hypothesis. A name comes back exactly when no code was part of it.
\<close>

section \<open>Replacing\<close>

text \<open>\<open>boost::regex_replace\<close> with a pattern of ordinary characters; the program has no empty one.\<close>

function replace_all :: "string \<Rightarrow> string \<Rightarrow> string \<Rightarrow> string" where
  "replace_all pat rep [] = []"
| "replace_all pat rep (c # s) =
     (if pat \<noteq> [] \<and> take (length pat) (c # s) = pat then rep @ replace_all pat rep (drop (length pat - 1) s)
      else c # replace_all pat rep s)"
  by pat_completeness auto
termination
  by (relation "measure (\<lambda>(p, r, s). length s)") auto

definition formatString :: "string \<Rightarrow> string list \<Rightarrow> string list \<Rightarrow> string" where
  "formatString str reg_expr format = fold (\<lambda>(p, f) s. replace_all p f s) (zip reg_expr format) str"

definition xml_plain :: "string list" where
  "xml_plain = ['' '', ''<'', ''&'', ''>'']"

definition xml_codes :: "string list" where
  "xml_codes = [''&ws;'', ''&lt;'', ''&amp;'', ''&gt;'']"

definition to_wire :: "string \<Rightarrow> string" where
  "to_wire s = formatString s xml_plain xml_codes"

definition from_wire :: "string \<Rightarrow> string" where
  "from_wire s = formatString s xml_codes xml_plain"

section \<open>The XML library\<close>

text \<open>
  What reading the text of an element does with the entities XML predefines, for text of visible characters (blanks
  at the ends are a matter of the reader's flags).
\<close>

definition predefined :: "char \<Rightarrow> string" where
  "predefined c =
     (if c = CHR ''&'' then ''&amp;'' else if c = CHR ''<'' then ''&lt;'' else if c = CHR ''>'' then ''&gt;'' else [c])"

definition visible :: "char \<Rightarrow> bool" where
  "visible c \<longleftrightarrow> CHR '' '' < c \<and> c < CHR 0x7F"

definition xml_reads :: "(string \<Rightarrow> string) \<Rightarrow> bool" where
  "xml_reads xml \<longleftrightarrow> (\<forall>s. list_all visible s \<longrightarrow> xml (concat (map predefined s)) = s)"

text \<open>A function of this kind.\<close>

definition expand_entities :: "string \<Rightarrow> string" where
  "expand_entities s = replace_all ''&amp;'' ''&'' (replace_all ''&gt;'' ''>'' (replace_all ''&lt;'' ''<'' s))"

section \<open>Lemmas\<close>

lemma take_prefix: "take (length p) s = p \<longleftrightarrow> prefix p s"
proof
  assume "take (length p) s = p"
  then show "prefix p s" using take_is_prefix [of "length p" s] by simp
qed (auto simp: prefix_def)

lemma replace_all_Cons:
  "replace_all pat rep (c # s) =
     (if pat \<noteq> [] \<and> prefix pat (c # s) then rep @ replace_all pat rep (drop (length pat - 1) s)
      else c # replace_all pat rep s)"
  by (simp add: take_prefix)

lemma replace_all_append:
  assumes "pat \<noteq> []"
  shows "replace_all pat rep (pat @ s) = rep @ replace_all pat rep s"
  using assms by (cases pat) simp_all

lemma replace_all_char: "replace_all [c] rep s = concat (map (\<lambda>d. if d = c then rep else [d]) s)"
  by (induction s) auto

lemma replace_all_absent:
  assumes "\<not> sublist pat s"
  shows "replace_all pat rep s = s"
  using assms
proof (induction s)
  case (Cons c s)
  then show ?case by (simp add: replace_all_Cons sublist_Cons_right del: replace_all.simps)
qed simp

lemma length_replace_all:
  assumes "length rep < length pat"
  shows "length (replace_all pat rep s) \<le> length s \<and> (sublist pat s \<longrightarrow> length (replace_all pat rep s) < length s)"
proof (induction s rule: length_induct)
  case (1 s)
  show ?case
  proof (cases s)
    case Nil
    then show ?thesis using assms by auto
  next
    case (Cons c t)
    show ?thesis
    proof (cases "pat \<noteq> [] \<and> prefix pat s")
      case True
      then obtain u where u: "s = pat @ u" by (auto simp: prefix_def)
      have "length (replace_all pat rep u) \<le> length u" using 1 True u by simp
      then show ?thesis using True u assms by (simp add: replace_all_append)
    next
      case False
      have p: "pat \<noteq> []" using assms by auto
      have "length (replace_all pat rep t) \<le> length t \<and> (sublist pat t \<longrightarrow> length (replace_all pat rep t) < length t)"
        using 1 Cons by simp
      then show ?thesis using False p Cons by (simp add: replace_all_Cons sublist_Cons_right del: replace_all.simps)
    qed
  qed
qed

lemma replace_all_same_iff:
  assumes "length rep < length pat"
  shows "replace_all pat rep s = s \<longleftrightarrow> \<not> sublist pat s"
  using length_replace_all [OF assms, of s] replace_all_absent [of pat s rep] by auto

text \<open>The characters the writer replaces by a code of its own, all or only the second of them.\<close>

definition blank_code :: "char \<Rightarrow> string" where
  "blank_code c = (if c = CHR '' '' then ''&ws;'' else if c = CHR ''<'' then ''&lt;'' else [c])"

definition less_code :: "char \<Rightarrow> string" where
  "less_code c = (if c = CHR ''<'' then ''&lt;'' else [c])"

lemma blank_code_simps:
  "blank_code (CHR '' '') = ''&ws;''" "blank_code (CHR ''<'') = ''&lt;''"
  "c \<noteq> CHR '' '' \<Longrightarrow> c \<noteq> CHR ''<'' \<Longrightarrow> blank_code c = [c]"
  by (simp_all add: blank_code_def)

lemma less_code_simps:
  "less_code (CHR ''<'') = ''&lt;''" "c \<noteq> CHR ''<'' \<Longrightarrow> less_code c = [c]"
  by (simp_all add: less_code_def)

lemma to_wire_predefined: "to_wire s = concat (map predefined (concat (map blank_code s)))"
  by (induction s)
     (auto simp: to_wire_def formatString_def xml_plain_def xml_codes_def replace_all_char predefined_def blank_code_def)

lemma plain_prefix:
  assumes "CHR ''&'' \<notin> set p" "\<And>c. f c = [c] \<or> (\<exists>t. f c = CHR ''&'' # t) \<and> c \<notin> set p"
  shows "prefix p (concat (map f s)) \<longleftrightarrow> prefix p s"
  using assms
proof (induction p arbitrary: s)
  case (Cons x p)
  have IH: "prefix p (concat (map f t)) \<longleftrightarrow> prefix p t" for t
    using Cons.prems by (intro Cons.IH) auto
  show ?case
  proof (cases s)
    case (Cons c t)
    show ?thesis using Cons.prems(2) [of c] \<open>CHR ''&'' \<notin> set (x # p)\<close> IH [of t] Cons by auto
  qed simp
qed simp

lemma blank_code_prefix: "prefix ''ws;'' (concat (map blank_code s)) \<longleftrightarrow> prefix ''ws;'' s"
  by (rule plain_prefix) (auto simp: blank_code_def)

lemma less_code_prefix: "prefix ''lt;'' (concat (map less_code s)) \<longleftrightarrow> prefix ''lt;'' s"
  by (rule plain_prefix) (auto simp: less_code_def)

lemma read_blanks:
  "replace_all ''&ws;'' '' '' (concat (map blank_code s)) = concat (map less_code (replace_all ''&ws;'' '' '' s))"
proof (induction s rule: length_induct)
  case (1 s)
  show ?case
  proof (cases s)
    case (Cons c t)
    show ?thesis
    proof (cases "prefix ''&ws;'' s")
      case True
      then obtain u where u: "s = ''&ws;'' @ u" by (auto simp: prefix_def)
      have "replace_all ''&ws;'' '' '' (concat (map blank_code u)) = concat (map less_code (replace_all ''&ws;'' '' '' u))"
        using 1 u by simp
      then show ?thesis using u by (simp add: blank_code_simps less_code_simps)
    next
      case False
      have IH: "replace_all ''&ws;'' '' '' (concat (map blank_code t)) = concat (map less_code (replace_all ''&ws;'' '' '' t))"
        using 1 Cons by simp
      show ?thesis
        using False Cons IH blank_code_prefix [of t]
        by (cases "c = CHR '' ''"; cases "c = CHR ''<''")
           (auto simp add: replace_all_Cons blank_code_simps less_code_simps simp del: replace_all.simps)
    qed
  qed simp
qed

lemma read_less:
  "replace_all ''&lt;'' ''<'' (concat (map less_code s)) = replace_all ''&lt;'' ''<'' s"
proof (induction s rule: length_induct)
  case (1 s)
  show ?case
  proof (cases s)
    case (Cons c t)
    show ?thesis
    proof (cases "prefix ''&lt;'' s")
      case True
      then obtain u where u: "s = ''&lt;'' @ u" by (auto simp: prefix_def)
      have "replace_all ''&lt;'' ''<'' (concat (map less_code u)) = replace_all ''&lt;'' ''<'' u"
        using 1 u by simp
      then show ?thesis using u by (simp add: less_code_simps)
    next
      case False
      have IH: "replace_all ''&lt;'' ''<'' (concat (map less_code t)) = replace_all ''&lt;'' ''<'' t"
        using 1 Cons by simp
      show ?thesis
        using False Cons IH less_code_prefix [of t]
        by (cases "c = CHR ''<''") (auto simp add: replace_all_Cons less_code_simps simp del: replace_all.simps)
    qed
  qed simp
qed

lemma blank_code_visible:
  assumes "list_all (\<lambda>c. visible c \<or> c = CHR '' '') s"
  shows "list_all visible (concat (map blank_code s))"
  using assms by (induction s) (auto simp: blank_code_def visible_def less_char_def)

text \<open>Passing over the wire is reading what was never written: the codes that were part of the name are lost.\<close>

lemma over_the_wire:
  assumes "xml_reads xml" "list_all (\<lambda>c. visible c \<or> c = CHR '' '') s"
  shows "from_wire (xml (to_wire s)) = from_wire s"
proof -
  have "xml (to_wire s) = concat (map blank_code s)"
    using assms blank_code_visible unfolding to_wire_predefined xml_reads_def by blast
  then show ?thesis
    by (simp add: from_wire_def formatString_def xml_plain_def xml_codes_def read_blanks read_less)
qed

lemma from_wire_same: "from_wire s = s \<longleftrightarrow> (\<forall>p\<in>set xml_codes. \<not> sublist p s)"
proof
  assume "\<forall>p\<in>set xml_codes. \<not> sublist p s"
  then show "from_wire s = s"
    by (simp add: from_wire_def formatString_def xml_plain_def xml_codes_def replace_all_absent)
next
  define a where "a = replace_all ''&ws;'' '' '' s"
  define b where "b = replace_all ''&lt;'' ''<'' a"
  define c where "c = replace_all ''&amp;'' ''&'' b"
  assume "from_wire s = s"
  then have d: "replace_all ''&gt;'' ''>'' c = s"
    by (simp add: from_wire_def formatString_def xml_plain_def xml_codes_def a_def b_def c_def)
  have len: "length a \<le> length s" "length b \<le> length a" "length c \<le> length b" "length s \<le> length c"
    using length_replace_all [of "'' ''" "''&ws;''" s] length_replace_all [of "''<''" "''&lt;''" a]
      length_replace_all [of "''&''" "''&amp;''" b] length_replace_all [of "''>''" "''&gt;''" c]
    by (simp_all add: a_def [symmetric] b_def [symmetric] c_def [symmetric] d)
  have "\<not> sublist ''&ws;'' s"
    using length_replace_all [of "'' ''" "''&ws;''" s] len a_def by auto
  then have as: "a = s" by (simp add: a_def replace_all_absent)
  have "\<not> sublist ''&lt;'' s"
    using length_replace_all [of "''<''" "''&lt;''" a] len as b_def by auto
  then have bs: "b = s" by (simp add: b_def as replace_all_absent)
  have "\<not> sublist ''&amp;'' s"
    using length_replace_all [of "''&''" "''&amp;''" b] len bs c_def by auto
  then have cs: "c = s" by (simp add: c_def bs replace_all_absent)
  have "\<not> sublist ''&gt;'' s"
    using length_replace_all [of "''>''" "''&gt;''" c] len cs d by auto
  with \<open>\<not> sublist ''&ws;'' s\<close> \<open>\<not> sublist ''&lt;'' s\<close> \<open>\<not> sublist ''&amp;'' s\<close>
  show "\<forall>p\<in>set xml_codes. \<not> sublist p s" by (simp add: xml_codes_def)
qed

text \<open>Expanding one code of a family in which the character that opens codes is always coded.\<close>

lemma replace_all_skip:
  assumes "prefix [x] pat" "x \<notin> set u"
  shows "replace_all pat rep (u @ r) = u @ replace_all pat rep r"
  using assms(2)
proof (induction u)
  case (Cons c u)
  have "\<not> prefix pat (c # u @ r)" using assms(1) Cons.prems by (auto simp: prefix_def)
  then show ?case using Cons by (simp add: replace_all_Cons del: replace_all.simps)
qed simp

lemma replace_code:
  assumes fx: "f x = CHR ''&'' # w"
    and f: "\<And>c. f c = [c] \<and> c \<noteq> CHR ''&'' \<or> (\<exists>v. f c = CHR ''&'' # v \<and> CHR ''&'' \<notin> set v)"
    and free: "\<And>c r. c \<noteq> x \<Longrightarrow> \<not> prefix (f x) (f c @ r)"
  shows "replace_all (f x) [x] (concat (map f s)) = concat (map (f(x := [x])) s)"
proof (induction s)
  case (Cons c s)
  show ?case
  proof (cases "c = x")
    case True
    then show ?thesis using Cons fx replace_all_append [of "f x" "[x]" "concat (map f s)"] by (simp del: replace_all.simps)
  next
    case False
    consider "f c = [c]" "c \<noteq> CHR ''&''" | v where "f c = CHR ''&'' # v" "CHR ''&'' \<notin> set v" using f [of c] by auto
    then show ?thesis
    proof cases
      case 1
      then show ?thesis
        using False Cons fx replace_all_skip [of "CHR ''&''" "f x" "[c]" "[x]" "concat (map f s)"] by simp
    next
      case 2
      then have "\<not> prefix (f x) (CHR ''&'' # v @ concat (map f s))" using free [OF False, of "concat (map f s)"] by simp
      then show ?thesis
        using False Cons fx 2 replace_all_skip [of "CHR ''&''" "f x" v "[x]" "concat (map f s)"]
        by (simp add: replace_all_Cons del: replace_all.simps)
    qed
  qed
qed simp

lemma predefined_simps [simp]:
  "predefined (CHR ''&'') = ''&amp;''" "predefined (CHR ''<'') = ''&lt;''" "predefined (CHR ''>'') = ''&gt;''"
  "c \<notin> {CHR ''&'', CHR ''<'', CHR ''>''} \<Longrightarrow> predefined c = [c]"
  by (auto simp: predefined_def)

lemma predefined_cases: "predefined c = [c] \<and> c \<noteq> CHR ''&'' \<or> (\<exists>v. predefined c = CHR ''&'' # v \<and> CHR ''&'' \<notin> set v)"
  by (simp add: predefined_def)

lemma expand_entities_reads: "xml_reads expand_entities"
proof -
  have "expand_entities (concat (map predefined s)) = s" for s
  proof -
    let ?f = predefined
    let ?g = "?f(CHR ''<'' := [CHR ''<''])" let ?h = "?g(CHR ''>'' := [CHR ''>''])"
    have 1: "replace_all (?f (CHR ''<'')) [CHR ''<''] (concat (map ?f s)) = concat (map ?g s)"
    proof (rule replace_code)
      fix c r show "c \<noteq> CHR ''<'' \<Longrightarrow> \<not> prefix (?f (CHR ''<'')) (?f c @ r)" by (simp add: predefined_def)
    qed (simp, rule predefined_cases)
    have 2: "replace_all (?g (CHR ''>'')) [CHR ''>''] (concat (map ?g s)) = concat (map ?h s)"
    proof (rule replace_code)
      fix c r show "c \<noteq> CHR ''>'' \<Longrightarrow> \<not> prefix (?g (CHR ''>'')) (?g c @ r)" by (simp add: predefined_def)
      show "?g c = [c] \<and> c \<noteq> CHR ''&'' \<or> (\<exists>v. ?g c = CHR ''&'' # v \<and> CHR ''&'' \<notin> set v)" by (simp add: predefined_def)
    qed simp
    have 3: "replace_all (?h (CHR ''&'')) [CHR ''&''] (concat (map ?h s)) = concat (map (?h(CHR ''&'' := [CHR ''&''])) s)"
    proof (rule replace_code)
      fix c r show "c \<noteq> CHR ''&'' \<Longrightarrow> \<not> prefix (?h (CHR ''&'')) (?h c @ r)" by (simp add: predefined_def)
      show "?h c = [c] \<and> c \<noteq> CHR ''&'' \<or> (\<exists>v. ?h c = CHR ''&'' # v \<and> CHR ''&'' \<notin> set v)" by (simp add: predefined_def)
    qed simp
    have "?h(CHR ''&'' := [CHR ''&'']) = (\<lambda>c. [c])" by (simp add: fun_eq_iff predefined_def)
    then show ?thesis using 1 2 3 by (simp add: expand_entities_def)
  qed
  then show ?thesis by (simp add: xml_reads_def)
qed

section \<open>Names over the wire\<close>

text \<open>
  C35: A name of visible characters and blanks, written by the agent and read by the frontend, comes back exactly
  when none of the codes for blanks and markup is part of it; a name like \<open>a&lt;b\<close> is silently changed.
\<close>

theorem name_over_wire:
  assumes "xml_reads xml" "list_all (\<lambda>c. visible c \<or> c = CHR '' '') s"
  shows "from_wire (xml (to_wire s)) = s \<longleftrightarrow> (\<forall>p\<in>set xml_codes. \<not> sublist p s)"
  using over_the_wire [OF assms] from_wire_same by simp

theorem name_over_wire_witness:
  "from_wire (expand_entities (to_wire ''Vec<int> & x'')) = ''Vec<int> & x'' \<and>
   from_wire (expand_entities (to_wire ''a&lt;b'')) \<noteq> ''a&lt;b''"
proof
  show "from_wire (expand_entities (to_wire ''Vec<int> & x'')) = ''Vec<int> & x''"
    by (subst name_over_wire [OF expand_entities_reads])
       (simp_all add: visible_def less_char_def xml_codes_def sublist_Cons_right)
  show "from_wire (expand_entities (to_wire ''a&lt;b'')) \<noteq> ''a&lt;b''"
    by (subst name_over_wire [OF expand_entities_reads])
       (simp_all add: visible_def less_char_def xml_codes_def sublist_Cons_right)
qed

end
