(* ===== verification/CallTree.thy ===== *)
theory CallTree
  imports AppRegionsCorrect TuningModelGen WireText
begin

text \<open>
  The call tree of runtime situations (\<open>aagent/src/rts.cc\<close>, \<open>aagent/include/rts.h\<close>, and the parts of
  \<open>application.cc\<close> that keep it): the agent builds it from the records of the measurement system, sends
  every new node to the frontend, which builds its own; plugins store their results in it and split it by
  clusters of phases. Nodes point to their parent and children, parameters are shared between nodes, so both
  live in stores that only grow; a pointer is a place in its store. What leaves the process is the XML text of
  a node: a record of the texts of its elements, which the XML library of the reader (\<open>xml\<close>) expands; freeing and
  printing are left out.
\<close>

section \<open>State\<close>

datatype rts_node_type = NODE_REGULAR_REGION | NODE_PARAMETER

type_synonym rts_ptr = nat
type_synonym param_ptr = nat

text \<open>A member no constructor has set yet is \<open>None\<close> (\<open>rts_type\<close>).\<close>

record rts_object =
  rn_parent :: "rts_ptr option"
  rn_children :: "rts_ptr list"
  rn_scorep_id :: int
  rn_parent_scorep_id :: int
  rn_rts_type :: "rts_node_type option"
  rn_reg :: "region_ptr option"
  rn_parameter :: "param_ptr list"
  rn_callpathstring :: string
  rn_region_name :: string
  rn_aa_rts_id :: int
  rn_isValidRts :: bool
  rn_tuning_plugin_result :: "(string, (config_type, tuning_result option) smap) smap"
  rn_default_objective :: "tuning_result option"

record calltree =
  rts_store :: "rts_object list"
  param_store :: "parameter_t list"
  ct_root :: "rts_ptr option"
  buffer_index :: nat
  last_aa_rts_id :: int
  aa_rts_callpath_mapping :: "(rts_ptr, string) smap"
  scorepid_to_rts_mapping :: "(int, rts_ptr) smap"
  rts_to_serialize :: "rts_ptr list"
  ct_appl :: application

text \<open>A record of the measurement system's call tree buffer; the name is a C string.\<close>

record call_tree_def =
  ctd_region_id :: "32 word"
  ctd_name :: string
  ctd_scorep_id :: "32 word"
  ctd_parent_scorep_id :: "32 word"

type_synonym regionid_mapping = "(64 word, (32 word, int list) smap) smap"

definition blank_rts :: rts_object where
  "blank_rts = \<lparr>rn_parent = None, rn_children = [], rn_scorep_id = 0, rn_parent_scorep_id = 0, rn_rts_type = None,
     rn_reg = None, rn_parameter = [], rn_callpathstring = '''', rn_region_name = '''', rn_aa_rts_id = 0,
     rn_isValidRts = False, rn_tuning_plugin_result = [], rn_default_objective = None\<rparr>"

text \<open>The conversion of an unsigned identifier to \<open>int\<close> keeps the bits.\<close>

definition new_Rts :: "call_tree_def \<Rightarrow> region_ptr option \<Rightarrow> rts_object" where
  "new_Rts d rtsreg =
     blank_rts\<lparr>rn_scorep_id := sint (ctd_scorep_id d), rn_parent_scorep_id := sint (ctd_parent_scorep_id d),
       rn_reg := rtsreg, rn_region_name := c_str (ctd_name d)\<rparr>"

definition rts_at :: "calltree \<Rightarrow> rts_ptr \<Rightarrow> rts_object comp" where
  "rts_at st p = check (p < length (rts_store st)) UB (ret (rts_store st ! p))"

definition set_rts :: "rts_ptr \<Rightarrow> rts_object \<Rightarrow> calltree \<Rightarrow> calltree" where
  "set_rts p n st = st\<lparr>rts_store := (rts_store st)[p := n]\<rparr>"

definition alloc_rts :: "rts_object \<Rightarrow> calltree \<Rightarrow> rts_ptr \<times> calltree" where
  "alloc_rts n st = (length (rts_store st), st\<lparr>rts_store := rts_store st @ [n]\<rparr>)"

definition update_rts :: "rts_ptr \<Rightarrow> (rts_object \<Rightarrow> rts_object) \<Rightarrow> calltree \<Rightarrow> calltree comp" where
  "update_rts p f st = cbind (rts_at st p) (\<lambda>n. ret (set_rts p (f n) st))"

text \<open>A null pointer followed.\<close>

definition deref :: "'a option \<Rightarrow> 'a comp" where
  "deref p = (case p of None \<Rightarrow> fail UB | Some x \<Rightarrow> ret x)"

section \<open>Parameters in region names\<close>

text \<open>
  \<open>regex_search( name, "(\\s+=)|(=\\s+)|(={2,})|(=$)" )\<close> at the front of a string, and anywhere in it.
\<close>

definition spaced_equals_here :: "string \<Rightarrow> bool" where
  "spaced_equals_here s =
     ((case s of c # _ \<Rightarrow> is_space c \<and> (case dropWhile is_space s of d # _ \<Rightarrow> d = CHR ''='' | [] \<Rightarrow> False) | [] \<Rightarrow> False) \<or>
      (case s of c # t \<Rightarrow> c = CHR ''='' \<and> (case t of d # _ \<Rightarrow> is_space d \<or> d = CHR ''='' | [] \<Rightarrow> True) | [] \<Rightarrow> False))"

fun search_in :: "(string \<Rightarrow> bool) \<Rightarrow> string \<Rightarrow> bool" where
  "search_in here [] = here []"
| "search_in here (c # s) = (here (c # s) \<or> search_in here s)"

text \<open>\<open>regex_search( name, "operator(\\s)*((\\\\)|(!)|(-)|(\\+)|(\\*)|(/))*=" )\<close>.\<close>

definition operator_chars :: string where
  "operator_chars = [CHR 0x5C, CHR ''!'', CHR ''-'', CHR ''+'', CHR ''*'', CHR ''/'']"

definition operator_here :: "string \<Rightarrow> bool" where
  "operator_here s =
     (take 8 s = ''operator'' \<and>
      (case dropWhile (\<lambda>c. c \<in> set operator_chars) (dropWhile is_space (drop 8 s)) of c # _ \<Rightarrow> c = CHR ''='' | [] \<Rightarrow> False))"

definition is_parameter_name :: "string \<Rightarrow> bool" where
  "is_parameter_name s = (CHR ''='' \<in> set s \<and> \<not> search_in spaced_equals_here s \<and> \<not> search_in operator_here s)"

text \<open>Letters of the C locale; the model takes bytes outside ASCII for other characters.\<close>

definition is_alpha :: "char \<Rightarrow> bool" where
  "is_alpha c \<longleftrightarrow> CHR ''A'' \<le> c \<and> c \<le> CHR ''Z'' \<or> CHR ''a'' \<le> c \<and> c \<le> CHR ''z''"

definition parameter_of_name :: "string \<Rightarrow> parameter_t" where
  "parameter_of_name s =
     (let name = takeWhile (\<lambda>c. c \<noteq> CHR ''='') s; val = drop (length name + 1) s
      in \<lparr>param_name = name, param_value = val,
          param_type = (if list_ex is_alpha val then NODE_PARAMETER_STRING else NODE_PARAMETER_INTEGER)\<rparr>)"

definition extract_parameter :: "rts_ptr \<Rightarrow> calltree \<Rightarrow> calltree comp" where
  "extract_parameter p st =
     cbind (rts_at st p) (\<lambda>n.
       if is_parameter_name (rn_region_name n)
       then let q = length (param_store st);
                st = st\<lparr>param_store := param_store st @ [parameter_of_name (rn_region_name n)]\<rparr>;
                n = n\<lparr>rn_rts_type := Some NODE_PARAMETER, rn_parameter := rn_parameter n @ [q]\<rparr>
            in cbind (deref (rn_parent n)) (\<lambda>parent. cbind (rts_at st parent) (\<lambda>m.
                 ret (set_rts p (n\<lparr>rn_reg := rn_reg m\<rparr>) st)))
       else ret (set_rts p (n\<lparr>rn_rts_type := Some NODE_REGULAR_REGION\<rparr>) st))"

section \<open>The agent's tree\<close>

definition generateRtsID :: "calltree \<Rightarrow> (int \<times> calltree) comp" where
  "generateRtsID st = check (last_aa_rts_id st < INT_MAX) UB
     (ret (last_aa_rts_id st + 1, st\<lparr>last_aa_rts_id := last_aa_rts_id st + 1\<rparr>))"

definition reassignScorepID :: "rts_ptr \<Rightarrow> rts_object \<Rightarrow> calltree \<Rightarrow> calltree comp" where
  "reassignScorepID p newnode st =
     update_rts p (\<lambda>n. n\<lparr>rn_scorep_id := rn_scorep_id newnode, rn_parent_scorep_id := rn_parent_scorep_id newnode\<rparr>) st"

text \<open>The last region whose processes recorded the identifier; without one the variable is never set.\<close>

definition find_ptf_id :: "regionid_mapping \<Rightarrow> 32 word \<Rightarrow> 64 word comp" where
  "find_ptf_id mapping rid =
     deref (fold (\<lambda>(ptf, ids) found. fold (\<lambda>(k, _) found. if k = rid then Some ptf else found) ids found) mapping None)"

definition findNode :: "rts_object \<Rightarrow> rts_object \<Rightarrow> calltree \<Rightarrow> rts_ptr option comp" where
  "findNode n newnode st =
     cfold (\<lambda>c found. case found of Some r \<Rightarrow> ret (Some r)
        | None \<Rightarrow> cbind (rts_at st c) (\<lambda>m.
            ret (if rn_scorep_id m = rn_scorep_id newnode \<or> rn_region_name m = rn_region_name newnode then Some c else None)))
       (rn_children n) None"

definition map_scorepid :: "rts_ptr \<Rightarrow> calltree \<Rightarrow> calltree comp" where
  "map_scorepid p st = cbind (rts_at st p) (\<lambda>n.
     ret (st\<lparr>scorepid_to_rts_mapping := sm_insert (rn_scorep_id n) p (scorepid_to_rts_mapping st)\<rparr>))"

text \<open>A node of the record under \<open>node\<close>: found there or made, and the node to go on from.\<close>

definition add_child :: "regionid_mapping \<Rightarrow> call_tree_def \<Rightarrow> rts_ptr \<Rightarrow> calltree \<Rightarrow> (rts_ptr \<times> calltree) comp" where
  "add_child mapping d node st =
     cbind (find_ptf_id mapping (ctd_region_id d)) (\<lambda>ptf_id.
     let newnode = new_Rts d (getRegionByKey ptf_id (ct_appl st))
     in cbind (rts_at st node) (\<lambda>n. cbind (findNode n newnode st) (\<lambda>found.
        case found of
          Some r \<Rightarrow>
            cbind (reassignScorepID r newnode st) (\<lambda>st. cbind (map_scorepid r st) (\<lambda>st.
              ret (r, st\<lparr>buffer_index := buffer_index st + 1\<rparr>)))
        | None \<Rightarrow>
            (let (p, st) = alloc_rts newnode st
             in cbind (update_rts node (\<lambda>n. n\<lparr>rn_children := rn_children n @ [p]\<rparr>) st) (\<lambda>st.
                cbind (generateRtsID st) (\<lambda>(i, st).
                cbind (update_rts p (\<lambda>m. m\<lparr>rn_parent := Some node, rn_aa_rts_id := i\<rparr>) st) (\<lambda>st.
                cbind (extract_parameter p st) (\<lambda>st.
                cbind (map_scorepid p st) (\<lambda>st.
                  ret (p, st\<lparr>rts_to_serialize := rts_to_serialize st @ [p], buffer_index := buffer_index st + 1\<rparr>))))))))))"

text \<open>\<open>insertNode\<close> calls itself last on every path: a loop over the node it stands on.\<close>

definition insert_body ::
  "call_tree_def list \<Rightarrow> regionid_mapping \<Rightarrow> rts_ptr option \<times> calltree \<Rightarrow> (bool \<times> rts_ptr option \<times> calltree) comp" where
  "insert_body buffer mapping s =
     (case s of (node, st) \<Rightarrow>
        if length buffer \<le> buffer_index st then ret (False, node, st)
        else let d = buffer ! buffer_index st
             in if ctd_parent_scorep_id d = 0
                then cbind (deref (ct_root st)) (\<lambda>r.
                     cbind (reassignScorepID r (new_Rts d None) st) (\<lambda>st.
                       ret (True, Some r, st\<lparr>buffer_index := buffer_index st + 1\<rparr>)))
                else cbind (deref node) (\<lambda>p. cbind (rts_at st p) (\<lambda>n.
                     if ctd_parent_scorep_id d = word_of_int (rn_scorep_id n)
                     then cbind (add_child mapping d p st) (\<lambda>(q, st). ret (True, Some q, st))
                     else ret (True, rn_parent n, st))))"

definition insertNode :: "call_tree_def list \<Rightarrow> regionid_mapping \<Rightarrow> rts_ptr \<Rightarrow> calltree \<Rightarrow> calltree comp" where
  "insertNode buffer mapping node st = cbind (loop (insert_body buffer mapping) (Some node, st)) (\<lambda>(_, st). ret st)"

subsection \<open>Call paths and validity\<close>

definition hasParameterChild :: "rts_object \<Rightarrow> calltree \<Rightarrow> bool comp" where
  "hasParameterChild n st =
     cfold (\<lambda>c found. if found then ret True
        else cbind (rts_at st c) (\<lambda>m. cbind (deref (rn_rts_type m)) (\<lambda>t. ret (t \<noteq> NODE_REGULAR_REGION))))
       (rn_children n) False"

definition setValidRts :: "rts_ptr \<Rightarrow> calltree \<Rightarrow> calltree comp" where
  "setValidRts p st =
     cbind (rts_at st p) (\<lambda>n. cbind (hasParameterChild n st) (\<lambda>has.
       ret (set_rts p (n\<lparr>rn_isValidRts := rn_children n = [] \<or> \<not> has\<rparr>) st)))"

definition makeCallpathString :: "string list \<Rightarrow> string" where
  "makeCallpathString callpath_strings = concat (map (\<lambda>s. ''/'' @ s) callpath_strings)"

text \<open>A parameter below a parameter takes over the pointers it does not have.\<close>

definition propagate_parameters :: "rts_ptr \<Rightarrow> calltree \<Rightarrow> calltree comp" where
  "propagate_parameters p st =
     cbind (rts_at st p) (\<lambda>n. case rn_parent n of None \<Rightarrow> ret st
      | Some q \<Rightarrow> cbind (rts_at st q) (\<lambda>m.
          cbind (deref (rn_rts_type m)) (\<lambda>tq.
          if tq = NODE_REGULAR_REGION then ret st
          else cbind (deref (rn_rts_type n)) (\<lambda>tp.
               if tp = NODE_REGULAR_REGION then ret st
               else ret (set_rts p (n\<lparr>rn_parameter :=
                      fold (\<lambda>x ps. if x \<in> set ps then ps else x # ps) (rn_parameter m) (rn_parameter n)\<rparr>) st)))))"

text \<open>Recursive calls under a fold over the children are monotone in the function called.\<close>

lemma cbind_bind: "cbind c f = Option.bind c (\<lambda>r. case r of Inl e \<Rightarrow> Some (Inl e) | Inr x \<Rightarrow> f x)"
  by (simp add: cbind_def split: option.split sum.split)

lemma cbind_mono [partial_function_mono]:
  assumes B: "mono_option B" and C: "\<And>y. mono_option (\<lambda>f. C y f)"
  shows "mono_option (\<lambda>f. cbind (B f) (\<lambda>y. C y f))"
  unfolding cbind_bind
proof (intro bind_mono B)
  fix r show "mono_option (\<lambda>f. case r of Inl e \<Rightarrow> Some (Inl e) | Inr x \<Rightarrow> C x f)"
    by (cases r) (simp_all add: option.const_mono C)
qed

lemma cfold_mono [partial_function_mono]:
  assumes "\<And>x s. mono_option (\<lambda>f. F f x s)"
  shows "mono_option (\<lambda>f. cfold (F f) xs s)"
proof (induction xs arbitrary: s)
  case Nil show ?case by (simp add: option.const_mono)
next
  case (Cons x xs)
  have "mono_option (\<lambda>f. cbind (F f x s) (cfold (F f) xs))"
    using Cons.IH by (intro cbind_mono assms)
  then show ?case by simp
qed

text \<open>
  \<open>callpath_strings\<close> is passed by reference: a node pushes its name, and pops one after its last child, or
  at once when it has none. The children do not change on the way. The overload for the frontend does not keep the
  mapping of nodes to call paths (\<open>mapped\<close>).
\<close>

partial_function (option) setCallPaths ::
  "bool \<Rightarrow> rts_ptr \<Rightarrow> string list \<times> calltree \<Rightarrow> (string list \<times> calltree) comp" where
  "setCallPaths mapped p s =
     cbind (rts_at (snd s) p) (\<lambda>n.
     cbind (ret (fst s @ [rn_region_name n])) (\<lambda>strs.
     cbind (ret (set_rts p (n\<lparr>rn_callpathstring := makeCallpathString strs\<rparr>) (snd s))) (\<lambda>st.
     cbind (ret (if mapped then st\<lparr>aa_rts_callpath_mapping := sm_insert p (makeCallpathString strs) (aa_rts_callpath_mapping st)\<rparr> else st)) (\<lambda>st.
     cbind (propagate_parameters p st) (\<lambda>st.
     cbind (ret (if rn_children n = [] then butlast strs else strs)) (\<lambda>strs.
     cbind (setValidRts p st) (\<lambda>st.
     cbind (cfold (\<lambda>c s. setCallPaths mapped c s) (rn_children n) (strs, st)) (\<lambda>s.
       ret (if rn_children n = [] then fst s else butlast (fst s), snd s)))))))))"

definition addNodeInfo :: "rts_ptr \<Rightarrow> calltree \<Rightarrow> calltree comp" where
  "addNodeInfo node st = cbind (setCallPaths True node ([], st)) (\<lambda>(_, st). ret st)"

partial_function (option) setValidRtss :: "rts_ptr \<Rightarrow> calltree \<Rightarrow> calltree comp" where
  "setValidRtss p st =
     cbind (setValidRts p st) (\<lambda>st. cbind (rts_at st p) (\<lambda>n. cfold (\<lambda>c st. setValidRtss c st) (rn_children n) st))"

definition construct_aagent_calltree :: "call_tree_def list \<Rightarrow> regionid_mapping \<Rightarrow> calltree \<Rightarrow> calltree comp" where
  "construct_aagent_calltree buffer mapping st =
     check (buffer \<noteq> []) UB
     (cbind (find_ptf_id mapping (ctd_region_id (buffer ! 0))) (\<lambda>ptf_id.
      let (current, st) = alloc_rts (new_Rts (buffer ! 0) (getRegionByKey ptf_id (ct_appl st))) st
      in cbind (case ct_root st of
             None \<Rightarrow> cbind (generateRtsID (st\<lparr>ct_root := Some current, ct_appl := (ct_appl st)\<lparr>calltree_root := Some current\<rparr>\<rparr>)) (\<lambda>(i, st).
               cbind (update_rts current (\<lambda>n. n\<lparr>rn_aa_rts_id := i\<rparr>) st) (\<lambda>st.
                 ret (st\<lparr>rts_to_serialize := rts_to_serialize st @ [current]\<rparr>)))
           | Some r \<Rightarrow> cbind (rts_at st current) (\<lambda>c. reassignScorepID r c st)) (\<lambda>st.
         cbind (deref (ct_root st)) (\<lambda>r.
         cbind (map_scorepid r (st\<lparr>buffer_index := 1\<rparr>)) (\<lambda>st.
         cbind (insertNode buffer mapping r st) (\<lambda>st.
         cbind (extract_parameter r st) (\<lambda>st. addNodeInfo r st)))))))"

section \<open>The frontend's tree\<close>

text \<open>The texts of the elements of a node; the file's name is written as it is. Numbers are kept as numbers.\<close>

record rts_message =
  msg_scorep_id :: int
  msg_parent_scorep_id :: int
  msg_name :: string
  msg_aaregionid :: string
  msg_filename :: string
  msg_rfl :: int
  msg_region_type :: region_type
  msg_rts_type :: rts_node_type
  msg_callpath :: string
  msg_region_name :: string
  msg_parameters :: "parameter_t list"

definition map_parameter :: "(string \<Rightarrow> string) \<Rightarrow> parameter_t \<Rightarrow> parameter_t" where
  "map_parameter f p = p\<lparr>param_name := f (param_name p), param_value := f (param_value p)\<rparr>"

definition toXMLdata :: "rts_ptr \<Rightarrow> calltree \<Rightarrow> rts_message comp" where
  "toXMLdata p st =
     cbind (rts_at st p) (\<lambda>n.
     cbind (deref (rn_reg n)) (\<lambda>r. cbind (region_at (ct_appl st) r) (\<lambda>reg.
     cbind (deref (rn_rts_type n)) (\<lambda>t.
     cbind (if t = NODE_PARAMETER
            then cfold (\<lambda>q ps. check (q < length (param_store st)) UB (ret (ps @ [param_store st ! q]))) (rn_parameter n) []
            else ret []) (\<lambda>ps.
       ret \<lparr>msg_scorep_id = rn_scorep_id n, msg_parent_scorep_id = rn_parent_scorep_id n, msg_name = to_wire (ro_name reg),
         msg_aaregionid = to_wire (getRegionID reg), msg_filename = ri_file_name (ro_ident reg),
         msg_rfl = ri_start_position (ro_ident reg), msg_region_type = ri_type (ro_ident reg), msg_rts_type = t,
         msg_callpath = to_wire (rn_callpathstring n), msg_region_name = to_wire (rn_region_name n),
         msg_parameters = map (map_parameter to_wire) ps\<rparr>)))))"

text \<open>The parameters are new objects of the process that reads them.\<close>

definition fromXMLdata :: "(string \<Rightarrow> string) \<Rightarrow> rts_message \<Rightarrow> calltree \<Rightarrow> (rts_ptr \<times> calltree) comp" where
  "fromXMLdata xml m st =
     (let text = (\<lambda>s. from_wire (xml s)); rfl = msg_rfl m
      in cbind (Application_addRegion (text (msg_name m)) rfl (xml (msg_filename m)) (msg_region_type m) rfl rfl (ct_appl st)) (\<lambda>a.
         cbind (getRegionByID (text (msg_aaregionid m)) False a) (\<lambda>node_reg.
         let k = length (param_store st);
             n = blank_rts\<lparr>rn_scorep_id := msg_scorep_id m, rn_parent_scorep_id := msg_parent_scorep_id m,
                   rn_rts_type := Some (msg_rts_type m), rn_reg := node_reg, rn_callpathstring := text (msg_callpath m),
                   rn_region_name := text (msg_region_name m), rn_parameter := [k..<k + length (msg_parameters m)]\<rparr>
         in ret (alloc_rts n (st\<lparr>ct_appl := a, param_store := param_store st @ map (map_parameter text) (msg_parameters m)\<rparr>)))))"

definition findFrontendNode :: "rts_object \<Rightarrow> rts_object \<Rightarrow> calltree \<Rightarrow> rts_ptr option comp" where
  "findFrontendNode n newnode st =
     cfold (\<lambda>c found. case found of Some r \<Rightarrow> ret (Some r)
        | None \<Rightarrow> cbind (rts_at st c) (\<lambda>m.
            ret (if rn_callpathstring m = rn_callpathstring newnode then Some c else None)))
       (rn_children n) None"

text \<open>The search goes on below every node that does not match, also after the insertion.\<close>

partial_function (option) insertFrontendNode :: "rts_ptr \<Rightarrow> rts_ptr \<Rightarrow> calltree \<Rightarrow> calltree comp" where
  "insertFrontendNode parent current st =
     cbind (rts_at st parent) (\<lambda>n. cbind (rts_at st current) (\<lambda>c.
       if rn_callpathstring c = rn_callpathstring n @ ''/'' @ rn_region_name c
       then cbind (findFrontendNode n c st) (\<lambda>found. case found of
              Some _ \<Rightarrow> ret st
            | None \<Rightarrow> cbind (update_rts parent (\<lambda>n. n\<lparr>rn_children := rn_children n @ [current]\<rparr>) st) (\<lambda>st.
                update_rts current (\<lambda>c. c\<lparr>rn_parent := Some parent\<rparr>) st))
       else cfold (\<lambda>p st. insertFrontendNode p current st) (rn_children n) st))"

definition construct_frontend_calltree :: "rts_ptr \<Rightarrow> calltree \<Rightarrow> calltree comp" where
  "construct_frontend_calltree current st =
     cbind (rts_at st current) (\<lambda>c.
       if rn_parent_scorep_id c = 0
       then case calltree_root (ct_appl st) of
              None \<Rightarrow> ret (st\<lparr>ct_appl := (ct_appl st)\<lparr>calltree_root := Some current\<rparr>\<rparr>)
            | Some r \<Rightarrow> reassignScorepID r c st
       else cbind (deref (calltree_root (ct_appl st))) (\<lambda>r. insertFrontendNode r current st))"

text \<open>\<open>PeriscopeFrontend::construct_calltree\<close>.\<close>

definition construct_calltree :: "(string \<Rightarrow> string) \<Rightarrow> rts_message \<Rightarrow> calltree \<Rightarrow> calltree comp" where
  "construct_calltree xml m st = cbind (fromXMLdata xml m st) (\<lambda>(current, st). construct_frontend_calltree current st)"

section \<open>Questions\<close>

partial_function (option) getRtsByCallpath :: "calltree \<Rightarrow> string \<Rightarrow> rts_ptr \<Rightarrow> rts_ptr option comp" where
  "getRtsByCallpath st call_path p =
     cbind (rts_at st p) (\<lambda>n.
       if rn_callpathstring n = call_path then ret (Some p)
       else cfold (\<lambda>c found. case found of Some r \<Rightarrow> ret (Some r) | None \<Rightarrow> getRtsByCallpath st call_path c) (rn_children n) None)"

partial_function (option) getRtsOfRegion :: "calltree \<Rightarrow> region_ptr \<Rightarrow> rts_ptr \<Rightarrow> rts_ptr list \<Rightarrow> rts_ptr list comp" where
  "getRtsOfRegion st search_reg p rtsList =
     cbind (rts_at st p) (\<lambda>n.
       cfold (\<lambda>c l. getRtsOfRegion st search_reg c l) (rn_children n)
         (if rn_reg n = Some search_reg then rtsList @ [p] else rtsList))"

text \<open>A null pointer is looked for like a region: it finds the nodes without one.\<close>

partial_function (option) getValidRtsOfRegion :: "calltree \<Rightarrow> region_ptr option \<Rightarrow> rts_ptr \<Rightarrow> rts_ptr list \<Rightarrow> rts_ptr list comp" where
  "getValidRtsOfRegion st search_reg p rtsList =
     cbind (rts_at st p) (\<lambda>n.
       cfold (\<lambda>c l. getValidRtsOfRegion st search_reg c l) (rn_children n)
         (if rn_isValidRts n \<and> rn_reg n = search_reg then rtsList @ [p] else rtsList))"

section \<open>Results of the plugins\<close>

definition config_index :: "config_type \<Rightarrow> nat" where
  "config_index c =
     (case c of STATIC_WORST \<Rightarrow> 0 | STATIC_BEST \<Rightarrow> 1 | RTS_BEST \<Rightarrow> 2 | STATIC_NORMALIZED_BEST \<Rightarrow> 3
      | STATIC_NORMALIZED_WORST \<Rightarrow> 4 | RTS_NORMALIZED_BEST \<Rightarrow> 5 | TUNING_RESULT_STATIC \<Rightarrow> 6 | TUNING_RESULT_RTS \<Rightarrow> 7)"

lemma config_index_inject: "config_index c = config_index d \<Longrightarrow> c = d"
  by (cases c; cases d) (simp_all add: config_index_def)

instantiation config_type :: linorder
begin

definition less_eq_config_type :: "config_type \<Rightarrow> config_type \<Rightarrow> bool" where
  "less_eq_config_type c d \<longleftrightarrow> config_index c \<le> config_index d"

definition less_config_type :: "config_type \<Rightarrow> config_type \<Rightarrow> bool" where
  "less_config_type c d \<longleftrightarrow> config_index c < config_index d"

instance
  by standard (auto simp: less_eq_config_type_def less_config_type_def intro: config_index_inject)

end

definition insertTuningResult ::
  "dbl \<Rightarrow> (tp_ptr, int) smap \<Rightarrow> (string, dbl) smap \<Rightarrow> (string, dbl) smap \<Rightarrow> (string, dbl \<times> dbl) umap \<Rightarrow> 32 word list \<Rightarrow> tuning_result" where
  "insertTuningResult obj_value tps objs extra phase_range phases =
     \<lparr>tuning_parameter_value_mapping = tps, objective_value = obj_value, objectives = objs, extraInfo = extra,
      phase_identifier_range = phase_range, phases_in_cluster = phases\<rparr>"

text \<open>A configuration that is present keeps its old result: \<open>insert\<close> does not overwrite.\<close>

definition insertPluginResult :: "string \<Rightarrow> tuning_result \<Rightarrow> config_type \<Rightarrow> rts_object \<Rightarrow> rts_object" where
  "insertPluginResult plugin_name result config n =
     (if plugin_name = [] then n
      else let tuning_result_config = [(config, Some result)]
           in if rn_tuning_plugin_result n = []
              then n\<lparr>rn_tuning_plugin_result := [(plugin_name, tuning_result_config)]\<rparr>
              else let (old, m) = sm_index [] plugin_name (rn_tuning_plugin_result n)
                   in n\<lparr>rn_tuning_plugin_result := sm_put plugin_name (sm_insert_range tuning_result_config old) m\<rparr>)"

definition insertDefaultObjValue :: "string \<Rightarrow> dbl \<Rightarrow> rts_object \<Rightarrow> rts_object" where
  "insertDefaultObjValue obj obj_value n =
     n\<lparr>rn_default_objective := Some (insertTuningResult obj_value [] [(obj, obj_value)] [] [] [])\<rparr>"

definition getDefaultEnergy :: "rts_object \<Rightarrow> dbl" where
  "getDefaultEnergy n = (case rn_default_objective n of None \<Rightarrow> dbl_of_int 0 | Some r \<Rightarrow> objective_value r)"

text \<open>Parameters without a value in a result of the first plugin get their default, by name.\<close>

definition add_default_value :: "tp_store \<Rightarrow> tp_ptr \<Rightarrow> tuning_result \<Rightarrow> tuning_result" where
  "add_default_value heap tp r =
     (if list_ex (\<lambda>(q, _). tp_name (heap tp) = tp_name (heap q)) (tuning_parameter_value_mapping r) then r
      else r\<lparr>tuning_parameter_value_mapping := sm_insert tp (default_val (heap tp)) (tuning_parameter_value_mapping r)\<rparr>)"

definition add_default_values :: "tp_store \<Rightarrow> tp_ptr list \<Rightarrow> rts_object \<Rightarrow> rts_object comp" where
  "add_default_values heap tps n =
     (case rn_tuning_plugin_result n of [] \<Rightarrow> ret n
      | (plugin, results) # rest \<Rightarrow>
          cbind (cfold (\<lambda>(c, r) rs. if tps = [] then ret (rs @ [(c, r)])
                    else cbind (deref r) (\<lambda>x. ret (rs @ [(c, Some (fold (add_default_value heap) tps x))]))) results []) (\<lambda>results.
            ret (n\<lparr>rn_tuning_plugin_result := (plugin, results) # rest\<rparr>)))"

partial_function (option) insertDefaultTPValues :: "tp_store \<Rightarrow> tp_ptr list \<Rightarrow> rts_ptr \<Rightarrow> calltree \<Rightarrow> calltree comp" where
  "insertDefaultTPValues heap tps p st =
     cbind (rts_at st p) (\<lambda>n. cbind (add_default_values heap tps n) (\<lambda>m.
       cfold (\<lambda>c st. insertDefaultTPValues heap tps c st) (rn_children n) (set_rts p m st)))"

section \<open>Splitting the tree by clusters of phases\<close>

text \<open>\<open>regex_replace( target, "Cluster=\\d+", "Cluster=" + to_string( cluster_num ) )\<close>.\<close>

function replace_clusters :: "string \<Rightarrow> string \<Rightarrow> string" where
  "replace_clusters replace_str [] = []"
| "replace_clusters replace_str (c # s) =
     (let t = drop 8 (c # s)
      in if take 8 (c # s) = ''Cluster='' \<and> t \<noteq> [] \<and> digit_value (hd t) \<noteq> None
         then replace_str @ replace_clusters replace_str (dropWhile (\<lambda>d. digit_value d \<noteq> None) t)
         else c # replace_clusters replace_str s)"
  by pat_completeness auto
termination
proof (relation "measure (\<lambda>(r, s). length s)")
  fix r s x :: string and c :: char
  assume "x = drop 8 (c # s)"
  then have "length (dropWhile (\<lambda>d. digit_value d \<noteq> None) x) \<le> length (drop 7 s)"
    using length_dropWhile_le [of _ "drop 7 s"] by simp
  then show "((r, dropWhile (\<lambda>d. digit_value d \<noteq> None) x), (r, c # s)) \<in> measure (\<lambda>(r, s). length s)" by simp
qed simp_all

definition cluster_name :: "32 word \<Rightarrow> string" where
  "cluster_name cluster_num = ''Cluster='' @ print_int (uint cluster_num)"

definition modifyString :: "string \<Rightarrow> 32 word \<Rightarrow> string" where
  "modifyString target cluster_num = replace_clusters (cluster_name cluster_num) target"

text \<open>\<open>find( "Cluster=" ) != npos\<close>.\<close>

definition has_cluster :: "string \<Rightarrow> bool" where
  "has_cluster s = search_in (\<lambda>t. take 8 t = ''Cluster='') s"

text \<open>The new node takes over the children, whose parent pointers stay; the vector moved from is empty.\<close>

definition modifyNode :: "rts_ptr \<Rightarrow> rts_ptr \<Rightarrow> 32 word \<Rightarrow> calltree \<Rightarrow> calltree comp" where
  "modifyNode newClusterNode node curr_cluster st =
     cbind (rts_at st node) (\<lambda>n.
     cbind (update_rts newClusterNode (\<lambda>m. m\<lparr>rn_parent := Some node, rn_children := rn_children n\<rparr>) st) (\<lambda>st.
     cbind (update_rts node (\<lambda>n. n\<lparr>rn_children := [newClusterNode]\<rparr>) st) (\<lambda>st.
     cbind (update_rts newClusterNode (\<lambda>m. m\<lparr>rn_region_name := cluster_name curr_cluster\<rparr>) st) (\<lambda>st.
     cbind (extract_parameter newClusterNode st) (\<lambda>st.
     cbind (rts_at st node) (\<lambda>n.
       update_rts newClusterNode (\<lambda>m. m\<lparr>rn_parent_scorep_id := rn_scorep_id n,
         rn_callpathstring := modifyString (rn_callpathstring n) curr_cluster\<rparr>) st))))))"

definition copyData :: "rts_ptr \<Rightarrow> rts_ptr \<Rightarrow> rts_ptr \<Rightarrow> 32 word \<Rightarrow> calltree \<Rightarrow> calltree comp" where
  "copyData node clone_n parent next_cluster st =
     cbind (rts_at st node) (\<lambda>n.
     cbind (update_rts clone_n (\<lambda>m. m\<lparr>rn_parent := Some parent\<rparr>) st) (\<lambda>st.
     cbind (update_rts parent (\<lambda>m. m\<lparr>rn_children := rn_children m @ [clone_n]\<rparr>) st) (\<lambda>st.
     cbind (update_rts clone_n (\<lambda>m. m\<lparr>rn_parent_scorep_id := rn_parent_scorep_id n, rn_scorep_id := rn_scorep_id n,
              rn_region_name := modifyString (rn_region_name n) next_cluster\<rparr>) st) (\<lambda>st.
     cbind (rts_at st clone_n) (\<lambda>m.
       if has_cluster (rn_region_name m) then extract_parameter clone_n st
       else update_rts clone_n (\<lambda>m. m\<lparr>rn_reg := rn_reg n, rn_rts_type := Some NODE_REGULAR_REGION\<rparr>) st)))))"

text \<open>\<open>getChildren()\<close> is a copy, made after the clone is hung under its parent.\<close>

partial_function (option) cloneTree :: "rts_ptr \<Rightarrow> 32 word \<Rightarrow> rts_ptr \<Rightarrow> calltree \<Rightarrow> calltree comp" where
  "cloneTree parent next_cluster node st =
     (let (clone_n, st) = alloc_rts blank_rts st
      in cbind (copyData node clone_n parent next_cluster st) (\<lambda>st.
         cbind (rts_at st node) (\<lambda>n. cfold (\<lambda>child st. cloneTree clone_n next_cluster child st) (rn_children n) st)))"

text \<open>The state of the loop: the next child, \<open>curr_cluster\<close> and \<open>next_cluster\<close>.\<close>

definition modify_body ::
  "rts_ptr \<Rightarrow> 32 word \<Rightarrow> nat \<times> 32 word \<times> 32 word \<times> calltree \<Rightarrow> (bool \<times> nat \<times> 32 word \<times> 32 word \<times> calltree) comp" where
  "modify_body node num_clusters s =
     (case s of (ch, curr_cluster, next_cluster, st) \<Rightarrow>
        cbind (rts_at st node) (\<lambda>n.
          if length (rn_children n) \<le> ch then ret (False, s)
          else let next_cluster = next_cluster + 1
               in if next_cluster \<le> num_clusters
                  then cbind (cloneTree node next_cluster (rn_children n ! ch) st) (\<lambda>st.
                    ret (next_cluster \<noteq> num_clusters, if next_cluster = num_clusters then ch else ch + 1, next_cluster, next_cluster, st))
                  else ret (True, ch + 1, curr_cluster, next_cluster, st)))"

definition modifyTree :: "rts_ptr \<Rightarrow> 32 word \<Rightarrow> calltree \<Rightarrow> calltree comp" where
  "modifyTree node num_clusters st =
     (let (newClusterNode, st) = alloc_rts blank_rts st
      in cbind (modifyNode newClusterNode node 1 st) (\<lambda>st.
         cbind (loop (modify_body node num_clusters) (0, 1, 1, st)) (\<lambda>(_, _, _, st).
         cbind (setCallPaths False node ([], st)) (\<lambda>(_, st). ret st))))"

section \<open>Savings\<close>

text \<open>
  \<open>plugin_result[ c ]\<close> on a copy of the map: a missing configuration is a null pointer there. The first
  conjunct that is zero ends the test.
\<close>

definition result_value :: "(config_type, tuning_result option) smap \<Rightarrow> config_type \<Rightarrow> dbl comp" where
  "result_value results c =
     cbind (deref (case sm_find results c of None \<Rightarrow> None | Some r \<Rightarrow> r)) (\<lambda>r. ret (objective_value r))"

definition nonzero :: "dbl \<Rightarrow> bool" where
  "nonzero x \<longleftrightarrow> \<not> deq x (dbl_of_int 0)"

definition add_saving ::
  "config_type \<Rightarrow> config_type \<Rightarrow> calltree \<Rightarrow> rts_ptr \<Rightarrow> string \<times> dbl \<times> dbl \<times> dbl \<Rightarrow> (string \<times> dbl \<times> dbl \<times> dbl) comp" where
  "add_saving static best st p s =
     cbind (rts_at st p) (\<lambda>n. case rn_tuning_plugin_result n of [] \<Rightarrow> ret s
      | (plugin_name, results) # _ \<Rightarrow>
          (case s of (_, staticObj, bestObj, defaultObj) \<Rightarrow>
             if (case sm_find results static of Some (Some _) \<Rightarrow> False | _ \<Rightarrow> True) then ret (plugin_name, staticObj, bestObj, defaultObj)
             else cbind (result_value results static) (\<lambda>x.
                  if \<not> nonzero x then ret (plugin_name, staticObj, bestObj, defaultObj)
                  else cbind (result_value results best) (\<lambda>y.
                       if nonzero y \<and> nonzero (getDefaultEnergy n)
                       then ret (plugin_name, dadd staticObj x, dadd bestObj y, dadd defaultObj (getDefaultEnergy n))
                       else ret (plugin_name, staticObj, bestObj, defaultObj)))))"

definition percent :: "dbl \<Rightarrow> dbl \<Rightarrow> dbl" where
  "percent whole part = dmul (ddiv (dsub whole part) whole) (dbl_of_int 100)"

text \<open>The static, the dynamic and the phase's saving, as \<open>displaySavings\<close> and \<open>displayTrueSavings\<close> print them.\<close>

definition savings :: "config_type \<Rightarrow> config_type \<Rightarrow> calltree \<Rightarrow> (dbl \<times> dbl \<times> dbl) comp" where
  "savings static best st =
     (let zero = dbl_of_int 0
      in cbind (deref (calltree_root (ct_appl st))) (\<lambda>r.
         cbind (cfold (\<lambda>reg s. cbind (getValidRtsOfRegion st (Some reg) r []) (\<lambda>rts. cfold (add_saving static best st) rts s))
                  (sig_regions (ct_appl st)) ('''', zero, zero, zero)) (\<lambda>(plugin_name, staticObj, bestObj, defaultObj).
         let phase_result = (\<lambda>n. case rn_tuning_plugin_result n of [] \<Rightarrow> fail UB | (_, results) # _ \<Rightarrow> result_value results static)
         in cbind (rts_at st r) (\<lambda>n.
            cbind (if plugin_name = ''readex_interphase''
                   then cfold (\<lambda>c (b, d). cbind (rts_at st c) (\<lambda>m. cbind (phase_result m) (\<lambda>x.
                          ret (dadd b x, dadd d (getDefaultEnergy m))))) (rn_children n) (zero, zero)
                   else cbind (phase_result n) (\<lambda>x. ret (x, getDefaultEnergy n))) (\<lambda>(phaseObj, defaultPhase).
              ret (percent defaultObj staticObj, percent staticObj bestObj, percent defaultPhase phaseObj))))))"

definition displaySavings :: "calltree \<Rightarrow> (dbl \<times> dbl \<times> dbl) comp" where
  "displaySavings st = savings STATIC_BEST RTS_BEST st"

definition displayTrueSavings :: "calltree \<Rightarrow> (dbl \<times> dbl \<times> dbl) comp" where
  "displayTrueSavings st = savings TUNING_RESULT_STATIC TUNING_RESULT_RTS st"

declare setCallPaths.simps [code] setValidRtss.simps [code] insertFrontendNode.simps [code] getRtsByCallpath.simps [code]
  getRtsOfRegion.simps [code] getValidRtsOfRegion.simps [code] insertDefaultTPValues.simps [code] cloneTree.simps [code]

end
