(* ===== verification/IntraphasePlugin.thy ===== *)
theory IntraphasePlugin
  imports DemoPlugin Individual CallTree
begin

text \<open>
  The READEX intra-phase plugin (\<open>autotune/plugins/readex_intraphase\<close>): it tunes the number of threads and the
  core and uncore frequencies for the phase of an application, keeps the best setting of every runtime situation
  in the call tree and runs three experiments with all of them at the end. When application tuning parameters are
  enabled, a tuning step for these comes first. The configuration file, the environment variables, the tuning
  parameter server, the loader of search algorithms and the generator of the tuning model are parameters; what the
  plugin prints is left out. The search is reached through the interface \<open>ISearchAlgorithm\<close>, a record of operations.
\<close>

section \<open>The search algorithm behind its interface\<close>

text \<open>The setters the plugin calls after a cast to the class it has just loaded.\<close>

datatype search_setter = SetScenariosToKeep | SetSampleCount | SetPopulationSize | SetMaxGenerations | SetTimer

record 's search_alg =
  sa_initialize :: "'s \<Rightarrow> 's comp"
  sa_setATPService :: "'s \<Rightarrow> 's"
  sa_set :: "search_setter \<Rightarrow> int \<Rightarrow> 's \<Rightarrow> 's"
  sa_addObjectiveFunction :: "objective_function \<Rightarrow> 's \<Rightarrow> 's"
  sa_addSearchSpace :: "search_space \<Rightarrow> 's \<Rightarrow> 's comp"
  sa_createScenarios :: "'s \<Rightarrow> world \<Rightarrow> ('s \<times> world) comp"
  sa_searchFinished :: "'s \<Rightarrow> world \<Rightarrow> (bool \<times> 's \<times> world) comp"
  sa_getOptimum :: "'s \<Rightarrow> int comp"
  sa_getWorst :: "'s \<Rightarrow> int comp"
  sa_clear :: "'s \<Rightarrow> 's"

text \<open>The two searches of the development behind it; a plain object has no setters but its own.\<close>

definition exhaustive_alg :: "build_env \<Rightarrow> exhaustive search_alg" where
  "exhaustive_alg env =
     \<lparr>sa_initialize = ret, sa_setATPService = (\<lambda>s. s), sa_set = (\<lambda>_ _ s. s), sa_addObjectiveFunction = ex_addObjectiveFunction,
      sa_addSearchSpace = (\<lambda>ss s. ret (ex_addSearchSpace ss s)), sa_createScenarios = ex_createScenarios env,
      sa_searchFinished = ex_searchFinished, sa_getOptimum = ex_getOptimum, sa_getWorst = ex_getWorst, sa_clear = ex_clear\<rparr>"

definition individual_alg :: "build_env \<Rightarrow> result_sort \<Rightarrow> individual search_alg" where
  "individual_alg env std_sort =
     \<lparr>sa_initialize = ind_initialize True, sa_setATPService = (\<lambda>s. s),
      sa_set = (\<lambda>f i s. if f = SetScenariosToKeep then setScenariosToKeep i s else s),
      sa_addObjectiveFunction = ind_addObjectiveFunction, sa_addSearchSpace = ind_addSearchSpace,
      sa_createScenarios = ind_createScenarios env, sa_searchFinished = ind_searchFinished std_sort,
      sa_getOptimum = (\<lambda>s. ret (ind_getOptimum s)), sa_getWorst = (\<lambda>s. ret (ind_getWorst s)), sa_clear = ind_clear\<rparr>"

section \<open>State and surroundings\<close>

text \<open>
  \<open>ie_config\<close> is \<open>configTree.get\<close>, which throws when there is no such entry, \<open>ie_objectives\<close> the list below
  \<open>Configuration.objectives\<close>. \<open>ie_atp_specs\<close> are the domains the parameter server answers with, none when it
  cannot be started. \<open>ie_load\<close> loads a search algorithm and makes an instance of it (\<open>None\<close> is a null pointer).
  \<open>ie_new_tp n\<close> is the address of the \<open>n\<close>-th tuning parameter the plugin allocates, \<open>ie_map_order\<close> the
  iteration order of an unordered map; \<open>ie_stack n\<close> is what the processor and node energy and the time of the \<open>n\<close>-th
  phase result hold before they are added to, \<open>ie_phase_time\<close> what \<open>bestPhaseTime\<close> holds.
\<close>

record 's intra_env =
  ie_config :: "string \<Rightarrow> string option"
  ie_objectives :: "string list option"
  ie_has_configurationfile :: bool
  ie_ompnumthreads :: int
  ie_atp_mode :: "string option"
  ie_atp_description :: bool
  ie_atp_specs :: "(string \<times> tp_ptr list) list"
  ie_load :: "string \<Rightarrow> 's option comp"
  ie_search :: "'s search_alg"
  ie_new_tp :: "nat \<Rightarrow> tp_ptr"
  ie_map_order :: "string list \<Rightarrow> string list"
  ie_build :: build_env
  ie_cost :: cost_model
  ie_stack :: "nat \<Rightarrow> dbl \<times> dbl \<times> dbl"
  ie_phase_time :: dbl
  ie_generate :: "calltree \<Rightarrow> tp_store \<Rightarrow> unit comp"

record rts_entry =
  re_callpath :: string
  re_execTime :: "dbl option"
  re_weight :: "dbl option"

text \<open>
  The members, with the global \<open>appl\<close> and its call tree, the global \<open>readexScenario\<close>, the number of parameters
  allocated so far and the entries of the file \<open>rts.xml\<close>. An objective function is kept with its unit.
\<close>

record 's intra =
  it_tuningParameters :: "tp_ptr list"
  it_searchAlgorithm :: "'s option"
  it_objectives :: "(objective_function \<times> string) list"
  it_tuningStep :: int
  it_min_freq :: int
  it_max_freq :: int
  it_freq_step :: int
  it_scenario_no_atp :: int
  it_optimum_atp_map :: "(string, int) umap"
  it_readexScenario :: int
  it_created :: nat
  it_calltree :: calltree
  it_rts_file :: "rts_entry list option"

definition ATP_PARAMETER_TUNING :: int where "ATP_PARAMETER_TUNING = 1"
definition HARDWARE_PARAMETER_TUNING :: int where "HARDWARE_PARAMETER_TUNING = 2"

definition Readex_Intraphase :: int where "Readex_Intraphase = 20"
definition UNKOWN_PLUGIN :: int where "UNKOWN_PLUGIN = 0"
definition TUNING_ACTION_FUNCTION_POINTER :: int where "TUNING_ACTION_FUNCTION_POINTER = 3"

definition set_intra :: "'s intra \<Rightarrow> world \<Rightarrow> 's intra side \<Rightarrow> 's intra side" where
  "set_intra p w s = s\<lparr>plugin_state := p, tuning_world := w\<rparr>"

definition intra_initialize :: "'s intra side \<Rightarrow> 's intra side comp" where
  "intra_initialize s =
     ret (s\<lparr>plugin_state := (plugin_state s)\<lparr>it_tuningStep := 0 + 1, it_scenario_no_atp := 0, it_min_freq := 1200,
       it_max_freq := 2400, it_freq_step := 400\<rparr>\<rparr>)"

section \<open>Reading the configuration\<close>

text \<open>
  A block of \<open>member = atoi( configTree.get( entry ) )\<close> in a \<open>try\<close>: the first entry that is missing leaves the
  block, and the members set before it stay set.
\<close>

fun read_settings :: "(string \<Rightarrow> string option) \<Rightarrow> (string \<times> (int \<Rightarrow> 'a \<Rightarrow> 'a)) list \<Rightarrow> 'a \<Rightarrow> 'a comp" where
  "read_settings config [] x = ret x"
| "read_settings config ((entry, set_member) # rest) x =
     (case config entry of None \<Rightarrow> ret x
      | Some t \<Rightarrow> cbind (c_atoi t) (\<lambda>i. read_settings config rest (set_member i x)))"

record frequencies =
  fq_min :: int
  fq_max :: int
  fq_step :: int
  fq_default :: int

definition read_frequencies :: "(string \<Rightarrow> string option) \<Rightarrow> string \<Rightarrow> frequencies \<Rightarrow> frequencies comp" where
  "read_frequencies config grp f =
     read_settings config
       [(grp @ ''.min_freq'', \<lambda>i f. f\<lparr>fq_min := i\<rparr>), (grp @ ''.max_freq'', \<lambda>i f. f\<lparr>fq_max := i\<rparr>),
        (grp @ ''.freq_step'', \<lambda>i f. f\<lparr>fq_step := i\<rparr>), (grp @ ''.default'', \<lambda>i f. f\<lparr>fq_default := i\<rparr>)] f"

text \<open>
  The upper end is moved down to the last step that fits. \<open>isnan\<close> of an \<open>int\<close> is false, so none of the tests for
  a number aborts.
\<close>

definition round_range :: "frequencies \<Rightarrow> frequencies comp" where
  "round_range f =
     (if fq_min f > fq_max f then fail Abort
      else check (in_int (fq_max f - fq_min f)) UB
        (cbind (cmod (fq_max f - fq_min f) (fq_step f)) (\<lambda>rest.
           if rest = 0 then ret f
           else cbind (cdiv (fq_max f - fq_min f) (fq_step f)) (\<lambda>steps.
                check (in_int (steps * fq_step f) \<and> in_int (fq_min f + steps * fq_step f)) UB
                  (ret (f\<lparr>fq_max := fq_min f + steps * fq_step f\<rparr>))))))"

definition read_threads :: "(string \<Rightarrow> string option) \<Rightarrow> (int \<times> int) comp" where
  "read_threads config =
     read_settings config
       [(''Configuration.tuningParameter.openMPThreads.lower_value'', \<lambda>i (lb, step). (i, step)),
        (''Configuration.tuningParameter.openMPThreads.step'', \<lambda>i (lb, step). (lb, i))] (1, 1)"

subsection \<open>Objectives\<close>

record units =
  timeUnit :: string
  energyUnit :: string
  currencyUnit :: string

fun read_texts :: "(string \<Rightarrow> string option) \<Rightarrow> (string \<times> (string \<Rightarrow> 'a \<Rightarrow> 'a)) list \<Rightarrow> 'a \<Rightarrow> 'a" where
  "read_texts config [] x = x"
| "read_texts config ((entry, set_member) # rest) x =
     (case config entry of None \<Rightarrow> x | Some t \<Rightarrow> read_texts config rest (set_member t x))"

definition read_objectives :: "'s intra_env \<Rightarrow> string list \<times> units" where
  "read_objectives env =
     (let none = \<lparr>timeUnit = '''', energyUnit = '''', currencyUnit = ''''\<rparr>
      in if \<not> ie_has_configurationfile env then ([], none)
         else case ie_objectives env of None \<Rightarrow> ([], none)
         | Some names \<Rightarrow> (names, read_texts (ie_config env)
             [(''Configuration.periscope.metricUnits.timeUnit'', \<lambda>t u. u\<lparr>timeUnit := t\<rparr>),
              (''Configuration.periscope.metricUnits.energyUnit'', \<lambda>t u. u\<lparr>energyUnit := t\<rparr>),
              (''Configuration.periscope.metricUnits.currencyUnit'', \<lambda>t u. u\<lparr>currencyUnit := t\<rparr>)] none))"

text \<open>The unit of a compound objective is made with \<open>append\<close>, which changes the unit it starts from.\<close>

definition objective_of :: "cost_model \<Rightarrow> units \<Rightarrow> string \<Rightarrow> ((objective_function \<times> string) option \<times> units)" where
  "objective_of cost u name =
     (let energy = (\<lambda>f t. (Some (f, energyUnit u @ t), u\<lparr>energyUnit := energyUnit u @ t\<rparr>));
          per_time = ''*'' @ timeUnit u
      in if name = ''Energy'' then (Some (Energy, energyUnit u), u)
         else if name = ''NormalizedEnergy'' then energy NormalizedEnergy ''/instr''
         else if name = ''CPUEnergy'' then (Some (CPUEnergy, energyUnit u), u)
         else if name = ''NormalizedCPUEnergy'' then energy NormalizedCPUEnergy ''/instr''
         else if name = ''EDP'' then energy EDP per_time
         else if name = ''NormalizedEDP'' then energy NormalizedEDP (per_time @ ''/instr'')
         else if name = ''ED2P'' then energy ED2P (per_time @ ''2'')
         else if name = ''NormalizedED2P'' then energy NormalizedED2P (per_time @ ''2'' @ ''/instr'')
         else if name = ''Time'' then (Some (Time, timeUnit u), u)
         else if name = ''NormalizedTime''
           then (Some (NormalizedTime, timeUnit u @ ''/instr''), u\<lparr>timeUnit := timeUnit u @ ''/instr''\<rparr>)
         else if name = ''TCO'' then (Some (TCO cost, currencyUnit u), u)
         else if name = ''NormalizedTCO''
           then (Some (NormalizedTCO cost, currencyUnit u @ ''/instr''), u\<lparr>currencyUnit := currencyUnit u @ ''/instr''\<rparr>)
         else (None, u))"

fun objectives_of :: "cost_model \<Rightarrow> units \<Rightarrow> string list \<Rightarrow> (objective_function \<times> string) list" where
  "objectives_of cost u [] = []"
| "objectives_of cost u (name # names) =
     (case objective_of cost u name of (obj, u') \<Rightarrow>
        (case obj of None \<Rightarrow> [] | Some x \<Rightarrow> [x]) @ objectives_of cost u' names)"

definition add_objective :: "'s intra_env \<Rightarrow> objective_function \<times> string \<Rightarrow> 's intra \<Rightarrow> 's intra" where
  "add_objective env obj p =
     p\<lparr>it_searchAlgorithm := map_option (sa_addObjectiveFunction (ie_search env) (fst obj)) (it_searchAlgorithm p),
       it_objectives := it_objectives p @ [obj]\<rparr>"

definition intra_objectives :: "'s intra_env \<Rightarrow> 's intra \<Rightarrow> 's intra" where
  "intra_objectives env p =
     (case read_objectives env of (names, u) \<Rightarrow>
        fold (add_objective env) (if names = [] then [(Energy, energyUnit u)] else objectives_of (ie_cost env) u names) p)"


section \<open>Starting a tuning step\<close>

text \<open>The valid rts's of the phase region; without any the plugin aborts.\<close>

definition phase_rtss :: "calltree \<Rightarrow> rts_ptr list comp" where
  "phase_rtss st =
     cbind (deref (calltree_root (ct_appl st))) (\<lambda>r. getValidRtsOfRegion st (application.phase_region (ct_appl st)) r [])"

definition rts_ref_of :: "rts_object \<Rightarrow> rts_ref" where
  "rts_ref_of n = \<lparr>callPath = rn_callpathstring n\<rparr>"

definition add_phase :: "calltree \<Rightarrow> search_space \<Rightarrow> search_space comp" where
  "add_phase st ss =
     cbind (phase_rtss st) (\<lambda>rtsList.
       if rtsList = [] then fail Abort
       else cfold (\<lambda>r ss. cbind (rts_at st r) (\<lambda>n. addRts (Some (rts_ref_of n)) ss)) rtsList ss)"

definition search_do :: "('s \<Rightarrow> 's comp) \<Rightarrow> 's intra \<Rightarrow> 's intra comp" where
  "search_do f p = cbind (deref (it_searchAlgorithm p)) (\<lambda>s. cbind (f s) (\<lambda>t. ret (p\<lparr>it_searchAlgorithm := Some t\<rparr>)))"

subsection \<open>Application tuning parameters\<close>

definition atp_search :: "'s intra_env \<Rightarrow> 's comp" where
  "atp_search env =
     (let sa = ie_search env;
          name = (case ie_config env ''Configuration.periscope.atp.searchAlgorithm.name'' of
                    None \<Rightarrow> ''exhaustive_atp'' | Some n \<Rightarrow> n)
      in cbind (ie_load env name) (\<lambda>instance.
         cbind (if name = ''individual_atp''
                then cbind (deref instance) (\<lambda>s. ret (sa_set sa SetScenariosToKeep 1 (sa_setATPService sa s)))
                else if name = ''exhaustive_atp'' then cbind (deref instance) (\<lambda>s. ret (sa_setATPService sa s))
                else fail PluginError) (sa_initialize sa)))"

text \<open>One search space per domain; the parameters are numbered across the domains.\<close>

definition atp_parameter :: "tp_ptr \<Rightarrow> int \<times> 's intra \<times> world \<Rightarrow> int \<times> 's intra \<times> world" where
  "atp_parameter a = (\<lambda>(i, p, w).
     (i + 1, p\<lparr>it_tuningParameters := it_tuningParameters p @ [a]\<rparr>,
      w\<lparr>tp_heap := (tp_heap w)(a := (tp_heap w a)\<lparr>tp_ID := i\<rparr>)\<rparr>))"

definition atp_domain :: "'s intra_env \<Rightarrow> string \<times> tp_ptr list \<Rightarrow> int \<times> 's intra \<times> world \<Rightarrow> (int \<times> 's intra \<times> world) comp" where
  "atp_domain env = (\<lambda>(domain, tps) ipw.
     (case fold atp_parameter tps ipw of (i, p, w) \<Rightarrow>
        cbind (add_phase (it_calltree p) (setVariantSpace \<lparr>tuningParameters = tps\<rparr> (new_SearchSpace \<lparr>tuningParameters = []\<rparr>))) (\<lambda>ss.
        cbind (search_do (sa_addSearchSpace (ie_search env) (addDomain domain ss)) p) (\<lambda>p. ret (i, p, w)))))"

definition intra_atp_step :: "'s intra_env \<Rightarrow> int \<times> 's intra \<times> world \<Rightarrow> (int \<times> 's intra \<times> world) comp" where
  "intra_atp_step env = (\<lambda>(i, p, w).
     if ie_atp_mode env = Some ''DTA'' \<and> ie_atp_description env
     then if ie_atp_specs env = [] then ret (i, p, w)
          else cbind (atp_search env) (\<lambda>s.
               cbind (cfold (atp_domain env) (ie_atp_specs env) (i, p\<lparr>it_searchAlgorithm := Some s\<rparr>, w)) (\<lambda>(i, p, w).
                 ret (i, intra_objectives env p, w)))
     else ret (i, p\<lparr>it_tuningStep := HARDWARE_PARAMETER_TUNING\<rparr>, w))"

subsection \<open>Hardware parameters\<close>

text \<open>\<open>new TuningParameter()\<close>, numbered and appended to the plugin's parameters.\<close>

definition create_tp ::
  "'s intra_env \<Rightarrow> (tuning_parameter \<Rightarrow> tuning_parameter) \<Rightarrow> int \<times> 's intra \<times> world \<Rightarrow> int \<times> 's intra \<times> world" where
  "create_tp env f = (\<lambda>(i, p, w).
     let a = ie_new_tp env (it_created p)
     in (i + 1, p\<lparr>it_tuningParameters := it_tuningParameters p @ [a], it_created := Suc (it_created p)\<rparr>,
         w\<lparr>tp_heap := (tp_heap w)(a := f ((new_TuningParameter (tp_heap w a))\<lparr>tp_ID := i\<rparr>))\<rparr>))"

definition function_tp :: "string \<Rightarrow> int \<Rightarrow> tuning_parameter \<Rightarrow> tuning_parameter" where
  "function_tp name plugin tp =
     tp\<lparr>tp_name := name, pluginType := plugin, runtimeActionType := TUNING_ACTION_FUNCTION_POINTER\<rparr>"

definition default_tp :: "string \<Rightarrow> int \<Rightarrow> frequencies \<Rightarrow> tuning_parameter \<Rightarrow> tuning_parameter" where
  "default_tp name plugin f tp =
     (setRange (fq_min f) (fq_max f) (fq_step f) (function_tp name plugin tp))\<lparr>default_val := fq_default f\<rparr>"

definition optimum_tp :: "string \<times> int \<Rightarrow> tuning_parameter \<Rightarrow> tuning_parameter" where
  "optimum_tp = (\<lambda>(name, v) tp. setRange v v v (function_tp name Readex_Intraphase tp))"

definition hardware_parameters :: "'s intra_env \<Rightarrow> int \<times> 's intra \<times> world \<Rightarrow> (int \<times> 's intra \<times> world) comp" where
  "hardware_parameters env = (\<lambda>(i, p, w).
     cbind (read_frequencies (ie_config env) ''Configuration.tuningParameter.frequency''
              \<lparr>fq_min = it_min_freq p, fq_max = it_max_freq p, fq_step = it_freq_step p, fq_default = 2500\<rparr>) (\<lambda>freq.
     cbind (read_threads (ie_config env)) (\<lambda>(threadsLB, threadsStep).
     cbind (round_range freq) (\<lambda>freq.
       let p = p\<lparr>it_min_freq := fq_min freq, it_max_freq := fq_max freq, it_freq_step := fq_step freq, it_tuningParameters := []\<rparr>;
           optima = (if ie_atp_mode env = Some ''DTA'' then it_optimum_atp_map p else []);
           threads = \<lparr>fq_min = threadsLB, fq_max = ie_ompnumthreads env, fq_step = threadsStep, fq_default = ie_ompnumthreads env\<rparr>
       in if threadsLB > ie_ompnumthreads env then fail Abort
          else cbind (read_frequencies (ie_config env) ''Configuration.tuningParameter.uncore''
                 \<lparr>fq_min = 1000, fq_max = 3000, fq_step = 1000, fq_default = 3000\<rparr>) (\<lambda>uncore.
               cbind (round_range uncore) (\<lambda>uncore.
                 ret (create_tp env (default_tp ''UNCORE_FREQ'' UNKOWN_PLUGIN uncore)
                     (create_tp env (default_tp ''CPU_FREQ'' Readex_Intraphase freq)
                     (create_tp env (default_tp ''NUMTHREADS'' Readex_Intraphase threads)
                     (fold (\<lambda>x. create_tp env (optimum_tp x)) optima (i, p, w)))))))))))"

definition set_from_config :: "'s intra_env \<Rightarrow> string \<times> search_setter \<Rightarrow> 's \<Rightarrow> 's comp" where
  "set_from_config env = (\<lambda>(entry, f) s.
     (case ie_config env (''Configuration.periscope.searchAlgorithm.'' @ entry) of None \<Rightarrow> ret s
      | Some t \<Rightarrow> cbind (c_atoi t) (\<lambda>i. ret (sa_set (ie_search env) f i s))))"

definition search_setters :: "string \<Rightarrow> (string \<times> search_setter) list" where
  "search_setters name =
     (if name = ''individual'' then [(''keep'', SetScenariosToKeep)]
      else if name = ''random'' then [(''samples'', SetSampleCount)]
      else if name = ''gde3'' then [(''populationSize'', SetPopulationSize), (''maxGenerations'', SetMaxGenerations), (''timer'', SetTimer)]
      else [])"

definition hardware_search :: "'s intra_env \<Rightarrow> 's comp" where
  "hardware_search env =
     (let name = (case ie_config env ''Configuration.periscope.searchAlgorithm.name'' of None \<Rightarrow> ''individual'' | Some n \<Rightarrow> n)
      in cbind (ie_load env name) (\<lambda>instance.
         case instance of None \<Rightarrow> fail PluginError
         | Some s \<Rightarrow> cbind (sa_initialize (ie_search env) s) (cfold (set_from_config env) (search_setters name))))"

definition intra_hardware_step :: "'s intra_env \<Rightarrow> int \<times> 's intra \<times> world \<Rightarrow> ('s intra \<times> world) comp" where
  "intra_hardware_step env ipw =
     cbind (hardware_parameters env ipw) (\<lambda>(i, p, w).
     cbind (hardware_search env) (\<lambda>s.
     cbind (add_phase (it_calltree p) (setVariantSpace \<lparr>tuningParameters = it_tuningParameters p\<rparr>
              (new_SearchSpace \<lparr>tuningParameters = []\<rparr>))) (\<lambda>ss.
     cbind (search_do (sa_addSearchSpace (ie_search env) ss) (p\<lparr>it_searchAlgorithm := Some s\<rparr>)) (\<lambda>p.
       ret (intra_objectives env p, w)))))"

definition intra_startTuningStep :: "'s intra_env \<Rightarrow> 's intra side \<Rightarrow> 's intra side comp" where
  "intra_startTuningStep env s =
     cbind (if it_tuningStep (plugin_state s) = ATP_PARAMETER_TUNING then intra_atp_step env (0, plugin_state s, tuning_world s)
            else ret (0, plugin_state s, tuning_world s)) (\<lambda>(i, p, w).
     cbind (if it_tuningStep p = HARDWARE_PARAMETER_TUNING then intra_hardware_step env (i, p, w) else ret (p, w)) (\<lambda>(p, w).
       ret (set_intra p w s)))"

section \<open>One search step\<close>

definition intra_analysisRequired :: "'s intra side \<Rightarrow> (bool \<times> strategy_request option \<times> 's intra side) comp" where
  "intra_analysisRequired s = ret (False, None, s)"

definition intra_createScenarios :: "'s intra_env \<Rightarrow> 's intra side \<Rightarrow> 's intra side comp" where
  "intra_createScenarios env s =
     (let p = plugin_state s
      in if it_tuningParameters p \<noteq> [] \<and> it_tuningStep p \<le> 2
         then cbind (deref (it_searchAlgorithm p)) (\<lambda>a.
              cbind (sa_createScenarios (ie_search env) a (tuning_world s)) (\<lambda>(a, w).
                ret (set_intra (p\<lparr>it_searchAlgorithm := Some a\<rparr>) w s)))
         else ret s)"

definition intra_prepareScenarios :: "'s intra side \<Rightarrow> 's intra side comp" where
  "intra_prepareScenarios s =
     (let ps = pool_set (tuning_world s)
      in cbind (loop move_body (csp ps, psp ps)) (\<lambda>(c, p). ret (set_side_pools (ps\<lparr>csp := c, psp := p\<rparr>) s)))"

text \<open>The request asks for the energy of every valid rts of every significant region.\<close>

definition rts_request :: "calltree \<Rightarrow> rts_ptr \<Rightarrow> property_request list \<Rightarrow> property_request list comp" where
  "rts_request st r reqList =
     cbind (addPropertyID ENERGY_CONSUMPTION (PropertyRequest_all [])) (\<lambda>req.
     cbind (rts_at st r) (\<lambda>n.
     cbind (PropertyRequest_addRts (Some (rts_ref_of n)) req) (\<lambda>req. ret (reqList @ [addAllProcesses req]))))"

definition region_requests :: "calltree \<Rightarrow> property_request list comp" where
  "region_requests st =
     cfold (\<lambda>reg reqList. cbind (deref (calltree_root (ct_appl st))) (\<lambda>root_ptr.
              cbind (getValidRtsOfRegion st (Some reg) root_ptr []) (\<lambda>rtsList. cfold (rts_request st) rtsList reqList)))
       (sig_regions (ct_appl st)) []"

definition intra_info :: strategy_info where
  "intra_info = \<lparr>strategy_name = ''ConfigAnalysis'', pedantic = True, delay_phases = 0, delay_seconds = 0,
     analysis_duration = 1\<rparr>"

definition intra_defineExperiment ::
  "int \<Rightarrow> bool \<times> strategy_request option \<times> 's intra side \<Rightarrow> (bool \<times> strategy_request option \<times> 's intra side) comp" where
  "intra_defineExperiment numprocs = (\<lambda>(required, strategy, s).
     let ps = pool_set (tuning_world s); st = it_calltree (plugin_state s)
     in cbind (ScenarioPool_pop (psp ps)) (\<lambda>(scenario, p).
        cbind (phase_rtss st) (\<lambda>rtsList.
        if rtsList = [] then fail Abort
        else cbind (deref scenario) (\<lambda>sc.
             cbind (cfold (\<lambda>r sc. cbind (rts_at st r) (\<lambda>n.
                      ret (setSingleTunedRtsWithPropertyALLRanks (Some (rts_ref_of n)) ENERGY_CONSUMPTION sc))) rtsList sc) (\<lambda>sc.
               let s' = set_side_pools (ps\<lparr>psp := p, esp := ScenarioPool_push sc (esp ps)\<rparr>) s
               in if sig_regions (ct_appl st) = [] then ret (required, strategy, s')
                  else cbind (region_requests st) (\<lambda>reqs.
                       ret (True, Some (new_StrategyRequest (CONFIG reqs) intra_info), s')))))))"

definition intra_restartRequired ::
  "string \<times> int \<times> string \<times> bool \<Rightarrow> 's intra side \<Rightarrow> (bool \<times> (string \<times> int \<times> string \<times> bool) \<times> 's intra side) comp" where
  "intra_restartRequired q s = ret (False, q, s)"

definition intra_searchFinished :: "'s intra_env \<Rightarrow> 's intra side \<Rightarrow> (bool \<times> 's intra side) comp" where
  "intra_searchFinished env s =
     (let p = plugin_state s
      in if it_tuningParameters p \<noteq> []
         then cbind (deref (it_searchAlgorithm p)) (\<lambda>a.
              cbind (sa_searchFinished (ie_search env) a (tuning_world s)) (\<lambda>(b, a, w).
                ret (b, set_intra (p\<lparr>it_searchAlgorithm := Some a\<rparr>) w s)))
         else ret (True, s))"

definition intra_finishTuningStep :: "'s intra side \<Rightarrow> 's intra side comp" where
  "intra_finishTuningStep s = ret s"


section \<open>The end of a tuning step\<close>

subsection \<open>What is stored of a measurement\<close>

text \<open>\<open>atof\<close> is \<open>strtod\<close>: 0 without a number, and the nearest value, or an infinity, otherwise.\<close>

definition c_atof :: "string \<Rightarrow> dbl" where
  "c_atof s =
     (let (neg, t) = read_sign (dropWhile is_space s);
          (ip, ni, r) = read_digits t 0 0;
          (m, n, r') = read_fraction r ip ni;
          ex = read_exponent r' - (n - ni)
      in if n = 0 then dbl_of_int 0 else round_ratio neg (m * 10 ^ nat ex) (10 ^ nat (- ex)))"

record extra_info =
  xi_cpuEnergy :: dbl
  xi_time :: dbl
  xi_nodeEnergy :: dbl
  xi_instances :: int

definition add_info :: "string \<Rightarrow> meta_property \<Rightarrow> dbl \<Rightarrow> dbl comp" where
  "add_info key mp x =
     (case sm_find (addInfo mp) key of None \<Rightarrow> ret x | Some t \<Rightarrow> cbind (c_atoi t) (\<lambda>v. ret (dadd x (dbl_of_int v))))"

definition extra_of_property :: "meta_property \<Rightarrow> extra_info \<Rightarrow> extra_info comp" where
  "extra_of_property mp x =
     cbind (c_atoi (mp_id mp)) (\<lambda>pid.
       if pid \<noteq> ENERGY_CONSUMPTION then ret x
       else cbind (add_info ''CPUEnergy'' mp (xi_cpuEnergy x)) (\<lambda>cpu.
            cbind (add_info ''NodeEnergy'' mp (xi_nodeEnergy x)) (\<lambda>node.
              let y = x\<lparr>xi_cpuEnergy := cpu, xi_nodeEnergy := node\<rparr>
              in case sm_find (addInfo mp) ''Instances'' of None \<Rightarrow> ret y
                 | Some t \<Rightarrow> cbind (c_atoi t) (\<lambda>v.
                     ret (if v > xi_instances y
                          then y\<lparr>xi_instances := v, xi_time := (case sm_find (addInfo mp) ''ExecTime'' of
                                 None \<Rightarrow> xi_time y | Some e \<Rightarrow> c_atof e)\<rparr> else y)))))"

definition insertExtraInfo :: "meta_property list \<Rightarrow> extra_info \<Rightarrow> (extra_info \<times> (string, dbl) smap) comp" where
  "insertExtraInfo props x =
     cbind (cfold extra_of_property props x) (\<lambda>x.
       ret (x, sm_insert ''ExecTime'' (xi_time x) (sm_insert ''Instances'' (dbl_of_int (xi_instances x))
                 (sm_insert ''CPUEnergy'' (xi_cpuEnergy x) (sm_insert ''NodeEnergy'' (xi_nodeEnergy x) [])))))"

subsection \<open>Settings of a scenario\<close>

fun first_value :: "tp_store \<Rightarrow> string \<Rightarrow> (tp_ptr \<times> int) list \<Rightarrow> int" where
  "first_value heap name [] = - 1"
| "first_value heap name ((q, v) # rest) = (if tp_name (heap q) = name then v else first_value heap name rest)"

text \<open>A scenario that is not there is a null pointer \<open>operator[]\<close> makes.\<close>

definition getTuningValue :: "world \<Rightarrow> int \<Rightarrow> tp_ptr \<Rightarrow> int comp" where
  "getTuningValue w scenario_id a =
     cbind (deref (fst (getScenarioByScenarioID scenario_id (fsp (pool_set w))))) (\<lambda>sc.
     cbind (deref (sc_ts sc)) (\<lambda>ts.
       ret (first_value (tp_heap w) (tp_name (tp_heap w a)) (concat (map ts_variant ts)))))"

definition configuration_of :: "world \<Rightarrow> tp_ptr list \<Rightarrow> int \<Rightarrow> (tp_ptr, int) smap comp" where
  "configuration_of w tps scenario_id =
     cfold (\<lambda>a m. cbind (getTuningValue w scenario_id a) (\<lambda>v. ret (if v \<noteq> - 1 then sm_insert a v m else m))) tps []"

subsection \<open>The step of the application tuning parameters\<close>

definition note_optimum :: "'s intra_env \<Rightarrow> world \<Rightarrow> int \<Rightarrow> tp_ptr \<Rightarrow> (string, int) umap \<Rightarrow> (string, int) umap comp" where
  "note_optimum env w optimumSc a m =
     cbind (getTuningValue w optimumSc a) (\<lambda>v.
       let name = tp_name (tp_heap w a)
       in ret (if v \<noteq> - 1 \<and> \<not> sm_has m name then um_put (ie_map_order env) name v m else m))"

definition scenario_values ::
  "(objective_function \<times> string) list \<Rightarrow> int \<Rightarrow> scenario_results_pool \<Rightarrow> (string \<times> dbl) list comp" where
  "scenario_values objs scenario_id pool =
     cfold (\<lambda>(f, _) vs. cbind (objective f scenario_id pool) (\<lambda>v. ret (vs @ [(objective_name f, v)]))) objs []"

text \<open>The rows of the table of results are read for printing only.\<close>

definition read_row :: "'s intra \<Rightarrow> world \<Rightarrow> int \<Rightarrow> unit comp" where
  "read_row p w scenario_id =
     cfold (\<lambda>a _. cbind (getTuningValue w scenario_id a) (\<lambda>_. ret ())) (it_tuningParameters p) ()"

definition clear_pools :: "world \<Rightarrow> world" where
  "clear_pools w =
     w\<lparr>pool_set := (pool_set w)\<lparr>csp := ScenarioPool_clear (csp (pool_set w)), psp := ScenarioPool_clear (psp (pool_set w)),
         esp := ScenarioPool_clear (esp (pool_set w)), srp := srp_clear (srp (pool_set w)),
         fsp := ScenarioPool_clear (fsp (pool_set w))\<rparr>\<rparr>"

definition atp_finished :: "'s intra_env \<Rightarrow> 's intra \<Rightarrow> world \<Rightarrow> ('s intra \<times> world) comp" where
  "atp_finished env p w =
     (if ie_atp_mode env \<noteq> Some ''DTA'' then ret (p, w)
      else cbind (deref (it_searchAlgorithm p)) (\<lambda>a.
           cbind (sa_getOptimum (ie_search env) a) (\<lambda>optimumSc.
           cbind (cfold (note_optimum env w optimumSc) (it_tuningParameters p) (it_optimum_atp_map p)) (\<lambda>m.
           cbind (cfold (\<lambda>i _. cbind (read_row p w i) (\<lambda>_. cbind (scenario_values (it_objectives p) i (srp (pool_set w))) (\<lambda>_. ret ())))
                    (map int [0..<length (fsp (pool_set w))]) ()) (\<lambda>_.
             ret (p\<lparr>it_optimum_atp_map := m, it_scenario_no_atp := ScenarioPool_size (fsp (pool_set w)), it_objectives := [],
                    it_searchAlgorithm := Some (sa_clear (ie_search env) a)\<rparr>, clear_pools w))))))"

subsection \<open>The step of the hardware parameters: the phase\<close>

text \<open>Every finished scenario gets its objective values. A scenario looked up and not found is inserted.\<close>

definition result_body ::
  "'s intra \<Rightarrow> scenario_results_pool \<Rightarrow> int \<times> scenario_pool \<Rightarrow> (bool \<times> int \<times> scenario_pool) comp" where
  "result_body p pool = (\<lambda>(i, finished).
     if i < it_scenario_no_atp p + ScenarioPool_size finished
     then (case getScenarioByScenarioID i finished of (scenario, finished) \<Rightarrow>
             cbind (cfold (\<lambda>(f, _) sc. cbind (objective f i pool) (\<lambda>v. cbind (deref sc) (\<lambda>s.
                      ret (Some (addResult (objective_name f) v s))))) (it_objectives p) scenario) (\<lambda>scenario.
               ret (True, (i + 1, sm_put i scenario finished))))
     else ret (False, (i, finished)))"

definition add_results :: "'s intra \<Rightarrow> world \<Rightarrow> world comp" where
  "add_results p w =
     cbind (loop (result_body p (srp (pool_set w))) (it_scenario_no_atp p, fsp (pool_set w))) (\<lambda>(_, finished).
       ret (w\<lparr>pool_set := (pool_set w)\<lparr>fsp := finished\<rparr>\<rparr>))"

definition scenario_numbers :: "'s intra \<Rightarrow> world \<Rightarrow> int list" where
  "scenario_numbers p w = map (\<lambda>k. it_scenario_no_atp p + int k) [0..<length (fsp (pool_set w))]"

record phase_values =
  pv_bestPhaseTime :: dbl
  pv_staticBest :: dbl
  pv_staticWorst :: dbl
  pv_best :: "(string, dbl) smap"
  pv_worst :: "(string, dbl) smap"

definition insert_values :: "(string \<times> dbl) list \<Rightarrow> (string, dbl) smap \<Rightarrow> (string, dbl) smap" where
  "insert_values vs m = fold (\<lambda>(name, v). sm_insert name v) vs m"

definition phase_row :: "'s intra \<Rightarrow> world \<Rightarrow> scenario option \<Rightarrow> int \<Rightarrow> int \<Rightarrow> int \<Rightarrow> phase_values \<Rightarrow> phase_values comp" where
  "phase_row p w best_scenario optimumSc worstSc i pv =
     cbind (read_row p w i) (\<lambda>_.
     cbind (scenario_values (it_objectives p) i (srp (pool_set w))) (\<lambda>vs.
     if vs = [] then ret pv
     else cbind (deref best_scenario) (\<lambda>best.
       let pv = pv\<lparr>pv_bestPhaseTime := fold (\<lambda>(name, v) t. if sc_key best = i \<and> name = ''Time'' then v else t) vs (pv_bestPhaseTime pv)\<rparr>;
           pv = (if i = optimumSc then pv\<lparr>pv_staticBest := snd (hd vs), pv_best := insert_values vs (pv_best pv)\<rparr> else pv)
       in ret (if i = worstSc then pv\<lparr>pv_staticWorst := snd (hd vs), pv_worst := insert_values vs (pv_worst pv)\<rparr> else pv))))"

definition plugin_name :: string where "plugin_name = ''readex_intraphase''"

definition phase_result ::
  "'s intra_env \<Rightarrow> scenario_results_pool \<Rightarrow> nat \<times> int \<times> config_type \<times> dbl \<times> (tp_ptr, int) smap \<times> (string, dbl) smap \<Rightarrow> calltree \<Rightarrow> calltree comp" where
  "phase_result env pool = (\<lambda>(k, scenario_id, config, value, settings, objs) st.
     case ie_stack env k of (cpu, time, node) \<Rightarrow>
       cbind (getScenarioResultsByID scenario_id pool) (\<lambda>props.
       cbind (insertExtraInfo props \<lparr>xi_cpuEnergy = cpu, xi_time = time, xi_nodeEnergy = node, xi_instances = 0\<rparr>) (\<lambda>(_, info).
       cbind (deref (calltree_root (ct_appl st))) (\<lambda>r.
         update_rts r (insertPluginResult plugin_name (insertTuningResult value settings objs info [] []) config) st))))"

subsection \<open>The step of the hardware parameters: the runtime situations\<close>

record scan =
  sn_optScenario :: int
  sn_optimum :: dbl
  sn_worst :: dbl
  sn_static :: dbl

definition no_scan :: scan where
  "no_scan = \<lparr>sn_optScenario = - 1, sn_optimum = dbl_of_int 0, sn_worst = dbl_of_int 0, sn_static = dbl_of_int 0\<rparr>"

definition scan_value :: "int \<Rightarrow> int \<Rightarrow> int \<Rightarrow> dbl \<Rightarrow> scan \<Rightarrow> scan" where
  "scan_value optimumSc worstSc i objValue n =
     (let n = (if (sn_optScenario n = - 1 \<or> dlt objValue (sn_optimum n)) \<and> nonzero objValue
               then n\<lparr>sn_optScenario := i, sn_optimum := objValue\<rparr> else n);
          n = (if i = worstSc then n\<lparr>sn_worst := objValue\<rparr> else n)
      in if i = optimumSc then n\<lparr>sn_static := objValue\<rparr> else n)"

definition scan_scenario ::
  "'s intra \<Rightarrow> string \<Rightarrow> int \<Rightarrow> int \<Rightarrow> int \<Rightarrow> scan \<times> analysis_results_pool \<Rightarrow> (scan \<times> analysis_results_pool) comp" where
  "scan_scenario p cpath optimumSc worstSc i = (\<lambda>(n, pool).
     cbind (getPropertiesForScenarioIDandEntity i cpath pool) (\<lambda>(props, pool).
     cbind (vector_at (it_objectives p) 0) (\<lambda>(f, _).
     cbind (objective_props f [] props) (\<lambda>objValue.
     cbind (cfold (\<lambda>(g, _) _. if objective_name g = ''NormalizedEnergy'' then cbind (objective_props g [] props) (\<lambda>_. ret ()) else ret ())
              (it_objectives p) ()) (\<lambda>_.
       ret (scan_value optimumSc worstSc i objValue n, pool))))))"

text \<open>What the loop over the rts's changes: the pool, the tree, the specifications and the entries of the file.\<close>

record rts_state =
  hs_arp :: analysis_results_pool
  hs_tree :: calltree
  hs_ts :: "tuning_specification list"
  hs_entry :: rts_entry
  hs_entries :: "rts_entry list"

definition weight_of :: "dbl \<Rightarrow> dbl \<Rightarrow> dbl" where
  "weight_of bestPhaseTime time = (if nonzero bestPhaseTime then dmul (ddiv time bestPhaseTime) (dbl_of_int 100) else dbl_of_int 0)"

definition rts_result ::
  "'s intra_env \<Rightarrow> 's intra \<Rightarrow> world \<Rightarrow> dbl \<Rightarrow> rts_ptr \<Rightarrow> string \<Rightarrow> config_type \<times> int \<times> dbl \<Rightarrow> rts_state \<Rightarrow> rts_state comp" where
  "rts_result env p w bestPhaseTime r cpath = (\<lambda>(config, scenario_id, value) h.
     cbind (getPropertiesForScenarioIDandEntity scenario_id cpath (hs_arp h)) (\<lambda>(props, pool).
     cbind (configuration_of w (it_tuningParameters p) scenario_id) (\<lambda>settings.
     cbind (cfold (\<lambda>(f, _) vs. cbind (objective_props f [] props) (\<lambda>v. ret (vs @ [(objective_name f, v)]))) (it_objectives p) []) (\<lambda>vs.
     let ts = (if config = RTS_BEST
               then [TuningSpecification_entities (withRtsSupport (ie_build env)) settings [cpath] (uninit_bool (ie_build env))] else []);
         zero = dbl_of_int 0
     in cbind (insertExtraInfo props \<lparr>xi_cpuEnergy = zero, xi_time = zero, xi_nodeEnergy = zero, xi_instances = 0\<rparr>) (\<lambda>(x, info).
        cbind (update_rts r (insertPluginResult plugin_name
                 (insertTuningResult value settings (insert_values vs []) info [] []) config) (hs_tree h)) (\<lambda>st.
          ret (h\<lparr>hs_arp := pool, hs_tree := st, hs_ts := hs_ts h @ ts,
                 hs_entry := (hs_entry h)\<lparr>re_execTime := Some (xi_time x), re_weight := Some (weight_of bestPhaseTime (xi_time x))\<rparr>\<rparr>)))))))"

text \<open>The entry of a region's file is one object for all its rts's; what an rts does not put stays.\<close>

definition tune_rts ::
  "'s intra_env \<Rightarrow> 's intra \<Rightarrow> world \<Rightarrow> dbl \<Rightarrow> int \<Rightarrow> int \<Rightarrow> rts_ptr \<Rightarrow> rts_state \<Rightarrow> rts_state comp" where
  "tune_rts env p w bestPhaseTime optimumSc worstSc r h =
     cbind (rts_at (hs_tree h) r) (\<lambda>n.
     let cpath = rn_callpathstring n; h = h\<lparr>hs_entry := (hs_entry h)\<lparr>re_callpath := cpath\<rparr>\<rparr>
     in cbind (cfold (scan_scenario p cpath optimumSc worstSc) (scenario_numbers p w) (no_scan, hs_arp h)) (\<lambda>(sn, pool).
        cbind (if optimumSc \<noteq> - 1 \<and> sn_optScenario sn \<noteq> - 1 \<and> nonzero (sn_worst sn)
               then cfold (rts_result env p w bestPhaseTime r cpath)
                      [(STATIC_WORST, worstSc, sn_worst sn), (STATIC_BEST, optimumSc, sn_static sn),
                       (RTS_BEST, sn_optScenario sn, sn_optimum sn)] (h\<lparr>hs_arp := pool\<rparr>)
               else ret (h\<lparr>hs_arp := pool\<rparr>)) (\<lambda>h.
          ret (h\<lparr>hs_entries := hs_entries h @ [hs_entry h]\<rparr>))))"

definition tune_region ::
  "'s intra_env \<Rightarrow> 's intra \<Rightarrow> world \<Rightarrow> dbl \<Rightarrow> int \<Rightarrow> int \<Rightarrow> region_ptr \<Rightarrow> rts_state \<Rightarrow> rts_state comp" where
  "tune_region env p w bestPhaseTime optimumSc worstSc region_ref h =
     cbind (deref (calltree_root (ct_appl (hs_tree h)))) (\<lambda>root_ptr.
     cbind (getValidRtsOfRegion (hs_tree h) (Some region_ref) root_ptr []) (\<lambda>rtsList.
       cfold (tune_rts env p w bestPhaseTime optimumSc worstSc) rtsList
         (h\<lparr>hs_entry := \<lparr>re_callpath = '''', re_execTime = None, re_weight = None\<rparr>\<rparr>)))"

subsection \<open>The verification scenarios\<close>

definition push_readex_scenario :: "tuning_specification list \<Rightarrow> 's intra \<times> world \<Rightarrow> 's intra \<times> world" where
  "push_readex_scenario ts = (\<lambda>(p, w).
     let (sc, n) = new_Scenario (Some ts) (next_scenario_id w); sc = sc\<lparr>rtsBased := True\<rparr>
     in (p\<lparr>it_readexScenario := sc_key sc\<rparr>,
         w\<lparr>next_scenario_id := n, pool_set := (pool_set w)\<lparr>csp := ScenarioPool_push sc (csp (pool_set w))\<rparr>\<rparr>))"

definition phase_specification :: "'s intra_env \<Rightarrow> calltree \<Rightarrow> (tp_ptr, int) smap \<Rightarrow> tuning_specification comp" where
  "phase_specification env st settings =
     cbind (phase_rtss st) (\<lambda>rtsList. cbind (vector_at rtsList 0) (\<lambda>r. cbind (rts_at st r) (\<lambda>n.
       ret (TuningSpecification_entities (withRtsSupport (ie_build env)) settings [rn_callpathstring n] (uninit_bool (ie_build env))))))"

definition hardware_finished :: "'s intra_env \<Rightarrow> 's intra \<Rightarrow> world \<Rightarrow> ('s intra \<times> world) comp" where
  "hardware_finished env p w =
     cbind (add_results p w) (\<lambda>w.
     cbind (deref (it_searchAlgorithm p)) (\<lambda>a.
     cbind (sa_getOptimum (ie_search env) a) (\<lambda>optimumSc.
     cbind (sa_getWorst (ie_search env) a) (\<lambda>worstSc.
     case getScenarioByScenarioID optimumSc (fsp (pool_set w)) of (best_scenario, finished) \<Rightarrow>
     let w = w\<lparr>pool_set := (pool_set w)\<lparr>fsp := finished\<rparr>\<rparr>
     in cbind (configuration_of w (it_tuningParameters p) optimumSc) (\<lambda>best.
        cbind (configuration_of w (it_tuningParameters p) worstSc) (\<lambda>worst.
        cbind (phase_specification env (it_calltree p) best) (\<lambda>ts.
        cbind (cfold (phase_row p w best_scenario optimumSc worstSc) (scenario_numbers p w)
                 \<lparr>pv_bestPhaseTime = ie_phase_time env, pv_staticBest = dbl_of_int 0, pv_staticWorst = dbl_of_int 0,
                  pv_best = [], pv_worst = []\<rparr>) (\<lambda>pv.
        cbind (cfold (phase_result env (srp (pool_set w)))
                 [(0, optimumSc, STATIC_BEST, pv_staticBest pv, best, pv_best pv),
                  (1, worstSc, STATIC_WORST, pv_staticWorst pv, worst, pv_worst pv),
                  (2, optimumSc, RTS_BEST, pv_staticBest pv, best, pv_best pv)] (it_calltree p)) (\<lambda>st.
        cbind (cfold (tune_region env p w (pv_bestPhaseTime pv) optimumSc worstSc) (sig_regions (ct_appl st))
                 \<lparr>hs_arp = arp (pool_set w), hs_tree = st, hs_ts = [ts],
                  hs_entry = \<lparr>re_callpath = '''', re_execTime = None, re_weight = None\<rparr>, hs_entries = []\<rparr>) (\<lambda>h.
          ret (((push_readex_scenario (hs_ts h)) ^^ 3)
                 (p\<lparr>it_calltree := hs_tree h,
                    it_rts_file := (if sig_regions (ct_appl st) = [] then it_rts_file p else Some (hs_entries h))\<rparr>,
                  w\<lparr>pool_set := (pool_set w)\<lparr>arp := hs_arp h\<rparr>\<rparr>))))))))))))"

subsection \<open>Verification\<close>

definition verification_finished :: "'s intra \<Rightarrow> world \<Rightarrow> unit comp" where
  "verification_finished p w =
     cbind (vector_at (it_objectives p) 0) (\<lambda>(f, _).
     cbind (objective f (it_readexScenario p) (srp (pool_set w))) (\<lambda>readex_energy.
     cbind (cfold (\<lambda>i _. cbind (scenario_values (it_objectives p) i (srp (pool_set w))) (\<lambda>_. ret ()))
              [it_readexScenario p, it_readexScenario p - 1, it_readexScenario p - 2] ()) (\<lambda>_.
     cbind (displaySavings (it_calltree p)) (\<lambda>_. ret ()))))"

definition intra_tuningFinished :: "'s intra_env \<Rightarrow> 's intra side \<Rightarrow> (bool \<times> 's intra side) comp" where
  "intra_tuningFinished env s =
     (let p = plugin_state s; w = tuning_world s;
          next_step = (\<lambda>(p, w). ret (False, set_intra (p\<lparr>it_tuningStep := it_tuningStep p + 1\<rparr>) w s))
      in if it_tuningStep p = ATP_PARAMETER_TUNING then cbind (atp_finished env p w) next_step
         else if it_tuningStep p = HARDWARE_PARAMETER_TUNING then cbind (hardware_finished env p w) next_step
         else cbind (verification_finished p w) (\<lambda>_. ret (True, s)))"

section \<open>Advice\<close>

definition widen_range :: "tp_ptr \<Rightarrow> tp_store \<Rightarrow> tp_store" where
  "widen_range a heap =
     (let tp = heap a
      in if rangeTo tp < default_val tp
         then heap(a := setRangeTo (default_val tp) (if tp_name tp = ''NUMTHREADS'' then 1 else 100) tp) else heap)"

definition intra_getAdvice :: "'s intra_env \<Rightarrow> 's intra side \<Rightarrow> (bool option \<times> 's intra side) comp" where
  "intra_getAdvice env s =
     (let p = plugin_state s; w = tuning_world s; st = it_calltree p
      in cbind (deref (calltree_root (ct_appl st))) (\<lambda>r.
         cbind (insertDefaultTPValues (tp_heap w) (it_tuningParameters p) r st) (\<lambda>st.
           let heap = fold widen_range (it_tuningParameters p) (tp_heap w)
           in cbind (ie_generate env st heap) (\<lambda>_.
                ret (None, set_intra (p\<lparr>it_calltree := st\<rparr>) (w\<lparr>tp_heap := heap\<rparr>) s)))))"

definition intra_finalize :: "'s intra side \<Rightarrow> 's intra side comp" where
  "intra_finalize s = ret (s\<lparr>plugin_state := (plugin_state s)\<lparr>it_searchAlgorithm := None\<rparr>\<rparr>)"

definition intraphase_plugin :: "'s intra_env \<Rightarrow> 's intra plugin" where
  "intraphase_plugin env =
     \<lparr>pl_initialize = intra_initialize, pl_startTuningStep = intra_startTuningStep env,
      pl_analysisRequired = intra_analysisRequired, pl_createScenarios = intra_createScenarios env,
      pl_prepareScenarios = intra_prepareScenarios, pl_defineExperiment = intra_defineExperiment,
      pl_restartRequired = intra_restartRequired, pl_searchFinished = intra_searchFinished env,
      pl_finishTuningStep = intra_finishTuningStep, pl_tuningFinished = intra_tuningFinished env,
      pl_getAdvice = intra_getAdvice env, pl_finalize = intra_finalize\<rparr>"

end
