(* ===== verification/IntraphaseCorrect.thy ===== *)
theory IntraphaseCorrect
  imports IntraphasePlugin
begin

text \<open>
  The READEX intra-phase plugin is correct: the ranges it makes of the configuration, what it asks the agents for,
  what it keeps of the measurements in the call tree, and the tuning steps it takes. Behaviour of the code that is
  not what it is meant to do is stated as such.
\<close>

section \<open>Ranges\<close>

text \<open>
  C39: The range made of a configured range of frequencies: when the lower end is above the upper end the plugin
  aborts; a step of 0 (or a range longer than an \<open>int\<close>) is undefined behaviour; otherwise the lower end and the step
  stay, and the upper end becomes the last value below it that lies on the grid of the step, whatever its sign.
\<close>

theorem range_rounded_down:
  assumes "in_int (fq_min f)" and "in_int (fq_max f)"
  shows "round_range f =
    (if fq_max f < fq_min f then fail Abort
     else if fq_step f = 0 \<or> \<not> in_int (fq_max f - fq_min f) then fail UB
     else ret (f\<lparr>fq_max := fq_min f + (fq_max f - fq_min f) div \<bar>fq_step f\<bar> * \<bar>fq_step f\<bar>\<rparr>))"
proof -
  let ?d = "fq_max f - fq_min f" and ?s = "fq_step f"
  have *: "round_range f = ret (f\<lparr>fq_max := fq_min f + ?d div \<bar>?s\<bar> * \<bar>?s\<bar>\<rparr>)"
    if d: "0 \<le> ?d" "in_int ?d" and s: "?s \<noteq> 0"
  proof -
    have m: "cmod ?d ?s = ret (?d mod \<bar>?s\<bar>)"
      using d s by (cases "?d = 0") (auto simp: cmod_def in_int_def INT_MIN_def)
    have q: "cdiv ?d ?s = ret (sgn ?s * (?d div \<bar>?s\<bar>))"
      using d s by (cases "?d = 0") (auto simp: cdiv_def in_int_def INT_MIN_def)
    have p: "sgn ?s * (?d div \<bar>?s\<bar>) * ?s = ?d div \<bar>?s\<bar> * \<bar>?s\<bar>"
      by (simp add: abs_sgn ac_simps)
    have l: "0 \<le> ?d div \<bar>?s\<bar> * \<bar>?s\<bar>" "?d div \<bar>?s\<bar> * \<bar>?s\<bar> \<le> ?d"
      using d s zmod_le_nonneg_dividend [of ?d "\<bar>?s\<bar>"]
      by (simp_all add: pos_imp_zdiv_nonneg_iff minus_mod_eq_div_mult [symmetric])
    have e: "?d mod \<bar>?s\<bar> = 0 \<Longrightarrow> ?d div \<bar>?s\<bar> * \<bar>?s\<bar> = ?d"
      by (metis add.right_neutral div_mult_mod_eq)
    have i: "in_int (?d div \<bar>?s\<bar> * \<bar>?s\<bar>)" "in_int (fq_min f + ?d div \<bar>?s\<bar> * \<bar>?s\<bar>)"
      using l d assms by (auto simp: in_int_def INT_MIN_def)
    show ?thesis
      using d e i by (auto simp: round_range_def m q p)
  qed
  show ?thesis
    using * by (auto simp: round_range_def cmod_def check_def)
qed

theorem range_rounded_down_witness:
  "round_range \<lparr>fq_min = 1200, fq_max = 2500, fq_step = 400, fq_default = 0\<rparr> =
     ret \<lparr>fq_min = 1200, fq_max = 2400, fq_step = 400, fq_default = 0\<rparr>"
  using range_rounded_down [of "\<lparr>fq_min = 1200, fq_max = 2500, fq_step = 400, fq_default = 0\<rparr>"]
  by (simp add: in_int_def INT_MIN_def INT_MAX_def)

section \<open>Measurements collected\<close>

definition arp_ok :: "analysis_results_pool \<Rightarrow> bool" where
  "arp_ok pool \<longleftrightarrow> sm_wf (results_per_experiment pool) \<and> (\<exists>M. \<forall>k \<in> experiments pool. 0 \<le> k \<and> k < M) \<and>
     (\<forall>k. \<forall>mp \<in> set (experiment_results pool k). measured mp)"

text \<open>What the pool holds for a scenario and an rts.\<close>

definition rts_properties :: "analysis_results_pool \<Rightarrow> int \<Rightarrow> string \<Rightarrow> meta_property list" where
  "rts_properties pool i entity =
     concat (map (\<lambda>(k, mps). filter (\<lambda>mp. scenario_of mp = i \<and> entity_of mp = entity) mps) (results_per_experiment pool))"

lemma concat_map_filter: "(\<And>x. x \<in> set xs \<Longrightarrow> \<not> P x \<Longrightarrow> f x = []) \<Longrightarrow> concat (map f xs) = concat (map f (filter P xs))"
  by (induction xs) auto

lemma rts_properties_upto:
  assumes wf: "sm_wf (results_per_experiment pool)" and n: "experiments pool \<subseteq> {0..<int n}"
  shows "rts_properties pool i entity = concat (map (\<lambda>k. selected i entity pool (int k)) [0..<n])"
proof -
  let ?m = "results_per_experiment pool" and ?f = "\<lambda>k. selected i entity pool k"
  have inter: "set (filter (\<lambda>k. k \<in> D) (map int [0..<n])) = {0..<int n} \<inter> D" for D
    by (simp only: set_filter set_map set_upt image_int_atLeastLessThan) auto
  have keys: "set (map fst ?m) = experiments pool" by (simp add: keys_sm_find)
  have "filter (\<lambda>k. k \<in> experiments pool) (map int [0..<n]) = map fst ?m"
  proof (rule sorted_distinct_set_unique)
    show "set (filter (\<lambda>k. k \<in> experiments pool) (map int [0..<n])) = set (map fst ?m)"
      unfolding keys inter using n by blast
    show "sorted (map fst ?m)" using wf by (simp add: sm_wf_def strict_sorted_iff)
    show "sorted (filter (\<lambda>k. k \<in> experiments pool) (map int [0..<n]))"
      by (rule sorted_wrt_filter) (simp add: sorted_map sorted_wrt_upt)
    show "distinct (map fst ?m)" by (rule sm_wf_distinct [OF wf])
  qed (simp add: distinct_map)
  moreover have "concat (map ?f (map int [0..<n])) = concat (map ?f (filter (\<lambda>k. k \<in> experiments pool) (map int [0..<n])))"
    by (rule concat_map_filter) (auto simp: selected_def experiment_results_def split: option.splits)
  ultimately have a: "concat (map ?f (map int [0..<n])) = concat (map ?f (map fst ?m))" by simp
  have b: "map ?f (map fst ?m) = map (\<lambda>(k, mps). filter (\<lambda>mp. scenario_of mp = i \<and> entity_of mp = entity) mps) ?m"
    using sm_wf_distinct [OF wf] by (auto simp: selected_def experiment_results_def sm_find_def map_of_is_SomeI)
  have "rts_properties pool i entity = concat (map ?f (map int [0..<n]))"
    unfolding rts_properties_def b [symmetric] a ..
  then show ?thesis by (simp add: comp_def)
qed

lemma rts_properties_collected:
  assumes "arp_ok pool"
  obtains q where "getPropertiesForScenarioIDandEntity i entity pool = ret (rts_properties pool i entity, q)"
    and "arp_ok q" and "rts_properties q = rts_properties pool"
proof -
  from assms obtain M where M: "\<forall>k \<in> experiments pool. 0 \<le> k \<and> k < M" by (auto simp: arp_ok_def)
  from properties_collected [of pool M i entity] assms M obtain n q where
    g: "getPropertiesForScenarioIDandEntity i entity pool = ret (concat (map (\<lambda>k. selected i entity pool (int k)) [0..<n]), q)"
    and n: "experiments pool \<subseteq> {0..<int n}" and same: "\<And>k. experiment_results q k = experiment_results pool k"
    and wf: "sm_wf (results_per_experiment q)" and dom: "experiments q \<subseteq> experiments pool \<union> {0..<int n}"
    unfolding arp_ok_def selected_def by blast
  have q: "experiments q \<subseteq> {0..<int n}" using n dom by blast
  have "arp_ok q" using wf q same assms unfolding arp_ok_def by (auto intro!: exI [of _ "int n"])
  moreover have p: "sm_wf (results_per_experiment pool)" using assms by (simp add: arp_ok_def)
  moreover have "rts_properties q j e = rts_properties pool j e" for j e
    unfolding rts_properties_upto [OF wf q] rts_properties_upto [OF p n] by (simp add: selected_def same)
  ultimately show ?thesis using that g rts_properties_upto [OF p n] by (auto simp: fun_eq_iff)
qed

section \<open>The best scenario of a runtime situation\<close>

text \<open>The value the first objective has for an rts in a scenario.\<close>

definition rts_value :: "'s intra \<Rightarrow> analysis_results_pool \<Rightarrow> string \<Rightarrow> int \<Rightarrow> dbl comp" where
  "rts_value p pool entity i =
     cbind (vector_at (it_objectives p) 0) (\<lambda>(f, _). objective_props f [] (rts_properties pool i entity))"

lemma scan_scenario_ret:
  assumes "arp_ok pool" and "scan_scenario p entity optimumSc worstSc i (n, pool) = ret (n', pool')"
  shows "\<exists>v. rts_value p pool entity i = ret v \<and> n' = scan_value optimumSc worstSc i v n \<and>
    arp_ok pool' \<and> rts_properties pool' = rts_properties pool"
proof -
  obtain q where "getPropertiesForScenarioIDandEntity i entity pool = ret (rts_properties pool i entity, q)"
    and "arp_ok q" and "rts_properties q = rts_properties pool"
    using rts_properties_collected [OF assms(1)] by blast
  with assms(2) show ?thesis
    by (cases "it_objectives p ! 0") (auto simp: scan_scenario_def rts_value_def cbind_eq_ret)
qed

lemma rts_value_cong: "rts_properties q = rts_properties pool \<Longrightarrow> rts_value p q = rts_value p pool"
  by (simp add: rts_value_def fun_eq_iff)

text \<open>
  After a scan: the optimum is the value of the scenario it is kept with, no value but 0 is below it, and the
  values of the best and the worst scenario of the phase are those measured.
\<close>

definition scan_inv :: "(int \<Rightarrow> dbl comp) \<Rightarrow> int \<Rightarrow> int \<Rightarrow> int list \<Rightarrow> scan \<Rightarrow> bool" where
  "scan_inv value optimumSc worstSc seen n \<longleftrightarrow>
     (\<forall>i \<in> set seen. \<exists>v. value i = ret v) \<and>
     (if sn_optScenario n = - 1 then \<forall>i v. i \<in> set seen \<longrightarrow> value i = ret v \<longrightarrow> \<not> nonzero v
      else sn_optScenario n \<in> set seen \<and> value (sn_optScenario n) = ret (sn_optimum n) \<and> nonzero (sn_optimum n) \<and>
        (\<forall>i v. i \<in> set seen \<longrightarrow> value i = ret v \<longrightarrow> \<not> nonzero v \<or> \<not> dlt v (sn_optimum n))) \<and>
     (if optimumSc \<in> set seen then value optimumSc = ret (sn_static n) else \<not> nonzero (sn_static n)) \<and>
     (if worstSc \<in> set seen then value worstSc = ret (sn_worst n) else \<not> nonzero (sn_worst n))"

lemma nonzero_zero [simp]: "\<not> nonzero (dbl_of_int 0)"
  unfolding nonzero_def by code_simp

lemma scan_inv_none [simp]: "scan_inv value optimumSc worstSc [] no_scan"
  by (simp add: scan_inv_def no_scan_def)

lemma scan_inv_step:
  assumes inv: "scan_inv value optimumSc worstSc seen n" and v: "value i = ret v" and i: "0 \<le> i"
  shows "scan_inv value optimumSc worstSc (seen @ [i]) (scan_value optimumSc worstSc i v n)"
proof -
  let ?n = "scan_value optimumSc worstSc i v n"
  let ?best = "\<lambda>n seen. if sn_optScenario n = - 1 then \<forall>i v. i \<in> set seen \<longrightarrow> value i = ret v \<longrightarrow> \<not> nonzero v
      else sn_optScenario n \<in> set seen \<and> value (sn_optScenario n) = ret (sn_optimum n) \<and> nonzero (sn_optimum n) \<and>
        (\<forall>i v. i \<in> set seen \<longrightarrow> value i = ret v \<longrightarrow> \<not> nonzero v \<or> \<not> dlt v (sn_optimum n))"
  have b: "?best n seen" using inv unfolding scan_inv_def by blast
  have o: "sn_optScenario ?n = (if (sn_optScenario n = - 1 \<or> dlt v (sn_optimum n)) \<and> nonzero v then i else sn_optScenario n)"
    "sn_optimum ?n = (if (sn_optScenario n = - 1 \<or> dlt v (sn_optimum n)) \<and> nonzero v then v else sn_optimum n)"
    by (simp_all add: scan_value_def Let_def)
  have "?best ?n (seen @ [i])"
  proof (cases "(sn_optScenario n = - 1 \<or> dlt v (sn_optimum n)) \<and> nonzero v")
    case True
    have "\<not> nonzero u \<or> \<not> dlt u v" if "j \<in> set seen" "value j = ret u" for j u
      using that b True dlt_trans [of u v "sn_optimum n"] by (auto split: if_splits)
    then show ?thesis using True v i by (auto simp: o)
  next
    case False
    then show ?thesis using b v by (auto simp: o)
  qed
  moreover have "if optimumSc \<in> set (seen @ [i]) then value optimumSc = ret (sn_static ?n) else \<not> nonzero (sn_static ?n)"
    "if worstSc \<in> set (seen @ [i]) then value worstSc = ret (sn_worst ?n) else \<not> nonzero (sn_worst ?n)"
    using inv v by (auto simp: scan_inv_def scan_value_def Let_def split: if_splits)
  moreover have "\<forall>i \<in> set (seen @ [i]). \<exists>v. value i = ret v" using inv v by (auto simp: scan_inv_def)
  ultimately show ?thesis unfolding scan_inv_def by blast
qed

lemma scan_fold:
  assumes "cfold (scan_scenario p entity optimumSc worstSc) ids (n, pool) = ret (n', pool')"
    and "scan_inv (rts_value p pool0 entity) optimumSc worstSc seen n" and "arp_ok pool"
    and "rts_properties pool = rts_properties pool0" and "\<forall>i \<in> set ids. 0 \<le> i"
  shows "scan_inv (rts_value p pool0 entity) optimumSc worstSc (seen @ ids) n' \<and> arp_ok pool' \<and>
    rts_properties pool' = rts_properties pool0"
  using assms
proof (induction ids arbitrary: n pool seen)
  case (Cons i ids)
  from Cons.prems(1) obtain n1 pool1 where
    s: "scan_scenario p entity optimumSc worstSc i (n, pool) = ret (n1, pool1)"
    and r: "cfold (scan_scenario p entity optimumSc worstSc) ids (n1, pool1) = ret (n', pool')"
    by (auto simp: cbind_eq_ret)
  from scan_scenario_ret [OF Cons.prems(3) s] Cons.prems(4) obtain v where
    v: "rts_value p pool0 entity i = ret v" "n1 = scan_value optimumSc worstSc i v n"
    and p1: "arp_ok pool1" "rts_properties pool1 = rts_properties pool0"
    using rts_value_cong [of pool pool0 p] by auto
  have "scan_inv (rts_value p pool0 entity) optimumSc worstSc (seen @ [i]) n1"
    unfolding v(2) using Cons.prems(5) by (intro scan_inv_step [OF Cons.prems(2) v(1)]) simp
  from Cons.IH [OF r this p1] Cons.prems(5) show ?case by simp
qed simp


section \<open>The results stored for a runtime situation\<close>

lemma rts_at_ret [simp]: "rts_at st p = ret n \<longleftrightarrow> p < length (rts_store st) \<and> n = rts_store st ! p"
  by (auto simp: rts_at_def)

lemma update_rts_ret:
  "update_rts p f st = ret st' \<longleftrightarrow> p < length (rts_store st) \<and> st' = set_rts p (f (rts_store st ! p)) st"
  by (auto simp: update_rts_def cbind_eq_ret)

lemma insertPluginResult_find:
  "sm_find (rn_tuning_plugin_result (insertPluginResult plugin_name r c n)) plugin_name =
     Some (case sm_find (rn_tuning_plugin_result n) plugin_name of None \<Rightarrow> [(c, Some r)] | Some m \<Rightarrow> sm_insert c (Some r) m)"
  by (auto simp: insertPluginResult_def plugin_name_def Let_def sm_find_Cons sm_insert_range_def sm_insert_def sm_has_def
      split: prod.split option.split)
    (auto simp: sm_index_def split: option.splits)

lemma insertPluginResult_keeps [simp]:
  "rn_children (insertPluginResult nm r c n) = rn_children n" "rn_reg (insertPluginResult nm r c n) = rn_reg n"
  "rn_isValidRts (insertPluginResult nm r c n) = rn_isValidRts n"
  "rn_callpathstring (insertPluginResult nm r c n) = rn_callpathstring n"
  by (simp_all add: insertPluginResult_def Let_def split: prod.split)

lemma rts_result_ret:
  assumes "rts_result env p w t r entity (c, i, v) h = ret h'"
  shows "\<exists>settings vs info. configuration_of w (it_tuningParameters p) i = ret settings \<and> r < length (rts_store (hs_tree h)) \<and>
    hs_tree h' = set_rts r (insertPluginResult plugin_name (insertTuningResult v settings vs info [] []) c
      (rts_store (hs_tree h) ! r)) (hs_tree h) \<and>
    hs_ts h' = hs_ts h @ (if c = RTS_BEST
      then [TuningSpecification_entities (withRtsSupport (ie_build env)) settings [entity] (uninit_bool (ie_build env))] else [])"
  using assms by (force simp: rts_result_def cbind_eq_ret Let_def update_rts_ret split: prod.splits)

lemma scenario_numbers_nonneg: "0 \<le> it_scenario_no_atp p \<Longrightarrow> i \<in> set (scenario_numbers p w) \<Longrightarrow> 0 \<le> i"
  by (auto simp: scenario_numbers_def)

text \<open>The three results, by the scan that chose them.\<close>

definition rts_stored ::
  "'s intra_env \<Rightarrow> 's intra \<Rightarrow> world \<Rightarrow> int \<Rightarrow> int \<Rightarrow> rts_ptr \<Rightarrow> rts_object \<Rightarrow> scan \<Rightarrow> rts_state \<Rightarrow> rts_state \<Rightarrow> bool" where
  "rts_stored env p w optimumSc worstSc r n sn h h' \<longleftrightarrow>
     (if optimumSc \<noteq> - 1 \<and> sn_optScenario sn \<noteq> - 1 \<and> nonzero (sn_worst sn)
      then \<exists>c0 c1 c2 vs0 vs1 vs2 x0 x1 x2.
        configuration_of w (it_tuningParameters p) worstSc = ret c0 \<and> configuration_of w (it_tuningParameters p) optimumSc = ret c1 \<and>
        configuration_of w (it_tuningParameters p) (sn_optScenario sn) = ret c2 \<and>
        hs_tree h' = set_rts r
          (insertPluginResult plugin_name (insertTuningResult (sn_optimum sn) c2 vs2 x2 [] []) RTS_BEST
          (insertPluginResult plugin_name (insertTuningResult (sn_static sn) c1 vs1 x1 [] []) STATIC_BEST
          (insertPluginResult plugin_name (insertTuningResult (sn_worst sn) c0 vs0 x0 [] []) STATIC_WORST n))) (hs_tree h) \<and>
        hs_ts h' = hs_ts h @ [TuningSpecification_entities (withRtsSupport (ie_build env)) c2 [rn_callpathstring n] (uninit_bool (ie_build env))]
      else hs_tree h' = hs_tree h \<and> hs_ts h' = hs_ts h)"

lemma tune_rts_cases:
  assumes "tune_rts env p w t optimumSc worstSc r h = ret h'" and "arp_ok (hs_arp h)" and "0 \<le> it_scenario_no_atp p"
  obtains n sn where "r < length (rts_store (hs_tree h))" and "n = rts_store (hs_tree h) ! r"
    and "scan_inv (rts_value p (hs_arp h) (rn_callpathstring n)) optimumSc worstSc (scenario_numbers p w) sn"
    and "rts_stored env p w optimumSc worstSc r n sn h h'"
proof -
  let ?n = "rts_store (hs_tree h) ! r" and ?entry = "(hs_entry h)\<lparr>re_callpath := rn_callpathstring (rts_store (hs_tree h) ! r)\<rparr>"
  let ?R = "rts_result env p w t r (rn_callpathstring ?n)"
  from assms(1) obtain sn pool h1 where r: "r < length (rts_store (hs_tree h))"
    and scan: "cfold (scan_scenario p (rn_callpathstring ?n) optimumSc worstSc) (scenario_numbers p w) (no_scan, hs_arp h) = ret (sn, pool)"
    and store: "(if optimumSc \<noteq> - 1 \<and> sn_optScenario sn \<noteq> - 1 \<and> nonzero (sn_worst sn)
        then cfold ?R
          [(STATIC_WORST, worstSc, sn_worst sn), (STATIC_BEST, optimumSc, sn_static sn), (RTS_BEST, sn_optScenario sn, sn_optimum sn)]
          (h\<lparr>hs_entry := ?entry, hs_arp := pool\<rparr>)
        else ret (h\<lparr>hs_entry := ?entry, hs_arp := pool\<rparr>)) = ret h1"
    and h': "h' = h1\<lparr>hs_entries := hs_entries h1 @ [hs_entry h1]\<rparr>"
    by (auto simp: tune_rts_def Let_def cbind_eq_ret)
  have "scan_inv (rts_value p (hs_arp h) (rn_callpathstring ?n)) optimumSc worstSc (scenario_numbers p w) sn"
    using scan_fold [OF scan scan_inv_none assms(2) refl] scenario_numbers_nonneg [OF assms(3)] by auto
  moreover have "rts_stored env p w optimumSc worstSc r ?n sn h h'"
  proof (cases "optimumSc \<noteq> - 1 \<and> sn_optScenario sn \<noteq> - 1 \<and> nonzero (sn_worst sn)")
    case True
    from store True obtain g0 g1 where
      "?R (STATIC_WORST, worstSc, sn_worst sn) (h\<lparr>hs_entry := ?entry, hs_arp := pool\<rparr>) = ret g0"
      "?R (STATIC_BEST, optimumSc, sn_static sn) g0 = ret g1"
      "?R (RTS_BEST, sn_optScenario sn, sn_optimum sn) g1 = ret h1"
      by (auto simp: cbind_eq_ret)
    from this [THEN rts_result_ret] show ?thesis
      using True r unfolding h' rts_stored_def by (auto simp: set_rts_def) blast
  next
    case False
    then show ?thesis using store unfolding h' rts_stored_def by auto
  qed
  ultimately show ?thesis using that r by blast
qed


text \<open>
  What a node keeps: the values measured for it in the worst and in the best scenario of the phase, and the setting
  of a scenario no other is better than.
\<close>

definition chosen_best :: "'s intra \<Rightarrow> world \<Rightarrow> analysis_results_pool \<Rightarrow> int \<Rightarrow> int \<Rightarrow> rts_object \<Rightarrow> bool" where
  "chosen_best p w pool optimumSc worstSc n \<longleftrightarrow>
     (case sm_find (rn_tuning_plugin_result n) plugin_name of None \<Rightarrow> True
      | Some m \<Rightarrow>
         (let value = rts_value p pool (rn_callpathstring n); ids = set (scenario_numbers p w)
          in \<exists>worst static best. sm_find m STATIC_WORST = Some (Some worst) \<and> sm_find m STATIC_BEST = Some (Some static) \<and>
               sm_find m RTS_BEST = Some (Some best) \<and> value worstSc = ret (objective_value worst) \<and>
               value optimumSc = ret (objective_value static) \<and>
               (\<exists>i \<in> ids. value i = ret (objective_value best) \<and>
                  configuration_of w (it_tuningParameters p) i = ret (tuning_parameter_value_mapping best)) \<and>
               (\<forall>i \<in> ids. \<exists>v. value i = ret v \<and> (\<not> nonzero v \<or> \<not> dlt v (objective_value best)))))"

lemma find_three_results:
  "sm_find (rn_tuning_plugin_result (insertPluginResult plugin_name b RTS_BEST (insertPluginResult plugin_name s STATIC_BEST
      (insertPluginResult plugin_name x STATIC_WORST n)))) plugin_name =
     Some (sm_insert RTS_BEST (Some b) (sm_insert STATIC_BEST (Some s)
       (case sm_find (rn_tuning_plugin_result n) plugin_name of None \<Rightarrow> [(STATIC_WORST, Some x)]
        | Some m \<Rightarrow> sm_insert STATIC_WORST (Some x) m)))"
  by (simp add: insertPluginResult_find)

lemma sm_insert_present: "sm_find m k = Some v \<Longrightarrow> sm_insert k u m = m"
  by (simp add: sm_insert_def sm_has_def)

lemma tuning_result_values [simp]:
  "objective_value (insertTuningResult v c vs x pr ph) = v"
  "tuning_parameter_value_mapping (insertTuningResult v c vs x pr ph) = c"
  by (simp_all add: insertTuningResult_def)

lemma chosen_best_insert:
  assumes n: "chosen_best p w pool optimumSc worstSc n" and o: "optimumSc \<in> set (scenario_numbers p w)"
    and sn: "scan_inv (rts_value p pool (rn_callpathstring n)) optimumSc worstSc (scenario_numbers p w) sn"
    and found: "sn_optScenario sn \<noteq> - 1" "nonzero (sn_worst sn)"
    and c2: "configuration_of w (it_tuningParameters p) (sn_optScenario sn) = ret c2"
  shows "chosen_best p w pool optimumSc worstSc
      (insertPluginResult plugin_name (insertTuningResult (sn_optimum sn) c2 vs2 x2 [] []) RTS_BEST
      (insertPluginResult plugin_name (insertTuningResult (sn_static sn) c1 vs1 x1 [] []) STATIC_BEST
      (insertPluginResult plugin_name (insertTuningResult (sn_worst sn) c0 vs0 x0 [] []) STATIC_WORST n)))"
proof (cases "sm_find (rn_tuning_plugin_result n) plugin_name")
  case None
  let ?measured_value = "rts_value p pool (rn_callpathstring n)" and ?ids = "set (scenario_numbers p w)"
  have s: "?measured_value optimumSc = ret (sn_static sn)" "?measured_value worstSc = ret (sn_worst sn)"
    "sn_optScenario sn \<in> ?ids" "?measured_value (sn_optScenario sn) = ret (sn_optimum sn)"
    "\<forall>i \<in> ?ids. \<exists>v. ?measured_value i = ret v \<and> (\<not> nonzero v \<or> \<not> dlt v (sn_optimum sn))"
    using sn o found unfolding scan_inv_def by (auto split: if_splits)
  have f: "sm_find (sm_insert RTS_BEST (Some b) (sm_insert STATIC_BEST (Some c) [(STATIC_WORST, Some x)])) =
      [RTS_BEST \<mapsto> Some b, STATIC_BEST \<mapsto> Some c, STATIC_WORST \<mapsto> Some x]" for b c x
    by (simp add: sm_find_Cons fun_eq_iff)
  show ?thesis
    unfolding chosen_best_def find_three_results None option.case Let_def f insertPluginResult_keeps
    by (rule exI, rule exI, rule exI, intro conjI) (use s c2 in auto)
next
  case (Some m)
  then show ?thesis
    using n unfolding chosen_best_def find_three_results Some option.case
    by (auto simp: Let_def sm_insert_present)
qed


lemma rts_result_arp:
  assumes "rts_result env p w t r entity x h = ret h'" and "arp_ok (hs_arp h)"
  shows "arp_ok (hs_arp h') \<and> rts_properties (hs_arp h') = rts_properties (hs_arp h)"
proof -
  obtain c i v where x: "x = (c, i, v)" by (cases x)
  obtain q where "getPropertiesForScenarioIDandEntity i entity (hs_arp h) = ret (rts_properties (hs_arp h) i entity, q)"
    and "arp_ok q" and "rts_properties q = rts_properties (hs_arp h)"
    using rts_properties_collected [OF assms(2)] by blast
  with assms(1) show ?thesis by (auto simp: x rts_result_def cbind_eq_ret Let_def split: prod.splits)
qed

lemma post_of_ret: "(\<And>x. c = ret x \<Longrightarrow> Q x) \<Longrightarrow> post c Q (\<lambda>_. True)"
  by (simp add: post_def)

lemma cfold_inv:
  assumes "cfold f xs s = ret t" and "I s" and "\<And>x s t. x \<in> set xs \<Longrightarrow> I s \<Longrightarrow> f x s = ret t \<Longrightarrow> I t"
  shows "I t"
  using post_cfold [where I = I and E = "\<lambda>_. True" and f = f and xs = xs and s = s] assms by (auto simp: post_def)

lemma tune_rts_arp:
  assumes "tune_rts env p w t optimumSc worstSc r h = ret h'" and "arp_ok (hs_arp h)" and "0 \<le> it_scenario_no_atp p"
  shows "arp_ok (hs_arp h') \<and> rts_properties (hs_arp h') = rts_properties (hs_arp h)"
proof -
  let ?n = "rts_store (hs_tree h) ! r" and ?entry = "(hs_entry h)\<lparr>re_callpath := rn_callpathstring (rts_store (hs_tree h) ! r)\<rparr>"
  let ?I = "\<lambda>g. arp_ok (hs_arp g) \<and> rts_properties (hs_arp g) = rts_properties (hs_arp h)"
  from assms(1) obtain sn pool h1 where
    scan: "cfold (scan_scenario p (rn_callpathstring ?n) optimumSc worstSc) (scenario_numbers p w) (no_scan, hs_arp h) = ret (sn, pool)"
    and store: "(if optimumSc \<noteq> - 1 \<and> sn_optScenario sn \<noteq> - 1 \<and> nonzero (sn_worst sn)
        then cfold (rts_result env p w t r (rn_callpathstring ?n))
          [(STATIC_WORST, worstSc, sn_worst sn), (STATIC_BEST, optimumSc, sn_static sn), (RTS_BEST, sn_optScenario sn, sn_optimum sn)]
          (h\<lparr>hs_entry := ?entry, hs_arp := pool\<rparr>)
        else ret (h\<lparr>hs_entry := ?entry, hs_arp := pool\<rparr>)) = ret h1"
    and h': "h' = h1\<lparr>hs_entries := hs_entries h1 @ [hs_entry h1]\<rparr>"
    by (auto simp: tune_rts_def Let_def cbind_eq_ret)
  have "?I (h\<lparr>hs_entry := ?entry, hs_arp := pool\<rparr>)"
    using scan_fold [OF scan scan_inv_none assms(2) refl] scenario_numbers_nonneg [OF assms(3)] by auto
  note start = this
  have step: "?I g'" if "?I g" "rts_result env p w t r entity x g = ret g'" for entity x g g'
    using rts_result_arp [OF that(2)] that(1) by simp
  have "?I h1"
  proof (cases "optimumSc \<noteq> - 1 \<and> sn_optScenario sn \<noteq> - 1 \<and> nonzero (sn_worst sn)")
    case True
    show ?thesis by (rule cfold_inv [where I = ?I, OF store [unfolded if_P [OF True]] start step])
  next
    case False
    with store start show ?thesis by auto
  qed
  then show ?thesis by (simp add: h')
qed

definition tune_inv :: "'s intra \<Rightarrow> world \<Rightarrow> analysis_results_pool \<Rightarrow> int \<Rightarrow> int \<Rightarrow> application \<Rightarrow> rts_ptr option \<Rightarrow> rts_state \<Rightarrow> bool" where
  "tune_inv p w pool optimumSc worstSc a root_ptr h \<longleftrightarrow>
     arp_ok (hs_arp h) \<and> rts_properties (hs_arp h) = rts_properties pool \<and> ct_appl (hs_tree h) = a \<and>
     (\<forall>q < length (rts_store (hs_tree h)). Some q \<noteq> root_ptr \<longrightarrow> chosen_best p w pool optimumSc worstSc (rts_store (hs_tree h) ! q))"

lemma tune_rts_inv:
  assumes inv: "tune_inv p w pool optimumSc worstSc a root_ptr h" and "tune_rts env p w t optimumSc worstSc r h = ret h'"
    and o: "optimumSc \<in> set (scenario_numbers p w)" and pos: "0 \<le> it_scenario_no_atp p"
  shows "tune_inv p w pool optimumSc worstSc a root_ptr h'"
proof -
  have arp: "arp_ok (hs_arp h)" "rts_properties (hs_arp h) = rts_properties pool" using inv by (simp_all add: tune_inv_def)
  obtain n sn where r: "r < length (rts_store (hs_tree h))" and n: "n = rts_store (hs_tree h) ! r"
    and sn: "scan_inv (rts_value p (hs_arp h) (rn_callpathstring n)) optimumSc worstSc (scenario_numbers p w) sn"
    and st: "rts_stored env p w optimumSc worstSc r n sn h h'"
    using tune_rts_cases [OF assms(2) arp(1) pos] by blast
  have sn: "scan_inv (rts_value p pool (rn_callpathstring n)) optimumSc worstSc (scenario_numbers p w) sn"
    using sn rts_value_cong [OF arp(2), of p] by simp
  have "ct_appl (hs_tree h') = ct_appl (hs_tree h)"
    using st by (auto simp: rts_stored_def set_rts_def split: if_splits)
  moreover have "chosen_best p w pool optimumSc worstSc (rts_store (hs_tree h') ! q)"
    if q: "q < length (rts_store (hs_tree h'))" "Some q \<noteq> root_ptr" for q
  proof (cases "q = r \<and> optimumSc \<noteq> - 1 \<and> sn_optScenario sn \<noteq> - 1 \<and> nonzero (sn_worst sn)")
    case True
    then have "chosen_best p w pool optimumSc worstSc n" using inv q r by (auto simp: tune_inv_def n)
    from chosen_best_insert [OF this o sn] st True r show ?thesis by (auto simp: rts_stored_def set_rts_def)
  next
    case False
    then have "rts_store (hs_tree h') ! q = rts_store (hs_tree h) ! q \<and> length (rts_store (hs_tree h')) = length (rts_store (hs_tree h))"
      using st by (auto simp: rts_stored_def set_rts_def split: if_splits)
    then show ?thesis using inv q by (simp add: tune_inv_def)
  qed
  ultimately show ?thesis using inv tune_rts_arp [OF assms(2) arp(1) pos] by (simp add: tune_inv_def)
qed

lemma tune_region_inv:
  assumes "tune_inv p w pool optimumSc worstSc a root_ptr h" and "tune_region env p w t optimumSc worstSc g h = ret h'"
    and "optimumSc \<in> set (scenario_numbers p w)" and "0 \<le> it_scenario_no_atp p"
  shows "tune_inv p w pool optimumSc worstSc a root_ptr h'"
proof -
  let ?I = "tune_inv p w pool optimumSc worstSc a root_ptr"
  from assms(2) obtain rtsList where
    f: "cfold (tune_rts env p w t optimumSc worstSc) rtsList (h\<lparr>hs_entry := \<lparr>re_callpath = '''', re_execTime = None, re_weight = None\<rparr>\<rparr>) = ret h'"
    by (auto simp: tune_region_def cbind_eq_ret)
  have "?I (h\<lparr>hs_entry := \<lparr>re_callpath = '''', re_execTime = None, re_weight = None\<rparr>\<rparr>)"
    using assms(1) by (simp add: tune_inv_def)
  then show ?thesis by (rule cfold_inv [where I = ?I, OF f]) (rule tune_rts_inv [OF _ _ assms(3,4)])
qed


section \<open>The step of the hardware parameters\<close>

text \<open>The world the end of the step works in: the results are added, and the best scenario has been looked up.\<close>

definition looked_up :: "int \<Rightarrow> world \<Rightarrow> world" where
  "looked_up i w = w\<lparr>pool_set := (pool_set w)\<lparr>fsp := snd (getScenarioByScenarioID i (fsp (pool_set w)))\<rparr>\<rparr>"

lemma looked_up_keeps [simp]:
  "srp (pool_set (looked_up i w)) = srp (pool_set w)" "arp (pool_set (looked_up i w)) = arp (pool_set w)"
  "csp (pool_set (looked_up i w)) = csp (pool_set w)" "next_scenario_id (looked_up i w) = next_scenario_id w"
  "tp_heap (looked_up i w) = tp_heap w"
  by (simp_all add: looked_up_def)

lemma hardware_finished_parts:
  assumes "hardware_finished env p w = ret (p', w')"
  obtains w1 a optimumSc worstSc best worst ts pv st h where "add_results p w = ret w1"
    and "it_searchAlgorithm p = Some a" and "sa_getOptimum (ie_search env) a = ret optimumSc"
    and "sa_getWorst (ie_search env) a = ret worstSc"
    and "configuration_of (looked_up optimumSc w1) (it_tuningParameters p) optimumSc = ret best"
    and "phase_specification env (it_calltree p) best = ret ts"
    and "cfold (phase_result env (srp (pool_set w1)))
           [(0, optimumSc, STATIC_BEST, pv_staticBest (pv :: phase_values), best, pv_best pv),
            (1, worstSc, STATIC_WORST, pv_staticWorst pv, worst, pv_worst pv),
            (2, optimumSc, RTS_BEST, pv_staticBest pv, best, pv_best pv)] (it_calltree p) = ret st"
    and "cfold (tune_region env p (looked_up optimumSc w1) (pv_bestPhaseTime pv) optimumSc worstSc) (sig_regions (ct_appl st))
           \<lparr>hs_arp = arp (pool_set w1), hs_tree = st, hs_ts = [ts],
            hs_entry = \<lparr>re_callpath = '''', re_execTime = None, re_weight = None\<rparr>, hs_entries = []\<rparr> = ret h"
    and "(p', w') = ((push_readex_scenario (hs_ts h)) ^^ 3)
           (p\<lparr>it_calltree := hs_tree h,
              it_rts_file := (if sig_regions (ct_appl st) = [] then it_rts_file p else Some (hs_entries h))\<rparr>,
            (looked_up optimumSc w1)\<lparr>pool_set := (pool_set (looked_up optimumSc w1))\<lparr>arp := hs_arp h\<rparr>\<rparr>)"
proof -
  have d: "deref x = ret y \<longleftrightarrow> x = Some y" for x :: "'z option" and y by (auto simp: deref_def split: option.split)
  show ?thesis
    using assms unfolding hardware_finished_def Let_def split_beta looked_up_def [symmetric]
    by (simp only: cbind_eq_ret d ret_inject looked_up_keeps) (elim exE conjE, rule that, assumption+, erule sym)
qed


lemma push_readex_three:
  "((push_readex_scenario ts) ^^ 3) (p, w) = (q, v) \<Longrightarrow>
     q = p\<lparr>it_readexScenario := sint (next_scenario_id w + 2)\<rparr> \<and>
     v = w\<lparr>next_scenario_id := next_scenario_id w + 3, pool_set := (pool_set w)\<lparr>csp :=
       fold ScenarioPool_push (map (\<lambda>k. \<lparr>sc_id = next_scenario_id w + k, description = '''', tuned_entity = '''',
         sc_ts = Some ts, sc_pr = None, sc_results = [], rtsBased = True\<rparr>) [0, 1, 2]) (csp (pool_set w))\<rparr>\<rparr>"
  by (auto simp: numeral_3_eq_3 push_readex_scenario_def new_Scenario_def Let_def sc_key_def ac_simps)

lemma phase_result_elsewhere:
  assumes "cfold (phase_result env pool) xs st = ret st'"
  shows "ct_appl st' = ct_appl st \<and> length (rts_store st') = length (rts_store st) \<and>
    (\<forall>q. Some q \<noteq> calltree_root (ct_appl st) \<longrightarrow> rts_store st' ! q = rts_store st ! q)"
proof (rule cfold_inv [where I = "\<lambda>t. ct_appl t = ct_appl st \<and> length (rts_store t) = length (rts_store st) \<and>
    (\<forall>q. Some q \<noteq> calltree_root (ct_appl st) \<longrightarrow> rts_store t ! q = rts_store st ! q)", OF assms], simp)
  fix x t u
  assume "phase_result env pool x t = ret u" and t: "ct_appl t = ct_appl st \<and> length (rts_store t) = length (rts_store st) \<and>
    (\<forall>q. Some q \<noteq> calltree_root (ct_appl st) \<longrightarrow> rts_store t ! q = rts_store st ! q)"
  then obtain r f where "calltree_root (ct_appl t) = Some r" "u = set_rts r (f (rts_store t ! r)) t"
    by (auto simp: phase_result_def cbind_eq_ret update_rts_ret deref_def split: prod.splits option.splits)
  with t show "ct_appl u = ct_appl st \<and> length (rts_store u) = length (rts_store st) \<and>
    (\<forall>q. Some q \<noteq> calltree_root (ct_appl st) \<longrightarrow> rts_store u ! q = rts_store st ! q)"
    by (auto simp: set_rts_def nth_list_update)
qed

lemma add_results_arp: "add_results p w = ret w1 \<Longrightarrow> arp (pool_set w1) = arp (pool_set w) \<and> next_scenario_id w1 = next_scenario_id w \<and>
  csp (pool_set w1) = csp (pool_set w) \<and> tp_heap w1 = tp_heap w"
  by (auto simp: add_results_def cbind_eq_ret split: prod.splits)

text \<open>What the choice of settings reads of the plugin and of the world.\<close>

lemma configuration_of_cong:
  "fsp (pool_set v) = fsp (pool_set w) \<Longrightarrow> tp_heap v = tp_heap w \<Longrightarrow> configuration_of v = configuration_of w"
  unfolding configuration_of_def getTuningValue_def by (intro ext) simp

lemma chosen_best_cong:
  assumes "it_objectives q = it_objectives p" "it_tuningParameters q = it_tuningParameters p"
    and "it_scenario_no_atp q = it_scenario_no_atp p" "fsp (pool_set v) = fsp (pool_set w)" "tp_heap v = tp_heap w"
    and "rts_properties pool' = rts_properties pool"
  shows "chosen_best q v pool' o1 w1 n = chosen_best p w pool o1 w1 n"
  unfolding chosen_best_def scenario_numbers_def configuration_of_cong [OF assms(4,5)] rts_value_def assms ..

text \<open>
  C4: The end of the step of the hardware parameters stores for every runtime situation but the root, if
  anything, the best setting: when no node had a result before and the measurements are collected under
  experiments numbered from 0, a node that has results has the values measured for it in the worst and in the best
  scenario of the phase as the static ones, and as its own best one the setting of a finished scenario that no
  finished scenario is better than (values of 0 apart); so the best setting is never worse than the static one.
\<close>

theorem rts_results_are_best:
  assumes step: "it_tuningStep (plugin_state s) = HARDWARE_PARAMETER_TUNING" and pos: "0 \<le> it_scenario_no_atp (plugin_state s)"
    and arp: "arp_ok (arp (pool_set (tuning_world s)))"
    and fresh: "\<forall>n \<in> set (rts_store (it_calltree (plugin_state s))). rn_tuning_plugin_result n = []"
    and a: "it_searchAlgorithm (plugin_state s) = Some a" "sa_getOptimum (ie_search env) a = ret optimumSc"
      "sa_getWorst (ie_search env) a = ret worstSc"
    and fin: "intra_tuningFinished env s = ret (b, s')"
    and o: "optimumSc \<in> set (scenario_numbers (plugin_state s') (tuning_world s'))"
  shows "\<forall>q < length (rts_store (it_calltree (plugin_state s'))).
    Some q \<noteq> calltree_root (ct_appl (it_calltree (plugin_state s'))) \<longrightarrow>
    chosen_best (plugin_state s') (tuning_world s') (arp (pool_set (tuning_world s'))) optimumSc worstSc
      (rts_store (it_calltree (plugin_state s')) ! q)"
proof -
  let ?p = "plugin_state s" and ?w = "tuning_world s"
  obtain p' w' where h: "hardware_finished env ?p ?w = ret (p', w')"
    and s': "plugin_state s' = p'\<lparr>it_tuningStep := it_tuningStep p' + 1\<rparr>" "tuning_world s' = w'"
    using fin step by (auto simp: intra_tuningFinished_def Let_def cbind_eq_ret set_intra_def ATP_PARAMETER_TUNING_def
        HARDWARE_PARAMETER_TUNING_def)
  from h obtain w1 best worst pv st h ts where w1: "add_results ?p ?w = ret w1"
    and phase: "cfold (phase_result env (srp (pool_set w1)))
           [(0, optimumSc, STATIC_BEST, pv_staticBest (pv :: phase_values), best, pv_best pv),
            (1, worstSc, STATIC_WORST, pv_staticWorst pv, worst, pv_worst pv),
            (2, optimumSc, RTS_BEST, pv_staticBest pv, best, pv_best pv)] (it_calltree ?p) = ret st"
    and tune: "cfold (tune_region env ?p (looked_up optimumSc w1) (pv_bestPhaseTime pv) optimumSc worstSc) (sig_regions (ct_appl st))
           \<lparr>hs_arp = arp (pool_set w1), hs_tree = st, hs_ts = [ts],
            hs_entry = \<lparr>re_callpath = '''', re_execTime = None, re_weight = None\<rparr>, hs_entries = []\<rparr> = ret h"
    and "((push_readex_scenario (hs_ts h)) ^^ 3)
           (?p\<lparr>it_calltree := hs_tree h,
              it_rts_file := (if sig_regions (ct_appl st) = [] then it_rts_file ?p else Some (hs_entries h))\<rparr>,
            (looked_up optimumSc w1)\<lparr>pool_set := (pool_set (looked_up optimumSc w1))\<lparr>arp := hs_arp h\<rparr>\<rparr>) = (p', w')"
    by (rule hardware_finished_parts) (use a in auto)
  note end_state = push_readex_three [OF this(4)] and elsewhere = phase_result_elsewhere [OF phase]
  let ?v = "looked_up optimumSc w1" and ?a = "ct_appl (it_calltree ?p)"
  let ?I = "tune_inv ?p ?v (arp (pool_set w1)) optimumSc worstSc ?a (calltree_root ?a)"
  have arp1: "arp_ok (arp (pool_set w1))" using arp add_results_arp [OF w1] by simp
  have pools: "fsp (pool_set w') = fsp (pool_set ?v)" "tp_heap w' = tp_heap ?v" "arp (pool_set w') = hs_arp h"
    and plugin: "it_objectives p' = it_objectives ?p" "it_tuningParameters p' = it_tuningParameters ?p"
    "it_scenario_no_atp p' = it_scenario_no_atp ?p" "it_calltree p' = hs_tree h"
    using end_state by simp_all
  have o': "optimumSc \<in> set (scenario_numbers ?p ?v)" using o by (simp add: s' scenario_numbers_def pools plugin)
  have "rn_tuning_plugin_result (rts_store st ! q) = []" if "q < length (rts_store st)" "Some q \<noteq> calltree_root ?a" for q
    using that elsewhere fresh by auto
  then have start: "?I \<lparr>hs_arp = arp (pool_set w1), hs_tree = st, hs_ts = [ts],
      hs_entry = \<lparr>re_callpath = '''', re_execTime = None, re_weight = None\<rparr>, hs_entries = []\<rparr>"
    using elsewhere arp1 by (auto simp: tune_inv_def chosen_best_def)
  have I: "?I h"
    using start by (rule cfold_inv [where I = ?I, OF tune]) (rule tune_region_inv [OF _ _ o' pos])
  have "chosen_best (plugin_state s') (tuning_world s') (arp (pool_set (tuning_world s'))) optimumSc worstSc n =
      chosen_best ?p ?v (arp (pool_set w1)) optimumSc worstSc n" for n
    by (rule chosen_best_cong) (use I in \<open>simp_all add: s' pools plugin tune_inv_def\<close>)
  then show ?thesis using I by (simp add: s' plugin tune_inv_def)
qed


section \<open>A small step\<close>

text \<open>
  Two rts's below the phase, three scenarios with the settings 1000, 2000 and 3000 of one parameter. The phase needs
  the energies 100, 50 and 60, the first rts 40, 20 and 12; the second did not run.
\<close>

definition energy_at :: "string \<Rightarrow> int \<Rightarrow> int \<Rightarrow> meta_property" where
  "energy_at entity i e =
     (addExtraInfo ''Instances'' ''1'' (addExtraInfo ''ExecTime'' ''2'' (addExtraInfo ''ScenarioID'' (print_int i)
       (setSeverity (dbl_of_int e) (new_MetaProperty 0)))))\<lparr>mp_id := ''131'', mp_rtsBased := True, callpath := entity\<rparr>"

definition example_node :: "rts_ptr option \<Rightarrow> rts_ptr list \<Rightarrow> region_ptr \<Rightarrow> string \<Rightarrow> rts_object" where
  "example_node parent children g cpath =
     blank_rts\<lparr>rn_parent := parent, rn_children := children, rn_rts_type := Some NODE_REGULAR_REGION, rn_reg := Some g,
       rn_isValidRts := True, rn_callpathstring := cpath\<rparr>"

definition intra_tree :: calltree where
  "intra_tree =
     \<lparr>rts_store = [example_node None [1, 2] 0 ''/phase'', example_node (Some 0) [] 1 ''/phase/f'', example_node (Some 0) [] 1 ''/phase/g''],
      param_store = [], ct_root = Some 0, buffer_index = 0, last_aa_rts_id = 0, aa_rts_callpath_mapping = [],
      scorepid_to_rts_mapping = [], rts_to_serialize = [],
      ct_appl = (new_Application (Some 0))\<lparr>sig_regions := [1], phase_region := Some 0\<rparr>\<rparr>"

definition example_setting :: "int \<Rightarrow> int \<Rightarrow> int \<times> scenario option" where
  "example_setting i v = (i, Some \<lparr>sc_id = word_of_int i, description = '''', tuned_entity = ''/phase'',
     sc_ts = Some [TuningSpecification_program [(7, v)] False], sc_pr = None, sc_results = [], rtsBased = True\<rparr>)"

definition intra_world :: world where
  "intra_world =
     \<lparr>pool_set = new_ScenarioPoolSet
        \<lparr>fsp := [example_setting 0 1000, example_setting 1 2000, example_setting 2 3000],
         srp := \<lparr>results_per_scenario_id = [(0, [energy_at ''/phase'' 0 100]), (1, [energy_at ''/phase'' 1 50]), (2, [energy_at ''/phase'' 2 60])],
                 results_per_search_step = [], srp_locked = False\<rparr>,
         arp := \<lparr>results_per_tuning_step = [],
                 results_per_experiment = [(0, [energy_at ''/phase/f'' 0 40]), (1, [energy_at ''/phase/f'' 1 20]), (2, [energy_at ''/phase/f'' 2 12])]\<rparr>\<rparr>,
      next_scenario_id = 3, tp_heap = (\<lambda>_. example_tp 1000 3000 1000)\<rparr>"

definition intra_search :: exhaustive where
  "intra_search = new_ExhaustiveSearch
     \<lparr>results := record_value 2 (dbl_of_int 60) (record_value 1 (dbl_of_int 50) (record_value 0 (dbl_of_int 100) no_results))\<rparr>"

definition intra_example_env :: "exhaustive intra_env" where
  "intra_example_env =
     \<lparr>ie_config = (\<lambda>_. None), ie_objectives = None, ie_has_configurationfile = False, ie_ompnumthreads = 4, ie_atp_mode = None,
      ie_atp_description = False, ie_atp_specs = [], ie_load = (\<lambda>_. ret (Some new_ExhaustiveSearch)),
      ie_search = exhaustive_alg \<lparr>withRtsSupport = True, uninit_bool = False\<rparr>, ie_new_tp = (\<lambda>n. n), ie_map_order = (\<lambda>xs. xs),
      ie_build = \<lparr>withRtsSupport = True, uninit_bool = False\<rparr>,
      ie_cost = \<lparr>ompnumthreads = 4, mpinumprocs = 1, costJoule = dbl_of_int 0, costCoreHour = dbl_of_int 0\<rparr>,
      ie_stack = (\<lambda>_. (dbl_of_int 7, dbl_of_int 7, dbl_of_int 7)), ie_phase_time = dbl_of_int 7, ie_generate = (\<lambda>_ _. ret ())\<rparr>"

definition intra_example :: "exhaustive intra" where
  "intra_example =
     \<lparr>it_tuningParameters = [7], it_searchAlgorithm = Some intra_search, it_objectives = [(Energy, ''J'')], it_tuningStep = 2,
      it_min_freq = 1200, it_max_freq = 2400, it_freq_step = 400, it_scenario_no_atp = 0, it_optimum_atp_map = [],
      it_readexScenario = 0, it_created = 0, it_calltree = intra_tree, it_rts_file = None\<rparr>"

definition intra_example_side :: "exhaustive intra side" where
  "intra_example_side = \<lparr>plugin_state = intra_example, tuning_world = intra_world, timers = []\<rparr>"

definition stored_values :: "'s intra \<Rightarrow> rts_ptr \<Rightarrow> (config_type \<times> dbl option) list option" where
  "stored_values p q = map_option (map (\<lambda>(c, r). (c, map_option objective_value r)))
     (sm_find (rn_tuning_plugin_result (rts_store (it_calltree p) ! q)) plugin_name)"

lemma intra_example_runs:
  "map_option (map_sum (\<lambda>_. ()) (\<lambda>(b, s). (b, map (stored_values (plugin_state s)) [0, 1, 2], it_tuningStep (plugin_state s),
      it_readexScenario (plugin_state s), map fst (csp (pool_set (tuning_world s))), scenario_numbers (plugin_state s) (tuning_world s),
      length (rts_store (it_calltree (plugin_state s))), calltree_root (ct_appl (it_calltree (plugin_state s))))))
     (intra_tuningFinished intra_example_env intra_example_side) =
   Some (Inr (False, map (map_option (map (\<lambda>(c, e). (c, Some (dbl_of_int e)))))
     [Some [(STATIC_WORST, 100), (STATIC_BEST, 50), (RTS_BEST, 50)], Some [(STATIC_WORST, 40), (STATIC_BEST, 20), (RTS_BEST, 12)], None],
     3, 5, [3, 4, 5], [0, 1, 2], 3, Some 0))"
  by code_simp

lemma intra_example_result:
  obtains s' where "intra_tuningFinished intra_example_env intra_example_side = ret (False, s')"
    and "map (stored_values (plugin_state s')) [0, 1, 2] = map (map_option (map (\<lambda>(c, e). (c, Some (dbl_of_int e)))))
     [Some [(STATIC_WORST, 100), (STATIC_BEST, 50), (RTS_BEST, 50)], Some [(STATIC_WORST, 40), (STATIC_BEST, 20), (RTS_BEST, 12)], None]"
    and "scenario_numbers (plugin_state s') (tuning_world s') = [0, 1, 2]"
    and "length (rts_store (it_calltree (plugin_state s'))) = 3" and "calltree_root (ct_appl (it_calltree (plugin_state s'))) = Some 0"
  using intra_example_runs
  by (cases "intra_tuningFinished intra_example_env intra_example_side" rule: comp_cases)
    (auto simp: ret_def fail_def simp del: list.map)

lemma measured_energy_at: "in_int i \<Longrightarrow> measured (energy_at entity i e)"
  by (simp add: measured_def scenario_of_def energy_at_def addExtraInfo_def setSeverity_def new_MetaProperty_def
        atoi_print_int sm_insert_def sm_has_def sm_find_Cons)
    (simp add: ret_def)

lemma arp_ok_intra_world: "arp_ok (arp (pool_set intra_world))"
proof -
  have m: "measured (energy_at entity 0 e)" "measured (energy_at entity 1 e)" "measured (energy_at entity 2 e)" for entity e
    by (simp_all add: measured_energy_at in_int_def INT_MIN_def INT_MAX_def)
  have "\<forall>k \<in> experiments (arp (pool_set intra_world)). 0 \<le> k \<and> k < 3"
    by (auto simp: intra_world_def new_ScenarioPoolSet_def sm_find_Cons dom_def split: if_splits)
  moreover have "\<forall>k. \<forall>mp \<in> set (experiment_results (arp (pool_set intra_world)) k). measured mp"
    by (auto simp: experiment_results_def intra_world_def new_ScenarioPoolSet_def sm_find_Cons m split: if_splits)
  moreover have "sm_wf (results_per_experiment (arp (pool_set intra_world)))"
    by (simp add: intra_world_def new_ScenarioPoolSet_def sm_wf_Cons)
  ultimately show ?thesis unfolding arp_ok_def by blast
qed

theorem rts_results_are_best_witness:
  "\<exists>s'. intra_tuningFinished intra_example_env intra_example_side = ret (False, s') \<and>
     chosen_best (plugin_state s') (tuning_world s') (arp (pool_set (tuning_world s'))) 1 0 (rts_store (it_calltree (plugin_state s')) ! 1) \<and>
     stored_values (plugin_state s') 1 =
       Some [(STATIC_WORST, Some (dbl_of_int 40)), (STATIC_BEST, Some (dbl_of_int 20)), (RTS_BEST, Some (dbl_of_int 12))]"
proof -
  obtain s' where s': "intra_tuningFinished intra_example_env intra_example_side = ret (False, s')"
    and v: "map (stored_values (plugin_state s')) [0, 1, 2] = map (map_option (map (\<lambda>(c, e). (c, Some (dbl_of_int e)))))
     [Some [(STATIC_WORST, 100), (STATIC_BEST, 50), (RTS_BEST, 50)], Some [(STATIC_WORST, 40), (STATIC_BEST, 20), (RTS_BEST, 12)], None]"
    and n: "scenario_numbers (plugin_state s') (tuning_world s') = [0, 1, 2]"
    and l: "length (rts_store (it_calltree (plugin_state s'))) = 3" and r: "calltree_root (ct_appl (it_calltree (plugin_state s'))) = Some 0"
    by (rule intra_example_result)
  have o: "sa_getOptimum (ie_search intra_example_env) intra_search = ret 1" "sa_getWorst (ie_search intra_example_env) intra_search = ret 0"
    by code_simp+
  have "\<forall>q < 3. Some q \<noteq> Some 0 \<longrightarrow>
    chosen_best (plugin_state s') (tuning_world s') (arp (pool_set (tuning_world s'))) 1 0 (rts_store (it_calltree (plugin_state s')) ! q)"
    unfolding l [symmetric] r [symmetric]
    by (rule rts_results_are_best [where a = intra_search and env = intra_example_env and s = intra_example_side, OF _ _ _ _ _ o s'])
      (simp_all add: n arp_ok_intra_world intra_example_side_def intra_example_def HARDWARE_PARAMETER_TUNING_def
        intra_tree_def example_node_def blank_rts_def)
  then have "chosen_best (plugin_state s') (tuning_world s') (arp (pool_set (tuning_world s'))) 1 0 (rts_store (it_calltree (plugin_state s')) ! 1)"
    by simp
  with s' v show ?thesis by (intro exI [of _ s']) simp
qed

end
