(* ===== verification/IntraphaseSteps.thy ===== *)
theory IntraphaseSteps
  imports IntraphaseCorrect
begin

text \<open>
  The tuning steps of the READEX intra-phase plugin: the scenarios that verify its result, how many steps it takes,
  what it asks the agents to measure, and how it runs under the tuning driver. Three of the plugin's
  reactions to its surroundings are not what they are meant to be: a parameter server without an answer, a step that
  is not a number, and units that grow from objective to objective.
\<close>

section \<open>Verification\<close>

definition verification_scenario :: "scenario_counter \<Rightarrow> tuning_specification list \<Rightarrow> scenario" where
  "verification_scenario n ts = \<lparr>sc_id = n, description = '''', tuned_entity = '''', sc_ts = Some ts, sc_pr = None,
     sc_results = [], rtsBased = True\<rparr>"

text \<open>The valid rts's of the significant regions, region by region.\<close>

definition significant_rtss :: "calltree \<Rightarrow> rts_ptr list comp" where
  "significant_rtss st =
     cfold (\<lambda>g l. cbind (deref (calltree_root (ct_appl st))) (\<lambda>r.
         cbind (getValidRtsOfRegion st (Some g) r []) (\<lambda>rtsList. ret (l @ rtsList)))) (sig_regions (ct_appl st)) []"

text \<open>Storing results changes nothing in a tree that the search for the rts's of a region reads.\<close>

definition same_shape :: "calltree \<Rightarrow> calltree \<Rightarrow> bool" where
  "same_shape st st' \<longleftrightarrow> ct_appl st' = ct_appl st \<and> length (rts_store st') = length (rts_store st) \<and>
     (\<forall>q < length (rts_store st). rn_children (rts_store st' ! q) = rn_children (rts_store st ! q) \<and>
        rn_reg (rts_store st' ! q) = rn_reg (rts_store st ! q) \<and>
        rn_isValidRts (rts_store st' ! q) = rn_isValidRts (rts_store st ! q) \<and>
        rn_callpathstring (rts_store st' ! q) = rn_callpathstring (rts_store st ! q))"

lemma same_shape_refl [simp]: "same_shape st st"
  by (simp add: same_shape_def)

lemma same_shape_insert:
  "same_shape st st' \<Longrightarrow> same_shape st (set_rts r (insertPluginResult nm t c (rts_store st' ! r)) st')"
  unfolding same_shape_def set_rts_def by (auto, (case_tac "q = r"; simp)+)

lemma cfold_more_defined:
  assumes "\<And>c l r. f c l = Some r \<Longrightarrow> g c l = Some r" and "cfold f cs l = Some r"
  shows "cfold g cs l = Some r"
  using assms(2)
proof (induction cs arbitrary: l)
  case (Cons c cs)
  obtain x where x: "f c l = Some x" using Cons.prems by (cases "f c l") auto
  from assms(1) [OF this] x Cons show ?case by (cases x) (auto simp: cbind_def)
qed simp

lemma valid_rtss_same_shape:
  assumes "getValidRtsOfRegion st g p l = ret rs" and "same_shape st st'"
  shows "getValidRtsOfRegion st' g p l = ret rs"
proof -
  have "same_shape st st' \<longrightarrow> getValidRtsOfRegion st' g p l = Some r" if "getValidRtsOfRegion st g p l = Some r" for r
  proof (rule getValidRtsOfRegion.raw_induct [where
        P = "\<lambda>st g p l r. same_shape st st' \<longrightarrow> getValidRtsOfRegion st' g p l = Some r", OF _ that], rule impI)
    fix f :: "calltree \<Rightarrow> region_ptr option \<Rightarrow> rts_ptr \<Rightarrow> rts_ptr list \<Rightarrow> rts_ptr list comp" and st g p l r
    assume IH: "\<And>st g p l r. f st g p l = Some r \<Longrightarrow> same_shape st st' \<longrightarrow> getValidRtsOfRegion st' g p l = Some r"
      and b: "cbind (rts_at st p) (\<lambda>n. cfold (f st g) (rn_children n) (if rn_isValidRts n \<and> rn_reg n = g then l @ [p] else l)) = Some r"
      and same: "same_shape st st'"
    have "cfold (getValidRtsOfRegion st' g) cs l = Some r" if "cfold (f st g) cs l = Some r" for cs l r
      by (rule cfold_more_defined [OF _ that]) (use IH same in blast)
    with b same show "getValidRtsOfRegion st' g p l = Some r"
      by (subst getValidRtsOfRegion.simps) (auto simp: rts_at_def same_shape_def check_def split: if_splits)
  qed
  then show ?thesis using assms by (auto simp: ret_def)
qed

lemma phase_result_same_shape:
  assumes "cfold (phase_result env pool) xs st = ret st'"
  shows "same_shape st st'"
proof (rule cfold_inv [where I = "same_shape st", OF assms])
  fix x t u
  assume t: "same_shape st t" and "phase_result env pool x t = ret u"
  then obtain r c tr where "u = set_rts r (insertPluginResult plugin_name tr c (rts_store t ! r)) t"
    by (auto simp: phase_result_def cbind_eq_ret update_rts_ret split: prod.splits)
  with same_shape_insert [OF t] show "same_shape st u" by simp
qed simp

text \<open>
  An rts has results when the scenario that is worst for the phase finished and has a value for the rts; its
  specification has the setting of a finished scenario with a value that no finished one with a value is below.
\<close>

definition rts_measured :: "'s intra \<Rightarrow> world \<Rightarrow> analysis_results_pool \<Rightarrow> int \<Rightarrow> int \<Rightarrow> string \<Rightarrow> bool" where
  "rts_measured p w pool optimumSc worstSc entity \<longleftrightarrow> optimumSc \<noteq> - 1 \<and> worstSc \<in> set (scenario_numbers p w) \<and>
     (\<exists>v. rts_value p pool entity worstSc = ret v \<and> nonzero v)"

definition entity_specification :: "build_env \<Rightarrow> (tp_ptr, int) smap \<Rightarrow> string \<Rightarrow> tuning_specification" where
  "entity_specification build settings entity =
     TuningSpecification_entities (withRtsSupport build) settings [entity] (uninit_bool build)"

definition best_specification ::
  "'s intra_env \<Rightarrow> 's intra \<Rightarrow> world \<Rightarrow> analysis_results_pool \<Rightarrow> string \<Rightarrow> tuning_specification \<Rightarrow> bool" where
  "best_specification env p w pool entity t \<longleftrightarrow>
     (\<exists>i \<in> set (scenario_numbers p w). \<exists>v settings.
        rts_value p pool entity i = ret v \<and> nonzero v \<and>
        (\<forall>j \<in> set (scenario_numbers p w). \<forall>u. rts_value p pool entity j = ret u \<longrightarrow> nonzero u \<longrightarrow> \<not> dlt u v) \<and>
        configuration_of w (it_tuningParameters p) i = ret settings \<and> t = entity_specification (ie_build env) settings entity)"

lemma scan_finds:
  assumes "scan_inv value optimumSc worstSc ids sn"
  shows "sn_optScenario sn \<noteq> - 1 \<and> nonzero (sn_worst sn) \<longleftrightarrow> worstSc \<in> set ids \<and> (\<exists>v. value worstSc = ret v \<and> nonzero v)"
  using assms unfolding scan_inv_def by (auto split: if_splits)

definition specified ::
  "'s intra_env \<Rightarrow> 's intra \<Rightarrow> world \<Rightarrow> analysis_results_pool \<Rightarrow> int \<Rightarrow> int \<Rightarrow> calltree \<Rightarrow> tuning_specification \<Rightarrow> rts_ptr list \<Rightarrow> rts_state \<Rightarrow> bool" where
  "specified env p w pool optimumSc worstSc st x gone h \<longleftrightarrow>
     arp_ok (hs_arp h) \<and> rts_properties (hs_arp h) = rts_properties pool \<and> same_shape st (hs_tree h) \<and>
     (\<exists>ts. hs_ts h = x # ts \<and> list_all2 (best_specification env p w pool)
        (filter (rts_measured p w pool optimumSc worstSc) (map (\<lambda>r. rn_callpathstring (rts_store st ! r)) gone)) ts)"

lemma tune_rts_specified:
  assumes "tune_rts env p w t optimumSc worstSc r h = ret h'" and inv: "specified env p w pool optimumSc worstSc st x gone h"
    and pos: "0 \<le> it_scenario_no_atp p"
  shows "specified env p w pool optimumSc worstSc st x (gone @ [r]) h'"
proof -
  have arp: "arp_ok (hs_arp h)" "rts_properties (hs_arp h) = rts_properties pool" and shape: "same_shape st (hs_tree h)"
    using inv by (simp_all add: specified_def)
  let ?entity = "rn_callpathstring (rts_store st ! r)" and ?measured_value = "rts_value p pool (rn_callpathstring (rts_store st ! r))"
  obtain n sn where r: "r < length (rts_store (hs_tree h))" and n: "n = rts_store (hs_tree h) ! r"
    and sn: "scan_inv (rts_value p (hs_arp h) (rn_callpathstring n)) optimumSc worstSc (scenario_numbers p w) sn"
    and stored: "rts_stored env p w optimumSc worstSc r n sn h h'"
    using tune_rts_cases [OF assms(1) arp(1) pos] by blast
  have cpath: "rn_callpathstring n = ?entity" using shape r by (auto simp: same_shape_def n)
  have sn: "scan_inv ?measured_value optimumSc worstSc (scenario_numbers p w) sn"
    using sn rts_value_cong [OF arp(2), of p] by (simp add: cpath)
  have found: "optimumSc \<noteq> - 1 \<and> sn_optScenario sn \<noteq> - 1 \<and> nonzero (sn_worst sn) \<longleftrightarrow> rts_measured p w pool optimumSc worstSc ?entity"
    using scan_finds [OF sn] by (simp add: rts_measured_def)
  obtain ts where ts: "hs_ts h = x # ts" "list_all2 (best_specification env p w pool)
        (filter (rts_measured p w pool optimumSc worstSc) (map (\<lambda>r. rn_callpathstring (rts_store st ! r)) gone)) ts"
    using inv by (auto simp: specified_def)
  show ?thesis
  proof (cases "rts_measured p w pool optimumSc worstSc ?entity")
    case True
    with stored found obtain c0 c1 c2 vs0 vs1 vs2 x0 x1 x2 where
      c2: "configuration_of w (it_tuningParameters p) (sn_optScenario sn) = ret c2" and
      tree: "hs_tree h' = set_rts r
          (insertPluginResult plugin_name (insertTuningResult (sn_optimum sn) c2 vs2 x2 [] []) RTS_BEST
          (insertPluginResult plugin_name (insertTuningResult (sn_static sn) c1 vs1 x1 [] []) STATIC_BEST
          (insertPluginResult plugin_name (insertTuningResult (sn_worst sn) c0 vs0 x0 [] []) STATIC_WORST n))) (hs_tree h)" and
      new: "hs_ts h' = hs_ts h @ [entity_specification (ie_build env) c2 ?entity]"
      unfolding rts_stored_def cpath entity_specification_def by auto
    have "same_shape st (hs_tree h')"
      using shape r unfolding tree n by (auto simp: same_shape_def set_rts_def nth_list_update)
    moreover have "sn_optScenario sn \<in> set (scenario_numbers p w) \<and> ?measured_value (sn_optScenario sn) = ret (sn_optimum sn) \<and>
        nonzero (sn_optimum sn) \<and> (\<forall>j u. j \<in> set (scenario_numbers p w) \<longrightarrow> ?measured_value j = ret u \<longrightarrow> nonzero u \<longrightarrow> \<not> dlt u (sn_optimum sn))"
      using sn True found unfolding scan_inv_def by auto
    then have "best_specification env p w pool ?entity (entity_specification (ie_build env) c2 ?entity)"
      using c2 unfolding best_specification_def by blast
    ultimately show ?thesis
      using ts new True tune_rts_arp [OF assms(1) arp(1) pos] arp(2) by (auto simp: specified_def intro: list_all2_appendI)
  next
    case False
    with stored found have "hs_tree h' = hs_tree h" "hs_ts h' = hs_ts h" by (auto simp: rts_stored_def)
    then show ?thesis using ts False shape tune_rts_arp [OF assms(1) arp(1) pos] arp(2) by (simp add: specified_def)
  qed
qed

lemma tune_rtss_specified:
  assumes "cfold (tune_rts env p w t optimumSc worstSc) rs h = ret h'" and "specified env p w pool optimumSc worstSc st x gone h"
    and "0 \<le> it_scenario_no_atp p"
  shows "specified env p w pool optimumSc worstSc st x (gone @ rs) h'"
  using assms(1,2)
proof (induction rs arbitrary: gone h)
  case (Cons r rs)
  from Cons.prems(1) obtain g where "tune_rts env p w t optimumSc worstSc r h = ret g"
    and rest: "cfold (tune_rts env p w t optimumSc worstSc) rs g = ret h'" by (auto simp: cbind_eq_ret)
  from Cons.IH [OF rest tune_rts_specified [OF this(1) Cons.prems(2) assms(3)]] show ?case by simp
qed simp

text \<open>The loop over the regions finds the rts's of the tree it starts with, whatever it stores.\<close>

lemma tune_regions_specified:
  assumes "cfold (tune_region env p w t optimumSc worstSc) gs h = ret h'"
    and "specified env p w pool optimumSc worstSc st x gone h" and "0 \<le> it_scenario_no_atp p" and "same_shape st st0"
  shows "\<exists>rs. cfold (\<lambda>g l. cbind (deref (calltree_root (ct_appl st0))) (\<lambda>r.
         cbind (getValidRtsOfRegion st0 (Some g) r []) (\<lambda>rtsList. ret (l @ rtsList)))) gs gone = ret rs \<and>
       specified env p w pool optimumSc worstSc st x rs h'"
  using assms(1,2)
proof (induction gs arbitrary: gone h)
  case (Cons g gs)
  from Cons.prems(1) obtain h1 where "tune_region env p w t optimumSc worstSc g h = ret h1"
    and rest: "cfold (tune_region env p w t optimumSc worstSc) gs h1 = ret h'" by (auto simp: cbind_eq_ret)
  then obtain root_ptr rtsList where root_ptr: "deref (calltree_root (ct_appl (hs_tree h))) = ret root_ptr"
    and valid: "getValidRtsOfRegion (hs_tree h) (Some g) root_ptr [] = ret rtsList"
    and loop: "cfold (tune_rts env p w t optimumSc worstSc) rtsList
        (h\<lparr>hs_entry := \<lparr>re_callpath = '''', re_execTime = None, re_weight = None\<rparr>\<rparr>) = ret h1"
    by (auto simp: tune_region_def cbind_eq_ret)
  have shape: "same_shape st (hs_tree h)" using Cons.prems(2) by (simp add: specified_def)
  have "same_shape (hs_tree h) st0" using shape assms(4) by (auto simp: same_shape_def)
  with valid have "getValidRtsOfRegion st0 (Some g) root_ptr [] = ret rtsList" by (rule valid_rtss_same_shape)
  moreover have "deref (calltree_root (ct_appl st0)) = ret root_ptr" using root_ptr shape assms(4) by (simp add: same_shape_def)
  moreover have "specified env p w pool optimumSc worstSc st x (gone @ rtsList) h1"
    by (rule tune_rtss_specified [OF loop _ assms(3)]) (use Cons.prems(2) in \<open>simp add: specified_def\<close>)
  ultimately show ?case using Cons.IH [OF rest] by simp
qed simp

lemma specified_cong:
  assumes "it_objectives q = it_objectives p" "it_tuningParameters q = it_tuningParameters p"
    and "it_scenario_no_atp q = it_scenario_no_atp p" "fsp (pool_set v) = fsp (pool_set w)" "tp_heap v = tp_heap w"
    and "rts_properties pool' = rts_properties pool"
  shows "rts_measured q v pool' = rts_measured p w pool" and "best_specification env q v pool' = best_specification env p w pool"
  unfolding rts_measured_def best_specification_def scenario_numbers_def configuration_of_cong [OF assms(4,5)] rts_value_def assms
  by (rule refl)+

text \<open>
  C5: The end of the step of the hardware parameters makes three further scenarios with consecutive identifiers, the
  last of which is the one the plugin reports on. All three have the same specifications: first one for the rts of
  the phase (the first valid one of the phase region), with the setting of the best scenario, then, in the order of
  the significant regions and their valid rts's, exactly one for each rts that has results, with the setting of a
  finished scenario that no finished scenario is better than for this rts (values of 0 apart). An rts has results
  when the worst scenario finished and has a value other than 0 for it. The created pool gains nothing else, and the
  plugin is in its last step. The measurements are taken to be collected under experiments numbered from 0.
\<close>

theorem verification_scenarios:
  assumes "it_tuningStep (plugin_state s) = HARDWARE_PARAMETER_TUNING" and "0 \<le> it_scenario_no_atp (plugin_state s)"
    and "arp_ok (arp (pool_set (tuning_world s)))"
    and "it_searchAlgorithm (plugin_state s) = Some a" and "sa_getOptimum (ie_search env) a = ret optimumSc"
    and "sa_getWorst (ie_search env) a = ret worstSc"
    and "intra_tuningFinished env s = ret (b, s')"
  shows "\<not> b \<and> it_tuningStep (plugin_state s') = 3 \<and>
    (\<exists>r rest rs best ts. let st = it_calltree (plugin_state s); p = plugin_state s'; w = tuning_world s';
         pool = arp (pool_set w); n = next_scenario_id (tuning_world s); cpath = \<lambda>q. rn_callpathstring (rts_store st ! q);
         x = entity_specification (ie_build env) best (cpath r)
       in phase_rtss st = ret (r # rest) \<and> configuration_of w (it_tuningParameters p) optimumSc = ret best \<and>
          significant_rtss st = ret rs \<and>
          list_all2 (best_specification env p w pool) (filter (rts_measured p w pool optimumSc worstSc) (map cpath rs)) ts \<and>
          csp (pool_set w) =
            fold ScenarioPool_push (map (\<lambda>k. verification_scenario (n + k) (x # ts)) [0, 1, 2]) (csp (pool_set (tuning_world s))) \<and>
          next_scenario_id w = n + 3 \<and> it_readexScenario p = sint (n + 2))"
proof -
  let ?p = "plugin_state s" and ?w = "tuning_world s" and ?st = "it_calltree (plugin_state s)"
  obtain p' w' where h: "hardware_finished env ?p ?w = ret (p', w')" and b: "\<not> b"
    and s': "plugin_state s' = p'\<lparr>it_tuningStep := it_tuningStep p' + 1\<rparr>" "tuning_world s' = w'"
    using assms(1,7) by (auto simp: intra_tuningFinished_def Let_def cbind_eq_ret set_intra_def ATP_PARAMETER_TUNING_def
        HARDWARE_PARAMETER_TUNING_def)
  from h obtain w1 best worst pv st h x where w1: "add_results ?p ?w = ret w1"
    and best: "configuration_of (looked_up optimumSc w1) (it_tuningParameters ?p) optimumSc = ret best"
    and x: "phase_specification env ?st best = ret x"
    and phase: "cfold (phase_result env (srp (pool_set w1)))
           [(0, optimumSc, STATIC_BEST, pv_staticBest (pv :: phase_values), best, pv_best pv),
            (1, worstSc, STATIC_WORST, pv_staticWorst pv, worst, pv_worst pv),
            (2, optimumSc, RTS_BEST, pv_staticBest pv, best, pv_best pv)] ?st = ret st"
    and tune: "cfold (tune_region env ?p (looked_up optimumSc w1) (pv_bestPhaseTime pv) optimumSc worstSc) (sig_regions (ct_appl st))
           \<lparr>hs_arp = arp (pool_set w1), hs_tree = st, hs_ts = [x],
            hs_entry = \<lparr>re_callpath = '''', re_execTime = None, re_weight = None\<rparr>, hs_entries = []\<rparr> = ret h"
    and "((push_readex_scenario (hs_ts h)) ^^ 3)
           (?p\<lparr>it_calltree := hs_tree h,
              it_rts_file := (if sig_regions (ct_appl st) = [] then it_rts_file ?p else Some (hs_entries h))\<rparr>,
            (looked_up optimumSc w1)\<lparr>pool_set := (pool_set (looked_up optimumSc w1))\<lparr>arp := hs_arp h\<rparr>\<rparr>) = (p', w')"
    by (rule hardware_finished_parts) (use assms(4,5,6) in auto)
  note end_state = push_readex_three [OF this(6)] and kept = add_results_arp [OF w1] and shape = phase_result_same_shape [OF phase]
  let ?v = "looked_up optimumSc w1" and ?pool = "arp (pool_set w1)"
  have start: "specified env ?p ?v ?pool optimumSc worstSc ?st x [] \<lparr>hs_arp = ?pool, hs_tree = st, hs_ts = [x],
            hs_entry = \<lparr>re_callpath = '''', re_execTime = None, re_weight = None\<rparr>, hs_entries = []\<rparr>"
    using assms(3) kept shape by (simp add: specified_def)
  obtain rs where rs: "significant_rtss ?st = ret rs" and spec: "specified env ?p ?v ?pool optimumSc worstSc ?st x rs h"
    using tune_regions_specified [OF tune start assms(2) same_shape_refl] shape
    by (auto simp: significant_rtss_def same_shape_def)
  then obtain ts where ts: "hs_ts h = x # ts" "list_all2 (best_specification env ?p ?v ?pool)
        (filter (rts_measured ?p ?v ?pool optimumSc worstSc) (map (\<lambda>r. rn_callpathstring (rts_store ?st ! r)) rs)) ts"
    by (auto simp: specified_def)
  obtain r rest where r: "phase_rtss ?st = ret (r # rest)"
    "x = entity_specification (ie_build env) best (rn_callpathstring (rts_store ?st ! r))"
  proof -
    from x obtain l where l: "phase_rtss ?st = ret l" "0 < int (length l)"
      "x = entity_specification (ie_build env) best (rn_callpathstring (rts_store ?st ! (l ! 0)))"
      by (auto simp: phase_specification_def cbind_eq_ret entity_specification_def)
    then show ?thesis using that by (cases l) auto
  qed
  have "configuration_of w' = configuration_of ?v"
    by (rule configuration_of_cong) (simp_all add: end_state)
  moreover have "rts_measured (plugin_state s') w' (arp (pool_set w')) = rts_measured ?p ?v ?pool"
    and "best_specification env (plugin_state s') w' (arp (pool_set w')) = best_specification env ?p ?v ?pool"
    by (rule specified_cong; use spec in \<open>simp add: end_state s' specified_def\<close>)+
  ultimately show ?thesis unfolding s'(2) Let_def using b best rs ts r end_state kept assms(1)
    by (intro conjI exI [of _ r] exI [of _ rest] exI [of _ rs] exI [of _ best] exI [of _ ts])
      (simp_all add: s' verification_scenario_def HARDWARE_PARAMETER_TUNING_def)
qed


text \<open>In the small step the second rts has no results; the phase gets the setting of scenario 1, the first rts that of scenario 2.\<close>

lemma intra_example_readings:
  "map_option (map_sum (\<lambda>_. ()) (\<lambda>(b, s). let p = plugin_state s; w = tuning_world s; pool = arp (pool_set w) in
      (scenario_numbers p w, map (configuration_of w (it_tuningParameters p)) [0, 1, 2],
       map (rts_value p pool ''/phase/f'') [0, 1, 2], map (rts_value p pool ''/phase/g'') [0])))
     (intra_tuningFinished intra_example_env intra_example_side) =
   Some (Inr ([0, 1, 2], [ret [(7, 1000)], ret [(7, 2000)], ret [(7, 3000)]],
     map (\<lambda>e. ret (dbl_of_int e)) [40, 20, 12], [ret (dbl_of_int 0)]))"
  by code_simp

theorem verification_scenarios_witness:
  "\<exists>s'. intra_tuningFinished intra_example_env intra_example_side = ret (False, s') \<and> it_readexScenario (plugin_state s') = 5 \<and>
     csp (pool_set (tuning_world s')) = fold ScenarioPool_push (map (\<lambda>k. verification_scenario (3 + k)
       [entity_specification (ie_build intra_example_env) [(7, 2000)] ''/phase'',
        entity_specification (ie_build intra_example_env) [(7, 3000)] ''/phase/f'']) [0, 1, 2]) []"
proof -
  obtain s' where s': "intra_tuningFinished intra_example_env intra_example_side = ret (False, s')"
    by (rule intra_example_result)
  let ?p = "plugin_state s'" and ?w = "tuning_world s'" and ?pool = "arp (pool_set (tuning_world s'))"
  have read: "scenario_numbers ?p ?w = [0, 1, 2]"
    "configuration_of ?w (it_tuningParameters ?p) 0 = ret [(7, 1000)]" "configuration_of ?w (it_tuningParameters ?p) 1 = ret [(7, 2000)]"
    "configuration_of ?w (it_tuningParameters ?p) 2 = ret [(7, 3000)]"
    "rts_value ?p ?pool ''/phase/f'' 0 = ret (dbl_of_int 40)" "rts_value ?p ?pool ''/phase/f'' 1 = ret (dbl_of_int 20)"
    "rts_value ?p ?pool ''/phase/f'' 2 = ret (dbl_of_int 12)" "rts_value ?p ?pool ''/phase/g'' 0 = ret (dbl_of_int 0)"
    using intra_example_readings unfolding s' by (simp_all add: Let_def ret_def)
  have o: "sa_getOptimum (ie_search intra_example_env) intra_search = ret 1" "sa_getWorst (ie_search intra_example_env) intra_search = ret 0"
    by code_simp+
  have w: "next_scenario_id (tuning_world intra_example_side) = 3" "csp (pool_set (tuning_world intra_example_side)) = []"
    "it_calltree (plugin_state intra_example_side) = intra_tree"
    by (simp_all add: intra_example_side_def intra_world_def new_ScenarioPoolSet_def intra_example_def)
  have arp: "arp_ok (arp (pool_set (tuning_world intra_example_side)))"
    using arp_ok_intra_world by (simp add: intra_example_side_def)
  have p: "it_tuningStep (plugin_state intra_example_side) = HARDWARE_PARAMETER_TUNING"
    "0 \<le> it_scenario_no_atp (plugin_state intra_example_side)"
    "it_searchAlgorithm (plugin_state intra_example_side) = Some intra_search"
    by (simp_all add: intra_example_side_def intra_example_def HARDWARE_PARAMETER_TUNING_def)
  have tree: "phase_rtss intra_tree = ret [0]" "significant_rtss intra_tree = ret [1, 2]"
    "rn_callpathstring (rts_store intra_tree ! 0) = ''/phase''" "rn_callpathstring (rts_store intra_tree ! 1) = ''/phase/f''"
    "rn_callpathstring (rts_store intra_tree ! 2) = ''/phase/g''" by code_simp+
  have nz: "nonzero (dbl_of_int 40)" "nonzero (dbl_of_int 20)" "nonzero (dbl_of_int 12)"
    "dlt (dbl_of_int 12) (dbl_of_int 40)" "dlt (dbl_of_int 12) (dbl_of_int 20)" unfolding nonzero_def by code_simp+
  from verification_scenarios [OF p(1,2) arp p(3) o s', unfolded w tree Let_def]
  obtain r rest rs best ts where found: "ret [0] = ret (r # rest)" "configuration_of ?w (it_tuningParameters ?p) 1 = ret best"
      "ret [1, 2] = ret rs" "list_all2 (best_specification intra_example_env ?p ?w ?pool)
        (filter (rts_measured ?p ?w ?pool 1 0) (map (\<lambda>q. rn_callpathstring (rts_store intra_tree ! q)) rs)) ts"
    and pool: "csp (pool_set ?w) = fold ScenarioPool_push (map (\<lambda>k. verification_scenario (3 + k)
        (entity_specification (ie_build intra_example_env) best (rn_callpathstring (rts_store intra_tree ! r)) # ts)) [0, 1, 2]) []"
    and readex: "it_readexScenario ?p = sint (3 + 2 :: 32 word)" by blast
  have measured: "rts_measured ?p ?w ?pool 1 0 ''/phase/f''" "\<not> rts_measured ?p ?w ?pool 1 0 ''/phase/g''"
    by (simp_all add: rts_measured_def read nz)
  have paths: "map (\<lambda>q. rn_callpathstring (rts_store intra_tree ! q)) rs = [''/phase/f'', ''/phase/g'']"
    using found(3) tree by (auto simp del: One_nat_def)
  have "ts = [entity_specification (ie_build intra_example_env) [(7, 3000)] ''/phase/f'']"
    using found(4) unfolding paths by (auto simp: measured list_all2_Cons1 best_specification_def read nz)
  with found pool readex s' show ?thesis by (intro exI [of _ s']) (simp add: tree read)
qed

section \<open>The steps the plugin takes\<close>

text \<open>
  One call of an operation of the plugin between its start and its advice; \<open>tuningFinished\<close> answers whether the
  tuning is finished.
\<close>

inductive intra_call :: "'s intra_env \<Rightarrow> 's intra side \<Rightarrow> bool option \<Rightarrow> 's intra side \<Rightarrow> bool" for env where
  start_call: "intra_startTuningStep env s = ret s' \<Longrightarrow> intra_call env s None s'"
| analysis_call: "intra_analysisRequired s = ret (b, r, s') \<Longrightarrow> intra_call env s None s'"
| create_call: "intra_createScenarios env s = ret s' \<Longrightarrow> intra_call env s None s'"
| prepare_call: "intra_prepareScenarios s = ret s' \<Longrightarrow> intra_call env s None s'"
| define_call: "intra_defineExperiment n (b, r, s) = ret (b', r', s') \<Longrightarrow> intra_call env s None s'"
| restart_call: "intra_restartRequired q s = ret (b, q', s') \<Longrightarrow> intra_call env s None s'"
| search_call: "intra_searchFinished env s = ret (b, s') \<Longrightarrow> intra_call env s None s'"
| finish_call: "intra_finishTuningStep s = ret s' \<Longrightarrow> intra_call env s None s'"
| measured_call: "plugin_state s' = plugin_state s \<Longrightarrow> intra_call env s None s'"
| tuned_call: "intra_tuningFinished env s = ret (b, s') \<Longrightarrow> intra_call env s (Some b) s'"

inductive intra_calls :: "'s intra_env \<Rightarrow> 's intra side \<Rightarrow> bool list \<Rightarrow> 's intra side \<Rightarrow> bool" for env where
  initialized: "intra_initialize s0 = ret s \<Longrightarrow> intra_calls env s0 [] s"
| called: "intra_calls env s0 answers s \<Longrightarrow> intra_call env s reply s' \<Longrightarrow>
    intra_calls env s0 (answers @ (case reply of None \<Rightarrow> [] | Some b \<Rightarrow> [b])) s'"

text \<open>Only the start of a step and its end change the number of the step.\<close>

lemma step_kept_by_objectives [simp]: "it_tuningStep (intra_objectives env p) = it_tuningStep p"
proof -
  have "it_tuningStep (fold (add_objective env) xs p) = it_tuningStep p" for xs
    by (induction xs arbitrary: p) (simp_all add: add_objective_def)
  then show ?thesis by (simp add: intra_objectives_def split: prod.split)
qed

lemma step_kept_by_create_tp [simp]: "it_tuningStep (fst (snd (create_tp env f ipw))) = it_tuningStep (fst (snd ipw))"
  by (simp add: create_tp_def Let_def split: prod.split)

lemma step_kept_by_create_tps [simp]:
  "it_tuningStep (fst (snd (fold (\<lambda>x. create_tp env (f x)) xs ipw))) = it_tuningStep (fst (snd ipw))"
  by (induction xs arbitrary: ipw) simp_all

lemma step_kept_by_search: "search_do f p = ret q \<Longrightarrow> it_tuningStep q = it_tuningStep p"
  by (auto simp: search_do_def cbind_eq_ret)

lemma step_kept_by_hardware: "intra_hardware_step env (i, p, w) = ret (q, v) \<Longrightarrow> it_tuningStep q = it_tuningStep p"
  by (auto simp: intra_hardware_step_def hardware_parameters_def cbind_eq_ret Let_def split: prod.splits if_splits
      dest!: step_kept_by_search arg_cong [where f = "\<lambda>x. it_tuningStep (fst (snd x))"])

lemma step_kept_by_domain:
  assumes "atp_domain env d ipw = ret ipw'"
  shows "it_tuningStep (fst (snd ipw')) = it_tuningStep (fst (snd ipw))"
proof -
  have "it_tuningStep (fst (snd (fold atp_parameter tps x))) = it_tuningStep (fst (snd x))" for tps x
    by (induction tps arbitrary: x) (simp_all add: atp_parameter_def split: prod.split)
  then have "it_tuningStep (fst (snd (fold atp_parameter (snd d) ipw))) = it_tuningStep (fst (snd ipw))" .
  with assms show ?thesis
    by (auto simp: atp_domain_def cbind_eq_ret split: prod.splits dest!: step_kept_by_search)
qed

lemma step_kept_by_atp:
  assumes "intra_atp_step env (i, p, w) = ret (j, q, v)"
  shows "it_tuningStep q = it_tuningStep p \<or> it_tuningStep q = HARDWARE_PARAMETER_TUNING"
proof -
  let ?I = "\<lambda>x :: int \<times> 'a intra \<times> world. it_tuningStep (fst (snd x)) = it_tuningStep p"
  have "it_tuningStep (fst (snd x)) = it_tuningStep p"
    if "cfold (atp_domain env) ds (i, p\<lparr>it_searchAlgorithm := Some a\<rparr>, w) = ret x" for ds a x
    by (rule cfold_inv [where I = ?I, OF that]) (simp_all add: step_kept_by_domain)
  with assms show ?thesis by (fastforce simp: intra_atp_step_def cbind_eq_ret split: if_splits prod.splits)
qed

lemma step_after_start:
  assumes "intra_startTuningStep env s = ret s'"
  shows "it_tuningStep (plugin_state s') = it_tuningStep (plugin_state s) \<or>
    it_tuningStep (plugin_state s) = 1 \<and> it_tuningStep (plugin_state s') = 2"
proof -
  from assms obtain i p w q v where
    a: "(if it_tuningStep (plugin_state s) = ATP_PARAMETER_TUNING then intra_atp_step env (0, plugin_state s, tuning_world s)
         else ret (0, plugin_state s, tuning_world s)) = ret (i, p, w)"
    and h: "(if it_tuningStep p = HARDWARE_PARAMETER_TUNING then intra_hardware_step env (i, p, w) else ret (p, w)) = ret (q, v)"
    and s': "s' = set_intra q v s"
    unfolding intra_startTuningStep_def by (auto simp: cbind_eq_ret)
  have "it_tuningStep q = it_tuningStep p" using h step_kept_by_hardware [of env i p w q v] by (auto split: if_splits)
  moreover have "it_tuningStep p = it_tuningStep (plugin_state s) \<or> it_tuningStep (plugin_state s) = 1 \<and> it_tuningStep p = 2"
    using a step_kept_by_atp [of env 0 "plugin_state s" "tuning_world s" i p w]
    by (auto simp: ATP_PARAMETER_TUNING_def HARDWARE_PARAMETER_TUNING_def split: if_splits)
  ultimately show ?thesis by (simp add: s' set_intra_def)
qed

lemma atp_finished_step: "atp_finished env p w = ret (q, v) \<Longrightarrow> it_tuningStep q = it_tuningStep p"
  by (auto simp: atp_finished_def cbind_eq_ret split: if_splits)

lemma hardware_finished_step: "hardware_finished env p w = ret (q, v) \<Longrightarrow> it_tuningStep q = it_tuningStep p"
  by (erule hardware_finished_parts, drule sym, drule push_readex_three) simp

lemma step_after_finish:
  assumes "intra_tuningFinished env s = ret (b, s')"
  shows "if it_tuningStep (plugin_state s) = 1 \<or> it_tuningStep (plugin_state s) = 2
    then \<not> b \<and> it_tuningStep (plugin_state s') = it_tuningStep (plugin_state s) + 1 else b \<and> s' = s"
  using assms
  by (auto simp: intra_tuningFinished_def Let_def cbind_eq_ret set_intra_def ATP_PARAMETER_TUNING_def HARDWARE_PARAMETER_TUNING_def
      dest: atp_finished_step hardware_finished_step split: if_splits)

lemma step_after_call:
  assumes "intra_call env s None s'"
  shows "it_tuningStep (plugin_state s') = it_tuningStep (plugin_state s) \<or>
    it_tuningStep (plugin_state s) = 1 \<and> it_tuningStep (plugin_state s') = 2"
  using assms
proof cases
  case start_call
  then show ?thesis by (rule step_after_start)
qed (auto simp: intra_analysisRequired_def intra_createScenarios_def intra_prepareScenarios_def intra_defineExperiment_def
    intra_restartRequired_def intra_searchFinished_def intra_finishTuningStep_def set_side_pools_def set_intra_def Let_def cbind_eq_ret
    split: if_splits prod.splits)

text \<open>
  C7: However the operations of the plugin are called after its initialisation, and whatever is measured in
  between, at most two tuning steps end with the answer that tuning goes on, and none does after a step that ended
  with the answer that it is finished: the third step, at the latest, is the last.
\<close>

theorem at_most_three_steps:
  assumes "intra_calls env s0 answers s"
  shows "\<exists>n k. n \<le> 2 \<and> answers = replicate n False @ replicate k True"
proof -
  have "\<exists>n k. answers = replicate n False @ replicate k True \<and> int n < it_tuningStep (plugin_state s) \<and>
      it_tuningStep (plugin_state s) \<le> 3 \<and> (0 < k \<longrightarrow> it_tuningStep (plugin_state s) = 3)"
    using assms
  proof induction
    case (initialized s0 s)
    then show ?case by (auto simp: intra_initialize_def)
  next
    case (called s0 answers s reply s')
    then obtain n k where IH: "answers = replicate n False @ replicate k True" "int n < it_tuningStep (plugin_state s)"
      "it_tuningStep (plugin_state s) \<le> 3" "0 < k \<longrightarrow> it_tuningStep (plugin_state s) = 3" by blast
    show ?case
    proof (cases reply)
      case None
      with called.hyps(2) step_after_call [of env s s'] IH show ?thesis by (intro exI [of _ n] exI [of _ k]) auto
    next
      case (Some b)
      with called.hyps(2) have "intra_tuningFinished env s = ret (b, s')" by (auto elim: intra_call.cases)
      note step = step_after_finish [OF this]
      show ?thesis
      proof (cases b)
        case True
        with step have "s' = s" "it_tuningStep (plugin_state s) \<noteq> 1" "it_tuningStep (plugin_state s) \<noteq> 2"
          by (auto split: if_splits)
        with IH Some True show ?thesis
          by (intro exI [of _ n] exI [of _ "Suc k"]) (auto simp: replicate_append_same)
      next
        case False
        with step have "it_tuningStep (plugin_state s) < 3" "it_tuningStep (plugin_state s') = it_tuningStep (plugin_state s) + 1"
          by (auto split: if_splits)
        with IH Some False show ?thesis
          by (intro exI [of _ "Suc n"] exI [of _ 0]) (auto simp: replicate_append_same)
      qed
    qed
  qed
  then obtain n k where a: "answers = replicate n False @ replicate k True" and "int n < it_tuningStep (plugin_state s)"
    "it_tuningStep (plugin_state s) \<le> 3" by blast
  then have "n \<le> 2" by simp
  with a show ?thesis by blast
qed

theorem at_most_three_steps_witness:
  "\<exists>s. intra_calls intra_example_env intra_example_side [False] s \<and> (\<exists>n k. n \<le> 2 \<and> [False] = replicate n False @ replicate k True)"
proof -
  obtain s1 where s1: "intra_initialize intra_example_side = ret s1" and "it_tuningStep (plugin_state s1) = 1"
    by (simp add: intra_initialize_def)
  then obtain s2 where s2: "intra_tuningFinished intra_example_env s1 = ret (False, s2)"
    by (simp add: intra_tuningFinished_def Let_def ATP_PARAMETER_TUNING_def atp_finished_def intra_example_env_def)
  have "intra_calls intra_example_env intra_example_side [False] s2"
    using called [OF initialized [OF s1] tuned_call [OF s2]] by simp
  with at_most_three_steps [OF this] show ?thesis by blast
qed

section \<open>What goes wrong\<close>

text \<open>
  C40: When application tuning parameters are enabled and the parameter server cannot be started or knows none,
  the first tuning step has no parameter: it starts, creates no scenario, says its search is finished, and at its end
  the plugin asks a search algorithm it never loaded for the optimum.
\<close>

theorem silent_parameter_server_is_fatal:
  assumes "ie_atp_mode env = Some ''DTA''" and "ie_atp_description env" and "ie_atp_specs env = []"
    and "intra_initialize s = ret s1" and "it_tuningParameters (plugin_state s) = []" and "it_searchAlgorithm (plugin_state s) = None"
  shows "intra_startTuningStep env s1 = ret s1 \<and> intra_createScenarios env s1 = ret s1 \<and>
    intra_searchFinished env s1 = ret (True, s1) \<and> intra_tuningFinished env s1 = fail UB"
  using assms
  by (auto simp: intra_initialize_def intra_startTuningStep_def intra_atp_step_def intra_createScenarios_def intra_searchFinished_def
      intra_tuningFinished_def atp_finished_def deref_def set_intra_def ATP_PARAMETER_TUNING_def HARDWARE_PARAMETER_TUNING_def)

theorem silent_parameter_server_is_fatal_witness:
  "\<exists>s1. intra_initialize (intra_example_side\<lparr>plugin_state := intra_example\<lparr>it_tuningParameters := [], it_searchAlgorithm := None\<rparr>\<rparr>) = ret s1 \<and>
     intra_tuningFinished (intra_example_env\<lparr>ie_atp_mode := Some ''DTA'', ie_atp_description := True\<rparr>) s1 = fail UB"
proof -
  let ?s = "intra_example_side\<lparr>plugin_state := intra_example\<lparr>it_tuningParameters := [], it_searchAlgorithm := None\<rparr>\<rparr>"
  obtain s1 where s1: "intra_initialize ?s = ret s1" by (simp add: intra_initialize_def)
  have "intra_tuningFinished (intra_example_env\<lparr>ie_atp_mode := Some ''DTA'', ie_atp_description := True\<rparr>) s1 = fail UB"
    using silent_parameter_server_is_fatal [OF _ _ _ s1, of "intra_example_env\<lparr>ie_atp_mode := Some ''DTA'', ie_atp_description := True\<rparr>"]
    by (simp add: intra_example_env_def)
  with s1 show ?thesis by blast
qed

text \<open>
  A frequency step that is not a number is not reported: the entry is read as 0, the tests for a number never
  hold, and the plugin divides by it. This is so for every text without a number in the entry, when the two
  ends of the range are there, in order and in range.
\<close>

theorem step_that_is_no_number:
  assumes "ie_config env ''Configuration.tuningParameter.frequency.min_freq'' = Some lo" and "c_atoi lo = ret l"
    and "ie_config env ''Configuration.tuningParameter.frequency.max_freq'' = Some hi" and "c_atoi hi = ret h"
    and "ie_config env ''Configuration.tuningParameter.frequency.freq_step'' = Some step" and "strtol10 step = (0, False)"
    and "ie_config env ''Configuration.tuningParameter.frequency.default'' = None"
    and "ie_config env ''Configuration.tuningParameter.openMPThreads.lower_value'' = None" and "l \<le> h"
  shows "intra_hardware_step env (i, p, w) = fail UB"
proof -
  have "c_atoi step = ret 0" using assms(6) by (simp add: c_atoi_def in_int_def INT_MIN_def INT_MAX_def)
  then have "read_frequencies (ie_config env) ''Configuration.tuningParameter.frequency'' f = ret (f\<lparr>fq_min := l, fq_max := h, fq_step := 0\<rparr>)" for f
    using assms by (simp add: read_frequencies_def)
  moreover have "read_threads (ie_config env) = ret (1, 1)" using assms by (simp add: read_threads_def)
  moreover have "fq_step f = 0 \<Longrightarrow> fq_min f \<le> fq_max f \<Longrightarrow> round_range f = fail UB" for f
    by (simp add: round_range_def cmod_def check_def)
  ultimately show ?thesis using assms(9) by (simp add: intra_hardware_step_def hardware_parameters_def)
qed

definition config_of :: "(string \<times> string) list \<Rightarrow> string \<Rightarrow> string option" where
  "config_of lines = map_of lines"

theorem step_that_is_no_number_witness:
  "intra_hardware_step (intra_example_env\<lparr>ie_config := config_of [(''Configuration.tuningParameter.frequency.min_freq'', ''1200''),
     (''Configuration.tuningParameter.frequency.max_freq'', ''2400''), (''Configuration.tuningParameter.frequency.freq_step'', ''fast'')]\<rparr>)
     (0, intra_example, intra_world) = fail UB"
proof (rule step_that_is_no_number)
  show "c_atoi ''1200'' = ret 1200" and "c_atoi ''2400'' = ret 2400" by code_simp+
  show "strtol10 ''fast'' = (0, False)" by code_simp
qed (simp_all add: config_of_def)

text \<open>
  The unit of a compound objective is appended to the unit the next objective starts from: with the
  normalised energy first, the units of the energy and of the energy-delay product that follow are per instruction
  too, while in the other order they are not.
\<close>

theorem units_grow:
  "map snd (objectives_of cost u [''NormalizedEnergy'', ''Energy'', ''EDP'']) =
     [energyUnit u @ ''/instr'', energyUnit u @ ''/instr'', energyUnit u @ ''/instr*'' @ timeUnit u] \<and>
   map snd (objectives_of cost u [''Energy'', ''EDP'', ''NormalizedEnergy'']) =
     [energyUnit u, energyUnit u @ ''*'' @ timeUnit u, energyUnit u @ ''*'' @ timeUnit u @ ''/instr'']"
  by (simp add: objective_of_def Let_def)

text \<open>
  The entry of the file \<open>rts.xml\<close> of an rts that did not run in the worst scenario carries the execution time and the
  weight of the rts before it.
\<close>

lemma entry_of_other_rts:
  assumes "tune_rts env p w t optimumSc worstSc r h = ret h'" and "arp_ok (hs_arp h)" and "0 \<le> it_scenario_no_atp p"
    and "n = rts_store (hs_tree h) ! r" and "rts_value p (hs_arp h) (rn_callpathstring n) worstSc = ret v" and "\<not> nonzero v"
  shows "hs_entries h' = hs_entries h @ [(hs_entry h)\<lparr>re_callpath := rn_callpathstring n\<rparr>]"
proof -
  from assms(1) obtain sn pool h1 where
    scan: "cfold (scan_scenario p (rn_callpathstring n) optimumSc worstSc) (scenario_numbers p w) (no_scan, hs_arp h) = ret (sn, pool)"
    and store: "(if optimumSc \<noteq> - 1 \<and> sn_optScenario sn \<noteq> - 1 \<and> nonzero (sn_worst sn)
        then cfold (rts_result env p w t r (rn_callpathstring n))
          [(STATIC_WORST, worstSc, sn_worst sn), (STATIC_BEST, optimumSc, sn_static sn), (RTS_BEST, sn_optScenario sn, sn_optimum sn)]
          (h\<lparr>hs_entry := (hs_entry h)\<lparr>re_callpath := rn_callpathstring n\<rparr>, hs_arp := pool\<rparr>)
        else ret (h\<lparr>hs_entry := (hs_entry h)\<lparr>re_callpath := rn_callpathstring n\<rparr>, hs_arp := pool\<rparr>)) = ret h1"
    and h': "h' = h1\<lparr>hs_entries := hs_entries h1 @ [hs_entry h1]\<rparr>"
    by (auto simp: tune_rts_def Let_def cbind_eq_ret simp flip: assms(4))
  have "scan_inv (rts_value p (hs_arp h) (rn_callpathstring n)) optimumSc worstSc (scenario_numbers p w) sn"
    using scan_fold [OF scan scan_inv_none assms(2) refl] scenario_numbers_nonneg [OF assms(3)] by auto
  then have "if worstSc \<in> set (scenario_numbers p w) then rts_value p (hs_arp h) (rn_callpathstring n) worstSc = ret (sn_worst sn)
      else \<not> nonzero (sn_worst sn)" unfolding scan_inv_def by blast
  then have c: "\<not> (optimumSc \<noteq> - 1 \<and> sn_optScenario sn \<noteq> - 1 \<and> nonzero (sn_worst sn))"
    using assms(5,6) by (simp split: if_splits)
  from store [unfolded if_not_P [OF c] ret_inject, symmetric] show ?thesis by (simp add: h')
qed

text \<open>The energies of the phase are added to what the stack happens to hold.\<close>

definition energy_entry :: "string \<Rightarrow> meta_property \<Rightarrow> int option" where
  "energy_entry key mp =
     (case sm_find (addInfo mp) key of None \<Rightarrow> None
      | Some t \<Rightarrow> (case c_atoi t of Some (Inr v) \<Rightarrow> Some v | _ \<Rightarrow> None))"

definition cpu_energy :: "meta_property \<Rightarrow> int option" where
  "cpu_energy mp = (if c_atoi (mp_id mp) = ret ENERGY_CONSUMPTION then energy_entry ''CPUEnergy'' mp else None)"

lemma add_info_ret:
  "add_info key mp e = ret e' \<Longrightarrow> e' = (case energy_entry key mp of None \<Rightarrow> e | Some v \<Rightarrow> dadd e (dbl_of_int v))"
  by (cases "sm_find (addInfo mp) key") (auto simp: add_info_def energy_entry_def cbind_eq_ret, simp add: ret_def)

lemma extra_cpu_energy:
  assumes "extra_of_property mp x = ret y"
  shows "xi_cpuEnergy y = (case cpu_energy mp of None \<Rightarrow> xi_cpuEnergy x | Some v \<Rightarrow> dadd (xi_cpuEnergy x) (dbl_of_int v))"
proof (cases "c_atoi (mp_id mp) = ret ENERGY_CONSUMPTION")
  case True
  with assms obtain cpu node where cpu: "add_info ''CPUEnergy'' mp (xi_cpuEnergy x) = ret cpu"
    and y: "(let y = x\<lparr>xi_cpuEnergy := cpu, xi_nodeEnergy := node\<rparr>
              in case sm_find (addInfo mp) ''Instances'' of None \<Rightarrow> ret y
                 | Some t \<Rightarrow> cbind (c_atoi t) (\<lambda>v.
                     ret (if v > xi_instances y
                          then y\<lparr>xi_instances := v, xi_time := (case sm_find (addInfo mp) ''ExecTime'' of
                                 None \<Rightarrow> xi_time y | Some e \<Rightarrow> c_atof e)\<rparr> else y))) = ret y"
    unfolding extra_of_property_def by (auto simp only: cbind_ret cbind_eq_ret if_False simp_thms)
  have "xi_cpuEnergy y = cpu"
    using y by (cases "sm_find (addInfo mp) ''Instances''") (auto simp: Let_def cbind_eq_ret)
  with add_info_ret [OF cpu] True show ?thesis by (simp add: cpu_energy_def)
next
  case False
  with assms have "y = x" unfolding extra_of_property_def by (auto simp only: cbind_eq_ret ret_inject split: if_splits)
  with False show ?thesis by (simp add: cpu_energy_def)
qed

lemma phase_energy_starts_anywhere:
  assumes "insertExtraInfo props x = ret (y, info)"
  shows "sm_find info ''CPUEnergy'' = Some (fold (\<lambda>mp e. case cpu_energy mp of None \<Rightarrow> e | Some v \<Rightarrow> dadd e (dbl_of_int v))
    props (xi_cpuEnergy x))"
proof -
  from assms have f: "cfold extra_of_property props x = ret y"
    and i: "sm_find info ''CPUEnergy'' = Some (xi_cpuEnergy y)"
    by (auto simp: insertExtraInfo_def cbind_eq_ret)
  have "xi_cpuEnergy y = fold (\<lambda>mp e. case cpu_energy mp of None \<Rightarrow> e | Some v \<Rightarrow> dadd e (dbl_of_int v)) props (xi_cpuEnergy x)"
    using f by (induction props arbitrary: x) (auto simp: cbind_eq_ret dest!: extra_cpu_energy)
  with i show ?thesis by simp
qed

section \<open>What the plugin asks for\<close>

definition energy_request :: "rts_object \<Rightarrow> property_request" where
  "energy_request n = \<lparr>property_ids = [ENERGY_CONSUMPTION], pr_ranks = ALL_RANKS, entities = [rn_callpathstring n], pr_rtsBased = True\<rparr>"

lemma rts_request_ret:
  "rts_request st r reqList = ret reqs \<Longrightarrow> reqs = reqList @ [energy_request (rts_store st ! r)]"
  by (auto simp: rts_request_def cbind_eq_ret addPropertyID_def PropertyRequest_addRts_def PropertyRequest_all_def
      addAllProcesses_def energy_request_def ENERGY_CONSUMPTION_def rts_ref_of_def split: if_splits option.splits)

lemma rts_requests_ret:
  "cfold (rts_request st) rtsList reqList = ret reqs \<Longrightarrow> reqs = reqList @ map (\<lambda>r. energy_request (rts_store st ! r)) rtsList"
proof (induction rtsList arbitrary: reqList)
  case (Cons r rtsList)
  from Cons.prems obtain reqs1 where "rts_request st r reqList = ret reqs1" "cfold (rts_request st) rtsList reqs1 = ret reqs"
    by (auto simp: cbind_eq_ret)
  with Cons.IH [OF this(2)] rts_request_ret [OF this(1)] show ?case by simp
qed simp

lemma region_requests_ret:
  assumes "region_requests st = ret reqs"
  shows "\<exists>rs. significant_rtss st = ret rs \<and> reqs = map (\<lambda>r. energy_request (rts_store st ! r)) rs"
proof -
  have "\<exists>rs. cfold (\<lambda>g l. cbind (deref (calltree_root (ct_appl st))) (\<lambda>r.
         cbind (getValidRtsOfRegion st (Some g) r []) (\<lambda>rtsList. ret (l @ rtsList)))) gs l = ret (l @ rs) \<and>
      reqs = map (\<lambda>r. energy_request (rts_store st ! r)) (l @ rs)"
    if "cfold (\<lambda>g reqList. cbind (deref (calltree_root (ct_appl st))) (\<lambda>r.
              cbind (getValidRtsOfRegion st (Some g) r []) (\<lambda>rtsList. cfold (rts_request st) rtsList reqList))) gs
            (map (\<lambda>r. energy_request (rts_store st ! r)) l) = ret reqs" for gs l
    using that
  proof (induction gs arbitrary: l)
    case (Cons g gs)
    from Cons.prems obtain r rtsList where d: "deref (calltree_root (ct_appl st)) = ret r"
      and g: "getValidRtsOfRegion st (Some g) r [] = ret rtsList"
      and rest: "cfold (\<lambda>g reqList. cbind (deref (calltree_root (ct_appl st))) (\<lambda>r.
              cbind (getValidRtsOfRegion st (Some g) r []) (\<lambda>rtsList. cfold (rts_request st) rtsList reqList))) gs
            (map (\<lambda>r. energy_request (rts_store st ! r)) (l @ rtsList)) = ret reqs"
      by (auto simp: cbind_eq_ret dest!: rts_requests_ret)
    from Cons.IH [OF rest] d g show ?case by auto
  qed simp
  from this [of _ "[]"] assms show ?thesis by (simp add: region_requests_def significant_rtss_def)
qed

lemma tuned_for_rtss:
  "cfold (\<lambda>r sc. cbind (rts_at st r) (\<lambda>n.
      ret (setSingleTunedRtsWithPropertyALLRanks (Some (rts_ref_of n)) ENERGY_CONSUMPTION sc))) rs sc = ret sc' \<Longrightarrow> rs \<noteq> [] \<Longrightarrow>
   rtsBased sc' \<and> sc_ts sc' = sc_ts sc \<and> sc_id sc' = sc_id sc \<and> tuned_entity sc' = rn_callpathstring (rts_store st ! last rs) \<and>
    sc_pr sc' = Some ((case sc_pr sc of None \<Rightarrow> [] | Some prs \<Rightarrow> prs) @ replicate (length rs) (PropertyRequest_all [ENERGY_CONSUMPTION]))"
proof (induction rs arbitrary: sc)
  case (Cons r rs)
  then show ?case
    by (cases "rs = []")
      (auto simp: cbind_eq_ret setSingleTunedRtsWithPropertyALLRanks_def setTunedRts_def setPropertyRequests_def Let_def rts_ref_of_def
        split: option.splits)
qed simp

text \<open>
  C6: Defining an experiment takes the scenario with the smallest identifier out of the prepared ones, gives it one
  request for the energy of all processes per valid rts of the phase and the phase's rts as the tuned one, and
  makes it the experiment; and when there are significant regions, it asks for the energy of exactly the
  valid rts's of these, each on all processes.
\<close>

theorem experiment_measures_significant_rtss:
  assumes "intra_defineExperiment n (required, strategy, s) = ret (required', strategy', s')"
    and "sig_regions (ct_appl (it_calltree (plugin_state s))) \<noteq> []"
  shows "\<exists>rs sc sc' rest phase. let st = it_calltree (plugin_state s) in
    significant_rtss st = ret rs \<and> required' \<and>
    strategy' = Some (new_StrategyRequest (CONFIG (map (\<lambda>r. energy_request (rts_store st ! r)) rs)) intra_info) \<and>
    ScenarioPool_pop (psp (pool_set (tuning_world s))) = ret (Some sc, rest) \<and> psp (pool_set (tuning_world s')) = rest \<and>
    esp (pool_set (tuning_world s')) = ScenarioPool_push sc' (esp (pool_set (tuning_world s))) \<and>
    phase_rtss st = ret phase \<and> phase \<noteq> [] \<and> sc_ts sc' = sc_ts sc \<and> sc_id sc' = sc_id sc \<and> rtsBased sc' \<and>
    tuned_entity sc' = rn_callpathstring (rts_store st ! last phase) \<and>
    sc_pr sc' = Some ((case sc_pr sc of None \<Rightarrow> [] | Some prs \<Rightarrow> prs) @
      replicate (length phase) (PropertyRequest_all [ENERGY_CONSUMPTION]))"
proof -
  let ?st = "it_calltree (plugin_state s)" and ?ps = "pool_set (tuning_world s)"
  from assms obtain sc rest phase sc' reqs where pop: "ScenarioPool_pop (psp ?ps) = ret (Some sc, rest)"
    and phase: "phase_rtss ?st = ret phase" "phase \<noteq> []"
    and f: "cfold (\<lambda>r sc. cbind (rts_at ?st r) (\<lambda>n.
      ret (setSingleTunedRtsWithPropertyALLRanks (Some (rts_ref_of n)) ENERGY_CONSUMPTION sc))) phase sc = ret sc'"
    and reqs: "region_requests ?st = ret reqs" and s': "s' = set_side_pools (?ps\<lparr>psp := rest, esp := ScenarioPool_push sc' (esp ?ps)\<rparr>) s"
    and r: "required'" "strategy' = Some (new_StrategyRequest (CONFIG reqs) intra_info)"
    by (auto simp: intra_defineExperiment_def Let_def cbind_eq_ret deref_def split: if_splits option.splits)
  have "rtsBased sc' \<and> sc_ts sc' = sc_ts sc \<and> sc_id sc' = sc_id sc \<and> tuned_entity sc' = rn_callpathstring (rts_store ?st ! last phase) \<and>
    sc_pr sc' = Some ((case sc_pr sc of None \<Rightarrow> [] | Some prs \<Rightarrow> prs) @ replicate (length phase) (PropertyRequest_all [ENERGY_CONSUMPTION]))"
    using f phase(2) by (rule tuned_for_rtss)
  with region_requests_ret [OF reqs] pop phase r show ?thesis
    unfolding Let_def by (auto simp: s' set_side_pools_def)
qed


theorem experiment_measures_significant_rtss_witness:
  "\<exists>s' reqs. intra_defineExperiment 1 (False, None, set_side_pools (new_ScenarioPoolSet\<lparr>psp := [example_setting 5 2000]\<rparr>) intra_example_side) =
     ret (True, Some (new_StrategyRequest (CONFIG reqs) intra_info), s') \<and>
   reqs = map (\<lambda>r. energy_request (rts_store intra_tree ! r)) [1, 2]"
proof -
  let ?s = "set_side_pools (new_ScenarioPoolSet\<lparr>psp := [example_setting 5 2000]\<rparr>) intra_example_side"
  have "map_option (map_sum (\<lambda>_. ()) (\<lambda>_. ())) (intra_defineExperiment 1 (False, None, ?s)) = Some (Inr ())" by code_simp
  then obtain b st s' where d: "intra_defineExperiment 1 (False, None, ?s) = ret (b, st, s')"
    by (cases "intra_defineExperiment 1 (False, None, ?s)" rule: comp_cases) (auto simp: ret_def fail_def)
  have t: "it_calltree (plugin_state ?s) = intra_tree"
    by (simp add: set_side_pools_def intra_example_side_def intra_example_def)
  have "sig_regions (ct_appl intra_tree) \<noteq> []" by (simp add: intra_tree_def)
  from experiment_measures_significant_rtss [OF d, unfolded t, OF this] obtain rs where
    rs: "significant_rtss intra_tree = ret rs" and b: "b"
    and st: "st = Some (new_StrategyRequest (CONFIG (map (\<lambda>r. energy_request (rts_store intra_tree ! r)) rs)) intra_info)"
    unfolding Let_def by blast
  have "significant_rtss intra_tree = ret [1, 2]" by code_simp
  with rs have "rs = [1, 2]" by simp
  with d b st show ?thesis
    by (intro exI [of _ s'] exI [of _ "map (\<lambda>r. energy_request (rts_store intra_tree ! r)) rs"]) simp
qed

section \<open>Under the tuning driver\<close>

lemma no_exit_valid_rtss [simp]: "no_exit (getValidRtsOfRegion st g p l)"
proof -
  have "r \<noteq> Inl ExitFailure" if "getValidRtsOfRegion st g p l = Some r" for r
  proof (rule getValidRtsOfRegion.raw_induct [where P = "\<lambda>st g p l r. r \<noteq> Inl ExitFailure", OF _ that])
    fix f :: "calltree \<Rightarrow> region_ptr option \<Rightarrow> rts_ptr \<Rightarrow> rts_ptr list \<Rightarrow> rts_ptr list comp" and st g p l r
    assume IH: "\<And>st g p l r. f st g p l = Some r \<Longrightarrow> r \<noteq> Inl ExitFailure"
      and b: "cbind (rts_at st p) (\<lambda>n. cfold (f st g) (rn_children n) (if rn_isValidRts n \<and> rn_reg n = g then l @ [p] else l)) = Some r"
    have "no_exit (f st g c l)" for c l using IH [of st g c l] by (auto simp: no_exit_def fail_def)
    then have "no_exit (cbind (rts_at st p) (\<lambda>n. cfold (f st g) (rn_children n) (if rn_isValidRts n \<and> rn_reg n = g then l @ [p] else l)))"
      by (auto intro!: no_exit_rules simp: rts_at_def)
    with b show "r \<noteq> Inl ExitFailure" by (auto simp: no_exit_def fail_def)
  qed
  then show ?thesis by (auto simp: no_exit_def fail_def)
qed

lemma no_exit_insert_defaults [simp]: "no_exit (insertDefaultTPValues heap tps p st)"
proof -
  have "r \<noteq> Inl ExitFailure" if "insertDefaultTPValues heap tps p st = Some r" for r
  proof (rule insertDefaultTPValues.raw_induct [where P = "\<lambda>heap tps p st r. r \<noteq> Inl ExitFailure", OF _ that])
    fix f :: "tp_store \<Rightarrow> tp_ptr list \<Rightarrow> rts_ptr \<Rightarrow> calltree \<Rightarrow> calltree comp" and heap tps p st r
    assume IH: "\<And>heap tps p st r. f heap tps p st = Some r \<Longrightarrow> r \<noteq> Inl ExitFailure"
      and b: "cbind (rts_at st p) (\<lambda>n. cbind (add_default_values heap tps n) (\<lambda>m.
         cfold (f heap tps) (rn_children n) (set_rts p m st))) = Some r"
    have "no_exit (f heap tps c st)" for c st using IH [of heap tps c st] by (auto simp: no_exit_def fail_def)
    then have "no_exit (cbind (rts_at st p) (\<lambda>n. cbind (add_default_values heap tps n) (\<lambda>m.
         cfold (f heap tps) (rn_children n) (set_rts p m st))))"
      by (auto intro!: no_exit_rules simp: rts_at_def add_default_values_def deref_def split: list.split option.split)
    with b show "r \<noteq> Inl ExitFailure" by (auto simp: no_exit_def fail_def)
  qed
  then show ?thesis by (auto simp: no_exit_def fail_def)
qed

definition calm_search :: "'s search_alg \<Rightarrow> bool" where
  "calm_search sa \<longleftrightarrow> (\<forall>s. no_exit (sa_initialize sa s)) \<and> (\<forall>ss s. no_exit (sa_addSearchSpace sa ss s)) \<and>
     (\<forall>s w. no_exit (sa_createScenarios sa s w)) \<and> (\<forall>s w. no_exit (sa_searchFinished sa s w)) \<and>
     (\<forall>s. no_exit (sa_getOptimum sa s)) \<and> (\<forall>s. no_exit (sa_getWorst sa s))"

definition calm_intra :: "'s intra_env \<Rightarrow> bool" where
  "calm_intra env \<longleftrightarrow> calm_search (ie_search env) \<and> (\<forall>n. no_exit (ie_load env n)) \<and> (\<forall>st heap. no_exit (ie_generate env st heap))"

text \<open>A search that evaluates all it has created at once is finished when it is asked.\<close>

definition one_shot :: "'s search_alg \<Rightarrow> bool" where
  "one_shot sa \<longleftrightarrow> (\<forall>s w b s' w'. sa_searchFinished sa s w = ret (b, s', w') \<longrightarrow> b)"

lemma calm_exhaustive: "calm_search (exhaustive_alg b)"
  by (simp add: calm_search_def exhaustive_alg_def ex_getOptimum_def ex_getWorst_def no_exit_check)

lemma one_shot_exhaustive: "one_shot (exhaustive_alg b)"
  by (auto simp: one_shot_def exhaustive_alg_def dest: searchFinished_True)

lemma no_exit_deref [simp]: "no_exit (deref x)"
  by (simp add: deref_def split: option.split)

lemma no_exit_rts_at [simp]: "no_exit (rts_at st p)"
  by (simp add: rts_at_def no_exit_check)

lemma no_exit_addRts [simp]: "no_exit (addRts r ss)"
  by (simp add: addRts_def split: option.split)

lemma no_exit_vector_at [simp]: "no_exit (vector_at xs i)"
  by (simp add: vector_at_def)

lemma no_exit_division [simp]: "no_exit (cmod a b)" "no_exit (cdiv a b)"
  by (simp_all add: no_exit_def cmod_def cdiv_def)

lemma no_exit_settings [simp]: "no_exit (read_settings config es x)"
  by (induction config es x rule: read_settings.induct) (auto intro!: no_exit_rules split: option.split)

lemma no_exit_round [simp]: "no_exit (round_range f)"
  by (auto simp: round_range_def intro!: no_exit_rules)

lemma no_exit_phase [simp]: "no_exit (phase_rtss st)" "no_exit (add_phase st ss)"
  by (auto simp: phase_rtss_def add_phase_def intro!: no_exit_rules)

lemma no_exit_option: "no_exit a \<Longrightarrow> (\<And>x. no_exit (f x)) \<Longrightarrow> no_exit (case v of None \<Rightarrow> a | Some x \<Rightarrow> f x)"
  by (cases v) simp_all

lemma no_exit_pair: "(\<And>x y. no_exit (f x y)) \<Longrightarrow> no_exit (case v of (x, y) \<Rightarrow> f x y)"
  by (cases v) simp

lemma no_exit_pair_applied: "(\<And>x y. no_exit (f x y s)) \<Longrightarrow> no_exit ((case v of (x, y) \<Rightarrow> f x y) s)"
  by (cases v) simp

lemmas calm_rules = no_exit_pair_applied no_exit_cbind no_exit_cfold no_exit_if no_exit_check no_exit_option no_exit_pair no_exit_loop

lemma no_exit_configured [simp]: "no_exit (read_frequencies config grp f)" "no_exit (read_threads config)"
  unfolding read_frequencies_def read_threads_def by (rule no_exit_settings)+

lemma no_exit_parameters [simp]: "no_exit (hardware_parameters env x)"
  unfolding hardware_parameters_def Let_def by (intro calm_rules) simp_all

lemma no_exit_search_do: "(\<And>s. no_exit (f s)) \<Longrightarrow> no_exit (search_do f p)"
  unfolding search_do_def by (intro calm_rules) simp_all

lemma no_exit_searches:
  assumes "calm_intra env"
  shows "no_exit (hardware_search env)" "no_exit (atp_search env)"
  unfolding hardware_search_def atp_search_def set_from_config_def Let_def
  using assms unfolding calm_intra_def calm_search_def by - (intro calm_rules; simp)+

lemma no_exit_domain: "calm_intra env \<Longrightarrow> no_exit (atp_domain env d x)"
  unfolding atp_domain_def calm_intra_def calm_search_def
  by (auto intro!: no_exit_rules no_exit_search_do split: prod.split)

lemma no_exit_starts:
  assumes "calm_intra env"
  shows "no_exit (intra_atp_step env x)" "no_exit (intra_hardware_step env x)"
proof -
  show "no_exit (intra_atp_step env x)"
    unfolding intra_atp_step_def using assms
    by (auto intro!: no_exit_rules no_exit_searches no_exit_domain split: prod.split)
  have "no_exit (sa_addSearchSpace (ie_search env) ss t)" for ss t
    using assms by (simp add: calm_intra_def calm_search_def)
  then show "no_exit (intra_hardware_step env x)"
    unfolding intra_hardware_step_def using assms
    by (auto intro!: no_exit_rules no_exit_searches no_exit_search_do split: prod.split)
qed

lemma no_exit_getProperties [simp]: "no_exit (getPropertiesForScenarioIDandEntity i e p)"
proof -
  have "no_exit (select_properties i e mps props)" for mps props
    by (induction i e mps props rule: select_properties.induct) (auto intro!: no_exit_rules)
  then show ?thesis
    by (auto simp: getPropertiesForScenarioIDandEntity_def collect_body_def Let_def intro!: no_exit_rules no_exit_loop split: prod.split)
qed

lemma no_exit_extra [simp]: "no_exit (insertExtraInfo props x)"
  by (auto simp: insertExtraInfo_def extra_of_property_def add_info_def Let_def intro!: no_exit_rules split: option.split)

lemma no_exit_values [simp]: "no_exit (getTuningValue w i a)" "no_exit (configuration_of w tps i)" "no_exit (read_row p w i)"
  "no_exit (scenario_values objs i pool)"
  by (auto simp: getTuningValue_def configuration_of_def read_row_def scenario_values_def intro!: no_exit_rules split: prod.split)

lemma no_exit_tune [simp]: "no_exit (tune_region env p w t o1 w1 g h)"
  by (auto simp: tune_region_def tune_rts_def scan_scenario_def rts_result_def update_rts_def Let_def
      simp del: objective_props.simps intro!: no_exit_rules split: prod.split)

lemma no_exit_ends:
  assumes "calm_intra env"
  shows "no_exit (atp_finished env p w)" "no_exit (hardware_finished env p w)" "no_exit (verification_finished p w)"
  using assms
  by (auto simp: calm_intra_def calm_search_def atp_finished_def note_optimum_def hardware_finished_def add_results_def result_body_def
      phase_specification_def phase_row_def phase_result_def update_rts_def verification_finished_def displaySavings_def savings_def
      add_saving_def result_value_def Let_def
      intro!: no_exit_rules no_exit_loop split: prod.split option.split list.split)


lemma calm_intraphase:
  assumes "calm_surroundings out" and plug: "plug out = intraphase_plugin env" and env: "calm_intra env"
  shows "calm out"
proof -
  have sa: "no_exit (sa_createScenarios (ie_search env) a w)" "no_exit (sa_searchFinished (ie_search env) a w)"
    "no_exit (ie_generate env st heap)" for a w st heap
    using env by (simp_all add: calm_intra_def calm_search_def)
  have "no_exit (intra_initialize s)" "no_exit (intra_analysisRequired s)" "no_exit (intra_restartRequired q s)"
    "no_exit (intra_finishTuningStep s)" "no_exit (intra_finalize s)" for s :: "'a intra side" and q
    by (simp_all add: intra_initialize_def intra_analysisRequired_def intra_restartRequired_def intra_finishTuningStep_def intra_finalize_def)
  moreover have "no_exit (intra_startTuningStep env s)" for s
    unfolding intra_startTuningStep_def by (intro calm_rules) (simp_all add: no_exit_starts [OF env])
  moreover have "no_exit (intra_createScenarios env s)" "no_exit (intra_searchFinished env s)" for s
    unfolding intra_createScenarios_def intra_searchFinished_def Let_def by (intro calm_rules; simp add: sa)+
  moreover have "no_exit (intra_prepareScenarios s)" for s :: "'a intra side"
    unfolding intra_prepareScenarios_def Let_def by (rule no_exit_cbind, rule no_exit_move) (auto intro!: no_exit_pair)
  moreover have "no_exit (intra_defineExperiment n x)" for n and x :: "bool \<times> strategy_request option \<times> 'a intra side"
    unfolding intra_defineExperiment_def Let_def region_requests_def rts_request_def
    by (intro calm_rules; simp add: ScenarioPool_pop_def addPropertyID_def PropertyRequest_addRts_def split: list.split)
  moreover have "no_exit (intra_tuningFinished env s)" for s
    unfolding intra_tuningFinished_def Let_def by (intro calm_rules) (simp_all add: no_exit_ends [OF env])
  moreover have "no_exit (intra_getAdvice env s)" for s
    unfolding intra_getAdvice_def Let_def by (intro calm_rules) (simp_all add: sa)
  ultimately show ?thesis
    using assms(1) unfolding calm_def plug calm_surroundings_def by (simp add: intraphase_plugin_def)
qed

text \<open>
  The plugin keeps the driver's contract with a search that is done when it is asked: it never asks for an analysis,
  and no search step is followed by another.
\<close>

definition with_search :: "'s search_alg \<Rightarrow> 's intra_env \<Rightarrow> 's intra_env" where
  "with_search sa env = env\<lparr>ie_search := sa\<rparr>"

lemma search_finished_at_once:
  assumes "one_shot (ie_search env)" and "intra_searchFinished env s = ret (b, s')"
  shows b
proof -
  have "b'" if "sa_searchFinished (ie_search env) x w = ret (b', r)" for x w b' r
    using assms(1) that unfolding one_shot_def by (cases r) blast
  with assms(2) show ?thesis
    by (auto simp: intra_searchFinished_def Let_def cbind_eq_ret split: if_splits)
qed

interpretation intraphase: tuning_plugin "intraphase_plugin (with_search (exhaustive_alg build) env)" "\<lambda>_. True" "\<lambda>_. True"
  for build env
  by unfold_locales
    (auto simp: intraphase_plugin_def intra_analysisRequired_def with_search_def one_shot_exhaustive
      dest: search_finished_at_once [rotated])

text \<open>
  C1: The frontend run with the READEX plugin and the exhaustive search follows the autotune state machine: whatever
  the agents, the application, the clock, the configuration and the measurements are, as long as nothing
  outside ends the program, no event arises that the current state has no transition for, and if the run returns
  the machine is in its final state and the plugin is marked as executed.
\<close>

theorem intraphase_run_follows_machine:
  assumes "calm_surroundings out" and "plug out = intraphase_plugin env" and "ie_search env = exhaustive_alg build"
    and "\<forall>n. no_exit (ie_load env n)" and "\<forall>st heap. no_exit (ie_generate env st heap)"
  shows "run_tuning_plugin out opts d \<noteq> fail ExitFailure \<and>
    (\<forall>d'. run_tuning_plugin out opts d = ret d' \<longrightarrow> msm d' = FinalState \<and> tuning_plugin_executed d')"
proof -
  have env: "with_search (exhaustive_alg build) env = env" using assms(3) by (simp add: with_search_def)
  have "calm_intra env" using assms(3,4,5) by (simp add: calm_intra_def calm_exhaustive)
  from calm_intraphase [OF assms(1,2) this] have calm: "calm out" .
  have plug: "plug out = intraphase_plugin (with_search (exhaustive_alg build) env)" using assms(2) env by simp
  from intraphase.driver_follows_machine [OF calm plug] show ?thesis unfolding post_def by blast
qed

text \<open>
  A complete run: one CPU frequency, one number of threads and three uncore frequencies. The phase needs the energies 100, 50 and 60 and
  44 in the three verification experiments, the first rts 40, 20 and 12. Six experiments are made.
\<close>

definition run_config :: "string \<Rightarrow> string option" where
  "run_config = map_of
     [(''Configuration.periscope.searchAlgorithm.name'', ''exhaustive''),
      (''Configuration.tuningParameter.frequency.min_freq'', ''2000''), (''Configuration.tuningParameter.frequency.max_freq'', ''2000''),
      (''Configuration.tuningParameter.openMPThreads.lower_value'', ''4'')]"

definition run_env :: "exhaustive intra_env" where
  "run_env = intra_example_env\<lparr>ie_config := run_config\<rparr>"

definition metered :: "(string \<times> (int \<Rightarrow> int)) list \<Rightarrow> scenario list \<Rightarrow> meta_property list" where
  "metered energies scs = concat (map (\<lambda>sc. map (\<lambda>(entity, e). (energy_at entity (sc_key sc) (e (sc_key sc)))
     \<lparr>purpose := (if entity = ''/phase'' then PSC_PROPERTY_PURPOSE_TUNING else 0)\<rparr>) energies) scs)"

definition run_energies :: "(string \<times> (int \<Rightarrow> int)) list" where
  "run_energies = [(''/phase'', \<lambda>i. if i = 0 then 100 else if i = 1 then 50 else if i = 2 then 60 else 44),
     (''/phase/f'', \<lambda>i. if i = 0 then 40 else if i = 1 then 20 else 12)]"

definition metered_outside :: "'p plugin \<Rightarrow> (string \<times> (int \<Rightarrow> int)) list \<Rightarrow> ('p, scenario list) outside" where
  "metered_outside P energies = (prompt_outside P (\<lambda>_. dbl_of_int 0))
     \<lparr>communicate := (\<lambda>a f e. ret (\<lparr>received = (if a = STARTUP then metered energies e else []),
        restart_needed = False, hierarchy_up = True\<rparr>, if a = STARTUP then [] else e))\<rparr>"

definition run_frontend :: "(exhaustive intra, scenario list) frontend" where
  "run_frontend = fresh_frontend
     \<lparr>plugin_state = intra_example\<lparr>it_tuningParameters := [], it_searchAlgorithm := None, it_objectives := []\<rparr>,
      tuning_world = \<lparr>pool_set = new_ScenarioPoolSet, next_scenario_id = 0, tp_heap = (\<lambda>_. example_tp 0 0 1)\<rparr>,
      timers = []\<rparr> []"

definition metered_run :: "(exhaustive intra, scenario list) frontend comp" where
  "metered_run = run_tuning_plugin (metered_outside (intraphase_plugin run_env) run_energies) example_opts run_frontend"

lemma value_returned: "map_option (map_sum (\<lambda>_. ()) f) c = Some (Inr y) \<Longrightarrow> \<exists>d. c = ret d \<and> f d = y"
  by (cases c rule: comp_cases) (auto simp: ret_def fail_def)

lemma metered_run_result:
  "map_option (map_sum (\<lambda>_. ()) (\<lambda>d. (msm d, tuning_step d, search_step d, experiment_count d,
      map (stored_values (plugin_state (side d))) [0, 1, 2], map fst (fsp (fe_pools d))))) metered_run =
   Some (Inr (FinalState, 2, 2, 6, map (map_option (map (\<lambda>(c, e). (c, Some (dbl_of_int e)))))
     [Some [(STATIC_WORST, 100), (STATIC_BEST, 50), (RTS_BEST, 50)], Some [(STATIC_WORST, 40), (STATIC_BEST, 20), (RTS_BEST, 12)], None],
     [0, 1, 2, 3, 4, 5]))"
  by code_simp

theorem intraphase_run_follows_machine_witness:
  "\<exists>d. metered_run = ret d \<and> msm d = FinalState \<and> tuning_plugin_executed d \<and> experiment_count d = 6 \<and>
     stored_values (plugin_state (side d)) 1 =
       Some [(STATIC_WORST, Some (dbl_of_int 40)), (STATIC_BEST, Some (dbl_of_int 20)), (RTS_BEST, Some (dbl_of_int 12))]"
proof -
  let ?out = "metered_outside (intraphase_plugin run_env) run_energies"
  obtain d where d: "metered_run = ret d" "experiment_count d = 6"
    and v: "map (stored_values (plugin_state (side d))) [0, 1, 2] = map (map_option (map (\<lambda>(c, e). (c, Some (dbl_of_int e)))))
     [Some [(STATIC_WORST, 100), (STATIC_BEST, 50), (RTS_BEST, 50)], Some [(STATIC_WORST, 40), (STATIC_BEST, 20), (RTS_BEST, 12)], None]"
    using value_returned [OF metered_run_result] by auto
  have "calm_surroundings ?out" "plug ?out = intraphase_plugin run_env"
    by (auto simp: calm_surroundings_def metered_outside_def prompt_outside_def)
  moreover have "ie_search run_env = exhaustive_alg \<lparr>withRtsSupport = True, uninit_bool = False\<rparr>"
    "\<forall>n. no_exit (ie_load run_env n)" "\<forall>st heap. no_exit (ie_generate run_env st heap)"
    by (simp_all add: run_env_def intra_example_env_def)
  ultimately have "msm d = FinalState \<and> tuning_plugin_executed d"
    using intraphase_run_follows_machine [of ?out run_env _ example_opts run_frontend] d(1) unfolding metered_run_def by blast
  then show ?thesis using d v by (intro exI [of _ d]) simp
qed

end
