(* ===== verification/PhaseClusters.thy ===== *)
theory PhaseClusters
  imports IntraphasePlugin "HOL-Library.Product_Lexorder"
begin

text \<open>
  The clusters of phases of the READEX inter-phase plugin (\<open>autotune/plugins/readex_interphase\<close>): the plugin
  measures one setting per iteration of the phase, describes every iteration by its compute intensity and its share of
  branch instructions, and groups iterations that are dense in these features (DBSCAN with a radius read off the
  distances to the nearest neighbours). The globals of the name space \<open>interph\<close> are a record; a phase has one owner, the
  map \<open>dtaPhases\<close>, and is a value. The unordered maps from names to numbers are only searched and copied into
  ordered maps, so their order cannot be observed and they are ordered maps here. \<open>std::sort\<close> is an argument
  (\<open>result_sort\<close>). The files written along the way are left out.
\<close>

section \<open>State\<close>

definition UNCLASSIFIED :: int where "UNCLASSIFIED = - 1"
definition NOISE :: int where "NOISE = - 2"
definition MIN_POINTS :: nat where "MIN_POINTS = 3"

type_synonym value_map = "(string, dbl) smap"
type_synonym phase_num = "32 word"

record rts_info =
  ri_callpath :: string
  ri_objValues :: value_map
  ri_defaultObjValues :: value_map
  ri_normalizedObj :: value_map
  ri_phaseIdentifiers :: value_map
  ri_defaultPhaseIdentifiers :: value_map

definition new_rts_info :: rts_info where
  "new_rts_info = \<lparr>ri_callpath = '''', ri_objValues = [], ri_defaultObjValues = [], ri_normalizedObj = [],
     ri_phaseIdentifiers = [], ri_defaultPhaseIdentifiers = []\<rparr>"

record phase_info =
  ph_scenarioID :: int
  ph_scenarioConfig :: "(tp_ptr, int) smap"
  ph_phaseIdentifiers :: value_map
  ph_objValues :: value_map
  ph_normalizedObj :: value_map
  ph_normalizedFeatures :: "dbl \<times> dbl"
  ph_visited :: bool
  ph_neighbors :: "phase_num list"
  ph_clusterID :: int
  ph_defaultPhaseIdentifiers :: value_map
  ph_defaultObjValues :: value_map
  ph_normalizedDefaultObj :: value_map
  ph_rtsInfo :: "rts_info uset"

definition new_phaseInfo :: phase_info where
  "new_phaseInfo = \<lparr>ph_scenarioID = 0, ph_scenarioConfig = [], ph_phaseIdentifiers = [], ph_objValues = [], ph_normalizedObj = [],
     ph_normalizedFeatures = (dbl_of_int 0, dbl_of_int 0), ph_visited = False, ph_neighbors = [], ph_clusterID = UNCLASSIFIED,
     ph_defaultPhaseIdentifiers = [], ph_defaultObjValues = [], ph_normalizedDefaultObj = [], ph_rtsInfo = []\<rparr>"

type_synonym phases = "(phase_num, phase_info) smap"
type_synonym distances = "(phase_num \<times> phase_num, dbl) smap"

record interph =
  dtaPhases :: "phases"
  configForClusters :: "(phase_num, phase_num \<times> phase_num list) smap"
  rts_best_objs :: "(string, dbl \<times> phase_num) umap list"
  num_clusters :: "32 word"
  dist_matrix :: "distances"
  k_neigh_dist :: "(int \<times> dbl) list"

text \<open>\<open>find( k )->second\<close>: undefined when there is no such key.\<close>

definition found :: "('k, 'v) smap \<Rightarrow> 'k \<Rightarrow> 'v comp" where
  "found m k = deref (sm_find m k)"

text \<open>A loop over a map that changes the values.\<close>

primrec cmap_values :: "('v \<Rightarrow> 'v comp) \<Rightarrow> ('k \<times> 'v) list \<Rightarrow> ('k \<times> 'v) list comp" where
  "cmap_values f [] = ret []"
| "cmap_values f (x # xs) = cbind (f (snd x)) (\<lambda>v. cbind (cmap_values f xs) (\<lambda>ys. ret ((fst x, v) # ys)))"

section \<open>Features\<close>

definition compute_intensity :: "phase_info \<Rightarrow> phase_info comp" where
  "compute_intensity ph =
     cbind (found (ph_phaseIdentifiers ph) ''TotalInstr'') (\<lambda>t.
     cbind (found (ph_phaseIdentifiers ph) ''L3Misses'') (\<lambda>m.
       ret (ph\<lparr>ph_phaseIdentifiers := sm_insert ''ComputeIntensity'' (ddiv t m) (ph_phaseIdentifiers ph)\<rparr>)))"

definition calcComputeIntensity :: "interph \<Rightarrow> interph comp" where
  "calcComputeIntensity s = cbind (cmap_values compute_intensity (dtaPhases s)) (\<lambda>ps. ret (s\<lparr>dtaPhases := ps\<rparr>))"

text \<open>The two features of a phase before they are scaled.\<close>

definition raw_features :: "phase_info \<Rightarrow> (dbl \<times> dbl) comp" where
  "raw_features ph =
     cbind (found (ph_phaseIdentifiers ph) ''ComputeIntensity'') (\<lambda>c.
     cbind (found (ph_phaseIdentifiers ph) ''BranchInstr'') (\<lambda>b.
     cbind (found (ph_phaseIdentifiers ph) ''TotalInstr'') (\<lambda>t. ret (c, ddiv b t))))"

definition widen :: "dbl \<Rightarrow> dbl \<times> dbl \<Rightarrow> dbl \<times> dbl" where
  "widen x = (\<lambda>(hi, lo). (if dlt hi x then x else hi, if dlt x lo then x else lo))"

definition feature_ranges :: "phases \<Rightarrow> ((dbl \<times> dbl) \<times> (dbl \<times> dbl)) comp" where
  "feature_ranges ps =
     cfold (\<lambda>(_, ph) (comp_range, br_range). cbind (raw_features ph) (\<lambda>(c, b). ret (widen c comp_range, widen b br_range)))
       ps ((dbl_of_int 0, DBL_MAX), (dbl_of_int 0, DBL_MAX))"

definition scale :: "dbl \<times> dbl \<Rightarrow> dbl \<Rightarrow> dbl" where
  "scale = (\<lambda>(hi, lo) x. ddiv (dsub x lo) (dsub hi lo))"

definition normalize_features :: "(dbl \<times> dbl) \<times> (dbl \<times> dbl) \<Rightarrow> phase_info \<Rightarrow> phase_info comp" where
  "normalize_features = (\<lambda>(comp_range, br_range) ph.
     cbind (raw_features ph) (\<lambda>(c, b).
       ret (ph\<lparr>ph_normalizedFeatures := (scale comp_range c, scale br_range b),
               ph_phaseIdentifiers := sm_insert ''BranchInstructions'' b (ph_phaseIdentifiers ph)\<rparr>)))"

definition normalizeIdentifiers :: "interph \<Rightarrow> interph comp" where
  "normalizeIdentifiers s =
     cbind (feature_ranges (dtaPhases s)) (\<lambda>r.
     cbind (cmap_values (normalize_features r) (dtaPhases s)) (\<lambda>ps. ret (s\<lparr>dtaPhases := ps\<rparr>)))"

section \<open>Distances\<close>

definition square :: "dbl \<Rightarrow> dbl" where
  "square x = dmul x x"

definition phase_distance :: "dbl \<times> dbl \<Rightarrow> dbl \<times> dbl \<Rightarrow> dbl" where
  "phase_distance f1 f2 = dsqrt (dadd (square (dsub (snd f2) (snd f1))) (square (dsub (fst f2) (fst f1))))"

text \<open>The mean of the three smallest distances; \<open>at\<close> throws when there are fewer.\<close>

definition findKNearestNeighbors :: "result_sort \<Rightarrow> dbl list \<Rightarrow> dbl comp" where
  "findKNearestNeighbors std_sort ds =
     cbind (sort_results std_sort (map (\<lambda>d. (0, d)) ds)) (\<lambda>rs.
       check (3 \<le> length rs) OutOfRange
         (ret (ddiv (dadd (dadd (snd (rs ! 0)) (snd (rs ! 1))) (snd (rs ! 2))) (dbl_of_int 3))))"

definition distances_from :: "result_sort \<Rightarrow> phases \<Rightarrow> phase_num \<times> phase_info \<Rightarrow> interph \<Rightarrow> interph comp" where
  "distances_from std_sort ps = (\<lambda>(k1, p1) s.
     let ds = map (\<lambda>(k2, p2). (k2, phase_distance (ph_normalizedFeatures p1) (ph_normalizedFeatures p2))) ps;
         s = s\<lparr>dist_matrix := fold (\<lambda>(k2, d). sm_insert (k1, k2) d) ds (dist_matrix s)\<rparr>;
         distances_from_curr_point = map snd (filter (\<lambda>(k2, d). k1 \<noteq> k2) ds)
     in if distances_from_curr_point = [] then ret s
        else cbind (findKNearestNeighbors std_sort distances_from_curr_point) (\<lambda>kNDist.
               ret (s\<lparr>k_neigh_dist := k_neigh_dist s @ [(uint k1, kNDist)]\<rparr>)))"

definition calcDistanceMatrix :: "result_sort \<Rightarrow> interph \<Rightarrow> interph comp" where
  "calcDistanceMatrix std_sort s = cfold (distances_from std_sort (dtaPhases s)) (dtaPhases s) s"

text \<open>
  The radius is the distance, in ascending order, that lies farthest from the line between the first and the last one.
  \<open>max_element\<close> is the first element no later one is greater than.
\<close>

fun max_element :: "dbl list \<Rightarrow> nat \<times> dbl \<Rightarrow> nat \<Rightarrow> nat" where
  "max_element [] (k, m) i = k"
| "max_element (d # ds) (k, m) i = max_element ds (if dlt m d then (i, d) else (k, m)) (i + 1)"

definition line_distance :: "dbl \<Rightarrow> dbl \<Rightarrow> dbl \<Rightarrow> nat \<Rightarrow> dbl \<Rightarrow> dbl" where
  "line_distance a_l b_l c_l pt y =
     dabs (ddiv (dadd (dadd (dmul a_l (dbl_of_int (int pt))) (dmul b_l y)) c_l) (dsqrt (dadd (dmul a_l a_l) (dmul b_l b_l))))"

definition calculateEps :: "result_sort \<Rightarrow> (int \<times> dbl) list \<Rightarrow> (dbl \<times> (int \<times> dbl) list) comp" where
  "calculateEps std_sort k_nn_dist =
     cbind (sort_results std_sort k_nn_dist) (\<lambda>ks.
       check (ks \<noteq> []) UB
         (let ys = map snd ks;
              a_l = dsub (last ys) (hd ys);
              b_l = dsub (dbl_of_int 0) (dbl_of_int (int (length ks - 1)));
              c_l = dsub (dmul (dneg a_l) (dbl_of_int 0)) (dmul b_l (hd ys));
              dist_l = map (\<lambda>(pt, y). line_distance a_l b_l c_l pt y) (enumerate 0 ys);
              pos = max_element (tl dist_l) (0, hd dist_l) 1
          in check (pos < length ys) OutOfRange (ret (ys ! pos, ks))))"

section \<open>Clusters\<close>

definition near_keys :: "distances \<Rightarrow> dbl \<Rightarrow> phase_num \<Rightarrow> phase_num list" where
  "near_keys dm eps p = map (\<lambda>((_, q), _). q) (filter (\<lambda>((p', q), d). p' = p \<and> dle d eps \<and> q \<noteq> p) dm)"

text \<open>The phase with its neighbours; what it answers is the whole vector.\<close>

definition checkDistance :: "distances \<Rightarrow> dbl \<Rightarrow> phase_num \<Rightarrow> phase_info \<Rightarrow> phase_info" where
  "checkDistance dm eps p ph = ph\<lparr>ph_neighbors := ph_neighbors ph @ near_keys dm eps p\<rparr>"

text \<open>
  One turn of the loop over the neighbours of \<open>centre\<close>, which is the vector in the phase itself and grows on the way.
\<close>

definition visit_next :: "distances \<Rightarrow> dbl \<Rightarrow> phase_num \<Rightarrow> phase_num \<Rightarrow> phases \<Rightarrow> phases comp" where
  "visit_next dm eps centre p ps =
     cbind (found ps p) (\<lambda>next.
       if ph_visited next then ret ps
       else let next = checkDistance dm eps p (next\<lparr>ph_visited := True\<rparr>); ps = sm_put p next ps
            in if MIN_POINTS \<le> length (ph_neighbors next)
               then cbind (found ps centre) (\<lambda>c. ret (sm_put centre (c\<lparr>ph_neighbors := ph_neighbors c @ ph_neighbors next\<rparr>) ps))
               else ret ps)"

definition join_cluster :: "int \<Rightarrow> phase_num \<Rightarrow> phases \<Rightarrow> phases comp" where
  "join_cluster cluster_num p ps =
     cbind (found ps p) (\<lambda>next.
       ret (if ph_clusterID next = UNCLASSIFIED \<or> ph_clusterID next = NOISE
            then sm_put p (next\<lparr>ph_clusterID := cluster_num\<rparr>) ps else ps))"

definition expand_body :: "distances \<Rightarrow> dbl \<Rightarrow> int \<Rightarrow> phase_num \<Rightarrow> nat \<times> phases \<Rightarrow> (bool \<times> nat \<times> phases) comp" where
  "expand_body dm eps cluster_num centre = (\<lambda>(n, ps).
     cbind (found ps centre) (\<lambda>c.
       if n < length (ph_neighbors c)
       then let p = ph_neighbors c ! n
            in cbind (visit_next dm eps centre p ps) (\<lambda>ps.
               cbind (join_cluster cluster_num p ps) (\<lambda>ps. ret (True, (n + 1, ps))))
       else ret (False, (n, ps))))"

definition expandCluster :: "distances \<Rightarrow> dbl \<Rightarrow> int \<Rightarrow> phase_num \<Rightarrow> phases \<Rightarrow> phases comp" where
  "expandCluster dm eps cluster_num centre ps =
     cbind (found ps centre) (\<lambda>c.
     cbind (loop (expand_body dm eps cluster_num centre) (0, sm_put centre (c\<lparr>ph_clusterID := cluster_num\<rparr>) ps)) (\<lambda>(_, ps). ret ps))"

definition cluster_phase :: "distances \<Rightarrow> dbl \<Rightarrow> phase_num \<Rightarrow> int \<times> phases \<Rightarrow> (int \<times> phases) comp" where
  "cluster_phase dm eps p = (\<lambda>(cluster_num, ps).
     cbind (found ps p) (\<lambda>ph.
       if ph_visited ph then ret (cluster_num, ps)
       else let ph = checkDistance dm eps p (ph\<lparr>ph_visited := True\<rparr>)
            in if MIN_POINTS \<le> length (ph_neighbors ph)
               then cbind (expandCluster dm eps cluster_num p (sm_put p ph ps)) (\<lambda>ps.
                      check (in_int (cluster_num + 1)) UB (ret (cluster_num + 1, ps)))
               else ret (cluster_num, sm_put p (ph\<lparr>ph_clusterID := NOISE\<rparr>) ps)))"

definition clusterPhases :: "result_sort \<Rightarrow> interph \<Rightarrow> (int \<times> interph) comp" where
  "clusterPhases std_sort s =
     check (dtaPhases s \<noteq> []) Abort
       (cbind (calculateEps std_sort (k_neigh_dist s)) (\<lambda>(eps, ks).
        cbind (cfold (cluster_phase (dist_matrix s) eps) (map fst (dtaPhases s)) (1, dtaPhases s)) (\<lambda>(cluster_num, ps).
          ret (cluster_num, s\<lparr>dtaPhases := ps, k_neigh_dist := ks\<rparr>))))"

definition interph_cluster :: "result_sort \<Rightarrow> interph \<Rightarrow> interph comp" where
  "interph_cluster std_sort s =
     cbind (calcDistanceMatrix std_sort s) (\<lambda>s.
     cbind (clusterPhases std_sort s) (\<lambda>(n, s). ret (s\<lparr>num_clusters := word_of_int (n - 1)\<rparr>)))"

end
