(* ===== verification/RandomSampling.thy ===== *)
theory RandomSampling
  imports Exhaustive
begin

text \<open>
  The random search (\<open>autotune/searchalgorithms/random\<close>) with the uniform model \<open>addSearchSpace\<close>
  gives it. The numbers come from Boost: \<open>draw seed n k\<close> is what the \<open>n\<close>-th call of a
  \<open>uniform_smallint( 0, k )\<close> on a Mersenne twister seeded with \<open>seed\<close> returns. The models learnt from the tuning
  database (\<open>IndependentParametersModel\<close>) are not modelled.

  Tuning specifications are compared through \<open>operator==\<close>, which compares the entity lists of their
  contexts by address. So a sampled specification carries the address of its list here, taken from an
  allocator that never reuses one.
\<close>

section \<open>State\<close>

record uniform_model =
  um_searchSpace :: search_space
  um_seed :: int
  um_drawn :: nat

record sampled_specification =
  list_address :: nat
  sampled :: tuning_specification

record random_search =
  rs_results :: search_results
  rs_scenarioIds :: "int list"
  rs_objectiveFunctions :: "objective_function list"
  models :: "uniform_model list"
  sampleCount :: int

definition new_RandomSearch :: random_search where
  "new_RandomSearch = \<lparr>rs_results = no_results, rs_scenarioIds = [], rs_objectiveFunctions = [], models = [], sampleCount = 2\<rparr>"

definition rs_addObjectiveFunction :: "objective_function \<Rightarrow> random_search \<Rightarrow> random_search" where
  "rs_addObjectiveFunction f s = s\<lparr>rs_objectiveFunctions := rs_objectiveFunctions s @ [f]\<rparr>"

definition addProbabilityModel :: "uniform_model \<Rightarrow> random_search \<Rightarrow> random_search" where
  "addProbabilityModel m s = s\<lparr>models := models s @ [m]\<rparr>"

text \<open>\<open>now\<close> is the time in seconds, the seed of the model's generator.\<close>

definition new_UniformDistributionModel :: "int \<Rightarrow> search_space \<Rightarrow> uniform_model" where
  "new_UniformDistributionModel now ss = \<lparr>um_searchSpace = ss, um_seed = now, um_drawn = 0\<rparr>"

definition rs_addSearchSpace :: "int \<Rightarrow> search_space \<Rightarrow> random_search \<Rightarrow> random_search" where
  "rs_addSearchSpace now ss s = addProbabilityModel (new_UniformDistributionModel now ss) s"

definition setSampleCount :: "int \<Rightarrow> random_search \<Rightarrow> random_search" where
  "setSampleCount n s = s\<lparr>sampleCount := n\<rparr>"

definition rs_clear :: "random_search \<Rightarrow> random_search" where
  "rs_clear s = s\<lparr>models := []\<rparr>"

definition rs_getOptimum :: "random_search \<Rightarrow> int" where
  "rs_getOptimum s = optimum (rs_results s)"

definition rs_getWorst :: "random_search \<Rightarrow> int comp" where
  "rs_getWorst s =
     (if worst (rs_results s) = - 1 then fail Abort
      else check (sm_has (path (rs_results s)) (worst (rs_results s))) Abort (ret (worst (rs_results s))))"

definition rs_getSearchPath :: "random_search \<Rightarrow> (int, dbl) smap" where
  "rs_getSearchPath s = path (rs_results s)"

section \<open>Sampling\<close>

type_synonym draws = "int \<Rightarrow> nat \<Rightarrow> int \<Rightarrow> int comp"

definition sample_value :: "draws \<Rightarrow> int \<Rightarrow> tuning_parameter \<Rightarrow> nat \<Rightarrow> int comp" where
  "sample_value draw seed tp n =
     check (in_int (rangeTo tp - rangeFrom tp)) UB
     (cbind (cdiv (rangeTo tp - rangeFrom tp) (rangeStep tp)) (\<lambda>k.
      cbind (draw seed n k) (\<lambda>c.
        check (in_int (c * rangeStep tp) \<and> in_int (rangeFrom tp + c * rangeStep tp)) UB
          (ret (rangeFrom tp + c * rangeStep tp)))))"

definition sample_parameter ::
  "draws \<Rightarrow> int \<Rightarrow> tp_store \<Rightarrow> tp_ptr \<Rightarrow> variant \<times> nat \<Rightarrow> (variant \<times> nat) comp" where
  "sample_parameter draw seed heap tp vn = (case vn of (v, n) \<Rightarrow>
     cbind (sample_value draw seed (heap tp) n) (\<lambda>x. ret (sm_put tp x v, n + 1)))"

text \<open>\<open>sample\<close>: one value per parameter, for all the regions or rts's of the space.\<close>

definition sample_model ::
  "build_env \<Rightarrow> draws \<Rightarrow> tp_store \<Rightarrow> uniform_model \<Rightarrow> (tuning_specification \<times> uniform_model) comp" where
  "sample_model env draw heap m =
     cbind (cfold (sample_parameter draw (um_seed m) heap) (tuningParameters (variantSpace (um_searchSpace m))) ([], um_drawn m))
       (\<lambda>(v, n).
        cbind (if withRtsSupport env then TuningSpecification_rtss v (map Some (rtsVector (um_searchSpace m)))
               else TuningSpecification_regions v (map Some (regions (um_searchSpace m)))) (\<lambda>t.
          ret (t, m\<lparr>um_drawn := n\<rparr>)))"

primrec sample_models ::
  "build_env \<Rightarrow> draws \<Rightarrow> tp_store \<Rightarrow> uniform_model list \<Rightarrow> nat
     \<Rightarrow> (sampled_specification list \<times> uniform_model list \<times> nat) comp" where
  "sample_models env draw heap [] a = ret ([], [], a)"
| "sample_models env draw heap (m # ms) a =
     cbind (sample_model env draw heap m) (\<lambda>(t, m').
     cbind (sample_models env draw heap ms (a + 1)) (\<lambda>(ts, ms', a').
       ret (\<lparr>list_address = a, sampled = t\<rparr> # ts, m' # ms', a')))"

section \<open>Comparing samples\<close>

text \<open>\<open>operator==\<close> of specifications, contexts and ranks; a sample's ranks are always all ranks.\<close>

definition same_context :: "sampled_specification \<Rightarrow> sampled_specification \<Rightarrow> bool" where
  "same_context t u = (case (ts_context (sampled t), ts_context (sampled u)) of
       (PROGRAM, PROGRAM) \<Rightarrow> True
     | (REGION_LIST _, REGION_LIST _) \<Rightarrow> list_address t = list_address u
     | (RTS_LIST _, RTS_LIST _) \<Rightarrow> list_address t = list_address u
     | (FILE_LIST _, FILE_LIST _) \<Rightarrow> list_address t = list_address u
     | _ \<Rightarrow> False)"

definition specification_equal :: "sampled_specification \<Rightarrow> sampled_specification \<Rightarrow> bool" where
  "specification_equal t u \<longleftrightarrow> Variant_eq (ts_variant (sampled t)) (ts_variant (sampled u)) \<and> same_context t u \<and>
     ts_ranks (sampled t) = ts_ranks (sampled u)"

definition areTuningSpecificationListsEqual :: "sampled_specification list \<Rightarrow> sampled_specification list \<Rightarrow> bool" where
  "areTuningSpecificationListsEqual ts us \<longleftrightarrow> list_all2 specification_equal ts us"

section \<open>Creating and evaluating the scenarios\<close>

definition sampling_body ::
  "build_env \<Rightarrow> draws \<Rightarrow> tp_store \<Rightarrow> int \<Rightarrow> int \<times> sampled_specification list list \<times> uniform_model list \<times> nat
     \<Rightarrow> (bool \<times> int \<times> sampled_specification list list \<times> uniform_model list \<times> nat) comp" where
  "sampling_body env draw heap count = (\<lambda>(i, scenarios, ms, a).
     if uint (word_of_nat (length scenarios) :: 64 word) < uint (word_of_int count :: 64 word) \<and> i < 3 * count
     then cbind (sample_models env draw heap ms a) (\<lambda>(ts, ms', a').
            let skip = list_ex (\<lambda>us. areTuningSpecificationListsEqual us ts) scenarios
            in ret (True, (i + 1, if skip then scenarios else scenarios @ [ts], ms', a')))
     else ret (False, (i, scenarios, ms, a)))"

definition rs_createScenarios :: "build_env \<Rightarrow> draws \<Rightarrow> random_search \<Rightarrow> world \<Rightarrow> (random_search \<times> world) comp" where
  "rs_createScenarios env draw s w =
     (let s1 = (if rs_objectiveFunctions s = [] then rs_addObjectiveFunction PTF_min s else s)
      in check (in_int (3 * sampleCount s1)) UB
         (cbind (loop (sampling_body env draw (tp_heap w) (sampleCount s1)) (0, [], models s1, 0)) (\<lambda>(i, scenarios, ms, a).
            case fold add_scenario (map (map sampled) scenarios) (rs_scenarioIds s1, w) of
              (queue, w') \<Rightarrow> ret (s1\<lparr>models := ms, rs_scenarioIds := queue\<rparr>, w'))))"

definition rs_evaluate ::
  "objective_function list \<Rightarrow> world \<Rightarrow> int \<Rightarrow> search_results \<Rightarrow> search_results comp" where
  "rs_evaluate fs w scenario_id res =
     (case fs of [] \<Rightarrow> fail UB
      | f # _ \<Rightarrow> cbind (objective f scenario_id (srp (pool_set w))) (\<lambda>objValue. ret (record_value scenario_id objValue res)))"

definition rs_searchFinished :: "random_search \<Rightarrow> world \<Rightarrow> (bool \<times> random_search \<times> world) comp" where
  "rs_searchFinished s w =
     cbind (cfold (rs_evaluate (rs_objectiveFunctions s) w) (rs_scenarioIds s) (rs_results s)) (\<lambda>res.
       ret (True, s\<lparr>rs_results := res, rs_scenarioIds := []\<rparr>, w))"

section \<open>Samples are legal\<close>

text \<open>What Boost documents: a value between the bounds, when the upper bound is not below the lower.\<close>

definition fair :: "draws \<Rightarrow> bool" where
  "fair draw \<longleftrightarrow> (\<forall>seed n k. 0 \<le> k \<longrightarrow> (\<exists>c. draw seed n k = ret c \<and> 0 \<le> c \<and> c \<le> k))"

definition sampleable :: "tuning_parameter \<Rightarrow> bool" where
  "sampleable tp \<longleftrightarrow> 0 < rangeStep tp \<and> rangeFrom tp \<le> rangeTo tp \<and> in_int (rangeFrom tp) \<and> in_int (rangeTo tp) \<and>
     in_int (rangeTo tp - rangeFrom tp)"

definition model_ok :: "build_env \<Rightarrow> tp_store \<Rightarrow> uniform_model \<Rightarrow> bool" where
  "model_ok env heap m \<longleftrightarrow> list_all (\<lambda>tp. sampleable (heap tp)) (tuningParameters (variantSpace (um_searchSpace m)))"

lemma total_sample_value:
  assumes "fair draw" and "sampleable tp"
  shows "total (sample_value draw seed tp n) (\<lambda>x. x \<in> set (range_list (rangeFrom tp) (rangeTo tp) (rangeStep tp)))"
proof -
  let ?d = "rangeTo tp - rangeFrom tp"
  have tp: "0 < rangeStep tp" "0 \<le> ?d" "in_int ?d" "in_int (rangeFrom tp)" "in_int (rangeTo tp)"
    using assms(2) by (auto simp: sampleable_def)
  have k: "cdiv ?d (rangeStep tp) = ret (?d div rangeStep tp)" using tp by (simp add: cdiv_pos)
  moreover have "0 \<le> ?d div rangeStep tp" using tp by (simp add: pos_imp_zdiv_nonneg_iff)
  ultimately obtain c where c: "draw seed n (?d div rangeStep tp) = ret c" "0 \<le> c" "c \<le> ?d div rangeStep tp"
    using assms(1) unfolding fair_def by blast
  define y where "y = c * rangeStep tp"
  have "y \<le> ?d div rangeStep tp * rangeStep tp" unfolding y_def using c(3) tp(1) by (simp add: mult_right_mono)
  also have "\<dots> \<le> ?d" using tp by (simp add: minus_mod_eq_div_mult [symmetric])
  finally have y: "0 \<le> y" "y \<le> ?d" "rangeStep tp dvd y" using c(2) tp(1) by (simp_all add: y_def)
  then have "in_int y" "in_int (rangeFrom tp + y)" "rangeFrom tp + y \<in> set (range_list (rangeFrom tp) (rangeTo tp) (rangeStep tp))"
    using tp by (auto simp: set_range_list in_int_def INT_MIN_def INT_MAX_def)
  then show ?thesis using tp k c by (simp add: sample_value_def total_def y_def)
qed

definition legal_sample :: "tp_store \<Rightarrow> uniform_model \<Rightarrow> tuning_specification \<Rightarrow> bool" where
  "legal_sample heap m t \<longleftrightarrow> sm_wf (ts_variant t) \<and>
     dom (sm_find (ts_variant t)) = set (tuningParameters (variantSpace (um_searchSpace m))) \<and>
     (\<forall>tp \<in> dom (sm_find (ts_variant t)). the (sm_find (ts_variant t) tp)
        \<in> set (range_list (rangeFrom (heap tp)) (rangeTo (heap tp)) (rangeStep (heap tp))))"

lemma dom_find_Nil [simp]: "dom (sm_find []) = {}"
  by (simp add: dom_def)

lemma total_sample_parameters:
  assumes "fair draw" and "\<forall>tp \<in> set tps. sampleable (heap tp)" and "sm_wf v"
    and "\<forall>tp \<in> dom (sm_find v). the (sm_find v tp) \<in> set (range_list (rangeFrom (heap tp)) (rangeTo (heap tp)) (rangeStep (heap tp)))"
  shows "total (cfold (sample_parameter draw seed heap) tps (v, n)) (\<lambda>(u, k). sm_wf u \<and> dom (sm_find u) = dom (sm_find v) \<union> set tps \<and>
    (\<forall>tp \<in> dom (sm_find u). the (sm_find u tp) \<in> set (range_list (rangeFrom (heap tp)) (rangeTo (heap tp)) (rangeStep (heap tp)))))"
  using assms
proof (induction tps arbitrary: v n)
  case (Cons tp tps)
  obtain x where x: "sample_value draw seed (heap tp) n = ret x"
    "x \<in> set (range_list (rangeFrom (heap tp)) (rangeTo (heap tp)) (rangeStep (heap tp)))"
    using total_sample_value [OF Cons.prems(1), of "heap tp" seed n] Cons.prems(2) by (auto simp: total_def)
  have "total (cfold (sample_parameter draw seed heap) tps (sm_put tp x v, n + 1)) (\<lambda>(u, k). sm_wf u \<and>
      dom (sm_find u) = dom (sm_find (sm_put tp x v)) \<union> set tps \<and>
      (\<forall>tp \<in> dom (sm_find u). the (sm_find u tp) \<in> set (range_list (rangeFrom (heap tp)) (rangeTo (heap tp)) (rangeStep (heap tp)))))"
    by (rule Cons.IH) (use Cons.prems x in auto)
  moreover have "sample_parameter draw seed heap tp (v, n) = ret (sm_put tp x v, n + 1)"
    by (simp add: sample_parameter_def x(1))
  ultimately show ?case by (simp only: cfold.simps cbind_ret) simp
qed simp

text \<open>The entity list of a sample is its own, of one of the two kinds compared by address.\<close>

definition has_list :: "tuning_specification \<Rightarrow> bool" where
  "has_list t \<longleftrightarrow> (case ts_context t of REGION_LIST _ \<Rightarrow> True | RTS_LIST _ \<Rightarrow> True | _ \<Rightarrow> False)"

lemma region_ids_Some [simp]: "region_ids (map Some rs) = ret (map regionID rs)"
  by (induction rs) simp_all

lemma rts_paths_Some [simp]: "rts_paths (map Some rs) = ret (map callPath rs)"
  by (induction rs) simp_all

lemma total_sample_model:
  assumes "fair draw" and "model_ok env heap m"
  shows "total (sample_model env draw heap m) (\<lambda>(t, m'). legal_sample heap m t \<and> has_list t \<and> um_searchSpace m' = um_searchSpace m)"
proof -
  let ?tps = "tuningParameters (variantSpace (um_searchSpace m))"
  have "total (cfold (sample_parameter draw (um_seed m) heap) ?tps ([], um_drawn m)) (\<lambda>(u, k). sm_wf u \<and>
      dom (sm_find u) = dom (sm_find ([] :: variant)) \<union> set ?tps \<and>
      (\<forall>tp \<in> dom (sm_find u). the (sm_find u tp) \<in> set (range_list (rangeFrom (heap tp)) (rangeTo (heap tp)) (rangeStep (heap tp)))))"
    by (rule total_sample_parameters) (use assms in \<open>auto simp: model_ok_def list_all_iff\<close>)
  then obtain u k where u: "cfold (sample_parameter draw (um_seed m) heap) ?tps ([], um_drawn m) = ret (u, k)"
    and legal: "sm_wf u" "dom (sm_find u) = set ?tps"
      "\<forall>tp \<in> dom (sm_find u). the (sm_find u tp) \<in> set (range_list (rangeFrom (heap tp)) (rangeTo (heap tp)) (rangeStep (heap tp)))"
    unfolding total_def dom_find_Nil by force
  then show ?thesis
    by (simp add: sample_model_def TuningSpecification_rtss_def TuningSpecification_regions_def legal_sample_def has_list_def)
qed

definition sampled_from :: "tp_store \<Rightarrow> uniform_model list \<Rightarrow> sampled_specification list \<Rightarrow> bool" where
  "sampled_from heap ms ts \<longleftrightarrow> list_all2 (\<lambda>m t. legal_sample heap m (sampled t) \<and> has_list (sampled t)) ms ts"

lemma total_sample_models:
  assumes "fair draw" and "\<forall>m \<in> set ms. model_ok env heap m"
  shows "total (sample_models env draw heap ms a) (\<lambda>(ts, ms', a'). sampled_from heap ms ts \<and> a \<le> a' \<and>
    map um_searchSpace ms' = map um_searchSpace ms \<and> (\<forall>t \<in> set ts. a \<le> list_address t \<and> list_address t < a'))"
  using assms(2)
proof (induction ms arbitrary: a)
  case (Cons m ms)
  obtain t m' where m: "sample_model env draw heap m = ret (t, m')" "legal_sample heap m t" "has_list t"
    "um_searchSpace m' = um_searchSpace m"
    using total_sample_model [OF assms(1), of env heap m] Cons.prems by (auto simp: total_def)
  obtain ts ms' a' where ms: "sample_models env draw heap ms (a + 1) = ret (ts, ms', a')" "sampled_from heap ms ts"
    "a + 1 \<le> a'" "map um_searchSpace ms' = map um_searchSpace ms" "\<forall>t \<in> set ts. a + 1 \<le> list_address t \<and> list_address t < a'"
    using Cons by (fastforce simp: total_def)
  have "a \<le> list_address t \<and> list_address t < a'" if "t \<in> set ts" for t using ms(5) that by fastforce
  then show ?case using m ms by (simp add: sampled_from_def)
qed (simp add: sampled_from_def)

section \<open>Duplicates are never found\<close>

lemma fresh_unequal:
  assumes "ts \<noteq> []" and "\<forall>t \<in> set ts. has_list (sampled t) \<and> a \<le> list_address t" and "\<forall>u \<in> set us. list_address u < a"
  shows "\<not> areTuningSpecificationListsEqual us ts"
proof
  assume "areTuningSpecificationListsEqual us ts"
  moreover obtain t ts' where ts: "ts = t # ts'" using assms(1) by (cases ts) auto
  ultimately obtain u us' where us: "us = u # us'" and "specification_equal u t"
    by (auto simp: areTuningSpecificationListsEqual_def list_all2_Cons2)
  moreover have "has_list (sampled t)" using assms(2) ts by simp
  ultimately have "list_address u = list_address t"
    by (auto simp: specification_equal_def same_context_def has_list_def split: variant_context.splits)
  then show False using assms(2,3) ts us by fastforce
qed

definition sampling_inv ::
  "tp_store \<Rightarrow> int \<Rightarrow> uniform_model list \<Rightarrow> int \<times> sampled_specification list list \<times> uniform_model list \<times> nat \<Rightarrow> bool" where
  "sampling_inv heap count ms0 = (\<lambda>(i, scenarios, ms, a). 0 \<le> i \<and> i \<le> count \<and> int (length scenarios) = i \<and>
     map um_searchSpace ms = map um_searchSpace ms0 \<and>
     (\<forall>ts \<in> set scenarios. sampled_from heap ms0 ts \<and> (\<forall>t \<in> set ts. list_address t < a)))"

lemma sampled_from_space:
  assumes "map um_searchSpace ms = map um_searchSpace ms0" and "sampled_from heap ms ts"
  shows "sampled_from heap ms0 ts"
proof -
  have "length ms = length ms0" using assms(1) by (rule map_eq_imp_length_eq)
  moreover have "um_searchSpace (ms ! i) = um_searchSpace (ms0 ! i)" if "i < length ms" for i
    using arg_cong [OF assms(1), of "\<lambda>xs. xs ! i"] that calculation by simp
  ultimately show ?thesis using assms(2) by (auto simp: sampled_from_def list_all2_conv_all_nth legal_sample_def)
qed

lemma models_ok_space:
  assumes "map um_searchSpace ms = map um_searchSpace ms0" and "\<forall>m \<in> set ms0. model_ok env heap m"
  shows "\<forall>m \<in> set ms. model_ok env heap m"
proof
  fix m assume "m \<in> set ms"
  then have "um_searchSpace m \<in> set (map um_searchSpace ms0)" unfolding assms(1) [symmetric] by simp
  then show "model_ok env heap m" using assms(2) by (auto simp: model_ok_def)
qed

text \<open>One round: a new list of specifications, never equal to an earlier one.\<close>

lemma total_sampling_round:
  assumes "fair draw" and "\<forall>m \<in> set ms0. model_ok env heap m" and "ms0 \<noteq> []"
    and inv: "sampling_inv heap count ms0 (i, scenarios, ms, a)"
  shows "total (sample_models env draw heap ms a) (\<lambda>(ts, ms', a').
    \<not> list_ex (\<lambda>us. areTuningSpecificationListsEqual us ts) scenarios \<and>
    (i < count \<longrightarrow> sampling_inv heap count ms0 (i + 1, scenarios @ [ts], ms', a')))"
proof -
  have ms: "map um_searchSpace ms = map um_searchSpace ms0"
    and old: "\<forall>ts \<in> set scenarios. sampled_from heap ms0 ts \<and> (\<forall>t \<in> set ts. list_address t < a)"
    using inv by (auto simp: sampling_inv_def)
  obtain ts ms' a' where s: "sample_models env draw heap ms a = ret (ts, ms', a')" and from_ms: "sampled_from heap ms ts"
    and a: "a \<le> a'" "\<forall>t \<in> set ts. a \<le> list_address t \<and> list_address t < a'" and ms': "map um_searchSpace ms' = map um_searchSpace ms"
    using total_sample_models [OF assms(1) models_ok_space [OF ms assms(2)], of a] by (auto simp: total_def)
  have new: "sampled_from heap ms0 ts" by (rule sampled_from_space [OF ms from_ms])
  then have "length ts = length ms0" "\<forall>t \<in> set ts. has_list (sampled t)"
    by (auto simp: sampled_from_def list_all2_conv_all_nth in_set_conv_nth)
  then have "ts \<noteq> []" "\<forall>t \<in> set ts. has_list (sampled t) \<and> a \<le> list_address t" using assms(3) a by auto
  then have "\<not> areTuningSpecificationListsEqual us ts" if "us \<in> set scenarios" for us
    using fresh_unequal [of ts a us] old that by blast
  moreover have "\<forall>us \<in> set scenarios. \<forall>t \<in> set us. list_address t < a'" using old a(1) by fastforce
  ultimately show ?thesis
    using s new old a ms ms' inv by (auto simp: total_def sampling_inv_def list_ex_iff)
qed

lemma total_sampling:
  assumes "fair draw" and "\<forall>m \<in> set ms0. model_ok env heap m" and "ms0 \<noteq> []" and count: "0 \<le> count" "in_int (3 * count)"
  shows "total (loop (sampling_body env draw heap count) (0, [], ms0, 0)) (\<lambda>(i, scenarios, ms, a).
    int (length scenarios) = count \<and> (\<forall>ts \<in> set scenarios. sampled_from heap ms0 ts))"
proof (rule total_loop [where I = "sampling_inv heap count ms0" and r = "measure (\<lambda>(i, _). nat (count - i))"])
  show "sampling_inv heap count ms0 (0, [], ms0, 0)" using count(1) by (simp add: sampling_inv_def)
  fix s assume I: "sampling_inv heap count ms0 s"
  obtain i scenarios ms a where s: "s = (i, scenarios, ms, a)" by (cases s)
  have i: "0 \<le> i" "i \<le> count" "int (length scenarios) = i" using I by (auto simp: s sampling_inv_def)
  have small: "count < 2 ^ 64" using count by (simp add: in_int_def INT_MAX_def)
  have "(word_of_nat (length scenarios) :: 64 word) = word_of_int i" using i(3) by (metis of_int_of_nat_eq)
  then have "uint (word_of_nat (length scenarios) :: 64 word) = i"
    using i small by (simp add: take_bit_int_eq_self unsigned_of_int)
  moreover have "uint (word_of_int count :: 64 word) = count"
    using count(1) small by (simp add: take_bit_int_eq_self unsigned_of_int)
  ultimately have cond: "uint (word_of_nat (length scenarios) :: 64 word) < uint (word_of_int count :: 64 word) \<and> i < 3 * count \<longleftrightarrow> i < count"
    using i count by auto
  show "total (sampling_body env draw heap count s) (\<lambda>(again, t). if again
      then sampling_inv heap count ms0 t \<and> (t, s) \<in> measure (\<lambda>(i, _). nat (count - i))
      else case t of (i, scenarios, ms, a) \<Rightarrow> int (length scenarios) = count \<and> (\<forall>ts \<in> set scenarios. sampled_from heap ms0 ts))"
  proof (cases "i < count")
    case True
    from total_sampling_round [OF assms(1-3) I [unfolded s]] True show ?thesis
      by (auto simp: s sampling_body_def cond total_def)
  next
    case False
    then show ?thesis using I i by (auto simp: s sampling_body_def cond sampling_inv_def)
  qed
qed simp

lemma createScenarios_sampled:
  assumes "fair draw" and "\<forall>m \<in> set (models s). model_ok env (tp_heap w) m" and "models s \<noteq> []"
    and "0 \<le> sampleCount s" and "in_int (3 * sampleCount s)"
    and "uint (next_scenario_id w) + sampleCount s \<le> 2 ^ 31" and "pool_below w"
  shows "\<exists>s' w'. rs_createScenarios env draw s w = ret (s', w') \<and>
    rs_scenarioIds s' = rs_scenarioIds s @ ids_from (next_scenario_id w) (nat (sampleCount s)) \<and>
    (\<forall>j < nat (sampleCount s). \<exists>sc ts. sm_find (csp (pool_set w')) (uint (next_scenario_id w) + int j) = Some (Some sc) \<and>
       sc_ts sc = Some ts \<and> list_all2 (legal_sample (tp_heap w)) (models s) ts)"
proof -
  let ?s1 = "if rs_objectiveFunctions s = [] then rs_addObjectiveFunction PTF_min s else s"
  have s1: "sampleCount ?s1 = sampleCount s" "models ?s1 = models s" "rs_scenarioIds ?s1 = rs_scenarioIds s"
    by (simp_all add: rs_addObjectiveFunction_def)
  obtain i scenarios ms a where l: "loop (sampling_body env draw (tp_heap w) (sampleCount s)) (0, [], models s, 0) = ret (i, scenarios, ms, a)"
    and len: "int (length scenarios) = sampleCount s" and legal: "\<forall>ts \<in> set scenarios. sampled_from (tp_heap w) (models s) ts"
    using total_sampling [OF assms(1-5)] by (auto simp: total_def)
  let ?cs = "map (map sampled) scenarios"
  obtain queue w' where f: "fold add_scenario ?cs (rs_scenarioIds s, w) = (queue, w')" by fastforce
  have n: "length ?cs = nat (sampleCount s)" using len by simp
  have "uint (next_scenario_id w) + int (length ?cs) \<le> 2 ^ 31" using assms(6) len by simp
  note facts = fold_add_scenario [OF this assms(7) f]
  have "rs_createScenarios env draw s w = ret (?s1\<lparr>models := ms, rs_scenarioIds := queue\<rparr>, w')"
    using l f assms(5) unfolding rs_createScenarios_def Let_def s1 by simp
  moreover
  have "list_all2 (legal_sample (tp_heap w)) (models s) (?cs ! j)" if "j < length ?cs" for j
  proof -
    have "sampled_from (tp_heap w) (models s) (scenarios ! j)" using legal that by simp
    then show ?thesis using that by (simp add: sampled_from_def list_all2_conv_all_nth)
  qed
  then have "\<exists>sc ts. sm_find (csp (pool_set w')) (uint (next_scenario_id w) + int j) = Some (Some sc) \<and>
      sc_ts sc = Some ts \<and> list_all2 (legal_sample (tp_heap w)) (models s) ts" if "j < nat (sampleCount s)" for j
    using facts that unfolding n by blast
  moreover have "queue = rs_scenarioIds s @ ids_from (next_scenario_id w) (nat (sampleCount s))"
    using facts unfolding n by blast
  ultimately show ?thesis by (intro exI [of _ "?s1\<lparr>models := ms, rs_scenarioIds := queue\<rparr>"] exI [of _ w']) simp
qed

text \<open>
  C23: A random search creates legal scenarios: with at least one search space, parameters whose ranges
  are not empty and a generator that keeps to its bounds, creating the scenarios returns and queues as
  many as were asked for, under consecutive identifiers, each with one specification per search space
  that gives every parameter of the space, and nothing else, a value of its range.
\<close>

theorem random_samples_legal:
  assumes "fair draw" and "\<forall>m \<in> set (models s). model_ok env (tp_heap w) m" and "models s \<noteq> []"
    and "0 \<le> sampleCount s" and "in_int (3 * sampleCount s)"
    and "uint (next_scenario_id w) + sampleCount s \<le> 2 ^ 31" and "pool_below w"
  shows "\<exists>s' w'. rs_createScenarios env draw s w = ret (s', w') \<and>
    rs_scenarioIds s' = rs_scenarioIds s @ ids_from (next_scenario_id w) (nat (sampleCount s)) \<and>
    (\<forall>j < nat (sampleCount s). \<exists>sc ts. sm_find (csp (pool_set w')) (uint (next_scenario_id w) + int j) = Some (Some sc) \<and>
       sc_ts sc = Some ts \<and> list_all2 (legal_sample (tp_heap w)) (models s) ts)"
  using createScenarios_sampled [OF assms] .

text \<open>A parameter with one value leaves no choice.\<close>

lemma single_legal:
  assumes "legal_sample heap m t" and "legal_sample heap m u"
    and "\<forall>tp \<in> set (tuningParameters (variantSpace (um_searchSpace m))). rangeFrom (heap tp) = rangeTo (heap tp) \<and> 0 < rangeStep (heap tp)"
  shows "ts_variant t = ts_variant u"
proof (rule sm_wf_eqI)
  show "sm_wf (ts_variant t)" "sm_wf (ts_variant u)" using assms(1,2) by (simp_all add: legal_sample_def)
  have one: "sm_find (ts_variant x) k = (if k \<in> set (tuningParameters (variantSpace (um_searchSpace m))) then Some (rangeTo (heap k)) else None)"
    if x: "legal_sample heap m x" for x k
  proof (cases "sm_find (ts_variant x) k")
    case None
    then have "k \<notin> dom (sm_find (ts_variant x))" by blast
    then show ?thesis using None x by (simp add: legal_sample_def)
  next
    case (Some y)
    then have k: "k \<in> dom (sm_find (ts_variant x))" by blast
    with x have "k \<in> set (tuningParameters (variantSpace (um_searchSpace m)))" by (simp add: legal_sample_def)
    moreover have "the (sm_find (ts_variant x) k) \<in> set (range_list (rangeFrom (heap k)) (rangeTo (heap k)) (rangeStep (heap k)))"
      using x k unfolding legal_sample_def by blast
    ultimately show ?thesis using assms(3) Some by (auto simp: set_range_list)
  qed
  show "sm_find (ts_variant t) = sm_find (ts_variant u)" using one [OF assms(1)] one [OF assms(2)] by auto
qed

text \<open>
  The duplicate check of the random search never finds a duplicate, because it compares the lists of
  regions or rts's by address: even when every parameter has a single value, so that all samples are the
  same, it creates as many scenarios as were asked for, all with equal variants.
\<close>

theorem random_keeps_duplicates:
  assumes "fair draw" and "\<forall>m \<in> set (models s). model_ok env (tp_heap w) m" and "models s \<noteq> []"
    and "0 \<le> sampleCount s" and "in_int (3 * sampleCount s)"
    and "uint (next_scenario_id w) + sampleCount s \<le> 2 ^ 31" and "pool_below w"
    and "\<forall>m \<in> set (models s). \<forall>tp \<in> set (tuningParameters (variantSpace (um_searchSpace m))).
       rangeFrom (tp_heap w tp) = rangeTo (tp_heap w tp) \<and> 0 < rangeStep (tp_heap w tp)"
  shows "\<exists>s' w'. rs_createScenarios env draw s w = ret (s', w') \<and>
    length (rs_scenarioIds s') = length (rs_scenarioIds s) + nat (sampleCount s) \<and>
    (\<exists>variants. \<forall>j < nat (sampleCount s). \<exists>sc ts. sm_find (csp (pool_set w')) (uint (next_scenario_id w) + int j) = Some (Some sc) \<and>
       sc_ts sc = Some ts \<and> map ts_variant ts = variants)"
proof -
  from createScenarios_sampled [OF assms(1-7)] obtain s' w' where c: "rs_createScenarios env draw s w = ret (s', w')"
    and q: "rs_scenarioIds s' = rs_scenarioIds s @ ids_from (next_scenario_id w) (nat (sampleCount s))"
    and each: "\<And>j. j < nat (sampleCount s) \<Longrightarrow> \<exists>sc ts. sm_find (csp (pool_set w')) (uint (next_scenario_id w) + int j) = Some (Some sc) \<and>
       sc_ts sc = Some ts \<and> list_all2 (legal_sample (tp_heap w)) (models s) ts" by blast
  have same: "map ts_variant ts = map ts_variant us"
    if "list_all2 (legal_sample (tp_heap w)) (models s) ts" "list_all2 (legal_sample (tp_heap w)) (models s) us" for ts us
  proof (rule nth_equalityI)
    show "length (map ts_variant ts) = length (map ts_variant us)" using that by (simp add: list_all2_lengthD [symmetric])
    fix i assume "i < length (map ts_variant ts)"
    then have i: "i < length (models s)" "i < length ts" "i < length us" using that by (simp_all add: list_all2_lengthD [symmetric])
    have "ts_variant (ts ! i) = ts_variant (us ! i)"
      by (rule single_legal [of "tp_heap w" "models s ! i"]) (use that i assms(8) in \<open>auto simp: list_all2_conv_all_nth\<close>)
    then show "map ts_variant ts ! i = map ts_variant us ! i" using i by simp
  qed
  have "\<exists>variants. \<forall>j < nat (sampleCount s). \<exists>sc ts. sm_find (csp (pool_set w')) (uint (next_scenario_id w) + int j) = Some (Some sc) \<and>
       sc_ts sc = Some ts \<and> map ts_variant ts = variants"
  proof (cases "nat (sampleCount s)")
    case (Suc n)
    with each [of 0] obtain ts0 where "list_all2 (legal_sample (tp_heap w)) (models s) ts0" by auto
    with each same show ?thesis by (intro exI [of _ "map ts_variant ts0"]) blast
  qed simp
  with c q show ?thesis by (auto simp: ids_from_def)
qed

section \<open>Evaluating them\<close>

definition rs_inv :: "random_search \<Rightarrow> bool" where
  "rs_inv s \<longleftrightarrow> results_inv (rs_results s) \<and> distinct (rs_scenarioIds s) \<and>
     (\<forall>i \<in> set (rs_scenarioIds s). 0 \<le> i \<and> sm_find (path (rs_results s)) i = None)"

lemma rs_evaluate_ret: "rs_evaluate fs w i res = ret res' \<Longrightarrow> \<exists>v. res' = record_value i v res"
  by (cases fs) (auto simp: rs_evaluate_def cbind_eq_ret)

lemma rs_evaluate_all:
  assumes "cfold (rs_evaluate fs w) ids res = ret res'" and "results_inv res" and "distinct ids"
    and "\<forall>i \<in> set ids. 0 \<le> i \<and> sm_find (path res) i = None"
  shows "results_inv res' \<and> dom (sm_find (path res')) = dom (sm_find (path res)) \<union> set ids"
  using assms
proof (induction ids arbitrary: res)
  case (Cons i ids)
  then obtain res1 where one: "rs_evaluate fs w i res = ret res1" and rest: "cfold (rs_evaluate fs w) ids res1 = ret res'"
    by (auto simp: cbind_eq_ret)
  from rs_evaluate_ret [OF one] obtain v where v: "res1 = record_value i v res" by blast
  have "results_inv res1" unfolding v by (rule results_inv_record) (use Cons.prems in auto)
  then have "results_inv res' \<and> dom (sm_find (path res')) = dom (sm_find (path res1)) \<union> set ids"
    by (rule Cons.IH [OF rest]) (use Cons.prems v in auto)
  then show ?case by (simp add: v)
qed simp

interpretation rnd: search_algorithm rs_searchFinished "\<lambda>s. ret (rs_getOptimum s)" "\<lambda>s. path (rs_results s)" rs_scenarioIds rs_inv "\<lambda>_ _. True"
proof unfold_locales
  fix s w b t w'
  assume inv: "rs_inv s" and fin: "rs_searchFinished s w = ret (b, t, w')"
  then obtain res where c: "cfold (rs_evaluate (rs_objectiveFunctions s) w) (rs_scenarioIds s) (rs_results s) = ret res"
    and t: "t = s\<lparr>rs_results := res, rs_scenarioIds := []\<rparr>" by (auto simp: rs_searchFinished_def cbind_eq_ret)
  from rs_evaluate_all [OF c] inv show "rs_inv t \<and> rs_scenarioIds t = [] \<and>
      dom (sm_find (path (rs_results t))) = dom (sm_find (path (rs_results s))) \<union> set (rs_scenarioIds s)"
    by (simp add: rs_inv_def t)
next
  fix s i j u v
  assume "rs_inv s" and "ret (rs_getOptimum s) = ret i" and "sm_find (path (rs_results s)) i = Some v"
    and "sm_find (path (rs_results s)) j = Some u"
  then show "\<not> dlt u v" by (auto simp: rs_inv_def rs_getOptimum_def results_inv_def)
next
  fix s i
  assume "rs_inv s" and "ret (rs_getOptimum s) = ret i" and "path (rs_results s) \<noteq> []"
  then show "sm_find (path (rs_results s)) i \<noteq> None" by (auto simp: rs_inv_def rs_getOptimum_def results_inv_def)
qed

text \<open>
  The random search reports a best sample: evaluating the queued scenarios adds exactly them to the
  search path, and the optimum it then names is on the path with no scenario of this or an earlier
  step better than it.
\<close>

theorem random_step_optimum:
  assumes "rs_inv s" and "rs_searchFinished s w = ret (b, t, w')" and "rs_scenarioIds s \<noteq> []"
  shows "rs_inv t \<and>
    dom (sm_find (rs_getSearchPath t)) = dom (sm_find (rs_getSearchPath s)) \<union> set (rs_scenarioIds s) \<and>
    (\<exists>v. sm_find (rs_getSearchPath t) (rs_getOptimum t) = Some v \<and> (\<forall>u \<in> ran (sm_find (rs_getSearchPath t)). \<not> dlt u v))"
proof -
  obtain v where "sm_find (path (rs_results t)) (rs_getOptimum t) = Some v"
    "\<forall>u \<in> ran (sm_find (path (rs_results t))). \<not> dlt u v"
    using rnd.best_of_finished [OF assms(1) TrueI assms(2) refl assms(3)] by blast
  with rnd.finished_law [OF assms(1) TrueI assms(2)] show ?thesis by (auto simp: rs_getSearchPath_def)
qed

section \<open>Examples\<close>

text \<open>A generator that always answers the upper bound, and one parameter with the values 1, 5, 9 or with one value.\<close>

definition highest :: draws where
  "highest seed n k = ret k"

lemma fair_highest: "fair highest"
  by (simp add: fair_def highest_def)

definition example_random :: random_search where
  "example_random = rs_addSearchSpace 0 (new_SearchSpace \<lparr>tuningParameters = [0]\<rparr>) new_RandomSearch"

lemma example_random_simps:
  "models example_random = [new_UniformDistributionModel 0 (new_SearchSpace \<lparr>tuningParameters = [0]\<rparr>)]"
  "sampleCount example_random = 2" "rs_scenarioIds example_random = []"
  by (simp_all add: example_random_def rs_addSearchSpace_def addProbabilityModel_def new_RandomSearch_def)

lemma example_model_ok: "\<forall>m \<in> set (models example_random). model_ok example_env (tp_heap example_world) m"
  by code_simp

lemma example_below: "pool_below example_world" "next_scenario_id example_world = 0"
  by (simp_all add: pool_below_def example_world_def new_ScenarioPoolSet_def)

theorem random_samples_legal_witness:
  "\<exists>s' w'. rs_createScenarios example_env highest example_random example_world = ret (s', w') \<and> rs_scenarioIds s' = [0, 1]"
proof -
  have "models example_random \<noteq> []" "0 \<le> sampleCount example_random" "in_int (3 * sampleCount example_random)"
    "uint (next_scenario_id example_world) + sampleCount example_random \<le> 2 ^ 31"
    by (simp_all add: example_random_simps example_below in_int_def INT_MIN_def INT_MAX_def)
  from random_samples_legal [OF fair_highest example_model_ok this example_below(1)]
  obtain s' w' where "rs_createScenarios example_env highest example_random example_world = ret (s', w')"
    "rs_scenarioIds s' = ids_from 0 2" by (auto simp: example_random_simps example_below)
  moreover have "ids_from 0 2 = [0, 1]" by code_simp
  ultimately show ?thesis by auto
qed

definition single_world :: world where
  "single_world = example_world\<lparr>tp_heap := \<lambda>p. example_tp 7 7 1\<rparr>"

theorem random_keeps_duplicates_witness:
  "\<exists>s' w'. rs_createScenarios example_env highest example_random single_world = ret (s', w') \<and> length (rs_scenarioIds s') = 2"
proof -
  have ok: "\<forall>m \<in> set (models example_random). model_ok example_env (tp_heap single_world) m" by code_simp
  have below: "pool_below single_world" "uint (next_scenario_id single_world) + sampleCount example_random \<le> 2 ^ 31"
    by (simp_all add: single_world_def pool_below_def example_world_def new_ScenarioPoolSet_def example_random_simps)
  have one: "\<forall>m \<in> set (models example_random). \<forall>tp \<in> set (tuningParameters (variantSpace (um_searchSpace m))).
       rangeFrom (tp_heap single_world tp) = rangeTo (tp_heap single_world tp) \<and> 0 < rangeStep (tp_heap single_world tp)"
    by code_simp
  have "models example_random \<noteq> []" "0 \<le> sampleCount example_random" "in_int (3 * sampleCount example_random)"
    by (simp_all add: example_random_simps in_int_def INT_MIN_def INT_MAX_def)
  from random_keeps_duplicates [OF fair_highest ok this below(2,1) one] show ?thesis by (auto simp: example_random_simps)
qed

definition random_queue :: random_search where
  "random_queue = new_RandomSearch\<lparr>rs_scenarioIds := [0, 1, 2], rs_objectiveFunctions := [PTF_min]\<rparr>"

theorem random_step_optimum_witness:
  "\<exists>t w'. rs_searchFinished random_queue (example_results example_times) = ret (True, t, w') \<and> rs_getOptimum t = 1 \<and> rs_inv t"
proof -
  have inv: "rs_inv random_queue" "rs_scenarioIds random_queue \<noteq> []"
    by (simp_all add: rs_inv_def random_queue_def new_RandomSearch_def)
  have "(case rs_searchFinished random_queue (example_results example_times) of
      Some (Inr (b, t, w)) \<Rightarrow> (b, rs_getOptimum t) | _ \<Rightarrow> (False, 0)) = (True, 1)" by code_simp
  then obtain t w' where t: "rs_searchFinished random_queue (example_results example_times) = ret (True, t, w')" "rs_getOptimum t = 1"
    by (auto simp: ret_def split: option.splits sum.splits)
  from random_step_optimum [OF inv(1) t(1) inv(2)] t show ?thesis by blast
qed

end
