(* ===== verification/InterphasePlugin.thy ===== *)
theory InterphasePlugin
  imports PhaseClusters RandomSampling
begin

text \<open>
  The READEX inter-phase plugin (\<open>autotune/plugins/readex_interphase\<close>). In the first tuning step the random search
  gives every iteration of the phase a setting; at its end the iterations are clustered (\<open>PhaseClusters\<close>) and each
  cluster, and each runtime situation in it, gets the setting of its best iteration. The second step repeats all
  iterations with the default setting, the third with the setting of their cluster; then the results go into the call
  tree, which is split by clusters. Printing and the exported files are left out.
\<close>

section \<open>State and surroundings\<close>

text \<open>
  The surroundings are those of the intra-phase plugin (configuration, search behind its interface, addresses, orders of
  unordered maps, generator of the tuning model), \<open>std::sort\<close>, the order of the set of a phase's rts's, which are
  pointers, and what the iteration number in \<open>insertPhaseData\<close> holds (by tuning step and scenario) when no property
  sets it. \<open>samples\<close> and the name space \<open>interph\<close> are globals.
\<close>

record 's inter_env =
  ne_base :: "'s intra_env"
  ne_sort :: result_sort
  ne_rts_order :: "rts_info list \<Rightarrow> rts_info list"
  ne_phase_iter :: "int \<Rightarrow> int \<Rightarrow> phase_num"

record 's inter =
  nt_tuningParameters :: "tp_ptr list"
  nt_searchAlgorithm :: "'s option"
  nt_code_significant_regions :: "region_ptr list"
  nt_objectives :: "(objective_function \<times> string) list"
  nt_tuningStep :: int
  nt_min_freq :: int
  nt_max_freq :: int
  nt_freq_step :: int
  nt_current_step :: int
  nt_samples :: int
  nt_created :: nat
  nt_calltree :: calltree
  nt_interph :: interph

definition Readex_Interphase :: int where "Readex_Interphase = 21"

text \<open>The random search behind the interface; \<open>now\<close> is the time its model is made.\<close>

definition random_alg :: "build_env \<Rightarrow> draws \<Rightarrow> int \<Rightarrow> random_search search_alg" where
  "random_alg env draw now =
     \<lparr>sa_initialize = ret, sa_setATPService = (\<lambda>s. s), sa_set = (\<lambda>f i s. if f = SetSampleCount then setSampleCount i s else s),
      sa_addObjectiveFunction = rs_addObjectiveFunction, sa_addSearchSpace = (\<lambda>ss s. ret (rs_addSearchSpace now ss s)),
      sa_createScenarios = rs_createScenarios env draw, sa_searchFinished = rs_searchFinished,
      sa_getOptimum = (\<lambda>s. ret (rs_getOptimum s)), sa_getWorst = rs_getWorst, sa_clear = rs_clear\<rparr>"

definition set_inter :: "'s inter \<Rightarrow> world \<Rightarrow> 's inter side \<Rightarrow> 's inter side" where
  "set_inter p w s = s\<lparr>plugin_state := p, tuning_world := w\<rparr>"

section \<open>Starting\<close>

definition create_inter_tp ::
  "'s inter_env \<Rightarrow> int \<Rightarrow> string \<Rightarrow> frequencies \<Rightarrow> 's inter \<times> world \<Rightarrow> 's inter \<times> world" where
  "create_inter_tp env i name f = (\<lambda>(p, w).
     let a = ie_new_tp (ne_base env) (nt_created p)
     in (p\<lparr>nt_tuningParameters := nt_tuningParameters p @ [a], nt_created := Suc (nt_created p)\<rparr>,
         w\<lparr>tp_heap := (tp_heap w)(a := default_tp name Readex_Interphase f ((new_TuningParameter (tp_heap w a))\<lparr>tp_ID := i\<rparr>))\<rparr>))"

definition inter_parameters :: "'s inter_env \<Rightarrow> 's inter \<times> world \<Rightarrow> ('s inter \<times> world) comp" where
  "inter_parameters env = (\<lambda>(p, w).
     let config = ie_config (ne_base env); omp = ie_ompnumthreads (ne_base env)
     in cbind (read_frequencies config ''Configuration.tuningParameter.frequency''
                 \<lparr>fq_min = 1200, fq_max = 2400, fq_step = 400, fq_default = 2500\<rparr>) (\<lambda>freq.
        cbind (read_threads config) (\<lambda>(threadsLB, threadsStep).
        cbind (round_range freq) (\<lambda>freq.
          let p = p\<lparr>nt_min_freq := fq_min freq, nt_max_freq := fq_max freq, nt_freq_step := fq_step freq\<rparr>;
              threads = \<lparr>fq_min = threadsLB, fq_max = omp, fq_step = threadsStep, fq_default = omp\<rparr>
          in if threadsLB > omp then fail Abort
             else cbind (read_frequencies config ''Configuration.tuningParameter.uncore''
                    \<lparr>fq_min = 1000, fq_max = 3000, fq_step = 1000, fq_default = 3000\<rparr>) (\<lambda>uncore.
                  cbind (round_range uncore) (\<lambda>uncore.
                    ret (create_inter_tp env 2 ''UNCORE_FREQ'' uncore
                        (create_inter_tp env 1 ''NUMTHREADS'' threads
                        (create_inter_tp env 0 ''CPU_FREQ'' freq (p, w))))))))))"

definition inter_search_do :: "('s \<Rightarrow> 's comp) \<Rightarrow> 's inter \<Rightarrow> 's inter comp" where
  "inter_search_do f p = cbind (deref (nt_searchAlgorithm p)) (\<lambda>s. cbind (f s) (\<lambda>t. ret (p\<lparr>nt_searchAlgorithm := Some t\<rparr>)))"

definition read_samples :: "'s inter_env \<Rightarrow> 's inter \<Rightarrow> 's inter comp" where
  "read_samples env p =
     (case ie_config (ne_base env) ''Configuration.periscope.searchAlgorithm.samples'' of None \<Rightarrow> ret p
      | Some t \<Rightarrow> cbind (c_atoi t) (\<lambda>i.
          inter_search_do (\<lambda>s. ret (sa_set (ie_search (ne_base env)) SetSampleCount i s)) (p\<lparr>nt_samples := i\<rparr>)))"

text \<open>The entry of the energy's unit is misspelt, so with the name in use it is not found and ends the block.\<close>

definition inter_read_objectives :: "'s intra_env \<Rightarrow> string list \<times> units" where
  "inter_read_objectives env =
     (let none = \<lparr>timeUnit = '''', energyUnit = '''', currencyUnit = ''''\<rparr>
      in if \<not> ie_has_configurationfile env then ([], none)
         else case ie_objectives env of None \<Rightarrow> ([], none)
         | Some names \<Rightarrow> (names, read_texts (ie_config env)
             [(''Configuration.periscope.metricUnits.timeUnit'', \<lambda>t u. u\<lparr>timeUnit := t\<rparr>),
              (''Configuration.periscope.metricUnits.eneryUnit'', \<lambda>t u. u\<lparr>energyUnit := t\<rparr>),
              (''Configuration.periscope.metricUnits.currencyUnit'', \<lambda>t u. u\<lparr>currencyUnit := t\<rparr>)] none))"

definition inter_add_objective :: "'s intra_env \<Rightarrow> objective_function \<times> string \<Rightarrow> 's inter \<Rightarrow> 's inter" where
  "inter_add_objective env obj p =
     p\<lparr>nt_searchAlgorithm := map_option (sa_addObjectiveFunction (ie_search env) (fst obj)) (nt_searchAlgorithm p),
       nt_objectives := nt_objectives p @ [obj]\<rparr>"

definition inter_objectives :: "'s intra_env \<Rightarrow> 's inter \<Rightarrow> 's inter" where
  "inter_objectives env p =
     (case inter_read_objectives env of (names, u) \<Rightarrow>
        fold (inter_add_objective env) (if names = [] then [(Energy, energyUnit u)] else objectives_of (ie_cost env) u names) p)"

definition inter_initialize :: "'s inter_env \<Rightarrow> 's inter side \<Rightarrow> 's inter side comp" where
  "inter_initialize env s =
     (let p = (plugin_state s)\<lparr>nt_tuningStep := 0, nt_current_step := 0, nt_min_freq := 1200, nt_max_freq := 2400,
                nt_freq_step := 400\<rparr>
      in cbind (inter_parameters env (p, tuning_world s)) (\<lambda>(p, w).
         cbind (ie_load (ne_base env) ''random'') (\<lambda>instance.
         cbind (inter_search_do (sa_initialize (ie_search (ne_base env))) (p\<lparr>nt_searchAlgorithm := instance\<rparr>)) (\<lambda>p.
         cbind (read_samples env p) (\<lambda>p. ret (set_inter (inter_objectives (ne_base env) p) w s))))))"

definition inter_startTuningStep :: "'s inter_env \<Rightarrow> 's inter side \<Rightarrow> 's inter side comp" where
  "inter_startTuningStep env s =
     (let p = (plugin_state s)\<lparr>nt_tuningStep := nt_tuningStep (plugin_state s) + 1\<rparr>
      in if nt_tuningStep p = 1
         then cbind (add_phase (nt_calltree p) (setVariantSpace (fold addTuningParameter (nt_tuningParameters p) \<lparr>tuningParameters = []\<rparr>)
                      (new_SearchSpace \<lparr>tuningParameters = []\<rparr>))) (\<lambda>ss.
              cbind (inter_search_do (sa_addSearchSpace (ie_search (ne_base env)) ss) p) (\<lambda>p. ret (s\<lparr>plugin_state := p\<rparr>)))
         else ret (s\<lparr>plugin_state := p\<rparr>))"

definition inter_analysisRequired :: "'s inter side \<Rightarrow> (bool \<times> strategy_request option \<times> 's inter side) comp" where
  "inter_analysisRequired s = ret (False, None, s)"

section \<open>Scenarios\<close>

text \<open>A loop over the valid rts's of some regions.\<close>

definition for_rtss :: "calltree \<Rightarrow> region_ptr list \<Rightarrow> (rts_ptr \<Rightarrow> 'a \<Rightarrow> 'a comp) \<Rightarrow> 'a \<Rightarrow> 'a comp" where
  "for_rtss st regs f =
     cfold (\<lambda>reg x. cbind (deref (calltree_root (ct_appl st))) (\<lambda>root_ptr.
              cbind (getValidRtsOfRegion st (Some reg) root_ptr []) (\<lambda>rtsList. cfold f rtsList x))) regs"

definition default_config :: "tp_store \<Rightarrow> tp_ptr list \<Rightarrow> (tp_ptr, int) smap" where
  "default_config heap tps = fold (\<lambda>a. sm_insert a (default_val (heap a))) tps []"

text \<open>
  The best phase of a phase's cluster. The label becomes \<open>unsigned\<close>; a cluster that is not in the map, as that of
  noise, is the end iterator followed.
\<close>

definition best_phase :: "interph \<Rightarrow> phase_info \<Rightarrow> phase_info option comp" where
  "best_phase g ph =
     cbind (found (configForClusters g) (word_of_int (ph_clusterID ph))) (\<lambda>(k, _). ret (sm_find (dtaPhases g) k))"

definition rts_config ::
  "interph \<Rightarrow> phase_info \<Rightarrow> phase_info option \<Rightarrow> (tp_ptr, int) smap \<Rightarrow> (tp_ptr, int) smap \<Rightarrow> string \<Rightarrow> (tp_ptr, int) smap comp" where
  "rts_config g ph phase_pos configForPhase defaultConfig cpath =
     (if phase_pos = None then ret defaultConfig
      else cbind (vector_at (rts_best_objs g) (ph_clusterID ph - 1)) (\<lambda>rts_config_map.
           case sm_find rts_config_map cpath of None \<Rightarrow> ret configForPhase
           | Some (_, k) \<Rightarrow> cbind (found (dtaPhases g) k) (\<lambda>b. ret (ph_scenarioConfig b))))"

definition entity_spec :: "'s inter_env \<Rightarrow> string \<Rightarrow> (tp_ptr, int) smap \<Rightarrow> tuning_specification" where
  "entity_spec env cpath settings =
     TuningSpecification_entities (withRtsSupport (ie_build (ne_base env))) settings [cpath] (uninit_bool (ie_build (ne_base env)))"

definition phase_specs :: "'s inter_env \<Rightarrow> 's inter \<Rightarrow> tp_store \<Rightarrow> phase_info \<Rightarrow> tuning_specification list comp" where
  "phase_specs env p heap ph =
     (let g = nt_interph p; defaultConfig = default_config heap (nt_tuningParameters p)
      in cbind (best_phase g ph) (\<lambda>phase_pos.
         let configForPhase = (if nt_tuningStep p \<ge> 3 then (case phase_pos of Some b \<Rightarrow> ph_scenarioConfig b | None \<Rightarrow> defaultConfig)
                               else defaultConfig)
         in cbind (deref (calltree_root (ct_appl (nt_calltree p)))) (\<lambda>r.
            cbind (rts_at (nt_calltree p) r) (\<lambda>n.
            cbind (if nt_tuningStep p \<ge> 3
                   then for_rtss (nt_calltree p) (nt_code_significant_regions p) (\<lambda>q m. cbind (rts_at (nt_calltree p) q) (\<lambda>n.
                          cbind (rts_config g ph phase_pos configForPhase defaultConfig (rn_callpathstring n)) (\<lambda>c.
                            ret (sm_insert (rn_callpathstring n) c m)))) []
                   else ret []) (\<lambda>configForRts.
              ret (entity_spec env (rn_callpathstring n) configForPhase # map (\<lambda>(cpath, c). entity_spec env cpath c) configForRts))))))"

definition push_specs :: "tuning_specification list \<Rightarrow> world \<Rightarrow> world" where
  "push_specs ts w =
     (let (sc, n) = new_Scenario (Some ts) (next_scenario_id w)
      in w\<lparr>next_scenario_id := n, pool_set := (pool_set w)\<lparr>csp := ScenarioPool_push (sc\<lparr>rtsBased := True\<rparr>) (csp (pool_set w))\<rparr>\<rparr>)"

definition inter_createScenarios :: "'s inter_env \<Rightarrow> 's inter side \<Rightarrow> 's inter side comp" where
  "inter_createScenarios env s =
     (let p = plugin_state s; w = clear_pools (tuning_world s)
      in if nt_tuningStep p \<ge> 2
         then cbind (cfold (\<lambda>(_, ph) w. cbind (phase_specs env p (tp_heap w) ph) (\<lambda>ts. ret (push_specs ts w)))
                       (dtaPhases (nt_interph p)) w) (\<lambda>w. ret (set_inter p w s))
         else cbind (deref (nt_searchAlgorithm p)) (\<lambda>a.
              cbind (sa_createScenarios (ie_search (ne_base env)) a w) (\<lambda>(a, w).
                ret (set_inter (p\<lparr>nt_searchAlgorithm := Some a\<rparr>) w s))))"

definition inter_prepareScenarios :: "'s inter side \<Rightarrow> 's inter side comp" where
  "inter_prepareScenarios s =
     (let ps = pool_set (tuning_world s)
      in cbind (loop move_body (csp ps, psp ps)) (\<lambda>(c, p). ret (set_side_pools (ps\<lparr>csp := c, psp := p\<rparr>) s)))"

definition inter_request :: "calltree \<Rightarrow> rts_ptr \<Rightarrow> property_request list \<Rightarrow> property_request list comp" where
  "inter_request st r reqList =
     cbind (addPropertyID INTERPHASE_PROPS (PropertyRequest_all [])) (\<lambda>req.
     cbind (rts_at st r) (\<lambda>n.
     cbind (PropertyRequest_addRts (Some (rts_ref_of n)) req) (\<lambda>req. ret (reqList @ [addAllProcesses req]))))"

definition inter_defineExperiment ::
  "int \<Rightarrow> bool \<times> strategy_request option \<times> 's inter side \<Rightarrow> (bool \<times> strategy_request option \<times> 's inter side) comp" where
  "inter_defineExperiment numprocs = (\<lambda>(required, strategy, s).
     let ps = pool_set (tuning_world s); p = plugin_state s; st = nt_calltree p
     in cbind (ScenarioPool_pop (psp ps)) (\<lambda>(scenario, q).
        cbind (phase_rtss st) (\<lambda>rtsList.
        if rtsList = [] then fail Abort
        else cbind (deref scenario) (\<lambda>sc.
             cbind (cfold (\<lambda>r sc. cbind (rts_at st r) (\<lambda>n.
                      ret (setSingleTunedRtsWithPropertyALLRanks (Some (rts_ref_of n)) INTERPHASE_PROPS sc))) rtsList sc) (\<lambda>sc.
               let s' = set_side_pools (ps\<lparr>psp := q, esp := ScenarioPool_push sc (esp ps)\<rparr>)
                          (s\<lparr>plugin_state := p\<lparr>nt_code_significant_regions := sig_regions (ct_appl st)\<rparr>\<rparr>)
               in if sig_regions (ct_appl st) = [] then ret (required, strategy, s')
                  else cbind (for_rtss st (sig_regions (ct_appl st)) (inter_request st) []) (\<lambda>reqs.
                       ret (True, Some (new_StrategyRequest (CONFIG reqs) intra_info), s')))))))"

text \<open>One restart before the first experiment of every tuning step.\<close>

definition inter_restartRequired ::
  "string \<times> int \<times> string \<times> bool \<Rightarrow> 's inter side \<Rightarrow> (bool \<times> (string \<times> int \<times> string \<times> bool) \<times> 's inter side) comp" where
  "inter_restartRequired q s =
     (let p = plugin_state s
      in if nt_current_step p < nt_tuningStep p then ret (True, q, s\<lparr>plugin_state := p\<lparr>nt_current_step := nt_tuningStep p\<rparr>\<rparr>)
         else ret (False, q, s))"

definition inter_searchFinished :: "'s inter_env \<Rightarrow> 's inter side \<Rightarrow> (bool \<times> 's inter side) comp" where
  "inter_searchFinished env s =
     (let p = plugin_state s
      in cbind (deref (nt_searchAlgorithm p)) (\<lambda>a.
         cbind (sa_searchFinished (ie_search (ne_base env)) a (tuning_world s)) (\<lambda>(b, a, w).
           ret (b, set_inter (p\<lparr>nt_searchAlgorithm := Some a\<rparr>) w s))))"

definition inter_finishTuningStep :: "'s inter side \<Rightarrow> 's inter side comp" where
  "inter_finishTuningStep s = ret s"

section \<open>Measurements\<close>

text \<open>A \<open>double\<close> becomes \<open>unsigned\<close> by truncation; a value that does not fit is undefined.\<close>

definition dbl_to_unsigned :: "dbl \<Rightarrow> phase_num comp" where
  "dbl_to_unsigned x = cbind (dbl_to_int64 x) (\<lambda>k. check (0 \<le> k \<and> k < 2 ^ 32) UB (ret (word_of_int k)))"

definition entry_value :: "meta_property \<Rightarrow> string \<Rightarrow> dbl comp" where
  "entry_value mp key = (case sm_find (addInfo mp) key of None \<Rightarrow> ret (dbl_of_int 0) | Some t \<Rightarrow> std_stod t)"

record measured_ids =
  id_TotalInstr :: dbl
  id_L3Misses :: dbl
  id_BranchInstr :: dbl
  id_Instances :: dbl
  id_ExecTime :: dbl

definition none_measured :: measured_ids where
  "none_measured = (let zero = dbl_of_int 0
     in \<lparr>id_TotalInstr = zero, id_L3Misses = zero, id_BranchInstr = zero, id_Instances = zero, id_ExecTime = zero\<rparr>)"

definition tagged :: "measured_ids \<Rightarrow> (string \<times> dbl) list" where
  "tagged x = [(''TotalInstr'', id_TotalInstr x), (''L3Misses'', id_L3Misses x), (''BranchInstr'', id_BranchInstr x),
     (''Instances'', id_Instances x), (''ExecTime'', id_ExecTime x)]"

text \<open>Counters are added up; the time is that of the process with the most instances.\<close>

definition measure_property :: "meta_property \<Rightarrow> measured_ids \<times> phase_num \<Rightarrow> (measured_ids \<times> phase_num) comp" where
  "measure_property mp = (\<lambda>(x, iter).
     if \<not> mp_rtsBased mp then ret (x, iter)
     else cbind (entry_value mp ''PhaseIter'') (\<lambda>d. cbind (dbl_to_unsigned d) (\<lambda>iter.
          cbind (entry_value mp ''TotalInstr'') (\<lambda>t. cbind (entry_value mp ''L3Misses'') (\<lambda>m.
          cbind (entry_value mp ''BranchInstr'') (\<lambda>b. cbind (entry_value mp ''Instances'') (\<lambda>n.
            let x = x\<lparr>id_TotalInstr := dadd (id_TotalInstr x) t, id_L3Misses := dadd (id_L3Misses x) m,
                      id_BranchInstr := dadd (id_BranchInstr x) b\<rparr>
            in if dlt (id_Instances x) n
               then cbind (entry_value mp ''ExecTime'') (\<lambda>e. ret (x\<lparr>id_Instances := n, id_ExecTime := e\<rparr>, iter))
               else ret (x, iter))))))))"

definition getMeasurements :: "meta_property list \<Rightarrow> phase_num \<Rightarrow> (measured_ids \<times> phase_num) comp" where
  "getMeasurements props iter = cfold measure_property props (none_measured, iter)"

definition props_values :: "(objective_function \<times> string) list \<Rightarrow> meta_property list \<Rightarrow> (string \<times> dbl) list comp" where
  "props_values objs props =
     cfold (\<lambda>(f, _) vs. cbind (objective_props f [] props) (\<lambda>v. ret (vs @ [(objective_name f, v)]))) objs []"

text \<open>\<open>m[ k ] = v\<close> for all pairs.\<close>

definition put_values :: "(string \<times> dbl) list \<Rightarrow> value_map \<Rightarrow> value_map" where
  "put_values vs m = fold (\<lambda>(k, v). sm_put k v) vs m"

definition add_values :: "(string \<times> dbl) list \<Rightarrow> value_map \<Rightarrow> value_map" where
  "add_values vs m = fold (\<lambda>(k, v) m. sm_put k (dadd (fst (sm_index (dbl_of_int 0) k m)) v) m) vs m"

text \<open>The setting of a scenario; one that is not there is inserted as a null pointer, and without a specification nothing is returned.\<close>

definition getTuningParameters :: "int \<Rightarrow> world \<Rightarrow> (tp_ptr, int) smap comp" where
  "getTuningParameters i w =
     cbind (deref (fst (getScenarioByScenarioID i (fsp (pool_set w))))) (\<lambda>sc.
     cbind (deref (sc_ts sc)) (\<lambda>ts. case ts of [] \<Rightarrow> fail UB | t # _ \<Rightarrow> ret (ts_variant t)))"

subsection \<open>First step: a new phase\<close>

definition new_phase_rts ::
  "'s inter_env \<Rightarrow> 's inter \<Rightarrow> int \<Rightarrow> rts_ptr \<Rightarrow> phase_num \<times> analysis_results_pool \<times> rts_info list
     \<Rightarrow> (phase_num \<times> analysis_results_pool \<times> rts_info list) comp" where
  "new_phase_rts env p i r = (\<lambda>(iter, pool, rtss).
     cbind (rts_at (nt_calltree p) r) (\<lambda>n.
     cbind (getPropertiesForScenarioIDandEntity i (rn_callpathstring n) pool) (\<lambda>(props, pool).
       if props = [] then ret (iter, pool, rtss)
       else cbind (props_values (nt_objectives p) props) (\<lambda>vs.
            cbind (getMeasurements props iter) (\<lambda>(x, iter).
              ret (iter, pool, ne_rts_order env (new_rts_info\<lparr>ri_callpath := rn_callpathstring n, ri_objValues := insert_values vs [],
                     ri_phaseIdentifiers := insert_values (tagged x) []\<rparr> # rtss)))))))"

definition insert_new_phase ::
  "'s inter_env \<Rightarrow> int \<Rightarrow> measured_ids \<Rightarrow> phase_num \<Rightarrow> 's inter \<times> world \<Rightarrow> ('s inter \<times> world) comp" where
  "insert_new_phase env i x iter = (\<lambda>(p, w).
     cbind (scenario_values (nt_objectives p) i (srp (pool_set w))) (\<lambda>vs.
     cbind (getTuningParameters i w) (\<lambda>settings.
     cbind (for_rtss (nt_calltree p) (nt_code_significant_regions p) (new_phase_rts env p i) (iter, arp (pool_set w), []))
       (\<lambda>(iter, pool, rtss).
       let ph = new_phaseInfo\<lparr>ph_phaseIdentifiers := insert_values (tagged x) [], ph_scenarioID := i,
                  ph_objValues := insert_values vs [], ph_scenarioConfig := settings, ph_rtsInfo := rtss\<rparr>;
           g = nt_interph p
       in ret (p\<lparr>nt_interph := g\<lparr>dtaPhases := sm_insert (iter - 1) ph (dtaPhases g)\<rparr>\<rparr>,
               w\<lparr>pool_set := (pool_set w)\<lparr>arp := pool\<rparr>\<rparr>)))))"

subsection \<open>Later steps: values for a phase that is known\<close>

text \<open>\<open>regex_replace( call_path, "/Cluster=\\d+", "" )\<close>.\<close>

function strip_clusters :: "string \<Rightarrow> string" where
  "strip_clusters [] = []"
| "strip_clusters (c # s) =
     (let t = drop 9 (c # s)
      in if take 9 (c # s) = ''/Cluster='' \<and> t \<noteq> [] \<and> digit_value (hd t) \<noteq> None
         then strip_clusters (dropWhile (\<lambda>d. digit_value d \<noteq> None) t)
         else c # strip_clusters s)"
  by pat_completeness auto
termination
proof (relation "measure length")
  fix s x :: string and c :: char
  assume "x = drop 9 (c # s)"
  then have "length (dropWhile (\<lambda>d. digit_value d \<noteq> None) x) \<le> length (drop 8 s)"
    using length_dropWhile_le [of _ "drop 8 s"] by simp
  then show "(dropWhile (\<lambda>d. digit_value d \<noteq> None) x, c # s) \<in> measure length" by simp
qed simp_all

text \<open>The first element that satisfies the test is replaced.\<close>

fun put_first :: "('a \<Rightarrow> bool) \<Rightarrow> 'a \<Rightarrow> 'a list \<Rightarrow> 'a list" where
  "put_first P y [] = []"
| "put_first P y (x # xs) = (if P x then y # xs else x # put_first P y xs)"

definition store_rts_values ::
  "int \<Rightarrow> (string \<times> dbl) list \<Rightarrow> (string \<times> dbl) list \<Rightarrow> rts_info \<Rightarrow> rts_info" where
  "store_rts_values step vs ids r =
     (if step = 2 then r\<lparr>ri_defaultObjValues := insert_values vs (ri_defaultObjValues r),
                         ri_defaultPhaseIdentifiers := insert_values ids (ri_defaultPhaseIdentifiers r)\<rparr>
      else if step = 3 then r\<lparr>ri_objValues := put_values vs (ri_objValues r), ri_phaseIdentifiers := put_values ids (ri_phaseIdentifiers r)\<rparr>
      else r)"

definition update_phase_rts ::
  "'s inter \<Rightarrow> int \<Rightarrow> rts_ptr \<Rightarrow> phase_num \<times> analysis_results_pool \<times> rts_info list
     \<Rightarrow> (phase_num \<times> analysis_results_pool \<times> rts_info list) comp" where
  "update_phase_rts p i r = (\<lambda>(iter, pool, rtss).
     cbind (rts_at (nt_calltree p) r) (\<lambda>n.
     let cpath = (if nt_tuningStep p = 3 then strip_clusters (rn_callpathstring n) else rn_callpathstring n);
         here = (\<lambda>x. ri_callpath x = cpath)
     in case find here rtss of None \<Rightarrow> ret (iter, pool, rtss)
        | Some x \<Rightarrow>
            cbind (getPropertiesForScenarioIDandEntity i cpath pool) (\<lambda>(props, pool).
              if props = [] then ret (iter, pool, rtss)
              else cbind (props_values (nt_objectives p) props) (\<lambda>vs.
                   cbind (getMeasurements props iter) (\<lambda>(y, iter).
                     ret (iter, pool, put_first here (store_rts_values (nt_tuningStep p) vs (tagged y) x) rtss))))))"

definition insertRtsData ::
  "'s inter \<Rightarrow> int \<Rightarrow> phase_info \<times> phase_num \<times> analysis_results_pool \<Rightarrow> (phase_info \<times> analysis_results_pool) comp" where
  "insertRtsData p i = (\<lambda>(ph, iter, pool).
     cbind (for_rtss (nt_calltree p) (nt_code_significant_regions p) (update_phase_rts p i) (iter, pool, ph_rtsInfo ph))
       (\<lambda>(_, pool, rtss). ret (ph\<lparr>ph_rtsInfo := rtss\<rparr>, pool)))"

definition store_phase_values :: "int \<Rightarrow> (string \<times> dbl) list \<Rightarrow> (string \<times> dbl) list \<Rightarrow> phase_info \<Rightarrow> phase_info" where
  "store_phase_values step vs ids ph =
     (if step = 2 then ph\<lparr>ph_defaultPhaseIdentifiers := add_values ids (ph_defaultPhaseIdentifiers ph),
                          ph_defaultObjValues := insert_values vs (ph_defaultObjValues ph)\<rparr>
      else ph\<lparr>ph_phaseIdentifiers := put_values ids (ph_phaseIdentifiers ph), ph_objValues := put_values vs (ph_objValues ph)\<rparr>)"

definition update_phase ::
  "int \<Rightarrow> measured_ids \<Rightarrow> phase_num \<Rightarrow> phase_num \<Rightarrow> 's inter \<times> world \<Rightarrow> ('s inter \<times> world) comp" where
  "update_phase i x iter k = (\<lambda>(p, w).
     let g = nt_interph p
     in case sm_find (dtaPhases g) k of None \<Rightarrow> ret (p, w)
        | Some ph \<Rightarrow>
            cbind (scenario_values (nt_objectives p) i (srp (pool_set w))) (\<lambda>vs.
            cbind (insertRtsData p i (store_phase_values (nt_tuningStep p) vs (tagged x) ph, iter, arp (pool_set w))) (\<lambda>(ph, pool).
              ret (p\<lparr>nt_interph := g\<lparr>dtaPhases := sm_put k ph (dtaPhases g)\<rparr>\<rparr>, w\<lparr>pool_set := (pool_set w)\<lparr>arp := pool\<rparr>\<rparr>))))"

text \<open>The application counts on over the restarts, so a step's phases are found at their number less the samples before.\<close>

definition insertPhaseData :: "'s inter_env \<Rightarrow> int \<Rightarrow> 's inter \<times> world \<Rightarrow> ('s inter \<times> world) comp" where
  "insertPhaseData env i = (\<lambda>(p, w).
     cbind (getScenarioResultsByID i (srp (pool_set w))) (\<lambda>props.
     cbind (getMeasurements props (ne_phase_iter env (nt_tuningStep p) i)) (\<lambda>(x, iter).
       if nt_tuningStep p = 1 then insert_new_phase env i x iter (p, w)
       else if nt_tuningStep p = 2 then update_phase i x iter (iter - 1 - word_of_int (nt_samples p)) (p, w)
       else if nt_tuningStep p = 3 then update_phase i x iter (iter - 1 - 2 * word_of_int (nt_samples p)) (p, w)
       else ret (p, w))))"

section \<open>Objectives per instruction\<close>

text \<open>An objective whose name says so is normalised already.\<close>

definition normalized_objectives :: "dbl \<Rightarrow> value_map \<Rightarrow> value_map \<Rightarrow> value_map" where
  "normalized_objectives tot_ins objs m =
     fold (\<lambda>(name, v). sm_insert name (if search_in (\<lambda>t. take 10 t = ''Normalized'') name then v else ddiv v tot_ins)) objs m"

definition normalize_rts :: "rts_info \<Rightarrow> rts_info comp" where
  "normalize_rts r =
     cbind (found (ri_phaseIdentifiers r) ''TotalInstr'') (\<lambda>tot_ins.
       ret (r\<lparr>ri_normalizedObj := normalized_objectives tot_ins (ri_objValues r) (ri_normalizedObj r)\<rparr>))"

definition normalize_phase :: "phase_info \<Rightarrow> phase_info comp" where
  "normalize_phase ph =
     cbind (found (ph_phaseIdentifiers ph) ''TotalInstr'') (\<lambda>tot_ins.
     cbind (cfold (\<lambda>r rs. cbind (normalize_rts r) (\<lambda>r. ret (rs @ [r]))) (ph_rtsInfo ph) []) (\<lambda>rtss.
       ret (ph\<lparr>ph_normalizedObj := normalized_objectives tot_ins (ph_objValues ph) (ph_normalizedObj ph), ph_rtsInfo := rtss\<rparr>)))"

definition normalizeObjectives :: "interph \<Rightarrow> interph comp" where
  "normalizeObjectives g = cbind (cmap_values normalize_phase (dtaPhases g)) (\<lambda>ps. ret (g\<lparr>dtaPhases := ps\<rparr>))"

section \<open>The best phase of a cluster\<close>

record cluster_best =
  cb_best_obj :: dbl
  cb_phase_num :: phase_num
  cb_phases :: "phase_num list"
  cb_rts :: "(string, dbl \<times> phase_num) umap"

definition no_best :: cluster_best where
  "no_best = \<lparr>cb_best_obj = DBL_MAX, cb_phase_num = 0, cb_phases = [], cb_rts = []\<rparr>"

definition note_rts ::
  "'s inter_env \<Rightarrow> string \<Rightarrow> phase_num \<Rightarrow> rts_info \<Rightarrow> (string, dbl \<times> phase_num) umap \<Rightarrow> (string, dbl \<times> phase_num) umap comp" where
  "note_rts env name k r best =
     cbind (found (ri_normalizedObj r) name) (\<lambda>curr_obj.
     cbind (found (ri_objValues r) name) (\<lambda>v.
       ret (if nonzero v \<and> (case sm_find best (ri_callpath r) of None \<Rightarrow> True | Some (b, _) \<Rightarrow> dlt curr_obj b)
            then um_put (ie_map_order (ne_base env)) (ri_callpath r) (curr_obj, k) best else best)))"

definition note_phase ::
  "'s inter_env \<Rightarrow> (objective_function \<times> string) list \<Rightarrow> phase_num \<Rightarrow> phase_num \<times> phase_info \<Rightarrow> cluster_best \<Rightarrow> cluster_best comp" where
  "note_phase env objs curr_cluster = (\<lambda>(k, ph) b.
     if word_of_int (ph_clusterID ph) \<noteq> curr_cluster then ret b
     else cbind (vector_at objs 0) (\<lambda>(f, _).
          cbind (found (ph_normalizedObj ph) (objective_name f)) (\<lambda>v.
          let b = (if dlt v (cb_best_obj b) then b\<lparr>cb_best_obj := v, cb_phase_num := k\<rparr> else b)
          in cbind (cfold (note_rts env (objective_name f) k) (ph_rtsInfo ph) (cb_rts b)) (\<lambda>m.
               ret (b\<lparr>cb_phases := insort_insert k (cb_phases b), cb_rts := m\<rparr>)))))"

definition best_body ::
  "'s inter_env \<Rightarrow> (objective_function \<times> string) list \<Rightarrow> phase_num \<times> interph \<Rightarrow> (bool \<times> phase_num \<times> interph) comp" where
  "best_body env objs = (\<lambda>(curr_cluster, g).
     if curr_cluster \<le> num_clusters g
     then cbind (cfold (note_phase env objs curr_cluster) (dtaPhases g) no_best) (\<lambda>b.
            ret (True, (curr_cluster + 1,
              g\<lparr>configForClusters := sm_insert curr_cluster (cb_phase_num b, cb_phases b) (configForClusters g),
                rts_best_objs := rts_best_objs g @ [cb_rts b]\<rparr>)))
     else ret (False, (curr_cluster, g)))"

definition computeBestConfigForCluster :: "'s inter_env \<Rightarrow> (objective_function \<times> string) list \<Rightarrow> interph \<Rightarrow> interph comp" where
  "computeBestConfigForCluster env objs g = cbind (loop (best_body env objs) (1, g)) (\<lambda>(_, g). ret g)"

section \<open>Results in the call tree\<close>

definition interphase_name :: string where "interphase_name = ''readex_interphase''"

text \<open>A result is stored for the rts with a call path, which has to be there.\<close>

definition update_path :: "string \<Rightarrow> (rts_object \<Rightarrow> rts_object) \<Rightarrow> calltree \<Rightarrow> calltree comp" where
  "update_path cpath f st =
     cbind (deref (calltree_root (ct_appl st))) (\<lambda>r.
     cbind (getRtsByCallpath st cpath r) (\<lambda>q. cbind (deref q) (\<lambda>q. update_rts q f st)))"

text \<open>\<open>find\<close> of one string in another; \<open>insert\<close> at a position throws beyond the end. The position after no match wraps.\<close>

fun find_text :: "string \<Rightarrow> string \<Rightarrow> nat option" where
  "find_text t [] = (if t = [] then Some 0 else None)"
| "find_text t (c # s) =
     (if take (length t) (c # s) = t then Some 0 else map_option Suc (find_text t s))"

definition insert_text :: "nat \<Rightarrow> string \<Rightarrow> string \<Rightarrow> string comp" where
  "insert_text n t s = check (n \<le> length s) OutOfRange (ret (take n s @ t @ drop n s))"

definition cluster_text :: "phase_num \<Rightarrow> string" where
  "cluster_text c = ''/Cluster='' @ print_int (uint c)"

definition rts_modified_callpath :: "string \<Rightarrow> phase_num \<Rightarrow> string \<Rightarrow> string comp" where
  "rts_modified_callpath root_path c cpath =
     insert_text (case find_text root_path cpath of None \<Rightarrow> length root_path - 1 | Some pos \<Rightarrow> pos + length root_path)
       (cluster_text c) cpath"

definition widen_ranges ::
  "'s inter_env \<Rightarrow> phase_info \<Rightarrow> (string, dbl \<times> dbl) umap \<Rightarrow> (string, dbl \<times> dbl) umap comp" where
  "widen_ranges env ph m =
     (let fresh = (m = [])
      in cfold (\<lambda>tag m. cbind (found (ph_phaseIdentifiers ph) tag) (\<lambda>v.
             if fresh then ret (if sm_has m tag then m else um_put (ie_map_order (ne_base env)) tag (v, v) m)
             else cbind (found m tag) (\<lambda>(lo, hi).
                  ret (if dlt v lo then um_put (ie_map_order (ne_base env)) tag (v, hi) m
                       else if dlt hi v then um_put (ie_map_order (ne_base env)) tag (lo, v) m else m))))
           [''ComputeIntensity'', ''BranchInstructions''] m)"

definition plugin_result ::
  "dbl \<Rightarrow> (tp_ptr, int) smap \<Rightarrow> value_map \<Rightarrow> value_map \<Rightarrow> (string, dbl \<times> dbl) umap \<Rightarrow> phase_num list \<Rightarrow> config_type \<Rightarrow> rts_object \<Rightarrow> rts_object" where
  "plugin_result v settings objs info ranges phases config =
     insertPluginResult interphase_name (insertTuningResult v settings objs info ranges phases) config"

text \<open>
  The results of one rts of a cluster: its own best phase under \<open>best\<close>, the cluster's under \<open>static\<close>, and, when
  \<open>defaults\<close>, the default value.
\<close>

definition rts_node_result ::
  "string \<Rightarrow> config_type \<Rightarrow> config_type \<Rightarrow> bool \<Rightarrow> interph \<Rightarrow> phase_num \<Rightarrow> phase_num \<Rightarrow> string \<times> dbl \<times> phase_num \<Rightarrow> calltree \<Rightarrow> calltree comp" where
  "rts_node_result name static best defaults g c static_phase = (\<lambda>(cpath, _, k) st.
     cbind (found (dtaPhases g) k) (\<lambda>best_phase.
     cbind (deref (calltree_root (ct_appl st))) (\<lambda>r.
     cbind (rts_at st r) (\<lambda>n.
     cbind (rts_modified_callpath (rn_callpathstring n) c cpath) (\<lambda>mpath.
     cbind (deref (find (\<lambda>x. ri_callpath x = cpath) (ph_rtsInfo best_phase))) (\<lambda>rts_p.
     cbind (found (ri_objValues rts_p) name) (\<lambda>v.
     cbind (update_path mpath (plugin_result v (ph_scenarioConfig best_phase) (ri_objValues rts_p) (ri_phaseIdentifiers rts_p) [] [] best) st) (\<lambda>st.
     cbind (if defaults
            then cbind (found (ri_defaultObjValues rts_p) name) (\<lambda>d. update_path mpath (insertDefaultObjValue name d) st)
            else ret st) (\<lambda>st.
     cbind (found (dtaPhases g) static_phase) (\<lambda>static_best_phase.
       case find (\<lambda>x. ri_callpath x = cpath) (ph_rtsInfo static_best_phase) of
         Some static_rts_p \<Rightarrow>
           cbind (found (ri_objValues static_rts_p) name) (\<lambda>v.
             update_path mpath (plugin_result v (ph_scenarioConfig static_best_phase) (ri_objValues static_rts_p)
               (ri_phaseIdentifiers static_rts_p) [] [] static) st)
       | None \<Rightarrow>
           update_path mpath (plugin_result (dbl_of_int 0) (ph_scenarioConfig static_best_phase) (ri_objValues rts_p)
             (ri_phaseIdentifiers rts_p) [] [] static) st))))))))))"

definition cluster_path :: "calltree \<Rightarrow> phase_num \<Rightarrow> string comp" where
  "cluster_path st c =
     cbind (deref (calltree_root (ct_appl st))) (\<lambda>r. cbind (rts_at st r) (\<lambda>n. ret (rn_callpathstring n @ cluster_text c)))"

definition node_result ::
  "'s inter_env \<Rightarrow> (objective_function \<times> string) list \<Rightarrow> interph \<Rightarrow> phase_num \<times> phase_num \<times> phase_num list \<Rightarrow> calltree \<Rightarrow> calltree comp" where
  "node_result env objs g = (\<lambda>(c, k, phases) st.
     cbind (cluster_path st c) (\<lambda>mpath.
     cbind (found (dtaPhases g) k) (\<lambda>b.
     cbind (vector_at objs 0) (\<lambda>(f, _).
     let name = objective_name f
     in cbind (found (ph_defaultObjValues b) name) (\<lambda>ph_default_obj.
        cbind (cfold (\<lambda>q m. cbind (found (dtaPhases g) q) (\<lambda>ph. widen_ranges env ph m)) phases []) (\<lambda>ranges.
        cbind (found (ph_objValues b) name) (\<lambda>v.
        cbind (update_path mpath (plugin_result v (ph_scenarioConfig b) (ph_objValues b) (sm_insert_range (ph_phaseIdentifiers b) [])
                 ranges phases STATIC_BEST) st) (\<lambda>st.
        cbind (update_path mpath (insertDefaultObjValue name ph_default_obj) st) (\<lambda>st.
        cbind (vector_at (rts_best_objs g) (uint (c - 1))) (\<lambda>rtss.
          cfold (rts_node_result name STATIC_BEST RTS_BEST True g c k) rtss st))))))))))"

definition insertTuningResultForNode ::
  "'s inter_env \<Rightarrow> (objective_function \<times> string) list \<Rightarrow> interph \<Rightarrow> calltree \<Rightarrow> calltree comp" where
  "insertTuningResultForNode env objs g st = cfold (node_result env objs g) (configForClusters g) st"

definition verified_result ::
  "(objective_function \<times> string) list \<Rightarrow> interph \<Rightarrow> phase_num \<times> phase_num \<times> phase_num list \<Rightarrow> calltree \<Rightarrow> calltree comp" where
  "verified_result objs g = (\<lambda>(c, k, phases) st.
     cbind (cluster_path st c) (\<lambda>mpath.
     cbind (found (dtaPhases g) k) (\<lambda>b.
     cbind (vector_at objs 0) (\<lambda>(f, _).
     cbind (found (ph_objValues b) (objective_name f)) (\<lambda>v.
     cbind (update_path mpath (plugin_result v (ph_scenarioConfig b) (ph_objValues b) (sm_insert_range (ph_phaseIdentifiers b) [])
              [] [] TUNING_RESULT_STATIC) st) (\<lambda>st.
     cbind (vector_at (rts_best_objs g) (uint (c - 1))) (\<lambda>rtss.
       cfold (rts_node_result (objective_name f) TUNING_RESULT_STATIC TUNING_RESULT_RTS False g c k) rtss st)))))))"

definition insertResultForNode :: "(objective_function \<times> string) list \<Rightarrow> interph \<Rightarrow> calltree \<Rightarrow> calltree comp" where
  "insertResultForNode objs g st =
     cbind (cfold (verified_result objs g) (configForClusters g) st) (\<lambda>st. cbind (displayTrueSavings st) (\<lambda>_. ret st))"

section \<open>The end of a tuning step\<close>

text \<open>What the table of all results reads of a phase.\<close>

definition export_phase :: "tp_store \<Rightarrow> tp_ptr list \<Rightarrow> (objective_function \<times> string) list \<Rightarrow> phase_info \<Rightarrow> unit comp" where
  "export_phase heap tps objs ph =
     cbind (cfold (\<lambda>tag _. cbind (found (ph_phaseIdentifiers ph) tag) (\<lambda>_. ret ()))
              [''ComputeIntensity'', ''BranchInstr'', ''TotalInstr'', ''L3Misses''] ()) (\<lambda>_.
     cbind (cfold (\<lambda>a _. cbind (deref (find (\<lambda>(q, _). tp_name (heap q) = tp_name (heap a)) (ph_scenarioConfig ph))) (\<lambda>_. ret ())) tps ()) (\<lambda>_.
       cfold (\<lambda>(f, _) _. cbind (found (ph_objValues ph) (objective_name f)) (\<lambda>_. ret ())) objs ()))"

definition exportData :: "tp_store \<Rightarrow> tp_ptr list \<Rightarrow> (objective_function \<times> string) list \<Rightarrow> interph \<Rightarrow> unit comp" where
  "exportData heap tps objs g = cfold (\<lambda>(_, ph) _. export_phase heap tps objs ph) (dtaPhases g) ()"

text \<open>A finished scenario gets its objective values, and its phase is filed.\<close>

definition file_scenario :: "'s inter_env \<Rightarrow> int \<Rightarrow> 's inter \<times> world \<Rightarrow> ('s inter \<times> world) comp" where
  "file_scenario env i = (\<lambda>(p, w).
     case getScenarioByScenarioID i (fsp (pool_set w)) of (scenario, finished) \<Rightarrow>
       cbind (cfold (\<lambda>(f, _) sc. cbind (objective f i (srp (pool_set w))) (\<lambda>v. cbind (deref sc) (\<lambda>s.
                ret (Some (addResult (objective_name f) v s))))) (nt_objectives p) scenario) (\<lambda>scenario.
         insertPhaseData env i (p, w\<lparr>pool_set := (pool_set w)\<lparr>fsp := sm_put i scenario finished\<rparr>\<rparr>)))"

definition file_body ::
  "'s inter_env \<Rightarrow> int \<times> 's inter \<times> world \<Rightarrow> (bool \<times> int \<times> 's inter \<times> world) comp" where
  "file_body env = (\<lambda>(i, p, w).
     if i < ScenarioPool_size (fsp (pool_set w)) then cbind (file_scenario env i (p, w)) (\<lambda>pw. ret (True, (i + 1, pw)))
     else ret (False, (i, p, w)))"

definition file_scenarios :: "'s inter_env \<Rightarrow> 's inter \<times> world \<Rightarrow> ('s inter \<times> world) comp" where
  "file_scenarios env = (\<lambda>(p, w). cfold (file_scenario env) (map fst (fsp (pool_set w))) (p, w))"

text \<open>What the file of the clusters, which \<open>cluster\<close> writes last, reads of the phases.\<close>

definition generateFile :: "phase_info \<Rightarrow> unit comp" where
  "generateFile ph =
     cbind (found (ph_phaseIdentifiers ph) ''BranchInstr'') (\<lambda>_.
     cbind (found (ph_phaseIdentifiers ph) ''ComputeIntensity'') (\<lambda>_. check (ph_objValues ph \<noteq> []) UB (ret ())))"

definition exportClusters :: "interph \<Rightarrow> unit comp" where
  "exportClusters g = check (dtaPhases g \<noteq> []) UB (cfold (\<lambda>(_, ph) _. generateFile ph) (dtaPhases g) ())"

definition choose_configs :: "'s inter_env \<Rightarrow> (objective_function \<times> string) list \<Rightarrow> interph \<Rightarrow> interph comp" where
  "choose_configs env objs g =
     cbind (calcComputeIntensity g) (\<lambda>g. cbind (normalizeIdentifiers g) (\<lambda>g. cbind (interph_cluster (ne_sort env) g) (\<lambda>g.
     cbind (exportClusters g) (\<lambda>_. cbind (normalizeObjectives g) (\<lambda>g. computeBestConfigForCluster env objs g)))))"

definition results_into_tree :: "'s inter_env \<Rightarrow> 's inter \<times> world \<Rightarrow> 's inter comp" where
  "results_into_tree env = (\<lambda>(p, w).
     let g = nt_interph p
     in cbind (deref (calltree_root (ct_appl (nt_calltree p)))) (\<lambda>r.
        cbind (modifyTree r (num_clusters g) (nt_calltree p)) (\<lambda>st.
        cbind (insertTuningResultForNode env (nt_objectives p) g st) (\<lambda>st.
        cbind (exportData (tp_heap w) (nt_tuningParameters p) (nt_objectives p) g) (\<lambda>_.
        cbind (displaySavings st) (\<lambda>_. ret (p\<lparr>nt_calltree := st\<rparr>)))))))"

text \<open>After the third step the function would end without an answer.\<close>

definition inter_tuningFinished :: "'s inter_env \<Rightarrow> 's inter side \<Rightarrow> (bool \<times> 's inter side) comp" where
  "inter_tuningFinished env s =
     (let p = plugin_state s; w = tuning_world s
      in if nt_tuningStep p = 1
         then cbind (loop (file_body env) (0, p, w)) (\<lambda>(_, p, w).
              cbind (choose_configs env (nt_objectives p) (nt_interph p)) (\<lambda>g.
                ret (False, set_inter (p\<lparr>nt_interph := g\<rparr>) w s)))
         else if nt_tuningStep p = 2
         then cbind (file_scenarios env (p, w)) (\<lambda>(p, w). ret (False, set_inter p w s))
         else if nt_tuningStep p = 3
         then cbind (results_into_tree env (p, w)) (\<lambda>p.
              cbind (file_scenarios env (p, w)) (\<lambda>(p, w).
              cbind (insertResultForNode (nt_objectives p) (nt_interph p) (nt_calltree p)) (\<lambda>st.
                ret (True, set_inter (p\<lparr>nt_calltree := st\<rparr>) w s))))
         else fail UB)"

definition inter_getAdvice :: "'s inter_env \<Rightarrow> 's inter side \<Rightarrow> (bool option \<times> 's inter side) comp" where
  "inter_getAdvice env s =
     cbind (ie_generate (ne_base env) (nt_calltree (plugin_state s)) (tp_heap (tuning_world s))) (\<lambda>_. ret (None, s))"

definition inter_finalize :: "'s inter side \<Rightarrow> 's inter side comp" where
  "inter_finalize s = ret (s\<lparr>plugin_state := (plugin_state s)\<lparr>nt_searchAlgorithm := None\<rparr>\<rparr>)"

definition interphase_plugin :: "'s inter_env \<Rightarrow> 's inter plugin" where
  "interphase_plugin env =
     \<lparr>pl_initialize = inter_initialize env, pl_startTuningStep = inter_startTuningStep env,
      pl_analysisRequired = inter_analysisRequired, pl_createScenarios = inter_createScenarios env,
      pl_prepareScenarios = inter_prepareScenarios, pl_defineExperiment = inter_defineExperiment,
      pl_restartRequired = inter_restartRequired, pl_searchFinished = inter_searchFinished env,
      pl_finishTuningStep = inter_finishTuningStep, pl_tuningFinished = inter_tuningFinished env,
      pl_getAdvice = inter_getAdvice env, pl_finalize = inter_finalize\<rparr>"

end
