(* ===== verification/DensityClusters.thy ===== *)
theory DensityClusters
  imports PhaseClusters
begin

text \<open>
  The clustering of \<open>PhaseClusters\<close> is the density clustering it means to be: phases with three others
  within the radius are dense; adjacent dense phases share a cluster, a cluster is connected through dense phases, the
  others belong to a cluster of a dense phase next to them, or to none. Visited phases and labels are looked at as a
  set and a function first.
\<close>

section \<open>Density\<close>

definition near :: "distances \<Rightarrow> dbl \<Rightarrow> phase_num \<Rightarrow> phase_num set" where
  "near dm eps p = set (near_keys dm eps p)"

definition dense :: "distances \<Rightarrow> dbl \<Rightarrow> phase_num \<Rightarrow> bool" where
  "dense dm eps p \<longleftrightarrow> MIN_POINTS \<le> length (near_keys dm eps p)"

definition links :: "distances \<Rightarrow> dbl \<Rightarrow> (phase_num \<times> phase_num) set" where
  "links dm eps = {(p, q). dense dm eps p \<and> dense dm eps q \<and> q \<in> near dm eps p}"

definition near_ok :: "distances \<Rightarrow> dbl \<Rightarrow> phase_num set \<Rightarrow> bool" where
  "near_ok dm eps K \<longleftrightarrow> (\<forall>p q. q \<in> near dm eps p \<longrightarrow> p \<in> K \<and> q \<in> K \<and> p \<in> near dm eps q)"

lemma near_okD: "near_ok dm eps K \<Longrightarrow> q \<in> near dm eps p \<Longrightarrow> p \<in> K \<and> q \<in> K \<and> p \<in> near dm eps q"
  by (simp add: near_ok_def)

text \<open>
  What holds of a set of visited phases and their labels: the labels below \<open>c\<close> are complete clusters.
\<close>

definition divided :: "distances \<Rightarrow> dbl \<Rightarrow> int \<Rightarrow> phase_num set \<Rightarrow> (phase_num \<Rightarrow> int) \<Rightarrow> bool" where
  "divided dm eps c V lab \<longleftrightarrow>
     (\<forall>p \<in> V. lab p = NOISE \<or> 1 \<le> lab p \<and> lab p < c) \<and>
     (\<forall>p \<in> V. dense dm eps p \<longrightarrow> lab p \<noteq> NOISE) \<and>
     (\<forall>p \<in> V. \<forall>q \<in> near dm eps p. dense dm eps p \<longrightarrow> q \<in> V \<and> 1 \<le> lab q \<and> (dense dm eps q \<longrightarrow> lab q = lab p)) \<and>
     (\<forall>p \<in> V. 1 \<le> lab p \<longrightarrow> (\<exists>q \<in> V. dense dm eps q \<and> lab q = lab p \<and> (p = q \<or> p \<in> near dm eps q))) \<and>
     (\<forall>p \<in> V. \<forall>q \<in> V. dense dm eps p \<and> dense dm eps q \<and> lab p = lab q \<longrightarrow> (p, q) \<in> (links dm eps)\<^sup>*) \<and>
     (\<forall>i. 1 \<le> i \<and> i < c \<longrightarrow> (\<exists>p \<in> V. dense dm eps p \<and> lab p = i))"

text \<open>
  While cluster \<open>c\<close> is expanded from the dense phase \<open>s\<close>: \<open>W\<close> is the growing vector, its first \<open>n\<close> elements are done.
\<close>

definition expanding ::
  "distances \<Rightarrow> dbl \<Rightarrow> int \<Rightarrow> phase_num \<Rightarrow> phase_num set \<Rightarrow> (phase_num \<Rightarrow> int) \<Rightarrow> nat \<Rightarrow> phase_num list \<Rightarrow>
   phase_num set \<Rightarrow> (phase_num \<Rightarrow> int) \<Rightarrow> bool" where
  "expanding dm eps c s V0 lab0 n W V lab \<longleftrightarrow>
     s \<in> V \<and> dense dm eps s \<and> lab s = c \<and> V0 \<subseteq> V \<and>
     (\<forall>p \<in> V. lab p = NOISE \<or> 1 \<le> lab p \<and> lab p \<le> c) \<and>
     (\<forall>p \<in> V. lab p \<noteq> c \<longrightarrow> p \<in> V0 \<and> lab0 p = lab p) \<and>
     (\<forall>p \<in> V0. lab p = c \<longrightarrow> lab0 p = NOISE) \<and>
     (\<forall>p \<in> V. dense dm eps p \<longrightarrow> lab p \<noteq> NOISE) \<and>
     (\<forall>p \<in> V. dense dm eps p \<and> lab p = c \<longrightarrow> near dm eps p \<subseteq> set W \<and> (s, p) \<in> (links dm eps)\<^sup>*) \<and>
     (\<forall>w \<in> set (take n W). w \<in> V \<and> 1 \<le> lab w) \<and>
     (\<forall>w \<in> set W. \<exists>q \<in> V. dense dm eps q \<and> lab q = c \<and> w \<in> near dm eps q) \<and>
     (\<forall>p \<in> V. lab p = c \<longrightarrow> (\<exists>q \<in> V. dense dm eps q \<and> lab q = c \<and> (p = q \<or> p \<in> near dm eps q)))"

lemma links_step: "(s, q) \<in> (links dm eps)\<^sup>* \<Longrightarrow> dense dm eps q \<Longrightarrow> dense dm eps p \<Longrightarrow> p \<in> near dm eps q \<Longrightarrow> (s, p) \<in> (links dm eps)\<^sup>*"
  unfolding links_def by (rule rtrancl_into_rtrancl) auto

lemma dividedD:
  assumes "divided dm eps c V lab" and "p \<in> V"
  shows "lab p = NOISE \<or> 1 \<le> lab p \<and> lab p < c" and "dense dm eps p \<Longrightarrow> lab p \<noteq> NOISE"
    and "q \<in> near dm eps p \<Longrightarrow> dense dm eps p \<Longrightarrow> q \<in> V \<and> 1 \<le> lab q \<and> (dense dm eps q \<longrightarrow> lab q = lab p)"
    and "1 \<le> lab p \<Longrightarrow> \<exists>q \<in> V. dense dm eps q \<and> lab q = lab p \<and> (p = q \<or> p \<in> near dm eps q)"
    and "q \<in> V \<Longrightarrow> dense dm eps p \<Longrightarrow> dense dm eps q \<Longrightarrow> lab p = lab q \<Longrightarrow> (p, q) \<in> (links dm eps)\<^sup>*"
  using assms unfolding divided_def by blast+

lemma expandingD:
  assumes "expanding dm eps c s V0 lab0 n W V lab"
  shows "s \<in> V \<and> dense dm eps s \<and> lab s = c \<and> V0 \<subseteq> V"
    and "p \<in> V \<Longrightarrow> lab p = NOISE \<or> 1 \<le> lab p \<and> lab p \<le> c"
    and "p \<in> V \<Longrightarrow> lab p \<noteq> c \<Longrightarrow> p \<in> V0 \<and> lab0 p = lab p"
    and "p \<in> V0 \<Longrightarrow> lab p = c \<Longrightarrow> lab0 p = NOISE"
    and "p \<in> V \<Longrightarrow> dense dm eps p \<Longrightarrow> lab p \<noteq> NOISE"
    and "p \<in> V \<Longrightarrow> dense dm eps p \<Longrightarrow> lab p = c \<Longrightarrow> near dm eps p \<subseteq> set W \<and> (s, p) \<in> (links dm eps)\<^sup>*"
    and "w \<in> set (take n W) \<Longrightarrow> w \<in> V \<and> 1 \<le> lab w"
    and "w \<in> set W \<Longrightarrow> \<exists>q \<in> V. dense dm eps q \<and> lab q = c \<and> w \<in> near dm eps q"
    and "p \<in> V \<Longrightarrow> lab p = c \<Longrightarrow> \<exists>q \<in> V. dense dm eps q \<and> lab q = c \<and> (p = q \<or> p \<in> near dm eps q)"
  using assms unfolding expanding_def by blast+

lemma expandingI:
  assumes "s \<in> V" "dense dm eps s" "lab s = c" "V0 \<subseteq> V"
    and "\<And>p. p \<in> V \<Longrightarrow> lab p = NOISE \<or> 1 \<le> lab p \<and> lab p \<le> c"
    and "\<And>p. p \<in> V \<Longrightarrow> lab p \<noteq> c \<Longrightarrow> p \<in> V0 \<and> lab0 p = lab p"
    and "\<And>p. p \<in> V0 \<Longrightarrow> lab p = c \<Longrightarrow> lab0 p = NOISE"
    and "\<And>p. p \<in> V \<Longrightarrow> dense dm eps p \<Longrightarrow> lab p \<noteq> NOISE"
    and "\<And>p. p \<in> V \<Longrightarrow> dense dm eps p \<Longrightarrow> lab p = c \<Longrightarrow> near dm eps p \<subseteq> set W \<and> (s, p) \<in> (links dm eps)\<^sup>*"
    and "\<And>w. w \<in> set (take n W) \<Longrightarrow> w \<in> V \<and> 1 \<le> lab w"
    and "\<And>w. w \<in> set W \<Longrightarrow> \<exists>q \<in> V. dense dm eps q \<and> lab q = c \<and> w \<in> near dm eps q"
    and "\<And>p. p \<in> V \<Longrightarrow> lab p = c \<Longrightarrow> \<exists>q \<in> V. dense dm eps q \<and> lab q = c \<and> (p = q \<or> p \<in> near dm eps q)"
  shows "expanding dm eps c s V0 lab0 n W V lab"
  unfolding expanding_def by (intro conjI ballI impI) (use assms in blast)+

lemma expanding_starts:
  assumes d: "divided dm eps c V lab" and s: "s \<notin> V" "dense dm eps s" and c: "1 \<le> c"
  shows "expanding dm eps c s V lab 0 (near_keys dm eps s) (insert s V) (lab(s := c))"
proof (rule expandingI)
  show "(lab(s := c)) p = NOISE \<or> 1 \<le> (lab(s := c)) p \<and> (lab(s := c)) p \<le> c" if "p \<in> insert s V" for p
    using that dividedD(1) [OF d, of p] c by auto
  show "(lab(s := c)) p \<noteq> NOISE" if "p \<in> insert s V" "dense dm eps p" for p
    using that dividedD(2) [OF d, of p] c by (auto simp: NOISE_def)
  have "\<not> (p \<in> V \<and> lab p = c)" for p using dividedD(1) [OF d, of p] c by (auto simp: NOISE_def)
  then have only: "p = s" if "p \<in> insert s V" "(lab(s := c)) p = c" for p
    using that by (auto split: if_splits)
  show "near dm eps p \<subseteq> set (near_keys dm eps s) \<and> (s, p) \<in> (links dm eps)\<^sup>*"
    if "p \<in> insert s V" "(lab(s := c)) p = c" for p using only [OF that] by (simp add: near_def)
  show "\<exists>q \<in> insert s V. dense dm eps q \<and> (lab(s := c)) q = c \<and> (p = q \<or> p \<in> near dm eps q)"
    if "p \<in> insert s V" "(lab(s := c)) p = c" for p
    unfolding only [OF that] using s(2) by (intro bexI [of _ s]) simp_all
  show "lab p = NOISE" if "p \<in> V" "(lab(s := c)) p = c" for p using only [OF insertI2 [OF that(1)] that(2)] that(1) s(1) by simp
qed (use s in \<open>auto simp: near_def\<close>)

text \<open>The three kinds of turns: a phase already labelled, one that was noise, one not visited yet.\<close>

lemma take_turn: "n < length W \<Longrightarrow> set (take (n + 1) (W @ X)) = insert (W ! n) (set (take n W))"
  by (simp add: take_Suc_conv_app_nth)

lemma expanding_labelled:
  assumes e: "expanding dm eps c s V0 lab0 n W V lab" and n: "n < length W" and p: "W ! n \<in> V" "1 \<le> lab (W ! n)"
  shows "expanding dm eps c s V0 lab0 (n + 1) W V lab"
proof (rule expandingI)
  show "w \<in> V \<and> 1 \<le> lab w" if "w \<in> set (take (n + 1) W)" for w
    using that take_turn [OF n, of "[]"] expandingD(7) [OF e, of w] p by auto
qed (use expandingD [OF e] in \<open>(assumption | blast)+\<close>)

lemma expanding_noise:
  assumes e: "expanding dm eps c s V0 lab0 n W V lab" and n: "n < length W" and c: "1 \<le> c"
    and p: "W ! n \<in> V" "lab (W ! n) = NOISE"
  shows "expanding dm eps c s V0 lab0 (n + 1) W V (lab(W ! n := c))"
proof -
  let ?p = "W ! n"
  have old: "?p \<in> V0" "lab0 ?p = NOISE" "\<not> dense dm eps ?p" "?p \<noteq> s"
    using expandingD(3,5) [OF e p(1)] expandingD(1) [OF e] p c by (auto simp: NOISE_def)
  have other: "(lab(?p := c)) q = lab q" if "dense dm eps q" for q using that old(3) by auto
  have lift: "\<exists>q \<in> V. dense dm eps q \<and> (lab(?p := c)) q = c \<and> P q" if "\<exists>q \<in> V. dense dm eps q \<and> lab q = c \<and> P q" for P
    using that other by metis
  show ?thesis
  proof (rule expandingI)
    show "w \<in> V \<and> 1 \<le> (lab(?p := c)) w" if "w \<in> set (take (n + 1) W)" for w
      using that take_turn [OF n, of "[]"] expandingD(7) [OF e, of w] p c by auto
    show "\<exists>q \<in> V. dense dm eps q \<and> (lab(?p := c)) q = c \<and> w \<in> near dm eps q" if "w \<in> set W" for w
      using expandingD(8) [OF e that] by (rule lift)
    show "\<exists>q \<in> V. dense dm eps q \<and> (lab(?p := c)) q = c \<and> (q' = q \<or> q' \<in> near dm eps q)" if q': "q' \<in> V" "(lab(?p := c)) q' = c" for q'
    proof (rule lift, cases "q' = ?p")
      case True
      with expandingD(8) [OF e nth_mem [OF n]] show "\<exists>q \<in> V. dense dm eps q \<and> lab q = c \<and> (q' = q \<or> q' \<in> near dm eps q)" by blast
    next
      case False
      with expandingD(9) [OF e q'(1)] q'(2) show "\<exists>q \<in> V. dense dm eps q \<and> lab q = c \<and> (q' = q \<or> q' \<in> near dm eps q)" by simp
    qed
    show "near dm eps q \<subseteq> set W \<and> (s, q) \<in> (links dm eps)\<^sup>*" if "q \<in> V" "dense dm eps q" "(lab(?p := c)) q = c" for q
      using expandingD(6) [OF e that(1,2)] that other by simp
    show "(lab(?p := c)) q = NOISE \<or> 1 \<le> (lab(?p := c)) q \<and> (lab(?p := c)) q \<le> c" if "q \<in> V" for q
      using expandingD(2) [OF e that] c by simp
    show "(lab(?p := c)) q \<noteq> NOISE" if "q \<in> V" "dense dm eps q" for q
      using expandingD(5) [OF e that] other [OF that(2)] by simp
    show "q \<in> V0 \<and> lab0 q = (lab(?p := c)) q" if "q \<in> V" "(lab(?p := c)) q \<noteq> c" for q
      using expandingD(3) [OF e that(1)] that(2) by (auto split: if_splits)
    show "lab0 q = NOISE" if "q \<in> V0" "(lab(?p := c)) q = c" for q
      using expandingD(4) [OF e that(1)] that(2) old by (auto split: if_splits)
  qed (use expandingD(1) [OF e] old in auto)
qed

lemma expanding_visit:
  assumes e: "expanding dm eps c s V0 lab0 n W V lab" and n: "n < length W" and c: "1 \<le> c" and p: "W ! n \<notin> V"
  shows "expanding dm eps c s V0 lab0 (n + 1) (W @ (if dense dm eps (W ! n) then near_keys dm eps (W ! n) else []))
    (insert (W ! n) V) (lab(W ! n := c))" (is "expanding _ _ _ _ _ _ _ ?W ?V ?lab")
proof -
  let ?p = "W ! n"
  have w: "\<exists>q \<in> V. dense dm eps q \<and> lab q = c \<and> ?p \<in> near dm eps q" by (rule expandingD(8) [OF e nth_mem [OF n]])
  have same: "?lab q = lab q" if "q \<in> V" for q using that p by auto
  have linked: "(s, ?p) \<in> (links dm eps)\<^sup>*" if "dense dm eps ?p"
    using w expandingD(6) [OF e] that by (blast intro: links_step)
  show ?thesis
  proof (rule expandingI)
    show "q \<in> ?V \<and> 1 \<le> ?lab q" if "q \<in> set (take (n + 1) ?W)" for q
      using that take_turn [OF n] expandingD(7) [OF e, of q] c by auto
    show "\<exists>r \<in> ?V. dense dm eps r \<and> ?lab r = c \<and> q \<in> near dm eps r" if "q \<in> set ?W" for q
    proof (cases "q \<in> set W")
      case True
      with expandingD(8) [OF e this] same show ?thesis by auto
    next
      case False
      then show ?thesis using that by (auto simp: near_def split: if_splits)
    qed
    show "\<exists>q \<in> ?V. dense dm eps q \<and> ?lab q = c \<and> (r = q \<or> r \<in> near dm eps q)" if r: "r \<in> ?V" "?lab r = c" for r
    proof (cases "r = ?p")
      case True
      with w same show ?thesis by auto
    next
      case False
      with r expandingD(9) [OF e, of r] same show ?thesis by auto
    qed
    show "near dm eps q \<subseteq> set ?W \<and> (s, q) \<in> (links dm eps)\<^sup>*" if q: "q \<in> ?V" "dense dm eps q" "?lab q = c" for q
    proof (cases "q = ?p")
      case True
      with q linked show ?thesis by (auto simp: near_def)
    next
      case False
      with q expandingD(6) [OF e, of q] show ?thesis by auto
    qed
    show "?lab q = NOISE \<or> 1 \<le> ?lab q \<and> ?lab q \<le> c" if "q \<in> ?V" for q
      using expandingD(2) [OF e, of q] that c by auto
    show "?lab q \<noteq> NOISE" if "q \<in> ?V" "dense dm eps q" for q
      using expandingD(5) [OF e, of q] that c by (auto simp: NOISE_def)
    show "q \<in> V0 \<and> lab0 q = ?lab q" if "q \<in> ?V" "?lab q \<noteq> c" for q
      using expandingD(3) [OF e, of q] that by auto
    show "lab0 q = NOISE" if "q \<in> V0" "?lab q = c" for q
      using expandingD(4) [OF e that(1)] that(2) same [of q] expandingD(1) [OF e] that(1) by auto
  qed (use expandingD(1) [OF e] p in auto)
qed

text \<open>When the whole vector is done, the cluster is complete.\<close>

lemma expanding_ends:
  assumes d: "divided dm eps c V0 lab0" and e: "expanding dm eps c s V0 lab0 (length W) W V lab" and c: "1 \<le> c"
    and sym: "near_ok dm eps K"
  shows "divided dm eps (c + 1) V lab"
proof -
  have old: "p \<in> V0 \<and> lab0 p = lab p" if "p \<in> V" "lab p \<noteq> c" for p using expandingD(3) [OF e that] .
  have kept: "lab p = lab0 p" if p: "p \<in> V0" "1 \<le> lab0 p" for p
  proof -
    have "lab p \<noteq> c" using expandingD(4) [OF e p(1)] p(2) by (auto simp: NOISE_def)
    then show ?thesis using old [of p] p(1) expandingD(1) [OF e] by auto
  qed
  have links_sym: "sym ((links dm eps)\<^sup>*)"
    by (rule sym_rtrancl) (use near_okD [OF sym] in \<open>auto simp: sym_def links_def\<close>)
  have closed: "q \<in> V \<and> 1 \<le> lab q \<and> (dense dm eps q \<longrightarrow> lab q = lab p)" if p: "p \<in> V" "dense dm eps p" and q: "q \<in> near dm eps p" for p q
  proof (cases "lab p = c")
    case True
    then have W: "q \<in> V \<and> 1 \<le> lab q" using expandingD(6) [OF e p] expandingD(7) [OF e, of q] q by auto
    have "lab q = c" if "dense dm eps q"
    proof (rule ccontr)
      assume other: "lab q \<noteq> c"
      with old W have q0: "q \<in> V0" "lab0 q = lab q" by auto
      have "p \<in> near dm eps q" using near_okD [OF sym q] by blast
      from dividedD(3) [OF d q0(1) this that] have p0: "p \<in> V0" "1 \<le> lab0 p" "lab0 p = lab0 q" using p(2) by auto
      from kept [OF p0(1,2)] p0(3) q0(2) True other show False by simp
    qed
    with W True show ?thesis by simp
  next
    case False
    with old p have p0: "p \<in> V0" "lab0 p = lab p" by auto
    from dividedD(3) [OF d p0(1) q p(2)] kept [of q] p0 expandingD(1) [OF e] show ?thesis by auto
  qed
  show ?thesis
    unfolding divided_def
  proof (intro conjI ballI allI impI)
    fix p q assume pq: "p \<in> V" "q \<in> V" "dense dm eps p \<and> dense dm eps q \<and> lab p = lab q"
    show "(p, q) \<in> (links dm eps)\<^sup>*"
    proof (cases "lab p = c")
      case True
      then have "(s, p) \<in> (links dm eps)\<^sup>*" "(s, q) \<in> (links dm eps)\<^sup>*"
        using expandingD(6) [OF e] pq by auto
      then show ?thesis using links_sym by (meson symD rtrancl_trans)
    next
      case False
      then show ?thesis using old [of p] old [of q] pq dividedD(5) [OF d, of p q] by auto
    qed
  next
    fix i assume i: "1 \<le> i \<and> i < c + 1"
    show "\<exists>p \<in> V. dense dm eps p \<and> lab p = i"
    proof (cases "i = c")
      case True
      then show ?thesis using expandingD(1) [OF e] by auto
    next
      case False
      with i d obtain p where "p \<in> V0" "dense dm eps p" "lab0 p = i" unfolding divided_def by (metis zle_add1_eq_le order_neq_le_trans)
      with kept [of p] i expandingD(1) [OF e] show ?thesis by auto
    qed
  next
    fix p assume p: "p \<in> V" "1 \<le> lab p"
    show "\<exists>q \<in> V. dense dm eps q \<and> lab q = lab p \<and> (p = q \<or> p \<in> near dm eps q)"
    proof (cases "lab p = c")
      case True
      then show ?thesis using expandingD(9) [OF e p(1)] by simp
    next
      case False
      with old p have p0: "p \<in> V0" "lab0 p = lab p" by auto
      from dividedD(4) [OF d p0(1)] p p0 obtain q where "q \<in> V0" "dense dm eps q" "lab0 q = lab p" "p = q \<or> p \<in> near dm eps q" by auto
      with kept [of q] p expandingD(1) [OF e] show ?thesis by auto
    qed
  next
    fix p assume "p \<in> V"
    then show "lab p = NOISE \<or> 1 \<le> lab p \<and> lab p < c + 1" using expandingD(2) [OF e] by fastforce
  qed (use closed expandingD(5) [OF e] in blast)+
qed

lemma divided_noise:
  assumes d: "divided dm eps c V lab" and p: "p \<notin> V" "\<not> dense dm eps p" and sym: "near_ok dm eps K"
  shows "divided dm eps c (insert p V) (lab(p := NOISE))"
proof -
  have "p \<noteq> q" if "q \<in> V" for q using that p by auto
  note [simp] = this this [symmetric]
  show ?thesis
    unfolding divided_def
  proof (intro conjI ballI allI impI)
    fix r q assume "r \<in> insert p V" "q \<in> near dm eps r" "dense dm eps r"
    with dividedD(3) [OF d, of r q] p
    show "q \<in> insert p V" "1 \<le> (lab(p := NOISE)) q" "dense dm eps q \<Longrightarrow> (lab(p := NOISE)) q = (lab(p := NOISE)) r" by auto
  next
    fix r assume r: "r \<in> insert p V" "1 \<le> (lab(p := NOISE)) r"
    then have "r \<in> V" "1 \<le> lab r" by (auto simp: NOISE_def split: if_splits)
    with dividedD(4) [OF d] show "\<exists>q \<in> insert p V. dense dm eps q \<and> (lab(p := NOISE)) q = (lab(p := NOISE)) r \<and> (r = q \<or> r \<in> near dm eps q)"
      by fastforce
  next
    fix i assume "1 \<le> i \<and> i < c"
    then obtain q where "q \<in> V" "dense dm eps q" "lab q = i" using d unfolding divided_def by blast
    then show "\<exists>q \<in> insert p V. dense dm eps q \<and> (lab(p := NOISE)) q = i" by auto
  next
    fix q r assume "q \<in> insert p V" "r \<in> insert p V" "dense dm eps q \<and> dense dm eps r \<and> (lab(p := NOISE)) q = (lab(p := NOISE)) r"
    then show "(q, r) \<in> (links dm eps)\<^sup>*" using p dividedD(5) [OF d, of q r] by auto
  qed (use dividedD(1,2) [OF d] p in auto)
qed

section \<open>The code's loop\<close>

definition visited :: "phases \<Rightarrow> phase_num set" where
  "visited ps = {p. \<exists>x. sm_find ps p = Some x \<and> ph_visited x}"

definition label :: "phases \<Rightarrow> phase_num \<Rightarrow> int" where
  "label ps p = (case sm_find ps p of None \<Rightarrow> UNCLASSIFIED | Some x \<Rightarrow> ph_clusterID x)"

definition vec :: "phases \<Rightarrow> phase_num \<Rightarrow> phase_num list" where
  "vec ps p = (case sm_find ps p of None \<Rightarrow> [] | Some x \<Rightarrow> ph_neighbors x)"

text \<open>A phase but for what the clustering writes.\<close>

definition bare :: "phase_info \<Rightarrow> phase_info" where
  "bare x = x\<lparr>ph_visited := False, ph_neighbors := [], ph_clusterID := UNCLASSIFIED\<rparr>"

definition tidy :: "phases \<Rightarrow> phases \<Rightarrow> bool" where
  "tidy ps0 ps \<longleftrightarrow> sm_wf ps \<and> (\<forall>p. map_option bare (sm_find ps p) = map_option bare (sm_find ps0 p)) \<and>
     (\<forall>p x. sm_find ps p = Some x \<and> \<not> ph_visited x \<longrightarrow> ph_neighbors x = [] \<and> ph_clusterID x = UNCLASSIFIED)"

lemma tidy_dom: "tidy ps0 ps \<Longrightarrow> sm_find ps0 p = Some x0 \<Longrightarrow> \<exists>x. sm_find ps p = Some x \<and> bare x = bare x0"
  unfolding tidy_def by (metis (mono_tags, lifting) map_option_eq_Some option.simps(9))

lemma found_ret [simp]: "found m k = ret v \<longleftrightarrow> sm_find m k = Some v"
  by (auto simp: found_def deref_def split: option.split)

lemma cluster_turn:
  assumes t: "tidy ps0 ps" and p: "sm_find ps p = Some x" and centre: "centre \<in> visited ps"
  obtains ps1 ps2 where "visit_next dm eps centre p ps = ret ps1" and "join_cluster c p ps1 = ret ps2" and "tidy ps0 ps2"
    and "visited ps2 = insert p (visited ps)"
    and "label ps2 = (if label ps p = UNCLASSIFIED \<or> label ps p = NOISE then (label ps)(p := c) else label ps)"
    and "vec ps2 centre = vec ps centre @ (if p \<notin> visited ps \<and> dense dm eps p then near_keys dm eps p else [])"
proof -
  from centre obtain y where y: "sm_find ps centre = Some y" "ph_visited y" by (auto simp: visited_def)
  have bare: "bare (z\<lparr>ph_visited := v, ph_neighbors := ns, ph_clusterID := i\<rparr>) = bare z" for z v ns i by (simp add: bare_def)
  show thesis
  proof (cases "ph_visited x")
    case True
    then have v: "visit_next dm eps centre p ps = ret ps" using p by (simp add: visit_next_def found_def deref_def)
    let ?ps = "if ph_clusterID x = UNCLASSIFIED \<or> ph_clusterID x = NOISE then sm_put p (x\<lparr>ph_clusterID := c\<rparr>) ps else ps"
    have j: "join_cluster c p ps = ret ?ps" using p by (simp add: join_cluster_def found_def deref_def)
    have "bare (x\<lparr>ph_clusterID := c\<rparr>) = bare x" by (simp add: bare_def)
    then have "tidy ps0 ?ps" using t p True by (auto simp: tidy_def) (metis option.simps(9))+
    moreover have "visited ?ps = insert p (visited ps)" using p True by (auto simp: visited_def)
    moreover have "label ?ps = (if label ps p = UNCLASSIFIED \<or> label ps p = NOISE then (label ps)(p := c) else label ps)"
      using p by (auto simp: label_def fun_eq_iff)
    moreover have "vec ?ps centre = vec ps centre @ (if p \<notin> visited ps \<and> dense dm eps p then near_keys dm eps p else [])"
      using p True by (auto simp: vec_def visited_def)
    ultimately show thesis using v j that by blast
  next
    case False
    with y p have ne: "centre \<noteq> p" by auto
    have x: "ph_neighbors x = []" "ph_clusterID x = UNCLASSIFIED" using t p False unfolding tidy_def by blast+
    let ?x = "x\<lparr>ph_visited := True, ph_neighbors := near_keys dm eps p\<rparr>"
    let ?add = "if dense dm eps p then near_keys dm eps p else []"
    let ?ps1 = "if dense dm eps p then sm_put centre (y\<lparr>ph_neighbors := ph_neighbors y @ ?add\<rparr>) (sm_put p ?x ps) else sm_put p ?x ps"
    let ?ps2 = "sm_put p (?x\<lparr>ph_clusterID := c\<rparr>) ?ps1"
    have v: "visit_next dm eps centre p ps = ret ?ps1"
      using p False x y ne by (simp add: visit_next_def checkDistance_def dense_def found_def deref_def Let_def)
    have j: "join_cluster c p ?ps1 = ret ?ps2" using ne x by (simp add: join_cluster_def found_def deref_def)
    have b: "bare (?x\<lparr>ph_clusterID := c\<rparr>) = bare x" "bare (y\<lparr>ph_neighbors := ns\<rparr>) = bare y" for ns by (simp_all add: bare_def)
    have "sm_wf ?ps2" using t by (simp add: tidy_def)
    moreover have "map_option bare (sm_find ?ps2 q) = map_option bare (sm_find ps0 q)" for q
      using t p y b ne unfolding tidy_def by (cases "q = p"; cases "q = centre") (auto, (metis option.simps(9))+)
    moreover have "sm_find ?ps2 q = Some z \<Longrightarrow> \<not> ph_visited z \<Longrightarrow> ph_neighbors z = [] \<and> ph_clusterID z = UNCLASSIFIED" for q z
      using t y ne unfolding tidy_def by (cases "q = p"; cases "q = centre") (auto split: if_splits)
    ultimately have "tidy ps0 ?ps2" unfolding tidy_def by blast
    moreover have "visited ?ps2 = insert p (visited ps)" using y by (auto simp: visited_def split: if_splits)
    moreover have "label ?ps2 = (if label ps p = UNCLASSIFIED \<or> label ps p = NOISE then (label ps)(p := c) else label ps)"
      using p x y by (auto simp: label_def fun_eq_iff)
    moreover have "vec ?ps2 centre = vec ps centre @ (if p \<notin> visited ps \<and> dense dm eps p then near_keys dm eps p else [])"
      using p y False ne by (auto simp: vec_def visited_def)
    ultimately show thesis using v j that by blast
  qed
qed

lemma expand_total:
  assumes t: "tidy ps0 ps" and d: "divided dm eps c V0 lab0" and sym: "near_ok dm eps (dom (sm_find ps0))" and c: "1 \<le> c"
    and e: "expanding dm eps c s V0 lab0 0 (vec ps s) (visited ps) (label ps)"
  shows "total (loop (expand_body dm eps c s) (0, ps)) (\<lambda>(_, ps').
    tidy ps0 ps' \<and> visited ps \<subseteq> visited ps' \<and> divided dm eps (c + 1) (visited ps') (label ps'))"
proof (rule total_loop [where I = "\<lambda>(n, ps'). tidy ps0 ps' \<and> visited ps \<subseteq> visited ps' \<and> n \<le> length (vec ps' s) \<and>
      expanding dm eps c s V0 lab0 n (vec ps' s) (visited ps') (label ps')"
    and r = "inv_image (less_than <*lex*> less_than) (\<lambda>(n, ps'). (card (dom (sm_find ps0) - visited ps'), length (vec ps' s) - n))"])
  show "case (0, ps) of (n, ps') \<Rightarrow> tidy ps0 ps' \<and> visited ps \<subseteq> visited ps' \<and> n \<le> length (vec ps' s) \<and>
      expanding dm eps c s V0 lab0 n (vec ps' s) (visited ps') (label ps')" using t e by simp
next
  fix st
  assume I: "case st of (n, ps') \<Rightarrow> tidy ps0 ps' \<and> visited ps \<subseteq> visited ps' \<and> n \<le> length (vec ps' s) \<and>
      expanding dm eps c s V0 lab0 n (vec ps' s) (visited ps') (label ps')"
  obtain n ps1 where st: "st = (n, ps1)" by (cases st)
  with I have t1: "tidy ps0 ps1" and v1: "visited ps \<subseteq> visited ps1" and n1: "n \<le> length (vec ps1 s)"
    and e1: "expanding dm eps c s V0 lab0 n (vec ps1 s) (visited ps1) (label ps1)" by auto
  have s: "s \<in> visited ps1" using expandingD(1) [OF e1] by blast
  then obtain y where y: "sm_find ps1 s = Some y" "vec ps1 s = ph_neighbors y" by (auto simp: visited_def vec_def)
  show "total (expand_body dm eps c s st) (\<lambda>(again, t). if again
      then (case t of (n, ps') \<Rightarrow> tidy ps0 ps' \<and> visited ps \<subseteq> visited ps' \<and> n \<le> length (vec ps' s) \<and>
        expanding dm eps c s V0 lab0 n (vec ps' s) (visited ps') (label ps')) \<and>
        (t, st) \<in> inv_image (less_than <*lex*> less_than) (\<lambda>(n, ps'). (card (dom (sm_find ps0) - visited ps'), length (vec ps' s) - n))
      else (case t of (_, ps') \<Rightarrow> tidy ps0 ps' \<and> visited ps \<subseteq> visited ps' \<and> divided dm eps (c + 1) (visited ps') (label ps')))"
  proof (cases "n < length (vec ps1 s)")
    case False
    then have "expand_body dm eps c s st = ret (False, (n, ps1))"
      using y st by (simp add: expand_body_def found_def deref_def)
    moreover have "divided dm eps (c + 1) (visited ps1) (label ps1)"
      using e1 n1 False by (intro expanding_ends [OF d _ c sym, where W = "vec ps1 s" and s = s]) simp
    ultimately show ?thesis using t1 v1 by simp
  next
    case True
    let ?p = "vec ps1 s ! n"
    from expandingD(8) [OF e1 nth_mem [OF True]] near_okD [OF sym] have "?p \<in> dom (sm_find ps0)" by blast
    then obtain x where x: "sm_find ps1 ?p = Some x" using tidy_dom [OF t1] by blast
    from cluster_turn [OF t1 x s] obtain ps2 ps3 where
      run: "visit_next dm eps s ?p ps1 = ret ps2" "join_cluster c ?p ps2 = ret ps3" and t3: "tidy ps0 ps3"
      and v3: "visited ps3 = insert ?p (visited ps1)"
      and l3: "label ps3 = (if label ps1 ?p = UNCLASSIFIED \<or> label ps1 ?p = NOISE then (label ps1)(?p := c) else label ps1)"
      and w3: "vec ps3 s = vec ps1 s @ (if ?p \<notin> visited ps1 \<and> dense dm eps ?p then near_keys dm eps ?p else [])" .
    have body: "expand_body dm eps c s st = ret (True, (n + 1, ps3))"
      using y st True run by (simp add: expand_body_def found_def deref_def Let_def)
    have e3: "expanding dm eps c s V0 lab0 (n + 1) (vec ps3 s) (visited ps3) (label ps3)"
    proof (cases "?p \<in> visited ps1")
      case visited: True
      then have l: "label ps1 ?p \<noteq> UNCLASSIFIED" using expandingD(2) [OF e1 visited] by (auto simp: UNCLASSIFIED_def NOISE_def)
      show ?thesis
      proof (cases "label ps1 ?p = NOISE")
        case True
        then show ?thesis using expanding_noise [OF e1 \<open>n < _\<close> c visited] visited v3 l3 w3 by (simp add: insert_absorb)
      next
        case False
        then have "1 \<le> label ps1 ?p" using expandingD(2) [OF e1 visited] by simp
        from expanding_labelled [OF e1 \<open>n < _\<close> visited this] False l visited v3 l3 w3 show ?thesis by (simp add: insert_absorb)
      qed
    next
      case False
      then have "label ps1 ?p = UNCLASSIFIED" using t1 x unfolding tidy_def visited_def label_def by auto
      then show ?thesis using expanding_visit [OF e1 True c False] False v3 l3 w3 by simp
    qed
    have smaller: "((n + 1, ps3), st) \<in> inv_image (less_than <*lex*> less_than)
        (\<lambda>(n, ps'). (card (dom (sm_find ps0) - visited ps'), length (vec ps' s) - n))"
    proof (cases "?p \<in> visited ps1")
      case visited: True
      then show ?thesis using v3 w3 True st by (simp add: insert_absorb)
    next
      case False
      have "card (dom (sm_find ps0) - visited ps3) < card (dom (sm_find ps0) - visited ps1)"
        using \<open>?p \<in> dom (sm_find ps0)\<close> False v3
        by (intro psubset_card_mono) (auto simp: keys_sm_find [symmetric])
      then show ?thesis using st by simp
    qed
    show ?thesis using body e3 smaller t3 v1 v3 w3 True by auto
  qed
qed (intro wf_inv_image wf_lex_prod wf_less_than)

lemma divided_card:
  assumes "divided dm eps c V lab" and "finite V"
  shows "c \<le> int (card V) + 1"
proof -
  have "{1..<c} \<subseteq> lab ` V" using assms(1) unfolding divided_def by force
  from card_mono [OF finite_imageI [OF assms(2)] this] card_image_le [OF assms(2), of lab] show ?thesis by simp
qed

lemma cluster_phase_total:
  assumes t: "tidy ps0 ps" and d: "divided dm eps c (visited ps) (label ps)" and sym: "near_ok dm eps (dom (sm_find ps0))"
    and c: "1 \<le> c" and p: "p \<in> dom (sm_find ps0)" and few: "int (card (dom (sm_find ps0))) < INT_MAX"
  shows "total (cluster_phase dm eps p (c, ps)) (\<lambda>(c', ps'). 1 \<le> c' \<and> tidy ps0 ps' \<and>
    divided dm eps c' (visited ps') (label ps') \<and> insert p (visited ps) \<subseteq> visited ps')"
proof -
  from p tidy_dom [OF t] obtain x where x: "sm_find ps p = Some x" by blast
  show ?thesis
  proof (cases "ph_visited x")
    case True
    then show ?thesis using x t d c by (auto simp: cluster_phase_def found_def deref_def visited_def)
  next
    case False
    then have new: "p \<notin> visited ps" and blank: "ph_neighbors x = []" "ph_clusterID x = UNCLASSIFIED"
      using x t by (auto simp: visited_def tidy_def)
    have mark: "tidy ps0 (sm_put p (x\<lparr>ph_visited := True, ph_neighbors := near_keys dm eps p, ph_clusterID := i\<rparr>) ps1)" "visited (sm_put p (x\<lparr>ph_visited := True, ph_neighbors := near_keys dm eps p, ph_clusterID := i\<rparr>) ps1) = insert p (visited ps)"
      "label (sm_put p (x\<lparr>ph_visited := True, ph_neighbors := near_keys dm eps p, ph_clusterID := i\<rparr>) ps1) = (label ps)(p := i)"
      "vec (sm_put p (x\<lparr>ph_visited := True, ph_neighbors := near_keys dm eps p, ph_clusterID := i\<rparr>) ps1) p = near_keys dm eps p"
      if ps1: "sm_wf ps1" "\<And>q. q \<noteq> p \<Longrightarrow> sm_find ps1 q = sm_find ps q" for i ps1
    proof -
      let ?ps = "sm_put p (x\<lparr>ph_visited := True, ph_neighbors := near_keys dm eps p, ph_clusterID := i\<rparr>) ps1"
      have "map_option bare (sm_find ?ps q) = map_option bare (sm_find ps0 q)" for q
        using t x ps1 unfolding tidy_def by (cases "q = p") (auto simp: bare_def [of "x\<lparr>ph_visited := _, ph_neighbors := _, ph_clusterID := _\<rparr>"] bare_def [of x, symmetric], metis option.simps(9))
      then show "tidy ps0 ?ps" using t ps1 unfolding tidy_def by auto
      show "visited ?ps = insert p (visited ps)" using ps1 by (auto simp: visited_def split: if_splits)
      show "label ?ps = (label ps)(p := i)" using ps1 by (auto simp: label_def fun_eq_iff)
      show "vec ?ps p = near_keys dm eps p" by (simp add: vec_def)
    qed
    have wf: "sm_wf ps" using t by (simp add: tidy_def)
    show ?thesis
    proof (cases "dense dm eps p")
      case False
      then have "cluster_phase dm eps p (c, ps) =
          ret (c, sm_put p (x\<lparr>ph_visited := True, ph_neighbors := near_keys dm eps p, ph_clusterID := NOISE\<rparr>) ps)"
        using x blank \<open>\<not> ph_visited x\<close> by (simp add: cluster_phase_def found_def deref_def checkDistance_def dense_def Let_def)
      then show ?thesis using mark [OF wf] divided_noise [OF d new False sym] c by (simp add: subset_insertI)
    next
      case True
      let ?x = "x\<lparr>ph_visited := True, ph_neighbors := near_keys dm eps p\<rparr>"
      let ?ps = "sm_put p (?x\<lparr>ph_clusterID := c\<rparr>) (sm_put p ?x ps)"
      have m: "tidy ps0 ?ps" "visited ?ps = insert p (visited ps)" "label ?ps = (label ps)(p := c)" "vec ?ps p = near_keys dm eps p"
        using mark [of "sm_put p ?x ps" c] wf by simp_all
      have "expanding dm eps c p (visited ps) (label ps) 0 (vec ?ps p) (visited ?ps) (label ?ps)"
        unfolding m by (rule expanding_starts [OF d new True c])
      from expand_total [OF m(1) d sym c this] obtain n ps' where
        run: "loop (expand_body dm eps c p) (0, ?ps) = ret (n, ps')" and t': "tidy ps0 ps'"
        and v': "insert p (visited ps) \<subseteq> visited ps'" and d': "divided dm eps (c + 1) (visited ps') (label ps')"
        unfolding total_def m(2) by auto
      have "visited ps \<subseteq> dom (sm_find ps0)" using t unfolding visited_def tidy_def
        by auto (metis option.map_disc_iff option.simps(3) not_Some_eq)
      moreover have fin: "finite (dom (sm_find ps0))" by (simp add: keys_sm_find [symmetric])
      ultimately have "card (visited ps) < card (dom (sm_find ps0))" "finite (visited ps)"
        using p new by (auto intro!: psubset_card_mono intro: finite_subset)
      with divided_card [OF d] few have "in_int (c + 1)" using c by (simp add: in_int_def INT_MAX_def INT_MIN_def)
      then have "cluster_phase dm eps p (c, ps) = ret (c + 1, ps')"
        using x blank \<open>\<not> ph_visited x\<close> True run
        by (simp add: cluster_phase_def expandCluster_def found_def deref_def checkDistance_def dense_def Let_def)
      then show ?thesis using t' v' d' c by simp
    qed
  qed
qed

lemma cluster_phases_total:
  assumes "tidy ps0 ps" and "divided dm eps c (visited ps) (label ps)" and "near_ok dm eps (dom (sm_find ps0))"
    and "1 \<le> c" and "set ks \<subseteq> dom (sm_find ps0)" and "int (card (dom (sm_find ps0))) < INT_MAX"
  shows "total (cfold (cluster_phase dm eps) ks (c, ps)) (\<lambda>(c', ps'). 1 \<le> c' \<and> tidy ps0 ps' \<and>
    divided dm eps c' (visited ps') (label ps') \<and> set ks \<union> visited ps \<subseteq> visited ps')"
  using assms
proof (induction ks arbitrary: c ps)
  case (Cons k ks)
  from cluster_phase_total [OF Cons.prems(1-4) _ Cons.prems(6), of k] Cons.prems(5) obtain c1 ps1 where
    run: "cluster_phase dm eps k (c, ps) = ret (c1, ps1)" and s1: "1 \<le> c1" "tidy ps0 ps1"
      "divided dm eps c1 (visited ps1) (label ps1)" "insert k (visited ps) \<subseteq> visited ps1"
    by (auto simp: total_def)
  from Cons.IH [OF s1(2,3) Cons.prems(3) s1(1) _ Cons.prems(6)] Cons.prems(5) obtain c2 ps2 where
    "cfold (cluster_phase dm eps) ks (c1, ps1) = ret (c2, ps2)" and s2: "1 \<le> c2" "tidy ps0 ps2"
      "divided dm eps c2 (visited ps2) (label ps2)" "set ks \<union> visited ps1 \<subseteq> visited ps2"
    by (auto simp: total_def)
  moreover have "set (k # ks) \<union> visited ps \<subseteq> visited ps2" using s1(4) s2(4) by auto
  ultimately show ?case using run by (simp add: total_def)
qed simp

section \<open>The distances are numbers, and symmetric\<close>

lemma square_sign: "square (Fin s m e) = square (Fin t m e)"
  by (simp add: square_def smant_def)

lemma square_pack: "square (pack s q e) = square (pack t q e)"
  by (simp add: pack_def square_def smant_def)

lemma square_scaled: "square (round_scaled z k g) = square (round_scaled z' (- k) g)"
  by (simp add: round_scaled_def round_ratio_def Let_def square_sign [of z 0 _ z'] square_pack [of "k < 0" _ _ "0 < k"]
      square_sign [of "k < 0" 0 _ "0 < k"])

lemma square_dsub: "square (dsub a b) = square (dsub b a)"
proof (cases a)
  case (Fin s m e)
  show ?thesis
  proof (cases b)
    case b: (Fin t n f)
    let ?g = "min e f"
    have "smant t n * 2 ^ nat (f - ?g) + smant (\<not> s) m * 2 ^ nat (e - ?g) =
        - (smant s m * 2 ^ nat (e - ?g) + smant (\<not> t) n * 2 ^ nat (f - ?g))"
      by (simp add: smant_def)
    then have "dsub b a = round_scaled (t \<and> \<not> s) (- (smant s m * 2 ^ nat (e - ?g) + smant (\<not> t) n * 2 ^ nat (f - ?g))) ?g"
      unfolding Fin b dsub_def by (simp only: dneg.simps dadd.simps Let_def min.commute [of f e])
    moreover have "dsub a b = round_scaled (s \<and> \<not> t) (smant s m * 2 ^ nat (e - ?g) + smant (\<not> t) n * 2 ^ nat (f - ?g)) ?g"
      unfolding Fin b dsub_def by (simp only: dneg.simps dadd.simps Let_def)
    ultimately show ?thesis by (simp only: square_scaled [of "s \<and> \<not> t" _ _ "t \<and> \<not> s"])
  qed (auto simp: Fin dsub_def square_def)
qed (cases b; auto simp: dsub_def square_def)+

lemma phase_distance_sym: "phase_distance f1 f2 = phase_distance f2 f1"
  unfolding phase_distance_def by (simp add: square_dsub [of "fst f1"] square_dsub [of "snd f1"])

fun is_finite :: "dbl \<Rightarrow> bool" where
  "is_finite (Fin s m e) = True"
| "is_finite _ = False"

fun nonneg :: "dbl \<Rightarrow> bool" where
  "nonneg (Fin s m e) = (\<not> s \<and> 0 \<le> m)"
| "nonneg (Inf s) = (\<not> s)"
| "nonneg NaN = False"

lemma round_half_even_nonneg: "0 \<le> n \<Longrightarrow> 0 < d \<Longrightarrow> 0 \<le> round_half_even n d"
  by (simp add: round_half_even_def Let_def pos_imp_zdiv_nonneg_iff)

lemma nonneg_ratio: "0 \<le> n \<Longrightarrow> 0 < d \<Longrightarrow> nonneg (round_ratio False n d)"
  by (simp add: round_ratio_def pack_def Let_def round_half_even_nonneg)

lemma nonneg_scaled: "0 \<le> k \<Longrightarrow> nonneg (round_scaled False k g)"
  by (simp add: round_scaled_def nonneg_ratio)

lemma nonneg_dadd: "nonneg a \<Longrightarrow> nonneg b \<Longrightarrow> nonneg (dadd a b)"
  by (cases a; cases b) (auto simp: Let_def smant_def intro!: nonneg_scaled)

lemma scaled_is_number: "round_scaled z k g \<noteq> NaN"
  by (simp add: round_scaled_def round_ratio_def pack_def Let_def)

lemma nonneg_square: "d \<noteq> NaN \<Longrightarrow> nonneg (square d)"
  by (cases d) (auto simp: square_def smant_def intro!: nonneg_scaled)

lemma isqrt_nonneg: "0 \<le> isqrt n"
  by (induction n rule: isqrt.induct) (subst isqrt.simps, auto simp: Let_def)

lemma nonneg_dsqrt: "nonneg d \<Longrightarrow> nonneg (dsqrt d)"
  by (cases d) (auto simp: Let_def isqrt_nonneg intro!: nonneg_scaled)

lemma nonneg_distance:
  assumes "is_finite (fst f1)" "is_finite (snd f1)" "is_finite (fst f2)" "is_finite (snd f2)"
  shows "nonneg (phase_distance f1 f2)"
proof -
  have "dsub a b \<noteq> NaN" if "is_finite a" "is_finite b" for a b
    using that by (cases a; cases b) (auto simp: dsub_def Let_def scaled_is_number)
  then show ?thesis
    unfolding phase_distance_def using assms by (intro nonneg_dsqrt nonneg_dadd nonneg_square) simp_all
qed

lemma nonneg_third: "nonneg d \<Longrightarrow> nonneg (ddiv d (dbl_of_int 3))"
proof -
  have three: "dbl_of_int 3 = Fin False 6755399441055744 (- 51)" by code_simp
  show "nonneg d \<Longrightarrow> nonneg (ddiv d (dbl_of_int 3))"
    unfolding three by (cases d) (auto intro!: nonneg_ratio)
qed

lemma numbers_weak_order: "(\<And>v. v \<in> set vs \<Longrightarrow> \<not> is_nan v) \<Longrightarrow> weak_order_on vs"
  unfolding weak_order_on_def by (metis dle_trans not_dlt_dle)

lemma nonneg_number: "nonneg d \<Longrightarrow> \<not> is_nan d"
  by (cases d) (simp_all add: is_nan_def)

section \<open>The matrix of distances\<close>

lemma find_inserted:
  "sm_find (fold (\<lambda>(k2, d). sm_insert (k1, k2) d) ds m) (a, b) =
     (case sm_find m (a, b) of Some v \<Rightarrow> Some v | None \<Rightarrow> if a = k1 then map_of ds b else None)"
proof (induction ds arbitrary: m)
  case (Cons x ds)
  obtain k2 d where x: "x = (k2, d)" by (cases x)
  have "sm_find (sm_insert (k1, k2) d m) (a, b) =
      (case sm_find m (a, b) of Some v \<Rightarrow> Some v | None \<Rightarrow> if a = k1 \<and> b = k2 then Some d else None)"
    by (cases "sm_find m (k1, k2)"; cases "sm_find m (a, b)") auto
  with Cons.IH [of "sm_insert (k1, k2) d m"] show ?case by (simp add: x split: option.split)
qed (simp split: option.split)

lemma wf_inserted: "sm_wf m \<Longrightarrow> sm_wf (fold (\<lambda>(k2, d). sm_insert (k1, k2) d) ds m)"
  by (induction ds arbitrary: m) (auto split: prod.split)

lemma findK_total:
  assumes "sorts std_sort" and "\<And>d. d \<in> set ds \<Longrightarrow> nonneg d" and "3 \<le> length ds"
  shows "total (findKNearestNeighbors std_sort ds) nonneg"
proof -
  let ?rs = "map (\<lambda>d. (0 :: int, d)) ds"
  have w: "weak_order_on (map snd ?rs)" by (rule numbers_weak_order) (use assms(2) nonneg_number in auto)
  with assms(1) have s: "set (std_sort ?rs) = set ?rs" "length (std_sort ?rs) = length ds"
    unfolding sorts_def by (metis length_map)+
  have "nonneg (snd (std_sort ?rs ! i))" if "i < 3" for i
  proof -
    have "std_sort ?rs ! i \<in> set (std_sort ?rs)" using that s(2) assms(3) by (intro nth_mem) simp
    then show ?thesis unfolding s(1) using assms(2) by auto
  qed
  then have "nonneg (ddiv (dadd (dadd (snd (std_sort ?rs ! 0)) (snd (std_sort ?rs ! 1))) (snd (std_sort ?rs ! 2))) (dbl_of_int 3))"
    by (intro nonneg_third nonneg_dadd) simp_all
  then show ?thesis using w s(2) assms(3) by (simp add: findKNearestNeighbors_def sort_results_def)
qed

lemma max_element_less: "k < i \<Longrightarrow> max_element ds (k, m) i < i + length ds"
proof (induction ds "(k, m)" i arbitrary: k m rule: max_element.induct)
  case (2 d ds k m i)
  then show ?case by (fastforce split: if_splits)
qed simp

lemma eps_total:
  assumes "sorts std_sort" and "\<And>x. x \<in> set ks \<Longrightarrow> nonneg (snd x)" and "ks \<noteq> []"
  shows "total (calculateEps std_sort ks) (\<lambda>_. True)"
proof -
  have w: "weak_order_on (map snd ks)" by (rule numbers_weak_order) (use assms(2) nonneg_number in auto)
  with assms(1) have "length (std_sort ks) = length ks" unfolding sorts_def by blast
  with assms(3) have ne: "std_sort ks \<noteq> []" by auto
  have "max_element (tl xs) (0, hd xs) 1 < length xs" if "xs \<noteq> []" for xs :: "dbl list"
    using max_element_less [of 0 1 "tl xs" "hd xs"] that by simp
  from this [of "map (\<lambda>(pt, y). line_distance a b c pt y) (enumerate 0 (map snd (std_sort ks)))" for a b c] ne
  have "max_element (tl (map (\<lambda>(pt, y). line_distance a b c pt y) (enumerate 0 (map snd (std_sort ks)))))
      (0, hd (map (\<lambda>(pt, y). line_distance a b c pt y) (enumerate 0 (map snd (std_sort ks))))) 1 < length (std_sort ks)" for a b c
    by (simp add: enumerate_eq_zip)
  with ne w show ?thesis by (simp add: calculateEps_def sort_results_def Let_def)
qed

definition feature_distance :: "phases \<Rightarrow> phase_num \<Rightarrow> phase_num \<Rightarrow> dbl" where
  "feature_distance ps p q = (case (sm_find ps p, sm_find ps q) of
     (Some x, Some y) \<Rightarrow> phase_distance (ph_normalizedFeatures x) (ph_normalizedFeatures y) | _ \<Rightarrow> NaN)"

lemma feature_distance_sym: "feature_distance ps p q = feature_distance ps q p"
  by (auto simp: feature_distance_def phase_distance_sym split: option.split)

definition finite_features :: "phases \<Rightarrow> bool" where
  "finite_features ps \<longleftrightarrow> (\<forall>(_, x) \<in> set ps. is_finite (fst (ph_normalizedFeatures x)) \<and> is_finite (snd (ph_normalizedFeatures x)))"

lemma matrix_row:
  assumes srt: "sorts std_sort" and fin: "finite_features ps" and four: "4 \<le> length ps" and wf: "sm_wf ps"
    and x: "(k, x) \<in> set ps" and m: "sm_wf (dist_matrix s)"
  shows "total (distances_from std_sort ps (k, x) s) (\<lambda>s'. \<exists>M v. s' = s\<lparr>dist_matrix := M, k_neigh_dist := k_neigh_dist s @ [(uint k, v)]\<rparr> \<and>
    nonneg v \<and> sm_wf M \<and> (\<forall>a b. sm_find M (a, b) = (case sm_find (dist_matrix s) (a, b) of Some d \<Rightarrow> Some d
      | None \<Rightarrow> if a = k \<and> b \<in> fst ` set ps then Some (feature_distance ps k b) else None)))"
proof -
  let ?f = "\<lambda>(k2, p2). (k2, phase_distance (ph_normalizedFeatures x) (ph_normalizedFeatures p2))"
  let ?ds = "map ?f ps" and ?rest = "map snd (filter (\<lambda>(k2, d). k \<noteq> k2) (map ?f ps))"
  have kx: "sm_find ps k = Some x" using x wf sm_wf_distinct [of ps] by (simp add: sm_find_def)
  have row: "map_of ?ds b = (if b \<in> fst ` set ps then Some (feature_distance ps k b) else None)" for b
    using kx by (auto simp: map_of_map feature_distance_def sm_find_def map_of_eq_None_iff split: option.split)
  have keys: "distinct (map fst ps)" using wf by (rule sm_wf_distinct)
  have "filter ((\<noteq>) k) (map fst ps) = remove1 k (map fst ps)"
    unfolding distinct_remove1_removeAll [OF keys] by (simp add: removeAll_filter_not_eq)
  moreover have "map fst (filter (\<lambda>(k2, d). k \<noteq> k2) ?ds) = filter ((\<noteq>) k) (map fst ps)"
    by (simp add: filter_map comp_def case_prod_unfold)
  moreover have "k \<in> set (map fst ps)" using x by force
  ultimately have "length (map fst (filter (\<lambda>(k2, d). k \<noteq> k2) ?ds)) = length ps - 1"
    by (simp only: length_remove1 length_map if_True)
  then have len: "3 \<le> length ?rest" using four by simp
  have "nonneg d" if "d \<in> set ?rest" for d
    using that fin x unfolding finite_features_def by (auto intro!: nonneg_distance)
  from findK_total [OF srt this len] obtain v where v: "findKNearestNeighbors std_sort ?rest = ret v" "nonneg v"
    by (auto simp: total_def)
  have "?rest \<noteq> []"
  proof
    assume "?rest = []"
    then have "length ?rest = 0" by (simp only: list.size(3))
    with len show False by linarith
  qed
  with v have run: "distances_from std_sort ps (k, x) s =
      ret (s\<lparr>dist_matrix := fold (\<lambda>(k2, d). sm_insert (k, k2) d) ?ds (dist_matrix s), k_neigh_dist := k_neigh_dist s @ [(uint k, v)]\<rparr>)"
    unfolding distances_from_def Let_def by simp
  let ?M = "fold (\<lambda>(k2, d). sm_insert (k, k2) d) ?ds (dist_matrix s)"
  have table: "sm_find ?M (a, b) = (case sm_find (dist_matrix s) (a, b) of Some d \<Rightarrow> Some d
      | None \<Rightarrow> if a = k \<and> b \<in> fst ` set ps then Some (feature_distance ps k b) else None)" for a b
    unfolding find_inserted row by (simp split: option.split)
  show ?thesis unfolding run total_ret
    by (intro exI [of _ ?M] exI [of _ v] conjI allI) (rule refl v(2) wf_inserted [OF m] table)+
qed

lemma matrix_rows:
  assumes srt: "sorts std_sort" and fin: "finite_features ps" and four: "4 \<le> length ps" and wf: "sm_wf ps"
    and "set xs \<subseteq> set ps" and "sm_wf (dist_matrix s)"
  shows "total (cfold (distances_from std_sort ps) xs s) (\<lambda>s'. \<exists>M ks. s' = s\<lparr>dist_matrix := M, k_neigh_dist := k_neigh_dist s @ ks\<rparr> \<and>
    length ks = length xs \<and> (\<forall>e \<in> set ks. nonneg (snd e)) \<and> sm_wf M \<and>
    (\<forall>a b. sm_find M (a, b) = (case sm_find (dist_matrix s) (a, b) of Some d \<Rightarrow> Some d
      | None \<Rightarrow> if a \<in> fst ` set xs \<and> b \<in> fst ` set ps then Some (feature_distance ps a b) else None)))"
  using assms(5,6)
proof (induction xs arbitrary: s)
  case Nil
  show ?case unfolding cfold.simps total_ret
    by (intro exI [of _ "dist_matrix s"] exI [of _ "[]"]) (use Nil in \<open>auto split: option.split\<close>)
next
  case (Cons x xs)
  obtain k p where x: "x = (k, p)" by (cases x)
  with Cons.prems have "(k, p) \<in> set ps" by simp
  from matrix_row [OF srt fin four wf this Cons.prems(2)] x obtain M v where
    run: "distances_from std_sort ps x s = ret (s\<lparr>dist_matrix := M, k_neigh_dist := k_neigh_dist s @ [(uint k, v)]\<rparr>)"
    and v: "nonneg v" "sm_wf M" and M: "\<And>a b. sm_find M (a, b) = (case sm_find (dist_matrix s) (a, b) of Some d \<Rightarrow> Some d
      | None \<Rightarrow> if a = k \<and> b \<in> fst ` set ps then Some (feature_distance ps k b) else None)"
    by (auto simp: total_def)
  let ?s = "s\<lparr>dist_matrix := M, k_neigh_dist := k_neigh_dist s @ [(uint k, v)]\<rparr>"
  from Cons.IH [of ?s] Cons.prems(1) v(2) obtain M' ks where
    run': "cfold (distances_from std_sort ps) xs ?s = ret (?s\<lparr>dist_matrix := M', k_neigh_dist := k_neigh_dist ?s @ ks\<rparr>)"
    and ks: "length ks = length xs" "\<forall>e \<in> set ks. nonneg (snd e)" "sm_wf M'"
    and M': "\<And>a b. sm_find M' (a, b) = (case sm_find M (a, b) of Some d \<Rightarrow> Some d
      | None \<Rightarrow> if a \<in> fst ` set xs \<and> b \<in> fst ` set ps then Some (feature_distance ps a b) else None)"
    by (auto simp: total_def)
  have table: "sm_find M' (a, b) = (case sm_find (dist_matrix s) (a, b) of Some d \<Rightarrow> Some d
      | None \<Rightarrow> if a \<in> fst ` set (x # xs) \<and> b \<in> fst ` set ps then Some (feature_distance ps a b) else None)" for a b
    unfolding M' M by (auto simp: x split: option.split)
  have all: "cfold (distances_from std_sort ps) (x # xs) s = ret (s\<lparr>dist_matrix := M', k_neigh_dist := k_neigh_dist s @ (uint k, v) # ks\<rparr>)"
    using run run' by simp
  show ?case unfolding all total_ret
    by (intro exI [of _ M'] exI [of _ "(uint k, v) # ks"] conjI allI) (rule refl table ks(3) | simp add: ks(1,2) v(1))+
qed

section \<open>The clustering\<close>

definition in_reach :: "phases \<Rightarrow> dbl \<Rightarrow> phase_num \<Rightarrow> phase_num set" where
  "in_reach ps eps p = {q \<in> fst ` set ps. q \<noteq> p \<and> dle (feature_distance ps p q) eps}"

definition crowded :: "phases \<Rightarrow> dbl \<Rightarrow> phase_num \<Rightarrow> bool" where
  "crowded ps eps p \<longleftrightarrow> 3 \<le> card (in_reach ps eps p)"

text \<open>What a density clustering is: labels from 1 to \<open>num\<close>, or noise.\<close>

definition density_clustering :: "phases \<Rightarrow> dbl \<Rightarrow> int \<Rightarrow> (phase_num \<Rightarrow> int) \<Rightarrow> bool" where
  "density_clustering ps eps num lab \<longleftrightarrow>
     (\<forall>p \<in> fst ` set ps. lab p = NOISE \<or> 1 \<le> lab p \<and> lab p \<le> num) \<and>
     (\<forall>p \<in> fst ` set ps. lab p = NOISE \<longleftrightarrow> \<not> crowded ps eps p \<and> (\<forall>q \<in> in_reach ps eps p. \<not> crowded ps eps q)) \<and>
     (\<forall>p \<in> fst ` set ps. \<forall>q \<in> in_reach ps eps p. crowded ps eps p \<and> crowded ps eps q \<longrightarrow> lab p = lab q) \<and>
     (\<forall>p \<in> fst ` set ps. \<forall>q \<in> fst ` set ps. crowded ps eps p \<and> crowded ps eps q \<and> lab p = lab q \<longrightarrow>
        (p, q) \<in> {(a, b). crowded ps eps a \<and> crowded ps eps b \<and> b \<in> in_reach ps eps a}\<^sup>*) \<and>
     (\<forall>p \<in> fst ` set ps. \<not> crowded ps eps p \<and> lab p \<noteq> NOISE \<longrightarrow> (\<exists>q \<in> in_reach ps eps p. crowded ps eps q \<and> lab q = lab p)) \<and>
     (\<forall>i. 1 \<le> i \<and> i \<le> num \<longrightarrow> (\<exists>p \<in> fst ` set ps. crowded ps eps p \<and> lab p = i))"

definition unclustered :: "interph \<Rightarrow> bool" where
  "unclustered s \<longleftrightarrow> sm_wf (dtaPhases s) \<and> dist_matrix s = [] \<and> k_neigh_dist s = [] \<and>
     (\<forall>(_, x) \<in> set (dtaPhases s). \<not> ph_visited x \<and> ph_neighbors x = [] \<and> ph_clusterID x = UNCLASSIFIED)"

lemma set_near_keys:
  assumes "sm_wf dm"
  shows "q \<in> set (near_keys dm eps p) \<longleftrightarrow> q \<noteq> p \<and> (\<exists>d. sm_find dm (p, q) = Some d \<and> dle d eps)"
  using sm_wf_distinct [OF assms] by (force simp: near_keys_def sm_find_def image_iff split: prod.splits)

lemma distinct_near_keys: "sm_wf dm \<Longrightarrow> distinct (near_keys dm eps p)"
proof -
  assume "sm_wf dm"
  then have "distinct (map fst dm)" by (rule sm_wf_distinct)
  then show ?thesis
    unfolding near_keys_def by (induction dm) (auto simp: image_iff split: prod.splits)
qed

lemma divided_clustering:
  assumes M: "sm_wf M" "\<And>a b. sm_find M (a, b) = (if a \<in> fst ` set ps \<and> b \<in> fst ` set ps then Some (feature_distance ps a b) else None)"
    and d: "divided M eps (num + 1) (fst ` set ps) lab" and num: "0 \<le> num"
  shows "density_clustering ps eps num lab"
proof -
  have near: "near M eps p = in_reach ps eps p" if p: "p \<in> fst ` set ps" for p
  proof (rule set_eqI)
    fix x show "x \<in> near M eps p \<longleftrightarrow> x \<in> in_reach ps eps p"
      by (cases "x \<in> fst ` set ps") (simp_all add: near_def set_near_keys [OF M(1)] M(2) in_reach_def p)
  qed
  have dense: "dense M eps p \<longleftrightarrow> crowded ps eps p" if "p \<in> fst ` set ps" for p
    using near [OF that] distinct_card [OF distinct_near_keys [OF M(1)], of eps p]
    by (simp add: dense_def crowded_def near_def MIN_POINTS_def)
  have inside: "q \<in> fst ` set ps \<and> p \<in> in_reach ps eps q" if "p \<in> fst ` set ps" "q \<in> in_reach ps eps p" for p q
    using that by (auto simp: in_reach_def feature_distance_sym [of ps q p])
  have links: "(a, b) \<in> {(a, b). crowded ps eps a \<and> crowded ps eps b \<and> b \<in> in_reach ps eps a}\<^sup>*"
    if "(a, b) \<in> (links M eps)\<^sup>*" "a \<in> fst ` set ps" for a b
  proof -
    have "links M eps \<subseteq> {(a, b). crowded ps eps a \<and> crowded ps eps b \<and> b \<in> in_reach ps eps a}"
    proof
      fix x assume "x \<in> links M eps"
      then obtain p q where x: "x = (p, q)" "dense M eps p" "dense M eps q" "q \<in> near M eps p" by (auto simp: links_def)
      then have "p \<in> fst ` set ps \<and> q \<in> fst ` set ps" by (auto simp: near_def set_near_keys [OF M(1)] M(2) split: if_splits)
      with x show "x \<in> {(a, b). crowded ps eps a \<and> crowded ps eps b \<and> b \<in> in_reach ps eps a}" using dense near by auto
    qed
    with that(1) rtrancl_mono show ?thesis by blast
  qed
  show ?thesis
    unfolding density_clustering_def
  proof (intro conjI ballI allI impI)
    fix p assume p: "p \<in> fst ` set ps"
    from dividedD(1) [OF d p] show "lab p = NOISE \<or> 1 \<le> lab p \<and> lab p \<le> num" by auto
    show "lab p = NOISE \<longleftrightarrow> \<not> crowded ps eps p \<and> (\<forall>q \<in> in_reach ps eps p. \<not> crowded ps eps q)"
    proof
      assume noise: "lab p = NOISE"
      then have "\<not> crowded ps eps p" using dividedD(2) [OF d p] dense [OF p] by blast
      moreover have "\<not> crowded ps eps q" if "q \<in> in_reach ps eps p" for q
      proof
        assume "crowded ps eps q"
        with inside [OF p that] dense near have "dense M eps q" "p \<in> near M eps q" "q \<in> fst ` set ps" by auto
        from dividedD(3) [OF d this(3,2,1)] noise show False by (simp add: NOISE_def)
      qed
      ultimately show "\<not> crowded ps eps p \<and> (\<forall>q \<in> in_reach ps eps p. \<not> crowded ps eps q)" by blast
    next
      assume alone: "\<not> crowded ps eps p \<and> (\<forall>q \<in> in_reach ps eps p. \<not> crowded ps eps q)"
      show "lab p = NOISE"
      proof (rule ccontr)
        assume "lab p \<noteq> NOISE"
        with dividedD(1) [OF d p] have "1 \<le> lab p" by simp
        from dividedD(4) [OF d p this] obtain q where q: "q \<in> fst ` set ps" "dense M eps q" "p = q \<or> p \<in> near M eps q" by blast
        have "q \<in> in_reach ps eps p" if "p \<in> near M eps q" using that near [OF q(1)] inside [OF q(1)] by blast
        with q dense [OF q(1)] alone show False by blast
      qed
    qed
  next
    fix p q assume pq: "p \<in> fst ` set ps" "q \<in> in_reach ps eps p" and c: "crowded ps eps p \<and> crowded ps eps q"
    have "q \<in> near M eps p" using near [OF pq(1)] pq(2) by blast
    moreover have "dense M eps p" "dense M eps q" using dense [OF pq(1)] dense [of q] inside [OF pq] c by blast+
    ultimately show "lab p = lab q" using dividedD(3) [OF d pq(1)] by metis
  next
    fix p q assume pq: "p \<in> fst ` set ps" "q \<in> fst ` set ps" and c: "crowded ps eps p \<and> crowded ps eps q \<and> lab p = lab q"
    then have "(p, q) \<in> (links M eps)\<^sup>*" using dense [OF pq(1)] dense [OF pq(2)] by (intro dividedD(5) [OF d pq]) blast+
    then show "(p, q) \<in> {(a, b). crowded ps eps a \<and> crowded ps eps b \<and> b \<in> in_reach ps eps a}\<^sup>*" using pq(1) by (rule links)
  next
    fix p assume p: "p \<in> fst ` set ps" and c: "\<not> crowded ps eps p \<and> lab p \<noteq> NOISE"
    with dividedD(1) [OF d p] have "1 \<le> lab p" by blast
    from dividedD(4) [OF d p this] obtain q where q: "q \<in> fst ` set ps" "dense M eps q" "lab q = lab p" "p = q \<or> p \<in> near M eps q" by blast
    have "q \<in> in_reach ps eps p" if "p \<in> near M eps q" using that near [OF q(1)] inside [OF q(1)] by blast
    with q dense [OF q(1)] c show "\<exists>q \<in> in_reach ps eps p. crowded ps eps q \<and> lab q = lab p" by blast
  next
    fix i assume "1 \<le> i \<and> i \<le> num"
    then obtain p where "p \<in> fst ` set ps" "dense M eps p" "lab p = i" using d unfolding divided_def by (metis zle_add1_eq_le)
    with dense show "\<exists>p \<in> fst ` set ps. crowded ps eps p \<and> lab p = i" by auto
  qed
qed

lemma clustering_total:
  assumes "sorts std_sort" and "unclustered s" and "finite_features (dtaPhases s)" and "4 \<le> length (dtaPhases s)"
    and "int (length (dtaPhases s)) < INT_MAX"
  shows "\<exists>s1 s' eps ks. calcDistanceMatrix std_sort s = ret s1 \<and> calculateEps std_sort (k_neigh_dist s1) = ret (eps, ks) \<and>
    interph_cluster std_sort s = ret s' \<and> sm_wf (dtaPhases s') \<and>
    density_clustering (dtaPhases s) eps (uint (num_clusters s')) (label (dtaPhases s')) \<and>
    (\<forall>p. map_option bare (sm_find (dtaPhases s') p) = map_option bare (sm_find (dtaPhases s) p)) \<and>
    configForClusters s' = configForClusters s \<and> rts_best_objs s' = rts_best_objs s"
proof -
  let ?ps = "dtaPhases s"
  have wf: "sm_wf ?ps" and blank: "dist_matrix s = []" "k_neigh_dist s = []" using assms(2) by (simp_all add: unclustered_def)
  from matrix_rows [OF assms(1,3,4) wf, of ?ps s] blank obtain M ks where
    rows: "cfold (distances_from std_sort ?ps) ?ps s = ret (s\<lparr>dist_matrix := M, k_neigh_dist := ks\<rparr>)"
    and ks: "length ks = length ?ps" "\<forall>e \<in> set ks. nonneg (snd e)" and M: "sm_wf M"
      "\<And>a b. sm_find M (a, b) = (if a \<in> fst ` set ?ps \<and> b \<in> fst ` set ?ps then Some (feature_distance ?ps a b) else None)"
    by (auto simp: total_def)
  have ne: "ks \<noteq> []" "?ps \<noteq> []" using ks(1) assms(4) by auto
  from eps_total [OF assms(1) _ ne(1)] ks(2) obtain eps ks' where eps: "calculateEps std_sort ks = ret (eps, ks')"
    by (auto simp: total_def)
  have dom: "dom (sm_find ?ps) = fst ` set ?ps" by (rule keys_sm_find [symmetric])
  have near: "near_ok M eps (dom (sm_find ?ps))"
    unfolding near_ok_def dom near_def set_near_keys [OF M(1)] M(2) by (auto simp: feature_distance_sym split: if_splits)
  have fresh: "\<not> ph_visited x \<and> ph_neighbors x = [] \<and> ph_clusterID x = UNCLASSIFIED" if "sm_find ?ps p = Some x" for p x
    using assms(2) map_of_SomeD [of ?ps p x] that unfolding unclustered_def sm_find_def by blast
  have start: "tidy ?ps ?ps" "visited ?ps = {}" using wf fresh by (auto simp: tidy_def visited_def)
  have few: "int (card (dom (sm_find ?ps))) < INT_MAX"
    using assms(5) card_length [of "map fst ?ps"] by (simp add: dom)
  have "divided M eps 1 {} (label ?ps)" by (auto simp: divided_def)
  from cluster_phases_total [OF start(1) this [folded start(2)] near _ _ few, of "map fst ?ps"] start(2) dom obtain c ps' where
    run: "cfold (cluster_phase M eps) (map fst ?ps) (1, ?ps) = ret (c, ps')" and c: "1 \<le> c" and t: "tidy ?ps ps'"
    and d: "divided M eps c (visited ps') (label ps')" and all: "fst ` set ?ps \<subseteq> visited ps'"
    by (auto simp: total_def)
  have same: "map_option bare (sm_find ps' p) = map_option bare (sm_find ?ps p)" for p using t by (simp add: tidy_def)
  have "visited ps' \<subseteq> dom (sm_find ?ps)"
  proof
    fix p assume "p \<in> visited ps'"
    with same [of p] show "p \<in> dom (sm_find ?ps)" by (cases "sm_find ?ps p") (auto simp: visited_def)
  qed
  then have V: "visited ps' = fst ` set ?ps" using all by (intro equalityI) (simp_all only: dom)
  have "c \<le> int (card (fst ` set ?ps)) + 1" using divided_card [OF d] V by simp
  with few have small: "0 \<le> c - 1" "c - 1 < 2 ^ 32" using c by (simp_all add: dom INT_MAX_def)
  let ?s = "s\<lparr>dist_matrix := M, k_neigh_dist := ks', dtaPhases := ps', num_clusters := word_of_int (c - 1)\<rparr>"
  have "interph_cluster std_sort s = ret (s\<lparr>dist_matrix := M, k_neigh_dist := ks', dtaPhases := ps', num_clusters := word_of_int (c - 1)\<rparr>)"
    using rows eps run ne(2) by (simp add: interph_cluster_def calcDistanceMatrix_def clusterPhases_def)
  moreover have "density_clustering ?ps eps (c - 1) (label ps')"
    using d V small(1) by (intro divided_clustering [OF M]) simp_all
  moreover have "uint (word_of_int (c - 1) :: 32 word) = c - 1" unfolding uint_word_of_int using small by (simp add: mod_pos_pos_trivial)
  moreover have "sm_wf ps'" using t by (simp add: tidy_def)
  moreover have "calcDistanceMatrix std_sort s = ret (s\<lparr>dist_matrix := M, k_neigh_dist := ks\<rparr>)" using rows by (simp add: calcDistanceMatrix_def)
  ultimately show ?thesis using same eps
    by (intro exI [of _ "s\<lparr>dist_matrix := M, k_neigh_dist := ks\<rparr>"] exI [of _ ?s] exI [of _ eps] exI [of _ ks']) simp
qed


text \<open>
  C3: With at least four phases whose features are finite, the clustering returns. The radius is the one read off
  the distances to the nearest neighbours, and what is returned is a density clustering for it: a phase with three others within the radius is in a cluster, together with all such phases
  within the radius, and is connected with every such phase of the cluster through others; the rest
  of a cluster is within the radius of such a phase, and noise is exactly what is not. The number of clusters is right, no
  cluster is empty, and nothing else about the phases changes.
\<close>

theorem phases_are_density_clustered:
  assumes "sorts std_sort" and "unclustered s" and "finite_features (dtaPhases s)" and "4 \<le> length (dtaPhases s)"
    and "int (length (dtaPhases s)) < INT_MAX"
  shows "\<exists>s1 s' eps ks. calcDistanceMatrix std_sort s = ret s1 \<and> calculateEps std_sort (k_neigh_dist s1) = ret (eps, ks) \<and>
    interph_cluster std_sort s = ret s' \<and> sm_wf (dtaPhases s') \<and>
    density_clustering (dtaPhases s) eps (uint (num_clusters s')) (label (dtaPhases s')) \<and>
    (\<forall>p. map_option bare (sm_find (dtaPhases s') p) = map_option bare (sm_find (dtaPhases s) p)) \<and>
    configForClusters s' = configForClusters s \<and> rts_best_objs s' = rts_best_objs s"
  using clustering_total [OF assms] .

definition at_features :: "int \<Rightarrow> int \<Rightarrow> phase_info" where
  "at_features c b = new_phaseInfo\<lparr>ph_normalizedFeatures := (dbl_of_int c, dbl_of_int b)\<rparr>"

definition example_phases :: interph where
  "example_phases = \<lparr>dtaPhases = [(0, at_features 0 0), (1, at_features 0 1), (2, at_features 1 1), (3, at_features 1 0), (4, at_features 0 0)],
     configForClusters = [], rts_best_objs = [], num_clusters = 0, dist_matrix = [], k_neigh_dist = []\<rparr>"

lemma finite_corners: "is_finite (dbl_of_int 0)" "is_finite (dbl_of_int 1)"
  by code_simp+

lemma example_phases_unclustered: "unclustered example_phases"
  by (simp add: unclustered_def example_phases_def at_features_def new_phaseInfo_def sm_wf_Cons)

lemma example_phases_finite: "finite_features (dtaPhases example_phases)"
  by (simp add: finite_features_def example_phases_def at_features_def finite_corners)

theorem phases_are_density_clustered_witness:
  "\<exists>s1 s' eps ks. calcDistanceMatrix insertion_sort example_phases = ret s1 \<and> calculateEps insertion_sort (k_neigh_dist s1) = ret (eps, ks) \<and>
    interph_cluster insertion_sort example_phases = ret s' \<and> sm_wf (dtaPhases s') \<and>
    density_clustering (dtaPhases example_phases) eps (uint (num_clusters s')) (label (dtaPhases s')) \<and>
    (\<forall>p. map_option bare (sm_find (dtaPhases s') p) = map_option bare (sm_find (dtaPhases example_phases) p)) \<and>
    configForClusters s' = configForClusters example_phases \<and> rts_best_objs s' = rts_best_objs example_phases"
  by (rule phases_are_density_clustered [OF sorts_insertion example_phases_unclustered example_phases_finite])
    (simp_all add: example_phases_def INT_MAX_def)

end
