(* ===== verification/InterphaseCorrect.thy ===== *)
theory InterphaseCorrect
  imports InterphasePlugin DensityClusters IntraphaseSteps
begin

text \<open>
  What the end of the first tuning step of the inter-phase plugin decides: the clusters of phases, and for each cluster,
  and each runtime situation in it, the phase with the best setting.
\<close>

section \<open>The best runtime situations of a cluster\<close>

text \<open>The values of runtime situations that are compared: normalised ones whose objective value is not 0.\<close>

definition rts_compared :: "string \<Rightarrow> (phase_num \<times> rts_info) set \<Rightarrow> (string \<times> dbl \<times> phase_num) set" where
  "rts_compared name X = {(ri_callpath r, v, k) | r v k o1. (k, r) \<in> X \<and> sm_find (ri_normalizedObj r) name = Some v \<and>
     sm_find (ri_objValues r) name = Some o1 \<and> nonzero o1}"

text \<open>The map has a value of the set for every call path in the set, and none is better.\<close>

definition best_of :: "(string \<times> dbl \<times> phase_num) set \<Rightarrow> (string, dbl \<times> phase_num) umap \<Rightarrow> bool" where
  "best_of S m \<longleftrightarrow> (\<forall>cpath b k. sm_find m cpath = Some (b, k) \<longrightarrow> (cpath, b, k) \<in> S) \<and>
     (\<forall>(cpath, v, q) \<in> S. \<exists>b k. sm_find m cpath = Some (b, k) \<and> \<not> dlt v b)"

definition rts_valued :: "string \<Rightarrow> rts_info \<Rightarrow> bool" where
  "rts_valued name r \<longleftrightarrow> sm_has (ri_normalizedObj r) name \<and> sm_has (ri_objValues r) name"

lemma rts_compared_insert:
  "sm_find (ri_normalizedObj r) name = Some v \<Longrightarrow> sm_find (ri_objValues r) name = Some o1 \<Longrightarrow>
   rts_compared name (insert (k, r) X) = (if nonzero o1 then insert (ri_callpath r, v, k) (rts_compared name X) else rts_compared name X)"
  by (auto simp: rts_compared_def)

lemma best_of_empty: "best_of (rts_compared name {}) []"
  by (simp add: best_of_def rts_compared_def)

lemma best_of_put:
  assumes "best_of S m" and "order_ok ord" and better: "case sm_find m cpath of None \<Rightarrow> True | Some (b, _) \<Rightarrow> dlt v b"
  shows "best_of (insert (cpath, v, k) S) (um_put ord cpath (v, k) m)"
proof -
  have 1: "(c, b, q) \<in> S" if "sm_find m c = Some (b, q)" for c b q using assms(1) that by (auto simp: best_of_def)
  have 2: "\<exists>b k. sm_find m c = Some (b, k) \<and> \<not> dlt u b" if "(c, u, q) \<in> S" for c u q using assms(1) that by (auto simp: best_of_def)
  have "\<exists>b j. sm_find (um_put ord cpath (v, k) m) c = Some (b, j) \<and> \<not> dlt u b" if u: "(c, u, q) \<in> insert (cpath, v, k) S" for c u q
  proof (cases "c = cpath")
    case True
    have "\<not> dlt u v"
    proof (cases "(c, u, q) \<in> S")
      case True
      with 2 \<open>c = cpath\<close> obtain b j where "sm_find m cpath = Some (b, j)" "\<not> dlt u b" by blast
      with better show ?thesis using dlt_trans by auto
    qed (use u True in auto)
    with True show ?thesis using assms(2) by simp
  next
    case False
    with u 2 show ?thesis using assms(2) by auto
  qed
  moreover have "(c, b, q) \<in> insert (cpath, v, k) S" if "sm_find (um_put ord cpath (v, k) m) c = Some (b, q)" for c b q
    using that 1 assms(2) by (auto split: if_splits)
  ultimately show ?thesis unfolding best_of_def by blast
qed

lemma note_rts_best:
  assumes "rts_valued name r" and "best_of (rts_compared name X) m" and "order_ok (ie_map_order (ne_base env))"
  shows "total (note_rts env name k r m) (best_of (rts_compared name (insert (k, r) X)))"
proof -
  from assms(1) obtain v o1 where v: "sm_find (ri_normalizedObj r) name = Some v" "sm_find (ri_objValues r) name = Some o1"
    by (auto simp: rts_valued_def sm_has_def)
  then have f: "found (ri_normalizedObj r) name = ret v" "found (ri_objValues r) name = ret o1" by simp_all
  let ?better = "case sm_find m (ri_callpath r) of None \<Rightarrow> True | Some (b, _) \<Rightarrow> dlt v b"
  consider (zero) "\<not> nonzero o1" | (better) "nonzero o1" ?better | (worse) "nonzero o1" "\<not> ?better" by blast
  then show ?thesis
  proof cases
    case better
    then show ?thesis using best_of_put [OF assms(2,3) better(2), of k] v by (simp add: note_rts_def f rts_compared_insert)
  next
    case worse
    then obtain b j where "sm_find m (ri_callpath r) = Some (b, j)" "\<not> dlt v b" by (auto split: option.splits)
    with assms(2) worse(1) have "best_of (rts_compared name (insert (k, r) X)) m"
      unfolding rts_compared_insert [OF v] by (auto simp: best_of_def)
    moreover have "note_rts env name k r m = ret m" unfolding note_rts_def f using worse by simp
    ultimately show ?thesis by simp
  qed (use assms(2) v in \<open>simp add: note_rts_def f rts_compared_insert\<close>)
qed

lemma note_rtss_best:
  assumes "\<forall>r \<in> set rs. rts_valued name r" and "best_of (rts_compared name X) m" and "order_ok (ie_map_order (ne_base env))"
  shows "total (cfold (note_rts env name k) rs m) (best_of (rts_compared name (Pair k ` set rs \<union> X)))"
  using assms(1,2)
proof (induction rs arbitrary: m X)
  case (Cons r rs)
  have first: "total (note_rts env name k r m) (best_of (rts_compared name (insert (k, r) X)))"
    by (rule note_rts_best) (use Cons.prems assms(3) in simp_all)
  have "total (cbind (note_rts env name k r m) (cfold (note_rts env name k) rs))
      (best_of (rts_compared name (Pair k ` set rs \<union> insert (k, r) X)))"
    by (rule total_bind [OF first], rule Cons.IH) (use Cons.prems in simp_all)
  then show ?case by simp
qed simp

section \<open>The best phase of a cluster\<close>

definition phase_value :: "string \<Rightarrow> phase_info \<Rightarrow> dbl option" where
  "phase_value name ph = sm_find (ph_normalizedObj ph) name"

definition phase_valued :: "string \<Rightarrow> phase_info \<Rightarrow> bool" where
  "phase_valued name ph \<longleftrightarrow> phase_value name ph \<noteq> None \<and> (\<forall>r \<in> set (ph_rtsInfo ph). rts_valued name r)"

definition members :: "phase_num \<Rightarrow> (phase_num \<times> phase_info) set \<Rightarrow> (phase_num \<times> phase_info) set" where
  "members c ps = {(k, ph) \<in> ps. word_of_int (ph_clusterID ph) = c}"

definition rts_of_phases :: "(phase_num \<times> phase_info) set \<Rightarrow> (phase_num \<times> rts_info) set" where
  "rts_of_phases X = {(k, r). \<exists>ph. (k, ph) \<in> X \<and> r \<in> set (ph_rtsInfo ph)}"

text \<open>What is known of the members looked at so far.\<close>

definition chosen :: "string \<Rightarrow> (phase_num \<times> phase_info) set \<Rightarrow> cluster_best \<Rightarrow> bool" where
  "chosen name X b \<longleftrightarrow> sorted (cb_phases b) \<and> distinct (cb_phases b) \<and> set (cb_phases b) = fst ` X \<and>
     (\<forall>(k, ph) \<in> X. \<forall>v. phase_value name ph = Some v \<longrightarrow> \<not> dlt v (cb_best_obj b)) \<and>
     (cb_best_obj b = DBL_MAX \<or> (\<exists>ph. (cb_phase_num b, ph) \<in> X \<and> phase_value name ph = Some (cb_best_obj b))) \<and>
     best_of (rts_compared name (rts_of_phases X)) (cb_rts b)"

lemma chosen_none: "chosen name {} no_best"
  using best_of_empty by (simp add: chosen_def no_best_def rts_of_phases_def)

lemma note_phase_best:
  assumes "vector_at objs 0 = ret (f, u)" and "phase_valued (objective_name f) ph" and "chosen (objective_name f) X b"
    and ord: "order_ok (ie_map_order (ne_base env))" and c: "word_of_int (ph_clusterID ph) = c"
  shows "total (note_phase env objs c (k, ph) b) (chosen (objective_name f) (insert (k, ph) X))"
proof -
  let ?n = "objective_name f"
  from assms(2) obtain v where v: "phase_value ?n ph = Some v" and rs: "\<forall>r \<in> set (ph_rtsInfo ph). rts_valued ?n r"
    by (auto simp: phase_valued_def)
  have value_found: "found (ph_normalizedObj ph) ?n = ret v" using v by (simp add: phase_value_def)
  let ?b = "if dlt v (cb_best_obj b) then b\<lparr>cb_best_obj := v, cb_phase_num := k\<rparr> else b"
  have best: "best_of (rts_compared ?n (rts_of_phases X)) (cb_rts ?b)" using assms(3) by (simp add: chosen_def)
  have X: "rts_of_phases (insert (k, ph) X) = Pair k ` set (ph_rtsInfo ph) \<union> rts_of_phases X" by (auto simp: rts_of_phases_def)
  from note_rtss_best [OF rs best ord, of k] obtain m where
    m: "cfold (note_rts env ?n k) (ph_rtsInfo ph) (cb_rts ?b) = ret m" "best_of (rts_compared ?n (rts_of_phases (insert (k, ph) X))) m"
    unfolding X total_def by blast
  have "note_phase env objs c (k, ph) b = ret (?b\<lparr>cb_phases := insort_insert k (cb_phases ?b), cb_rts := m\<rparr>)"
    unfolding note_phase_def prod.case c assms(1) cbind_ret value_found Let_def m(1) by simp
  moreover have lower: "\<not> dlt w (cb_best_obj ?b)" if "(q, x) \<in> insert (k, ph) X" "phase_value ?n x = Some w" for q x w
  proof (cases "(q, x) \<in> X")
    case True
    with that(2) assms(3) have "\<not> dlt w (cb_best_obj b)" by (auto simp: chosen_def)
    then show ?thesis using dlt_trans by auto
  next
    case False
    with that v show ?thesis by simp
  qed
  moreover have found_best: "cb_best_obj ?b = DBL_MAX \<or> (\<exists>x. (cb_phase_num ?b, x) \<in> insert (k, ph) X \<and> phase_value ?n x = Some (cb_best_obj ?b))"
    using assms(3) v by (auto simp: chosen_def)
  moreover have "chosen ?n (insert (k, ph) X) (?b\<lparr>cb_phases := insort_insert k (cb_phases ?b), cb_rts := m\<rparr>)"
    unfolding chosen_def
  proof (intro conjI)
    show "\<forall>(q, x) \<in> insert (k, ph) X. \<forall>w. phase_value ?n x = Some w \<longrightarrow>
        \<not> dlt w (cb_best_obj (?b\<lparr>cb_phases := insort_insert k (cb_phases ?b), cb_rts := m\<rparr>))"
      using lower by fastforce
  qed (use assms(3) m(2) found_best in \<open>simp_all add: chosen_def sorted_insort_insert set_insort_insert distinct_insort_insert\<close>)
  ultimately show ?thesis by simp
qed

lemma note_phases_best:
  assumes obj: "vector_at objs 0 = ret (f, u)" and ord: "order_ok (ie_map_order (ne_base env))"
    and "\<forall>(k, ph) \<in> set ps. word_of_int (ph_clusterID ph) = c \<longrightarrow> phase_valued (objective_name f) ph" and "chosen (objective_name f) X b"
  shows "total (cfold (note_phase env objs c) ps b) (chosen (objective_name f) (members c (set ps) \<union> X))"
  using assms(3,4)
proof (induction ps arbitrary: b X)
  case (Cons p ps)
  obtain k ph where p: "p = (k, ph)" by (cases p)
  show ?case
  proof (cases "word_of_int (ph_clusterID ph) = c")
    case True
    have first: "total (note_phase env objs c p b) (chosen (objective_name f) (insert (k, ph) X))"
      unfolding p by (rule note_phase_best [OF obj _ Cons.prems(2) ord True]) (use Cons.prems(1) p True in auto)
    have "total (cbind (note_phase env objs c p b) (cfold (note_phase env objs c) ps)) (chosen (objective_name f) (members c (set ps) \<union> insert (k, ph) X))"
      by (rule total_bind [OF first], rule Cons.IH) (use Cons.prems in simp_all)
    then have "total (cfold (note_phase env objs c) (p # ps) b) (chosen (objective_name f) (members c (set ps) \<union> insert (k, ph) X))" by simp
    moreover have "members c (set (p # ps)) \<union> X = members c (set ps) \<union> insert (k, ph) X" using p True by (auto simp: members_def)
    ultimately show ?thesis by simp
  next
    case False
    moreover have "members c (set (p # ps)) = members c (set ps)" using p False by (auto simp: members_def)
    ultimately show ?thesis using Cons p by (simp add: note_phase_def)
  qed
qed (simp add: members_def)

text \<open>
  What is chosen for a cluster: its members in ascending order, the first phase with a best value when there is a value below
  the largest number, and the best phase of every runtime situation.
\<close>

definition value_in :: "string \<Rightarrow> phases \<Rightarrow> phase_num \<Rightarrow> dbl" where
  "value_in name ps q = (case sm_find ps q of None \<Rightarrow> NaN | Some ph \<Rightarrow> (case phase_value name ph of None \<Rightarrow> NaN | Some v \<Rightarrow> v))"

definition best_choice :: "string \<Rightarrow> phases \<Rightarrow> phase_num \<Rightarrow> phase_num \<times> phase_num list \<Rightarrow> (string, dbl \<times> phase_num) umap \<Rightarrow> bool" where
  "best_choice name ps c = (\<lambda>(k, ms) m.
     sorted ms \<and> distinct ms \<and> set ms = {q. \<exists>ph. sm_find ps q = Some ph \<and> word_of_int (ph_clusterID ph) = c} \<and>
     ((\<exists>q \<in> set ms. dlt (value_in name ps q) DBL_MAX) \<longrightarrow>
        k \<in> set ms \<and> (\<forall>q \<in> set ms. \<not> dlt (value_in name ps q) (value_in name ps k))) \<and>
     best_of (rts_compared name (rts_of_phases (members c (set ps)))) m)"

lemma in_members: "sm_wf ps \<Longrightarrow> (k, ph) \<in> members c (set ps) \<longleftrightarrow> sm_find ps k = Some ph \<and> word_of_int (ph_clusterID ph) = c"
  using sm_wf_distinct [of ps] by (auto simp: members_def sm_find_def)

lemma chosen_best_choice:
  assumes "sm_wf ps" and "chosen name (members c (set ps)) b"
  shows "best_choice name ps c (cb_phase_num b, cb_phases b) (cb_rts b)"
proof -
  let ?X = "members c (set ps)"
  have keys: "set (cb_phases b) = fst ` ?X" using assms(2) by (simp add: chosen_def)
  have keys_find: "fst ` ?X = {q. \<exists>ph. sm_find ps q = Some ph \<and> word_of_int (ph_clusterID ph) = c}"
  proof (rule set_eqI)
    fix q
    have "q \<in> fst ` ?X \<longleftrightarrow> (\<exists>ph. (q, ph) \<in> ?X)" by force
    then show "q \<in> fst ` ?X \<longleftrightarrow> q \<in> {q. \<exists>ph. sm_find ps q = Some ph \<and> word_of_int (ph_clusterID ph) = c}"
      by (simp add: in_members [OF assms(1)])
  qed
  have known: "value_in name ps q = v" if "(q, ph) \<in> ?X" "phase_value name ph = Some v" for q ph v
    using that by (simp add: in_members [OF assms(1)] value_in_def)
  have lower: "\<not> dlt (value_in name ps q) (cb_best_obj b)" if "(q, ph) \<in> ?X" for q ph
  proof (cases "phase_value name ph")
    case None
    with that show ?thesis by (simp add: in_members [OF assms(1)] value_in_def dlt_iff is_nan_def)
  next
    case (Some v)
    with assms(2) that known show ?thesis by (auto simp: chosen_def)
  qed
  have "cb_phase_num b \<in> fst ` ?X \<and> (\<forall>q \<in> fst ` ?X. \<not> dlt (value_in name ps q) (value_in name ps (cb_phase_num b)))"
    if "q \<in> fst ` ?X" "dlt (value_in name ps q) DBL_MAX" for q
  proof -
    from that lower have "cb_best_obj b \<noteq> DBL_MAX" by auto
    with assms(2) obtain ph where ph: "(cb_phase_num b, ph) \<in> ?X" "phase_value name ph = Some (cb_best_obj b)"
      by (auto simp: chosen_def)
    with known [OF ph] lower show ?thesis by force
  qed
  with assms(2) keys show ?thesis unfolding best_choice_def prod.case keys_find [symmetric] by (auto simp: chosen_def)
qed

text \<open>All clusters from the first to the last get one.\<close>

definition choices_upto :: "string \<Rightarrow> interph \<Rightarrow> int \<Rightarrow> interph \<Rightarrow> bool" where
  "choices_upto name g n g' \<longleftrightarrow> dtaPhases g' = dtaPhases g \<and> num_clusters g' = num_clusters g \<and>
     dist_matrix g' = dist_matrix g \<and> k_neigh_dist g' = k_neigh_dist g \<and>
     fst ` set (configForClusters g') = {c. 1 \<le> uint c \<and> uint c \<le> n} \<and> sm_wf (configForClusters g') \<and>
     int (length (rts_best_objs g')) = n \<and>
     (\<forall>c. 1 \<le> uint c \<and> uint c \<le> n \<longrightarrow> (\<exists>x. sm_find (configForClusters g') c = Some x \<and>
        best_choice name (dtaPhases g) c x (rts_best_objs g' ! nat (uint c - 1))))"

lemma choices_next:
  assumes "choices_upto name g n g'" and "uint c = n + 1" and "0 \<le> n" and "best_choice name (dtaPhases g) c x m"
  shows "choices_upto name g (n + 1)
    (g'\<lparr>configForClusters := sm_insert c x (configForClusters g'), rts_best_objs := rts_best_objs g' @ [m]\<rparr>)"
proof -
  let ?M = "configForClusters g'"
  have keys: "fst ` set ?M = {c. 1 \<le> uint c \<and> uint c \<le> n}" and len: "int (length (rts_best_objs g')) = n"
    and old: "\<And>d. 1 \<le> uint d \<Longrightarrow> uint d \<le> n \<Longrightarrow> \<exists>y. sm_find ?M d = Some y \<and> best_choice name (dtaPhases g) d y (rts_best_objs g' ! nat (uint d - 1))"
    using assms(1) by (simp_all add: choices_upto_def)
  have "c \<notin> dom (sm_find ?M)" unfolding keys_sm_find [symmetric] keys using assms(2) by simp
  then have new: "\<not> sm_has ?M c" by (auto simp: sm_has_def)
  have same: "d = c" if "uint d = n + 1" for d using that assms(2) by (metis word_uint_eqI)
  have "\<exists>y. sm_find (sm_insert c x ?M) d = Some y \<and> best_choice name (dtaPhases g) d y ((rts_best_objs g' @ [m]) ! nat (uint d - 1))"
    if d: "1 \<le> uint d" "uint d \<le> n + 1" for d
  proof (cases "uint d = n + 1")
    case True
    have "nat (uint d - 1) = length (rts_best_objs g')" using True len assms(3) by simp
    with same [OF True] new assms(4) show ?thesis by (simp add: sm_insert_def)
  next
    case False
    with d have u: "uint d \<le> n" by simp
    then have "nat (uint d - 1) < length (rts_best_objs g')" "d \<noteq> c" using len d assms(2) by auto
    with old [OF d(1) u] new show ?thesis by (simp add: nth_append sm_insert_def)
  qed
  moreover have "fst ` set (sm_insert c x ?M) = {c. 1 \<le> uint c \<and> uint c \<le> n + 1}"
  proof -
    have "fst ` set (sm_insert c x ?M) = insert c {c. 1 \<le> uint c \<and> uint c \<le> n}" using new keys by (simp add: sm_insert_def keys_sm_put)
    also have "\<dots> = {c. 1 \<le> uint c \<and> uint c \<le> n + 1}"
    proof (rule set_eqI)
      fix d show "d \<in> insert c {c. 1 \<le> uint c \<and> uint c \<le> n} \<longleftrightarrow> d \<in> {c. 1 \<le> uint c \<and> uint c \<le> n + 1}"
      proof (cases "uint d = n + 1")
        case False
        then have "d \<noteq> c" using assms(2) by blast
        moreover have "uint d \<le> n + 1 \<longleftrightarrow> uint d \<le> n" using False by linarith
        ultimately show ?thesis by simp
      qed (use assms(2,3) same in simp)
    qed
    finally show ?thesis .
  qed
  ultimately show ?thesis using assms(1) by (simp add: choices_upto_def)
qed

lemma best_configs:
  assumes obj: "vector_at objs 0 = ret (f, u)" and ord: "order_ok (ie_map_order (ne_base env))" and wf: "sm_wf (dtaPhases g)"
    and valued: "\<forall>(k, ph) \<in> set (dtaPhases g). phase_valued (objective_name f) ph"
    and fresh: "configForClusters g = []" "rts_best_objs g = []" and few: "uint (num_clusters g) < 2 ^ 32 - 1"
  shows "total (computeBestConfigForCluster env objs g) (choices_upto (objective_name f) g (uint (num_clusters g)))"
proof -
  let ?n = "uint (num_clusters g)" and ?name = "objective_name f"
  let ?I = "\<lambda>(c :: phase_num, g'). 1 \<le> uint c \<and> uint c \<le> ?n + 1 \<and> choices_upto ?name g (uint c - 1) g'"
  have "total (loop (best_body env objs) (1, g)) (\<lambda>(c, g'). choices_upto ?name g ?n g')"
  proof (rule total_loop [where I = ?I and r = "measure (\<lambda>(c :: phase_num, g' :: interph). nat (?n + 1 - uint c))"])
    show "?I (1, g)" using fresh wf by (auto simp: choices_upto_def)
    fix s assume I: "?I s"
    obtain c g' where s: "s = (c, g')" by (cases s)
    with I have c: "1 \<le> uint c" "uint c \<le> ?n + 1" and ch: "choices_upto ?name g (uint c - 1) g'" by auto
    have same: "dtaPhases g' = dtaPhases g" "num_clusters g' = num_clusters g" using ch by (simp_all add: choices_upto_def)
    show "total (best_body env objs s) (\<lambda>(again, t). if again then ?I t \<and> (t, s) \<in> measure (\<lambda>(c :: phase_num, g' :: interph). nat (?n + 1 - uint c))
        else (\<lambda>(c, g'). choices_upto ?name g ?n g') t)"
    proof (cases "c \<le> num_clusters g")
      case True
      then have le: "uint c \<le> ?n" by (simp add: word_le_def)
      then have succ: "uint (c + 1) = uint c + 1" using few by (intro uint_plus_simple [THEN trans]) (simp_all add: no_olen_add)
      have "total (cfold (note_phase env objs c) (dtaPhases g) no_best) (chosen ?name (members c (set (dtaPhases g)) \<union> {}))"
        by (rule note_phases_best [OF obj ord _ chosen_none]) (use valued in auto)
      then obtain b where b: "cfold (note_phase env objs c) (dtaPhases g) no_best = ret b" "chosen ?name (members c (set (dtaPhases g))) b"
        by (auto simp: total_def)
      have "choices_upto ?name g (uint c - 1 + 1) (g'\<lparr>configForClusters := sm_insert c (cb_phase_num b, cb_phases b) (configForClusters g'),
          rts_best_objs := rts_best_objs g' @ [cb_rts b]\<rparr>)"
        by (rule choices_next [OF ch _ _ chosen_best_choice [OF wf b(2)]]) (use c in simp_all)
      then show ?thesis using True b(1) c le by (simp add: s best_body_def same succ)
    next
      case False
      then have "?n < uint c" by (simp add: word_le_def)
      with c have "uint c - 1 = ?n" by simp
      with ch False show ?thesis by (simp add: s best_body_def same)
    qed
  qed simp
  then show ?thesis by (auto simp: computeBestConfigForCluster_def total_def)
qed

section \<open>The end of the first step\<close>

lemma cmap_values_ret:
  "cmap_values f xs = ret ys \<Longrightarrow> list_all2 (\<lambda>(k, v) (k', v'). k' = k \<and> f v = ret v') xs ys"
  by (induction xs arbitrary: ys) (auto simp: cbind_eq_ret)

lemma cmap_values_total:
  "(\<And>k v. (k, v) \<in> set xs \<Longrightarrow> total (f v) (R v)) \<Longrightarrow>
     total (cmap_values f xs) (\<lambda>ys. list_all2 (\<lambda>(k, v) (k', v'). k' = k \<and> R v v') xs ys)"
proof (induction xs)
  case (Cons x xs)
  obtain k v where x: "x = (k, v)" by (cases x)
  from Cons.prems [of k v] x obtain v' where v': "f v = ret v'" "R v v'" by (auto simp: total_def)
  from Cons obtain ys where "cmap_values f xs = ret ys" "list_all2 (\<lambda>(k, v) (k', v'). k' = k \<and> R v v') xs ys"
    by (auto simp: total_def)
  with x v' show ?case by simp
qed simp

lemma mapped_find:
  assumes "list_all2 (\<lambda>(k, v) (k', v'). k' = k \<and> R v v') xs ys"
  shows "map fst ys = map fst xs" and "rel_option R (sm_find xs p) (sm_find ys p)"
  using assms by (induction xs ys) (auto simp: sm_find_Cons split: prod.splits)

text \<open>
  What the plugin has to have stored of the phases: a value of the first objective and the numbers of instructions, for
  every phase and every runtime situation.
\<close>

definition rts_measured :: "string \<Rightarrow> rts_info \<Rightarrow> bool" where
  "rts_measured name r \<longleftrightarrow> sm_has (ri_phaseIdentifiers r) ''TotalInstr'' \<and> sm_has (ri_objValues r) name"

definition phase_measured :: "string \<Rightarrow> phase_info \<Rightarrow> bool" where
  "phase_measured name ph \<longleftrightarrow> sm_has (ph_phaseIdentifiers ph) ''TotalInstr'' \<and> sm_has (ph_objValues ph) name \<and>
     (\<forall>r \<in> set (ph_rtsInfo ph). rts_measured name r)"

lemma has_inserted: "sm_has (sm_insert k v m) name \<longleftrightarrow> name = k \<or> sm_has m name"
  by (auto simp: sm_insert_def sm_has_def)

lemma normalized_has: "sm_has (normalized_objectives t objs m) name \<longleftrightarrow> sm_has objs name \<or> sm_has m name"
proof (induction objs arbitrary: m)
  case (Cons x objs)
  obtain k v where x: "x = (k, v)" by (cases x)
  have "sm_has (x # objs) name \<longleftrightarrow> name = k \<or> sm_has objs name" by (simp add: x sm_has_def sm_find_Cons)
  moreover have "normalized_objectives t (x # objs) m = normalized_objectives t objs
      (sm_insert k (if search_in (\<lambda>t. take 10 t = ''Normalized'') k then v else ddiv v t) m)"
    by (simp add: x normalized_objectives_def)
  ultimately show ?case by (auto simp: Cons.IH has_inserted)
qed (simp add: normalized_objectives_def sm_has_def)

text \<open>Normalising changes nothing of a phase but its normalised values and its rts's.\<close>

definition renormalized :: "string \<Rightarrow> phase_info \<Rightarrow> phase_info \<Rightarrow> bool" where
  "renormalized name ph ph' \<longleftrightarrow> ph_clusterID ph' = ph_clusterID ph \<and> ph_scenarioConfig ph' = ph_scenarioConfig ph \<and> phase_valued name ph'"

lemma normalize_phase_total:
  assumes "phase_measured name ph"
  shows "total (normalize_phase ph) (renormalized name ph)"
proof -
  from assms obtain t where t: "found (ph_phaseIdentifiers ph) ''TotalInstr'' = ret t"
    by (auto simp: phase_measured_def sm_has_def)
  have one: "total (normalize_rts r) (rts_valued name)" if "rts_measured name r" for r
  proof -
    from that obtain u where "found (ri_phaseIdentifiers r) ''TotalInstr'' = ret u" by (auto simp: rts_measured_def sm_has_def)
    with that show ?thesis unfolding normalize_rts_def by (simp add: rts_valued_def rts_measured_def normalized_has del: found_ret)
  qed
  have "total (cfold (\<lambda>r rs. cbind (normalize_rts r) (\<lambda>r. ret (rs @ [r]))) (ph_rtsInfo ph) []) (\<lambda>rs. \<forall>r \<in> set rs. rts_valued name r)"
  proof (rule total_cfold)
    fix r rs assume "r \<in> set (ph_rtsInfo ph)" and rs: "\<forall>r \<in> set rs. rts_valued name r"
    then have "rts_measured name r" using assms by (simp add: phase_measured_def)
    from one [OF this] show "total (cbind (normalize_rts r) (\<lambda>r. ret (rs @ [r]))) (\<lambda>rs. \<forall>r \<in> set rs. rts_valued name r)"
      by (rule total_bind) (use rs in auto)
  qed simp
  then obtain rs where "cfold (\<lambda>r rs. cbind (normalize_rts r) (\<lambda>r. ret (rs @ [r]))) (ph_rtsInfo ph) [] = ret rs"
    "\<forall>r \<in> set rs. rts_valued name r" by (auto simp: total_def)
  moreover have "phase_value name (ph\<lparr>ph_normalizedObj := normalized_objectives t (ph_objValues ph) (ph_normalizedObj ph), ph_rtsInfo := rs\<rparr>) \<noteq> None"
    using assms normalized_has [of t "ph_objValues ph" "ph_normalizedObj ph" name] by (auto simp: phase_measured_def phase_value_def sm_has_def)
  ultimately show ?thesis unfolding normalize_phase_def t cbind_ret by (simp add: renormalized_def phase_valued_def)
qed

text \<open>What the computation of the features changes of a phase.\<close>

definition same_measured :: "string \<Rightarrow> phase_info \<Rightarrow> phase_info \<Rightarrow> bool" where
  "same_measured name ph ph' \<longleftrightarrow> (phase_measured name ph \<longrightarrow> phase_measured name ph') \<and> ph_visited ph' = ph_visited ph \<and>
     ph_neighbors ph' = ph_neighbors ph \<and> ph_clusterID ph' = ph_clusterID ph"

lemma compute_intensity_same: "compute_intensity ph = ret ph' \<Longrightarrow> same_measured name ph ph'"
  by (auto simp: compute_intensity_def same_measured_def phase_measured_def has_inserted cbind_eq_ret)

lemma normalize_features_same: "normalize_features r ph = ret ph' \<Longrightarrow> same_measured name ph ph'"
  by (auto simp: normalize_features_def same_measured_def phase_measured_def has_inserted cbind_eq_ret split: prod.splits)

lemma density_label: "density_clustering ps eps n lab \<Longrightarrow> p \<in> fst ` set ps \<Longrightarrow> lab p = NOISE \<or> 1 \<le> lab p \<and> lab p \<le> n"
  unfolding density_clustering_def by blast

lemma density_nonempty: "density_clustering ps eps n lab \<Longrightarrow> 1 \<le> i \<Longrightarrow> i \<le> n \<Longrightarrow> \<exists>p \<in> fst ` set ps. lab p = i"
  unfolding density_clustering_def by blast

lemma clusters_few:
  assumes "density_clustering ps eps n lab"
  shows "n \<le> int (length ps)"
proof -
  have "{1..n} \<subseteq> lab ` (fst ` set ps)" using density_nonempty [OF assms] by fastforce
  then have "card {1..n} \<le> card (lab ` fst ` set ps)" by (intro card_mono) simp_all
  also have "\<dots> \<le> length ps" using card_length [of "map lab (map fst ps)"] by (simp add: image_image)
  finally show ?thesis by simp
qed

lemma mapped_wf: "list_all2 (\<lambda>(k, v) (k', v'). k' = k \<and> R v v') xs ys \<Longrightarrow> sm_wf xs \<Longrightarrow> sm_wf ys"
  using mapped_find(1) [of R xs ys] by (simp add: sm_wf_def)

lemma mapped_all:
  "list_all2 (\<lambda>(k, v) (k', v'). k' = k \<and> R v v') xs ys \<Longrightarrow> (k, v') \<in> set ys \<Longrightarrow> \<exists>v. (k, v) \<in> set xs \<and> R v v'"
  by (induction xs ys rule: list_all2_induct) auto

lemma mapped_trans:
  "list_all2 (\<lambda>(k, v) (k', v'). k' = k \<and> R v v') xs ys \<Longrightarrow> list_all2 (\<lambda>(k, v) (k', v'). k' = k \<and> Q v v') ys zs \<Longrightarrow>
   (\<And>u v w. R u v \<Longrightarrow> Q v w \<Longrightarrow> P u w) \<Longrightarrow> list_all2 (\<lambda>(k, v) (k', v'). k' = k \<and> P v v') xs zs"
  by (rule list_all2_trans) auto

lemma features_keep:
  assumes "calcComputeIntensity g = ret g1" and "normalizeIdentifiers g1 = ret g2"
  shows "\<exists>ps. g2 = g\<lparr>dtaPhases := ps\<rparr> \<and> list_all2 (\<lambda>(k, v) (k', v'). k' = k \<and> same_measured name v v') (dtaPhases g) ps"
proof -
  from assms(1) obtain ps1 where ps1: "cmap_values compute_intensity (dtaPhases g) = ret ps1" "g1 = g\<lparr>dtaPhases := ps1\<rparr>"
    by (auto simp: calcComputeIntensity_def cbind_eq_ret)
  with assms(2) obtain r ps2 where ps2: "cmap_values (normalize_features r) ps1 = ret ps2" "g2 = g\<lparr>dtaPhases := ps2\<rparr>"
    by (auto simp: normalizeIdentifiers_def cbind_eq_ret)
  have "list_all2 (\<lambda>(k, v) (k', v'). k' = k \<and> same_measured name v v') (dtaPhases g) ps1"
    by (rule list_all2_mono [OF cmap_values_ret [OF ps1(1)]]) (auto intro: compute_intensity_same)
  moreover have "list_all2 (\<lambda>(k, v) (k', v'). k' = k \<and> same_measured name v v') ps1 ps2"
    by (rule list_all2_mono [OF cmap_values_ret [OF ps2(1)]]) (auto intro: normalize_features_same)
  ultimately have "list_all2 (\<lambda>(k, v) (k', v'). k' = k \<and> same_measured name v v') (dtaPhases g) ps2"
    by (rule mapped_trans) (simp add: same_measured_def)
  with ps2(2) show ?thesis by blast
qed

text \<open>Comparing a label as \<open>unsigned\<close> finds no other phases than comparing it as a number: noise is no cluster.\<close>

lemma cluster_label:
  assumes "density_clustering ps eps n lab" and "p \<in> fst ` set ps" and "1 \<le> uint c" "uint c \<le> n" and "n < INT_MAX"
  shows "(word_of_int (lab p) :: phase_num) = c \<longleftrightarrow> lab p = uint c"
proof
  assume c: "(word_of_int (lab p) :: phase_num) = c"
  from density_label [OF assms(1,2)] show "lab p = uint c"
  proof
    assume "lab p = NOISE"
    with c have "uint c = 2 ^ 32 - 2" unfolding c [symmetric] by (simp add: NOISE_def uint_word_of_int)
    with assms(4,5) show ?thesis by (simp add: INT_MAX_def)
  next
    assume "1 \<le> lab p \<and> lab p \<le> n"
    then show ?thesis unfolding c [symmetric] using assms(5) by (simp add: uint_word_of_int INT_MAX_def)
  qed
qed simp

lemma choices_complete:
  assumes wf: "sm_wf ps" and same: "fst ` set ps = fst ` set ps2"
    and d: "density_clustering ps2 eps n (label ps)" and n: "n < INT_MAX"
    and c: "1 \<le> uint c" "uint c \<le> n" and best: "best_choice name ps c x m"
  shows "set (snd x) = {p \<in> fst ` set ps. label ps p = uint c} \<and> snd x \<noteq> []"
proof -
  obtain k ms where x: "x = (k, ms)" by (cases x)
  have eq: "(word_of_int (label ps p) :: phase_num) = c \<longleftrightarrow> label ps p = uint c" if "p \<in> fst ` set ps" for p
    using cluster_label [OF d _ c n, of p] that same by simp
  have "set ms = {q. \<exists>ph. sm_find ps q = Some ph \<and> word_of_int (ph_clusterID ph) = c}" using best by (simp add: best_choice_def x)
  also have "\<dots> = {p \<in> fst ` set ps. (word_of_int (label ps p) :: phase_num) = c}" by (auto simp: keys_sm_find label_def)
  also have "\<dots> = {p \<in> fst ` set ps. label ps p = uint c}" using eq by auto
  finally have "set ms = {p \<in> fst ` set ps. label ps p = uint c}" .
  moreover have "\<exists>p \<in> fst ` set ps. label ps p = uint c" using density_nonempty [OF d c] same by simp
  ultimately show ?thesis by (auto simp: x)
qed

text \<open>After the objectives are normalised every phase has what the choice compares.\<close>

lemma objectives_normalized:
  assumes wf: "sm_wf (dtaPhases g)" and measured: "\<forall>(k, x) \<in> set (dtaPhases g). phase_measured name x"
  obtains ps where "normalizeObjectives g = ret (g\<lparr>dtaPhases := ps\<rparr>)" and "map fst ps = map fst (dtaPhases g)" and "sm_wf ps"
    and "label ps = label (dtaPhases g)" and "\<forall>(k, ph) \<in> set ps. phase_valued name ph"
proof -
  have "total (cmap_values normalize_phase (dtaPhases g))
      (\<lambda>ys. list_all2 (\<lambda>(k, v) (k', v'). k' = k \<and> renormalized name v v') (dtaPhases g) ys)"
    using measured by (intro cmap_values_total normalize_phase_total) blast
  then obtain ps where ps: "cmap_values normalize_phase (dtaPhases g) = ret ps"
    and m: "list_all2 (\<lambda>(k, v) (k', v'). k' = k \<and> renormalized name v v') (dtaPhases g) ps" by (auto simp: total_def)
  have "label ps = label (dtaPhases g)"
  proof
    fix p show "label ps p = label (dtaPhases g) p"
      using mapped_find(2) [OF m, of p] by (cases "sm_find (dtaPhases g) p") (auto simp: label_def renormalized_def option_rel_Some1)
  qed
  moreover have "\<forall>(k, ph) \<in> set ps. phase_valued name ph" using mapped_all [OF m] by (fastforce simp: renormalized_def)
  ultimately show thesis using that ps mapped_find(1) [OF m] mapped_wf [OF m wf] by (simp add: normalizeObjectives_def)
qed

lemma bare_keys:
  assumes "sm_wf ps" and "sm_wf qs" and "\<And>p. map_option bare (sm_find ps p) = map_option bare (sm_find qs p)"
  shows "map fst ps = map fst qs"
proof -
  have "set (map fst ps) = set (map fst qs)"
    unfolding set_map keys_sm_find using assms(3) by (metis (no_types, lifting) dom_map_option_comp comp_apply ext)
  then show ?thesis using assms(1,2) unfolding sm_wf_def by (metis sorted_distinct_set_unique strict_sorted_iff)
qed

lemma bare_measured: "bare x = bare y \<Longrightarrow> phase_measured name y \<Longrightarrow> phase_measured name x"
proof -
  assume "bare x = bare y" "phase_measured name y"
  then have "phase_measured name (bare y)" "phase_measured name (bare y) = phase_measured name (bare x)"
    by (simp_all add: bare_def phase_measured_def)
  then show ?thesis by (simp add: bare_def phase_measured_def)
qed

lemma deref_eq_ret: "deref x = ret y \<longleftrightarrow> x = Some y"
  by (cases x) (simp_all add: deref_def)

text \<open>What the file of the clusters needs is there once the features have been computed.\<close>

definition described :: "phase_info \<Rightarrow> bool" where
  "described ph \<longleftrightarrow> sm_has (ph_phaseIdentifiers ph) ''BranchInstr'' \<and> sm_has (ph_phaseIdentifiers ph) ''ComputeIntensity''"

lemma normalize_features_described: "normalize_features r ph = ret ph' \<Longrightarrow> described ph'"
  by (auto simp: normalize_features_def raw_features_def found_def deref_eq_ret described_def sm_has_def cbind_eq_ret
      split: prod.splits option.splits)

lemma features_described:
  assumes "normalizeIdentifiers g1 = ret g2" and "(k, x) \<in> set (dtaPhases g2)"
  shows "described x"
proof -
  from assms(1) obtain r ps2 where ps2: "cmap_values (normalize_features r) (dtaPhases g1) = ret ps2" "g2 = g1\<lparr>dtaPhases := ps2\<rparr>"
    by (auto simp: normalizeIdentifiers_def cbind_eq_ret)
  have "list_all2 (\<lambda>(k, v) (k', v'). k' = k \<and> normalize_features r v = ret v') (dtaPhases g1) ps2"
    by (rule list_all2_mono [OF cmap_values_ret [OF ps2(1)]]) auto
  from mapped_all [OF this, of k x] assms(2) ps2(2) normalize_features_described [of r _ x] show ?thesis by auto
qed

lemma bare_described: "bare x = bare y \<Longrightarrow> described y \<Longrightarrow> described x"
proof -
  assume "bare x = bare y" "described y"
  then have "described (bare y)" "described (bare y) = described (bare x)" by (simp_all add: bare_def described_def)
  then show ?thesis by (simp add: bare_def described_def)
qed

lemma clusters_exported:
  assumes "dtaPhases g \<noteq> []" and "\<And>k x. (k, x) \<in> set (dtaPhases g) \<Longrightarrow> described x \<and> phase_measured name x"
  shows "exportClusters g = ret ()"
proof -
  have one: "generateFile x = ret ()" if "described x" "phase_measured name x" for x
    using that by (auto simp: generateFile_def described_def phase_measured_def found_def deref_def sm_has_def sm_find_def split: option.splits)
  have "cfold (\<lambda>(_, ph) _. generateFile ph) ps () = ret ()" if "\<And>k x. (k, x) \<in> set ps \<Longrightarrow> generateFile x = ret ()" for ps :: phases
    using that by (induction ps) fastforce+
  with one assms show ?thesis by (simp add: exportClusters_def)
qed

text \<open>The first part of the end of the step: the features and the clusters.\<close>

lemma clustering_after_features:
  assumes "sorts std_sort" and "unclustered g"
    and "\<forall>(k, ph) \<in> set (dtaPhases g). phase_measured name ph"
    and "calcComputeIntensity g = ret g1" and "normalizeIdentifiers g1 = ret g2" and "finite_features (dtaPhases g2)"
    and "4 \<le> length (dtaPhases g)" and "int (length (dtaPhases g)) < INT_MAX"
  obtains g3 eps where "interph_cluster std_sort g2 = ret g3" and "sm_wf (dtaPhases g3)"
    and "density_clustering (dtaPhases g2) eps (uint (num_clusters g3)) (label (dtaPhases g3))"
    and "map fst (dtaPhases g3) = map fst (dtaPhases g)" and "map fst (dtaPhases g2) = map fst (dtaPhases g)"
    and "configForClusters g3 = configForClusters g" and "rts_best_objs g3 = rts_best_objs g"
    and "\<And>k x. (k, x) \<in> set (dtaPhases g3) \<Longrightarrow> described x \<and> phase_measured name x"
proof -
  from features_keep [OF assms(4,5), of name] obtain ps2 where g2: "g2 = g\<lparr>dtaPhases := ps2\<rparr>"
    and m2: "list_all2 (\<lambda>(k, v) (k', v'). k' = k \<and> same_measured name v v') (dtaPhases g) ps2" by blast
  have ready: "phase_measured name x \<and> \<not> ph_visited x \<and> ph_neighbors x = [] \<and> ph_clusterID x = UNCLASSIFIED" if x: "(k, x) \<in> set ps2" for k x
    using mapped_all [OF m2 x] assms(2,3) by (fastforce simp: same_measured_def unclustered_def)
  have un2: "unclustered g2" using assms(2) ready mapped_wf [OF m2] by (auto simp: unclustered_def g2)
  then have wf2: "sm_wf ps2" by (simp add: unclustered_def g2)
  from clustering_total [OF assms(1) un2 assms(6)] assms(7,8) list_all2_lengthD [OF m2] g2 obtain g3 eps where
    g3: "interph_cluster std_sort g2 = ret g3" and wf3: "sm_wf (dtaPhases g3)"
    and d: "density_clustering ps2 eps (uint (num_clusters g3)) (label (dtaPhases g3))"
    and same: "\<And>p. map_option bare (sm_find (dtaPhases g3) p) = map_option bare (sm_find ps2 p)"
    and other: "configForClusters g3 = configForClusters g" "rts_best_objs g3 = rts_best_objs g" by auto
  have "described x \<and> phase_measured name x" if x: "(k, x) \<in> set (dtaPhases g3)" for k x
  proof -
    from x sm_wf_distinct [OF wf3] have "sm_find (dtaPhases g3) k = Some x" by (simp add: sm_find_def)
    with same [of k] obtain y where y: "sm_find ps2 k = Some y" "bare x = bare y" by (cases "sm_find ps2 k") auto
    then have y2: "(k, y) \<in> set ps2" by (simp add: sm_find_def map_of_SomeD)
    have "described y" using features_described [OF assms(5), of k y] y2 g2 by simp
    with y2 y show ?thesis using ready [of k y] bare_measured bare_described by blast
  qed
  with that g3 wf3 d other bare_keys [OF wf3 wf2 same] mapped_find(1) [OF m2] g2 show thesis by simp
qed

text \<open>
  C2: The end of the first tuning step. When every phase and runtime situation has been measured and at least four phases have
  finite features, the phases are divided into density clusters, and every cluster gets an entry: all its
  phases, and, when a value is below the largest number, the number of one of them whose normalised first objective no other
  betters; for every runtime situation of a phase of the cluster whose value is not 0, a phase of the cluster with a value that no
  other betters.
\<close>

theorem first_step_chooses_best:
  assumes "sorts (ne_sort env)" and "order_ok (ie_map_order (ne_base env))" and "objs = (f, u) # rest"
    and "unclustered g" and "configForClusters g = []" and "rts_best_objs g = []"
    and "\<forall>(k, ph) \<in> set (dtaPhases g). phase_measured (objective_name f) ph"
    and "calcComputeIntensity g = ret g1" and "normalizeIdentifiers g1 = ret g2" and "finite_features (dtaPhases g2)"
    and "4 \<le> length (dtaPhases g)" and "int (length (dtaPhases g)) < INT_MAX"
  shows "\<exists>g' eps. choose_configs env objs g = ret g' \<and> map fst (dtaPhases g') = map fst (dtaPhases g) \<and>
    density_clustering (dtaPhases g2) eps (uint (num_clusters g')) (label (dtaPhases g')) \<and>
    (\<forall>c. 1 \<le> uint c \<and> uint c \<le> uint (num_clusters g') \<longrightarrow> (\<exists>k ms. sm_find (configForClusters g') c = Some (k, ms) \<and>
       set ms = {p \<in> fst ` set (dtaPhases g'). label (dtaPhases g') p = uint c} \<and> ms \<noteq> [] \<and>
       best_choice (objective_name f) (dtaPhases g') c (k, ms) (rts_best_objs g' ! nat (uint c - 1))))"
proof -
  let ?name = "objective_name f"
  from clustering_after_features [OF assms(1,4,7-12)] obtain g3 eps where
    g3: "interph_cluster (ne_sort env) g2 = ret g3" and wf3: "sm_wf (dtaPhases g3)"
    and d: "density_clustering (dtaPhases g2) eps (uint (num_clusters g3)) (label (dtaPhases g3))"
    and keys: "map fst (dtaPhases g3) = map fst (dtaPhases g)" "map fst (dtaPhases g2) = map fst (dtaPhases g)"
    and blank: "configForClusters g3 = []" "rts_best_objs g3 = []"
    and ready: "\<And>k x. (k, x) \<in> set (dtaPhases g3) \<Longrightarrow> described x \<and> phase_measured ?name x" using assms(5,6) by metis
  have "length (dtaPhases g3) = length (dtaPhases g)" using keys(1) by (metis length_map)
  with assms(11) have "dtaPhases g3 \<noteq> []" by auto
  from clusters_exported [OF this ready] have exported: "exportClusters g3 = ret ()" by simp
  have "\<forall>(k, x) \<in> set (dtaPhases g3). phase_measured ?name x" using ready by blast
  from objectives_normalized [OF wf3 this] obtain ps where
    ps: "normalizeObjectives g3 = ret (g3\<lparr>dtaPhases := ps\<rparr>)" "map fst ps = map fst (dtaPhases g3)" "sm_wf ps"
    and lab: "label ps = label (dtaPhases g3)" and valued: "\<forall>(k, ph) \<in> set ps. phase_valued ?name ph" by blast
  let ?g4 = "g3\<lparr>dtaPhases := ps\<rparr>"
  have len: "length (dtaPhases g2) = length (dtaPhases g)" using keys(2) by (metis length_map)
  have few: "uint (num_clusters g3) < INT_MAX" using clusters_few [OF d] assms(12) len by simp
  have obj: "vector_at objs 0 = ret (f, u)" using assms(3) by (simp add: vector_at_def)
  have "total (computeBestConfigForCluster env objs ?g4) (choices_upto ?name ?g4 (uint (num_clusters ?g4)))"
    by (rule best_configs [OF obj assms(2)]) (use ps(3) valued blank few in \<open>simp_all add: INT_MAX_def\<close>)
  then obtain g' where g': "computeBestConfigForCluster env objs ?g4 = ret g'" and ch: "choices_upto ?name ?g4 (uint (num_clusters ?g4)) g'"
    by (auto simp: total_def)
  have ps': "dtaPhases g' = ps" "num_clusters g' = num_clusters g3" using ch by (simp_all add: choices_upto_def)
  have same: "fst ` set ps = fst ` set (dtaPhases g2)" using ps(2) keys by (metis set_map)
  have "\<exists>k ms. sm_find (configForClusters g') c = Some (k, ms) \<and>
       set ms = {p \<in> fst ` set ps. label ps p = uint c} \<and> ms \<noteq> [] \<and> best_choice ?name ps c (k, ms) (rts_best_objs g' ! nat (uint c - 1))"
    if c: "1 \<le> uint c" "uint c \<le> uint (num_clusters g3)" for c
  proof -
    from ch c obtain x where x: "sm_find (configForClusters g') c = Some x" "best_choice ?name ps c x (rts_best_objs g' ! nat (uint c - 1))"
      by (auto simp: choices_upto_def)
    with choices_complete [OF ps(3) same d [folded lab] few c x(2)] show ?thesis by (cases x) auto
  qed
  moreover have "choose_configs env objs g = ret g'"
    using assms(8,9) g3 exported ps(1) g' by (simp add: choose_configs_def)
  ultimately show ?thesis using d keys ps(2) ps' lab by (intro exI [of _ g'] exI [of _ eps]) simp
qed

text \<open>Four phases alike and a fifth that is different, with the energies 20, 8, 12, 16 and 4.\<close>

definition counted :: "int \<Rightarrow> int \<Rightarrow> int \<Rightarrow> phase_info" where
  "counted m b e = new_phaseInfo\<lparr>ph_phaseIdentifiers := [(''BranchInstr'', dbl_of_int b), (''L3Misses'', dbl_of_int m), (''TotalInstr'', dbl_of_int 4)],
     ph_objValues := [(''Energy'', dbl_of_int e)]\<rparr>"

definition measured_phases :: interph where
  "measured_phases = \<lparr>dtaPhases = [(0, counted 4 4 20), (1, counted 4 4 8), (2, counted 4 4 12), (3, counted 4 4 16), (4, counted 2 8 4)],
     configForClusters = [], rts_best_objs = [], num_clusters = 0, dist_matrix = [], k_neigh_dist = []\<rparr>"

definition inter_example_env :: "exhaustive inter_env" where
  "inter_example_env = \<lparr>ne_base = intra_example_env, ne_sort = insertion_sort, ne_rts_order = (\<lambda>rs. rs), ne_phase_iter = (\<lambda>_ _. 0)\<rparr>"

lemma measured_features:
  obtains g1 g2 where "calcComputeIntensity measured_phases = ret g1" and "normalizeIdentifiers g1 = ret g2" and "finite_features (dtaPhases g2)"
proof -
  have "map_option (map_sum (\<lambda>_. ()) (\<lambda>g. list_all (\<lambda>(_, x). is_finite (fst (ph_normalizedFeatures x)) \<and> is_finite (snd (ph_normalizedFeatures x)))
      (dtaPhases g))) (cbind (calcComputeIntensity measured_phases) normalizeIdentifiers) = Some (Inr True)"
    by code_simp
  from value_returned [OF this] obtain g2 where "cbind (calcComputeIntensity measured_phases) normalizeIdentifiers = ret g2"
    "list_all (\<lambda>(_, x). is_finite (fst (ph_normalizedFeatures x)) \<and> is_finite (snd (ph_normalizedFeatures x))) (dtaPhases g2)" by auto
  with that show thesis by (auto simp: cbind_eq_ret finite_features_def list_all_iff)
qed

theorem first_step_chooses_best_witness:
  "\<exists>g1 g2. calcComputeIntensity measured_phases = ret g1 \<and> normalizeIdentifiers g1 = ret g2 \<and> (\<exists>g' eps. choose_configs inter_example_env [(Energy, ''J'')] measured_phases = ret g' \<and> map fst (dtaPhases g') = [0, 1, 2, 3, 4] \<and>
    density_clustering (dtaPhases g2) eps (uint (num_clusters g')) (label (dtaPhases g')) \<and>
    (\<forall>c. 1 \<le> uint c \<and> uint c \<le> uint (num_clusters g') \<longrightarrow> (\<exists>k ms. sm_find (configForClusters g') c = Some (k, ms) \<and>
       set ms = {p \<in> fst ` set (dtaPhases g'). label (dtaPhases g') p = uint c} \<and> ms \<noteq> [] \<and>
       best_choice ''Energy'' (dtaPhases g') c (k, ms) (rts_best_objs g' ! nat (uint c - 1)))))"
proof -
  obtain g1 g2 where g: "calcComputeIntensity measured_phases = ret g1" "normalizeIdentifiers g1 = ret g2" "finite_features (dtaPhases g2)"
    by (rule measured_features)
  have env: "sorts (ne_sort inter_example_env)" "order_ok (ie_map_order (ne_base inter_example_env))"
    by (simp_all add: inter_example_env_def sorts_insertion intra_example_env_def)
  have u: "unclustered measured_phases"
    by (simp add: unclustered_def measured_phases_def counted_def new_phaseInfo_def sm_wf_Cons)
  have m: "\<forall>(k, ph) \<in> set (dtaPhases measured_phases). phase_measured (objective_name Energy) ph"
    by (simp add: measured_phases_def counted_def phase_measured_def new_phaseInfo_def sm_has_def sm_find_Cons)
  have l: "4 \<le> length (dtaPhases measured_phases)" "int (length (dtaPhases measured_phases)) < INT_MAX"
    and e: "configForClusters measured_phases = []" "rts_best_objs measured_phases = []"
    by (simp_all add: measured_phases_def INT_MAX_def)
  have k: "map fst (dtaPhases measured_phases) = [0, 1, 2, 3, 4]" by (simp add: measured_phases_def)
  show ?thesis
    by (rule exI [of _ g1], rule exI [of _ g2], rule conjI [OF g(1) conjI [OF g(2)]],
        rule first_step_chooses_best [OF env refl u e m g l, of "''J''" "[]", unfolded k objective_name.simps])
qed

end
