(* ===== verification/CallPaths.thy ===== *)
theory CallPaths
  imports CallTree
begin

text \<open>
  What the pass over the call tree does (\<open>Rts::setCallPaths\<close>, both overloads): on every tree of nodes linked both
  ways it returns, gives every node the names on its way from the root, takes parameters over from a parameter above
  and marks the nodes without a parameter below as valid. An abstract tree of pointers says which part of the store
  is meant.
\<close>

section \<open>Trees in the store\<close>

datatype rts_tree = Rts_Node (node_ptr: rts_ptr) (subtrees: "rts_tree list")

fun nodes :: "rts_tree \<Rightarrow> rts_ptr list" where
  "nodes (Rts_Node p ts) = p # concat (map nodes ts)"

fun call_tree :: "calltree \<Rightarrow> rts_tree \<Rightarrow> bool" where
  "call_tree st (Rts_Node p ts) =
     (p < length (rts_store st) \<and> rn_children (rts_store st ! p) = map node_ptr ts \<and>
      rn_rts_type (rts_store st ! p) \<noteq> None \<and>
      (\<forall>t\<in>set ts. rn_parent (rts_store st ! node_ptr t) = Some p \<and> call_tree st t))"

text \<open>The node above a tree, if there is one, is in the store and not in the tree.\<close>

definition above_ok :: "calltree \<Rightarrow> rts_tree \<Rightarrow> bool" where
  "above_ok st t =
     (case rn_parent (rts_store st ! node_ptr t) of None \<Rightarrow> True
      | Some q \<Rightarrow> q < length (rts_store st) \<and> rn_rts_type (rts_store st ! q) \<noteq> None \<and> q \<notin> set (nodes t))"

section \<open>What the pass leaves in a node\<close>

text \<open>A parameter below a parameter: the pointers it lacks come to the front.\<close>

definition inherited :: "calltree \<Rightarrow> rts_object \<Rightarrow> param_ptr list" where
  "inherited st n =
     (case rn_parent n of None \<Rightarrow> rn_parameter n
      | Some q \<Rightarrow>
          if rn_rts_type (rts_store st ! q) = Some NODE_PARAMETER \<and> rn_rts_type n = Some NODE_PARAMETER
          then fold (\<lambda>x ps. if x \<in> set ps then ps else x # ps) (rn_parameter (rts_store st ! q)) (rn_parameter n)
          else rn_parameter n)"

definition node_label :: "calltree \<Rightarrow> string list \<Rightarrow> rts_object \<Rightarrow> rts_object" where
  "node_label st strs n =
     n\<lparr>rn_callpathstring := makeCallpathString (strs @ [rn_region_name n]), rn_parameter := inherited st n,
       rn_isValidRts := list_all (\<lambda>c. rn_rts_type (rts_store st ! c) = Some NODE_REGULAR_REGION) (rn_children n)\<rparr>"

fun labelled :: "calltree \<Rightarrow> calltree \<Rightarrow> string list \<Rightarrow> rts_tree \<Rightarrow> bool" where
  "labelled st' st strs (Rts_Node p ts) =
     (rts_store st' ! p = node_label st' strs (rts_store st ! p) \<and>
      (\<forall>t\<in>set ts. labelled st' st (strs @ [rn_region_name (rts_store st ! p)]) t))"

fun paths_below :: "calltree \<Rightarrow> string list \<Rightarrow> rts_tree \<Rightarrow> (rts_ptr \<times> string) list" where
  "paths_below st strs (Rts_Node p ts) =
     (let strs' = strs @ [rn_region_name (rts_store st ! p)]
      in (p, makeCallpathString strs') # concat (map (paths_below st strs') ts))"

definition mapped_paths :: "bool \<Rightarrow> (rts_ptr \<times> string) list \<Rightarrow> (rts_ptr, string) smap \<Rightarrow> (rts_ptr, string) smap" where
  "mapped_paths mapped xs m = (if mapped then fold (\<lambda>(q, s). sm_insert q s) xs m else m)"

text \<open>The fields the pass sets are blanked; the rest of a node is its shape.\<close>

definition shape :: "rts_object \<Rightarrow> rts_object" where
  "shape n = n\<lparr>rn_callpathstring := '''', rn_parameter := [], rn_isValidRts := False\<rparr>"

definition relabels :: "rts_ptr set \<Rightarrow> calltree \<Rightarrow> calltree \<Rightarrow> bool" where
  "relabels A st st' \<longleftrightarrow>
     length (rts_store st') = length (rts_store st) \<and> (\<forall>q. q \<notin> A \<longrightarrow> rts_store st' ! q = rts_store st ! q) \<and>
     (\<forall>q. shape (rts_store st' ! q) = shape (rts_store st ! q))"

text \<open>The state with a new store and mapping.\<close>

definition with_labels :: "calltree \<Rightarrow> rts_object list \<Rightarrow> (rts_ptr, string) smap \<Rightarrow> calltree" where
  "with_labels st store m = st\<lparr>aa_rts_callpath_mapping := m, rts_store := store\<rparr>"

subsection \<open>Lemmas\<close>

lemma node_ptr_nodes [simp]: "node_ptr t \<in> set (nodes t)"
  by (cases t) simp

lemma shape_fields:
  assumes "shape n = shape m"
  shows "rn_parent n = rn_parent m" "rn_children n = rn_children m" "rn_rts_type n = rn_rts_type m"
    "rn_region_name n = rn_region_name m" "rn_scorep_id n = rn_scorep_id m" "rn_parent_scorep_id n = rn_parent_scorep_id m"
    "rn_reg n = rn_reg m" "rn_aa_rts_id n = rn_aa_rts_id m"
proof -
  have *: "f n = f m" if "\<And>x. f (shape x) = f x" for f :: "rts_object \<Rightarrow> 'b" using that assms by metis
  show "rn_parent n = rn_parent m" "rn_children n = rn_children m" "rn_rts_type n = rn_rts_type m"
    "rn_region_name n = rn_region_name m" "rn_scorep_id n = rn_scorep_id m" "rn_parent_scorep_id n = rn_parent_scorep_id m"
    "rn_reg n = rn_reg m" "rn_aa_rts_id n = rn_aa_rts_id m"
    by (rule *; simp add: shape_def)+
qed

lemma shape_label [simp]: "shape (node_label st strs n) = shape n"
  by (simp add: shape_def node_label_def)

lemma relabels_refl: "relabels A st st"
  by (simp add: relabels_def)

lemma relabels_trans: "relabels A st st' \<Longrightarrow> relabels B st' st'' \<Longrightarrow> relabels (A \<union> B) st st''"
  by (simp add: relabels_def)

lemma relabels_fields:
  assumes "relabels A st st'"
  shows "rn_parent (rts_store st' ! q) = rn_parent (rts_store st ! q)"
    "rn_children (rts_store st' ! q) = rn_children (rts_store st ! q)"
    "rn_rts_type (rts_store st' ! q) = rn_rts_type (rts_store st ! q)"
    "rn_region_name (rts_store st' ! q) = rn_region_name (rts_store st ! q)"
    "length (rts_store st') = length (rts_store st)"
  using assms shape_fields unfolding relabels_def by blast+

lemma relabels_call_tree:
  assumes "relabels A st st'"
  shows "call_tree st' t \<longleftrightarrow> call_tree st t"
  by (induction t) (simp add: relabels_fields [OF assms])

lemma relabels_above_ok: "relabels A st st' \<Longrightarrow> above_ok st' t \<longleftrightarrow> above_ok st t"
  by (simp add: above_ok_def relabels_fields cong: option.case_cong)

lemma relabels_paths_below: "relabels A st st' \<Longrightarrow> paths_below st' strs t = paths_below st strs t"
  by (induction t arbitrary: strs) (simp add: relabels_fields Let_def cong: map_cong)

lemma relabels_paths_map: "relabels A st st' \<Longrightarrow> map (paths_below st' strs) ts = map (paths_below st strs) ts"
  by (simp add: relabels_paths_below)

lemma call_tree_ptr:
  assumes "call_tree st t"
  shows "node_ptr t < length (rts_store st)" "rn_rts_type (rts_store st ! node_ptr t) \<noteq> None"
  using assms by (cases t; simp)+

lemma node_label_cong:
  assumes "relabels A st st'" and "\<And>q. rn_parent n = Some q \<Longrightarrow> q \<notin> A"
  shows "node_label st' strs n = node_label st strs n"
  using assms(2) assms(1) [unfolded relabels_def] relabels_fields(3) [OF assms(1)]
  by (auto simp: node_label_def inherited_def split: option.split)

text \<open>Labels stay when another part is labelled later, and do not depend on parts labelled before.\<close>

lemma labelled_later:
  assumes "labelled st' st strs t" "call_tree st t" "relabels A st' st''" "A \<inter> set (nodes t) = {}"
    and "\<And>q. rn_parent (rts_store st ! node_ptr t) = Some q \<Longrightarrow> q \<notin> A"
  shows "labelled st'' st strs t"
  using assms
proof (induction t arbitrary: strs)
  case (Rts_Node p ts)
  have "rts_store st'' ! p = rts_store st' ! p" using Rts_Node.prems(3,4) by (simp add: relabels_def)
  also have "\<dots> = node_label st'' strs (rts_store st ! p)"
    using Rts_Node.prems(1,5) node_label_cong [OF Rts_Node.prems(3), of "rts_store st ! p"] by simp
  finally have "rts_store st'' ! p = node_label st'' strs (rts_store st ! p)" .
  moreover have "labelled st'' st (strs @ [rn_region_name (rts_store st ! p)]) t" if "t \<in> set ts" for t
    using that Rts_Node.prems by (intro Rts_Node.IH) auto
  ultimately show ?case by simp
qed

lemma labelled_before:
  assumes "labelled st' st1 strs t" "\<And>q. q \<in> set (nodes t) \<Longrightarrow> rts_store st1 ! q = rts_store st ! q"
  shows "labelled st' st strs t"
  using assms
proof (induction t arbitrary: strs)
  case (Rts_Node p ts)
  then show ?case by auto
qed

section \<open>The pass\<close>

text \<open>What a call does before it turns to the children.\<close>

definition label_state :: "bool \<Rightarrow> rts_ptr \<Rightarrow> string list \<Rightarrow> calltree \<Rightarrow> calltree" where
  "label_state mapped p strs st =
     with_labels st ((rts_store st)[p := node_label st strs (rts_store st ! p)])
       (mapped_paths mapped [(p, makeCallpathString (strs @ [rn_region_name (rts_store st ! p)]))] (aa_rts_callpath_mapping st))"

lemma hasParameterChild_ret:
  assumes "\<And>c. c \<in> set (rn_children n) \<Longrightarrow> c < length (rts_store st) \<and> rn_rts_type (rts_store st ! c) \<noteq> None"
  shows "hasParameterChild n st = ret (\<not> list_all (\<lambda>c. rn_rts_type (rts_store st ! c) = Some NODE_REGULAR_REGION) (rn_children n))"
proof -
  have "cfold (\<lambda>c found. if found then ret True
        else cbind (rts_at st c) (\<lambda>m. cbind (deref (rn_rts_type m)) (\<lambda>t. ret (t \<noteq> NODE_REGULAR_REGION)))) cs b
      = ret (b \<or> \<not> list_all (\<lambda>c. rn_rts_type (rts_store st ! c) = Some NODE_REGULAR_REGION) cs)"
    if "set cs \<subseteq> set (rn_children n)" for cs b
    using that
  proof (induction cs arbitrary: b)
    case (Cons c cs)
    obtain t where "c < length (rts_store st)" "rn_rts_type (rts_store st ! c) = Some t"
      using assms [of c] Cons.prems by auto
    then show ?case using Cons by (simp add: rts_at_def deref_def) 
  qed simp
  from this [of "rn_children n" False] show ?thesis by (simp add: hasParameterChild_def)
qed

lemma propagate_parameters_ret:
  assumes "p < length (rts_store st)" "rn_rts_type (rts_store st ! p) \<noteq> None"
    and "\<And>q. rn_parent (rts_store st ! p) = Some q \<Longrightarrow> q < length (rts_store st) \<and> rn_rts_type (rts_store st ! q) \<noteq> None"
  shows "propagate_parameters p st = ret (set_rts p ((rts_store st ! p)\<lparr>rn_parameter := inherited st (rts_store st ! p)\<rparr>) st)"
proof (cases "rn_parent (rts_store st ! p)")
  case None
  then show ?thesis using assms by (simp add: propagate_parameters_def rts_at_def inherited_def set_rts_def)
next
  case (Some q)
  obtain tq tp where "rn_rts_type (rts_store st ! q) = Some tq" "rn_rts_type (rts_store st ! p) = Some tp"
    using assms Some by auto
  then show ?thesis
    using assms Some
    by (cases tq; cases tp) (simp_all add: propagate_parameters_def rts_at_def deref_def inherited_def set_rts_def)
qed

lemma setCallPaths_step:
  assumes "p < length (rts_store st)" "rn_rts_type (rts_store st ! p) \<noteq> None"
    and parent: "\<And>q. rn_parent (rts_store st ! p) = Some q \<Longrightarrow>
      q < length (rts_store st) \<and> rn_rts_type (rts_store st ! q) \<noteq> None \<and> q \<noteq> p"
    and children: "\<And>c. c \<in> set (rn_children (rts_store st ! p)) \<Longrightarrow>
      c < length (rts_store st) \<and> rn_rts_type (rts_store st ! c) \<noteq> None"
  shows "setCallPaths mapped p (strs, st) =
    cbind (cfold (setCallPaths mapped) (rn_children (rts_store st ! p))
        (if rn_children (rts_store st ! p) = [] then strs else strs @ [rn_region_name (rts_store st ! p)], label_state mapped p strs st))
      (\<lambda>s. ret (if rn_children (rts_store st ! p) = [] then fst s else butlast (fst s), snd s))"
proof -
  define n where "n = rts_store st ! p"
  define path where "path = makeCallpathString (strs @ [rn_region_name n])"
  define st1 where "st1 = set_rts p (n\<lparr>rn_callpathstring := path\<rparr>) st"
  define st2 where "st2 = (if mapped then st1\<lparr>aa_rts_callpath_mapping := sm_insert p path (aa_rts_callpath_mapping st1)\<rparr> else st1)"
  have store: "rts_store st2 = (rts_store st)[p := n\<lparr>rn_callpathstring := path\<rparr>]"
    by (simp add: st2_def st1_def set_rts_def)
  have types: "rn_rts_type (rts_store st2 ! c) = rn_rts_type (rts_store st ! c)" for c
    using assms(1) by (cases "c = p") (simp_all add: store n_def)
  have inh: "inherited st2 (n\<lparr>rn_callpathstring := path\<rparr>) = inherited st n"
    using parent assms(1) by (auto simp: inherited_def store n_def split: option.split)
  have "propagate_parameters p st2 = ret (set_rts p (n\<lparr>rn_callpathstring := path, rn_parameter := inherited st n\<rparr>) st2)"
    using assms inh by (subst propagate_parameters_ret) (auto simp: types store n_def)
  moreover have "setValidRts p (set_rts p (n\<lparr>rn_callpathstring := path, rn_parameter := inherited st n\<rparr>) st2)
    = ret (label_state mapped p strs st)"
  proof -
    let ?m = "n\<lparr>rn_callpathstring := path, rn_parameter := inherited st n\<rparr>" and ?st = "set_rts p (n\<lparr>rn_callpathstring := path, rn_parameter := inherited st n\<rparr>) st2"
    have t: "rn_rts_type (rts_store ?st ! c) = rn_rts_type (rts_store st ! c)" for c
      using assms(1) by (cases "c = p") (simp_all add: store n_def set_rts_def)
    have "hasParameterChild ?m ?st = ret (\<not> list_all (\<lambda>c. rn_rts_type (rts_store st ! c) = Some NODE_REGULAR_REGION) (rn_children n))"
    proof -
      have "length (rts_store ?st) = length (rts_store st)" by (simp add: set_rts_def store)
      then show ?thesis using children [folded n_def] by (subst hasParameterChild_ret) (simp_all add: t)
    qed
    moreover have "(rn_children n = [] \<or> list_all P (rn_children n)) \<longleftrightarrow> list_all P (rn_children n)" for P by auto
    ultimately show ?thesis
      using assms(1) by (auto simp: setValidRts_def rts_at_def store set_rts_def st2_def st1_def label_state_def with_labels_def
          mapped_paths_def node_label_def path_def n_def)
  qed
  ultimately show ?thesis
    using assms(1)
    by (subst setCallPaths.simps, cases mapped)
       (simp_all add: rts_at_def st1_def [symmetric] st2_def path_def [symmetric] n_def [symmetric])
qed

lemma label_state_relabels:
  assumes "p < length (rts_store st)"
  shows "relabels {p} st (label_state mapped p strs st)"
  using assms by (auto simp: relabels_def label_state_def with_labels_def nth_list_update)

text \<open>The result of a pass over a tree, or over the trees below a node.\<close>

definition passed ::
  "bool \<Rightarrow> rts_tree list \<Rightarrow> string list \<Rightarrow> calltree \<Rightarrow> calltree \<Rightarrow> bool" where
  "passed mapped ts strs st st' \<longleftrightarrow>
     relabels (set (concat (map nodes ts))) st st' \<and> (\<forall>t\<in>set ts. labelled st' st strs t) \<and>
     st' = with_labels st (rts_store st')
             (mapped_paths mapped (concat (map (paths_below st strs) ts)) (aa_rts_callpath_mapping st))"

lemma passed_Nil: "passed mapped [] strs st st"
  by (simp add: passed_def relabels_refl with_labels_def mapped_paths_def)

lemma mapped_paths_append: "mapped_paths m (xs @ ys) k = mapped_paths m ys (mapped_paths m xs k)"
  by (simp add: mapped_paths_def)

lemma with_labels_twice: "with_labels (with_labels st s m) s' m' = with_labels st s' m'"
  by (simp add: with_labels_def)

lemma passed_Cons:
  assumes t: "passed mapped [t] strs st st1" and ts: "passed mapped ts strs st1 st2"
    and tree: "call_tree st t" and apart: "set (nodes t) \<inter> set (concat (map nodes ts)) = {}"
    and parent: "\<And>q. rn_parent (rts_store st ! node_ptr t) = Some q \<Longrightarrow> q \<notin> set (concat (map nodes ts))"
  shows "passed mapped (t # ts) strs st st2"
proof -
  have r1: "relabels (set (nodes t)) st st1" and r2: "relabels (set (concat (map nodes ts))) st1 st2"
    using t ts by (simp_all add: passed_def)
  have "relabels (set (concat (map nodes (t # ts)))) st st2" using relabels_trans [OF r1 r2] by simp
  moreover have "labelled st2 st strs t"
    using t parent apart by (intro labelled_later [OF _ tree r2]) (auto simp: passed_def)
  moreover have "labelled st2 st strs u" if "u \<in> set ts" for u
  proof (rule labelled_before)
    show "labelled st2 st1 strs u" using ts that by (simp add: passed_def)
    fix q assume "q \<in> set (nodes u)"
    then have "q \<notin> set (nodes t)" using apart that by auto
    then show "rts_store st1 ! q = rts_store st ! q" using r1 by (simp add: relabels_def)
  qed
  moreover have "st2 = with_labels st (rts_store st2)
    (mapped_paths mapped (concat (map (paths_below st strs) (t # ts))) (aa_rts_callpath_mapping st))"
  proof -
    have 1: "st1 = with_labels st (rts_store st1) (mapped_paths mapped (paths_below st strs t) (aa_rts_callpath_mapping st))"
      using t by (simp add: passed_def)
    have w: "with_labels st1 s m = with_labels st s m" for s m by (subst 1) (rule with_labels_twice)
    have aa: "aa_rts_callpath_mapping st1 = mapped_paths mapped (paths_below st strs t) (aa_rts_callpath_mapping st)"
      by (subst 1) (simp add: with_labels_def)
    have "st2 = with_labels st1 (rts_store st2)
        (mapped_paths mapped (concat (map (paths_below st strs) ts)) (aa_rts_callpath_mapping st1))"
      using ts relabels_paths_map [OF r1] unfolding passed_def by simp
    also have "\<dots> = with_labels st (rts_store st2)
        (mapped_paths mapped (concat (map (paths_below st strs) (t # ts))) (aa_rts_callpath_mapping st))"
      by (simp add: w aa mapped_paths_append)
    finally show ?thesis .
  qed
  ultimately show ?thesis by (simp add: passed_def)
qed

text \<open>The pass over trees side by side, given the pass over each.\<close>

lemma pass_children:
  assumes each: "\<And>t strs st. t \<in> set ts \<Longrightarrow> call_tree st t \<Longrightarrow> distinct (nodes t) \<Longrightarrow> above_ok st t \<Longrightarrow>
      \<exists>st'. setCallPaths mapped (node_ptr t) (strs, st) = ret (strs, st') \<and> passed mapped [t] strs st st'"
    and "\<forall>t\<in>set ts. call_tree st t \<and> above_ok st t" "distinct (concat (map nodes ts))"
    and "\<And>t q. t \<in> set ts \<Longrightarrow> rn_parent (rts_store st ! node_ptr t) = Some q \<Longrightarrow> q \<notin> set (concat (map nodes ts))"
  shows "\<exists>st'. cfold (setCallPaths mapped) (map node_ptr ts) (strs, st) = ret (strs, st') \<and> passed mapped ts strs st st'"
  using assms
proof (induction ts arbitrary: st)
  case Nil
  then show ?case using passed_Nil by auto
next
  case (Cons t ts)
  obtain st1 where 1: "setCallPaths mapped (node_ptr t) (strs, st) = ret (strs, st1)" "passed mapped [t] strs st st1"
    using Cons.prems(1) [of t st strs] Cons.prems(2,3) by auto
  have r: "relabels (set (nodes t)) st st1" using 1 by (simp add: passed_def)
  have "\<exists>st2. cfold (setCallPaths mapped) (map node_ptr ts) (strs, st1) = ret (strs, st2) \<and> passed mapped ts strs st1 st2"
  proof (rule Cons.IH)
    show "\<forall>t\<in>set ts. call_tree st1 t \<and> above_ok st1 t"
      using Cons.prems(2) relabels_call_tree [OF r] relabels_above_ok [OF r] by simp
    show "distinct (concat (map nodes ts))" using Cons.prems(3) by simp
    fix u q assume "u \<in> set ts" "rn_parent (rts_store st1 ! node_ptr u) = Some q"
    then show "q \<notin> set (concat (map nodes ts))" using Cons.prems(4) [of u q] relabels_fields(1) [OF r] by simp
  qed (use Cons.prems(1) in auto)
  then obtain st2 where 2: "cfold (setCallPaths mapped) (map node_ptr ts) (strs, st1) = ret (strs, st2)"
    "passed mapped ts strs st1 st2" by blast
  have "passed mapped (t # ts) strs st st2"
    using Cons.prems(2-4) by (intro passed_Cons [OF 1(2) 2(2)]) auto
  then show ?case using 1 2 by simp
qed

lemma pass_tree:
  assumes "call_tree st t" "distinct (nodes t)" "above_ok st t"
  shows "\<exists>st'. setCallPaths mapped (node_ptr t) (strs, st) = ret (strs, st') \<and> passed mapped [t] strs st st'"
  using assms
proof (induction t arbitrary: strs st)
  case (Rts_Node p ts)
  define n where "n = rts_store st ! p"
  define st1 where "st1 = label_state mapped p strs st"
  have p: "p < length (rts_store st)" "rn_rts_type n \<noteq> None" "rn_children n = map node_ptr ts"
    using Rts_Node.prems(1) by (simp_all add: n_def)
  have child: "c < length (rts_store st) \<and> rn_rts_type (rts_store st ! c) \<noteq> None" if c: "c \<in> set (rn_children n)" for c
  proof -
    obtain t where t: "t \<in> set ts" "c = node_ptr t" using c p by auto
    then show ?thesis using Rts_Node.prems(1) call_tree_ptr [of st t] by simp
  qed
  have r: "relabels {p} st st1" unfolding st1_def by (rule label_state_relabels) (rule p)
  have "\<exists>st2. cfold (setCallPaths mapped) (map node_ptr ts) (strs @ [rn_region_name n], st1) = ret (strs @ [rn_region_name n], st2) \<and>
      passed mapped ts (strs @ [rn_region_name n]) st1 st2"
  proof (rule pass_children)
    show "\<forall>t\<in>set ts. call_tree st1 t \<and> above_ok st1 t"
    proof
      fix t assume t: "t \<in> set ts"
      have "rn_parent (rts_store st ! node_ptr t) = Some p" "p \<notin> set (nodes t)" using Rts_Node.prems t by auto
      then show "call_tree st1 t \<and> above_ok st1 t"
        using Rts_Node.prems(1) t p by (simp add: relabels_call_tree [OF r] relabels_fields [OF r] above_ok_def n_def)
    qed
    show "distinct (concat (map nodes ts))" using Rts_Node.prems(2) by simp
    fix t q assume "t \<in> set ts" "rn_parent (rts_store st1 ! node_ptr t) = Some q"
    then show "q \<notin> set (concat (map nodes ts))" using Rts_Node.prems by (auto simp: relabels_fields [OF r])
  qed (rule Rts_Node.IH)
  then obtain st2 where 2: "cfold (setCallPaths mapped) (map node_ptr ts) (strs @ [rn_region_name n], st1) = ret (strs @ [rn_region_name n], st2)"
      "passed mapped ts (strs @ [rn_region_name n]) st1 st2" by blast
  have run: "setCallPaths mapped p (strs, st) = ret (strs, st2)"
  proof -
    have "setCallPaths mapped p (strs, st) =
      cbind (cfold (setCallPaths mapped) (rn_children n) (if rn_children n = [] then strs else strs @ [rn_region_name n], st1))
        (\<lambda>s. ret (if rn_children n = [] then fst s else butlast (fst s), snd s))"
      unfolding n_def st1_def
    proof (rule setCallPaths_step)
      fix q assume "rn_parent (rts_store st ! p) = Some q"
      then show "q < length (rts_store st) \<and> rn_rts_type (rts_store st ! q) \<noteq> None \<and> q \<noteq> p"
        using Rts_Node.prems(3) by (simp add: above_ok_def)
    qed (use p child in \<open>simp_all add: n_def\<close>)
    then show ?thesis using 2 p(3) by (cases "ts = []") auto
  qed
  have r2: "relabels (set (concat (map nodes ts))) st1 st2" using 2 by (simp add: passed_def)
  have "labelled st2 st strs (Rts_Node p ts)"
  proof -
    have "rts_store st2 ! p = rts_store st1 ! p" using r2 Rts_Node.prems(2) by (simp add: relabels_def)
    also have "\<dots> = node_label st strs n" using p(1) by (simp add: st1_def label_state_def with_labels_def n_def)
    also have "\<dots> = node_label st2 strs n"
      using Rts_Node.prems(3) by (intro node_label_cong [OF relabels_trans [OF r r2], symmetric]) (simp add: n_def above_ok_def)
    finally have "rts_store st2 ! p = node_label st2 strs n" .
    moreover have "labelled st2 st (strs @ [rn_region_name n]) t" if t: "t \<in> set ts" for t
    proof (rule labelled_before)
      show "labelled st2 st1 (strs @ [rn_region_name n]) t" using 2 t by (simp add: passed_def)
      fix q assume "q \<in> set (nodes t)"
      then have "q \<noteq> p" using Rts_Node.prems(2) t by auto
      then show "rts_store st1 ! q = rts_store st ! q" using r by (simp add: relabels_def)
    qed
    ultimately show ?thesis by (simp add: n_def)
  qed
  moreover have "st2 = with_labels st (rts_store st2)
    (mapped_paths mapped (paths_below st strs (Rts_Node p ts)) (aa_rts_callpath_mapping st))"
  proof -
    have "st2 = with_labels st1 (rts_store st2)
        (mapped_paths mapped (concat (map (paths_below st (strs @ [rn_region_name n])) ts)) (aa_rts_callpath_mapping st1))"
      using 2(2) relabels_paths_map [OF r] unfolding passed_def by simp
    moreover have "aa_rts_callpath_mapping st1 =
        mapped_paths mapped [(p, makeCallpathString (strs @ [rn_region_name n]))] (aa_rts_callpath_mapping st)"
      by (simp add: st1_def label_state_def with_labels_def n_def)
    ultimately show ?thesis
      by (simp add: st1_def label_state_def with_labels_twice n_def Let_def mapped_paths_append [symmetric])
  qed
  ultimately show ?case using run relabels_trans [OF r r2] by (auto simp: passed_def)
qed

section \<open>Call paths and validity\<close>

text \<open>
  C36: Setting the call paths of a tree whose nodes are linked both ways returns. Every node then has the names on
  its way from the root as its call path, is valid exactly when none of its children is a parameter, and a parameter
  below a parameter has that one's parameters in front of its own; links, names, identifiers and nodes outside the
  tree are untouched, and the mapping from nodes to call paths gained exactly the nodes it did not have.
\<close>

theorem call_paths_set:
  assumes "call_tree st t" "distinct (nodes t)" "rn_parent (rts_store st ! node_ptr t) = None"
  shows "\<exists>st'. addNodeInfo (node_ptr t) st = ret st' \<and> labelled st' st [] t \<and> relabels (set (nodes t)) st st' \<and>
     st' = with_labels st (rts_store st') (mapped_paths True (paths_below st [] t) (aa_rts_callpath_mapping st))"
proof -
  obtain st' where "setCallPaths True (node_ptr t) ([], st) = ret ([], st')" "passed True [t] [] st st'"
    using pass_tree [OF assms(1,2), of True "[]"] assms(3) by (auto simp: above_ok_def)
  then show ?thesis by (auto simp: addNodeInfo_def passed_def)
qed

text \<open>A phase with a parameter below it and a parameter below that.\<close>

definition linked_node :: "string \<Rightarrow> rts_ptr option \<Rightarrow> rts_ptr list \<Rightarrow> param_ptr list \<Rightarrow> rts_object" where
  "linked_node name up kids params =
     blank_rts\<lparr>rn_region_name := name, rn_parent := up, rn_children := kids, rn_parameter := params,
       rn_rts_type := Some (if params = [] then NODE_REGULAR_REGION else NODE_PARAMETER)\<rparr>"

definition nested_parameters :: calltree where
  "nested_parameters = \<lparr>rts_store = [linked_node ''phase'' None [1] [], linked_node ''it=3'' (Some 0) [2] [0],
       linked_node ''n=7'' (Some 1) [] [1]],
     param_store = [parameter_of_name ''it=3'', parameter_of_name ''n=7''], ct_root = Some 0, buffer_index = 0,
     last_aa_rts_id = 0, aa_rts_callpath_mapping = [], scorepid_to_rts_mapping = [], rts_to_serialize = [],
     ct_appl = new_Application None\<rparr>"

theorem call_paths_set_witness:
  "\<exists>st'. addNodeInfo 0 nested_parameters = ret st' \<and> rn_callpathstring (rts_store st' ! 2) = ''/phase/it=3/n=7'' \<and>
     rn_parameter (rts_store st' ! 2) = [0, 1] \<and> rn_isValidRts (rts_store st' ! 2) \<and> \<not> rn_isValidRts (rts_store st' ! 1) \<and>
     aa_rts_callpath_mapping st' = [(0, ''/phase''), (1, ''/phase/it=3''), (2, ''/phase/it=3/n=7'')]"
proof -
  let ?t = "Rts_Node 0 [Rts_Node 1 [Rts_Node 2 []]]"
  have "call_tree nested_parameters ?t" "distinct (nodes ?t)" "rn_parent (rts_store nested_parameters ! node_ptr ?t) = None"
    by (simp_all add: nested_parameters_def linked_node_def blank_rts_def)
  from call_paths_set [OF this] obtain st' where "addNodeInfo 0 nested_parameters = ret st'"
    and l: "labelled st' nested_parameters [] ?t" and r: "relabels (set (nodes ?t)) nested_parameters st'"
    and m: "st' = with_labels nested_parameters (rts_store st')
      (mapped_paths True (paths_below nested_parameters [] ?t) (aa_rts_callpath_mapping nested_parameters))" by auto
  moreover have "aa_rts_callpath_mapping st' = [(0, ''/phase''), (1, ''/phase/it=3''), (2, ''/phase/it=3/n=7'')]"
    by (subst m) (simp add: with_labels_def mapped_paths_def nested_parameters_def linked_node_def makeCallpathString_def
        sm_insert_def sm_has_def sm_find_def)
  moreover have "rn_callpathstring (rts_store st' ! 2) = ''/phase/it=3/n=7'' \<and>
      rn_parameter (rts_store st' ! 2) = [0, 1] \<and> rn_isValidRts (rts_store st' ! 2) \<and> \<not> rn_isValidRts (rts_store st' ! 1)"
  proof -
    let ?n1 = "linked_node ''it=3'' (Some 0) [2] [0]" and ?n2 = "linked_node ''n=7'' (Some 1) [] [1]"
    have type: "rn_rts_type (rts_store st' ! q) = rn_rts_type (rts_store nested_parameters ! q)" for q
      by (rule relabels_fields(3) [OF r])
    have 1: "rts_store st' ! 1 = node_label st' [''phase''] ?n1" and 2: "rts_store st' ! 2 = node_label st' [''phase'', ''it=3''] ?n2"
      using l by (simp_all add: nested_parameters_def linked_node_def blank_rts_def numeral_2_eq_2)
    have p: "rn_parameter (rts_store st' ! 1) = [0]" "\<not> rn_isValidRts (rts_store st' ! 1)"
      by (subst 1, simp add: node_label_def inherited_def type nested_parameters_def linked_node_def blank_rts_def)+
    show ?thesis
      by (simp add: p 2) (simp add: node_label_def inherited_def type p [simplified] nested_parameters_def linked_node_def blank_rts_def makeCallpathString_def)
  qed
  ultimately show ?thesis by blast
qed

end
