(* ===== verification/AgentTree.thy ===== *)
theory AgentTree
  imports CallPaths
begin

text \<open>
  The agent's call tree from a fresh start (\<open>Rts::construct_aagent_calltree\<close>): for a buffer of records in
  preorder with distinct identifiers, in which siblings have different names and every region is known, the
  construction returns the tree the buffer describes, node for node, with all call paths, and queues exactly its nodes
  for the frontend. Places of records in the buffer and places of nodes in the store are the same numbers.
\<close>

section \<open>What a buffer describes\<close>

definition name_of :: "call_tree_def list \<Rightarrow> nat \<Rightarrow> string" where
  "name_of b i = c_str (ctd_name (b ! i))"

definition par :: "call_tree_def list \<Rightarrow> nat \<Rightarrow> nat" where
  "par b k = length (takeWhile (\<lambda>d. ctd_scorep_id d \<noteq> ctd_parent_scorep_id (b ! k)) b)"

function ancestors :: "call_tree_def list \<Rightarrow> nat \<Rightarrow> nat list" where
  "ancestors b k = (if par b k < k then k # ancestors b (par b k) else [k])"
  by pat_completeness auto
termination by (relation "measure snd") auto

declare ancestors.simps [simp del]

definition kids :: "call_tree_def list \<Rightarrow> nat \<Rightarrow> nat \<Rightarrow> nat list" where
  "kids b k i = filter (\<lambda>j. par b j = i) [Suc i..<k]"

function tree_of :: "call_tree_def list \<Rightarrow> nat \<Rightarrow> nat \<Rightarrow> rts_tree" where
  "tree_of b k i = Rts_Node i (map (tree_of b k) (kids b k i))"
  by pat_completeness auto
termination by (relation "measure (\<lambda>(b, k, i). k - i)") (auto simp: kids_def)

declare tree_of.simps [simp del]

definition names_path :: "call_tree_def list \<Rightarrow> nat \<Rightarrow> string list" where
  "names_path b i = map (name_of b) (rev (ancestors b i))"

definition type_of_name :: "string \<Rightarrow> rts_node_type" where
  "type_of_name s = (if is_parameter_name s then NODE_PARAMETER else NODE_REGULAR_REGION)"

text \<open>Every record hangs below the one before it or one of that one's ancestors.\<close>

definition buffer_ok :: "call_tree_def list \<Rightarrow> bool" where
  "buffer_ok b \<longleftrightarrow>
     b \<noteq> [] \<and> int (length b) \<le> INT_MAX \<and> distinct (map ctd_scorep_id b) \<and> ctd_parent_scorep_id (b ! 0) = 0 \<and>
     \<not> is_parameter_name (name_of b 0) \<and>
     (\<forall>k\<in>{1..<length b}. ctd_parent_scorep_id (b ! k) \<noteq> 0 \<and>
        (\<exists>i\<in>set (ancestors b (k - 1)). ctd_scorep_id (b ! i) = ctd_parent_scorep_id (b ! k)) \<and>
        (\<forall>j\<in>{1..<k}. par b j = par b k \<longrightarrow> name_of b j \<noteq> name_of b k))"

definition recorded_region :: "regionid_mapping \<Rightarrow> application \<Rightarrow> call_tree_def \<Rightarrow> region_ptr option" where
  "recorded_region mapping a d =
     (case find_ptf_id mapping (ctd_region_id d) of Some (Inr k) \<Rightarrow> getRegionByKey k a | _ \<Rightarrow> None)"

definition regions_ok :: "regionid_mapping \<Rightarrow> application \<Rightarrow> call_tree_def list \<Rightarrow> bool" where
  "regions_ok mapping a b \<longleftrightarrow>
     (\<forall>d\<in>set b. case find_ptf_id mapping (ctd_region_id d) of
        Some (Inr k) \<Rightarrow> (case getRegionByKey k a of Some r \<Rightarrow> r < length (region_store a) | None \<Rightarrow> False) | _ \<Rightarrow> False)"

text \<open>A parameter belongs to the region of the node above.\<close>

function node_region :: "regionid_mapping \<Rightarrow> application \<Rightarrow> call_tree_def list \<Rightarrow> nat \<Rightarrow> region_ptr option" where
  "node_region mapping a b i =
     (if par b i < i \<and> is_parameter_name (name_of b i) then node_region mapping a b (par b i)
      else recorded_region mapping a (b ! i))"
  by pat_completeness auto
termination by (relation "measure (\<lambda>(m, a, b, i). i)") auto

declare node_region.simps [simp del]

text \<open>A process that has not seen a call tree yet.\<close>

definition fresh_tree :: "application \<Rightarrow> calltree" where
  "fresh_tree a = \<lparr>rts_store = [], param_store = [], ct_root = None, buffer_index = 0, last_aa_rts_id = 0,
     aa_rts_callpath_mapping = [], scorepid_to_rts_mapping = [], rts_to_serialize = [], ct_appl = a\<rparr>"

subsection \<open>Lemmas\<close>

lemma par_index:
  assumes "distinct (map ctd_scorep_id b)" "i < length b" "ctd_scorep_id (b ! i) = ctd_parent_scorep_id (b ! k)"
  shows "par b k = i"
proof -
  have "takeWhile (\<lambda>d. ctd_scorep_id d \<noteq> ctd_parent_scorep_id (b ! k)) b = take i b"
  proof (rule takeWhile_eq_take_P_nth)
    fix j assume "j < i" "j < length b"
    then show "ctd_scorep_id (b ! j) \<noteq> ctd_parent_scorep_id (b ! k)"
      using assms nth_eq_iff_index_eq [OF assms(1), of i j] by auto
  qed (use assms in simp)
  then show ?thesis using assms(2) by (simp add: par_def)
qed

lemma ancestors_self [simp]: "k \<in> set (ancestors b k)"
  by (subst ancestors.simps) simp

lemma ancestors_le: "i \<in> set (ancestors b k) \<Longrightarrow> i \<le> k"
proof (induction b k rule: ancestors.induct)
  case (1 b k)
  show ?case
  proof (cases "par b k < k")
    case True
    then show ?thesis using 1 by (subst (asm) (2) ancestors.simps) fastforce
  next
    case False
    then show ?thesis using 1 by (subst (asm) (2) ancestors.simps) simp
  qed
qed

lemma ancestors_other: "i \<in> set (ancestors b k) \<Longrightarrow> i \<noteq> k \<Longrightarrow> par b k < k \<and> i \<in> set (ancestors b (par b k))"
  by (subst (asm) ancestors.simps) (auto split: if_splits)

lemma ancestors_par: "par b k < k \<Longrightarrow> set (ancestors b k) = insert k (set (ancestors b (par b k)))"
  by (subst ancestors.simps) simp

lemma buffer_record:
  assumes "buffer_ok b" "0 < k" "k < length b"
  shows "ctd_parent_scorep_id (b ! k) \<noteq> 0"
    "\<exists>i\<in>set (ancestors b (k - 1)). ctd_scorep_id (b ! i) = ctd_parent_scorep_id (b ! k)"
    "\<forall>j\<in>{1..<k}. par b j = par b k \<longrightarrow> name_of b j \<noteq> name_of b k"
proof -
  have "k \<in> {1..<length b}" using assms by simp
  then show "ctd_parent_scorep_id (b ! k) \<noteq> 0"
    "\<exists>i\<in>set (ancestors b (k - 1)). ctd_scorep_id (b ! i) = ctd_parent_scorep_id (b ! k)"
    "\<forall>j\<in>{1..<k}. par b j = par b k \<longrightarrow> name_of b j \<noteq> name_of b k"
    using assms(1) unfolding buffer_ok_def by blast+
qed

lemma buffer_parent:
  assumes "buffer_ok b" "0 < k" "k < length b"
  shows "par b k < k" "ctd_scorep_id (b ! par b k) = ctd_parent_scorep_id (b ! k)" "par b k \<in> set (ancestors b (k - 1))"
    "ctd_parent_scorep_id (b ! k) \<noteq> 0"
proof -
  obtain i where i: "i \<in> set (ancestors b (k - 1))" "ctd_scorep_id (b ! i) = ctd_parent_scorep_id (b ! k)"
    using buffer_record [OF assms] by blast
  have "i \<le> k - 1" using ancestors_le i by blast
  moreover have "par b k = i" using assms i(2) \<open>i \<le> k - 1\<close> by (intro par_index) (auto simp: buffer_ok_def)
  ultimately show "par b k < k" "ctd_scorep_id (b ! par b k) = ctd_parent_scorep_id (b ! k)" "par b k \<in> set (ancestors b (k - 1))"
    using i assms by auto
qed (rule buffer_record [OF assms])

lemma buffer_siblings:
  assumes "buffer_ok b" "0 < j" "j < k" "k < length b" "par b j = par b k"
  shows "name_of b j \<noteq> name_of b k"
  using buffer_record(3) [of b k] assms by simp

lemma buffer_ids:
  assumes "buffer_ok b" "i < length b" "j < length b" "ctd_scorep_id (b ! i) = ctd_scorep_id (b ! j)"
  shows "i = j"
  using assms nth_eq_iff_index_eq [of "map ctd_scorep_id b" i j] by (simp add: buffer_ok_def)

lemma kids_Suc: "i < k \<Longrightarrow> kids b (Suc k) i = kids b k i @ (if par b k = i then [k] else [])"
  by (simp add: kids_def)

lemma kids_last: "kids b (Suc k) k = []"
  by (simp add: kids_def)

lemma mem_kids: "j \<in> set (kids b k i) \<longleftrightarrow> i < j \<and> j < k \<and> par b j = i"
  by (auto simp: kids_def)

section \<open>The walk over the buffer\<close>

definition own_parameters :: "call_tree_def list \<Rightarrow> nat \<Rightarrow> param_ptr list \<Rightarrow> parameter_t list \<Rightarrow> bool" where
  "own_parameters b i qs store \<longleftrightarrow>
     (if 0 < i \<and> is_parameter_name (name_of b i)
      then \<exists>q. qs = [q] \<and> q < length store \<and> store ! q = parameter_of_name (name_of b i) else qs = [])"

lemma own_parameters_append: "own_parameters b i qs store \<Longrightarrow> own_parameters b i qs (store @ store2)"
  unfolding own_parameters_def by (metis length_append nth_append trans_less_add1)

definition node_built :: "regionid_mapping \<Rightarrow> application \<Rightarrow> call_tree_def list \<Rightarrow> nat \<Rightarrow> nat \<Rightarrow> calltree \<Rightarrow> bool" where
  "node_built mapping a b k i st \<longleftrightarrow>
     (let n = rts_store st ! i
      in rn_parent n = (if i = 0 then None else Some (par b i)) \<and> rn_children n = kids b k i \<and>
         rn_scorep_id n = sint (ctd_scorep_id (b ! i)) \<and> rn_parent_scorep_id n = sint (ctd_parent_scorep_id (b ! i)) \<and>
         rn_region_name n = name_of b i \<and> rn_reg n = node_region mapping a b i \<and> rn_aa_rts_id n = int i + 1 \<and>
         (0 < i \<longrightarrow> rn_rts_type n = Some (type_of_name (name_of b i))) \<and>
         own_parameters b i (rn_parameter n) (param_store st) \<and>
         rn_tuning_plugin_result n = [] \<and> rn_default_objective n = None)"

definition built :: "regionid_mapping \<Rightarrow> application \<Rightarrow> call_tree_def list \<Rightarrow> nat \<Rightarrow> calltree \<Rightarrow> bool" where
  "built mapping a b k st \<longleftrightarrow>
     length (rts_store st) = k \<and> buffer_index st = k \<and> ct_root st = Some 0 \<and> last_aa_rts_id st = int k \<and>
     rts_to_serialize st = [0..<k] \<and> ct_appl st = a\<lparr>calltree_root := Some 0\<rparr> \<and> aa_rts_callpath_mapping st = [] \<and>
     set (param_store st) \<subseteq> (\<lambda>j. parameter_of_name (name_of b j)) ` {..<length b} \<and>
     (\<forall>i<k. node_built mapping a b k i st)"

lemma climb:
  assumes b: "buffer_ok b" and st: "built mapping a b k st" and k: "0 < k" "k < length b"
    and i: "i < k" "par b k \<in> set (ancestors b i)"
  shows "loop (insert_body b mapping) (Some i, st) = loop (insert_body b mapping) (Some (par b k), st)"
  using i
proof (induction i rule: less_induct)
  case (less i)
  show ?case
  proof (cases "i = par b k")
    case False
    have up: "par b i < i" "par b k \<in> set (ancestors b (par b i))" using ancestors_other less.prems(2) False by auto
    have n: "rn_parent (rts_store st ! i) = Some (par b i)" "rn_scorep_id (rts_store st ! i) = sint (ctd_scorep_id (b ! i))"
      using st less.prems(1) up(1) by (auto simp: built_def node_built_def Let_def)
    have "ctd_parent_scorep_id (b ! k) \<noteq> ctd_scorep_id (b ! i)"
      using buffer_parent [OF b k] buffer_ids [OF b, of i "par b k"] False less.prems(1) k(2) by auto
    then have "insert_body b mapping (Some i, st) = ret (True, Some (par b i), st)"
      using st k less.prems(1) buffer_parent(4) [OF b k] n
      by (simp add: insert_body_def built_def rts_at_def deref_def)
    then have "loop (insert_body b mapping) (Some i, st) = loop (insert_body b mapping) (Some (par b i), st)"
      by (subst loop_unfold) simp
    then show ?thesis using less.IH [of "par b i"] up less.prems(1) by simp
  qed simp
qed

lemma regions_okD:
  assumes "regions_ok mapping a b" "k < length b"
  obtains key r where "find_ptf_id mapping (ctd_region_id (b ! k)) = ret key" "getRegionByKey key a = Some r"
    "r < length (region_store a)" "recorded_region mapping a (b ! k) = Some r"
proof -
  have "case find_ptf_id mapping (ctd_region_id (b ! k)) of
      Some (Inr key) \<Rightarrow> (case getRegionByKey key a of Some r \<Rightarrow> r < length (region_store a) | None \<Rightarrow> False) | _ \<Rightarrow> False"
    using assms by (simp add: regions_ok_def)
  then show ?thesis
    using that by (auto simp: recorded_region_def ret_def split: option.splits sum.splits)
qed

lemma findNode_none:
  assumes "set (rn_children n) \<subseteq> {..<length (rts_store st)}"
    and "\<And>c. c \<in> set (rn_children n) \<Longrightarrow> rn_scorep_id (rts_store st ! c) \<noteq> rn_scorep_id new \<and>
      rn_region_name (rts_store st ! c) \<noteq> rn_region_name new"
  shows "findNode n new st = ret None"
proof -
  have "cfold (\<lambda>c found. case found of Some r \<Rightarrow> ret (Some r)
        | None \<Rightarrow> cbind (rts_at st c) (\<lambda>m.
            ret (if rn_scorep_id m = rn_scorep_id new \<or> rn_region_name m = rn_region_name new then Some c else None))) cs None
      = ret None" if "set cs \<subseteq> set (rn_children n)" for cs
    using that
  proof (induction cs)
    case (Cons c cs)
    then show ?case using assms(1) assms(2) [of c] by (auto simp: rts_at_def)
  qed simp
  then show ?thesis by (simp add: findNode_def)
qed

lemma sint_eq_iff: "sint (v :: 32 word) = sint w \<longleftrightarrow> v = w"
proof
  assume "sint v = sint w"
  then have "(word_of_int (sint v) :: 32 word) = word_of_int (sint w)" by (rule arg_cong)
  then show "v = w" by simp
qed simp

text \<open>The node made for record \<open>k\<close>, before and after its name is read.\<close>

definition fresh_node :: "regionid_mapping \<Rightarrow> application \<Rightarrow> call_tree_def list \<Rightarrow> nat \<Rightarrow> rts_object" where
  "fresh_node mapping a b k =
     (new_Rts (b ! k) (recorded_region mapping a (b ! k)))\<lparr>rn_parent := Some (par b k), rn_aa_rts_id := int k + 1\<rparr>"

definition named_node :: "regionid_mapping \<Rightarrow> application \<Rightarrow> call_tree_def list \<Rightarrow> nat \<Rightarrow> nat \<Rightarrow> rts_object" where
  "named_node mapping a b k q =
     (let n = fresh_node mapping a b k
      in if is_parameter_name (name_of b k)
         then n\<lparr>rn_rts_type := Some NODE_PARAMETER, rn_parameter := [q], rn_reg := node_region mapping a b (par b k)\<rparr>
         else n\<lparr>rn_rts_type := Some NODE_REGULAR_REGION\<rparr>)"

definition add_below :: "rts_ptr \<Rightarrow> rts_ptr \<Rightarrow> rts_object list \<Rightarrow> rts_object list" where
  "add_below p c store = store[p := (store ! p)\<lparr>rn_children := rn_children (store ! p) @ [c]\<rparr>]"

lemma built_node:
  assumes "built mapping a b k st" "i < k"
  shows "node_built mapping a b k i st"
  using assms by (simp add: built_def)

lemma add_child_new:
  assumes b: "buffer_ok b" and regions: "regions_ok mapping a b" and st: "built mapping a b k st"
    and k: "0 < k" "k < length b"
  shows "\<exists>ids. add_child mapping (b ! k) (par b k) st = ret (k, st\<lparr>
     rts_store := add_below (par b k) k (rts_store st) @ [named_node mapping a b k (length (param_store st))],
     param_store := param_store st @ (if is_parameter_name (name_of b k) then [parameter_of_name (name_of b k)] else []),
     last_aa_rts_id := int k + 1, scorepid_to_rts_mapping := ids, rts_to_serialize := rts_to_serialize st @ [k],
     buffer_index := k + 1\<rparr>)"
proof -
  define p where "p = par b k"
  define n where "n = rts_store st ! p"
  have p: "p < k" "p < length (rts_store st)" "length (rts_store st) = k"
    using buffer_parent [OF b k] st by (simp_all add: p_def built_def)
  obtain key r where key: "find_ptf_id mapping (ctd_region_id (b ! k)) = ret key" "getRegionByKey key a = Some r"
    "recorded_region mapping a (b ! k) = Some r"
    using regions_okD [OF regions k(2)] by metis
  define new where "new = new_Rts (b ! k) (Some r)"
  have appl: "getRegionByKey key (ct_appl st) = Some r" using st key by (simp add: built_def getRegionByKey_def)
  have n: "rn_children n = kids b k p" "rn_reg n = node_region mapping a b p"
    using built_node [OF st p(1)] by (simp_all add: n_def node_built_def Let_def)
  have "findNode n new st = ret None"
  proof (rule findNode_none)
    show "set (rn_children n) \<subseteq> {..<length (rts_store st)}" using n p by (auto simp: mem_kids)
    fix c assume "c \<in> set (rn_children n)"
    then have c: "p < c" "c < k" "par b c = p" by (simp_all add: n mem_kids)
    have "rn_scorep_id (rts_store st ! c) = sint (ctd_scorep_id (b ! c))" "rn_region_name (rts_store st ! c) = name_of b c"
      using built_node [OF st c(2)] by (simp_all add: node_built_def Let_def)
    moreover have "ctd_scorep_id (b ! c) \<noteq> ctd_scorep_id (b ! k)" using buffer_ids [OF b, of c k] c k by auto
    moreover have "name_of b c \<noteq> name_of b k" using c k by (intro buffer_siblings [OF b]) (auto simp: p_def)
    ultimately show "rn_scorep_id (rts_store st ! c) \<noteq> rn_scorep_id new \<and> rn_region_name (rts_store st ! c) \<noteq> rn_region_name new"
      by (simp add: new_def new_Rts_def blank_rts_def sint_eq_iff name_of_def)
  qed
  moreover have "int k < INT_MAX" using b k by (simp add: buffer_ok_def)
  moreover have new: "rn_region_name new = name_of b k" "rn_parameter new = []" "rn_scorep_id new = sint (ctd_scorep_id (b ! k))"
    by (simp_all add: new_def new_Rts_def blank_rts_def name_of_def)
  moreover have st_k: "last_aa_rts_id st = int k" "buffer_index st = k" using st by (simp_all add: built_def)
  ultimately have "add_child mapping (b ! k) p st = ret (k, st\<lparr>
     rts_store := add_below p k (rts_store st) @ [named_node mapping a b k (length (param_store st))],
     param_store := param_store st @ (if is_parameter_name (name_of b k) then [parameter_of_name (name_of b k)] else []),
     last_aa_rts_id := int k + 1,
     scorepid_to_rts_mapping := sm_insert (sint (ctd_scorep_id (b ! k))) k (scorepid_to_rts_mapping st),
     rts_to_serialize := rts_to_serialize st @ [k], buffer_index := k + 1\<rparr>)"
    using p key(1) appl n
    by (simp add: add_child_def Let_def rts_at_def n_def [symmetric] new_def [symmetric] alloc_rts_def update_rts_def
        set_rts_def generateRtsID_def nth_append list_update_append extract_parameter_def deref_def
        map_scorepid_def add_below_def named_node_def fresh_node_def key(3) p_def [symmetric])
  then show ?thesis unfolding p_def by blast
qed

lemma built_step:
  assumes b: "buffer_ok b" and regions: "regions_ok mapping a b" and st: "built mapping a b k st"
    and k: "0 < k" "k < length b"
  shows "\<exists>st'. loop (insert_body b mapping) (Some (k - 1), st) = loop (insert_body b mapping) (Some k, st') \<and>
     built mapping a b (Suc k) st'"
proof -
  define p where "p = par b k"
  obtain st' ids where run: "add_child mapping (b ! k) p st = ret (k, st')" and
    st': "st' = st\<lparr>rts_store := add_below p k (rts_store st) @ [named_node mapping a b k (length (param_store st))],
      param_store := param_store st @ (if is_parameter_name (name_of b k) then [parameter_of_name (name_of b k)] else []),
      last_aa_rts_id := int k + 1, scorepid_to_rts_mapping := ids, rts_to_serialize := rts_to_serialize st @ [k],
      buffer_index := k + 1\<rparr>"
    using add_child_new [OF b regions st k] unfolding p_def by blast
  have p: "p < k" "length (rts_store st) = k" "ctd_parent_scorep_id (b ! k) = ctd_scorep_id (b ! p)"
    using buffer_parent [OF b k] st by (simp_all add: p_def built_def)
  have "insert_body b mapping (Some p, st) = ret (True, Some k, st')"
    using built_node [OF st p(1)] st k p(1,2) run p(3) buffer_parent(4) [OF b k]
    by (simp add: insert_body_def built_def rts_at_def deref_def node_built_def Let_def)
  then have "loop (insert_body b mapping) (Some p, st) = loop (insert_body b mapping) (Some k, st')"
    by (subst loop_unfold) simp
  moreover have "loop (insert_body b mapping) (Some (k - 1), st) = loop (insert_body b mapping) (Some p, st)"
    unfolding p_def using k buffer_parent(3) [OF b k] by (intro climb [OF b st k]) auto
  moreover have "built mapping a b (Suc k) st'"
  proof -
    have "node_built mapping a b (Suc k) i st'" if i: "i < Suc k" for i
    proof (cases "i = k")
      case True
      have "rts_store st' ! k = named_node mapping a b k (length (param_store st))"
        using p by (simp add: st' add_below_def nth_append)
      then show ?thesis
        using True k p(1) node_region.simps [of mapping a b k]
        by (simp add: node_built_def Let_def named_node_def fresh_node_def new_Rts_def blank_rts_def kids_last p_def [symmetric]
            name_of_def type_of_name_def st' own_parameters_def)
    next
      case False
      have old: "node_built mapping a b k i st" using built_node [OF st] i False by simp
      have "rts_store st' ! i = (if i = p then (rts_store st ! i)\<lparr>rn_children := rn_children (rts_store st ! i) @ [k]\<rparr> else rts_store st ! i)"
        using i False p by (auto simp: st' add_below_def nth_append)
      moreover obtain ps where "param_store st' = param_store st @ ps" by (simp add: st')
      moreover have "kids b (Suc k) i = kids b k i @ (if i = p then [k] else [])"
        using i False by (auto simp: kids_Suc p_def)
      ultimately show ?thesis
        using old by (cases "i = p"; simp add: node_built_def Let_def own_parameters_append)
    qed
    moreover have "set (param_store st') \<subseteq> (\<lambda>j. parameter_of_name (name_of b j)) ` {..<length b}"
      using st k by (auto simp: built_def st')
    ultimately show ?thesis using st by (simp add: built_def) (simp add: st' add_below_def)
  qed
  ultimately show ?thesis by metis
qed

lemma built_all:
  assumes b: "buffer_ok b" and regions: "regions_ok mapping a b" and st: "built mapping a b k st"
    and k: "0 < k" "k \<le> length b"
  shows "\<exists>p st'. loop (insert_body b mapping) (Some (k - 1), st) = ret (p, st') \<and> built mapping a b (length b) st'"
  using st k
proof (induction "length b - k" arbitrary: k st)
  case 0
  then have "insert_body b mapping (Some (k - 1), st) = ret (False, Some (k - 1), st)"
    by (simp add: insert_body_def built_def)
  then have "loop (insert_body b mapping) (Some (k - 1), st) = ret (Some (k - 1), st)" by (subst loop_unfold) simp
  then show ?case using 0 by auto
next
  case (Suc d)
  then obtain st' where "loop (insert_body b mapping) (Some (k - 1), st) = loop (insert_body b mapping) (Some k, st')"
    "built mapping a b (Suc k) st'"
    using built_step [OF b regions Suc.prems(1)] Suc.hyps(2) Suc.prems by (metis zero_less_Suc zero_less_diff)
  moreover have "\<exists>p st''. loop (insert_body b mapping) (Some (Suc k - 1), st') = ret (p, st'') \<and> built mapping a b (length b) st''"
    using Suc.hyps calculation by (intro Suc.hyps) auto
  ultimately show ?case by simp
qed

section \<open>The tree of the walk\<close>

lemma kids_par:
  assumes "buffer_ok b" "j \<in> set (kids b k i)" "k \<le> length b"
  shows "par b j = i" "i < j" "j < k"
  using assms by (auto simp: mem_kids)

lemma tree_of_ptr [simp]: "node_ptr (tree_of b k i) = i"
  by (subst tree_of.simps) simp

lemma set_nodes_tree_of:
  "i < k \<Longrightarrow> set (nodes (tree_of b (k) i)) = {q. q < k \<and> i \<in> set (ancestors b q)}"
proof (induction "k - i" arbitrary: i rule: less_induct)
  case less
  have "set (nodes (tree_of b (k) i)) = insert i (\<Union>j\<in>set (kids b (k) i). set (nodes (tree_of b (k) j)))"
    by (subst tree_of.simps) simp
  also have "\<dots> = insert i (\<Union>j\<in>set (kids b (k) i). {q. q < k \<and> j \<in> set (ancestors b q)})"
    using less by (intro arg_cong [of _ _ "insert i"] SUP_cong) (auto simp: mem_kids)
  also have "\<dots> = {q. q < k \<and> i \<in> set (ancestors b q)}" (is "?L = ?R")
  proof
    show "?L \<subseteq> ?R"
    proof
      fix q assume "q \<in> ?L"
      then consider "q = i" | j where "j \<in> set (kids b (k) i)" "q < k" "j \<in> set (ancestors b q)" by auto
      then show "q \<in> ?R"
      proof cases
        case 2
        have "i \<in> set (ancestors b q)" if "j \<in> set (ancestors b q)" for q
          using that
        proof (induction q rule: less_induct)
          case (less q)
          show ?case
          proof (cases "j = q")
            case True
            then show ?thesis using 2(1) ancestors_par [of b q] by (simp add: mem_kids)
          next
            case False
            then show ?thesis using ancestors_other [OF less.prems False] less.IH ancestors_par [of b q] by simp
          qed
        qed
        then show ?thesis using 2 by simp
      qed (use less.prems in simp)
    qed
    show "?R \<subseteq> ?L"
    proof
      fix q assume "q \<in> ?R"
      then have "q < k" "i \<in> set (ancestors b q)" by simp_all
      then show "q \<in> ?L"
      proof (induction q rule: less_induct)
        case (less q)
        show ?case
        proof (cases "i = q")
          case False
          then have up: "par b q < q" "i \<in> set (ancestors b (par b q))" using ancestors_other less.prems(2) by auto
          then have "par b q \<in> ?L" using less.IH [of "par b q"] less.prems(1) by simp
          then consider "par b q = i" | j where "j \<in> set (kids b (k) i)" "j \<in> set (ancestors b (par b q))" by auto
          then show ?thesis
          proof cases
            case 1
            then have "q \<in> set (kids b (k) i)" using up(1) less.prems(1) by (simp add: mem_kids)
            then show ?thesis using less.prems(1) ancestors_self [of q b] by blast
          next
            case 2
            then show ?thesis using up(1) less.prems(1) ancestors_par [of b q] by auto
          qed
        qed simp
      qed
    qed
  qed
  finally show ?case .
qed

text \<open>Two children of a node have no descendant in common.\<close>

lemma ancestors_linear:
  assumes "j \<in> set (ancestors b q)" "j' \<in> set (ancestors b q)" "j < j'"
  shows "j \<in> set (ancestors b (par b j')) \<and> par b j' < j'"
  using assms
proof (induction q rule: less_induct)
  case (less q)
  have "j \<noteq> q" using less.prems ancestors_le [of j' b q] by auto
  then have up: "par b q < q" "j \<in> set (ancestors b (par b q))" using ancestors_other less.prems(1) by auto
  show ?case
  proof (cases "j' = q")
    case True
    then show ?thesis using up by simp
  next
    case False
    then show ?thesis using less.IH [of "par b q"] up ancestors_other [OF less.prems(2)] less.prems(3) by simp
  qed
qed

lemma siblings_apart:
  assumes "par b j = i" "par b j' = i" "i < j" "i < j'" "j \<in> set (ancestors b q)" "j' \<in> set (ancestors b q)"
  shows "j = j'"
proof (rule ccontr)
  assume "j \<noteq> j'"
  then consider "j < j'" | "j' < j" by linarith
  then show False
  proof cases
    case 1
    then show False using ancestors_linear [of j b q j'] ancestors_le [of j b i] assms by auto
  next
    case 2
    then show False using ancestors_linear [of j' b q j] ancestors_le [of j' b i] assms by auto
  qed
qed

lemma distinct_concat_map:
  assumes "distinct xs" "\<And>x. x \<in> set xs \<Longrightarrow> distinct (f x)"
    and "\<And>x y. x \<in> set xs \<Longrightarrow> y \<in> set xs \<Longrightarrow> x \<noteq> y \<Longrightarrow> set (f x) \<inter> set (f y) = {}"
  shows "distinct (concat (map f xs))"
  using assms
proof (induction xs)
  case (Cons x xs)
  then have "set (f x) \<inter> set (concat (map f xs)) = {}" by auto
  then show ?case using Cons by simp
qed simp

lemma distinct_nodes_tree_of:
  "i < k \<Longrightarrow> distinct (nodes (tree_of b (k) i))"
proof (induction "k - i" arbitrary: i rule: less_induct)
  case less
  let ?t = "tree_of b (k)" and ?k = "kids b (k) i"
  have kid: "j < k" "i < j" "par b j = i" if "j \<in> set ?k" for j using that by (simp_all add: mem_kids)
  have "distinct (concat (map (\<lambda>j. nodes (?t j)) ?k))"
  proof (rule distinct_concat_map)
    show "distinct ?k" by (simp add: kids_def)
    show "distinct (nodes (?t j))" if "j \<in> set ?k" for j using less kid [OF that] by simp
    show "set (nodes (?t j)) \<inter> set (nodes (?t j')) = {}" if "j \<in> set ?k" "j' \<in> set ?k" "j \<noteq> j'" for j j'
      using that kid [OF that(1)] kid [OF that(2)] siblings_apart [of b j i j'] set_nodes_tree_of by auto
  qed
  moreover have "i \<notin> set (concat (map (\<lambda>j. nodes (?t j)) ?k))"
  proof
    assume "i \<in> set (concat (map (\<lambda>j. nodes (?t j)) ?k))"
    then obtain j where "j \<in> set ?k" "i \<in> set (nodes (?t j))" by auto
    then show False using kid [of j] set_nodes_tree_of [of j k b] ancestors_le [of j b i] by auto
  qed
  ultimately show ?case by (subst tree_of.simps) (simp add: comp_def)
qed

lemma root_ancestor:
  assumes "buffer_ok b" "q < length b"
  shows "0 \<in> set (ancestors b q)"
  using assms(2)
proof (induction q rule: less_induct)
  case (less q)
  then show ?case
    using buffer_parent(1) [OF assms(1), of q] ancestors_par [of b q] by (cases "q = 0") auto
qed

lemma names_path_step: "par b i < i \<Longrightarrow> names_path b i = names_path b (par b i) @ [name_of b i]"
  by (simp add: names_path_def ancestors.simps [of b i])

lemma names_path_root: "names_path b 0 = [name_of b 0]"
  by (simp add: names_path_def ancestors.simps [of b 0])

section \<open>The whole construction\<close>

definition final_node :: "regionid_mapping \<Rightarrow> application \<Rightarrow> call_tree_def list \<Rightarrow> calltree \<Rightarrow> nat \<Rightarrow> bool" where
  "final_node mapping a b st i \<longleftrightarrow>
     (let n = rts_store st ! i
      in rn_parent n = (if i = 0 then None else Some (par b i)) \<and> rn_children n = kids b (length b) i \<and>
         rn_scorep_id n = sint (ctd_scorep_id (b ! i)) \<and> rn_parent_scorep_id n = sint (ctd_parent_scorep_id (b ! i)) \<and>
         rn_region_name n = name_of b i \<and> rn_reg n = node_region mapping a b i \<and> rn_aa_rts_id n = int i + 1 \<and>
         rn_rts_type n = Some (type_of_name (name_of b i)) \<and>
         rn_callpathstring n = makeCallpathString (names_path b i) \<and>
         (rn_isValidRts n \<longleftrightarrow> (\<forall>j\<in>set (kids b (length b) i). \<not> is_parameter_name (name_of b j))) \<and>
         set (rn_parameter n) \<subseteq> {..<length (param_store st)} \<and>
         (if is_parameter_name (name_of b i) then parameter_of_name (name_of b i) \<in> (!) (param_store st) ` set (rn_parameter n)
          else rn_parameter n = []))"

definition agent_tree :: "regionid_mapping \<Rightarrow> application \<Rightarrow> call_tree_def list \<Rightarrow> calltree \<Rightarrow> bool" where
  "agent_tree mapping a b st \<longleftrightarrow>
     length (rts_store st) = length b \<and> ct_root st = Some 0 \<and> ct_appl st = a\<lparr>calltree_root := Some 0\<rparr> \<and>
     rts_to_serialize st = [0..<length b] \<and>
     set (param_store st) \<subseteq> (\<lambda>j. parameter_of_name (name_of b j)) ` {..<length b} \<and>
     (\<forall>i<length b. final_node mapping a b st i)"

lemma call_tree_built:
  assumes b: "buffer_ok b" and st: "built mapping a b (length b) st" and root: "rn_rts_type (rts_store st ! 0) \<noteq> None"
  shows "i < length b \<Longrightarrow> call_tree st (tree_of b (length b) i)"
proof (induction "length b - i" arbitrary: i rule: less_induct)
  case less
  have n: "node_built mapping a b (length b) i st" by (rule built_node [OF st less.prems])
  have "rn_rts_type (rts_store st ! i) \<noteq> None" using n root by (cases "i = 0") (auto simp: node_built_def Let_def)
  moreover have "rn_parent (rts_store st ! j) = Some i \<and> call_tree st (tree_of b (length b) j)" if "j \<in> set (kids b (length b) i)" for j
  proof -
    have j: "i < j" "j < length b" "par b j = i" using that by (simp_all add: mem_kids)
    then have "call_tree st (tree_of b (length b) j)" by (intro less.hyps) simp_all
    then show ?thesis using j built_node [OF st j(2)] by (simp add: node_built_def Let_def)
  qed
  ultimately show ?case
    using n st less.prems by (subst tree_of.simps) (simp add: node_built_def Let_def built_def comp_def)
qed

text \<open>What the pass says, node by node.\<close>

lemma labelled_tree_of:
  assumes b: "buffer_ok b" and names: "\<And>j. j < length b \<Longrightarrow> rn_region_name (rts_store st ! j) = name_of b j"
  shows "i < length b \<Longrightarrow> labelled st' st strs (tree_of b (length b) i) \<Longrightarrow> strs @ [name_of b i] = names_path b i \<Longrightarrow>
     q \<in> set (nodes (tree_of b (length b) i)) \<Longrightarrow>
     rts_store st' ! q = node_label st' (butlast (names_path b q)) (rts_store st ! q)"
proof (induction "length b - i" arbitrary: i strs rule: less_induct)
  case less
  have tree: "tree_of b (length b) i = Rts_Node i (map (tree_of b (length b)) (kids b (length b) i))" by (rule tree_of.simps)
  show ?case
  proof (cases "q = i")
    case True
    have "strs = butlast (names_path b i)" using less.prems(3) by (metis butlast_snoc)
    then show ?thesis using less.prems(2) True unfolding tree by simp
  next
    case False
    then obtain j where j: "j \<in> set (kids b (length b) i)" "q \<in> set (nodes (tree_of b (length b) j))"
      using less.prems(4) unfolding tree by auto
    then have "i < j" "j < length b" "par b j = i" by (simp_all add: mem_kids)
    moreover have "labelled st' st (strs @ [name_of b i]) (tree_of b (length b) j)"
      using less.prems(1,2) j(1) unfolding tree by (simp add: names)
    ultimately show ?thesis
      using less.hyps [of j "strs @ [name_of b i]"] less.prems(3) j(2) names_path_step [of b j] by simp
  qed
qed

lemma set_inherited: "set (inherited st n) =
  set (rn_parameter n) \<union> (case rn_parent n of None \<Rightarrow> {} | Some q \<Rightarrow>
     if rn_rts_type (rts_store st ! q) = Some NODE_PARAMETER \<and> rn_rts_type n = Some NODE_PARAMETER
     then set (rn_parameter (rts_store st ! q)) else {})"
proof -
  have "set (fold (\<lambda>x ps. if x \<in> set ps then ps else x # ps) xs ys) = set xs \<union> set ys" for xs ys :: "nat list"
    by (induction xs arbitrary: ys) auto
  then show ?thesis by (auto simp: inherited_def split: option.split)
qed

lemma final_nodes:
  assumes b: "buffer_ok b" and st: "built mapping a b (length b) st" and root: "rn_rts_type (rts_store st ! 0) = Some NODE_REGULAR_REGION"
    and lab: "\<And>q. q < length b \<Longrightarrow> rts_store st' ! q = node_label st' (butlast (names_path b q)) (rts_store st ! q)"
    and ps: "param_store st' = param_store st"
  shows "i < length b \<Longrightarrow> final_node mapping a b st' i"
proof (induction i rule: less_induct)
  case (less i)
  define n where "n = rts_store st ! i"
  have n: "node_built mapping a b (length b) i st" by (rule built_node [OF st less.prems])
  have n': "rts_store st' ! i = node_label st' (butlast (names_path b i)) n" using lab less.prems by (simp add: n_def)
  have par: "par b i < i" if "0 < i" using buffer_parent(1) [OF b that less.prems] .
  have root_name: "type_of_name (name_of b 0) = NODE_REGULAR_REGION" using b by (simp add: buffer_ok_def type_of_name_def)
  have type: "rn_rts_type (rts_store st' ! j) = Some (type_of_name (name_of b j))" if "j < length b" for j
    using built_node [OF st that] root root_name lab [OF that]
    by (cases "j = 0") (auto simp: node_built_def Let_def node_label_def)
  have "butlast (names_path b i) @ [name_of b i] = names_path b i"
    using names_path_step [OF par] names_path_root [of b] by (cases "i = 0") auto
  then have path: "rn_callpathstring (rts_store st' ! i) = makeCallpathString (names_path b i)"
    using n by (simp add: n' node_label_def n_def node_built_def Let_def)
  have valid: "rn_isValidRts (rts_store st' ! i) \<longleftrightarrow> (\<forall>j\<in>set (kids b (length b) i). \<not> is_parameter_name (name_of b j))"
  proof -
    have "rn_isValidRts (rts_store st' ! i) \<longleftrightarrow> (\<forall>j\<in>set (kids b (length b) i). rn_rts_type (rts_store st' ! j) = Some NODE_REGULAR_REGION)"
      using n by (subst n') (simp add: node_label_def n_def node_built_def Let_def list_all_iff)
    then show ?thesis using type by (simp add: mem_kids type_of_name_def)
  qed
  have inh: "rn_parameter (rts_store st' ! i) = inherited st' n" by (subst n') (simp add: node_label_def)
  have own: "own_parameters b i (rn_parameter n) (param_store st')" and up: "rn_parent n = (if i = 0 then None else Some (par b i))"
    using n ps by (simp_all add: node_built_def Let_def n_def)
  have t: "rn_rts_type n = Some (type_of_name (name_of b i))" using type [OF less.prems] by (simp add: n' node_label_def)
  have params: "set (rn_parameter (rts_store st' ! i)) \<subseteq> {..<length (param_store st')}"
    "if is_parameter_name (name_of b i) then parameter_of_name (name_of b i) \<in> (!) (param_store st') ` set (rn_parameter (rts_store st' ! i))
     else rn_parameter (rts_store st' ! i) = []"
  proof -
    have above: "set (rn_parameter (rts_store st' ! par b i)) \<subseteq> {..<length (param_store st')}" if "0 < i"
      using less.IH [of "par b i"] par [OF that] less.prems by (simp add: final_node_def Let_def)
    show "set (rn_parameter (rts_store st' ! i)) \<subseteq> {..<length (param_store st')}"
      using own above unfolding inh set_inherited up own_parameters_def by (auto split: if_splits)
    show "if is_parameter_name (name_of b i) then parameter_of_name (name_of b i) \<in> (!) (param_store st') ` set (rn_parameter (rts_store st' ! i))
     else rn_parameter (rts_store st' ! i) = []"
    proof (cases "is_parameter_name (name_of b i)")
      case True
      then have "0 < i" using b by (cases "i = 0") (auto simp: buffer_ok_def)
      then obtain q where "q \<in> set (rn_parameter n)" "param_store st' ! q = parameter_of_name (name_of b i)"
        using own True by (auto simp: own_parameters_def)
      then show ?thesis using True unfolding inh set_inherited by force
    next
      case False
      then have "rn_parameter n = []" using own by (auto simp: own_parameters_def)
      moreover have "rn_rts_type n \<noteq> Some NODE_PARAMETER" using t False by (simp add: type_of_name_def)
      ultimately show ?thesis using False unfolding inh by (simp add: inherited_def split: option.split)
    qed
  qed
  have "rn_parent (rts_store st' ! i) = rn_parent n" "rn_children (rts_store st' ! i) = rn_children n"
    "rn_scorep_id (rts_store st' ! i) = rn_scorep_id n" "rn_parent_scorep_id (rts_store st' ! i) = rn_parent_scorep_id n"
    "rn_region_name (rts_store st' ! i) = rn_region_name n" "rn_reg (rts_store st' ! i) = rn_reg n"
    "rn_aa_rts_id (rts_store st' ! i) = rn_aa_rts_id n"
    by (subst n', simp add: node_label_def)+
  then show ?case
    using n [unfolded node_built_def Let_def, folded n_def] type [OF less.prems] path valid params
    by (simp add: final_node_def Let_def split del: if_split)
qed

lemma built_first:
  assumes b: "buffer_ok b" and regions: "regions_ok mapping a b"
  shows "\<exists>st. built mapping a b 1 st \<and> construct_aagent_calltree b mapping (fresh_tree a) =
     cbind (insertNode b mapping 0 st) (\<lambda>st. cbind (extract_parameter 0 st) (\<lambda>st. addNodeInfo 0 st))"
proof -
  have n: "0 < length b" "b \<noteq> []" using b by (auto simp: buffer_ok_def)
  obtain key r where key: "find_ptf_id mapping (ctd_region_id (b ! 0)) = ret key" "getRegionByKey key a = Some r"
    "recorded_region mapping a (b ! 0) = Some r"
    using regions_okD [OF regions n(1)] by metis
  define new where "new = (new_Rts (b ! 0) (Some r))\<lparr>rn_aa_rts_id := 1\<rparr>"
  define st where "st = (fresh_tree a)\<lparr>rts_store := [new], ct_root := Some 0, ct_appl := a\<lparr>calltree_root := Some 0\<rparr>,
    last_aa_rts_id := 1, rts_to_serialize := [0], buffer_index := 1,
    scorepid_to_rts_mapping := sm_insert (rn_scorep_id new) 0 []\<rparr>"
  have "construct_aagent_calltree b mapping (fresh_tree a) =
     cbind (insertNode b mapping 0 st) (\<lambda>st. cbind (extract_parameter 0 st) (\<lambda>st. addNodeInfo 0 st))"
    using n key by (simp add: construct_aagent_calltree_def fresh_tree_def alloc_rts_def generateRtsID_def INT_MAX_def
        update_rts_def rts_at_def set_rts_def deref_def map_scorepid_def st_def new_def)
  moreover have "node_built mapping a b 1 0 st"
    using key node_region.simps [of mapping a b 0]
    by (simp add: node_built_def Let_def st_def new_def new_Rts_def blank_rts_def own_parameters_def name_of_def kids_def)
  then have "built mapping a b 1 st" by (simp add: built_def) (simp add: st_def fresh_tree_def)
  ultimately show ?thesis by blast
qed

lemma agent_tree_built:
  assumes b: "buffer_ok b" and regions: "regions_ok mapping a b"
  shows "\<exists>st. construct_aagent_calltree b mapping (fresh_tree a) = ret st \<and> agent_tree mapping a b st"
proof -
  have n: "0 < length b" and root_name: "\<not> is_parameter_name (name_of b 0)" using b by (auto simp: buffer_ok_def)
  obtain st1 where st1: "built mapping a b 1 st1" and run: "construct_aagent_calltree b mapping (fresh_tree a) =
     cbind (insertNode b mapping 0 st1) (\<lambda>st. cbind (extract_parameter 0 st) (\<lambda>st. addNodeInfo 0 st))"
    using built_first [OF b regions] by blast
  obtain p st2 where "loop (insert_body b mapping) (Some 0, st1) = ret (p, st2)" and st2: "built mapping a b (length b) st2"
    using built_all [OF b regions st1] n by (auto simp: Suc_leI)
  then have insert: "insertNode b mapping 0 st1 = ret st2" by (simp add: insertNode_def)
  define st3 where "st3 = set_rts 0 ((rts_store st2 ! 0)\<lparr>rn_rts_type := Some NODE_REGULAR_REGION\<rparr>) st2"
  have len: "length (rts_store st2) = length b" using st2 by (simp add: built_def)
  have ext: "extract_parameter 0 st2 = ret st3"
    using built_node [OF st2 n] n len root_name
    by (simp add: extract_parameter_def rts_at_def st3_def node_built_def Let_def)
  have old: "rts_store st3 ! i = (if i = 0 then (rts_store st2 ! 0)\<lparr>rn_rts_type := Some NODE_REGULAR_REGION\<rparr> else rts_store st2 ! i)" for i
    using n len by (simp add: st3_def set_rts_def)
  have ps: "param_store st3 = param_store st2" by (simp add: st3_def set_rts_def)
  have "node_built mapping a b (length b) i st3" if "i < length b" for i
    using built_node [OF st2 that] ps by (cases "i = 0") (simp_all add: node_built_def Let_def old)
  then have st3: "built mapping a b (length b) st3" using st2 by (simp add: built_def) (simp add: st3_def set_rts_def)
  have root: "rn_rts_type (rts_store st3 ! 0) = Some NODE_REGULAR_REGION" by (simp add: old)
  let ?t = "tree_of b (length b) 0"
  have tree: "call_tree st3 ?t" using root n by (intro call_tree_built [OF b st3]) simp_all
  have "rn_parent (rts_store st3 ! 0) = None" using built_node [OF st3 n] by (simp add: node_built_def Let_def)
  then obtain st' where "setCallPaths True 0 ([], st3) = ret ([], st')" and passed: "passed True [?t] [] st3 st'"
    using pass_tree [OF tree distinct_nodes_tree_of [OF n], of True "[]"] by (auto simp: above_ok_def)
  then have info: "addNodeInfo 0 st3 = ret st'" by (simp add: addNodeInfo_def)
  have eq: "st' = with_labels st3 (rts_store st') (mapped_paths True (paths_below st3 [] ?t) (aa_rts_callpath_mapping st3))"
    using passed by (simp add: passed_def)
  have fields: "param_store st' = param_store st3" "ct_root st' = ct_root st3" "ct_appl st' = ct_appl st3"
    "rts_to_serialize st' = rts_to_serialize st3" by (subst eq, simp add: with_labels_def)+
  have lab: "rts_store st' ! q = node_label st' (butlast (names_path b q)) (rts_store st3 ! q)" if "q < length b" for q
  proof (rule labelled_tree_of [OF b])
    show "rn_region_name (rts_store st3 ! j) = name_of b j" if "j < length b" for j
      using built_node [OF st3 that] by (simp add: node_built_def Let_def)
    show "labelled st' st3 [] ?t" using passed by (simp add: passed_def)
    show "q \<in> set (nodes ?t)" using set_nodes_tree_of [OF n] root_ancestor [OF b that] that by simp
  qed (use n names_path_root in auto)
  have "final_node mapping a b st' i" if "i < length b" for i
    by (rule final_nodes [OF b st3 root lab fields(1) that])
  moreover have "length (rts_store st') = length b"
    using passed st3 by (simp add: passed_def relabels_def built_def)
  ultimately have "agent_tree mapping a b st'" using st3 by (simp add: agent_tree_def fields built_def)
  then show ?thesis using run insert ext info by auto
qed

text \<open>
  C37: A call tree is built as it was recorded. For a buffer of records in preorder with distinct identifiers, in which
  siblings have different names and every region is known to the agent, building the tree from a fresh start returns
  (the walk up and down ends): every record has one node, linked to its parent and in the recorded order to its
  children, with its names on the way from the root as call path, its region (a parameter that of the node above),
  its parameters, the mark of the nodes without a parameter below, consecutive identifiers, and exactly the nodes are
  queued for the frontend, parents first.
\<close>

theorem agent_builds_recorded_tree:
  assumes "buffer_ok b" "regions_ok mapping a b"
  shows "\<exists>st. construct_aagent_calltree b mapping (fresh_tree a) = ret st \<and> agent_tree mapping a b st"
  using assms by (rule agent_tree_built)

text \<open>A phase calling a solver for a parameter's value and then a function.\<close>

definition record_of :: "string \<Rightarrow> 32 word \<Rightarrow> 32 word \<Rightarrow> call_tree_def" where
  "record_of name scorep parent = \<lparr>ctd_region_id = 7, ctd_name = name, ctd_scorep_id = scorep, ctd_parent_scorep_id = parent\<rparr>"

definition example_buffer :: "call_tree_def list" where
  "example_buffer = [record_of ''phase'' 1 0, record_of ''it=3'' 2 1, record_of ''solve'' 5 2, record_of ''post'' 4 1]"

definition example_regions :: application where
  "example_regions =
     (new_Application None)\<lparr>region_store := [new_Region_key 50030003 USER_REGION 5 3 3 9 ''a.c'' ''main'' False],
       code_regions := [(''a.c*main*3'', 0)], region_by_regionKey := [(50030003, 0)]\<rparr>"

definition example_ids :: regionid_mapping where
  "example_ids = [(50030003, [(7, [0])])]"

lemma example_buffer_ok: "buffer_ok example_buffer"
  by code_simp

lemma example_regions_ok: "regions_ok example_ids example_regions example_buffer"
  by code_simp

lemma example_paths:
  "map (\<lambda>i. makeCallpathString (names_path example_buffer i)) [0..<4] = [''/phase'', ''/phase/it=3'', ''/phase/it=3/solve'', ''/phase/post'']"
  by code_simp

theorem agent_builds_recorded_tree_witness:
  "\<exists>st. construct_aagent_calltree example_buffer example_ids (fresh_tree example_regions) = ret st \<and>
     map rn_callpathstring (rts_store st) = [''/phase'', ''/phase/it=3'', ''/phase/it=3/solve'', ''/phase/post''] \<and>
     rts_to_serialize st = [0, 1, 2, 3]"
proof -
  obtain st where run: "construct_aagent_calltree example_buffer example_ids (fresh_tree example_regions) = ret st"
    and t: "agent_tree example_ids example_regions example_buffer st"
    using agent_builds_recorded_tree [OF example_buffer_ok example_regions_ok] by blast
  have len: "length example_buffer = 4" by (simp add: example_buffer_def)
  have "rn_callpathstring (rts_store st ! i) = makeCallpathString (names_path example_buffer i)" if "i < 4" for i
    using t that by (simp add: agent_tree_def final_node_def Let_def len)
  then have "map rn_callpathstring (rts_store st) = map (\<lambda>i. makeCallpathString (names_path example_buffer i)) [0..<4]"
    using t by (intro nth_equalityI) (simp_all add: agent_tree_def len)
  moreover have "rts_to_serialize st = [0, 1, 2, 3]" using t by (simp add: agent_tree_def len upt_rec)
  ultimately show ?thesis using run example_paths by simp
qed

end
