(* ===== verification/FrontendTree.thy ===== *)
theory FrontendTree
  imports AgentTree
begin

text \<open>
  From the agent to the frontend (\<open>on_serializecalltree\<close>, \<open>PeriscopeFrontend::construct_calltree\<close>): the agent
  writes the nodes it queued, the frontend reads one after the other and hangs each below the node with the call path
  that is left without its last name. The frontend's tree is then the agent's, node for node.
\<close>

section \<open>Sending and receiving\<close>

definition on_serializecalltree :: "calltree \<Rightarrow> (rts_message list \<times> calltree) comp" where
  "on_serializecalltree st =
     cbind (cfold (\<lambda>p ms. cbind (toXMLdata p st) (\<lambda>m. ret (ms @ [m]))) (rts_to_serialize st) []) (\<lambda>ms.
       ret (ms, st\<lparr>rts_to_serialize := []\<rparr>))"

definition receive_calltree :: "(string \<Rightarrow> string) \<Rightarrow> rts_message list \<Rightarrow> calltree \<Rightarrow> calltree comp" where
  "receive_calltree xml ms st = cfold (construct_calltree xml) ms st"

section \<open>Hanging a node into a tree\<close>

definition hangs_below :: "calltree \<Rightarrow> rts_ptr \<Rightarrow> rts_ptr \<Rightarrow> bool" where
  "hangs_below st c q \<longleftrightarrow>
     rn_callpathstring (rts_store st ! c) = rn_callpathstring (rts_store st ! q) @ ''/'' @ rn_region_name (rts_store st ! c)"

definition attach :: "rts_ptr \<Rightarrow> rts_ptr \<Rightarrow> calltree \<Rightarrow> calltree" where
  "attach a c st =
     (let s = add_below a c (rts_store st) in st\<lparr>rts_store := s[c := (s ! c)\<lparr>rn_parent := Some a\<rparr>]\<rparr>)"

lemma insertFrontendNode_skip:
  assumes "c < length (rts_store st)"
  shows "call_tree st t \<Longrightarrow> (\<And>q. q \<in> set (nodes t) \<Longrightarrow> \<not> hangs_below st c q) \<Longrightarrow> insertFrontendNode (node_ptr t) c st = ret st"
proof (induction t)
  case (Rts_Node p ts)
  have "cfold (\<lambda>p st. insertFrontendNode p c st) (map node_ptr us) st = ret st" if "set us \<subseteq> set ts" for us
    using that
  proof (induction us)
    case (Cons u us)
    then have "insertFrontendNode (node_ptr u) c st = ret st" using Rts_Node by auto
    then show ?case using Cons by simp
  qed simp
  then have "cfold (\<lambda>p st. insertFrontendNode p c st) (map node_ptr ts) st = ret st" by simp
  then show ?case
    using Rts_Node.prems assms by (subst insertFrontendNode.simps) (simp add: rts_at_def hangs_below_def)
qed

lemma attach_fields:
  assumes "a < length (rts_store st)" "c < length (rts_store st)"
  shows "length (rts_store (attach a c st)) = length (rts_store st)"
    "rn_callpathstring (rts_store (attach a c st) ! q) = rn_callpathstring (rts_store st ! q)"
    "rn_region_name (rts_store (attach a c st) ! q) = rn_region_name (rts_store st ! q)"
    "rn_rts_type (rts_store (attach a c st) ! q) = rn_rts_type (rts_store st ! q)"
    "q \<noteq> a \<Longrightarrow> q \<noteq> c \<Longrightarrow> rts_store (attach a c st) ! q = rts_store st ! q"
  using assms by (auto simp: attach_def add_below_def Let_def nth_list_update)

lemma call_tree_cong:
  assumes "\<And>q. q \<in> set (nodes t) \<Longrightarrow> rts_store st' ! q = rts_store st ! q" "length (rts_store st') = length (rts_store st)"
  shows "call_tree st' t \<longleftrightarrow> call_tree st t"
  using assms
proof (induction t)
  case (Rts_Node p ts)
  have "rts_store st' ! node_ptr t = rts_store st ! node_ptr t" "call_tree st' t \<longleftrightarrow> call_tree st t" if "t \<in> set ts" for t
  proof -
    have "node_ptr t \<in> set (nodes (Rts_Node p ts))" using that node_ptr_nodes [of t] by (simp del: node_ptr_nodes) blast
    then show "rts_store st' ! node_ptr t = rts_store st ! node_ptr t" by (rule Rts_Node.prems(1))
    show "call_tree st' t \<longleftrightarrow> call_tree st t" using that Rts_Node.prems by (intro Rts_Node.IH) auto
  qed
  then show ?case using Rts_Node.prems by auto
qed

lemma insertFrontendNode_attach:
  assumes c: "c < length (rts_store st)"
  shows "call_tree st t \<Longrightarrow> distinct (nodes t) \<Longrightarrow> a \<in> set (nodes t) \<Longrightarrow> c \<notin> set (nodes t) \<Longrightarrow>
    (\<And>q. q \<in> set (nodes t) \<Longrightarrow> hangs_below st c q \<longleftrightarrow> q = a) \<Longrightarrow>
    findFrontendNode (rts_store st ! a) (rts_store st ! c) st = ret None \<Longrightarrow>
    insertFrontendNode (node_ptr t) c st = ret (attach a c st)"
proof (induction t)
  case (Rts_Node p ts)
  have p: "p < length (rts_store st)" "rn_children (rts_store st ! p) = map node_ptr ts" using Rts_Node.prems(1) by simp_all
  show ?case
  proof (cases "p = a")
    case True
    have "a \<noteq> c" using Rts_Node.prems(4) True by auto
    then show ?thesis
      using True p c Rts_Node.prems(5) [of p] Rts_Node.prems(6)
      by (subst insertFrontendNode.simps)
         (simp add: rts_at_def hangs_below_def update_rts_def set_rts_def attach_def add_below_def)
  next
    case False
    then obtain u where u: "u \<in> set ts" "a \<in> set (nodes u)" using Rts_Node.prems(3) by auto
    then obtain xs ys where ts: "ts = xs @ u # ys" by (auto simp: in_set_conv_decomp)
    let ?st = "attach a c st"
    have a: "a < length (rts_store st)"
    proof -
      have "q \<in> set (nodes t) \<Longrightarrow> call_tree st t \<Longrightarrow> q < length (rts_store st)" for q t by (induction t) auto
      then show ?thesis using u Rts_Node.prems(1) by auto
    qed
    have apart: "a \<notin> set (nodes v)" if "v \<in> set xs \<union> set ys" for v
      using Rts_Node.prems(2) u(2) that unfolding ts by auto
    have pre: "cfold (\<lambda>p st. insertFrontendNode p c st) (map node_ptr vs) st = ret st" if "set vs \<subseteq> set xs" for vs
      using that
    proof (induction vs)
      case (Cons v vs)
      have "insertFrontendNode (node_ptr v) c st = ret st"
        using Cons.prems Rts_Node.prems(1,5) apart [of v] by (intro insertFrontendNode_skip [OF c]) (auto simp: ts)
      then show ?case using Cons by simp
    qed simp
    have mid: "insertFrontendNode (node_ptr u) c st = ret ?st"
      using Rts_Node.prems u by (intro Rts_Node.IH) (auto simp: ts)
    have post: "cfold (\<lambda>p st. insertFrontendNode p c st) (map node_ptr vs) ?st = ret ?st" if "set vs \<subseteq> set ys" for vs
      using that
    proof (induction vs)
      case (Cons v vs)
      have "insertFrontendNode (node_ptr v) c ?st = ret ?st"
      proof (rule insertFrontendNode_skip)
        have "call_tree st v" using Cons.prems Rts_Node.prems(1) by (simp add: ts)
        moreover have "rts_store ?st ! q = rts_store st ! q" if "q \<in> set (nodes v)" for q
          using that Cons.prems apart [of v] Rts_Node.prems(4) by (intro attach_fields(5) [OF a c]) (auto simp: ts)
        ultimately show "call_tree ?st v" using call_tree_cong [of v ?st st] attach_fields(1) [OF a c] by simp
        show "\<not> hangs_below ?st c q" if "q \<in> set (nodes v)" for q
          using that Cons.prems apart [of v] Rts_Node.prems(5) [of q]
          by (auto simp: hangs_below_def attach_fields [OF a c] ts)
      qed (simp add: attach_fields [OF a c] c)
      then show ?case using Cons by simp
    qed simp
    have "cfold (\<lambda>p st. insertFrontendNode p c st) (map node_ptr ts) st = ret ?st"
      using pre [of xs] mid post [of ys] by (simp add: ts cfold_append)
    then show ?thesis
      using p c False Rts_Node.prems(5) [of p] by (subst insertFrontendNode.simps) (simp add: rts_at_def hangs_below_def)
  qed
qed

section \<open>Names tell nodes apart\<close>

lemma callpath_inject:
  assumes "list_all (\<lambda>s. CHR ''/'' \<notin> set s) xs" "list_all (\<lambda>s. CHR ''/'' \<notin> set s) ys"
    and "makeCallpathString xs = makeCallpathString ys"
  shows "xs = ys"
  using assms
proof (induction xs arbitrary: ys)
  case Nil
  then show ?case by (cases ys) (simp_all add: makeCallpathString_def)
next
  case (Cons x xs)
  then obtain y zs where ys: "ys = y # zs" by (cases ys) (simp_all add: makeCallpathString_def)
  have eq: "x @ makeCallpathString xs = y @ makeCallpathString zs"
    using Cons.prems(3) by (simp add: makeCallpathString_def ys)
  have first: "takeWhile (\<lambda>c. c \<noteq> CHR ''/'') (s @ makeCallpathString ss) = s" if "CHR ''/'' \<notin> set s" for s ss
  proof -
    have "takeWhile (\<lambda>c. c \<noteq> CHR ''/'') (makeCallpathString ss) = []" by (cases ss) (simp_all add: makeCallpathString_def)
    then show ?thesis using that by (subst takeWhile_append2) auto
  qed
  have "x = y" using arg_cong [OF eq, of "takeWhile (\<lambda>c. c \<noteq> CHR ''/'')"] first Cons.prems(1,2) by (simp add: ys)
  then show ?case using Cons eq by (simp add: ys)
qed

lemma names_path_inject:
  assumes b: "buffer_ok b"
  shows "i < length b \<Longrightarrow> j < length b \<Longrightarrow> names_path b i = names_path b j \<Longrightarrow> i = j"
proof (induction i arbitrary: j rule: less_induct)
  case (less i)
  have step: "0 < q \<Longrightarrow> q < length b \<Longrightarrow> names_path b q = names_path b (par b q) @ [name_of b q] \<and> par b q < q" for q
    using buffer_parent(1) [OF b] names_path_step by auto
  have nonempty: "names_path b q \<noteq> []" for q by (simp add: names_path_def ancestors.simps)
  show ?case
  proof (cases "i = 0 \<or> j = 0")
    case True
    have "q = 0" if "q < length b" "names_path b q = [s]" for q s
    proof (rule ccontr)
      assume "q \<noteq> 0"
      then show False using step [of q] that nonempty [of "par b q"] by simp
    qed
    then show ?thesis using True less.prems names_path_root [of b] by metis
  next
    case False
    then have "names_path b (par b i) = names_path b (par b j)" "name_of b i = name_of b j"
      using step [of i] step [of j] less.prems by auto
    then have "par b i = par b j" using less.IH [of "par b i" "par b j"] step [of i] step [of j] False less.prems by simp
    then show ?thesis
      using \<open>name_of b i = name_of b j\<close> buffer_siblings [OF b, of i j] buffer_siblings [OF b, of j i] False less.prems
      by (cases i j rule: linorder_cases) auto
  qed
qed

lemma makeCallpathString_snoc: "makeCallpathString (xs @ [x]) = makeCallpathString xs @ ''/'' @ x"
  by (simp add: makeCallpathString_def)

section \<open>Texts that travel\<close>

text \<open>Visible characters and blanks, without the character that opens codes.\<close>

definition plain :: "string \<Rightarrow> bool" where
  "plain s \<longleftrightarrow> list_all (\<lambda>c. (visible c \<or> c = CHR '' '') \<and> c \<noteq> CHR ''&'') s"

definition plain_file :: "string \<Rightarrow> bool" where
  "plain_file s \<longleftrightarrow> s \<noteq> [] \<and> list_all (\<lambda>c. visible c \<and> c \<notin> {CHR ''&'', CHR ''<'', CHR ''>''}) s"

lemma plain_travels:
  assumes "xml_reads xml" "plain s"
  shows "from_wire (xml (to_wire s)) = s"
proof -
  have "list_all (\<lambda>c. visible c \<or> c = CHR '' '') s" "CHR ''&'' \<notin> set s" using assms(2) by (auto simp: plain_def list_all_iff)
  moreover have "from_wire s = s"
    using \<open>CHR ''&'' \<notin> set s\<close> set_mono_sublist [of _ s] by (auto simp: from_wire_same xml_codes_def dest!: set_mono_sublist)
  ultimately show ?thesis using over_the_wire [OF assms(1)] by simp
qed

lemma plain_file_travels:
  assumes "xml_reads xml" "plain_file s"
  shows "xml s = s"
proof -
  have "list_all (\<lambda>c. c \<notin> {CHR ''&'', CHR ''<'', CHR ''>''}) s" using assms(2) by (simp add: plain_file_def list_all_iff)
  then have "concat (map predefined s) = s" by (induction s) simp_all
  moreover have "list_all visible s" using assms(2) by (simp add: plain_file_def list_all_iff)
  ultimately show ?thesis using assms(1) unfolding xml_reads_def by metis
qed

lemma plain_append [simp]: "plain (s @ t) \<longleftrightarrow> plain s \<and> plain t"
  by (simp add: plain_def)

lemma plain_callpath: "list_all plain ss \<Longrightarrow> plain (makeCallpathString ss)"
  by (induction ss) (simp_all add: makeCallpathString_def plain_def visible_def less_char_def)

lemma plain_print_int: "plain (print_int i)"
proof -
  have "visible (digit_char d) \<and> digit_char d \<noteq> CHR ''&''" for d
    using digit_char_digit [of d] by (auto simp: decimal_digits_def visible_def less_char_def)
  then show ?thesis
    using print_int_chars [of _ i] by (fastforce simp: plain_def list_all_iff visible_def less_char_def)
qed

lemma plain_file_plain: "plain_file s \<Longrightarrow> plain s"
  by (auto simp: plain_file_def plain_def list_all_iff)

lemma plain_region_id: "plain f \<Longrightarrow> plain n \<Longrightarrow> plain (Region_getRegionID f n l)"
  using plain_print_int [of l]
  by (simp add: Region_getRegionID_def) (simp add: plain_def visible_def less_char_def)

lemma plain_parameter:
  assumes "plain s"
  shows "plain (param_name (parameter_of_name s))" "plain (param_value (parameter_of_name s))"
  using assms by (auto simp: parameter_of_name_def Let_def plain_def list_all_iff dest: set_takeWhileD in_set_dropD)

section \<open>Regions on the frontend\<close>

definition regions_indexed :: "application \<Rightarrow> bool" where
  "regions_indexed a \<longleftrightarrow> (\<forall>k r. sm_find (code_regions a) k = Some r \<longrightarrow>
     r < length (region_store a) \<and> getRegionID (region_store a ! r) = k)"

lemma getRegionID_new: "getRegionID (new_Region t f l s e file name sig) = Region_getRegionID file name l"
  by (simp add: getRegionID_def new_Region_def new_Region_key_def)

lemma add_region_found:
  assumes ok: "strings_ok a" "regions_indexed a" and room: "last_string_id a + 2 \<le> INT_MAX" and given: "name \<noteq> []" "file \<noteq> []"
  shows "\<exists>b r. Application_addRegion name l file t s e a = ret b \<and> strings_ok b \<and> regions_indexed b \<and>
    last_string_id b \<le> last_string_id a + 2 \<and> calltree_root b = calltree_root a \<and>
    (\<exists>rs. region_store b = region_store a @ rs) \<and>
    getRegionByID (Region_getRegionID file name l) False b = ret (Some r) \<and> r < length (region_store b) \<and>
    getRegionID (region_store b ! r) = Region_getRegionID file name l"
proof -
  obtain i a1 where 1: "addString file a = ret (i, a1)" "a1 = with_strings a1 a" "strings_ok a1" "last_string_id a1 \<le> last_string_id a + 2"
    using addString_total [OF ok(1) room, of "file"] by (auto simp: total_def)
  have same: "region_store a1 = region_store a" "code_regions a1 = code_regions a" "calltree_root a1 = calltree_root a"
    "phase_region a1 = phase_region a"
    by (subst 1(2), simp add: with_strings_def)+
  define obj where "obj = new_Region t i l s e file name False"
  define rid where "rid = Region_getRegionID file name l"
  define m where "m = sm_insert rid (length (region_store a)) (code_regions a)"
  define a2 where "a2 = a1\<lparr>region_store := region_store a @ [obj], code_regions := m\<rparr>"
  have obj: "getRegionID obj = rid" by (simp add: obj_def rid_def getRegionID_new)
  have a2: "strings_ok a2" "last_string_id a2 = last_string_id a1" "calltree_root a2 = calltree_root a"
    using 1(3) same by (simp_all add: a2_def strings_ok_def)
  have indexed: "regions_indexed a2"
    using ok(2) obj by (auto simp: regions_indexed_def a2_def m_def nth_append split: option.splits if_splits)
  obtain r where r: "sm_find m rid = Some r" by (cases "sm_find (code_regions a) rid") (auto simp: m_def)
  then have found: "r < length (region_store a2)" "getRegionID (region_store a2 ! r) = rid"
    using indexed by (auto simp: regions_indexed_def a2_def)
  define b where "b = (if t = USER_REGION \<and> phase_region a = None then a2\<lparr>phase_region := Some (length (region_store a))\<rparr> else a2)"
  have "set_phase_region (Some (length (region_store a))) a2 = ret (a2\<lparr>phase_region := Some (length (region_store a))\<rparr>)"
    using r obj by (simp add: set_phase_region_def region_at_def a2_def getRegionByID_def Let_def)
  moreover have "Application_addRegion name l file t s e a =
      (if t = USER_REGION \<and> phase_region a = None then set_phase_region (Some (length (region_store a))) a2 else ret a2)"
  proof -
    define first where "first \<longleftrightarrow> t = USER_REGION \<and> phase_region a = None"
    show ?thesis
      using 1(1) given same
      by (simp add: Application_addRegion_def name_or_default_def file_or_default_def alloc_region_def Let_def a2_def m_def
          obj_def rid_def getRegionID_new first_def [symmetric])
  qed
  ultimately have run: "Application_addRegion name l file t s e a = ret b" by (simp add: b_def)
  have b: "region_store b = region_store a2" "code_regions b = m" "last_string_id b = last_string_id a2"
    "calltree_root b = calltree_root a2" "strings_ok b = strings_ok a2" "regions_indexed b = regions_indexed a2"
    by (simp_all add: b_def a2_def strings_ok_def regions_indexed_def)
  have "getRegionByID rid False b = ret (Some r)" using r by (simp add: getRegionByID_def b)
  then have "getRegionByID rid False b = ret (Some r) \<and> r < length (region_store b) \<and> getRegionID (region_store b ! r) = rid"
    using found b by simp
  moreover have "\<exists>rs. region_store b = region_store a @ rs" by (simp add: b a2_def)
  ultimately show ?thesis
    using run a2 indexed 1(4) b unfolding rid_def by (intro exI [of _ b] exI [of _ r]) simp
qed

section \<open>One node over the wire\<close>

text \<open>What is known of a sending agent: texts without codes, regions that begin where their description says.\<close>

definition sendable_region :: "region_object \<Rightarrow> bool" where
  "sendable_region r \<longleftrightarrow> ro_name r \<noteq> [] \<and> plain (ro_name r) \<and> plain_file (ri_file_name (ro_ident r)) \<and>
     ri_start_position (ro_ident r) = ri_rfl (ro_ident r)"

definition sendable :: "application \<Rightarrow> call_tree_def list \<Rightarrow> bool" where
  "sendable a b \<longleftrightarrow> list_all sendable_region (region_store a) \<and>
     (\<forall>i<length b. plain (name_of b i) \<and> CHR ''/'' \<notin> set (name_of b i))"

definition parameters_of :: "calltree \<Rightarrow> rts_object \<Rightarrow> parameter_t list" where
  "parameters_of st n = map (\<lambda>q. param_store st ! q) (rn_parameter n)"

definition region_of_node :: "calltree \<Rightarrow> rts_object \<Rightarrow> region_object" where
  "region_of_node st n = region_store (ct_appl st) ! the (rn_reg n)"

definition message_of :: "calltree \<Rightarrow> nat \<Rightarrow> rts_message" where
  "message_of st i =
     (let n = rts_store st ! i; reg = region_of_node st n
      in \<lparr>msg_scorep_id = rn_scorep_id n, msg_parent_scorep_id = rn_parent_scorep_id n, msg_name = to_wire (ro_name reg),
          msg_aaregionid = to_wire (getRegionID reg), msg_filename = ri_file_name (ro_ident reg),
          msg_rfl = ri_start_position (ro_ident reg), msg_region_type = ri_type (ro_ident reg), msg_rts_type = the (rn_rts_type n),
          msg_callpath = to_wire (rn_callpathstring n), msg_region_name = to_wire (rn_region_name n),
          msg_parameters = map (map_parameter to_wire) (parameters_of st n)\<rparr>)"

lemma node_region_known:
  assumes regions: "regions_ok mapping a b" and b: "buffer_ok b"
  shows "i < length b \<Longrightarrow> \<exists>r. node_region mapping a b i = Some r \<and> r < length (region_store a)"
proof (induction i rule: less_induct)
  case (less i)
  obtain key r where "recorded_region mapping a (b ! i) = Some r" "r < length (region_store a)"
    using regions_okD [OF regions less.prems] by metis
  then show ?case using less node_region.simps [of mapping a b i] by simp
qed

lemma toXMLdata_message:
  assumes tree: "agent_tree mapping a b st" and b: "buffer_ok b" and regions: "regions_ok mapping a b" and i: "i < length b"
  shows "toXMLdata i st = ret (message_of st i)"
proof -
  define n where "n = rts_store st ! i"
  have n: "final_node mapping a b st i" and len: "i < length (rts_store st)" using tree i by (simp_all add: agent_tree_def)
  obtain r where r: "rn_reg n = Some r" "r < length (region_store (ct_appl st))"
    using node_region_known [OF regions b i] n tree by (auto simp: final_node_def Let_def n_def agent_tree_def)
  obtain t where t: "rn_rts_type n = Some t" "t = NODE_PARAMETER \<or> rn_parameter n = []"
    using n by (auto simp: final_node_def Let_def n_def type_of_name_def split: if_splits)
  have "cfold (\<lambda>q ps. check (q < length (param_store st)) UB (ret (ps @ [param_store st ! q]))) qs xs =
      ret (xs @ map (\<lambda>q. param_store st ! q) qs)" if "set qs \<subseteq> {..<length (param_store st)}" for qs xs
    using that by (induction qs arbitrary: xs) simp_all
  then have "cfold (\<lambda>q ps. check (q < length (param_store st)) UB (ret (ps @ [param_store st ! q]))) (rn_parameter n) [] =
      ret (parameters_of st n)"
    using n by (simp add: final_node_def Let_def n_def parameters_of_def)
  then show ?thesis
    using len r t
    by (auto simp: toXMLdata_def rts_at_def n_def [symmetric] deref_def region_at_def message_of_def Let_def region_of_node_def
        parameters_of_def)
qed

lemma serialized:
  assumes tree: "agent_tree mapping a b st" and b: "buffer_ok b" and regions: "regions_ok mapping a b"
  shows "on_serializecalltree st = ret (map (message_of st) [0..<length b], st\<lparr>rts_to_serialize := []\<rparr>)"
proof -
  have "cfold (\<lambda>p ms. cbind (toXMLdata p st) (\<lambda>m. ret (ms @ [m]))) ps ms = ret (ms @ map (message_of st) ps)"
    if "set ps \<subseteq> {..<length b}" for ps ms
    using that by (induction ps arbitrary: ms) (simp_all add: toXMLdata_message [OF assms])
  then show ?thesis using tree by (simp add: on_serializecalltree_def agent_tree_def atLeast0LessThan)
qed

text \<open>The node the frontend makes of it.\<close>

definition received_node :: "calltree \<Rightarrow> nat \<Rightarrow> nat \<Rightarrow> region_ptr \<Rightarrow> rts_object" where
  "received_node st i k r =
     (let n = rts_store st ! i
      in blank_rts\<lparr>rn_scorep_id := rn_scorep_id n, rn_parent_scorep_id := rn_parent_scorep_id n, rn_rts_type := rn_rts_type n,
           rn_reg := Some r, rn_callpathstring := rn_callpathstring n, rn_region_name := rn_region_name n,
           rn_parameter := [k..<k + length (rn_parameter n)]\<rparr>)"

lemma message_travels:
  assumes tree: "agent_tree mapping a b st" and b: "buffer_ok b" and regions: "regions_ok mapping a b" and send: "sendable a b"
    and xml: "xml_reads xml" and i: "i < length b"
    and fe: "strings_ok (ct_appl fe)" "regions_indexed (ct_appl fe)" "last_string_id (ct_appl fe) + 2 \<le> INT_MAX"
  shows "\<exists>app r. fromXMLdata xml (message_of st i) fe =
      ret (length (rts_store fe), fe\<lparr>rts_store := rts_store fe @ [received_node st i (length (param_store fe)) r], ct_appl := app,
        param_store := param_store fe @ parameters_of st (rts_store st ! i)\<rparr>) \<and>
    strings_ok app \<and> regions_indexed app \<and> last_string_id app \<le> last_string_id (ct_appl fe) + 2 \<and>
    calltree_root app = calltree_root (ct_appl fe) \<and> (\<exists>rs. region_store app = region_store (ct_appl fe) @ rs) \<and>
    r < length (region_store app) \<and> getRegionID (region_store app ! r) = getRegionID (region_of_node st (rts_store st ! i))"
proof -
  define n where "n = rts_store st ! i"
  define reg where "reg = region_of_node st n"
  have n: "final_node mapping a b st i" using tree i by (simp add: agent_tree_def)
  obtain q where "rn_reg n = Some q" "q < length (region_store a)"
    using node_region_known [OF regions b i] n by (auto simp: final_node_def Let_def n_def)
  then have reg: "sendable_region reg" using send tree by (simp add: reg_def region_of_node_def sendable_def agent_tree_def list_all_length)
  have names: "plain (rn_region_name n)" "plain (rn_callpathstring n)"
  proof -
    have "plain (name_of b j)" if "j \<in> set (ancestors b i)" for j
      using send ancestors_le [OF that] i by (simp add: sendable_def)
    then have "list_all plain (names_path b i)" by (simp add: names_path_def list_all_iff)
    then show "plain (rn_region_name n)" "plain (rn_callpathstring n)"
      using n send i plain_callpath by (simp_all add: final_node_def Let_def n_def sendable_def)
  qed
  have params: "map (\<lambda>p. map_parameter (\<lambda>s. from_wire (xml s)) (map_parameter to_wire p)) (parameters_of st n) = parameters_of st n"
  proof (rule map_idI)
    fix p assume "p \<in> set (parameters_of st n)"
    then have "p \<in> set (param_store st)" using n by (auto simp: parameters_of_def final_node_def Let_def n_def)
    then obtain j where "j < length b" "p = parameter_of_name (name_of b j)" using tree unfolding agent_tree_def by blast
    then have "plain (param_name p)" "plain (param_value p)" using send plain_parameter by (auto simp: sendable_def)
    then show "map_parameter (\<lambda>s. from_wire (xml s)) (map_parameter to_wire p) = p"
      by (simp add: map_parameter_def plain_travels [OF xml])
  qed
  obtain app r where add: "Application_addRegion (ro_name reg) (ri_rfl (ro_ident reg)) (ri_file_name (ro_ident reg)) (ri_type (ro_ident reg))
      (ri_rfl (ro_ident reg)) (ri_rfl (ro_ident reg)) (ct_appl fe) = ret app"
    and app: "strings_ok app" "regions_indexed app" "last_string_id app \<le> last_string_id (ct_appl fe) + 2"
      "calltree_root app = calltree_root (ct_appl fe)" "\<exists>rs. region_store app = region_store (ct_appl fe) @ rs"
      "getRegionByID (getRegionID reg) False app = ret (Some r)" "r < length (region_store app)"
      "getRegionID (region_store app ! r) = getRegionID reg"
  proof -
    have given: "ro_name reg \<noteq> []" "ri_file_name (ro_ident reg) \<noteq> []" using reg by (auto simp: sendable_region_def plain_file_def)
    show ?thesis
      using add_region_found [OF fe given, of "ri_rfl (ro_ident reg)" "ri_type (ro_ident reg)" "ri_rfl (ro_ident reg)" "ri_rfl (ro_ident reg)"]
      unfolding getRegionID_def [of reg, symmetric] using that by blast
  qed
  have texts: "from_wire (xml (to_wire (ro_name reg))) = ro_name reg" "xml (ri_file_name (ro_ident reg)) = ri_file_name (ro_ident reg)"
    "from_wire (xml (to_wire (getRegionID reg))) = getRegionID reg"
  proof -
    have "plain (ro_name reg)" "plain_file (ri_file_name (ro_ident reg))" using reg by (simp_all add: sendable_region_def)
    then show "from_wire (xml (to_wire (ro_name reg))) = ro_name reg" "xml (ri_file_name (ro_ident reg)) = ri_file_name (ro_ident reg)"
      "from_wire (xml (to_wire (getRegionID reg))) = getRegionID reg"
      by (simp_all add: plain_travels [OF xml] plain_file_travels [OF xml] getRegionID_def plain_region_id plain_file_plain)
  qed
  have "rn_rts_type n = Some (the (rn_rts_type n))" using n by (simp add: final_node_def Let_def n_def)
  then have "fromXMLdata xml (message_of st i) fe =
      ret (length (rts_store fe), fe\<lparr>rts_store := rts_store fe @ [received_node st i (length (param_store fe)) r], ct_appl := app,
        param_store := param_store fe @ parameters_of st n\<rparr>)"
    using add app(6) texts names reg params
    by (simp add: fromXMLdata_def message_of_def n_def [symmetric] reg_def [symmetric] Let_def plain_travels [OF xml]
        sendable_region_def alloc_rts_def received_node_def comp_def parameters_of_def)
  then show ?thesis using app unfolding n_def reg_def by blast
qed

section \<open>The frontend's tree\<close>

text \<open>Node \<open>i\<close> of the frontend says what node \<open>i\<close> of the agent says.\<close>

definition same_node :: "calltree \<Rightarrow> calltree \<Rightarrow> call_tree_def list \<Rightarrow> nat \<Rightarrow> nat \<Rightarrow> bool" where
  "same_node st fe b k i \<longleftrightarrow>
     (let n = rts_store st ! i; m = rts_store fe ! i
      in rn_parent m = rn_parent n \<and> rn_children m = kids b k i \<and> rn_scorep_id m = rn_scorep_id n \<and>
         rn_parent_scorep_id m = rn_parent_scorep_id n \<and> rn_rts_type m = rn_rts_type n \<and>
         rn_callpathstring m = rn_callpathstring n \<and> rn_region_name m = rn_region_name n \<and>
         parameters_of fe m = parameters_of st n \<and> set (rn_parameter m) \<subseteq> {..<length (param_store fe)} \<and>
         (\<exists>r. rn_reg m = Some r \<and> r < length (region_store (ct_appl fe)) \<and>
            getRegionID (region_store (ct_appl fe) ! r) = getRegionID (region_of_node st n)))"

definition received :: "calltree \<Rightarrow> call_tree_def list \<Rightarrow> nat \<Rightarrow> calltree \<Rightarrow> bool" where
  "received st b k fe \<longleftrightarrow>
     length (rts_store fe) = k \<and> (\<forall>i<k. same_node st fe b k i) \<and>
     calltree_root (ct_appl fe) = (if k = 0 then None else Some 0) \<and>
     strings_ok (ct_appl fe) \<and> regions_indexed (ct_appl fe) \<and> last_string_id (ct_appl fe) \<le> 1 + 2 * int k"

lemma call_tree_received:
  assumes fe: "received st b k fe" and tree: "agent_tree mapping a b st" and k: "k \<le> length b"
  shows "i < k \<Longrightarrow> call_tree fe (tree_of b k i)"
proof (induction "k - i" arbitrary: i rule: less_induct)
  case less
  have final: "final_node mapping a b st j" if "j < k" for j using tree k that by (simp add: agent_tree_def)
  have node: "same_node st fe b k j" if "j < k" for j using fe that by (simp add: received_def)
  have kid: "rn_parent (rts_store fe ! j) = Some i \<and> call_tree fe (tree_of b k j)" if "j \<in> set (kids b k i)" for j
  proof -
    have j: "i < j" "j < k" "par b j = i" using that by (simp_all add: mem_kids)
    then have "call_tree fe (tree_of b k j)" by (intro less.hyps) simp_all
    then show ?thesis using final [OF j(2)] node [OF j(2)] j by (simp add: same_node_def final_node_def Let_def)
  qed
  have "i < length (rts_store fe)" using fe less.prems by (simp add: received_def)
  then show ?case
    using final [OF less.prems] node [OF less.prems] kid
    by (subst tree_of.simps) (simp add: same_node_def final_node_def Let_def comp_def)
qed

text \<open>Call paths on the frontend: the node found is the parent, and no child of it has the path yet.\<close>

lemma hangs_below_parent:
  assumes b: "buffer_ok b" and send: "sendable a b" and k: "0 < k" "k < length b" and q: "q < k"
    and paths: "rn_callpathstring (rts_store fe ! k) = makeCallpathString (names_path b k)"
      "rn_callpathstring (rts_store fe ! q) = makeCallpathString (names_path b q)" "rn_region_name (rts_store fe ! k) = name_of b k"
  shows "hangs_below fe k q \<longleftrightarrow> q = par b k"
proof -
  have clean: "list_all (\<lambda>s. CHR ''/'' \<notin> set s) (names_path b i)" if "i < length b" for i
    using send ancestors_le [of _ b i] that by (fastforce simp: names_path_def list_all_iff sendable_def)
  have par: "par b k < k" by (rule buffer_parent [OF b k])
  have "hangs_below fe k q \<longleftrightarrow> makeCallpathString (names_path b k) = makeCallpathString (names_path b q @ [name_of b k])"
    using paths by (simp add: hangs_below_def makeCallpathString_snoc)
  also have "\<dots> \<longleftrightarrow> names_path b k = names_path b q @ [name_of b k]"
    using callpath_inject [OF clean [OF k(2)], of "names_path b q @ [name_of b k]"] clean [of q] q k send
    by (auto simp: sendable_def)
  also have "\<dots> \<longleftrightarrow> names_path b (par b k) = names_path b q" using names_path_step [OF par] by auto
  also have "\<dots> \<longleftrightarrow> q = par b k" using names_path_inject [OF b, of "par b k" q] par q k by auto
  finally show ?thesis .
qed

lemma findFrontendNode_none:
  assumes "set (rn_children n) \<subseteq> {..<length (rts_store st)}"
    and "\<And>c. c \<in> set (rn_children n) \<Longrightarrow> rn_callpathstring (rts_store st ! c) \<noteq> rn_callpathstring new"
  shows "findFrontendNode n new st = ret None"
proof -
  have "cfold (\<lambda>c found. case found of Some r \<Rightarrow> ret (Some r)
        | None \<Rightarrow> cbind (rts_at st c) (\<lambda>m. ret (if rn_callpathstring m = rn_callpathstring new then Some c else None))) cs None
      = ret None" if "set cs \<subseteq> set (rn_children n)" for cs
    using that
  proof (induction cs)
    case (Cons c cs)
    then show ?case using assms(1) assms(2) [of c] by (auto simp: rts_at_def)
  qed simp
  then show ?thesis by (simp add: findFrontendNode_def)
qed

lemma call_tree_mono:
  assumes "call_tree st t" "length (rts_store st) \<le> length (rts_store st')"
    and "\<And>q. q < length (rts_store st) \<Longrightarrow> rts_store st' ! q = rts_store st ! q"
  shows "call_tree st' t"
  using assms
proof (induction t)
  case (Rts_Node p ts)
  have "rts_store st' ! node_ptr t = rts_store st ! node_ptr t" if "t \<in> set ts" for t
    using that Rts_Node.prems call_tree_ptr [of st t] by simp
  then show ?case using Rts_Node by auto
qed

lemma region_kept:
  assumes "r < length (region_store a)" "region_store b = region_store a @ rs"
  shows "r < length (region_store b) \<and> region_store b ! r = region_store a ! r"
  using assms by (simp add: nth_append)

text \<open>The nodes there stay the same while regions and parameters are added behind.\<close>

lemma same_node_later:
  assumes old: "same_node st fe b k i" and i: "i < k"
    and node: "rts_store fe' ! i = (if i = par b k \<and> 0 < k then (rts_store fe ! i)\<lparr>rn_children := rn_children (rts_store fe ! i) @ [k]\<rparr>
       else rts_store fe ! i)"
    and ps: "param_store fe' = param_store fe @ ps" and rs: "region_store (ct_appl fe') = region_store (ct_appl fe) @ rs"
  shows "same_node st fe' b (Suc k) i"
proof -
  let ?m = "rts_store fe ! i" and ?m' = "rts_store fe' ! i"
  have fields: "rn_parent ?m' = rn_parent ?m" "rn_scorep_id ?m' = rn_scorep_id ?m" "rn_parent_scorep_id ?m' = rn_parent_scorep_id ?m"
    "rn_rts_type ?m' = rn_rts_type ?m" "rn_callpathstring ?m' = rn_callpathstring ?m" "rn_region_name ?m' = rn_region_name ?m"
    "rn_parameter ?m' = rn_parameter ?m" "rn_reg ?m' = rn_reg ?m"
    by (simp_all add: node)
  have kids: "rn_children ?m' = kids b (Suc k) i" using old i by (simp add: node kids_Suc same_node_def Let_def)
  have valid: "set (rn_parameter ?m) \<subseteq> {..<length (param_store fe)}" using old by (simp add: same_node_def Let_def)
  then have params: "parameters_of fe' ?m' = parameters_of fe ?m" "set (rn_parameter ?m) \<subseteq> {..<length (param_store fe')}"
    by (auto simp: parameters_of_def fields ps nth_append subset_eq)
  obtain r where "rn_reg ?m = Some r" "r < length (region_store (ct_appl fe))"
    "getRegionID (region_store (ct_appl fe) ! r) = getRegionID (region_of_node st (rts_store st ! i))"
    using old by (auto simp: same_node_def Let_def)
  then have "rn_reg ?m' = Some r \<and> r < length (region_store (ct_appl fe')) \<and>
      getRegionID (region_store (ct_appl fe') ! r) = getRegionID (region_of_node st (rts_store st ! i))"
    using region_kept [OF _ rs, of r] fields by simp
  then show ?thesis using old kids params fields by (simp add: same_node_def Let_def)
qed

lemma receive_step:
  assumes b: "buffer_ok b" and regions: "regions_ok mapping a b" and send: "sendable a b" and xml: "xml_reads xml"
    and tree: "agent_tree mapping a b st" and room: "2 * int (length b) < INT_MAX"
    and fe: "received st b k fe" and k: "k < length b"
  shows "\<exists>fe'. construct_calltree xml (message_of st k) fe = ret fe' \<and> received st b (Suc k) fe'"
proof -
  define n where "n = rts_store st ! k"
  have final: "final_node mapping a b st j" if "j < length b" for j using tree that by (simp add: agent_tree_def)
  have node: "same_node st fe b k j" if "j < k" for j using fe that by (simp add: received_def)
  have len: "length (rts_store fe) = k" using fe by (simp add: received_def)
  have "last_string_id (ct_appl fe) + 2 \<le> INT_MAX" using fe room k by (simp add: received_def)
  then obtain app r where read: "fromXMLdata xml (message_of st k) fe =
      ret (k, fe\<lparr>rts_store := rts_store fe @ [received_node st k (length (param_store fe)) r], ct_appl := app,
        param_store := param_store fe @ parameters_of st n\<rparr>)"
    and app: "strings_ok app" "regions_indexed app" "last_string_id app \<le> last_string_id (ct_appl fe) + 2"
      "calltree_root app = calltree_root (ct_appl fe)" "\<exists>rs. region_store app = region_store (ct_appl fe) @ rs"
      "r < length (region_store app)" "getRegionID (region_store app ! r) = getRegionID (region_of_node st n)"
    using message_travels [OF tree b regions send xml k, of fe] fe unfolding received_def n_def by auto
  define new where "new = received_node st k (length (param_store fe)) r"
  define fe1 where "fe1 = fe\<lparr>rts_store := rts_store fe @ [new], ct_appl := app, param_store := param_store fe @ parameters_of st n\<rparr>"
  have run: "construct_calltree xml (message_of st k) fe = construct_frontend_calltree k fe1"
    using read by (simp add: construct_calltree_def fe1_def new_def)
  have fe1: "length (rts_store fe1) = Suc k" "rts_store fe1 ! k = new" "\<And>q. q < k \<Longrightarrow> rts_store fe1 ! q = rts_store fe ! q"
    "ct_appl fe1 = app" "param_store fe1 = param_store fe @ parameters_of st n"
    using len by (simp_all add: fe1_def nth_append)
  have new: "rn_callpathstring new = makeCallpathString (names_path b k)" "rn_region_name new = name_of b k"
    "rn_parent_scorep_id new = sint (ctd_parent_scorep_id (b ! k))"
    using final [OF k] by (simp_all add: new_def received_node_def Let_def final_node_def)
  have here: "same_node st fe' b (Suc k) k"
    if "rts_store fe' ! k = new\<lparr>rn_parent := rn_parent n\<rparr>" "param_store fe' = param_store fe1" "region_store (ct_appl fe') = region_store app" for fe'
  proof -
    let ?ps = "parameters_of st n"
    have fields: "rn_scorep_id new = rn_scorep_id n" "rn_parent_scorep_id new = rn_parent_scorep_id n" "rn_rts_type new = rn_rts_type n"
      "rn_callpathstring new = rn_callpathstring n" "rn_region_name new = rn_region_name n" "rn_children new = []"
      "rn_reg new = Some r" "rn_parameter new = [length (param_store fe)..<length (param_store fe) + length ?ps]"
      by (simp_all add: new_def received_node_def Let_def n_def blank_rts_def parameters_of_def)
    have "map (\<lambda>q. (param_store fe @ ?ps) ! q) [length (param_store fe)..<length (param_store fe) + length ?ps] = ?ps"
      by (rule nth_equalityI) (simp_all add: nth_append)
    then have "parameters_of fe' (new\<lparr>rn_parent := rn_parent n\<rparr>) = ?ps" using that by (simp add: parameters_of_def [of fe'] fields fe1)
    then show ?thesis using that app by (simp add: same_node_def n_def [symmetric] fields kids_last fe1 atLeastLessThan_def)
  qed
  obtain rs where rs: "region_store app = region_store (ct_appl fe) @ rs" using app(5) by blast
  show ?thesis
  proof (cases "k = 0")
    case True
    define fe' where "fe' = fe1\<lparr>ct_appl := app\<lparr>calltree_root := Some 0\<rparr>\<rparr>"
    have "ctd_parent_scorep_id (b ! 0) = 0" using b by (simp add: buffer_ok_def)
    then have "construct_frontend_calltree k fe1 = ret fe'"
      using True fe1 new(3) app(4) fe by (simp add: construct_frontend_calltree_def rts_at_def received_def fe'_def)
    moreover have "same_node st fe' b (Suc k) k"
      using final [OF k] True fe1 by (intro here) (simp_all add: fe'_def new_def received_node_def Let_def n_def final_node_def blank_rts_def)
    ultimately show ?thesis
      using run True fe1 app fe by (auto simp: received_def fe'_def strings_ok_def regions_indexed_def)
  next
    case False
    define p where "p = par b k"
    define fe' where "fe' = attach p k fe1"
    have par: "p < k" using buffer_parent(1) [OF b _ k] False by (simp add: p_def)
    have root: "calltree_root app = Some 0" using app(4) fe False by (simp add: received_def)
    have path: "rn_callpathstring (rts_store fe1 ! q) = makeCallpathString (names_path b q)" if "q < k" for q
      using node [OF that] final [of q] that k fe1(3) by (simp add: same_node_def final_node_def Let_def)
    have hang: "hangs_below fe1 k q \<longleftrightarrow> q = p" if "q < k" for q
      unfolding p_def using False k that path fe1(2) new by (intro hangs_below_parent [OF b send]) simp_all
    have kids_p: "rn_children (rts_store fe1 ! p) = kids b k p" using node [OF par] par fe1(3) by (simp add: same_node_def Let_def)
    have "sint (ctd_parent_scorep_id (b ! k)) \<noteq> 0"
      using buffer_parent(4) [OF b _ k] False sint_eq_iff [of "ctd_parent_scorep_id (b ! k)" 0] by simp
    then have "construct_frontend_calltree k fe1 = insertFrontendNode 0 k fe1"
      using fe1 new(3) root by (simp add: construct_frontend_calltree_def rts_at_def deref_def)
    also have "\<dots> = insertFrontendNode (node_ptr (tree_of b k 0)) k fe1" by simp
    also have "\<dots> = ret fe'"
      unfolding fe'_def
    proof (rule insertFrontendNode_attach)
      have nodes0: "set (nodes (tree_of b k 0)) = {..<k}"
        using set_nodes_tree_of [of 0 k b] root_ancestor [OF b] False k by auto
      show "k < length (rts_store fe1)" by (simp add: fe1)
      show "call_tree fe1 (tree_of b k 0)"
      proof (rule call_tree_mono)
        show "call_tree fe (tree_of b k 0)" using False k by (intro call_tree_received [OF fe tree]) simp_all
        show "length (rts_store fe) \<le> length (rts_store fe1)" by (simp add: fe1(1) len)
        show "rts_store fe1 ! q = rts_store fe ! q" if "q < length (rts_store fe)" for q using that by (simp add: fe1(3) len)
      qed
      show "distinct (nodes (tree_of b k 0))" using False by (intro distinct_nodes_tree_of) simp
      show "p \<in> set (nodes (tree_of b k 0))" "k \<notin> set (nodes (tree_of b k 0))" using nodes0 par by simp_all
      show "hangs_below fe1 k q \<longleftrightarrow> q = p" if "q \<in> set (nodes (tree_of b k 0))" for q using hang nodes0 that by simp
      show "findFrontendNode (rts_store fe1 ! p) (rts_store fe1 ! k) fe1 = ret None"
      proof (rule findFrontendNode_none)
        show "set (rn_children (rts_store fe1 ! p)) \<subseteq> {..<length (rts_store fe1)}" using kids_p by (auto simp: mem_kids fe1)
        fix c assume "c \<in> set (rn_children (rts_store fe1 ! p))"
        then have c: "p < c" "c < k" by (simp_all add: kids_p mem_kids)
        have clean: "list_all (\<lambda>s. CHR ''/'' \<notin> set s) (names_path b i)" if "i < length b" for i
          using send ancestors_le [of _ b i] that by (fastforce simp: names_path_def list_all_iff sendable_def)
        have "names_path b c \<noteq> names_path b k" using names_path_inject [OF b, of c k] c k by auto
        then show "rn_callpathstring (rts_store fe1 ! c) \<noteq> rn_callpathstring (rts_store fe1 ! k)"
          using callpath_inject [OF clean clean, of c k] path [OF c(2)] c k new fe1(2) by auto
      qed
    qed
    finally have done_: "construct_frontend_calltree k fe1 = ret fe'" .
    have store: "rts_store fe' ! k = new\<lparr>rn_parent := Some p\<rparr>"
      "rts_store fe' ! q = (if q = p then (rts_store fe ! q)\<lparr>rn_children := rn_children (rts_store fe ! q) @ [k]\<rparr> else rts_store fe ! q)"
      if "q < k" for q
      using par fe1 that by (auto simp: fe'_def attach_def add_below_def Let_def)
    have rest: "param_store fe' = param_store fe1" "ct_appl fe' = app" "length (rts_store fe') = Suc k"
      by (simp_all add: fe'_def attach_def add_below_def Let_def fe1)
    have "same_node st fe' b (Suc k) k"
      using final [OF k] False store(1) [of p] par rest by (intro here) (simp_all add: n_def final_node_def Let_def p_def)
    moreover have "same_node st fe' b (Suc k) i" if "i < k" for i
      using store(2) [OF that] False rest rs
      by (intro same_node_later [OF node [OF that] that, of fe' "parameters_of st n" rs]) (simp_all add: p_def fe1)
    ultimately show ?thesis
      using run done_ rest app root fe by (auto simp: received_def less_Suc_eq)
  qed
qed

lemma received_fresh: "received st b 0 (fresh_tree (new_Application None))"
  by (simp add: received_def fresh_tree_def strings_ok_new regions_indexed_def) (simp add: new_Application_def)

lemma receive_all:
  assumes b: "buffer_ok b" and regions: "regions_ok mapping a b" and send: "sendable a b" and xml: "xml_reads xml"
    and tree: "agent_tree mapping a b st" and room: "2 * int (length b) < INT_MAX"
  shows "k \<le> length b \<Longrightarrow> \<exists>fe. cfold (construct_calltree xml) (map (message_of st) [0..<k]) (fresh_tree (new_Application None)) = ret fe \<and>
     received st b k fe"
proof (induction k)
  case 0
  then show ?case using received_fresh by simp
next
  case (Suc k)
  then obtain fe where "cfold (construct_calltree xml) (map (message_of st) [0..<k]) (fresh_tree (new_Application None)) = ret fe"
    "received st b k fe" by auto
  then show ?case
    using receive_step [OF b regions send xml tree room, of k fe] Suc.prems by (auto simp: cfold_append)
qed

text \<open>The same tree: nodes, links, identifiers, names, call paths, parameters and the identifiers of their regions.\<close>

definition mirrored_node :: "calltree \<Rightarrow> calltree \<Rightarrow> nat \<Rightarrow> bool" where
  "mirrored_node st fe i \<longleftrightarrow>
     (let n = rts_store st ! i; m = rts_store fe ! i
      in rn_parent m = rn_parent n \<and> rn_children m = rn_children n \<and> rn_scorep_id m = rn_scorep_id n \<and>
         rn_parent_scorep_id m = rn_parent_scorep_id n \<and> rn_rts_type m = rn_rts_type n \<and>
         rn_callpathstring m = rn_callpathstring n \<and> rn_region_name m = rn_region_name n \<and>
         parameters_of fe m = parameters_of st n \<and> getRegionID (region_of_node fe m) = getRegionID (region_of_node st n))"

definition same_tree :: "calltree \<Rightarrow> calltree \<Rightarrow> bool" where
  "same_tree st fe \<longleftrightarrow>
     length (rts_store fe) = length (rts_store st) \<and> calltree_root (ct_appl fe) = calltree_root (ct_appl st) \<and>
     (\<forall>i<length (rts_store st). mirrored_node st fe i)"

lemma received_same_tree:
  assumes "received st b (length b) fe" "agent_tree mapping a b st" "b \<noteq> []"
  shows "same_tree st fe"
proof -
  have "mirrored_node st fe i" if "i < length b" for i
  proof -
    have "same_node st fe b (length b) i" "final_node mapping a b st i" using assms that by (simp_all add: received_def agent_tree_def)
    then show ?thesis by (auto simp: mirrored_node_def same_node_def final_node_def Let_def region_of_node_def)
  qed
  then show ?thesis using assms by (simp add: same_tree_def received_def agent_tree_def)
qed

text \<open>
  C38: The frontend's call tree is the agent's. When the agent builds its tree from a buffer in preorder, sends the nodes
  it queued, and a fresh frontend reads them in that order, every step returns, and the frontend has the same nodes
  with the same links, identifiers, names, call paths, types, parameters and regions: for names without the
  character that opens codes and without slash, regions that begin at their first line, and an XML library that
  reads XML's predefined entities.
\<close>

theorem frontend_rebuilds_agents_tree:
  assumes b: "buffer_ok b" and regions: "regions_ok mapping a b" and send: "sendable a b" and xml: "xml_reads xml"
    and room: "2 * int (length b) < INT_MAX"
  shows "\<exists>st ms fe. construct_aagent_calltree b mapping (fresh_tree a) = ret st \<and>
    on_serializecalltree st = ret (ms, st\<lparr>rts_to_serialize := []\<rparr>) \<and>
    receive_calltree xml ms (fresh_tree (new_Application None)) = ret fe \<and> same_tree st fe"
proof -
  obtain st where st: "construct_aagent_calltree b mapping (fresh_tree a) = ret st" "agent_tree mapping a b st"
    using agent_tree_built [OF b regions] by blast
  obtain fe where "receive_calltree xml (map (message_of st) [0..<length b]) (fresh_tree (new_Application None)) = ret fe"
    "received st b (length b) fe"
    using receive_all [OF b regions send xml st(2) room, of "length b"] by (auto simp: receive_calltree_def)
  moreover have "b \<noteq> []" using b by (simp add: buffer_ok_def)
  ultimately show ?thesis using st serialized [OF st(2) b regions] received_same_tree by blast
qed

lemma example_sendable: "sendable example_regions example_buffer"
  by code_simp

theorem frontend_rebuilds_agents_tree_witness:
  "\<exists>st ms fe. construct_aagent_calltree example_buffer example_ids (fresh_tree example_regions) = ret st \<and>
    on_serializecalltree st = ret (ms, st\<lparr>rts_to_serialize := []\<rparr>) \<and>
    receive_calltree expand_entities ms (fresh_tree (new_Application None)) = ret fe \<and> same_tree st fe"
proof (rule frontend_rebuilds_agents_tree)
  show "2 * int (length example_buffer) < INT_MAX" by (simp add: example_buffer_def INT_MAX_def)
qed (rule example_buffer_ok example_regions_ok example_sendable expand_entities_reads)+

end
