(* ===== verification/ClusterSplit.thy ===== *)
theory ClusterSplit
  imports FrontendTree
begin

text \<open>
  Two places where the call tree goes wrong: splitting it by clusters leaves the old parent pointers behind, and copies
  of parameters forget that they are parameters (\<open>Rts::modifyNode\<close>, \<open>Rts::copyData\<close>); an identifier
  left over from an earlier buffer makes a record be taken for another node (\<open>Rts::findNode\<close>).
\<close>

section \<open>Cluster names\<close>

lemma print_nat_nonempty: "print_nat n \<noteq> []"
  using print_nat_first [of n] by auto

lemma cluster_name_digits: "\<exists>ds. cluster_name c = ''Cluster='' @ ds \<and> ds \<noteq> [] \<and> set ds \<subseteq> {x. \<exists>d. x = digit_char d}"
proof -
  have "print_int (uint c) = print_nat (nat (uint c))" by (simp add: print_int_def)
  then show ?thesis using print_nat_nonempty print_nat_digits by (auto simp: cluster_name_def)
qed

lemma digit_char_cases: "\<not> is_space (digit_char d) \<and> digit_char d \<noteq> CHR ''='' \<and> digit_char d \<noteq> CHR ''o''"
  using digit_char_digit [of d] by (auto simp: decimal_digits_def is_space_def)

lemma digits_search:
  assumes "set ds \<subseteq> {x. \<exists>d. x = digit_char d}"
  shows "\<not> search_in spaced_equals_here ds \<and> \<not> search_in operator_here ds"
  using assms
proof (induction ds)
  case (Cons x ds)
  then obtain d where "x = digit_char d" by auto
  then have "\<not> is_space x" "x \<noteq> CHR ''=''" "x \<noteq> CHR ''o''" using digit_char_cases by auto
  then show ?case using Cons by (auto simp: spaced_equals_here_def operator_here_def)
qed (simp add: spaced_equals_here_def operator_here_def)

lemma cluster_name_parameter: "is_parameter_name (cluster_name c)"
proof -
  obtain ds where ds: "cluster_name c = ''Cluster='' @ ds" "ds \<noteq> []" "set ds \<subseteq> {x. \<exists>d. x = digit_char d}"
    using cluster_name_digits by blast
  then obtain x xs where x: "ds = x # xs" "\<not> is_space x" "x \<noteq> CHR ''=''" using digit_char_cases by (cases ds) auto
  have "\<not> search_in spaced_equals_here (cluster_name c)"
    using digits_search [OF ds(3)] x by (simp add: ds(1) spaced_equals_here_def is_space_def)
  moreover have "\<not> search_in operator_here (cluster_name c)"
    using digits_search [OF ds(3)] by (simp add: ds(1) operator_here_def)
  ultimately show ?thesis by (simp add: is_parameter_name_def ds(1))
qed

section \<open>The first cluster\<close>

text \<open>
  The node made for the first cluster takes the children over, but they do not learn of it: after the split of a
  node, each former child is a child of the new cluster node and still names the old node as its parent. Walking up
  from such a child, as the conversion to a tuning model does, never meets the cluster.
\<close>

theorem cluster_node_not_on_the_way_up:
  assumes p: "p < length (rts_store st)" and q: "q < length (rts_store st)" "q \<noteq> p"
    and kids: "\<And>c. c \<in> set (rn_children (rts_store st ! p)) \<Longrightarrow> c \<noteq> p \<and> c \<noteq> q \<and> rn_parent (rts_store st ! c) = Some p"
    and fresh: "rts_store st ! q = blank_rts"
  shows "\<exists>st'. modifyNode q p num st = ret st' \<and> rn_children (rts_store st' ! p) = [q] \<and>
    rn_rts_type (rts_store st' ! q) = Some NODE_PARAMETER \<and> rn_region_name (rts_store st' ! q) = cluster_name num \<and>
    rn_children (rts_store st' ! q) = rn_children (rts_store st ! p) \<and> rn_parent (rts_store st' ! q) = Some p \<and>
    (\<forall>c\<in>set (rn_children (rts_store st ! p)). rn_parent (rts_store st' ! c) = Some p)"
  using assms cluster_name_parameter [of num]
  by (auto simp: modifyNode_def rts_at_def update_rts_def set_rts_def extract_parameter_def deref_def Let_def
      nth_list_update blank_rts_def)

section \<open>Copies of parameters\<close>

text \<open>
  A copy of a parameter is no parameter: whatever node is copied for a further cluster, unless its new name
  contains a cluster's name the copy is a regular region without parameters.
\<close>

theorem copied_parameter_forgotten:
  assumes "node < length (rts_store st)" "c < length (rts_store st)" "up < length (rts_store st)"
    and "node \<noteq> c" "up \<noteq> c" "rts_store st ! c = blank_rts"
    and "rn_rts_type (rts_store st ! node) = Some NODE_PARAMETER"
    and "\<not> has_cluster (modifyString (rn_region_name (rts_store st ! node)) k)"
  shows "\<exists>st'. copyData node c up k st = ret st' \<and> rn_rts_type (rts_store st' ! c) = Some NODE_REGULAR_REGION \<and>
    rn_parameter (rts_store st' ! c) = [] \<and>
    rn_region_name (rts_store st' ! c) = modifyString (rn_region_name (rts_store st ! node)) k"
  using assms
  by (cases "node = up")
     (simp_all add: copyData_def rts_at_def update_rts_def set_rts_def Let_def blank_rts_def)

section \<open>Identifiers left over\<close>

text \<open>
  A record is taken for another node when that node still has, from an earlier buffer, the identifier the record
  uses: with such a node as first child no node is made for the record, its measurements are booked on the other
  node, and that node keeps its own name.
\<close>

theorem stale_id_takes_other_node:
  assumes "node < length (rts_store st)" "rn_children (rts_store st ! node) = c # cs" "c < length (rts_store st)"
    and "rn_scorep_id (rts_store st ! c) = sint (ctd_scorep_id d)" "rn_region_name (rts_store st ! c) \<noteq> c_str (ctd_name d)"
    and "find_ptf_id mapping (ctd_region_id d) = ret key"
    and "sm_find (scorepid_to_rts_mapping st) (sint (ctd_scorep_id d)) = None"
  shows "\<exists>st'. add_child mapping d node st = ret (c, st') \<and> length (rts_store st') = length (rts_store st) \<and>
    sm_find (scorepid_to_rts_mapping st') (sint (ctd_scorep_id d)) = Some c \<and>
    rn_region_name (rts_store st' ! c) \<noteq> c_str (ctd_name d)"
proof -
  have skip: "cfold (\<lambda>c. case_option (g c) (\<lambda>r. ret (Some r))) ds (Some x) = ret (Some x)"
    for ds x and g :: "rts_ptr \<Rightarrow> rts_ptr option comp" by (induction ds) simp_all
  have "findNode (rts_store st ! node) (new_Rts d reg) st = ret (Some c)" for reg
    using assms by (simp add: findNode_def rts_at_def new_Rts_def skip)
  then show ?thesis
    using assms by (simp add: add_child_def Let_def rts_at_def reassignScorepID_def update_rts_def set_rts_def map_scorepid_def
        new_Rts_def)
qed

section \<open>Examples\<close>

text \<open>The tree of the earlier example, with a place for a further node; and with the parameter's sibling first.\<close>

definition split_example :: calltree where
  "split_example = nested_parameters\<lparr>rts_store := rts_store nested_parameters @ [blank_rts]\<rparr>"

lemma split_example_store:
  "rts_store split_example = [linked_node ''phase'' None [1] [], linked_node ''it=3'' (Some 0) [2] [0],
     linked_node ''n=7'' (Some 1) [] [1], blank_rts]"
  by (simp add: split_example_def nested_parameters_def)

theorem cluster_node_not_on_the_way_up_witness:
  "\<exists>st'. modifyNode 3 0 1 split_example = ret st' \<and> rn_children (rts_store st' ! 3) = [1] \<and>
     rn_parent (rts_store st' ! 1) = Some 0"
  using cluster_node_not_on_the_way_up [of 0 split_example 3 1]
  by (force simp: split_example_store linked_node_def blank_rts_def)

theorem copied_parameter_forgotten_witness:
  "\<exists>st'. copyData 1 3 0 2 split_example = ret st' \<and> rn_rts_type (rts_store st' ! 3) = Some NODE_REGULAR_REGION \<and>
     rn_parameter (rts_store st' ! 3) = [] \<and> rn_region_name (rts_store st' ! 3) = ''it=3''"
proof -
  have "modifyString ''it=3'' 2 = ''it=3''" "\<not> has_cluster ''it=3''" by code_simp+
  then show ?thesis
    using copied_parameter_forgotten [of 1 split_example 3 0 2] by (force simp: split_example_store linked_node_def)
qed

theorem stale_id_takes_other_node_witness:
  "\<exists>st'. add_child example_ids (record_of ''solve'' 0 1) 1 split_example = ret (2, st') \<and> rn_region_name (rts_store st' ! 2) \<noteq> ''solve''"
proof -
  have "find_ptf_id example_ids 7 = ret 50030003" by code_simp
  moreover have "c_str ''solve'' = ''solve''" by code_simp
  ultimately show ?thesis
    using stale_id_takes_other_node [of 1 split_example 2 "[]" "record_of ''solve'' 0 1" example_ids 50030003]
    by (force simp: split_example_store linked_node_def blank_rts_def record_of_def split_example_def nested_parameters_def)
qed

end
