(* ===== verification/InterphaseSteps.thy ===== *)
theory InterphaseSteps
  imports InterphaseCorrect ClusterSplit
begin

text \<open>
  The tuning steps of the READEX inter-phase plugin: three steps with one restart each, the scenarios of the second and
  third step, what a phase without a cluster does to them, the way of a call path through the tree split by clusters
  and back, and the plugin under the tuning driver with the random search.
\<close>

section \<open>Three steps, one restart each\<close>

datatype inter_answer = Step_started | Restart_answer bool | Tuning_answer bool

inductive inter_call :: "'s inter_env \<Rightarrow> 's inter side \<Rightarrow> inter_answer option \<Rightarrow> 's inter side \<Rightarrow> bool" for env where
  start_called: "inter_startTuningStep env s = ret s' \<Longrightarrow> inter_call env s (Some Step_started) s'"
| analysis_called: "inter_analysisRequired s = ret (b, r, s') \<Longrightarrow> inter_call env s None s'"
| create_called: "inter_createScenarios env s = ret s' \<Longrightarrow> inter_call env s None s'"
| prepare_called: "inter_prepareScenarios s = ret s' \<Longrightarrow> inter_call env s None s'"
| define_called: "inter_defineExperiment n (b, r, s) = ret (b', r', s') \<Longrightarrow> inter_call env s None s'"
| restart_called: "inter_restartRequired q s = ret (b, q', s') \<Longrightarrow> inter_call env s (Some (Restart_answer b)) s'"
| search_called: "inter_searchFinished env s = ret (b, s') \<Longrightarrow> inter_call env s None s'"
| finish_called: "inter_finishTuningStep s = ret s' \<Longrightarrow> inter_call env s None s'"
| measured_in_between: "plugin_state s' = plugin_state s \<Longrightarrow> inter_call env s None s'"
| tuned_called: "inter_tuningFinished env s = ret (b, s') \<Longrightarrow> inter_call env s (Some (Tuning_answer b)) s'"

inductive inter_calls :: "'s inter_env \<Rightarrow> 's inter side \<Rightarrow> inter_answer list \<Rightarrow> 's inter side \<Rightarrow> bool" for env where
  inter_initialized: "inter_initialize env s0 = ret s \<Longrightarrow> inter_calls env s0 [] s"
| inter_called: "inter_calls env s0 answers s \<Longrightarrow> inter_call env s reply s' \<Longrightarrow>
    inter_calls env s0 (answers @ (case reply of None \<Rightarrow> [] | Some a \<Rightarrow> [a])) s'"

text \<open>A restart is due from the start of a step to the next question for one.\<close>

definition restart_due :: "inter_answer list \<Rightarrow> bool" where
  "restart_due answers = fold (\<lambda>a due. case a of Step_started \<Rightarrow> True | Restart_answer _ \<Rightarrow> False | Tuning_answer _ \<Rightarrow> due) answers False"

definition steps_started :: "inter_answer list \<Rightarrow> int" where
  "steps_started answers = int (length (filter (\<lambda>a. a = Step_started) answers))"

definition same_steps :: "'s inter \<Rightarrow> 's inter \<Rightarrow> bool" where
  "same_steps p q \<longleftrightarrow> nt_tuningStep q = nt_tuningStep p \<and> nt_current_step q = nt_current_step p"

lemma same_steps_refl [simp]: "same_steps p p"
  by (simp add: same_steps_def)

lemma same_steps_trans: "same_steps p q \<Longrightarrow> same_steps q r \<Longrightarrow> same_steps p r"
  by (simp add: same_steps_def)

lemma insert_keeps_steps: "insertPhaseData env i (p, w) = ret (q, v) \<Longrightarrow> same_steps p q"
  by (auto simp: insertPhaseData_def insert_new_phase_def update_phase_def same_steps_def cbind_eq_ret Let_def
      split: if_splits prod.splits option.splits)

lemma file_keeps_steps: "file_scenario env i (p, w) = ret (q, v) \<Longrightarrow> same_steps p q"
  by (auto simp: file_scenario_def cbind_eq_ret split: prod.splits dest: insert_keeps_steps)

lemma files_keep_steps:
  assumes "file_scenarios env (p, w) = ret (q, v)"
  shows "same_steps p q"
proof -
  have "same_steps p (fst (q, v))"
    by (rule cfold_inv [where I = "\<lambda>x. same_steps p (fst x)", OF assms [unfolded file_scenarios_def prod.case]])
      (auto intro: same_steps_trans [OF _ file_keeps_steps])
  then show ?thesis by simp
qed

lemma file_loop_keeps_steps:
  assumes "loop (file_body env) (i, p, w) = ret (j, q, v)"
  shows "same_steps p q"
proof -
  have "post (loop (file_body env) (i, p, w)) (\<lambda>(_, q, _). same_steps p q) (\<lambda>_. True)"
    by (rule post_loop [where I = "\<lambda>(_, q, _). same_steps p q"])
      (auto simp: file_body_def post_def cbind_eq_ret split: if_splits intro: same_steps_trans [OF _ file_keeps_steps])
  from post_retD [OF this assms] show ?thesis by simp
qed

lemma finish_keeps_steps:
  assumes "inter_tuningFinished env s = ret (b, s')"
  shows "same_steps (plugin_state s) (plugin_state s')" and "1 \<le> nt_tuningStep (plugin_state s)"
    and "nt_tuningStep (plugin_state s) \<le> 3" and "b \<longleftrightarrow> nt_tuningStep (plugin_state s) = 3"
proof -
  have tree: "same_steps p q" if "results_into_tree env (p, w) = ret q" for p q w
    using that by (auto simp: results_into_tree_def same_steps_def cbind_eq_ret Let_def)
  have keep: "same_steps p (r\<lparr>nt_interph := g\<rparr>)" "same_steps p (r\<lparr>nt_calltree := t\<rparr>)" if "same_steps p r" for p r :: "'a inter" and g t
    using that by (simp_all add: same_steps_def)
  show "same_steps (plugin_state s) (plugin_state s')"
    using assms unfolding inter_tuningFinished_def Let_def
    by (auto simp: cbind_eq_ret set_inter_def split: if_splits
        intro!: keep intro: file_loop_keeps_steps files_keep_steps same_steps_trans [OF tree files_keep_steps])
  show "1 \<le> nt_tuningStep (plugin_state s)" "nt_tuningStep (plugin_state s) \<le> 3" "b \<longleftrightarrow> nt_tuningStep (plugin_state s) = 3"
    using assms by (auto simp: inter_tuningFinished_def Let_def cbind_eq_ret split: if_splits)
qed

lemma quiet_call_keeps_steps:
  assumes "inter_call env s None s'"
  shows "same_steps (plugin_state s) (plugin_state s')"
  using assms
  by cases (auto simp: inter_analysisRequired_def inter_createScenarios_def inter_prepareScenarios_def inter_defineExperiment_def
      inter_searchFinished_def inter_finishTuningStep_def set_side_pools_def set_inter_def same_steps_def Let_def cbind_eq_ret
      split: if_splits prod.splits)

lemma start_counts:
  "inter_startTuningStep env s = ret s' \<Longrightarrow> nt_tuningStep (plugin_state s') = nt_tuningStep (plugin_state s) + 1 \<and>
     nt_current_step (plugin_state s') = nt_current_step (plugin_state s)"
  by (auto simp: inter_startTuningStep_def inter_search_do_def Let_def cbind_eq_ret split: if_splits)

lemma initialized_steps:
  assumes "inter_initialize env s = ret s'"
  shows "nt_tuningStep (plugin_state s') = 0" and "nt_current_step (plugin_state s') = 0"
proof -
  have objs: "same_steps p (inter_objectives b p)" for b :: "'a intra_env" and p
  proof -
    have "same_steps p (fold (inter_add_objective b) xs p)" for xs
      by (induction xs arbitrary: p) (auto simp: inter_add_objective_def same_steps_def)
    then show ?thesis by (simp add: inter_objectives_def split: prod.split)
  qed
  have pars: "same_steps p q" if "inter_parameters env (p, w) = ret (q, v)" for p q w v
    using that by (auto simp: inter_parameters_def create_inter_tp_def same_steps_def cbind_eq_ret Let_def split: prod.splits if_splits)
  have srch: "same_steps p q" if "inter_search_do f p = ret q" for f p and q :: "'a inter"
    using that by (auto simp: inter_search_do_def same_steps_def cbind_eq_ret)
  have smp: "same_steps p q" if "read_samples env p = ret q" for p q
    using that by (auto simp: read_samples_def inter_search_do_def same_steps_def cbind_eq_ret split: option.splits)
  let ?p = "(plugin_state s)\<lparr>nt_tuningStep := 0, nt_current_step := 0, nt_min_freq := 1200, nt_max_freq := 2400, nt_freq_step := 400\<rparr>"
  from assms obtain p1 w1 a p2 p3 where 1: "inter_parameters env (?p, tuning_world s) = ret (p1, w1)"
    and 2: "inter_search_do (sa_initialize (ie_search (ne_base env))) (p1\<lparr>nt_searchAlgorithm := a\<rparr>) = ret p2"
    and 3: "read_samples env p2 = ret p3" and s': "plugin_state s' = inter_objectives (ne_base env) p3"
    by (auto simp: inter_initialize_def Let_def cbind_eq_ret set_inter_def)
  have "same_steps ?p (p1\<lparr>nt_searchAlgorithm := a\<rparr>)" using pars [OF 1] by (simp add: same_steps_def)
  then have "same_steps ?p (plugin_state s')" unfolding s' using srch [OF 2] smp [OF 3] objs [of p3 "ne_base env"] same_steps_trans by blast
  then show "nt_tuningStep (plugin_state s') = 0" "nt_current_step (plugin_state s') = 0" by (simp_all add: same_steps_def)
qed

text \<open>What the answers so far say about the counters of the plugin.\<close>

definition counted_steps :: "inter_answer list \<Rightarrow> 's inter \<Rightarrow> bool" where
  "counted_steps answers p \<longleftrightarrow> nt_tuningStep p = steps_started answers \<and>
     (if restart_due answers then nt_current_step p < nt_tuningStep p else nt_current_step p = nt_tuningStep p)"

lemma counted_steps_same: "same_steps p q \<Longrightarrow> counted_steps answers p \<Longrightarrow> counted_steps answers q"
  by (auto simp: same_steps_def counted_steps_def split: if_splits)

lemma restart_due_snoc [simp]:
  "restart_due (answers @ [a]) = (case a of Step_started \<Rightarrow> True | Restart_answer _ \<Rightarrow> False | Tuning_answer _ \<Rightarrow> restart_due answers)"
  by (cases a) (simp_all add: restart_due_def)

lemma steps_started_snoc [simp]: "steps_started (answers @ [a]) = steps_started answers + (if a = Step_started then 1 else 0)"
  by (simp add: steps_started_def)

definition right_answer :: "inter_answer list \<Rightarrow> inter_answer \<Rightarrow> bool" where
  "right_answer before a \<longleftrightarrow> (case a of Step_started \<Rightarrow> True | Restart_answer b \<Rightarrow> b = restart_due before
     | Tuning_answer b \<Rightarrow> 1 \<le> steps_started before \<and> steps_started before \<le> 3 \<and> b = (steps_started before = 3))"

lemma call_right:
  assumes "inter_call env s (Some a) s'" and "counted_steps answers (plugin_state s)"
  shows "right_answer answers a \<and> counted_steps (answers @ [a]) (plugin_state s')"
  using assms(1)
proof cases
  case start_called
  with start_counts [of env s s'] assms(2) show ?thesis by (auto simp: right_answer_def counted_steps_def split: if_splits)
next
  case (restart_called q b q')
  with assms(2) show ?thesis
    by (auto simp: right_answer_def counted_steps_def inter_restartRequired_def Let_def split: if_splits)
next
  case (tuned_called b)
  note f = finish_keeps_steps [OF tuned_called(2)]
  with assms(2) tuned_called(1) counted_steps_same [OF f(1) assms(2)] show ?thesis
    by (auto simp: right_answer_def counted_steps_def split: if_splits)
qed

text \<open>
  C9: However the operations of the plugin are called after its initialisation: a restart of the application is asked for exactly when a
  tuning step has been started since the last answer about one, so once in every tuning step; a tuning step only ends when one, two or
  three have been started, and tuning is finished exactly after the third.
\<close>

theorem one_restart_each_of_three_steps:
  assumes "inter_calls env s0 answers s" and "answers = before @ a # after"
  shows "right_answer before a"
proof -
  have "counted_steps answers (plugin_state s) \<and> (\<forall>before a after. answers = before @ a # after \<longrightarrow> right_answer before a)"
    using assms(1)
  proof induction
    case (inter_initialized s0 s)
    with initialized_steps [OF this] show ?case by (simp add: counted_steps_def steps_started_def restart_due_def)
  next
    case (inter_called s0 answers s reply s')
    then have IH: "counted_steps answers (plugin_state s)"
      "\<And>before a after. answers = before @ a # after \<Longrightarrow> right_answer before a" by blast+
    show ?case
    proof (cases reply)
      case None
      with inter_called.hyps quiet_call_keeps_steps IH show ?thesis by (auto intro: counted_steps_same)
    next
      case (Some x)
      with inter_called.hyps IH call_right [of env s x s' answers] have
        "right_answer answers x" "counted_steps (answers @ [x]) (plugin_state s')" by blast+
      with IH(2) Some show ?thesis by (auto simp: append_eq_append_conv2 append_eq_Cons_conv Cons_eq_append_conv)
    qed
  qed
  with assms(2) show ?thesis by blast
qed

text \<open>A run of the plugin: two phases, of which the second is the best of the one cluster they form.\<close>

definition settled_phase :: "int \<Rightarrow> int \<Rightarrow> int \<Rightarrow> phase_info" where
  "settled_phase c i v = new_phaseInfo\<lparr>ph_scenarioID := i, ph_scenarioConfig := [(7, v)], ph_clusterID := c\<rparr>"

definition settled_phases :: "int \<Rightarrow> interph" where
  "settled_phases c = \<lparr>dtaPhases = [(0, settled_phase c 0 1000), (1, settled_phase 1 1 2000)], configForClusters = [(1, (1, [0, 1]))],
     rts_best_objs = [[(''/phase/f'', (dbl_of_int 0, 0))]], num_clusters = 1, dist_matrix = [], k_neigh_dist = []\<rparr>"

definition inter_example :: "int \<Rightarrow> int \<Rightarrow> exhaustive inter" where
  "inter_example step c = \<lparr>nt_tuningParameters = [7], nt_searchAlgorithm = Some intra_search, nt_code_significant_regions = [1],
     nt_objectives = [(Energy, ''J'')], nt_tuningStep = step, nt_min_freq = 1200, nt_max_freq = 2400, nt_freq_step = 400,
     nt_current_step = step, nt_samples = 2, nt_created = 0, nt_calltree = intra_tree, nt_interph = settled_phases c\<rparr>"

definition inter_example_side :: "int \<Rightarrow> int \<Rightarrow> exhaustive inter side" where
  "inter_example_side step c = \<lparr>plugin_state = inter_example step c, tuning_world = intra_world, timers = []\<rparr>"

theorem one_restart_each_of_three_steps_witness:
  "\<exists>s. inter_calls inter_example_env (inter_example_side 0 1) [Step_started, Restart_answer True] s \<and>
     right_answer [Step_started] (Restart_answer True)"
proof -
  let ?e = "inter_example_env" and ?q = "('''', 0, '''', False)"
  let ?run = "cbind (inter_initialize ?e (inter_example_side 0 1)) (\<lambda>s. cbind (inter_startTuningStep ?e s) (inter_restartRequired ?q))"
  have "map_option (map_sum (\<lambda>_. ()) (\<lambda>(b, _). b)) ?run = Some (Inr True)"
    by code_simp
  from value_returned [OF this] obtain q s3 where "?run = ret (True, q, s3)" by force
  then obtain s1 s2 where s1: "inter_initialize ?e (inter_example_side 0 1) = ret s1" and s2: "inter_startTuningStep ?e s1 = ret s2"
    and s3: "inter_restartRequired ?q s2 = ret (True, q, s3)" by (auto simp: cbind_eq_ret)
  have "inter_calls ?e (inter_example_side 0 1) [Step_started, Restart_answer True] s3"
    using inter_called [OF inter_called [OF inter_initialized [OF s1] start_called [where env = ?e, OF s2]] restart_called [OF s3]] by simp
  with one_restart_each_of_three_steps [OF this, of "[Step_started]" "Restart_answer True" "[]"] show ?thesis by auto
qed

section \<open>The scenarios of the second and third step\<close>

definition valid_rtss :: "calltree \<Rightarrow> region_ptr list \<Rightarrow> rts_ptr list comp" where
  "valid_rtss st regs = for_rtss st regs (\<lambda>r l. ret (l @ [r])) []"

lemma collect_rtss: "for_rtss st regs (\<lambda>r l. ret (l @ [r])) l = cbind (valid_rtss st regs) (\<lambda>rs. ret (l @ rs))"
proof -
  have one: "cfold (\<lambda>r l. ret (l @ [r])) rs l = ret (l @ rs)" for rs l :: "rts_ptr list"
    by (induction rs arbitrary: l) simp_all
  let ?F = "\<lambda>reg l. cbind (deref (calltree_root (ct_appl st))) (\<lambda>root_ptr.
      cbind (getValidRtsOfRegion st (Some reg) root_ptr []) (\<lambda>rtsList. ret (l @ rtsList)))"
  have "cfold ?F regs l = cbind (cfold ?F regs []) (\<lambda>rs. ret (l @ rs))" for l
  proof (induction regs arbitrary: l)
    case (Cons reg regs)
    show ?case
    proof (cases "calltree_root (ct_appl st)")
      case (Some r)
      show ?thesis
      proof (cases "getValidRtsOfRegion st (Some reg) r []" rule: comp_cases)
        case (Returns rs)
        then show ?thesis using Some Cons [of "l @ rs"] Cons [of rs] by (simp add: deref_def cbind_assoc)
      qed (simp_all add: deref_def Some)
    qed (simp add: deref_def)
  qed simp
  then show ?thesis unfolding valid_rtss_def for_rtss_def one .
qed

lemma for_rtss_parts:
  assumes "for_rtss st regs f x = ret y"
  shows "\<exists>rs. valid_rtss st regs = ret rs \<and> cfold f rs x = ret y"
  using assms
proof (induction regs arbitrary: x)
  case Nil
  then show ?case by (simp add: for_rtss_def valid_rtss_def)
next
  case (Cons reg regs)
  from Cons.prems obtain r rs x' where first: "deref (calltree_root (ct_appl st)) = ret r" "getValidRtsOfRegion st (Some reg) r [] = ret rs"
    "cfold f rs x = ret x'" and rest: "for_rtss st regs f x' = ret y"
    by (auto simp: for_rtss_def cbind_eq_ret)
  from Cons.IH [OF rest] obtain rs' where rs': "valid_rtss st regs = ret rs'" "cfold f rs' x' = ret y" by blast
  have "valid_rtss st (reg # regs) = ret (rs @ rs')"
  proof -
    have "cfold (\<lambda>r l. ret (l @ [r])) rs l = ret (l @ rs)" for l :: "rts_ptr list" by (induction rs arbitrary: l) simp_all
    then have "valid_rtss st (reg # regs) = for_rtss st regs (\<lambda>r l. ret (l @ [r])) rs"
      using first by (simp add: valid_rtss_def for_rtss_def)
    then show ?thesis using rs'(1) by (simp add: collect_rtss)
  qed
  with first rs' show ?case by (simp add: cfold_append)
qed

text \<open>The specifications of a phase's scenario: the phase with its setting, then the runtime situations with theirs.\<close>

definition phase_setting :: "'s inter \<Rightarrow> tp_store \<Rightarrow> phase_info option \<Rightarrow> (tp_ptr, int) smap" where
  "phase_setting p heap best = (if nt_tuningStep p \<ge> 3 then (case best of Some b \<Rightarrow> ph_scenarioConfig b
     | None \<Rightarrow> default_config heap (nt_tuningParameters p)) else default_config heap (nt_tuningParameters p))"

definition phase_specified :: "'s inter_env \<Rightarrow> 's inter \<Rightarrow> tp_store \<Rightarrow> phase_info \<Rightarrow> tuning_specification list \<Rightarrow> bool" where
  "phase_specified env p heap ph ts \<longleftrightarrow> (\<exists>best r cs. best_phase (nt_interph p) ph = ret best \<and>
     calltree_root (ct_appl (nt_calltree p)) = Some r \<and>
     ts = entity_spec env (rn_callpathstring (rts_store (nt_calltree p) ! r)) (phase_setting p heap best) #
            map (\<lambda>(cpath, c). entity_spec env cpath c) cs \<and>
     (if nt_tuningStep p \<ge> 3
      then \<exists>rs. valid_rtss (nt_calltree p) (nt_code_significant_regions p) = ret rs \<and> sm_wf cs \<and>
           fst ` set cs = (\<lambda>q. rn_callpathstring (rts_store (nt_calltree p) ! q)) ` set rs \<and>
           (\<forall>(cpath, c) \<in> set cs. rts_config (nt_interph p) ph best (phase_setting p heap best)
              (default_config heap (nt_tuningParameters p)) cpath = ret c)
      else cs = []))"

lemma set_put: "set (sm_put k v m) \<subseteq> insert (k, v) (set m)"
  by (induction k v m rule: sm_put.induct) auto

lemma set_inserted: "set (sm_insert k v m) \<subseteq> insert (k, v) (set m)"
  using set_put [of k v m] by (auto simp: sm_insert_def)

lemma keys_inserted: "fst ` set (sm_insert k v m) = insert k (fst ` set m)"
  by (auto simp: sm_insert_def keys_sm_put sm_has_def keys_sm_find)

lemma rts_settings:
  assumes "cfold (\<lambda>q m. cbind (rts_at st q) (\<lambda>n. cbind (F (rn_callpathstring n)) (\<lambda>c. ret (sm_insert (rn_callpathstring n) c m)))) rs m = ret cs"
    and "sm_wf m" and "\<forall>(cpath, c) \<in> set m. F cpath = ret c"
  shows "sm_wf cs \<and> fst ` set cs = (\<lambda>q. rn_callpathstring (rts_store st ! q)) ` set rs \<union> fst ` set m \<and> (\<forall>(cpath, c) \<in> set cs. F cpath = ret c)"
  using assms
proof (induction rs arbitrary: m)
  case (Cons q rs)
  let ?cpath = "rn_callpathstring (rts_store st ! q)"
  from Cons.prems(1) obtain c where c: "F ?cpath = ret c"
    and rest: "cfold (\<lambda>q m. cbind (rts_at st q) (\<lambda>n. cbind (F (rn_callpathstring n)) (\<lambda>c. ret (sm_insert (rn_callpathstring n) c m)))) rs
      (sm_insert ?cpath c m) = ret cs"
    by (auto simp: cbind_eq_ret rts_at_def)
  have "\<forall>(cpath, c) \<in> set (sm_insert ?cpath c m). F cpath = ret c" using set_inserted [of ?cpath c m] Cons.prems(3) c by auto
  from Cons.IH [OF rest _ this] Cons.prems(2) show ?case by (simp add: keys_inserted)
qed simp

lemma phase_specs_ret:
  assumes "phase_specs env p heap ph = ret ts"
  shows "phase_specified env p heap ph ts"
proof -
  let ?st = "nt_calltree p" and ?d = "default_config heap (nt_tuningParameters p)"
  from assms obtain best r cs where best: "best_phase (nt_interph p) ph = ret best" and r: "calltree_root (ct_appl ?st) = Some r"
    and cs: "(if nt_tuningStep p \<ge> 3
       then for_rtss ?st (nt_code_significant_regions p) (\<lambda>q m. cbind (rts_at ?st q) (\<lambda>n.
              cbind (rts_config (nt_interph p) ph best (phase_setting p heap best) ?d (rn_callpathstring n)) (\<lambda>c.
                ret (sm_insert (rn_callpathstring n) c m)))) []
       else ret []) = ret cs"
    and ts: "ts = entity_spec env (rn_callpathstring (rts_store ?st ! r)) (phase_setting p heap best) # map (\<lambda>(cpath, c). entity_spec env cpath c) cs"
    unfolding phase_specs_def Let_def phase_setting_def [symmetric] by (auto simp: cbind_eq_ret deref_eq_ret rts_at_def)
  show ?thesis
  proof (cases "nt_tuningStep p \<ge> 3")
    case True
    from for_rtss_parts [OF cs [unfolded if_P [OF True]]] obtain rs where rs: "valid_rtss ?st (nt_code_significant_regions p) = ret rs"
      and f: "cfold (\<lambda>q m. cbind (rts_at ?st q) (\<lambda>n.
              cbind (rts_config (nt_interph p) ph best (phase_setting p heap best) ?d (rn_callpathstring n)) (\<lambda>c.
                ret (sm_insert (rn_callpathstring n) c m)))) rs [] = ret cs" by blast
    from rts_settings [OF f] have "sm_wf cs" "fst ` set cs = (\<lambda>q. rn_callpathstring (rts_store ?st ! q)) ` set rs"
      "\<forall>(cpath, c) \<in> set cs. rts_config (nt_interph p) ph best (phase_setting p heap best) ?d cpath = ret c" by simp_all
    with best r ts rs True show ?thesis unfolding phase_specified_def by auto
  next
    case False
    with best r ts cs show ?thesis unfolding phase_specified_def by auto
  qed
qed

text \<open>
  What the third step finds when the first one has settled the clusters: all phases are in clusters and have a normalised value
  below the largest number, and every cluster has its entry and its map of runtime situations, chosen as the end of the first
  step chooses them.
\<close>

definition clusters_settled :: "string \<Rightarrow> interph \<Rightarrow> bool" where
  "clusters_settled name g \<longleftrightarrow> sm_wf (dtaPhases g) \<and>
     (\<forall>(q, x) \<in> set (dtaPhases g). 1 \<le> ph_clusterID x \<and> ph_clusterID x \<le> uint (num_clusters g) \<and>
        (\<exists>v. phase_value name x = Some v \<and> dlt v DBL_MAX)) \<and>
     (\<forall>c. 1 \<le> uint c \<and> uint c \<le> uint (num_clusters g) \<longrightarrow> (\<exists>k ms. sm_find (configForClusters g) c = Some (k, ms) \<and>
        best_choice name (dtaPhases g) c (k, ms) (rts_best_objs g ! nat (uint c - 1))))"

text \<open>The phases of a phase's cluster, and the values a runtime situation has in them that count: those whose objective is not 0.\<close>

definition cluster_of :: "interph \<Rightarrow> phase_info \<Rightarrow> (phase_num \<times> phase_info) set" where
  "cluster_of g ph = {(q, x) \<in> set (dtaPhases g). ph_clusterID x = ph_clusterID ph}"

definition rts_values_in :: "string \<Rightarrow> (phase_num \<times> phase_info) set \<Rightarrow> string \<Rightarrow> (phase_info \<times> dbl) set" where
  "rts_values_in name X cpath = {(x, v) | x v. \<exists>q r o1. (q, x) \<in> X \<and> r \<in> set (ph_rtsInfo x) \<and> ri_callpath r = cpath \<and>
     sm_find (ri_normalizedObj r) name = Some v \<and> sm_find (ri_objValues r) name = Some o1 \<and> nonzero o1}"

definition rts_setting :: "string \<Rightarrow> (phase_num \<times> phase_info) set \<Rightarrow> (tp_ptr, int) smap \<Rightarrow> string \<Rightarrow> (tp_ptr, int) smap \<Rightarrow> bool" where
  "rts_setting name X setting cpath c \<longleftrightarrow>
     (if rts_values_in name X cpath = {} then c = setting
      else \<exists>b v. (b, v) \<in> rts_values_in name X cpath \<and> c = ph_scenarioConfig b \<and> (\<forall>x u. (x, u) \<in> rts_values_in name X cpath \<longrightarrow> \<not> dlt u v))"

definition phase_unbeaten :: "string \<Rightarrow> (phase_num \<times> phase_info) set \<Rightarrow> phase_info \<Rightarrow> bool" where
  "phase_unbeaten name X b \<longleftrightarrow> (\<exists>k. (k, b) \<in> X) \<and>
     (\<forall>q x u v. (q, x) \<in> X \<longrightarrow> phase_value name x = Some u \<longrightarrow> phase_value name b = Some v \<longrightarrow> \<not> dlt u v)"

text \<open>
  The specifications of a phase's scenario in the third step: the phase gets the setting of a phase of its cluster that no other one
  of the cluster betters, and each valid runtime situation of the significant regions, once, that of a phase of the cluster which no other
  betters for it, or the phase's when it has no value in the cluster.
\<close>

definition third_step_specified :: "'s inter_env \<Rightarrow> 's inter \<Rightarrow> string \<Rightarrow> phase_info \<Rightarrow> tuning_specification list \<Rightarrow> bool" where
  "third_step_specified env p name ph ts \<longleftrightarrow>
     (\<exists>r rs setting cs. calltree_root (ct_appl (nt_calltree p)) = Some r \<and>
        ts = entity_spec env (rn_callpathstring (rts_store (nt_calltree p) ! r)) setting # map (\<lambda>(cpath, c). entity_spec env cpath c) cs \<and>
        (\<exists>b. phase_unbeaten name (cluster_of (nt_interph p) ph) b \<and> setting = ph_scenarioConfig b) \<and>
        valid_rtss (nt_calltree p) (nt_code_significant_regions p) = ret rs \<and> sm_wf cs \<and>
        fst ` set cs = (\<lambda>q. rn_callpathstring (rts_store (nt_calltree p) ! q)) ` set rs \<and>
        (\<forall>(cpath, c) \<in> set cs. rts_setting name (cluster_of (nt_interph p) ph) setting cpath c))"

lemma word_of_label: "0 \<le> i \<Longrightarrow> i \<le> uint (n :: phase_num) \<Longrightarrow> uint (word_of_int i :: phase_num) = i"
  using uint_bounded [of n] by (simp add: uint_word_of_int mod_pos_pos_trivial)

lemma settled_members:
  assumes "clusters_settled name g" and "(q0, ph) \<in> set (dtaPhases g)"
  shows "members (word_of_int (ph_clusterID ph)) (set (dtaPhases g)) = cluster_of g ph"
proof -
  have label: "uint (word_of_int (ph_clusterID x) :: phase_num) = ph_clusterID x" if "(q, x) \<in> set (dtaPhases g)" for q x
    using assms(1) that by (intro word_of_label [of _ "num_clusters g"]) (fastforce simp: clusters_settled_def)+
  have "(word_of_int (ph_clusterID x) :: phase_num) = word_of_int (ph_clusterID ph) \<longleftrightarrow> ph_clusterID x = ph_clusterID ph"
    if "(q, x) \<in> set (dtaPhases g)" for q x
    using label [OF that] label [OF assms(2)] by metis
  then show ?thesis by (auto simp: members_def cluster_of_def)
qed

lemma rts_values_compared:
  assumes "sm_wf (dtaPhases g)" and "X \<subseteq> set (dtaPhases g)"
  shows "(cpath, v, k) \<in> rts_compared name (rts_of_phases X) \<Longrightarrow> \<exists>x. sm_find (dtaPhases g) k = Some x \<and> (x, v) \<in> rts_values_in name X cpath"
    and "(x, v) \<in> rts_values_in name X cpath \<Longrightarrow> \<exists>k. (cpath, v, k) \<in> rts_compared name (rts_of_phases X)"
proof -
  have find: "sm_find (dtaPhases g) q = Some x" if "(q, x) \<in> X" for q x
    using that assms sm_wf_distinct [OF assms(1)] by (auto simp: sm_find_def)
  show "\<exists>x. sm_find (dtaPhases g) k = Some x \<and> (x, v) \<in> rts_values_in name X cpath" if "(cpath, v, k) \<in> rts_compared name (rts_of_phases X)"
    using that find unfolding rts_compared_def rts_of_phases_def rts_values_in_def by fastforce
  show "\<exists>k. (cpath, v, k) \<in> rts_compared name (rts_of_phases X)" if "(x, v) \<in> rts_values_in name X cpath"
    using that unfolding rts_compared_def rts_of_phases_def rts_values_in_def by blast
qed

text \<open>What the lookups of the code find in settled clusters.\<close>

lemma settled_lookups:
  assumes "clusters_settled name g" and "(q0, ph) \<in> set (dtaPhases g)" and best: "best_phase g ph = ret best"
  obtains b where "best = Some b" and "phase_unbeaten name (cluster_of g ph) b"
    and "\<forall>d cpath c. rts_config g ph best (ph_scenarioConfig b) d cpath = ret c \<longrightarrow>
      rts_setting name (cluster_of g ph) (ph_scenarioConfig b) cpath c"
proof -
  let ?c = "word_of_int (ph_clusterID ph) :: phase_num" and ?X = "cluster_of g ph"
  have wf: "sm_wf (dtaPhases g)" and range: "1 \<le> ph_clusterID ph" "ph_clusterID ph \<le> uint (num_clusters g)"
    using assms(1,2) by (auto simp: clusters_settled_def)
  then have c: "uint ?c = ph_clusterID ph" by (intro word_of_label [of _ "num_clusters g"]) auto
  note X = settled_members [OF assms(1,2)]
  have in_X: "(q, x) \<in> ?X \<longleftrightarrow> sm_find (dtaPhases g) q = Some x \<and> word_of_int (ph_clusterID x) = ?c" for q x
    unfolding X [symmetric] by (rule in_members [OF wf])
  obtain k ms where km: "sm_find (configForClusters g) ?c = Some (k, ms)"
    and choice: "best_choice name (dtaPhases g) ?c (k, ms) (rts_best_objs g ! nat (ph_clusterID ph - 1))"
  proof -
    have "1 \<le> uint ?c" "uint ?c \<le> uint (num_clusters g)" using range by (simp_all add: c)
    then obtain k ms where "sm_find (configForClusters g) ?c = Some (k, ms)"
      "best_choice name (dtaPhases g) ?c (k, ms) (rts_best_objs g ! nat (uint ?c - 1))"
      using assms(1) unfolding clusters_settled_def by blast
    then show ?thesis using that by (simp only: c)
  qed
  let ?m = "rts_best_objs g ! nat (ph_clusterID ph - 1)"
  have ms: "q \<in> set ms \<longleftrightarrow> (\<exists>x. (q, x) \<in> ?X)" for q using choice by (auto simp: best_choice_def in_X)
  have value_in: "value_in name (dtaPhases g) q = v" if "(q, x) \<in> ?X" "phase_value name x = Some v" for q x v
    using that by (simp add: in_X value_in_def)
  have self: "(q0, ph) \<in> ?X" using assms(2) by (simp add: cluster_of_def)
  moreover obtain v0 where "phase_value name ph = Some v0" "dlt v0 DBL_MAX" using assms(1,2) by (fastforce simp: clusters_settled_def)
  ultimately have "\<exists>q \<in> set ms. dlt (value_in name (dtaPhases g) q) DBL_MAX" using ms value_in by metis
  with choice have k: "k \<in> set ms" and least: "\<And>q. q \<in> set ms \<Longrightarrow> \<not> dlt (value_in name (dtaPhases g) q) (value_in name (dtaPhases g) k)"
    by (auto simp: best_choice_def)
  from k obtain b where b: "(k, b) \<in> ?X" unfolding ms by blast
  have some: "best = Some b" using best km b in_X by (simp add: best_phase_def found_def deref_def)
  have sub: "?X \<subseteq> set (dtaPhases g)" by (auto simp: cluster_of_def)
  have bests: "best_of (rts_compared name (rts_of_phases ?X)) ?m" using choice by (simp add: best_choice_def X)
  have "rts_setting name ?X (ph_scenarioConfig b) cpath c"
    if "rts_config g ph best (ph_scenarioConfig b) d cpath = ret c" for d cpath c
  proof (cases "sm_find ?m cpath")
    case None
    then have "rts_values_in name ?X cpath = {}"
      using bests rts_values_compared(2) [OF wf sub] by (fastforce simp: best_of_def)
    with that None some show ?thesis by (auto simp: rts_setting_def rts_config_def cbind_eq_ret)
  next
    case (Some e)
    obtain v j where e: "e = (v, j)" by (cases e)
    have "(cpath, v, j) \<in> rts_compared name (rts_of_phases ?X)" using bests Some by (auto simp: best_of_def e)
    from rts_values_compared(1) [OF wf sub this] obtain y where
      y: "sm_find (dtaPhases g) j = Some y" "(y, v) \<in> rts_values_in name ?X cpath" by blast
    have "\<not> dlt u v" if "(x, u) \<in> rts_values_in name ?X cpath" for x u
      using rts_values_compared(2) [OF wf sub that] bests Some by (fastforce simp: best_of_def e)
    moreover have "c = ph_scenarioConfig y"
      using that some Some y(1) by (auto simp: rts_config_def cbind_eq_ret e found_def deref_def)
    ultimately show ?thesis using y(2) unfolding rts_setting_def by (subst if_not_P) blast+
  qed
  moreover have "\<not> dlt u v" if "(q, x) \<in> ?X" "phase_value name x = Some u" "phase_value name b = Some v" for q x u v
    using least [of q] value_in [OF that(1,2)] value_in [OF b that(3)] ms that(1) by auto
  ultimately show thesis using that [OF some] b unfolding phase_unbeaten_def by blast
qed

lemma settled_specified:
  assumes "clusters_settled name (nt_interph p)" and "(q0, ph) \<in> set (dtaPhases (nt_interph p))"
    and "3 \<le> nt_tuningStep p" and "phase_specified env p heap ph ts"
  shows "third_step_specified env p name ph ts"
proof -
  let ?g = "nt_interph p" and ?d = "default_config heap (nt_tuningParameters p)"
  from assms(3,4) obtain best r cs rs where best: "best_phase ?g ph = ret best" and r: "calltree_root (ct_appl (nt_calltree p)) = Some r"
    and ts: "ts = entity_spec env (rn_callpathstring (rts_store (nt_calltree p) ! r)) (phase_setting p heap best) #
            map (\<lambda>(cpath, c). entity_spec env cpath c) cs"
    and rs: "valid_rtss (nt_calltree p) (nt_code_significant_regions p) = ret rs" "sm_wf cs"
      "fst ` set cs = (\<lambda>q. rn_callpathstring (rts_store (nt_calltree p) ! q)) ` set rs"
    and config: "\<forall>(cpath, c) \<in> set cs. rts_config ?g ph best (phase_setting p heap best) ?d cpath = ret c"
    by (auto simp: phase_specified_def)
  obtain b where b: "best = Some b" and unbeaten: "phase_unbeaten name (cluster_of ?g ph) b"
    and choice: "\<forall>d cpath c. rts_config ?g ph best (ph_scenarioConfig b) d cpath = ret c \<longrightarrow>
      rts_setting name (cluster_of ?g ph) (ph_scenarioConfig b) cpath c"
    by (rule settled_lookups [OF assms(1,2) best])
  have setting: "phase_setting p heap best = ph_scenarioConfig b" using assms(3) by (simp add: phase_setting_def b)
  have "\<forall>(cpath, c) \<in> set cs. rts_setting name (cluster_of ?g ph) (ph_scenarioConfig b) cpath c"
    using config choice unfolding setting by blast
  with unbeaten r ts rs show ?thesis unfolding third_step_specified_def setting by blast
qed

lemma second_step_specified:
  assumes "phase_specified env p heap ph ts" and "nt_tuningStep p = 2"
  shows "\<exists>r. calltree_root (ct_appl (nt_calltree p)) = Some r \<and>
    ts = [entity_spec env (rn_callpathstring (rts_store (nt_calltree p) ! r)) (default_config heap (nt_tuningParameters p))]"
  using assms by (auto simp: phase_specified_def phase_setting_def)

definition pushed_scenarios :: "scenario_counter \<Rightarrow> tuning_specification list list \<Rightarrow> scenario list" where
  "pushed_scenarios n tss = map (\<lambda>(k, ts). verification_scenario (n + word_of_nat k) ts) (enumerate 0 tss)"

lemma push_all:
  "fold push_specs tss w = w\<lparr>next_scenario_id := next_scenario_id w + word_of_nat (length tss),
     pool_set := (pool_set w)\<lparr>csp := fold ScenarioPool_push (pushed_scenarios (next_scenario_id w) tss) (csp (pool_set w))\<rparr>\<rparr>"
proof (induction tss arbitrary: w)
  case (Cons ts tss)
  let ?n = "next_scenario_id w"
  have "pushed_scenarios ?n (ts # tss) = verification_scenario ?n ts # pushed_scenarios (?n + 1) tss"
    by (auto simp: pushed_scenarios_def enumerate_Suc_eq ac_simps)
  moreover have "push_specs ts w = w\<lparr>next_scenario_id := ?n + 1,
      pool_set := (pool_set w)\<lparr>csp := ScenarioPool_push (verification_scenario ?n ts) (csp (pool_set w))\<rparr>\<rparr>"
    by (simp add: push_specs_def new_Scenario_def verification_scenario_def)
  ultimately show ?case by (simp add: Cons.IH add.commute add.left_commute)
qed (simp add: pushed_scenarios_def)

lemma specs_pushed:
  assumes "cfold (\<lambda>(_, ph) w. cbind (phase_specs env p (tp_heap w) ph) (\<lambda>ts. ret (push_specs ts w))) xs w = ret w'"
  shows "\<exists>tss. list_all2 (\<lambda>(_, ph) ts. phase_specs env p (tp_heap w) ph = ret ts) xs tss \<and> w' = fold push_specs tss w"
  using assms
proof (induction xs arbitrary: w)
  case (Cons x xs)
  obtain k ph where x: "x = (k, ph)" by (cases x)
  from Cons.prems x obtain ts where ts: "phase_specs env p (tp_heap w) ph = ret ts"
    and rest: "cfold (\<lambda>(_, ph) w. cbind (phase_specs env p (tp_heap w) ph) (\<lambda>ts. ret (push_specs ts w))) xs (push_specs ts w) = ret w'"
    by (auto simp: cbind_eq_ret)
  have "tp_heap (push_specs ts w) = tp_heap w" by (simp add: push_specs_def split: prod.split)
  with Cons.IH [OF rest] obtain tss where "list_all2 (\<lambda>(_, ph) ts. phase_specs env p (tp_heap w) ph = ret ts) xs tss"
    "w' = fold push_specs tss (push_specs ts w)" by auto
  with ts x show ?case by (intro exI [of _ "ts # tss"]) simp
qed simp

text \<open>
  C8: From the second tuning step on, creating the scenarios clears the pools and makes exactly one for every known phase, in
  the order of the phases and with consecutive identifiers. In the second step it has one specification: the root with the default
  setting of every parameter. In the third step, when the clusters are as the first step settles them (no phase is noise, the phases' values are
  below the largest number, each cluster has a best phase and best runtime situations), the root gets the setting of a phase of the
  same cluster whose normalised first objective no other phase of the cluster betters; and each valid runtime situation of the
  significant regions gets exactly one specification, with the setting of a phase of the cluster that has a value for it (its objective is not 0)
  which no other phase of the cluster betters, or with the root's setting when it has none.
\<close>

theorem one_scenario_per_phase:
  assumes "inter_createScenarios env s = ret s'" and "2 \<le> nt_tuningStep (plugin_state s)"
    and settled: "3 \<le> nt_tuningStep (plugin_state s) \<Longrightarrow> clusters_settled name (nt_interph (plugin_state s))"
  shows "plugin_state s' = plugin_state s \<and> fsp (pool_set (tuning_world s')) = [] \<and> psp (pool_set (tuning_world s')) = [] \<and>
    esp (pool_set (tuning_world s')) = [] \<and>
    (\<exists>tss. list_all2 (\<lambda>(_, ph) ts. let p = plugin_state s; st = nt_calltree p in
           if nt_tuningStep p = 2
           then \<exists>r. calltree_root (ct_appl st) = Some r \<and> ts = [entity_spec env (rn_callpathstring (rts_store st ! r))
                  (default_config (tp_heap (tuning_world s)) (nt_tuningParameters p))]
           else third_step_specified env p name ph ts)
         (dtaPhases (nt_interph (plugin_state s))) tss \<and>
       csp (pool_set (tuning_world s')) = fold ScenarioPool_push (pushed_scenarios (next_scenario_id (tuning_world s)) tss) [])"
proof -
  let ?w = "clear_pools (tuning_world s)" and ?p = "plugin_state s"
  from assms(1,2) obtain w' where w': "cfold (\<lambda>(_, ph) w. cbind (phase_specs env ?p (tp_heap w) ph) (\<lambda>ts. ret (push_specs ts w)))
      (dtaPhases (nt_interph ?p)) ?w = ret w'" and s': "s' = set_inter ?p w' s"
    by (auto simp: inter_createScenarios_def Let_def cbind_eq_ret)
  from specs_pushed [OF w'] obtain tss where
    tss: "list_all2 (\<lambda>(_, ph) ts. phase_specs env ?p (tp_heap ?w) ph = ret ts) (dtaPhases (nt_interph ?p)) tss" "w' = fold push_specs tss ?w" by blast
  let ?spec = "\<lambda>ph ts. if nt_tuningStep ?p = 2
    then \<exists>r. calltree_root (ct_appl (nt_calltree ?p)) = Some r \<and> ts = [entity_spec env (rn_callpathstring (rts_store (nt_calltree ?p) ! r))
           (default_config (tp_heap (tuning_world s)) (nt_tuningParameters ?p))]
    else third_step_specified env ?p name ph ts"
  have spec: "?spec ph ts" if "(q, ph) \<in> set (dtaPhases (nt_interph ?p))" "phase_specs env ?p (tp_heap ?w) ph = ret ts" for q ph ts
  proof -
    have specified: "phase_specified env ?p (tp_heap (tuning_world s)) ph ts"
      using phase_specs_ret [OF that(2)] by (simp add: clear_pools_def)
    show ?thesis
    proof (cases "nt_tuningStep ?p = 2")
      case True
      with second_step_specified [OF specified] show ?thesis by simp
    next
      case False
      with assms(2) have three: "3 \<le> nt_tuningStep ?p" by simp
      from settled_specified [OF settled [OF three] that(1) three specified] False show ?thesis by simp
    qed
  qed
  have "list_all2 (\<lambda>(_, ph) ts. ?spec ph ts) (dtaPhases (nt_interph ?p)) tss"
    using tss(1) spec unfolding list_all2_conv_all_nth by (auto simp: split_beta) (metis nth_mem prod.collapse)+
  with tss(2) show ?thesis unfolding Let_def
    by (intro conjI exI [of _ tss])
      (simp_all add: s' set_inter_def push_all clear_pools_def ScenarioPool_clear_def split del: if_split)
qed

text \<open>
  Two phases of one cluster: the second is better, but its runtime situation /phase/f is better in the first; /phase/g has no value.
\<close>

definition rated_phase :: "int \<Rightarrow> int \<Rightarrow> int \<Rightarrow> int \<Rightarrow> phase_info" where
  "rated_phase i v e r = (settled_phase 1 i v)\<lparr>ph_normalizedObj := [(''Energy'', dbl_of_int e)],
     ph_rtsInfo := [new_rts_info\<lparr>ri_callpath := ''/phase/f'', ri_normalizedObj := [(''Energy'', dbl_of_int r)],
       ri_objValues := [(''Energy'', dbl_of_int 1)]\<rparr>]\<rparr>"

definition rated_phases :: interph where
  "rated_phases = (settled_phases 1)\<lparr>dtaPhases := [(0, rated_phase 0 1000 2 1), (1, rated_phase 1 2000 1 3)],
     rts_best_objs := [[(''/phase/f'', (dbl_of_int 1, 0))]]\<rparr>"

definition rated_side :: "exhaustive inter side" where
  "rated_side = (inter_example_side 3 1)\<lparr>plugin_state := (inter_example 3 1)\<lparr>nt_interph := rated_phases\<rparr>\<rparr>"

lemma rated_phases_settled: "clusters_settled ''Energy'' rated_phases"
proof -
  let ?blank = "rated_phases\<lparr>configForClusters := [], rts_best_objs := []\<rparr>" and ?objs = "[(Energy, ''J'')]"
  have best: "computeBestConfigForCluster inter_example_env ?objs ?blank = ret rated_phases" by code_simp
  have phases: "dtaPhases rated_phases = [(0, rated_phase 0 1000 2 1), (1, rated_phase 1 2000 1 3)]" "num_clusters rated_phases = 1"
    by (simp_all add: rated_phases_def settled_phases_def)
  have rated: "phase_value ''Energy'' (rated_phase i v e r) = Some (dbl_of_int e)" for i v e r
    by (simp add: phase_value_def rated_phase_def sm_find_Cons)
  have valued: "phase_valued ''Energy'' (rated_phase i v e r)" for i v e r
    unfolding phase_valued_def rated by (simp add: rated_phase_def rts_valued_def sm_has_def sm_find_Cons)
  have label: "ph_clusterID (rated_phase i v e r) = 1" for i v e r by (simp add: rated_phase_def settled_phase_def)
  have below: "dlt (dbl_of_int 2) DBL_MAX" "dlt (dbl_of_int 1) DBL_MAX" by code_simp+
  have wf: "sm_wf (dtaPhases rated_phases)" by (simp add: phases sm_wf_Cons)
  have "total (computeBestConfigForCluster inter_example_env ?objs ?blank)
      (choices_upto (objective_name Energy) ?blank (uint (num_clusters ?blank)))"
    by (rule best_configs) (use wf valued in \<open>auto simp: phases inter_example_env_def intra_example_env_def\<close>)
  then have "choices_upto ''Energy'' ?blank 1 rated_phases" unfolding best by (simp add: phases)
  then have "\<forall>c. 1 \<le> uint c \<and> uint c \<le> 1 \<longrightarrow> (\<exists>x. sm_find (configForClusters rated_phases) c = Some x \<and>
      best_choice ''Energy'' (dtaPhases rated_phases) c x (rts_best_objs rated_phases ! nat (uint c - 1)))"
    by (simp add: choices_upto_def)
  then show ?thesis using wf unfolding clusters_settled_def by (simp add: phases rated label below)
qed

theorem one_scenario_per_phase_witness:
  "\<exists>s' tss. inter_createScenarios inter_example_env rated_side = ret s' \<and> length tss = 2 \<and>
     csp (pool_set (tuning_world s')) = fold ScenarioPool_push (pushed_scenarios 3 tss) [] \<and>
     (\<forall>ts \<in> set tss. \<exists>cs. ts = entity_spec inter_example_env ''/phase'' [(7, 2000)] # map (\<lambda>(cpath, c). entity_spec inter_example_env cpath c) cs \<and>
        set cs = {(''/phase/f'', [(7, 1000)]), (''/phase/g'', [(7, 2000)])})"
proof -
  let ?X = "{(0 :: phase_num, rated_phase 0 1000 2 1), (1, rated_phase 1 2000 1 3)}"
  have "map_option (map_sum (\<lambda>_. ()) (\<lambda>_. ())) (inter_createScenarios inter_example_env rated_side) = Some (Inr ())" by code_simp
  from value_returned [OF this] obtain s' where s': "inter_createScenarios inter_example_env rated_side = ret s'" by blast
  define p where "p = plugin_state rated_side"
  have p: "nt_tuningStep p = 3" "nt_calltree p = intra_tree" "nt_interph p = rated_phases" "nt_code_significant_regions p = [1]"
    and n: "next_scenario_id (tuning_world rated_side) = 3"
    by (simp_all add: p_def rated_side_def inter_example_side_def inter_example_def intra_world_def)
  have phases: "dtaPhases rated_phases = [(0, rated_phase 0 1000 2 1), (1, rated_phase 1 2000 1 3)]"
    by (simp add: rated_phases_def)
  have tree: "calltree_root (ct_appl intra_tree) = Some 0" "valid_rtss intra_tree [1] = ret [1, 2]"
    "rn_callpathstring (rts_store intra_tree ! 0) = ''/phase''" "rn_callpathstring (rts_store intra_tree ! 1) = ''/phase/f''"
    "rn_callpathstring (rts_store intra_tree ! 2) = ''/phase/g''" by code_simp+
  have below: "dlt (dbl_of_int 1) (dbl_of_int 2)" "dlt (dbl_of_int 1) (dbl_of_int 3)" and nz: "nonzero (dbl_of_int 1)"
    unfolding nonzero_def by code_simp+
  have rated: "phase_value ''Energy'' (rated_phase i v e r) = Some (dbl_of_int e)" for i v e r
    by (simp add: phase_value_def rated_phase_def sm_find_Cons)
  have config: "ph_scenarioConfig (rated_phase i v e r) = [(7, v)]" and label: "ph_clusterID (rated_phase i v e r) = 1" for i v e r
    by (simp_all add: rated_phase_def settled_phase_def)
  have cluster: "cluster_of rated_phases ph = ?X" if "ph_clusterID ph = 1" for ph
    using that by (auto simp: cluster_of_def phases label)
  have unbeaten: "ph_scenarioConfig b = [(7, 2000)]" if "phase_unbeaten ''Energy'' ?X b" for b
    using that below by (auto simp: phase_unbeaten_def rated config)
  have listed: "rts_values_in ''Energy'' ?X ''/phase/g'' = {}"
    "rts_values_in ''Energy'' ?X ''/phase/f'' = {(rated_phase 0 1000 2 1, dbl_of_int 1), (rated_phase 1 2000 1 3, dbl_of_int 3)}"
    by (auto simp: rts_values_in_def rated_phase_def sm_find_Cons nz)
  have f: "c = [(7, 1000)]" if "rts_setting ''Energy'' ?X setting ''/phase/f'' c" for setting c
    using that below unfolding rts_setting_def listed by (auto simp: config)
  have g: "c = setting" if "rts_setting ''Energy'' ?X setting ''/phase/g'' c" for setting c
    using that unfolding rts_setting_def listed by simp
  have specified: "\<exists>cs. ts = entity_spec inter_example_env ''/phase'' [(7, 2000)] # map (\<lambda>(cpath, c). entity_spec inter_example_env cpath c) cs \<and>
        set cs = {(''/phase/f'', [(7, 1000)]), (''/phase/g'', [(7, 2000)])}"
    if third: "third_step_specified inter_example_env p ''Energy'' ph ts" and one: "ph_clusterID ph = 1" for ph ts
  proof -
    from third obtain rs b cs where b: "phase_unbeaten ''Energy'' ?X b"
      and ts: "ts = entity_spec inter_example_env ''/phase'' (ph_scenarioConfig b) # map (\<lambda>(cpath, c). entity_spec inter_example_env cpath c) cs"
      and rs: "ret rs = ret [1, 2]" "fst ` set cs = (\<lambda>q. rn_callpathstring (rts_store intra_tree ! q)) ` set rs"
      and each: "\<forall>(cpath, c) \<in> set cs. rts_setting ''Energy'' ?X (ph_scenarioConfig b) cpath c"
      unfolding third_step_specified_def p cluster [OF one] tree option.inject by (elim exE conjE) (rule that, assumption, simp_all only: tree)
    have keys: "fst ` set cs = {''/phase/f'', ''/phase/g''}"
      using rs tree by (auto simp del: One_nat_def)
    have settings: "rts_setting ''Energy'' ?X [(7, 2000)] cpath c" if "(cpath, c) \<in> set cs" for cpath c
      using each that unbeaten [OF b] by auto
    have only: "x \<in> {(''/phase/f'', [(7, 1000)]), (''/phase/g'', [(7, 2000)])}" if x: "x \<in> set cs" for x
    proof -
      obtain cpath c where c: "x = (cpath, c)" by (cases x)
      from x c have "cpath \<in> fst ` set cs" by force
      then have "cpath = ''/phase/f'' \<or> cpath = ''/phase/g''" unfolding keys by blast
      then show ?thesis using f g settings x unfolding c by blast
    qed
    have "(''/phase/f'', [(7, 1000)]) \<in> set cs"
    proof -
      have "''/phase/f'' \<in> fst ` set cs" unfolding keys by simp
      then obtain c where "(''/phase/f'', c) \<in> set cs" by auto
      with f [OF settings [OF this]] show ?thesis by simp
    qed
    moreover have "(''/phase/g'', [(7, 2000)]) \<in> set cs"
    proof -
      have "''/phase/g'' \<in> fst ` set cs" unfolding keys by simp
      then obtain c where "(''/phase/g'', c) \<in> set cs" by auto
      with g [OF settings [OF this]] show ?thesis by simp
    qed
    ultimately have "set cs = {(''/phase/f'', [(7, 1000)]), (''/phase/g'', [(7, 2000)])}" using only by blast
    with ts unbeaten [OF b] show ?thesis by auto
  qed
  have settled: "clusters_settled ''Energy'' (nt_interph (plugin_state rated_side))"
    using rated_phases_settled p(3) by (simp add: p_def)
  have two: "2 \<le> nt_tuningStep (plugin_state rated_side)" using p(1) by (simp add: p_def)
  from one_scenario_per_phase [OF s' two, where name = "''Energy''", unfolded p_def [symmetric] Let_def n p phases, OF settled [unfolded p_def [symmetric] p]]
  obtain tss where tss: "list_all2 (\<lambda>(_, ph) ts. third_step_specified inter_example_env p ''Energy'' ph ts)
      [(0 :: phase_num, rated_phase 0 1000 2 1), (1, rated_phase 1 2000 1 3)] tss"
    and pool: "csp (pool_set (tuning_world s')) = fold ScenarioPool_push (pushed_scenarios 3 tss) []" by auto
  from tss obtain a b where two_specs: "tss = [a, b]"
    and "third_step_specified inter_example_env p ''Energy'' (rated_phase 0 1000 2 1) a"
    and "third_step_specified inter_example_env p ''Energy'' (rated_phase 1 2000 1 3) b"
    by (auto simp: list_all2_Cons1)
  note specs = specified [OF this(2) label] specified [OF this(3) label]
  have "length tss = 2" by (simp add: two_specs)
  moreover have "\<forall>ts \<in> set tss. \<exists>cs. ts = entity_spec inter_example_env ''/phase'' [(7, 2000)] # map (\<lambda>(cpath, c). entity_spec inter_example_env cpath c) cs \<and>
        set cs = {(''/phase/f'', [(7, 1000)]), (''/phase/g'', [(7, 2000)])}"
    using specs unfolding two_specs by simp
  ultimately show ?thesis using s' pool by blast
qed

section \<open>A phase that belongs to no cluster\<close>

lemma step_two_specs:
  assumes "nt_tuningStep p = 2"
  shows "(\<exists>ts. phase_specs env p heap ph = ret ts) \<or> phase_specs env p heap ph = fail UB"
  using assms by (auto simp: phase_specs_def best_phase_def found_def deref_def rts_at_def check_def Let_def split: option.splits)

lemma no_cluster_for_noise:
  assumes "fst ` set (configForClusters g) = {c. 1 \<le> uint c \<and> uint c \<le> uint (num_clusters g)}" and "uint (num_clusters g) < INT_MAX"
    and "ph_clusterID ph = NOISE"
  shows "best_phase g ph = fail UB"
proof -
  have "uint (word_of_int NOISE :: 32 word) = 2 ^ 32 - 2" by (simp add: NOISE_def)
  then have "word_of_int NOISE \<notin> fst ` set (configForClusters g)" unfolding assms(1) using assms(2) by (simp add: INT_MAX_def)
  then have "sm_find (configForClusters g) (word_of_int NOISE) = None" unfolding keys_sm_find domIff by blast
  then show ?thesis by (simp add: best_phase_def found_def deref_def assms(3))
qed

text \<open>
  C10: A phase that is noise ends the second tuning step: the clusters that got an entry at the end of the first one are numbered from 1
  to the number of clusters, the label of noise becomes a large unsigned number, and the plugin follows the end
  iterator it gets for it, although the code after it is prepared for a phase without a best one.
\<close>

theorem noise_phase_is_fatal:
  assumes "nt_tuningStep (plugin_state s) = 2" and "g = nt_interph (plugin_state s)"
    and "(k, ph) \<in> set (dtaPhases g)" and "ph_clusterID ph = NOISE"
    and "fst ` set (configForClusters g) = {c. 1 \<le> uint c \<and> uint c \<le> uint (num_clusters g)}" and "uint (num_clusters g) < INT_MAX"
  shows "inter_createScenarios env s = fail UB"
proof -
  let ?p = "plugin_state s"
  let ?f = "\<lambda>(_, ph) w. cbind (phase_specs env ?p (tp_heap w) ph) (\<lambda>ts. ret (push_specs ts w))"
  have stop: "phase_specs env ?p heap ph = fail UB" for heap
    using no_cluster_for_noise [OF assms(5,6,4)] assms(2) by (simp add: phase_specs_def Let_def)
  have "cfold ?f xs w = fail UB" if "(k, ph) \<in> set xs" for xs w
    using that
  proof (induction xs arbitrary: w)
    case (Cons x xs)
    obtain k' ph' where x: "x = (k', ph')" by (cases x)
    show ?case
    proof (cases "\<exists>ts. phase_specs env ?p (tp_heap w) ph' = ret ts")
      case True
      with stop x Cons.prems have "(k, ph) \<in> set xs" by auto
      from Cons.IH [OF this] True x show ?thesis by auto
    next
      case False
      with step_two_specs [OF assms(1)] have "phase_specs env ?p (tp_heap w) ph' = fail UB" by blast
      with x show ?thesis by simp
    qed
  qed simp
  then show ?thesis using assms(1-3) by (simp add: inter_createScenarios_def Let_def)
qed

theorem noise_phase_is_fatal_witness:
  "inter_createScenarios inter_example_env (inter_example_side 2 NOISE) = fail UB"
proof (rule noise_phase_is_fatal [OF _ refl])
  show "nt_tuningStep (plugin_state (inter_example_side 2 NOISE)) = 2" by (simp add: inter_example_side_def inter_example_def)
  have g: "nt_interph (plugin_state (inter_example_side 2 NOISE)) = settled_phases NOISE" by (simp add: inter_example_side_def inter_example_def)
  show "(0, settled_phase NOISE 0 1000) \<in> set (dtaPhases (nt_interph (plugin_state (inter_example_side 2 NOISE))))"
    unfolding g by (simp add: settled_phases_def)
  show "ph_clusterID (settled_phase NOISE 0 1000) = NOISE" by (simp add: settled_phase_def)
  have "{c :: phase_num. 1 \<le> uint c \<and> uint c \<le> 1} = {1}" by (auto simp: word_uint_eq_iff)
  then show "fst ` set (configForClusters (nt_interph (plugin_state (inter_example_side 2 NOISE)))) =
      {c. 1 \<le> uint c \<and> uint c \<le> uint (num_clusters (nt_interph (plugin_state (inter_example_side 2 NOISE))))}"
    unfolding g by (simp add: settled_phases_def)
  show "uint (num_clusters (nt_interph (plugin_state (inter_example_side 2 NOISE)))) < INT_MAX"
    unfolding g by (simp add: settled_phases_def INT_MAX_def)
qed

section \<open>The path of a cluster and back\<close>

lemma slash_no_digit [simp]: "digit_value (CHR ''/'') = None"
  by code_simp

lemma drop_digits_slash:
  "dropWhile (\<lambda>d. digit_value d \<noteq> None) (t @ CHR ''/'' # ys) = dropWhile (\<lambda>d. digit_value d \<noteq> None) t @ CHR ''/'' # ys"
  by (induction t) simp_all

text \<open>The text that is removed starts at a slash and has no other, so it never goes over one.\<close>

lemma pattern_before_slash:
  assumes "length xs < 9" and "xs \<noteq> []"
  shows "take 9 (xs @ CHR ''/'' # ys) \<noteq> ''/Cluster=''"
proof
  assume a: "take 9 (xs @ CHR ''/'' # ys) = ''/Cluster=''"
  then have "(take 9 (xs @ CHR ''/'' # ys)) ! length xs = ''/Cluster='' ! length xs" by simp
  moreover have "(take 9 (xs @ CHR ''/'' # ys)) ! length xs = CHR ''/''" using assms(1) by (simp del: take_append)
  moreover have "''/Cluster='' ! n \<noteq> CHR ''/''" if "0 < n" "n < 9" for n
  proof -
    from that have "n \<in> {1, 2, 3, 4, 5, 6, 7, 8}" by auto
    then show ?thesis by auto
  qed
  ultimately show False using assms by auto
qed

lemma strip_match:
  "take 9 x = ''/Cluster='' \<Longrightarrow> drop 9 x \<noteq> [] \<Longrightarrow> digit_value (hd (drop 9 x)) \<noteq> None \<Longrightarrow>
     strip_clusters x = strip_clusters (dropWhile (\<lambda>d. digit_value d \<noteq> None) (drop 9 x))"
  by (cases x) simp_all

lemma strip_before_slash: "strip_clusters (xs @ CHR ''/'' # ys) = strip_clusters xs @ strip_clusters (CHR ''/'' # ys)"
proof (induction xs rule: strip_clusters.induct)
  case (2 c s)
  let ?t = "drop 9 (c # s)"
  show ?case
  proof (cases "take 9 (c # s) = ''/Cluster='' \<and> ?t \<noteq> [] \<and> digit_value (hd ?t) \<noteq> None")
    case True
    then have len: "9 \<le> length (c # s)" by (metis drop_all linear)
    then have eq: "take 9 ((c # s) @ CHR ''/'' # ys) = take 9 (c # s)" "drop 9 ((c # s) @ CHR ''/'' # ys) = ?t @ CHR ''/'' # ys"
      by simp_all
    have "strip_clusters ((c # s) @ CHR ''/'' # ys) = strip_clusters (dropWhile (\<lambda>d. digit_value d \<noteq> None) (?t @ CHR ''/'' # ys))"
      unfolding eq(2) [symmetric] by (rule strip_match) (use True in \<open>simp_all only: eq append_is_Nil_conv hd_append2 simp_thms\<close>)
    moreover have "strip_clusters (c # s) = strip_clusters (dropWhile (\<lambda>d. digit_value d \<noteq> None) ?t)"
      by (rule strip_match) (use True in blast)+
    ultimately show ?thesis using 2(1) [OF refl True] by (simp only: drop_digits_slash)
  next
    case False
    have "\<not> (take 9 (c # s @ CHR ''/'' # ys) = ''/Cluster='' \<and> drop 9 (c # s @ CHR ''/'' # ys) \<noteq> [] \<and>
        digit_value (hd (drop 9 (c # s @ CHR ''/'' # ys))) \<noteq> None)"
    proof (cases "length (c # s) < 9")
      case True
      from pattern_before_slash [OF this list.distinct(2)] have "take 9 (c # s @ CHR ''/'' # ys) \<noteq> ''/Cluster=''"
        by (simp only: append_Cons not_False_eq_True)
      then show ?thesis by blast
    next
      case long: False
      then have "take 9 (c # s @ CHR ''/'' # ys) = take 9 (c # s)" "drop 9 (c # s @ CHR ''/'' # ys) = ?t @ CHR ''/'' # ys"
        by (simp_all add: take_Cons' drop_Cons')
      with False show ?thesis by (cases ?t) auto
    qed
    then have "strip_clusters ((c # s) @ CHR ''/'' # ys) = c # strip_clusters (s @ CHR ''/'' # ys)"
      by (simp only: append_Cons strip_clusters.simps Let_def if_False)
    moreover have "strip_clusters (c # s) = c # strip_clusters s"
      by (simp only: strip_clusters.simps Let_def if_not_P [OF False])
    ultimately show ?thesis using 2(2) [OF refl False] by simp
  qed
qed simp

lemma strip_cluster_text:
  assumes "rest = [] \<or> hd rest = CHR ''/''"
  shows "strip_clusters (cluster_text c @ rest) = strip_clusters rest"
proof -
  obtain ds where ds: "print_int (uint c) = ds" "ds \<noteq> []" "\<forall>x \<in> set ds. digit_value x \<noteq> None"
  proof
    have "print_int (uint c) = print_nat (nat (uint c))" by (simp add: print_int_def)
    then show "print_int (uint c) \<noteq> []" "\<forall>x \<in> set (print_int (uint c)). digit_value x \<noteq> None"
      using print_nat_nonempty print_nat_digits digit_char_digit by (auto simp: digit_value_def)
  qed simp
  have "dropWhile (\<lambda>d. digit_value d \<noteq> None) (ds @ rest) = rest"
    using ds(3) assms by (cases rest) (simp_all add: dropWhile_append2)
  moreover have "take 9 (cluster_text c @ rest) = ''/Cluster=''" "drop 9 (cluster_text c @ rest) = ds @ rest"
    by (simp_all add: cluster_text_def ds(1))
  moreover have "hd (ds @ rest) \<in> set ds" using ds(2) by simp
  ultimately show ?thesis using ds(2,3) by (cases "cluster_text c @ rest") (auto simp: cluster_text_def Let_def)
qed

lemma find_text_prefix: "find_text t (t @ r) = Some 0"
proof (cases "t @ r")
  case (Cons a l)
  then show ?thesis using append_eq_conv_conj [of t r "a # l"] by simp
qed simp

text \<open>
  C11: The results of a cluster are stored under call paths with the cluster's number after the path of the root; in the third step the
  values of a runtime situation are looked up under its call path in the split tree with the number taken out again. For a call
  path that starts with that of the root and names no cluster, the first is defined and the second gives the path back.
\<close>

theorem cluster_path_roundtrip:
  assumes "cpath = root_path @ rest" and "rest = [] \<or> hd rest = CHR ''/''" and "strip_clusters cpath = cpath"
  shows "\<exists>m. rts_modified_callpath root_path c cpath = ret m \<and> m = root_path @ cluster_text c @ rest \<and> strip_clusters m = cpath"
proof -
  have "rts_modified_callpath root_path c cpath = ret (root_path @ cluster_text c @ rest)"
    by (simp add: rts_modified_callpath_def insert_text_def assms(1) find_text_prefix)
  moreover have "strip_clusters (root_path @ cluster_text c @ rest) = strip_clusters root_path @ strip_clusters (cluster_text c @ rest)"
    using strip_before_slash [of root_path "tl (cluster_text c) @ rest"] by (simp add: cluster_text_def)
  moreover have "strip_clusters (root_path @ rest) = strip_clusters root_path @ strip_clusters rest"
  proof (cases rest)
    case (Cons x xs)
    with assms(2) strip_before_slash [of root_path xs] show ?thesis by simp
  qed simp
  ultimately show ?thesis using assms(1,3) strip_cluster_text [OF assms(2)] by simp
qed

theorem cluster_path_roundtrip_witness:
  "\<exists>m. rts_modified_callpath ''/phase'' 2 ''/phase/Cluster=/f'' = ret m \<and> m = ''/phase'' @ cluster_text 2 @ ''/Cluster=/f'' \<and>
     strip_clusters m = ''/phase/Cluster=/f''"
proof (rule cluster_path_roundtrip)
  show "strip_clusters ''/phase/Cluster=/f'' = ''/phase/Cluster=/f''" by code_simp
qed simp_all

end
