(* ===== verification/InterphaseRun.thy ===== *)
theory InterphaseRun
  imports InterphaseCorrect
begin

text \<open>
  The READEX inter-phase plugin under the tuning driver, with the random search it loads: the driver's state machine,
  the plugin, the search, the pools and the call tree together.
\<close>

section \<open>Under the tuning driver\<close>

lemma no_exit_not_found [simp]: "no_exit (found m k)"
  by (simp add: found_def)

lemma no_exit_update_rts [simp]: "no_exit (update_rts p f st)"
  by (auto simp: update_rts_def intro!: calm_rules)

lemma no_exit_by_callpath [simp]: "no_exit (getRtsByCallpath st cpath p)"
proof -
  have "r \<noteq> Inl ExitFailure" if "getRtsByCallpath st cpath p = Some r" for r
  proof (rule getRtsByCallpath.raw_induct [where P = "\<lambda>st cpath p r. r \<noteq> Inl ExitFailure", OF _ that])
    fix f :: "calltree \<Rightarrow> string \<Rightarrow> rts_ptr \<Rightarrow> rts_ptr option comp" and st cpath p r
    assume IH: "\<And>st cpath p r. f st cpath p = Some r \<Longrightarrow> r \<noteq> Inl ExitFailure"
      and b: "cbind (rts_at st p) (\<lambda>n. if rn_callpathstring n = cpath then ret (Some p)
         else cfold (\<lambda>c found. case found of Some r \<Rightarrow> ret (Some r) | None \<Rightarrow> f st cpath c) (rn_children n) None) = Some r"
    have "no_exit (f st cpath c)" for c using IH [of st cpath c] by (auto simp: no_exit_def fail_def)
    then have "no_exit (cbind (rts_at st p) (\<lambda>n. if rn_callpathstring n = cpath then ret (Some p)
         else cfold (\<lambda>c found. case found of Some r \<Rightarrow> ret (Some r) | None \<Rightarrow> f st cpath c) (rn_children n) None))"
      by (intro calm_rules) simp_all
    with b show "r \<noteq> Inl ExitFailure" by (auto simp: no_exit_def fail_def)
  qed
  then show ?thesis by (auto simp: no_exit_def fail_def)
qed

lemma no_exit_path_parts [simp]: "no_exit (propagate_parameters p st)" "no_exit (setValidRts p st)" "no_exit (extract_parameter p st)"
  unfolding propagate_parameters_def setValidRts_def hasParameterChild_def extract_parameter_def Let_def
  by (intro calm_rules; simp)+

lemma no_exit_set_paths [simp]: "no_exit (setCallPaths mapped p s)"
proof -
  have "r \<noteq> Inl ExitFailure" if "setCallPaths mapped p s = Some r" for r
  proof (rule setCallPaths.raw_induct [where P = "\<lambda>mapped p s r. r \<noteq> Inl ExitFailure", OF _ that], goal_cases)
    case (1 f mapped p s r)
    have "no_exit (f mapped c s)" for c s using 1(1) [of mapped c s] by (auto simp: no_exit_def fail_def)
    then have "no_exit (cbind (rts_at (snd s) p) (\<lambda>n.
     cbind (ret (fst s @ [rn_region_name n])) (\<lambda>strs.
     cbind (ret (set_rts p (n\<lparr>rn_callpathstring := makeCallpathString strs\<rparr>) (snd s))) (\<lambda>st.
     cbind (ret (if mapped then st\<lparr>aa_rts_callpath_mapping := sm_insert p (makeCallpathString strs) (aa_rts_callpath_mapping st)\<rparr> else st)) (\<lambda>st.
     cbind (propagate_parameters p st) (\<lambda>st.
     cbind (ret (if rn_children n = [] then butlast strs else strs)) (\<lambda>strs.
     cbind (setValidRts p st) (\<lambda>st.
     cbind (cfold (\<lambda>c s. f mapped c s) (rn_children n) (strs, st)) (\<lambda>s.
       ret (if rn_children n = [] then fst s else butlast (fst s), snd s))))))))))"
      by (intro calm_rules) simp_all
    with 1(2) show ?case by (auto simp: no_exit_def fail_def)
  qed
  then show ?thesis by (auto simp: no_exit_def fail_def)
qed

lemma no_exit_copyData [simp]: "no_exit (copyData node clone_n parent c st)"
  unfolding copyData_def by (intro calm_rules) simp_all

lemma no_exit_cloneTree [simp]: "no_exit (cloneTree parent c node st)"
proof -
  have "r \<noteq> Inl ExitFailure" if "cloneTree parent c node st = Some r" for r
  proof (rule cloneTree.raw_induct [where P = "\<lambda>parent c node st r. r \<noteq> Inl ExitFailure", OF _ that], goal_cases)
    case (1 f parent c node st r)
    have "no_exit (f q c child st)" for q child st using 1(1) [of q c child st] by (auto simp: no_exit_def fail_def)
    then have "no_exit (let (clone_n, st) = alloc_rts blank_rts st
      in cbind (copyData node clone_n parent c st) (\<lambda>st.
         cbind (rts_at st node) (\<lambda>n. cfold (\<lambda>child st. f clone_n c child st) (rn_children n) st)))"
      unfolding Let_def by (intro calm_rules) simp_all
    with 1(2) show ?case by (auto simp: no_exit_def fail_def)
  qed
  then show ?thesis by (auto simp: no_exit_def fail_def)
qed

lemma no_exit_modifyTree [simp]: "no_exit (modifyTree node n st)"
  unfolding modifyTree_def modifyNode_def modify_body_def Let_def by (intro calm_rules; simp)+

section \<open>The plugin does not exit\<close>

lemma no_exit_inter_search_do: "(\<And>a. no_exit (f a)) \<Longrightarrow> no_exit (inter_search_do f p)"
  unfolding inter_search_do_def by (intro calm_rules) simp_all

lemma no_exit_inter_parameters [simp]: "no_exit (inter_parameters env x)"
  unfolding inter_parameters_def Let_def by (intro calm_rules) simp_all

lemma no_exit_for_rtss: "(\<And>q x. no_exit (f q x)) \<Longrightarrow> no_exit (for_rtss st regs f x)"
  unfolding for_rtss_def by (intro calm_rules) simp_all

lemma no_exit_samples [simp]: "no_exit (read_samples env p)"
  unfolding read_samples_def by (intro calm_rules no_exit_inter_search_do) simp_all

lemma no_exit_phase_specs [simp]: "no_exit (phase_specs env p heap ph)"
  unfolding phase_specs_def best_phase_def rts_config_def Let_def by (intro calm_rules no_exit_for_rtss; simp)+

lemma no_exit_text_number [simp]: "no_exit (std_stod t)"
  by (auto simp: std_stod_def Let_def split: prod.split dbl.split)

lemma no_exit_measured [simp]: "no_exit (getMeasurements props iter)"
  unfolding getMeasurements_def measure_property_def entry_value_def dbl_to_unsigned_def Let_def
  by (intro calm_rules) simp_all

lemma no_exit_props [simp]: "no_exit (props_values objs props)"
  unfolding props_values_def by (intro calm_rules; simp del: objective_props.simps)+

lemma no_exit_insert_phase [simp]: "no_exit (insertPhaseData env i x)"
  unfolding insertPhaseData_def insert_new_phase_def update_phase_def insertRtsData_def new_phase_rts_def update_phase_rts_def
    getTuningParameters_def Let_def
  by (intro calm_rules no_exit_for_rtss; simp split: list.split)+

lemma no_exit_features [simp]: "no_exit (calcComputeIntensity g)" "no_exit (normalizeIdentifiers g)" "no_exit (normalizeObjectives g)"
proof -
  have mapped: "no_exit (cmap_values f xs)" if "\<And>x. no_exit (f x)" for f :: "phase_info \<Rightarrow> phase_info comp" and xs :: phases
    using that by (induction xs) (auto intro!: calm_rules)
  show "no_exit (calcComputeIntensity g)" "no_exit (normalizeIdentifiers g)" "no_exit (normalizeObjectives g)"
    unfolding calcComputeIntensity_def compute_intensity_def normalizeIdentifiers_def feature_ranges_def normalize_features_def raw_features_def
      normalizeObjectives_def normalize_phase_def normalize_rts_def
    by (intro calm_rules mapped; simp)+
qed

lemma no_exit_clusters [simp]: "no_exit (interph_cluster std_sort g)" "no_exit (exportClusters g)"
  unfolding interph_cluster_def calcDistanceMatrix_def distances_from_def findKNearestNeighbors_def clusterPhases_def calculateEps_def
    cluster_phase_def expandCluster_def expand_body_def visit_next_def join_cluster_def exportClusters_def generateFile_def Let_def
  by (intro calm_rules; simp add: sort_results_def no_exit_check)+

lemma no_exit_best [simp]: "no_exit (computeBestConfigForCluster env objs g)"
  unfolding computeBestConfigForCluster_def best_body_def note_phase_def note_rts_def Let_def by (intro calm_rules; simp)+

lemma no_exit_list: "no_exit a \<Longrightarrow> (\<And>x xs. no_exit (f x xs)) \<Longrightarrow> no_exit (case v of [] \<Rightarrow> a | x # xs \<Rightarrow> f x xs)"
  by (cases v) simp_all

lemma no_exit_savings [simp]: "no_exit (savings static best st)"
  unfolding savings_def add_saving_def result_value_def Let_def by (intro calm_rules no_exit_list; simp)+

lemma no_exit_path_result [simp]: "no_exit (update_path cpath f st)" "no_exit (cluster_path st c)" "no_exit (rts_modified_callpath root_path c cpath)"
  unfolding update_path_def cluster_path_def rts_modified_callpath_def insert_text_def by (intro calm_rules; simp add: no_exit_check)+

lemma no_exit_tree_results [simp]: "no_exit (insertTuningResultForNode env objs g st)" "no_exit (insertResultForNode objs g st)"
  unfolding insertTuningResultForNode_def insertResultForNode_def node_result_def verified_result_def rts_node_result_def widen_ranges_def
    displayTrueSavings_def Let_def
  by (intro calm_rules; simp)+

lemma no_exit_export [simp]: "no_exit (exportData heap tps objs g)"
  unfolding exportData_def export_phase_def by (intro calm_rules; simp del: cfold.simps)+

lemma no_exit_inter_finished [simp]: "no_exit (inter_tuningFinished env s)"
  unfolding inter_tuningFinished_def choose_configs_def results_into_tree_def displaySavings_def file_scenarios_def file_body_def file_scenario_def Let_def
  by (intro calm_rules; simp)+

section \<open>The random search behind the interface\<close>

definition calm_draws :: "draws \<Rightarrow> bool" where
  "calm_draws draw \<longleftrightarrow> (\<forall>seed n k. no_exit (draw seed n k))"

lemma no_exit_spec [simp]: "no_exit (TuningSpecification_rtss v rs)" "no_exit (TuningSpecification_regions v gs)"
proof -
  have "no_exit (rts_paths rs)" "no_exit (region_ids gs)"
    by (induction rs rule: rts_paths.induct; induction gs rule: region_ids.induct; auto intro!: no_exit_cbind)+
  then show "no_exit (TuningSpecification_rtss v rs)" "no_exit (TuningSpecification_regions v gs)"
    by (auto simp: TuningSpecification_rtss_def TuningSpecification_regions_def intro!: no_exit_cbind)
qed

lemma calm_random:
  assumes "calm_draws draw"
  shows "calm_search (random_alg build draw now)"
proof -
  have model: "no_exit (sample_model build draw heap m)" for heap m
    using assms unfolding sample_model_def sample_parameter_def sample_value_def calm_draws_def by (intro calm_rules; simp)+
  have models: "no_exit (sample_models build draw heap ms a)" for heap ms a
    by (induction ms arbitrary: a) (auto intro!: calm_rules model)
  have "no_exit (rs_createScenarios build draw a w)" for a w
    unfolding rs_createScenarios_def sampling_body_def Let_def by (intro calm_rules models; simp)+
  moreover have "no_exit (rs_searchFinished a w)" for a w
    unfolding rs_searchFinished_def rs_evaluate_def by (intro calm_rules no_exit_list; simp)+
  moreover have "no_exit (rs_getWorst a)" for a
    unfolding rs_getWorst_def by (intro calm_rules; simp add: no_exit_check)+
  ultimately show ?thesis by (simp add: calm_search_def random_alg_def)
qed

lemma one_shot_random: "one_shot (random_alg build draw now)"
  by (auto simp: one_shot_def random_alg_def rs_searchFinished_def cbind_eq_ret)

lemma calm_interphase:
  assumes "calm_surroundings out" and plug: "plug out = interphase_plugin env" and env: "calm_intra (ne_base env)"
  shows "calm out"
proof -
  have sa: "no_exit (sa_createScenarios (ie_search (ne_base env)) a w)" "no_exit (sa_searchFinished (ie_search (ne_base env)) a w)"
    "no_exit (sa_initialize (ie_search (ne_base env)) a)" "no_exit (sa_addSearchSpace (ie_search (ne_base env)) ss a)"
    "no_exit (ie_load (ne_base env) n)" "no_exit (ie_generate (ne_base env) st heap)" for a w ss n st heap
    using env by (simp_all add: calm_intra_def calm_search_def)
  have "no_exit (inter_initialize env s)" for s
    unfolding inter_initialize_def Let_def by (intro calm_rules no_exit_inter_search_do) (simp_all add: sa)
  moreover have "no_exit (inter_startTuningStep env s)" for s
    unfolding inter_startTuningStep_def Let_def by (intro calm_rules no_exit_inter_search_do) (simp_all add: sa)
  moreover have "no_exit (inter_analysisRequired s)" "no_exit (inter_restartRequired q s)" "no_exit (inter_finishTuningStep s)"
    "no_exit (inter_finalize s)" for s :: "'a inter side" and q
    by (simp_all add: inter_analysisRequired_def inter_restartRequired_def inter_finishTuningStep_def inter_finalize_def Let_def)
  moreover have "no_exit (inter_createScenarios env s)" "no_exit (inter_searchFinished env s)" for s
    unfolding inter_createScenarios_def inter_searchFinished_def Let_def by (intro calm_rules; simp add: sa)+
  moreover have "no_exit (inter_prepareScenarios s)" for s :: "'a inter side"
    unfolding inter_prepareScenarios_def Let_def by (rule no_exit_cbind, rule no_exit_move) (auto intro!: no_exit_pair)
  moreover have "no_exit (inter_defineExperiment n x)" for n and x :: "bool \<times> strategy_request option \<times> 'a inter side"
    unfolding inter_defineExperiment_def Let_def inter_request_def
    by (intro calm_rules no_exit_for_rtss; simp add: ScenarioPool_pop_def addPropertyID_def PropertyRequest_addRts_def split: list.split)
  moreover have "no_exit (inter_getAdvice env s)" for s
    unfolding inter_getAdvice_def by (intro calm_rules) (simp_all add: sa)
  ultimately show ?thesis
    using assms(1) unfolding calm_def plug calm_surroundings_def by (simp add: interphase_plugin_def)
qed

text \<open>The plugin keeps the driver's contract: it never asks for an analysis, and the random search is done when it is asked.\<close>

definition with_random :: "build_env \<Rightarrow> draws \<Rightarrow> int \<Rightarrow> random_search inter_env \<Rightarrow> random_search inter_env" where
  "with_random build draw now env = env\<lparr>ne_base := (ne_base env)\<lparr>ie_search := random_alg build draw now\<rparr>\<rparr>"

lemma samples_finished_at_once:
  assumes "one_shot (ie_search (ne_base env))" and "inter_searchFinished env s = ret (b, s')"
  shows b
proof -
  have "b'" if "sa_searchFinished (ie_search (ne_base env)) x w = ret (b', r)" for x w b' r
    using assms(1) that unfolding one_shot_def by (cases r) blast
  with assms(2) show ?thesis by (auto simp: inter_searchFinished_def Let_def cbind_eq_ret)
qed

interpretation interphase: tuning_plugin "interphase_plugin (with_random build draw now env)" "\<lambda>_. True" "\<lambda>_. True"
  for build draw now env
  by unfold_locales
    (auto simp: interphase_plugin_def inter_analysisRequired_def with_random_def one_shot_random
      dest: samples_finished_at_once [rotated])

text \<open>
  The frontend run with the READEX inter-phase plugin and its random search follows the autotune state machine:
  whatever the agents, the application, the clock, the configuration, the random numbers and the measurements are, as long as nothing
  outside ends the program, no event arises that the current state has no transition for, and if the run returns the machine is in its
  final state and the plugin is marked as executed.
\<close>

theorem interphase_run_follows_machine:
  assumes "calm_surroundings out" and "plug out = interphase_plugin env" and "ie_search (ne_base env) = random_alg build draw now"
    and "calm_draws draw" and "\<forall>n. no_exit (ie_load (ne_base env) n)" and "\<forall>st heap. no_exit (ie_generate (ne_base env) st heap)"
  shows "run_tuning_plugin out opts d \<noteq> fail ExitFailure \<and>
    (\<forall>d'. run_tuning_plugin out opts d = ret d' \<longrightarrow> msm d' = FinalState \<and> tuning_plugin_executed d')"
proof -
  have env: "with_random build draw now env = env" using assms(3) by (simp add: with_random_def)
  have "calm_intra (ne_base env)" using assms(3-6) by (simp add: calm_intra_def calm_random)
  from calm_interphase [OF assms(1,2) this] have calm: "calm out" .
  have plug: "plug out = interphase_plugin (with_random build draw now env)" using assms(2) env by simp
  from interphase.driver_follows_machine [OF calm plug] show ?thesis unfolding post_def by blast
qed

end
