(* ===== verification/ExperimentFlow.thy ===== *)
theory ExperimentFlow
  imports Driver
begin

text \<open>
  What the frontend promises about the flow of scenarios and properties, and about the order of events:
  a strategy request takes over exactly the scenarios of the experiment pool, the properties of an
  experiment are filed once each where they belong, and every sequence of events the autotune state
  machine accepts has the shape of complete tuning and experiment cycles.
\<close>

section \<open>The strategy request\<close>

text \<open>The scenarios of a pool, in the order they are popped.\<close>

definition pool_scenarios :: "scenario_pool \<Rightarrow> scenario list" where
  "pool_scenarios p = map (\<lambda>(k, v). the v) p"

lemma loop_experiment:
  assumes "pool_ok e"
  shows "loop experiment_body (scenarios, e, f) =
    ret (scenarios @ pool_scenarios e, [], fold ScenarioPool_push (pool_scenarios e) f)"
  using assms
proof (induction "length e" arbitrary: e scenarios f)
  case 0
  then have e: "e = []" by simp
  have "experiment_body (scenarios, e, f) = ret (False, (scenarios, e, f))"
    by (simp add: experiment_body_def ScenarioPool_empty_def e)
  then show ?case by (subst loop_unfold) (simp add: e pool_scenarios_def)
next
  case (Suc n)
  then have "e \<noteq> []" by auto
  obtain s rest where e: "e = (sc_key s, Some s) # rest"
    and pop: "ScenarioPool_pop e = ret (Some s, rest)" and ok: "pool_ok rest" using pop_ret [OF Suc.prems \<open>e \<noteq> []\<close>] .
  have "n = length rest" using Suc.hyps(2) e by simp
  note IH = Suc.hyps(1) [OF this ok, of "scenarios @ [s]" "ScenarioPool_push s f"]
  have "experiment_body (scenarios, e, f) = ret (True, (scenarios @ [s], rest, ScenarioPool_push s f))"
    using \<open>e \<noteq> []\<close> by (simp add: experiment_body_def ScenarioPool_empty_def pop)
  then have "loop experiment_body (scenarios, e, f) = loop experiment_body (scenarios @ [s], rest, ScenarioPool_push s f)"
    by (subst loop_unfold) simp
  then show ?case unfolding IH by (simp add: e pool_scenarios_def)
qed

lemma find_fold_push:
  assumes "pool_ok e"
  shows "sm_find (fold ScenarioPool_push (pool_scenarios e) f) k =
    (case sm_find f k of None \<Rightarrow> sm_find e k | Some v \<Rightarrow> Some v)"
  using assms
proof (induction e arbitrary: f)
  case (Cons kv e)
  obtain s where kv: "kv = (sc_key s, Some s)" using pool_ok_Cons Cons.prems by (cases kv) blast
  have "pool_ok e" using Cons.prems pool_ok_tail by (cases kv) blast
  from Cons.IH [OF this, of "ScenarioPool_push s f"] show ?case
    by (auto simp: kv pool_scenarios_def ScenarioPool_push_def sm_find_Cons split: option.splits)
qed (simp add: pool_scenarios_def split: option.split)

text \<open>
  Creating the strategy request moves every scenario of the experiment pool and loses none: it
  returns, the request's scenarios are those of the pool in the order of their identifiers, the pool is
  empty afterwards, the finished pool has gained them (an identifier already there keeps its scenario),
  and nothing else in the frontend changes.
\<close>

theorem request_takes_experiment:
  assumes "pool_ok (esp (fe_pools d))"
  shows "\<exists>f. createStrategyRequest d =
      ret (new_StrategyRequest (TUNE (pool_scenarios (esp (fe_pools d))))
             \<lparr>strategy_name = ''Autotune'', pedantic = False, delay_phases = 0, delay_seconds = 0, analysis_duration = 1\<rparr>,
           set_pools ((fe_pools d)\<lparr>esp := [], fsp := f\<rparr>) d) \<and>
    (\<forall>k. sm_find f k = (case sm_find (fsp (fe_pools d)) k of None \<Rightarrow> sm_find (esp (fe_pools d)) k | Some v \<Rightarrow> Some v))"
  using find_fold_push [OF assms, of "fsp (fe_pools d)"]
  by (simp add: createStrategyRequest_def loop_experiment [OF assms]) blast

theorem request_takes_experiment_witness:
  "\<exists>f. createStrategyRequest (set_pools (new_ScenarioPoolSet\<lparr>esp := example_pool\<rparr>) (fresh_frontend idle_side ())) =
      ret (new_StrategyRequest (TUNE (pool_scenarios example_pool))
             \<lparr>strategy_name = ''Autotune'', pedantic = False, delay_phases = 0, delay_seconds = 0, analysis_duration = 1\<rparr>,
           set_pools (new_ScenarioPoolSet\<lparr>fsp := f\<rparr>) (fresh_frontend idle_side ()))"
proof -
  let ?d = "set_pools (new_ScenarioPoolSet\<lparr>esp := example_pool\<rparr>) (fresh_frontend idle_side ())"
  have d: "fe_pools ?d = new_ScenarioPoolSet\<lparr>esp := example_pool\<rparr>" by (simp add: set_pools_def fe_pools_def)
  have "pool_ok (esp (fe_pools ?d))" unfolding d by (simp add: example_pool_def)
  from request_takes_experiment [OF this] obtain f where
    "createStrategyRequest ?d = ret (new_StrategyRequest (TUNE (pool_scenarios (esp (fe_pools ?d))))
       \<lparr>strategy_name = ''Autotune'', pedantic = False, delay_phases = 0, delay_seconds = 0, analysis_duration = 1\<rparr>,
       set_pools ((fe_pools ?d)\<lparr>esp := [], fsp := f\<rparr>) ?d)" by blast
  then show ?thesis unfolding d by (intro exI [of _ f]) (simp add: set_pools_def new_ScenarioPoolSet_def)
qed

section \<open>Filing the properties of an experiment\<close>

definition is_tuning :: "meta_property \<Rightarrow> bool" where
  "is_tuning mp \<longleftrightarrow> purpose mp = PSC_PROPERTY_PURPOSE_TUNING"

definition scenario_results :: "scenario_results_pool \<Rightarrow> int \<Rightarrow> meta_property list" where
  "scenario_results p i = (case sm_find (results_per_scenario_id p) i of None \<Rightarrow> [] | Some r \<Rightarrow> r)"

lemma srp_push_measured:
  assumes "\<not> srp_locked p" and "measured mp"
  shows "\<exists>q. srp_push mp step p = (ret (), q) \<and> \<not> srp_locked q \<and>
    (\<forall>i. scenario_results q i = scenario_results p i @ (if i = scenario_of mp then [mp] else []))"
proof -
  obtain t where t: "sm_find (addInfo mp) ''ScenarioID'' = Some t" "c_atoi t = Some (Inr (scenario_of mp))"
    using assms(2) by (auto simp: measured_def ret_def split: option.splits)
  then show ?thesis using assms(1)
    by (cases "sm_find (results_per_scenario_id p) (scenario_of mp)")
      (simp_all add: srp_push_def Let_def split_beta scenario_results_def)
qed

lemma push_experiment_results:
  "experiment_results (pushExperimentProperty mp n a) k = experiment_results a k @ (if k = n then [mp] else [])"
  by (simp add: pushExperimentProperty_def experiment_results_def split_beta split: option.split)

lemma store_property_ret:
  assumes "\<not> srp_locked (srp ps)" and "is_tuning mp \<Longrightarrow> measured mp"
  shows "\<exists>qs. store_property step n mp ps = ret qs \<and> \<not> srp_locked (srp qs) \<and>
    (\<forall>i. scenario_results (srp qs) i = scenario_results (srp ps) i @ (if is_tuning mp \<and> scenario_of mp = i then [mp] else [])) \<and>
    (\<forall>k. experiment_results (arp qs) k = experiment_results (arp ps) k @ (if \<not> is_tuning mp \<and> k = n then [mp] else [])) \<and>
    csp qs = csp ps \<and> psp qs = psp ps \<and> esp qs = esp ps \<and> fsp qs = fsp ps"
proof (cases "is_tuning mp")
  case True
  from srp_push_measured [OF assms(1) assms(2) [OF True], of step] obtain q where
    q: "srp_push mp step (srp ps) = (ret (), q)" "\<not> srp_locked q"
    "\<forall>i. scenario_results q i = scenario_results (srp ps) i @ (if i = scenario_of mp then [mp] else [])" by blast
  with True show ?thesis
    by (intro exI [of _ "ps\<lparr>srp := q\<rparr>"]) (auto simp: store_property_def is_tuning_def)
next
  case False
  with assms(1) show ?thesis
    by (intro exI [of _ "ps\<lparr>arp := pushExperimentProperty mp n (arp ps)\<rparr>"])
      (auto simp: store_property_def is_tuning_def push_experiment_results)
qed

lemma store_properties_ret:
  assumes "\<not> srp_locked (srp ps)" and "\<forall>mp \<in> set mps. is_tuning mp \<longrightarrow> measured mp"
  shows "\<exists>qs. cfold (store_property step n) mps ps = ret qs \<and> \<not> srp_locked (srp qs) \<and>
    (\<forall>i. scenario_results (srp qs) i = scenario_results (srp ps) i @ filter (\<lambda>mp. is_tuning mp \<and> scenario_of mp = i) mps) \<and>
    (\<forall>k. experiment_results (arp qs) k = experiment_results (arp ps) k @ (if k = n then filter (\<lambda>mp. \<not> is_tuning mp) mps else [])) \<and>
    csp qs = csp ps \<and> psp qs = psp ps \<and> esp qs = esp ps \<and> fsp qs = fsp ps"
  using assms
proof (induction mps arbitrary: ps)
  case (Cons mp mps)
  from store_property_ret [of ps mp step n] Cons.prems obtain ps1 where
    one: "store_property step n mp ps = ret ps1" "\<not> srp_locked (srp ps1)"
    "\<forall>i. scenario_results (srp ps1) i = scenario_results (srp ps) i @ (if is_tuning mp \<and> scenario_of mp = i then [mp] else [])"
    "\<forall>k. experiment_results (arp ps1) k = experiment_results (arp ps) k @ (if \<not> is_tuning mp \<and> k = n then [mp] else [])"
    "csp ps1 = csp ps \<and> psp ps1 = psp ps \<and> esp ps1 = esp ps \<and> fsp ps1 = fsp ps" by auto
  from Cons.IH [OF one(2)] Cons.prems(2) obtain qs where
    rest: "cfold (store_property step n) mps ps1 = ret qs" "\<not> srp_locked (srp qs)"
    "\<forall>i. scenario_results (srp qs) i = scenario_results (srp ps1) i @ filter (\<lambda>mp. is_tuning mp \<and> scenario_of mp = i) mps"
    "\<forall>k. experiment_results (arp qs) k = experiment_results (arp ps1) k @ (if k = n then filter (\<lambda>mp. \<not> is_tuning mp) mps else [])"
    "csp qs = csp ps1 \<and> psp qs = psp ps1 \<and> esp qs = esp ps1 \<and> fsp qs = fsp ps1" by auto
  then show ?case using one by (intro exI [of _ qs]) auto
qed simp

text \<open>
  C25: The properties that arrived since the last time are filed exactly once and where they belong: when
  the results pool is not blocked and every tuning property names its scenario, draining returns, every
  scenario's results gain exactly its tuning properties and the experiment's results exactly the others,
  in the order of arrival, the scenario pools stay as they are, and a second draining files nothing.
\<close>

theorem drain_files_once:
  assumes "\<not> srp_locked (srp (fe_pools d))"
    and "\<forall>mp \<in> set (drop (new_properties_index d) (metaproperties d)). is_tuning mp \<longrightarrow> measured mp"
  shows "\<exists>d'. drain_experiment step n d = ret d' \<and>
    (let new = drop (new_properties_index d) (metaproperties d); old = fe_pools d; now = fe_pools d'
     in (\<forall>i. scenario_results (srp now) i = scenario_results (srp old) i @ filter (\<lambda>mp. is_tuning mp \<and> scenario_of mp = i) new) \<and>
        (\<forall>k. experiment_results (arp now) k = experiment_results (arp old) k @ (if k = n then filter (\<lambda>mp. \<not> is_tuning mp) new else [])) \<and>
        esp now = esp old \<and> fsp now = fsp old) \<and>
    drain_experiment step n d' = ret d'"
proof -
  from store_properties_ret [OF assms, of step n] obtain qs where
    q: "cfold (store_property step n) (drop (new_properties_index d) (metaproperties d)) (fe_pools d) = ret qs"
    and facts: "(\<forall>i. scenario_results (srp qs) i = scenario_results (srp (fe_pools d)) i @
        filter (\<lambda>mp. is_tuning mp \<and> scenario_of mp = i) (drop (new_properties_index d) (metaproperties d))) \<and>
      (\<forall>k. experiment_results (arp qs) k = experiment_results (arp (fe_pools d)) k @
        (if k = n then filter (\<lambda>mp. \<not> is_tuning mp) (drop (new_properties_index d) (metaproperties d)) else [])) \<and>
      esp qs = esp (fe_pools d) \<and> fsp qs = fsp (fe_pools d)" by blast
  let ?d = "(set_pools qs d)\<lparr>new_properties_index := max (new_properties_index d) (length (metaproperties d))\<rparr>"
  have pools: "fe_pools ?d = qs" by (simp add: set_pools_def fe_pools_def)
  have "drain_experiment step n d = ret ?d" using q by (simp add: drain_experiment_def)
  moreover have "drain_experiment step n ?d = ret ?d"
    unfolding drain_experiment_def pools by (simp add: set_pools_def)
  ultimately show ?thesis using facts by (intro exI [of _ ?d]) (simp add: pools)
qed

definition tuning_property :: meta_property where
  "tuning_property = addExtraInfo ''ScenarioID'' ''7'' ((new_MetaProperty 0)\<lparr>purpose := PSC_PROPERTY_PURPOSE_TUNING\<rparr>)"

theorem drain_files_once_witness:
  "\<exists>d. drain_experiment 1 2 ((fresh_frontend idle_side ())\<lparr>metaproperties := [tuning_property, new_MetaProperty 0]\<rparr>) = ret d \<and>
     scenario_results (srp (fe_pools d)) 7 = [tuning_property] \<and> drain_experiment 1 2 d = ret d"
proof -
  let ?d = "(fresh_frontend idle_side ())\<lparr>metaproperties := [tuning_property, new_MetaProperty 0]\<rparr>"
  have free: "\<not> srp_locked (srp (fe_pools ?d))" and none: "scenario_results (srp (fe_pools ?d)) 7 = []" by code_simp+
  have kinds: "is_tuning tuning_property" "\<not> is_tuning (new_MetaProperty 0)" "scenario_of tuning_property = 7"
    and named: "measured tuning_property" by code_simp+
  have new: "drop (new_properties_index ?d) (metaproperties ?d) = [tuning_property, new_MetaProperty 0]"
    by (simp add: fresh_frontend_def)
  have "\<forall>mp \<in> set (drop (new_properties_index ?d) (metaproperties ?d)). is_tuning mp \<longrightarrow> measured mp"
    unfolding new using kinds named by simp
  from drain_files_once [OF free this, of 1 2] show ?thesis unfolding new Let_def by (auto simp: none kinds)
qed

section \<open>The order of events\<close>

text \<open>
  The machine as a step relation over its rows, and the sequences of events it accepts. What the frontend
  processes is a sequence of this relation: an event is a step of it or ends the program.
\<close>

inductive machine_step :: "autotune_state \<Rightarrow> autotune_event \<Rightarrow> autotune_state \<Rightarrow> bool" where
  row: "(s, e, t) \<in> set transition_rows \<Longrightarrow> machine_step s e t"

inductive machine_run :: "autotune_state \<Rightarrow> autotune_event list \<Rightarrow> autotune_state \<Rightarrow> bool" for s where
  idle: "machine_run s [] s"
| event: "machine_run s es t \<Longrightarrow> machine_step t e u \<Longrightarrow> machine_run s (es @ [e]) u"

inductive_simps machine_step_iff: "machine_step s e t"
inductive_cases machine_run_snoc: "machine_run s (es @ [e]) t"

lemma transition_table_iff: "transition_table s e = Some t \<longleftrightarrow> machine_step s e t"
  unfolding machine_step_iff by (cases s; cases e) (auto simp: transition_simps)

lemma process_event_step:
  assumes "process_event ev action d = ret d'"
  shows "machine_step (msm d) ev (msm d')"
proof -
  from assms obtain t d1 where "transition_table (msm d) ev = Some t" "action d = ret d1" "d' = d1\<lparr>msm := t\<rparr>"
    unfolding process_event_def
    by (cases "action d" rule: comp_cases) (auto simp: ret_def fail_def cbind_def split: option.splits)
  then show ?thesis by (simp add: transition_table_iff)
qed

text \<open>The events of one tuning step between its first and its last.\<close>

definition inner_events :: "autotune_event set" where
  "inner_events = {perform_analysis, create_scenarios, prepare_scenarios, define_experiment, consider_restart, run_phase_experiments}"

definition inner_ok :: "autotune_event list \<Rightarrow> bool" where
  "inner_ok es \<longleftrightarrow> set es \<subseteq> inner_events \<and> perform_analysis \<notin> set (tl es) \<and>
     count_list es define_experiment = count_list es consider_restart \<and>
     count_list es consider_restart \<le> count_list es run_phase_experiments"

inductive tuning_cycle :: "autotune_event list \<Rightarrow> bool" where
  "inner_ok es \<Longrightarrow> tuning_cycle (start_tuning_step # es @ [finish_tuning_step])"

inductive tuning_cycles :: "autotune_event list \<Rightarrow> bool" where
  none: "tuning_cycles []"
| more: "tuning_cycles es \<Longrightarrow> tuning_cycle c \<Longrightarrow> tuning_cycles (es @ c)"

text \<open>How far inside a tuning step the machine is after the events of it so far.\<close>

definition step_so_far :: "autotune_event list \<Rightarrow> autotune_state \<Rightarrow> bool" where
  "step_so_far es t \<longleftrightarrow> set es \<subseteq> inner_events \<and> perform_analysis \<notin> set (tl es) \<and>
     (es = [] \<longleftrightarrow> t = StartingTuningStep) \<and>
     count_list es define_experiment = count_list es consider_restart + (if t = DefiningExperiments then 1 else 0) \<and>
     count_list es consider_restart \<le> count_list es run_phase_experiments + (if t = ConsideringApplicationRestart then 1 else 0)"

definition run_so_far :: "autotune_event list \<Rightarrow> autotune_state \<Rightarrow> bool" where
  "run_so_far es t \<longleftrightarrow> (case t of
       InitialState \<Rightarrow> es = []
     | InitializingPlugin \<Rightarrow> es = [initialize_plugin]
     | FinishingTuningStep \<Rightarrow> (\<exists>cs. es = initialize_plugin # cs \<and> tuning_cycles cs \<and> cs \<noteq> [])
     | CreatingTuningAdvice \<Rightarrow> (\<exists>cs. es = initialize_plugin # cs @ [create_tuning_advice] \<and> tuning_cycles cs \<and> cs \<noteq> [])
     | FinalState \<Rightarrow> (\<exists>cs. es = initialize_plugin # cs @ [create_tuning_advice, finalize_autotuning] \<and> tuning_cycles cs \<and> cs \<noteq> [])
     | _ \<Rightarrow> (\<exists>cs mid. es = initialize_plugin # cs @ start_tuning_step # mid \<and> tuning_cycles cs \<and> step_so_far mid t))"

lemma step_so_far_start: "step_so_far [] StartingTuningStep"
  by (simp add: step_so_far_def)

lemma step_so_far_snoc:
  assumes "step_so_far es t" "machine_step t e u" "e \<in> inner_events"
  shows "step_so_far (es @ [e]) u"
  using assms unfolding machine_step_iff transition_rows_def
  by (cases es) (auto simp: step_so_far_def inner_events_def)

lemma step_so_far_finish:
  assumes "step_so_far es t" "machine_step t finish_tuning_step u"
  shows "inner_ok es" and "u = FinishingTuningStep"
  using assms unfolding machine_step_iff transition_rows_def
  by (auto simp: step_so_far_def inner_ok_def)

lemma run_so_far_step:
  assumes "run_so_far es t" and "machine_step t e u"
  shows "run_so_far (es @ [e]) u"
proof -
  have inside: ?thesis
    if "run_so_far es t = (\<exists>cs mid. es = initialize_plugin # cs @ start_tuning_step # mid \<and> tuning_cycles cs \<and> step_so_far mid t)"
      "e \<in> inner_events" "\<And>es. run_so_far es u = (\<exists>cs mid. es = initialize_plugin # cs @ start_tuning_step # mid \<and> tuning_cycles cs \<and> step_so_far mid u)"
    using that assms step_so_far_snoc [OF _ assms(2)] by fastforce
  have close: "run_so_far (es @ [finish_tuning_step]) FinishingTuningStep"
    if "run_so_far es t = (\<exists>cs mid. es = initialize_plugin # cs @ start_tuning_step # mid \<and> tuning_cycles cs \<and> step_so_far mid t)"
      "machine_step t finish_tuning_step FinishingTuningStep"
  proof -
    from that(1) assms(1) obtain cs mid where *: "es = initialize_plugin # cs @ start_tuning_step # mid" "tuning_cycles cs" "step_so_far mid t" by blast
    from step_so_far_finish(1) [OF *(3) that(2)] have "tuning_cycles (cs @ start_tuning_step # mid @ [finish_tuning_step])"
      using tuning_cycles.more [OF *(2) tuning_cycle.intros] by blast
    then show ?thesis by (simp add: run_so_far_def *(1))
  qed
  have opens: "run_so_far (initialize_plugin # cs @ [start_tuning_step]) StartingTuningStep" if "tuning_cycles cs" for cs
    using that step_so_far_start by (auto simp: run_so_far_def)
  show ?thesis
  proof (cases "u = StartingTuningStep")
    case True
    then have "\<exists>cs. es = initialize_plugin # cs \<and> tuning_cycles cs" "e = start_tuning_step"
      using assms tuning_cycles.none unfolding machine_step_iff transition_rows_def by (auto simp: run_so_far_def)
    then show ?thesis using opens True by auto
  next
    case False
    then show ?thesis using assms inside close unfolding machine_step_iff transition_rows_def
      by (auto simp: run_so_far_def inner_events_def)
  qed
qed

lemma run_so_far: "machine_run InitialState es t \<Longrightarrow> run_so_far es t"
  by (induction rule: machine_run.induct) (auto simp: run_so_far_def [of "[]"] intro: run_so_far_step)

text \<open>
  C24: Every sequence of events the autotune state machine accepts up to its final state is: the plugin is
  initialised, one or more complete tuning steps, the advice, the finalisation. In each tuning step an
  analysis can only be its first event, every defined experiment is followed by one restart decision, and
  there is at least one experiment run per restart decision.
\<close>

theorem accepted_events_are_cycles:
  assumes "machine_run InitialState es FinalState"
  shows "\<exists>cs. cs \<noteq> [] \<and> tuning_cycles cs \<and> es = initialize_plugin # cs @ [create_tuning_advice, finalize_autotuning]"
  using run_so_far [OF assms] by (auto simp: run_so_far_def)

text \<open>The events of a run with one tuning step and one experiment.\<close>

definition one_experiment :: "autotune_event list" where
  "one_experiment = [initialize_plugin, start_tuning_step, create_scenarios, prepare_scenarios, define_experiment,
     consider_restart, run_phase_experiments, finish_tuning_step, create_tuning_advice, finalize_autotuning]"

lemma machine_run_Cons: "machine_run t es u \<Longrightarrow> machine_step s e t \<Longrightarrow> machine_run s (e # es) u"
proof (induction rule: machine_run.induct)
  case idle
  then show ?case using machine_run.event [OF machine_run.idle, of s e t] by simp
next
  case (event es t' e' u)
  then show ?case using machine_run.event [of s "e # es" t' e' u] by simp
qed

theorem accepted_events_are_cycles_witness:
  "\<exists>cs. cs \<noteq> [] \<and> tuning_cycles cs \<and> one_experiment = initialize_plugin # cs @ [create_tuning_advice, finalize_autotuning]"
proof (rule accepted_events_are_cycles)
  show "machine_run InitialState one_experiment FinalState" unfolding one_experiment_def
    by (rule machine_run_Cons, (rule machine_run_Cons)+, rule machine_run.idle)
      (simp_all add: machine_step_iff transition_rows_def)
qed

end
