(* ===== verification/TuningModelCorrect.thy ===== *)
theory TuningModelCorrect
  imports TuningModelGen
begin

text \<open>
  What generating and merging tuning models promises: every significant runtime situation is in exactly one
  scenario, which has its best configuration, and merging keeps every runtime situation once. The scenarios
  are made from the clusters of any clusterer with the contract below; both clusterers have it.
\<close>

section \<open>The contract of a clusterer\<close>

definition orders_ok :: "orders \<Rightarrow> bool" where
  "orders_ok E \<longleftrightarrow> hashing_ok (hashing_of E) \<and> order_ok (configs_order (hashing_of E)) \<and> order_ok (pointers_order E) \<and>
     order_ok (rtss_order E) \<and> order_ok (scenarios_order E)"

definition members :: "tm_scenario uset \<Rightarrow> tm_rts multiset" where
  "members ss = sum_mset (image_mset (\<lambda>s. mset (scenario_rtss s)) (mset ss))"

lemma members_simps [simp]: "members [] = {#}" "members (s # ss) = mset (scenario_rtss s) + members ss"
  by (simp_all add: members_def)

lemma members_order [simp]: "order_ok ord \<Longrightarrow> members (ord ss) = members ss"
  by (simp add: members_def)

lemma fold_order:
  assumes "order_ok ord"
  shows "mset (fold (\<lambda>x s. ord (f x # s)) xs s) = mset (map f xs) + mset s"
  using assms by (induction xs arbitrary: s) simp_all

lemma new_scenario_fold:
  assumes "orders_ok E"
  shows "\<exists>cs copies. fold (\<lambda>r (cs, copies). (configs_order (hashing_of E) (rts_configuration r # cs), rtss_order E (r # copies))) rtss (cs0, copies0) =
    (cs, copies) \<and> mset cs = mset (map rts_configuration rtss) + mset cs0 \<and> mset copies = mset rtss + mset copies0"
proof (induction rtss arbitrary: cs0 copies0)
  case (Cons r rtss)
  from Cons.IH [of "configs_order (hashing_of E) (rts_configuration r # cs0)" "rtss_order E (r # copies0)"] assms show ?case
    by (auto simp: orders_ok_def)
qed simp

lemma new_scenario_ret:
  assumes "orders_ok E" "new_scenario E select rtss = ret s"
  shows "mset (scenario_rtss s) = mset rtss \<and>
    (\<exists>cs. mset cs = mset (map rts_configuration rtss) \<and> select cs = ret (scenario_config s))"
proof -
  from new_scenario_fold [OF assms(1), of rtss "[]" "[]"] obtain cs copies where
    *: "fold (\<lambda>r (cs, copies). (configs_order (hashing_of E) (rts_configuration r # cs), rtss_order E (r # copies))) rtss ([], []) = (cs, copies)"
    "mset cs = mset (map rts_configuration rtss)" "mset copies = mset rtss" by auto
  with assms(2) obtain c where "select cs = ret c" "s = \<lparr>scenario_config = c, scenario_rtss = copies\<rparr>"
    by (auto simp: new_scenario_def cbind_eq_ret)
  with *(2,3) show ?thesis by (intro conjI exI [of _ cs]) simp_all
qed

lemma create_scenarios_members:
  assumes "orders_ok E" "create_scenarios E heap select cs = ret ss"
  shows "members ss = mset (map heap (concat cs)) \<and>
    (\<forall>s \<in> set ss. \<exists>c \<in> set cs. new_scenario E select (map heap c) = ret s)"
proof -
  have "members ss = mset (map heap (concat cs)) + members ss0 \<and>
      (\<forall>s \<in> set ss. s \<in> set ss0 \<or> (\<exists>c \<in> set cs. new_scenario E select (map heap c) = ret s))"
    if "cfold (\<lambda>cluster scenarios. cbind (new_scenario E select (map heap cluster)) (\<lambda>s.
       ret (scenarios_order E (s # scenarios)))) cs ss0 = ret ss" for ss0
    using that
  proof (induction cs arbitrary: ss0)
    case (Cons c cs)
    then obtain s where s: "new_scenario E select (map heap c) = ret s"
      and rest: "cfold (\<lambda>cluster scenarios. cbind (new_scenario E select (map heap cluster)) (\<lambda>s.
       ret (scenarios_order E (s # scenarios)))) cs (scenarios_order E (s # ss0)) = ret ss" by (auto simp: cbind_eq_ret)
    have ord: "order_ok (scenarios_order E)" using assms(1) by (simp add: orders_ok_def)
    from Cons.IH [OF rest] s new_scenario_ret [OF assms(1) s] show ?case by (auto simp: ord)
  qed simp
  from this [of "[]"] assms(2) show ?thesis by (simp add: create_scenarios_def)
qed

locale clusterer_contract =
  fixes cluster :: clusterer
    and usable :: "(rts_id \<Rightarrow> configuration) \<Rightarrow> rts_id list \<Rightarrow> bool"
  assumes divides: "usable conf rtss \<Longrightarrow> distinct rtss \<Longrightarrow> cluster conf rtss = ret cs \<Longrightarrow> mset (concat cs) = mset rtss"
begin

lemma scenarios_divide:
  assumes "orders_ok E" "usable (\<lambda>r. rts_configuration (rtss ! r)) [0..<length rtss]"
    and "cluster_rtss cluster rtss = ret cs" "create_scenarios E ((!) rtss) select cs = ret ss"
  shows "members ss = mset rtss"
proof -
  have "mset (concat cs) = mset [0..<length rtss]"
    using assms(2,3) by (intro divides) (simp_all add: cluster_rtss_def)
  then have "mset (map ((!) rtss) (concat cs)) = mset (map ((!) rtss) [0..<length rtss])" by (simp only: mset_map)
  then show ?thesis using create_scenarios_members [OF assms(1,4)] by (simp add: map_nth)
qed

lemma generated_divides:
  assumes "orders_ok E" "generate_tuning_model E ord heap tree input_ids cluster select = ret (ss, ph)"
    and "filter_rtss E tree = ret old" "convert_rtss E heap old input_ids = ret new"
    and "usable (\<lambda>r. rts_configuration (new ! r)) [0..<length new]"
  shows "members ss = mset new"
  using assms(2-4) scenarios_divide [OF assms(1,5)] by (auto simp: generate_tuning_model_def cbind_eq_ret)

end

definition well_configured :: "(rts_id \<Rightarrow> configuration) \<Rightarrow> rts_id list \<Rightarrow> bool" where
  "well_configured conf rtss \<longleftrightarrow> (\<forall>r \<in> set rtss. configuration_ok (conf r))"

interpretation by_equality: clusterer_contract "equality_cluster H bo"
  "\<lambda>conf rtss. hashing_ok H \<and> order_ok bo \<and> well_configured conf rtss" for H bo
proof
  fix conf rtss cs
  assume "hashing_ok H \<and> order_ok bo \<and> well_configured conf rtss" "distinct rtss" "equality_cluster H bo conf rtss = ret cs"
  then show "mset (concat cs) = mset rtss"
    using equality_cluster_parts [of H bo rtss conf] by (simp add: well_configured_def)
qed

text \<open>The hierarchical clusterer divides where its distances differ and its index finds a cut.\<close>

definition clean_hierarchy ::
  "layout \<Rightarrow> rts_id hashing \<Rightarrow> vector_distance \<Rightarrow> cluster_distance \<Rightarrow> (rts_id \<Rightarrow> configuration) \<Rightarrow> rts_id list \<Rightarrow> bool" where
  "clean_hierarchy L H d clstd conf rtss \<longleftrightarrow> layout_ok L \<and> hashing_ok H \<and> comparable d conf rtss UNIV \<and>
     (\<forall>t. generate_dendrogram L (\<lambda>r. to_vector (conf r)) rtss d clstd = ret t \<longrightarrow> apart (heights t)) \<and>
     hierarchical_cluster L H d clstd conf rtss \<noteq> ret []"

interpretation by_hierarchy: clusterer_contract "hierarchical_cluster L H d clstd" "clean_hierarchy L H d clstd"
  for L H d clstd
proof
  fix conf rtss cs
  assume "clean_hierarchy L H d clstd conf rtss" "distinct rtss" "hierarchical_cluster L H d clstd conf rtss = ret cs"
  then show "mset (concat cs) = mset rtss"
    using hierarchical_cluster_parts [of L H d conf rtss UNIV clstd cs]
    by (auto simp: clean_hierarchy_def hashing_ok_def closed_under_def)
qed

section \<open>Which runtime situations are kept\<close>

fun paths :: "rts_pointer \<Rightarrow> rts_tree \<Rightarrow> rts_pointer list" where
  "paths up (RtsNode n children) = (up @ [n]) # concat (map (paths (up @ [n])) children)"

lemma filter_into_keeps:
  assumes "orders_ok E"
  shows "filter_into E up t s = ret old \<Longrightarrow> distinct s \<Longrightarrow>
    distinct old \<and> set old = set s \<union> {p \<in> set (paths up t). keeps (last p) = ret True}"
proof (induction t arbitrary: up s old)
  case (RtsNode n children)
  have ord: "order_ok (pointers_order E)" using assms by (simp add: orders_ok_def)
  obtain k where k: "keeps n = ret k" and
    rest: "cfold (filter_into E (up @ [n])) children (if k then us_insert (pointers_order E) (up @ [n]) s else s) = ret old"
    using RtsNode.prems(1) by (auto simp: cbind_eq_ret)
  have "distinct old \<and> set old = set s \<union> {p \<in> set (concat (map (paths (up @ [n])) ts)). keeps (last p) = ret True}"
    if "set ts \<subseteq> set children" "cfold (filter_into E (up @ [n])) ts s = ret old" "distinct s" for ts s
    using that
  proof (induction ts arbitrary: s)
    case (Cons t ts)
    then obtain m where m: "filter_into E (up @ [n]) t s = ret m" "cfold (filter_into E (up @ [n])) ts m = ret old"
      by (auto simp: cbind_eq_ret)
    from RtsNode.IH [OF _ m(1) Cons.prems(3)] Cons.prems(1)
    have m': "distinct m" "set m = set s \<union> {p \<in> set (paths (up @ [n]) t). keeps (last p) = ret True}" by auto
    from Cons.IH [OF _ m(2) m'(1)] Cons.prems(1) m'(2) show ?case by auto
  qed simp
  from this [OF subset_refl rest] RtsNode.prems(2) k show ?case by (auto simp: ord)
qed

section \<open>Conversion keeps regions and best settings\<close>

definition region_of :: "rts_node \<Rightarrow> region_id" where
  "region_of n = (case reg n of None \<Rightarrow> \<lparr>rid_line = 0, rid_file = [], rid_name = []\<rparr>
     | Some r \<Rightarrow> \<lparr>rid_line = firstLine r mod 2 ^ 64, rid_file = fileName r, rid_name = reg_name r\<rparr>)"

text \<open>The names and values of all plugins' best results, a later one of the same name wins.\<close>

definition settings :: "tp_store \<Rightarrow> (tp_ptr, int) smap \<Rightarrow> (string \<times> int) list" where
  "settings heap m = map (\<lambda>(p, v). (tp_name (heap p), v)) m"

definition best_settings :: "tp_store \<Rightarrow> rts_node \<Rightarrow> (string \<times> int) list" where
  "best_settings heap n = concat (map (\<lambda>(_, results). case best_result RTS_BEST results of
       Some (Inr best) \<Rightarrow> settings heap (tuning_parameter_value_mapping best) | _ \<Rightarrow> []) (tuning_plugin_result n))"

definition best_values :: "tp_store \<Rightarrow> rts_node \<Rightarrow> string \<Rightarrow> int option" where
  "best_values heap n = map_of (rev (best_settings heap n))"

definition parameters_ok :: "parameters \<Rightarrow> bool" where
  "parameters_ok tps \<longleftrightarrow> (\<forall>k q. sm_find tps k = Some q \<longrightarrow> tmp_name q = k)"

lemma new_tm_parameter_name: "new_tm_parameter name a step b = ret p \<Longrightarrow> tmp_name p = name"
  by (auto simp: new_tm_parameter_def cbind_eq_ret Let_def)

lemma new_tm_value_ret: "new_tm_value q v = ret tv \<Longrightarrow> tv_name tv = tmp_name q \<and> tv_value tv = v"
  by (auto simp: new_tm_value_def tv_name_def cbind_eq_ret)

lemma hashing_names: "orders_ok E \<Longrightarrow> order_ok (names_order (hashing_of E))"
  by (simp add: orders_ok_def hashing_ok_def)

lemma add_parameter_ok:
  "orders_ok E \<Longrightarrow> add_parameter E heap p tps = ret tps' \<Longrightarrow> parameters_ok tps \<Longrightarrow> parameters_ok tps'"
  by (auto simp: add_parameter_def Let_def cbind_eq_ret parameters_ok_def hashing_names dest!: new_tm_parameter_name split: if_splits)

lemma cfold_keeps:
  assumes "cfold f xs s = ret t" "P s" "\<And>x s t. x \<in> set xs \<Longrightarrow> f x s = ret t \<Longrightarrow> P s \<Longrightarrow> P t"
  shows "P t"
  using assms by (induction xs arbitrary: s) (auto simp: cbind_eq_ret)

lemma create_tuning_parameters_ok:
  assumes "orders_ok E" "create_tuning_parameters E heap n = ret tps"
  shows "parameters_ok tps"
  using assms(2) unfolding create_tuning_parameters_def
proof (rule cfold_keeps)
  fix x s t
  assume "(case x of (_, results) \<Rightarrow> \<lambda>tps. cbind (best_result RTS_BEST results) (\<lambda>best.
      cfold (\<lambda>(p, _). add_parameter E heap p) (tuning_parameter_value_mapping best) tps)) s = ret t" "parameters_ok s"
  then show "parameters_ok t"
    by (auto simp: cbind_eq_ret split: prod.splits elim!: cfold_keeps add_parameter_ok [OF assms(1)])
qed (simp add: parameters_ok_def)

lemma add_setting_values:
  assumes "orders_ok E" "parameters_ok tps" "configuration_ok c" "add_setting E heap tps tr c = ret c'"
  shows "configuration_ok c' \<and> values_of c' = (values_of c)(tp_name (heap (fst tr)) \<mapsto> snd tr)"
proof -
  from assms(4) obtain q tv where q: "sm_find tps (tp_name (heap (fst tr))) = Some q" "new_tm_value q (snd tr) = ret tv"
    "c' = add_tuning_value (hashing_of E) tv c" by (auto simp: add_setting_def cbind_eq_ret split: option.splits)
  then have "tv_name tv = tp_name (heap (fst tr))" "tv_value tv = snd tr"
    using new_tm_value_ret [OF q(2)] assms(2) by (auto simp: parameters_ok_def)
  then show ?thesis using assms(1,3) q(3) configuration_ok_put [OF hashing_names [OF assms(1)] assms(3), of tv]
      values_of_put [OF hashing_names [OF assms(1)], of tv c] by (simp add: add_tuning_value_def)
qed

lemma add_settings_values:
  assumes "orders_ok E" "parameters_ok tps" "configuration_ok c" "cfold (add_setting E heap tps) m c = ret c'"
  shows "configuration_ok c' \<and> values_of c' = values_of c ++ map_of (rev (settings heap m))"
  using assms(3,4)
proof (induction m arbitrary: c)
  case (Cons tr m)
  then obtain d where d: "add_setting E heap tps tr c = ret d" "cfold (add_setting E heap tps) m d = ret c'" by (auto simp: cbind_eq_ret)
  have ok: "configuration_ok d" and vals: "values_of d = (values_of c)(tp_name (heap (fst tr)) \<mapsto> snd tr)"
    using add_setting_values [OF assms(1,2) Cons.prems(1) d(1)] by simp_all
  have "f(k \<mapsto> v) ++ map_of (rev xs) = f ++ map_of (rev ((k, v) # xs))" for f :: "string \<Rightarrow> int option" and k v xs
    by (auto simp: map_add_def fun_eq_iff split: option.split)
  then have "values_of d ++ map_of (rev (settings heap m)) = values_of c ++ map_of (rev (settings heap (tr # m)))"
    unfolding vals by (simp add: settings_def split_beta)
  with Cons.IH [OF ok d(2)] show ?case by simp
qed (simp add: settings_def)

lemma create_configuration_values:
  assumes "orders_ok E" "parameters_ok tps" "create_configuration E heap n tps = ret c"
  shows "configuration_ok c \<and> values_of c = best_values heap n"
proof -
  define best where "best = (\<lambda>rs. case best_result RTS_BEST rs of
       Some (Inr b) \<Rightarrow> settings heap (tuning_parameter_value_mapping b) | _ \<Rightarrow> [])"
  have "configuration_ok c' \<and> values_of c' = values_of c0 ++ map_of (rev (concat (map (\<lambda>(_, rs). best rs) ps)))"
    if "cfold (\<lambda>(_, results) c. cbind (best_result RTS_BEST results) (\<lambda>best.
              cfold (add_setting E heap tps) (tuning_parameter_value_mapping best) c)) ps c0 = ret c'" "configuration_ok c0" for ps c0 c'
    using that
  proof (induction ps arbitrary: c0)
    case (Cons p ps)
    obtain name rs where p: "p = (name, rs)" by force
    with Cons.prems(1) obtain b d where b: "best_result RTS_BEST rs = ret b"
      "cfold (add_setting E heap tps) (tuning_parameter_value_mapping b) c0 = ret d"
      and rest: "cfold (\<lambda>(_, results) c. cbind (best_result RTS_BEST results) (\<lambda>best.
              cfold (add_setting E heap tps) (tuning_parameter_value_mapping best) c)) ps d = ret c'" by (auto simp: cbind_eq_ret)
    have "best rs = settings heap (tuning_parameter_value_mapping b)" using b(1) by (simp add: best_def ret_def)
    with add_settings_values [OF assms(1,2) Cons.prems(2) b(2)] Cons.IH [OF rest] show ?case by (simp add: p)
  qed simp
  from this [of "tuning_plugin_result n" "[]" c] assms(3) show ?thesis
    by (auto simp: create_configuration_def cbind_eq_ret best_values_def best_settings_def best_def [abs_def])
qed

definition summary :: "tm_rts \<Rightarrow> region_id \<times> (string \<Rightarrow> int option)" where
  "summary r = (rtsid_region (rts_rtsid r), values_of (rts_configuration r))"

lemma convert_rts_ret:
  assumes "orders_ok E" "parameters_ok tps" "convert_rts E heap iid tps p rtss = ret new"
  shows "\<exists>r. mset new = add_mset r (mset rtss) \<and> configuration_ok (rts_configuration r) \<and>
    summary r = (region_of (last p), best_values heap (last p))"
proof -
  have ord: "order_ok (rtss_order E)" using assms(1) by (simp add: orders_ok_def)
  from assms(3) obtain rid cp c t where rid: "create_region_id (last p) = ret rid" and c: "create_configuration E heap (last p) tps = ret c"
    and new: "new = rtss_order E (\<lparr>rts_rtsid = \<lparr>rtsid_callpath = cp, rtsid_iid = iid, rtsid_region = rid\<rparr>,
          rts_exectime = t, rts_configuration = c\<rparr> # rtss)" by (auto simp: convert_rts_def cbind_eq_ret)
  have "rid = region_of (last p)" using rid by (auto simp: create_region_id_def region_of_def split: option.splits)
  with create_configuration_values [OF assms(1,2) c] show ?thesis by (simp add: new ord summary_def)
qed

lemma convert_rtss_ret:
  assumes "orders_ok E" "convert_rtss E heap old input_ids = ret new"
  shows "(\<forall>r \<in> set new. configuration_ok (rts_configuration r)) \<and>
    image_mset summary (mset new) = mset (map (\<lambda>p. (region_of (last p), best_values heap (last p))) old)"
proof -
  from assms(2) have "old \<noteq> []" by (auto simp: convert_rtss_def)
  then obtain p ps where old: "old = p # ps" by (cases old) auto
  from assms(2) obtain tps where "create_tuning_parameters E heap (last p) = ret tps" and
    run: "cfold (convert_rts E heap (create_input_identifier E input_ids) tps) old [] = ret new"
    unfolding convert_rtss_def Let_def cbind_eq_ret by (auto simp: old cbind_eq_ret simp del: cfold.simps)
  then have tps: "parameters_ok tps" using create_tuning_parameters_ok [OF assms(1)] by blast
  have "(\<forall>r \<in> set new. configuration_ok (rts_configuration r)) \<and> image_mset summary (mset new) =
      image_mset summary (mset s) + mset (map (\<lambda>p. (region_of (last p), best_values heap (last p))) ps)"
    if "cfold (convert_rts E heap (create_input_identifier E input_ids) tps) ps s = ret new"
      "\<forall>r \<in> set s. configuration_ok (rts_configuration r)" for ps s
    using that
  proof (induction ps arbitrary: s)
    case (Cons p ps)
    then obtain m where m: "convert_rts E heap (create_input_identifier E input_ids) tps p s = ret m"
      "cfold (convert_rts E heap (create_input_identifier E input_ids) tps) ps m = ret new" by (auto simp: cbind_eq_ret)
    from convert_rts_ret [OF assms(1) tps m(1)] obtain r where r: "mset m = mset (r # s)"
      "configuration_ok (rts_configuration r)" "summary r = (region_of (last p), best_values heap (last p))" by auto
    have "set m = set (r # s)" using mset_eq_setD [OF r(1)] .
    with Cons.IH [OF m(2)] Cons.prems(2) r show ?case by simp
  qed simp
  from this [OF run] show ?thesis by simp
qed

section \<open>Converted runtime situations are well formed\<close>

definition range_ok :: "tm_parameter \<Rightarrow> bool" where
  "range_ok p \<longleftrightarrow> 0 < tmp_step p \<and> tmp_start p \<le> tmp_end p"

definition typed_parameters :: "parameters \<Rightarrow> bool" where
  "typed_parameters tps \<longleftrightarrow> distinct (map fst tps) \<and> (\<forall>(k, q) \<in> set tps. tmp_name q = k \<and> range_ok q)"

text \<open>A configuration gives a value to exactly the given parameters.\<close>

definition typed_configuration :: "parameters \<Rightarrow> configuration \<Rightarrow> bool" where
  "typed_configuration tps c \<longleftrightarrow> configuration_ok c \<and> fst ` set c = fst ` set tps \<and>
     (\<forall>(k, tv) \<in> set c. (k, tv_parameter tv) \<in> set tps)"

lemma new_tm_parameter_range:
  assumes "new_tm_parameter name a step b = ret p"
  shows "range_ok p"
proof -
  from assms have step: "step \<noteq> 0" by (auto simp: new_tm_parameter_def cabs_def cmod_def cbind_eq_ret Let_def split: if_splits)
  have p: "p = \<lparr>tmp_end = max a b - sgn (max a b - min a b) * (\<bar>max a b - min a b\<bar> mod \<bar>step\<bar>), tmp_step = \<bar>step\<bar>,
      tmp_start = min a b, tmp_name = name\<rparr>"
    using assms by (auto simp: new_tm_parameter_def cabs_def cmod_def cbind_eq_ret Let_def split: if_splits)
  have le: "0 \<le> max a b - min a b" by simp
  have "sgn (max a b - min a b) * (\<bar>max a b - min a b\<bar> mod \<bar>step\<bar>) \<le> max a b - min a b"
    using le zmod_le_nonneg_dividend [OF le, of "\<bar>step\<bar>"] by (cases "max a b - min a b = 0") simp_all
  with step show ?thesis by (simp add: p range_ok_def)
qed

lemma add_parameter_typed:
  assumes "orders_ok E" "add_parameter E heap p tps = ret tps'" "typed_parameters tps"
  shows "typed_parameters tps'"
proof -
  let ?ord = "names_order (hashing_of E)" and ?k = "tp_name (heap p)"
  from assms(2) obtain q where q: "tmp_name q = ?k" "range_ok q" "tps' = um_put ?ord ?k q tps"
    by (auto simp: add_parameter_def Let_def cbind_eq_ret dest: new_tm_parameter_name new_tm_parameter_range split: if_splits)
  have ord: "order_ok ?ord" by (rule hashing_names [OF assms(1)])
  show ?thesis using assms(3) q(1,2) set_um_put_subset [OF ord, of ?k q tps] keys_um_put [OF ord, of tps ?k q]
    unfolding q(3) typed_parameters_def by fastforce
qed

lemma create_tuning_parameters_typed:
  assumes "orders_ok E" "create_tuning_parameters E heap n = ret tps"
  shows "typed_parameters tps"
  using assms(2) unfolding create_tuning_parameters_def
proof (rule cfold_keeps)
  fix x s t
  assume "(case x of (_, results) \<Rightarrow> \<lambda>tps. cbind (best_result RTS_BEST results) (\<lambda>best.
      cfold (\<lambda>(p, _). add_parameter E heap p) (tuning_parameter_value_mapping best) tps)) s = ret t" "typed_parameters s"
  then show "typed_parameters t"
    by (auto simp: cbind_eq_ret split: prod.splits elim!: cfold_keeps add_parameter_typed [OF assms(1)])
qed (simp add: typed_parameters_def)

text \<open>While a configuration is filled, its values are of known parameters.\<close>

definition filling :: "parameters \<Rightarrow> configuration \<Rightarrow> bool" where
  "filling tps c \<longleftrightarrow> configuration_ok c \<and> (\<forall>(k, tv) \<in> set c. (k, tv_parameter tv) \<in> set tps)"

lemma add_setting_filling:
  assumes "orders_ok E" "typed_parameters tps" "add_setting E heap tps tr c = ret c'" "filling tps c"
  shows "filling tps c'"
proof -
  let ?ord = "names_order (hashing_of E)"
  from assms(3) obtain q tv where q: "sm_find tps (tp_name (heap (fst tr))) = Some q" "new_tm_value q (snd tr) = ret tv"
    and c': "c' = um_put ?ord (tv_name tv) tv c"
    by (auto simp: add_setting_def add_tuning_value_def cbind_eq_ret split: option.splits)
  from q(2) have param: "tv_parameter tv = q" by (auto simp: new_tm_value_def cbind_eq_ret)
  from q(1) have mem: "(tp_name (heap (fst tr)), q) \<in> set tps" by (auto simp: sm_find_def dest: map_of_SomeD)
  then have "tmp_name q = tp_name (heap (fst tr))" using assms(2) by (auto simp: typed_parameters_def)
  with mem param have "(tv_name tv, tv_parameter tv) \<in> set tps" by (simp add: tv_name_def)
  moreover have ord: "order_ok ?ord" by (rule hashing_names [OF assms(1)])
  ultimately show ?thesis using assms(4) set_um_put_subset [OF ord, of "tv_name tv" tv c]
    unfolding c' filling_def by (auto simp: configuration_ok_put [OF ord])
qed

lemma create_configuration_typed:
  assumes "orders_ok E" "typed_parameters tps" "create_configuration E heap n tps = ret c"
  shows "typed_configuration tps c"
proof -
  from assms(3) have run: "cfold (\<lambda>(_, results) c. cbind (best_result RTS_BEST results) (\<lambda>best.
      cfold (add_setting E heap tps) (tuning_parameter_value_mapping best) c)) (tuning_plugin_result n) [] = ret c"
    and len: "length tps = length c" by (auto simp: create_configuration_def cbind_eq_ret)
  from run have fill: "filling tps c"
  proof (rule cfold_keeps)
    fix x s t
    assume "(case x of (_, results) \<Rightarrow> \<lambda>c. cbind (best_result RTS_BEST results) (\<lambda>best.
        cfold (add_setting E heap tps) (tuning_parameter_value_mapping best) c)) s = ret t" "filling tps s"
    then show "filling tps t"
      by (auto simp: cbind_eq_ret split: prod.splits elim!: cfold_keeps add_setting_filling [OF assms(1,2)])
  qed (simp add: filling_def)
  then have sub: "fst ` set c \<subseteq> fst ` set tps" by (force simp: filling_def)
  have "card (fst ` set c) = card (fst ` set tps)"
    using fill assms(2) len distinct_card [of "map fst c"] distinct_card [of "map fst tps"]
    by (simp add: filling_def configuration_ok_def typed_parameters_def)
  with sub have "fst ` set c = fst ` set tps" by (intro card_subset_eq) simp_all
  with fill show ?thesis by (simp add: typed_configuration_def filling_def)
qed

text \<open>
  C28: Conversion makes well-formed runtime situations or fails: there is one collection of tuning parameters,
  each name once and with a positive step and an ordered range, and every converted runtime situation's
  configuration gives exactly one value to each of these parameters and to nothing else. In particular the
  vectors the clusterers compare all have one component per parameter.
\<close>

theorem converted_well_formed:
  assumes "orders_ok E" "convert_rtss E heap old input_ids = ret new"
  shows "\<exists>tps. typed_parameters tps \<and> length new = length old \<and> (\<forall>r \<in> set new.
    typed_configuration tps (rts_configuration r) \<and> length (to_vector (rts_configuration r)) = length tps)"
proof -
  let ?iid = "create_input_identifier E input_ids"
  have ord: "order_ok (rtss_order E)" using assms(1) by (simp add: orders_ok_def)
  from assms(2) have "old \<noteq> []" by (auto simp: convert_rtss_def)
  then obtain p ps where old: "old = p # ps" by (cases old) auto
  from assms(2) obtain tps where "create_tuning_parameters E heap (last p) = ret tps" and
    run: "cfold (convert_rts E heap ?iid tps) old [] = ret new"
    unfolding convert_rtss_def Let_def cbind_eq_ret by (auto simp: old cbind_eq_ret simp del: cfold.simps)
  then have tps: "typed_parameters tps" using create_tuning_parameters_typed [OF assms(1)] by blast
  have "length new = length s + length ps \<and> (\<forall>r \<in> set new. r \<in> set s \<or> typed_configuration tps (rts_configuration r))"
    if "cfold (convert_rts E heap ?iid tps) ps s = ret new" for ps s
    using that
  proof (induction ps arbitrary: s)
    case (Cons p ps)
    then obtain m where m: "convert_rts E heap ?iid tps p s = ret m" "cfold (convert_rts E heap ?iid tps) ps m = ret new"
      by (auto simp: cbind_eq_ret)
    from m(1) obtain rid cp c t where "create_configuration E heap (last p) tps = ret c"
      "m = rtss_order E (\<lparr>rts_rtsid = \<lparr>rtsid_callpath = cp, rtsid_iid = ?iid, rtsid_region = rid\<rparr>,
          rts_exectime = t, rts_configuration = c\<rparr> # s)" by (auto simp: convert_rts_def cbind_eq_ret)
    then obtain r where r: "m = rtss_order E (r # s)" "create_configuration E heap (last p) tps = ret (rts_configuration r)"
      by (metis tm_rts.select_convs(3))
    from r(1) ord have "mset m = mset (r # s)" by simp
    then have "length m = Suc (length s)" "set m = set (r # s)" by (metis size_mset length_Cons, metis set_mset_mset)
    with Cons.IH [OF m(2)] create_configuration_typed [OF assms(1) tps r(2)] show ?case by auto
  qed simp
  from this [OF run] have new: "length new = length old" "\<forall>r \<in> set new. typed_configuration tps (rts_configuration r)" by simp_all
  moreover have "length (to_vector c) = length tps" if "typed_configuration tps c" for c
    using that tps distinct_card [of "map fst c"] distinct_card [of "map fst tps"]
    by (simp add: typed_configuration_def configuration_ok_def typed_parameters_def to_vector_def)
  ultimately show ?thesis using tps by blast
qed

section \<open>Every significant runtime situation in one scenario\<close>

lemma random_selector_values:
  assumes "order_ok (names_order H)" "random_selector H cs = ret c" "\<forall>d \<in> set cs. configuration_ok d \<and> values_of d = f"
  shows "values_of c = f"
  using assms copy_configuration_ok by (cases cs) (auto simp: random_selector_def)

lemma random_new_scenario:
  assumes "orders_ok E" "rtss \<noteq> []"
  shows "\<exists>s. new_scenario E (random_selector (hashing_of E)) rtss = ret s"
proof -
  from new_scenario_fold [OF assms(1), of rtss "[]" "[]"] obtain cs copies where
    *: "fold (\<lambda>r (cs, copies). (configs_order (hashing_of E) (rts_configuration r # cs), rtss_order E (r # copies))) rtss ([], []) = (cs, copies)"
    "mset cs = mset (map rts_configuration rtss)" by auto
  then have "cs \<noteq> []" using assms(2) by auto
  with *(1) show ?thesis by (cases cs) (simp_all add: new_scenario_def random_selector_def)
qed

lemma random_create_scenarios:
  assumes "orders_ok E" "\<forall>c \<in> set cs. c \<noteq> []"
  shows "\<exists>ss. create_scenarios E heap (random_selector (hashing_of E)) cs = ret ss"
proof -
  have "total (create_scenarios E heap (random_selector (hashing_of E)) cs) (\<lambda>_. True)"
    unfolding create_scenarios_def
  proof (rule total_cfold)
    fix c s assume "c \<in> set cs"
    with assms(2) random_new_scenario [OF assms(1), of "map heap c"] obtain x where
      "new_scenario E (random_selector (hashing_of E)) (map heap c) = ret x" by auto
    then show "total (cbind (new_scenario E (random_selector (hashing_of E)) (map heap c)) (\<lambda>x. ret (scenarios_order E (x # s)))) (\<lambda>_. True)"
      by simp
  qed simp
  then show ?thesis by (auto simp: total_def)
qed

text \<open>The scenarios of clusters of equal configurations, selected at random, have their members' values.\<close>

lemma equal_scenarios:
  assumes "orders_ok E" "order_ok bo" "\<forall>r \<in> set rtss. configuration_ok (rts_configuration r)"
  shows "\<exists>cs ss. cluster_rtss (equality_cluster (hashing_of E) bo) rtss = ret cs \<and>
    create_scenarios E ((!) rtss) (random_selector (hashing_of E)) cs = ret ss \<and> members ss = mset rtss \<and>
    (\<forall>s \<in> set ss. \<forall>r \<in> set (scenario_rtss s). values_of (rts_configuration r) = values_of (scenario_config s))"
proof -
  let ?conf = "\<lambda>r. rts_configuration (rtss ! r)" and ?ids = "[0..<length rtss]"
  have H: "hashing_ok (hashing_of E)" using assms(1) by (simp add: orders_ok_def)
  have ok: "\<forall>r \<in> set ?ids. configuration_ok (?conf r)" using assms(3) by simp
  from equality_cluster_parts [OF H assms(2) ok] obtain cs where
    cs: "cluster_rtss (equality_cluster (hashing_of E) bo) rtss = ret cs" "mset (concat cs) = mset ?ids"
    "\<forall>c \<in> set cs. c \<noteq> [] \<and> (\<forall>r \<in> set c. \<forall>s \<in> set c. configuration_eq (?conf r) (?conf s))"
    by (auto simp: total_def cluster_rtss_def)
  from random_create_scenarios [OF assms(1)] cs(3) obtain ss where
    ss: "create_scenarios E ((!) rtss) (random_selector (hashing_of E)) cs = ret ss" by blast
  have "members ss = mset rtss"
    using by_equality.scenarios_divide [OF assms(1) _ cs(1) ss] H assms(2) ok by (simp add: well_configured_def)
  moreover have "values_of (rts_configuration r) = values_of (scenario_config s)"
    if s: "s \<in> set ss" and r: "r \<in> set (scenario_rtss s)" for r s
  proof -
    from create_scenarios_members [OF assms(1) ss] s obtain c where
      c: "c \<in> set cs" "new_scenario E (random_selector (hashing_of E)) (map ((!) rtss) c) = ret s" by blast
    from new_scenario_ret [OF assms(1) c(2)] obtain ds where
      mem: "mset (scenario_rtss s) = mset (map ((!) rtss) c)" and
      ds: "mset ds = mset (map rts_configuration (map ((!) rtss) c))" "random_selector (hashing_of E) ds = ret (scenario_config s)" by blast
    have cids: "i \<in> set ?ids" if "i \<in> set c" for i using that c(1) mset_eq_setD [OF cs(2)] by auto
    obtain i where i: "i \<in> set c" "r = rtss ! i" using r mset_eq_setD [OF mem] by auto
    have "configuration_ok d \<and> values_of d = values_of (?conf i)" if "d \<in> set ds" for d
    proof -
      from that mset_eq_setD [OF ds(1)] obtain j where j: "j \<in> set c" "d = ?conf j" by auto
      have "configuration_eq (?conf j) (?conf i)" using cs(3) c(1) i(1) j(1) by blast
      then show ?thesis using configuration_eq_values ok cids i(1) j by blast
    qed
    then show ?thesis using random_selector_values [OF hashing_names [OF assms(1)] ds(2)] i(2) by metis
  qed
  ultimately show ?thesis using cs(1) ss by blast
qed

text \<open>What a tuning model says: a region and the values to set there, once per runtime situation.\<close>

definition advice :: "tm_scenario uset \<Rightarrow> (region_id \<times> (string \<Rightarrow> int option)) multiset" where
  "advice ss = sum_mset (image_mset (\<lambda>s. image_mset (\<lambda>r. (rtsid_region (rts_rtsid r), values_of (scenario_config s)))
     (mset (scenario_rtss s))) (mset ss))"

lemma advice_members:
  assumes "\<forall>s \<in> set ss. \<forall>r \<in> set (scenario_rtss s). values_of (rts_configuration r) = values_of (scenario_config s)"
  shows "advice ss = image_mset summary (members ss)"
  using assms
proof (induction ss)
  case (Cons s ss)
  then have "image_mset (\<lambda>r. (rtsid_region (rts_rtsid r), values_of (scenario_config s))) (mset (scenario_rtss s)) =
      image_mset summary (mset (scenario_rtss s))" by (intro image_mset_cong) (simp add: summary_def)
  with Cons show ?case by (simp add: advice_def)
qed (simp add: advice_def)

lemma keeps_iff:
  "keeps n = ret True \<longleftrightarrow> isValidRts n \<and> tuning_plugin_result n \<noteq> [] \<and>
     (parent_scorep_id n = 0 \<or> (\<exists>r. reg n = Some r \<and> is_significant r))"
  by (auto simp: keeps_def split: option.splits)

text \<open>
  C26: Generating a tuning model with the equality clusterer and the random selector, as the frontend does.
  Filtering, where it returns, keeps exactly the paths to the nodes that are valid, carry a tuning result and
  whose region is significant (which is not asked of a node without a parent), each once. If there are
  none, generation dereferences the begin of an empty set. Otherwise, once the conversion of the kept paths and
  the extraction of the phases return, generation returns, and the model advises for exactly the kept nodes,
  each in one scenario, with the region of the node and the best values found for it.
\<close>

theorem model_advises_best:
  fixes E ord heap iids
  assumes "orders_ok E" "order_ok bo" and "filter_rtss E tree = ret old"
  defines "generated \<equiv> generate_tuning_model E ord heap tree iids (equality_cluster (hashing_of E) bo) (random_selector (hashing_of E))"
  shows "distinct old \<and>
    set old = {p \<in> set (paths [] tree). isValidRts (last p) \<and> tuning_plugin_result (last p) \<noteq> [] \<and>
      (parent_scorep_id (last p) = 0 \<or> (\<exists>r. reg (last p) = Some r \<and> is_significant r))} \<and>
    (old = [] \<longrightarrow> generated = fail UB) \<and>
    (\<forall>new ph. convert_rtss E heap old iids = ret new \<and> extract_cluster_phases ord tree = ret ph \<longrightarrow>
      old \<noteq> [] \<and> (\<exists>ss. generated = ret (ss, ph) \<and>
        advice ss = mset (map (\<lambda>p. (region_of (last p), best_values heap (last p))) old)))"
proof (intro conjI allI impI)
  show "distinct old" and "set old = {p \<in> set (paths [] tree). isValidRts (last p) \<and> tuning_plugin_result (last p) \<noteq> [] \<and>
      (parent_scorep_id (last p) = 0 \<or> (\<exists>r. reg (last p) = Some r \<and> is_significant r))}"
    using filter_into_keeps [OF assms(1), of "[]" tree "[]" old] assms(3) by (simp_all add: filter_rtss_def keeps_iff)
  show "generated = fail UB" if "old = []"
    using assms(3) that by (simp add: generated_def generate_tuning_model_def convert_rtss_def)
next
  fix new ph
  assume returns: "convert_rtss E heap old iids = ret new \<and> extract_cluster_phases ord tree = ret ph"
  then show "old \<noteq> []" by (auto simp: convert_rtss_def)
  note converted = convert_rtss_ret [OF assms(1) returns [THEN conjunct1]]
  from equal_scenarios [OF assms(1,2)] converted obtain cs ss where
    cs: "cluster_rtss (equality_cluster (hashing_of E) bo) new = ret cs" and
    ss: "create_scenarios E ((!) new) (random_selector (hashing_of E)) cs = ret ss" "members ss = mset new"
    "\<forall>s \<in> set ss. \<forall>r \<in> set (scenario_rtss s). values_of (rts_configuration r) = values_of (scenario_config s)" by blast
  have "generated = ret (ss, ph)"
    using assms(3) returns cs ss(1) by (simp add: generated_def generate_tuning_model_def)
  moreover have "advice ss = mset (map (\<lambda>p. (region_of (last p), best_values heap (last p))) old)"
    using advice_members [OF ss(3)] converted ss(2) by simp
  ultimately show "\<exists>ss. generated = ret (ss, ph) \<and>
      advice ss = mset (map (\<lambda>p. (region_of (last p), best_values heap (last p))) old)" by blast
qed

section \<open>Merging\<close>

definition same_rts :: "orders \<Rightarrow> rtsid \<Rightarrow> rtsid \<Rightarrow> bool" where
  "same_rts E a b \<longleftrightarrow> rtsid_code E b = rtsid_code E a \<and> rtsid_eq a b"

definition merging :: "orders \<Rightarrow> tm_rts list \<Rightarrow> (nat \<times> rtsid) list \<times> tm_rts uset \<Rightarrow> bool" where
  "merging E seen s \<longleftrightarrow> (\<forall>(code, id) \<in> set (fst s). code = rtsid_code E id) \<and>
     mset (map rts_rtsid (snd s)) = mset (map snd (fst s)) \<and> set (snd s) \<subseteq> set seen \<and>
     sorted_wrt (\<lambda>a b. \<not> same_rts E (snd a) (snd b)) (fst s) \<and>
     (\<forall>r \<in> set seen. \<exists>id \<in> snd ` set (fst s). same_rts E (rts_rtsid r) id)"

lemma us_eq_refl [simp]: "us_eq s s"
  by (simp add: us_eq_def list_all_iff)

lemma rtsid_eq_refl [simp]: "rtsid_eq a a"
  by (simp add: rtsid_eq_def identifiers_eq_def callpath_eq_def callpath_element_eq_def list_all2_same)

lemma merge_step_merging:
  assumes "order_ok (rtss_order E)" "merging E seen s"
  shows "merging E (seen @ [r]) (merge_step E r s)"
proof (cases "list_ex (\<lambda>(code, id). code = rtsid_code E (rts_rtsid r) \<and> rtsid_eq (rts_rtsid r) id) (fst s)")
  case True
  then obtain code id where "(code, id) \<in> set (fst s)" "code = rtsid_code E (rts_rtsid r)" "rtsid_eq (rts_rtsid r) id"
    by (auto simp: list_ex_iff)
  moreover from this assms(2) have "same_rts E (rts_rtsid r) id" by (auto simp: merging_def same_rts_def)
  ultimately have "\<exists>id \<in> snd ` set (fst s). same_rts E (rts_rtsid r) id" by force
  with True assms(2) show ?thesis unfolding merging_def merge_step_def by auto
next
  case False
  then have new: "\<not> same_rts E (rts_rtsid r) (snd b)" if "b \<in> set (fst s)" for b
    using that assms(2) by (cases b) (auto simp: list_ex_iff merging_def same_rts_def)
  have step: "merge_step E r s = ((rtsid_code E (rts_rtsid r), rts_rtsid r) # fst s, rtss_order E (r # snd s))"
    using False by (simp add: merge_step_def)
  have "same_rts E (rts_rtsid r) (rts_rtsid r)" by (simp add: same_rts_def)
  then show ?thesis using assms new unfolding step merging_def by auto
qed

lemma fold_merging:
  "order_ok (rtss_order E) \<Longrightarrow> merging E seen s \<Longrightarrow> merging E (seen @ rs) (fold (merge_step E) rs s)"
proof (induction rs arbitrary: seen s)
  case (Cons r rs)
  from Cons.IH [OF Cons.prems(1) merge_step_merging [OF Cons.prems, of r]] show ?case by simp
qed simp

lemma fold_nested: "fold (\<lambda>x. fold f (g x)) xs s = fold f (concat (map g xs)) s"
  by (induction xs arbitrary: s) simp_all

definition model_rtss :: "tm_scenario uset list \<Rightarrow> tm_rts set" where
  "model_rtss scnrvector = (\<Union>scnrset \<in> set scnrvector. \<Union>s \<in> set scnrset. set (scenario_rtss s))"

text \<open>
  C27: Merging tuning models with the equality clusterer and the random selector returns, and the merged model
  has every runtime situation of the given models exactly once: its runtime situations are among theirs, each
  of theirs is the same as one of its, and no two of its are the same (same call path, region and input, with
  the same hash code); the configuration of each scenario is that of its members.
\<close>

theorem merge_keeps_each_once:
  assumes "orders_ok E" "order_ok bo" and ok: "\<forall>r \<in> model_rtss scnrvector. configuration_ok (rts_configuration r)"
  shows "\<exists>ss ids. merge_models E scnrvector (random_selector (hashing_of E)) (equality_cluster (hashing_of E) bo) = ret ss \<and>
    set_mset (members ss) \<subseteq> model_rtss scnrvector \<and>
    (\<forall>r \<in> model_rtss scnrvector. \<exists>m \<in># members ss. same_rts E (rts_rtsid r) (rts_rtsid m)) \<and>
    image_mset rts_rtsid (members ss) = mset ids \<and> sorted_wrt (\<lambda>a b. \<not> same_rts E a b) ids \<and>
    (\<forall>s \<in> set ss. \<forall>r \<in> set (scenario_rtss s). values_of (rts_configuration r) = values_of (scenario_config s))"
proof -
  have ord: "order_ok (rtss_order E)" using assms(1) by (simp add: orders_ok_def)
  define all where "all = concat (map (\<lambda>scnrset. concat (map (rtss_of E) scnrset)) scnrvector)"
  let ?s = "fold (merge_step E) all ([], [])"
  have "mset (rtss_of E s) = mset (scenario_rtss s)" for s
    using fold_order [OF ord, of "\<lambda>r. r" "scenario_rtss s" "[]"] by (simp add: rtss_of_def)
  then have "set (rtss_of E s) = set (scenario_rtss s)" for s by (rule mset_eq_setD)
  then have all: "set all = model_rtss scnrvector" by (simp add: all_def model_rtss_def)
  have state: "fold (\<lambda>scnrset s. fold (\<lambda>scnr s. fold (merge_step E) (rtss_of E scnr) s) scnrset s) scnrvector ([], []) = ?s"
    unfolding all_def by (simp add: fold_nested)
  have "merging E [] ([], [])" by (simp add: merging_def)
  from fold_merging [OF ord this, of all] have m: "merging E all ?s" by simp
  have "\<forall>r \<in> set (snd ?s). configuration_ok (rts_configuration r)" using m ok all by (auto simp: merging_def)
  from equal_scenarios [OF assms(1,2) this] obtain cs ss where
    cs: "cluster_rtss (equality_cluster (hashing_of E) bo) (snd ?s) = ret cs" and
    ss: "create_scenarios E ((!) (snd ?s)) (random_selector (hashing_of E)) cs = ret ss" "members ss = mset (snd ?s)"
    "\<forall>s \<in> set ss. \<forall>r \<in> set (scenario_rtss s). values_of (rts_configuration r) = values_of (scenario_config s)" by blast
  have run: "merge_models E scnrvector (random_selector (hashing_of E)) (equality_cluster (hashing_of E) bo) = ret ss"
    by (simp add: merge_models_def state cs ss(1))
  have ids: "image_mset rts_rtsid (members ss) = mset (map snd (fst ?s))" using m ss(2) by (simp add: merging_def)
  have "sorted_wrt (\<lambda>a b. \<not> same_rts E a b) (map snd (fst ?s))" using m by (simp add: merging_def sorted_wrt_map)
  moreover have "\<exists>x \<in># members ss. same_rts E (rts_rtsid r) (rts_rtsid x)" if "r \<in> model_rtss scnrvector" for r
  proof -
    have "\<forall>r \<in> set all. \<exists>id \<in> snd ` set (fst ?s). same_rts E (rts_rtsid r) id" using m unfolding merging_def by blast
    with that all obtain id where "id \<in> set (map snd (fst ?s))" "same_rts E (rts_rtsid r) id" by force
    moreover from this(1) have "id \<in># image_mset rts_rtsid (members ss)" unfolding ids by simp
    ultimately show ?thesis by auto
  qed
  moreover have "set_mset (members ss) \<subseteq> model_rtss scnrvector" using m ss(2) all by (simp add: merging_def)
  ultimately show ?thesis using run ids ss(3) by (intro exI [of _ ss] exI [of _ "map snd (fst ?s)"]) blast
qed

section \<open>A small tree\<close>

text \<open>A root whose only plugin tuned the number of threads to 4, with a significant child tuned to 2.\<close>

definition front_orders :: orders where
  "front_orders = \<lparr>hashing_of = front_hashing, ints_order = (\<lambda>xs. xs), strings_order = (\<lambda>xs. xs), pointers_order = (\<lambda>xs. xs),
     rtss_order = (\<lambda>xs. xs), scenarios_order = (\<lambda>xs. xs), rtsid_code = (\<lambda>id. length (rtsid_callpath id))\<rparr>"

lemma front_orders_ok [simp]: "orders_ok front_orders"
  by (simp add: orders_ok_def front_orders_def front_hashing_def hashing_ok_def)

definition threads_result :: "int \<Rightarrow> (string, (config_type, tuning_result option) smap) smap" where
  "threads_result v = [(''omp'', [(RTS_BEST, Some \<lparr>tuning_parameter_value_mapping = [(0, v)], objective_value = dbl_of_int 0, objectives = [], extraInfo = [],
     phase_identifier_range = [], phases_in_cluster = []\<rparr>)])]"

definition example_node :: "nat \<Rightarrow> string \<Rightarrow> int \<Rightarrow> rts_node" where
  "example_node a name v = \<lparr>node_address = a, isValidRts = True, parent_scorep_id = int a,
     reg = Some \<lparr>fileName = ''main.c'', firstLine = 7, reg_name = name, is_significant = True\<rparr>,
     parameter = [], tuning_plugin_result = threads_result v\<rparr>"

definition small_tree :: rts_tree where
  "small_tree = RtsNode (example_node 0 ''main'' 4) [RtsNode (example_node 1 ''solve'' 2) []]"

definition threads_heap :: tp_store where
  "threads_heap p = \<lparr>tp_ID = 0, pluginType = 0, runtimeActionType = 0, tp_name = ''threads'', rangeFrom = 1, rangeTo = 8,
     rangeStep = 1, default_val = 1, stringValues = [], tp_restriction = None\<rparr>"

definition small_paths :: "rts_pointer list" where
  "small_paths = [[example_node 0 ''main'' 4, example_node 1 ''solve'' 2], [example_node 0 ''main'' 4]]"

lemma small_filter: "filter_rtss front_orders small_tree = ret small_paths"
  by (simp add: filter_rtss_def small_tree_def small_paths_def keeps_def example_node_def threads_result_def
      front_orders_def us_insert_def)

lemma small_convert: "\<exists>new. convert_rtss front_orders threads_heap small_paths [] = ret new"
proof -
  have "case convert_rtss front_orders threads_heap small_paths [] of Some (Inr new) \<Rightarrow> True | _ \<Rightarrow> False" by code_simp
  then show ?thesis by (auto simp: ret_def split: option.splits sum.splits)
qed

theorem converted_well_formed_witness:
  "\<exists>new tps. convert_rtss front_orders threads_heap small_paths [] = ret new \<and> typed_parameters tps \<and> length new = 2 \<and>
    (\<forall>r \<in> set new. typed_configuration tps (rts_configuration r))"
proof -
  obtain new where new: "convert_rtss front_orders threads_heap small_paths [] = ret new" using small_convert by blast
  from converted_well_formed [OF front_orders_ok new] new show ?thesis by (auto simp: small_paths_def)
qed

theorem model_advises_best_witness:
  "\<exists>ss. generate_tuning_model front_orders (\<lambda>xs. xs) threads_heap small_tree [] (equality_cluster front_hashing (\<lambda>bs. bs))
      (random_selector front_hashing) = ret (ss, []) \<and>
    advice ss = {#(\<lparr>rid_line = 7, rid_file = ''main.c'', rid_name = ''solve''\<rparr>, [''threads'' \<mapsto> 2]),
                  (\<lparr>rid_line = 7, rid_file = ''main.c'', rid_name = ''main''\<rparr>, [''threads'' \<mapsto> 4])#}"
proof -
  obtain new where new: "convert_rtss front_orders threads_heap small_paths [] = ret new" using small_convert by blast
  have phases: "extract_cluster_phases (\<lambda>xs. xs) small_tree = ret []"
    by (simp add: extract_cluster_phases_def small_tree_def example_node_def)
  have H: "hashing_of front_orders = front_hashing" by (simp add: front_orders_def)
  have advised: "mset (map (\<lambda>p. (region_of (last p), best_values threads_heap (last p))) small_paths) =
      {#(\<lparr>rid_line = 7, rid_file = ''main.c'', rid_name = ''solve''\<rparr>, [''threads'' \<mapsto> 2]),
        (\<lparr>rid_line = 7, rid_file = ''main.c'', rid_name = ''main''\<rparr>, [''threads'' \<mapsto> 4])#}"
    by (simp add: small_paths_def example_node_def region_of_def best_values_def best_settings_def settings_def threads_result_def
        best_result_def sm_at_def sm_find_def threads_heap_def ret_def cbind_def)
  note model = model_advises_best [OF front_orders_ok order_id small_filter, of "\<lambda>xs. xs" threads_heap "[]", unfolded H advised]
  from model [THEN conjunct2, THEN conjunct2, THEN conjunct2, rule_format, OF conjI, OF new phases]
  show ?thesis by blast
qed

text \<open>Two models with the same runtime situation merge into one with it once.\<close>

definition example_rts :: tm_rts where
  "example_rts = \<lparr>rts_rtsid = \<lparr>rtsid_callpath = [], rtsid_iid = no_identifiers,
      rtsid_region = \<lparr>rid_line = 7, rid_file = ''main.c'', rid_name = ''main''\<rparr>\<rparr>,
     rts_exectime = dbl_of_int 1, rts_configuration = example_configuration 1\<rparr>"

definition one_scenario :: "tm_scenario uset" where
  "one_scenario = [\<lparr>scenario_config = example_configuration 1, scenario_rtss = [example_rts]\<rparr>]"

theorem merge_keeps_each_once_witness:
  "\<exists>ss. merge_models front_orders [one_scenario, one_scenario] (random_selector front_hashing) (equality_cluster front_hashing (\<lambda>bs. bs)) = ret ss \<and>
     members ss = {#example_rts#}"
proof -
  have all: "model_rtss [one_scenario, one_scenario] = {example_rts}" by (simp add: model_rtss_def one_scenario_def)
  have H: "hashing_of front_orders = front_hashing" by (simp add: front_orders_def)
  have "\<forall>r \<in> model_rtss [one_scenario, one_scenario]. configuration_ok (rts_configuration r)"
    unfolding all by (simp add: example_rts_def)
  from merge_keeps_each_once [OF front_orders_ok order_id this] obtain ss ids where
    ss: "merge_models front_orders [one_scenario, one_scenario] (random_selector front_hashing) (equality_cluster front_hashing (\<lambda>bs. bs)) = ret ss"
    "set_mset (members ss) \<subseteq> {example_rts}" "\<exists>m \<in># members ss. same_rts front_orders (rts_rtsid example_rts) (rts_rtsid m)"
    and ids: "image_mset rts_rtsid (members ss) = mset ids" "sorted_wrt (\<lambda>a b. \<not> same_rts front_orders a b) ids"
    unfolding all H by blast
  have same: "same_rts front_orders a a" for a by (simp add: same_rts_def)
  have "set ids = rts_rtsid ` set_mset (members ss)" using arg_cong [OF ids(1), of set_mset] by simp
  then have "set ids \<subseteq> {rts_rtsid example_rts}" using ss(2) by auto
  then have "length ids \<le> 1" using ids(2) same
    by (cases ids; cases "tl ids") auto
  then have "size (members ss) \<le> 1" using arg_cong [OF ids(1), of size] by simp
  moreover have "members ss \<noteq> {#}" using ss(3) by auto
  ultimately obtain m where "members ss = {#m#}" by (metis One_nat_def le_less less_one size_eq_0_iff_empty size_1_singleton_mset)
  with ss(1,2) show ?thesis by simp
qed

end
