(* ===== verification/Spec2Isabelle.thy ===== *)
theory Spec2Isabelle
  imports IntraphaseSteps InterphaseSteps InterphaseRun RandomSampling ExperimentFlow TuningModelCorrect ClusterSplit
begin

text \<open>
  The Periscope Tuning Framework (READEX): a verification library of the part that decides what is measured,
  what the best measurement is, and what advice comes out.

  \<^bold>\<open>The program.\<close> The frontend (\<open>frontend/src\<close>) starts an application and a network of agents
  and lets a tuning plugin (\<open>autotune/plugins\<close>) drive experiments. The plugin describes what can be changed
  as tuning parameters in search spaces (\<open>autotune/datamodel\<close>); a search algorithm
  (\<open>autotune/searchalgorithms\<close>) turns them into scenarios; the plugin prepares scenarios and defines
  experiments by moving them through the pools (\<open>ScenarioPool\<close>, \<open>ScenarioPoolSet\<close>); the frontend's
  driver (\<open>PeriscopeFrontend::run_tuning_plugin\<close>) raises the events of a state machine
  (\<open>autotune_msm\<close>) whose actions call the plugin, send strategy requests to the agents and file the
  properties they report in the results pools; the search evaluates objective functions
  (\<open>autotune/services/src/search_common.cc\<close>) on them and names an optimum. For READEX the results
  stored in the call tree become a tuning model (\<open>frontend/src/tuning_model\<close>): runtime situations are
  clustered by their configurations and every cluster becomes a scenario.

  \<^bold>\<open>Conventions\<close> (\<open>Prelude\<close>). An operation that can fail or not return is a computation
  \<open>'a comp\<close>: \<open>ret v\<close>, \<open>fail e\<close> with the exception, abort or undefined behaviour as a value of
  \<open>cxx_error\<close>, or not returning. \<open>cbind\<close> is \<open>;\<close>, \<open>cfold\<close> a loop over a container,
  \<open>loop\<close> a while loop, which has no fuel: a loop that never ends is the value \<open>None\<close>, so that
  \<open>total\<close> and \<open>ends\<close> state that the code returns. \<open>check\<close> is a guard. An \<open>int\<close> is
  an integer whose overflow is the undefined behaviour \<open>UB\<close>; identifiers that wrap are words; a
  \<open>double\<close> is IEEE binary64 with computable arithmetic (\<open>Binary64\<close>), text conversions are
  \<open>CString\<close>; \<open>std::map\<close> is a sorted association list with the program's uses of it
  (\<open>StdMap\<close>), the unordered containers are lists whose order is an argument of the model with the one
  law that it permutes (\<open>Unordered\<close>). Objects shared by pointer live in a store, objects with one owner
  are values.

  \<^bold>\<open>The theories.\<close>
  \<^item> \<open>DataModel\<close>: \<open>Restriction\<close>, \<open>TuningParameter\<close>, \<open>SearchSpace\<close>,
    \<open>Variant\<close>, \<open>TuningSpecification\<close>, \<open>PropertyRequest\<close>, \<open>Scenario\<close> as records with
    their constructors and setters.
  \<^item> \<open>Scenario\<close>: printing and reading identifiers, which ranks a scenario affects.
  \<^item> \<open>Pools\<close>: \<open>ScenarioPool\<close>, \<open>ScenarioPoolSet\<close>, \<open>ScenarioResultsPool\<close> with its
    mutex and \<open>AnalysisResultsPool\<close>. Well-formedness is an invariant of every operation; popping returns
    the least scenario; a failed push leaves the mutex locked.
  \<^item> \<open>MetaProperty\<close>: encoding and decoding of region names and process configurations, with round
    trips. \<open>Objectives\<close>: all objective functions, with their meaning as sums, maxima and products.
  \<^item> \<open>SearchCommon\<close>: the state all searches work on, recording optimum and worst.
    \<open>Exhaustive\<close>: the walk through all combinations (equal to the product of the parameters' values,
    exactly the legal ones, with a zero step anywhere in the walk as the non-terminating case) and its evaluation. \<open>Individual\<close>: one parameter per
    step, around the exhaustive search. \<open>RandomSampling\<close>: samples of the uniform model.
  \<^item> \<open>AutotuneMSM\<close>: states, events, transition table and actions of \<open>autotune_msm\<close>.
    \<open>Driver\<close>: the nested loops of \<open>run_tuning_plugin\<close> for any plugin, and which plugins make
    it raise an invalid event. \<open>DemoPlugin\<close>: the demonstration plugin, composed with the exhaustive
    search and the driver: whatever the surroundings do, the run follows the machine.
    \<open>ExperimentFlow\<close>: what happens to scenarios and properties on their way, and the shape of the
    accepted event sequences.
  \<^item> \<open>TuningData\<close>: \<open>tuning.h\<close>, \<open>configuration.h\<close>. \<open>Dendrogram\<close>: \<open>matrix.h\<close>,
    \<open>distance.h\<close>, \<open>vector.h\<close> and the agglomeration of \<open>dendrogram.cc\<close>, which ends with one
    tree of all leaves. \<open>DendrogramCut\<close>: the three cuts of \<open>dendrogram.cc\<close> and when they divide the
    leaves. \<open>Clusterer\<close>: \<open>clusterer.cc\<close>. \<open>TuningModelGen\<close>: \<open>tuning_model.cc\<close>,
    \<open>conversion.cc\<close>, \<open>phase.cc\<close>, \<open>merge.cc\<close> and the records of \<open>rts.h\<close>,
    \<open>identifiers.h\<close>, \<open>callpath.h\<close>, \<open>region.h\<close>, \<open>scenario.h\<close>.
    \<open>TuningModelCorrect\<close>: what generation and merging promise, from the contract of a clusterer.
  \<^item> \<open>AppRegions\<close>: \<open>application.cc\<close> and \<open>Region.cc\<close>, the regions of the tuned application in a store,
    with the tables that find them; \<open>AppRegionsCorrect\<close>: regions are found again while numbers and lines stay
    in their places of the key, and are mixed up beyond. \<open>WireText\<close>: the codes for blanks and markup
    (\<open>string_helper.cc\<close>), and exactly which names survive them.
  \<^item> \<open>CallTree\<close>: the call tree of \<open>rts.cc\<close>, nodes and parameters in stores. \<open>CallPaths\<close>: the pass that
    sets call paths, validity and parameters, on every tree. \<open>AgentTree\<close>: the agent's construction builds the
    tree a buffer in preorder describes. \<open>FrontendTree\<close>: the frontend rebuilds that tree from the nodes sent.
    \<open>ClusterSplit\<close>: what goes wrong when the tree is split by clusters or identifiers are reused.
  \<^item> \<open>IntraphasePlugin\<close>: \<open>readex_intraphase.cc\<close>, every operation of the READEX plugin with the search behind the
    record of its virtual operations. \<open>IntraphaseCorrect\<close>: its ranges, and that it stores the best setting of every
    runtime situation. \<open>IntraphaseSteps\<close>: the verification scenarios, the number of steps, what an experiment asks for,
    what goes wrong, and the whole run: driver, state machine, plugin, search, pools and call tree together, with an
    example that is evaluated from the start of the program to its advice.
  \<^item> \<open>PhaseClusters\<close>: features, distances, radius and clusters of the phases in \<open>readex_interphase.cc\<close>, the globals of
    the name space \<open>interph\<close> as a record. \<open>DensityClusters\<close>: clustering returns, and what it returns is a density
    clustering for the radius read off the neighbours. \<open>InterphasePlugin\<close>: every operation of the READEX inter-phase
    plugin. \<open>InterphaseCorrect\<close>: the end of the first step gives every cluster and each runtime situation in it the
    setting of their best phase. \<open>InterphaseSteps\<close>: three steps with one restart each, the scenarios of the later ones,
    what a phase without a cluster does to them, the way of a call path into the clusters and back. \<open>InterphaseRun\<close>:
    the run of the inter-phase plugin with its random search under the driver follows the machine.

  \<^bold>\<open>Interfaces.\<close> The locales state what a client asks of its provider and are interpreted on the
  definitions of the code: \<open>ordered_map\<close> what the pools rely on in \<open>std::map\<close>,
  \<open>better_order\<close> the comparison of the minimum and maximum objectives, \<open>search_algorithm\<close> what an
  evaluation step keeps (interpreted for the exhaustive, the individual and the random search),
  \<open>tuning_plugin\<close> what the driver silently relies on in a plugin (interpreted for the demonstration
  plugin and the READEX intra-phase plugin with the exhaustive search, and for the inter-phase plugin with
  the random search), \<open>clusterer_contract\<close> what the generator relies on in a clusterer (interpreted for both). The
  plugin a driver runs is a record of functions, so that the statements about the driver hold for every plugin;
  agents, application, clock and dynamic libraries are the parameter \<open>outside\<close> of the driver, the random
  generator a parameter of the random search, \<open>std::sort\<close> a parameter of the individual search with the
  documented contract as hypothesis.

  \<^bold>\<open>Bounds.\<close> No fuel is used. Machine integers are checked at their width wherever the code
  computes with them; sizes of containers are taken to fit \<open>size_t\<close>. Square roots are the correctly
  rounded ones.

  \<^bold>\<open>Not modelled.\<close> The agents (\<open>aagent\<close> apart from its regions and call tree,
  \<open>hagent\<close>, \<open>registry\<close>), the Score-P side and the communication: they are measurement,
  sockets and processes. The plugins other than the demonstration and the two READEX
  plugins for tuning within and between phases (models of hardware and vendor interfaces, tables of coefficients)
  and searches (\<open>gde3\<close>, \<open>activeharmony\<close>, \<open>load\<close> and the vendored \<open>svm\<close>). The main
  state machine of the frontend and \<open>ApplicationStarter\<close> start processes. Serialisation is the library
  cereal's and Boost's. Printing is output only. The manifest lists every part with its reason.
\<close>

end
